(* ===== verification/Prelude.thy ===== *)
theory Prelude
  imports Main "HOL-Library.Sublist" "HOL-Library.Char_ord" "HOL-Library.List_Lexorder"
    "HOL-Library.Multiset"
begin

text \<open>
  The shared base of the development: the parts of the Go language and standard library the
  modelled code uses on strings and maps, and the generic lemmas and fact collections the
  component theories rely on.

  A Go string is a list of bytes (\<^typ>\<open>string\<close>, the order of \<open>Char_ord\<close> and
  \<open>List_Lexorder\<close> being Go's bytewise \<open><\<close>). Case conversion is that of the
  ASCII letters. A Go map whose iteration order does not matter is a partial function; where
  the code ranges over a map the model takes an association list, in the order the iteration
  happens to visit it, so a theorem for all lists is a theorem for all iteration orders.
\<close>

section \<open>Fact collections\<close>

text \<open>\<open>go_defs\<close> holds the definitions of the small string functions below.\<close>
named_theorems go_defs

section \<open>Strings\<close>

definition go_lower_char :: "char \<Rightarrow> char" where
  [go_defs]: "go_lower_char c =
     (let n = of_char c :: nat in if 65 \<le> n \<and> n \<le> 90 then char_of (n + 32) else c)"

definition go_upper_char :: "char \<Rightarrow> char" where
  [go_defs]: "go_upper_char c =
     (let n = of_char c :: nat in if 97 \<le> n \<and> n \<le> 122 then char_of (n - 32) else c)"

definition to_lower :: "string \<Rightarrow> string" where
  [go_defs]: "to_lower s = map go_lower_char s"

definition to_upper :: "string \<Rightarrow> string" where
  [go_defs]: "to_upper s = map go_upper_char s"

text \<open>The white space \<open>strings.TrimSpace\<close> removes, for the single-byte code points.\<close>
definition is_space :: "char \<Rightarrow> bool" where
  [go_defs]: "is_space c = ((of_char c :: nat) \<in> {9, 10, 11, 12, 13, 32})"

definition trim_right_by :: "(char \<Rightarrow> bool) \<Rightarrow> string \<Rightarrow> string" where
  [go_defs]: "trim_right_by p s = rev (dropWhile p (rev s))"

definition trim_space :: "string \<Rightarrow> string" where
  [go_defs]: "trim_space s = trim_right_by is_space (dropWhile is_space s)"

text \<open>\<open>strings.TrimPrefix\<close> and \<open>strings.CutSuffix\<close>.\<close>
definition trim_prefix :: "string \<Rightarrow> string \<Rightarrow> string" where
  [go_defs]: "trim_prefix s p = (if prefix p s then drop (length p) s else s)"

definition cut_suffix :: "string \<Rightarrow> string \<Rightarrow> string option" where
  [go_defs]: "cut_suffix s x = (if suffix x s then Some (take (length s - length x) s) else None)"

text \<open>\<open>strings.Index\<close>: the position of the first occurrence.\<close>
fun index_of :: "string \<Rightarrow> string \<Rightarrow> nat option" where
  "index_of p [] = (if p = [] then Some 0 else None)"
| "index_of p (c # s) =
     (if prefix p (c # s) then Some 0 else map_option Suc (index_of p s))"

text \<open>The part of a string before the first occurrence of a separator, or all of it.\<close>
definition before_first :: "string \<Rightarrow> string \<Rightarrow> string" where
  [go_defs]: "before_first p s = (case index_of p s of None \<Rightarrow> s | Some i \<Rightarrow> take i s)"

definition is_digit :: "char \<Rightarrow> bool" where
  [go_defs]: "is_digit c = (48 \<le> (of_char c :: nat) \<and> (of_char c :: nat) \<le> 57)"

definition digit_val :: "char \<Rightarrow> nat" where
  [go_defs]: "digit_val c = of_char c - 48"

lemma index_of_le: "index_of p s = Some i \<Longrightarrow> i + length p \<le> length s"
  by (induction p s arbitrary: i rule: index_of.induct)
     (auto split: if_splits dest: prefix_length_le)

lemma index_of_prefix: "index_of p s = Some i \<Longrightarrow> prefix p (drop i s)"
  by (induction p s arbitrary: i rule: index_of.induct) (auto split: if_splits)

lemma index_of_None_iff: "index_of p s = None \<longleftrightarrow> \<not> sublist p s"
  by (induction p s rule: index_of.induct) (auto simp: sublist_Cons_right)

lemma index_of_single: "index_of [c] s = None \<longleftrightarrow> c \<notin> set s"
  by (induction s) auto

lemma before_first_single: "before_first [c] s = takeWhile (\<lambda>x. x \<noteq> c) s"
proof (induction s)
  case Nil
  then show ?case by (simp add: before_first_def)
next
  case (Cons x s)
  then show ?case
    by (cases "index_of [c] s") (auto simp: before_first_def)
qed

lemma prefix_before_first: "prefix (before_first p s) s"
  by (auto simp: before_first_def take_is_prefix split: option.splits)

lemma trim_space_plain: "s \<noteq> [] \<Longrightarrow> \<not> is_space (hd s) \<Longrightarrow> \<not> is_space (last s) \<Longrightarrow> trim_space s = s"
proof -
  assume a: "s \<noteq> []" "\<not> is_space (hd s)" "\<not> is_space (last s)"
  then have d: "dropWhile is_space s = s" by (cases s) simp_all
  have "rev s = last s # rev (butlast s)" using a(1) by (metis append_butlast_last_id rev_eq_Cons_iff rev_rev_ident)
  then have "dropWhile is_space (rev s) = rev s" using a(3) by (metis dropWhile.simps(2))
  then show ?thesis by (simp add: trim_space_def trim_right_by_def d)
qed

lemma length_to_lower [simp]: "length (to_lower s) = length s"
  by (simp add: to_lower_def)

lemma to_lower_append [simp]: "to_lower (s @ t) = to_lower s @ to_lower t"
  by (simp add: to_lower_def)

section \<open>Association lists in iteration order\<close>

type_synonym ('k, 'v) amap = "('k \<times> 'v) list"

text \<open>A counter kept in a Go map: reading a missing key gives zero, \<open>m[k]++\<close> stores one more.\<close>

definition count_of :: "('k \<rightharpoonup> nat) \<Rightarrow> 'k \<Rightarrow> nat" where
  "count_of counts key = (case counts key of Some n \<Rightarrow> n | None \<Rightarrow> 0)"

definition increment :: "'k \<Rightarrow> ('k \<rightharpoonup> nat) \<Rightarrow> ('k \<rightharpoonup> nat)" where
  "increment key counts = counts(key \<mapsto> count_of counts key + 1)"

lemma count_of_increment:
  "count_of (increment key counts) j = count_of counts j + (if key = j then 1 else 0)"
  by (simp add: count_of_def increment_def)

lemma count_of_empty [simp]: "count_of Map.empty key = 0"
  by (simp add: count_of_def)

lemma dom_increment [simp]: "dom (increment key counts) = dom counts \<union> {key}"
  by (auto simp: increment_def)

lemma map_of_distinct_perm:
  assumes "distinct (map fst xs)" and "set xs = set ys" and "distinct (map fst ys)"
  shows "map_of xs = map_of ys"
  using assms by (metis map_of_inject_set)

section \<open>Lists\<close>

lemma sum_list_map_add:
  "sum_list (map (\<lambda>x. f x + g x) xs) = sum_list (map f xs) + (sum_list (map g xs) :: nat)"
  by (induction xs) auto

lemma length_filter_partition:
  "length (filter P xs) + length (filter (\<lambda>x. \<not> P x) xs) = length xs"
  by (induction xs) auto

lemma find_neq_None [simp]: "find P xs \<noteq> None \<longleftrightarrow> (\<exists>x\<in>set xs. P x)"
  by (induction xs) auto

lemma find_SomeD: "find P xs = Some x \<Longrightarrow> x \<in> set xs \<and> P x"
  by (induction xs) (auto split: if_splits)

lemma find_SomeI: "x \<in> set xs \<Longrightarrow> P x \<Longrightarrow> \<exists>y. find P xs = Some y"
  by (induction xs) auto

lemma list_ex_iff_Bex: "list_ex P xs \<longleftrightarrow> (\<exists>x\<in>set xs. P x)"
  by (simp add: list_ex_iff)

section \<open>Tables\<close>

text \<open>\<open>UPDATE ... SET ... WHERE\<close> and \<open>DELETE ... WHERE\<close> on a table kept as the list of its rows.\<close>

definition update_where :: "('r \<Rightarrow> bool) \<Rightarrow> ('r \<Rightarrow> 'r) \<Rightarrow> 'r list \<Rightarrow> 'r list" where
  "update_where P f tbl = map (\<lambda>r. if P r then f r else r) tbl"

definition delete_where :: "('r \<Rightarrow> bool) \<Rightarrow> 'r list \<Rightarrow> 'r list" where
  "delete_where P tbl = filter (\<lambda>r. \<not> P r) tbl"

lemma set_update_where: "set (update_where P f tbl) = (\<lambda>r. if P r then f r else r) ` set tbl"
  by (simp add: update_where_def)

lemma set_delete_where [simp]: "set (delete_where P tbl) = {r \<in> set tbl. \<not> P r}"
  by (auto simp: delete_where_def)

lemma map_update_where:
  "(\<And>r. P r \<Longrightarrow> g (f r) = g r) \<Longrightarrow> map g (update_where P f tbl) = map g tbl"
  by (simp add: update_where_def)

lemma distinct_delete_where: "distinct (map g tbl) \<Longrightarrow> distinct (map g (delete_where P tbl))"
  by (simp add: delete_where_def distinct_map_filter)

text \<open>The row with a given key, when keys are unique.\<close>

definition row_of :: "('r \<Rightarrow> 'k) \<Rightarrow> 'k \<Rightarrow> 'r list \<Rightarrow> 'r option" where
  "row_of key k tbl = find (\<lambda>r. key r = k) tbl"

lemma row_of_Some: "row_of key k tbl = Some r \<Longrightarrow> r \<in> set tbl \<and> key r = k"
  unfolding row_of_def by (rule find_SomeD)

lemma row_of_None: "row_of key k tbl = None \<longleftrightarrow> k \<notin> key ` set tbl"
  unfolding row_of_def by (auto simp: find_None_iff)

lemma row_of_iff:
  "distinct (map key tbl) \<Longrightarrow> row_of key k tbl = Some r \<longleftrightarrow> r \<in> set tbl \<and> key r = k"
  unfolding row_of_def by (induction tbl) auto

lemma row_of_update_where:
  assumes "\<And>r. P r \<Longrightarrow> key (f r) = key r"
  shows "row_of key k (update_where P f tbl)
         = map_option (\<lambda>r. if P r then f r else r) (row_of key k tbl)"
  unfolding row_of_def update_where_def by (induction tbl) (auto simp: assms)

lemma row_of_updated:
  assumes "row_of key k tbl = Some r" and "\<And>r. key (f r) = key r"
  shows "row_of key k (update_where (\<lambda>r. key r = k) f tbl) = Some (f r)"
  using row_of_Some [OF assms(1)] assms by (simp add: row_of_update_where)

lemma row_of_append:
  "row_of key k (tbl @ [r]) =
     (case row_of key k tbl of Some x \<Rightarrow> Some x | None \<Rightarrow> if key r = k then Some r else None)"
  unfolding row_of_def by (induction tbl) auto

end
