(* ===== verification/Cop_Table.thy ===== *)
theory Cop_Table
  imports Prelude
begin

text \<open>
  The curated cop mapping table (\<open>internal/remediation/copmapping.go\<close>): one entry for each
  entry of \<open>embeddedCopMappings\<close> and of \<open>polyMethodCopVariants\<close>, in the order of the source.
  An entry keeps the fields that decide a classification (cop name, lifecycle versions); the
  three fields that hold the documentation shown to the reader (\<open>Description\<close>,
  \<open>MigrationURL\<close>, \<open>ReplacementPattern\<close>) take no part in any decision and are left out.
\<close>

record cop_mapping =
  cm_cop_name :: string
  cm_introduced_in :: string
  cm_removed_in :: string

definition cop :: "string \<Rightarrow> string \<Rightarrow> string \<Rightarrow> cop_mapping" where
  "cop n i r = \<lparr>cm_cop_name = n, cm_introduced_in = i, cm_removed_in = r\<rparr>"

record cop_variant =
  cv_token :: string
  cv_mapping :: cop_mapping

definition variant :: "string \<Rightarrow> cop_mapping \<Rightarrow> cop_variant" where
  "variant t m = \<lparr>cv_token = t, cv_mapping = m\<rparr>"

definition cop_mappings_lint_0 :: "cop_mapping list" where
  "cop_mappings_lint_0 = [
    cop ''Lint/DeprecatedClassMethods'' '''' ''19.0'',
    cop ''Lint/BigDecimalNew'' '''' ''19.0'',
    cop ''Lint/UnifiedInteger'' '''' ''19.0'',
    cop ''Lint/DeprecatedConstants'' '''' ''19.0'']"

definition cop_mappings_deprecations_1 :: "cop_mapping list" where
  "cop_mappings_deprecations_1 = [
    cop ''Chef/Deprecations/UsesChefRESTHelpers'' ''12.0'' ''13.0'',
    cop ''Chef/Deprecations/ChefShellout'' ''12.0'' ''13.0'',
    cop ''Chef/Deprecations/UsesDeprecatedMixins'' ''12.0'' ''14.0'',
    cop ''Chef/Deprecations/ResourceUsesDslNameMethod'' ''12.0'' ''13.0'',
    cop ''Chef/Deprecations/NodeSetWithoutLevel'' ''11.0'' ''11.0'',
    cop ''Chef/Deprecations/PartialSearchClassUsage'' ''12.0'' ''19.0'',
    cop ''Chef/Deprecations/PartialSearchHelperUsage'' ''12.0'' ''19.0'',
    cop ''Chef/Deprecations/EpicFail'' ''12.0'' ''19.0'',
    cop ''Chef/Deprecations/ResourceWithoutUnifiedTrue'' ''15.3'' '''',
    cop ''Chef/Deprecations/ChefHandlerUsesSupports'' ''12.0'' ''14.0'']"

definition cop_mappings_deprecations_2 :: "cop_mapping list" where
  "cop_mappings_deprecations_2 = [
    cop ''Chef/Deprecations/ChefRewind'' ''12.10'' ''14.0'',
    cop ''Chef/Deprecations/ChefSugarHelpers'' ''15.5'' '''',
    cop ''Chef/Deprecations/CookbookDependsOnCompatResource'' ''12.19'' ''14.0'',
    cop ''Chef/Deprecations/CookbookDependsOnPartialSearch'' ''12.0'' ''14.0'',
    cop ''Chef/Deprecations/CookbookDependsOnPoise'' ''14.0'' '''',
    cop ''Chef/Deprecations/DeprecatedPlatformMethods'' ''13.0'' ''15.0'',
    cop ''Chef/Deprecations/DeprecatedShelloutMethods'' ''14.3'' ''15.0'',
    cop ''Chef/Deprecations/DeprecatedWindowsVersionCheck'' ''14.0'' '''',
    cop ''Chef/Deprecations/DeprecatedYumRepositoryActions'' ''12.14'' '''',
    cop ''Chef/Deprecations/EasyInstallResource'' ''12.10'' ''13.0'']"

definition cop_mappings_deprecations_3 :: "cop_mapping list" where
  "cop_mappings_deprecations_3 = [
    cop ''Chef/Deprecations/EOLAuditModeUsage'' ''13.0'' ''15.0'',
    cop ''Chef/Deprecations/ErlCallResource'' ''12.0'' ''13.0'',
    cop ''Chef/Deprecations/HWRPWithoutUnifiedTrue'' ''15.3'' '''',
    cop ''Chef/Deprecations/LegacyNotifySyntax'' ''10.0'' ''13.0'',
    cop ''Chef/Deprecations/LogResourceNotifications'' ''15.8'' '''',
    cop ''Chef/Deprecations/NamePropertyWithDefaultValue'' ''13.0'' '''',
    cop ''Chef/Deprecations/NodeDeepFetch'' ''15.0'' '''',
    cop ''Chef/Deprecations/NodeMethodsInsteadofAttributes'' ''13.0'' ''16.0'',
    cop ''Chef/Deprecations/NodeSet'' ''12.12'' ''14.0'',
    cop ''Chef/Deprecations/NodeSetUnless'' ''12.12'' ''14.0'']"

definition cop_mappings_deprecations_4 :: "cop_mapping list" where
  "cop_mappings_deprecations_4 = [
    cop ''Chef/Deprecations/PoiseArchiveUsage'' ''15.0'' '''',
    cop ''Chef/Deprecations/ResourceInheritsFromCompatResource'' ''12.19'' ''14.0'',
    cop ''Chef/Deprecations/ResourceOverridesProvidesMethod'' ''13.0'' '''',
    cop ''Chef/Deprecations/ResourceUsesProviderBaseMethod'' ''12.0'' '''',
    cop ''Chef/Deprecations/ResourceUsesUpdatedMethod'' ''12.0'' ''13.0'',
    cop ''Chef/Deprecations/RubyBlockCreateAction'' ''12.0'' '''',
    cop ''Chef/Deprecations/SearchUsesPositionalParameters'' ''12.0'' '''',
    cop ''Chef/Deprecations/UseInlineResourcesDefined'' ''12.0'' '''',
    cop ''Chef/Deprecations/UsesRunCommandHelper'' ''12.0'' ''13.0'']"

definition cop_mappings_deprecations_5 :: "cop_mapping list" where
  "cop_mappings_deprecations_5 = [
    cop ''Chef/Deprecations/WindowsFeatureServermanagercmd'' ''14.0'' ''15.0'',
    cop ''Chef/Deprecations/WindowsPackageInstallerTypeString'' ''13.0'' '''',
    cop ''Chef/Deprecations/WindowsTaskChangeAction'' ''13.0'' '''',
    cop ''Chef/Sharing/DefaultMetadataMaintainer'' ''12.0'' '''',
    cop ''Chef/Deprecations/PolicyfileCommunitySource'' ''14.0'' '''',
    cop ''Chef/Deprecations/RequireRecipe'' ''10.0'' ''14.0'',
    cop ''Chef/Deprecations/ChefWindowsPlatformHelper'' ''14.0'' '''',
    cop ''Chef/Deprecations/VerifyPropertyUsesFileExpansion'' ''12.5'' '''',
    cop ''Chef/Deprecations/UseAutomaticResourceName'' ''16.0'' '''',
    cop ''Chef/Deprecations/DependsOnOmnibusUpdaterCookbook'' ''14.0'' '''']"

definition cop_mappings_deprecations_6 :: "cop_mapping list" where
  "cop_mappings_deprecations_6 = [
    cop ''Chef/Deprecations/DependsOnChefNginxCookbook'' ''14.0'' '''',
    cop ''Chef/Deprecations/FoodcriticTesting'' ''14.0'' '''',
    cop ''Chef/Deprecations/LibrarianChefSpec'' ''14.0'' '''',
    cop ''Chef/Deprecations/UserDeprecatedSupportsProperty'' ''12.14'' ''13.0'',
    cop ''Chef/Deprecations/MacosUserdefaultsGlobalProperty'' ''15.0'' '''',
    cop ''Chef/Deprecations/IncludingYumDNFCompatRecipe'' ''15.0'' '''',
    cop ''Chef/Deprecations/IncludingXMLRubyRecipe'' ''15.0'' '''',
    cop ''Chef/Deprecations/ChefDKGenerators'' ''15.0'' '''']"

definition cop_mappings_correctness_7 :: "cop_mapping list" where
  "cop_mappings_correctness_7 = [
    cop ''Chef/Correctness/BlockGuardWithOnlyString'' ''12.0'' '''',
    cop ''Chef/Correctness/ConditionalRubyShellout'' ''12.0'' '''',
    cop ''Chef/Correctness/CookbookUsesNodeSave'' ''12.0'' '''',
    cop ''Chef/Correctness/DnfPackageAllowDowngrades'' ''15.0'' '''',
    cop ''Chef/Correctness/IncorrectLibraryInjection'' ''12.0'' '''',
    cop ''Chef/Correctness/InvalidPlatformMetadata'' ''12.0'' '''',
    cop ''Chef/Correctness/InvalidVersionMetadata'' ''12.0'' '''',
    cop ''Chef/Correctness/MetadataMissingName'' ''12.0'' '''',
    cop ''Chef/Correctness/NodeNormal'' ''12.0'' '''',
    cop ''Chef/Correctness/NodeNormalUnless'' ''12.0'' '''']"

definition cop_mappings_correctness_8 :: "cop_mapping list" where
  "cop_mappings_correctness_8 = [
    cop ''Chef/Correctness/NotifiesActionNotSymbol'' ''12.0'' '''',
    cop ''Chef/Correctness/ResourceSetsInternalProperties'' ''12.0'' '''',
    cop ''Chef/Correctness/ResourceSetsNameProperty'' ''12.0'' '''',
    cop ''Chef/Correctness/ResourceWithNoneAction'' ''12.0'' '''',
    cop ''Chef/Correctness/ScopedFileExist'' ''12.0'' '''',
    cop ''Chef/Correctness/ServiceResource'' ''12.0'' '''',
    cop ''Chef/Correctness/TmpPath'' ''12.0'' '''',
    cop ''Chef/Correctness/InvalidNotificationTiming'' ''12.0'' '''',
    cop ''Chef/Correctness/InvalidDefaultAction'' ''12.5'' '''',
    cop ''Chef/Correctness/LazyEvalNodeAttributeDefaults'' ''12.0'' '''']"

definition cop_mappings_correctness_9 :: "cop_mapping list" where
  "cop_mappings_correctness_9 = [
    cop ''Chef/Correctness/ChefApplicationFatal'' ''12.0'' '''',
    cop ''Chef/Correctness/PowershellScriptDeleteFile'' ''12.0'' '''']"


definition poly_method_cop_variants :: "(string \<times> cop_variant list) list" where
  "poly_method_cop_variants = [
    (''Lint/DeprecatedConstants'', [
       variant ''Net::HTTPServerException'' (cop ''Lint/DeprecatedConstants'' '''' '''')]),
    (''Lint/DeprecatedClassMethods'', [
       variant ''File.exists?'' (cop ''Lint/DeprecatedClassMethods'' '''' ''19.0''),
       variant ''Dir.exists?'' (cop ''Lint/DeprecatedClassMethods'' '''' ''19.0''),
       variant ''Socket.gethostbyname'' (cop ''Lint/DeprecatedClassMethods'' '''' ''''),
       variant ''Socket.gethostbyaddr'' (cop ''Lint/DeprecatedClassMethods'' '''' ''''),
       variant ''ENV.clone'' (cop ''Lint/DeprecatedClassMethods'' '''' ''19.0''),
       variant ''ENV.dup'' (cop ''Lint/DeprecatedClassMethods'' '''' ''19.0''),
       variant ''ENV.freeze'' (cop ''Lint/DeprecatedClassMethods'' '''' ''19.0''),
       variant ''iterator?'' (cop ''Lint/DeprecatedClassMethods'' '''' ''''),
       variant ''attr'' (cop ''Lint/DeprecatedClassMethods'' '''' '''')])]"

definition embedded_cop_mappings :: "cop_mapping list" where
  "embedded_cop_mappings =
     cop_mappings_lint_0
       @ cop_mappings_deprecations_1
       @ cop_mappings_deprecations_2
       @ cop_mappings_deprecations_3
       @ cop_mappings_deprecations_4
       @ cop_mappings_deprecations_5
       @ cop_mappings_deprecations_6
       @ cop_mappings_correctness_7
       @ cop_mappings_correctness_8
       @ cop_mappings_correctness_9"

lemmas cop_table_defs =
  embedded_cop_mappings_def cop_mappings_lint_0_def cop_mappings_deprecations_1_def cop_mappings_deprecations_2_def cop_mappings_deprecations_3_def cop_mappings_deprecations_4_def cop_mappings_deprecations_5_def cop_mappings_deprecations_6_def cop_mappings_correctness_7_def cop_mappings_correctness_8_def cop_mappings_correctness_9_def

end
