(* ===== verification/Go_Path.thy ===== *)
theory Go_Path
  imports Prelude
begin

text \<open>
  The two functions of Go's \<open>path\<close> and \<open>path/filepath\<close> packages the modelled code
  uses: \<open>Match\<close> (shell globs, with its syntax errors as \<open>None\<close>) and \<open>Clean\<close>
  (lexical normalisation of a slash-separated path). Both follow the standard library's
  algorithm on single-byte characters.
\<close>

section \<open>Glob matching\<close>

text \<open>
  A pattern is read chunk by chunk: \<open>scan_chunk\<close> strips the leading stars and returns the
  text up to the next star outside a bracket.
\<close>

fun chunk_len :: "bool \<Rightarrow> string \<Rightarrow> nat" where
  "chunk_len inrange [] = 0"
| "chunk_len inrange (c # cs) =
     (if c = CHR 0x5C then (case cs of [] \<Rightarrow> 1 | _ # ds \<Rightarrow> 2 + chunk_len inrange ds)
      else if c = CHR ''['' then Suc (chunk_len True cs)
      else if c = CHR '']'' then Suc (chunk_len False cs)
      else if c = CHR ''*'' \<and> \<not> inrange then 0
      else Suc (chunk_len inrange cs))"

definition scan_chunk :: "string \<Rightarrow> bool \<times> string \<times> string" where
  "scan_chunk p =
     (let q = dropWhile (\<lambda>c. c = CHR ''*'') p; n = chunk_len False q
      in (q \<noteq> p, take n q, drop n q))"

text \<open>Every round of the matcher consumes a non-empty part of the pattern.\<close>

lemma chunk_len_pos: "cs \<noteq> [] \<Longrightarrow> hd cs \<noteq> CHR ''*'' \<Longrightarrow> 0 < chunk_len False cs"
  by (cases cs) (auto split: list.splits)

lemma scan_chunk_shorter:
  assumes "p \<noteq> []" and "scan_chunk p = (star, chunk, rest)"
  shows "length rest < length p"
proof -
  let ?q = "dropWhile (\<lambda>c. c = CHR ''*'') p"
  have rest: "rest = drop (chunk_len False ?q) ?q"
    using assms(2) by (auto simp: scan_chunk_def Let_def)
  show ?thesis
  proof (cases "?q = []")
    case True
    with rest assms(1) show ?thesis by simp
  next
    case False
    have "hd ?q \<noteq> CHR ''*''"
      using hd_dropWhile [OF False] by simp
    then have "0 < chunk_len False ?q"
      using chunk_len_pos False by blast
    moreover have "length ?q \<le> length p"
      by (rule length_dropWhile_le)
    ultimately show ?thesis
      using False rest by (cases ?q) auto
  qed
qed

text \<open>One possibly escaped character of a bracket: \<open>None\<close> is \<open>ErrBadPattern\<close>.\<close>

fun get_esc :: "string \<Rightarrow> (char \<times> string) option" where
  "get_esc [] = None"
| "get_esc (c # cs) =
     (if c = CHR ''-'' \<or> c = CHR '']'' then None
      else if c = CHR 0x5C then
        (case cs of [] \<Rightarrow> None | d # ds \<Rightarrow> if ds = [] then None else Some (d, ds))
      else if cs = [] then None else Some (c, cs))"

lemma get_esc_length: "get_esc cs = Some (c, ds) \<Longrightarrow> length ds < length cs"
  by (cases cs) (auto split: if_splits list.splits)

lemma get_esc_ne: "get_esc cs = Some (c, ds) \<Longrightarrow> ds \<noteq> []"
  by (cases cs) (auto split: if_splits list.splits)

declare get_esc.simps [simp del]

text \<open>
  The ranges of a bracket, after the opening bracket and the optional caret. \<open>n\<close> is
  \<open>nrange > 0\<close>: a closing bracket ends the class only after the first range. The result is
  whether the character is in one of the ranges, and the rest of the chunk.
\<close>

function bracket :: "char \<Rightarrow> bool \<Rightarrow> bool \<Rightarrow> string \<Rightarrow> (bool \<times> string) option" where
  "bracket r m n chunk =
     (case chunk of
        [] \<Rightarrow> None
      | c # cs \<Rightarrow>
        (if c = CHR '']'' \<and> n then Some (m, cs)
         else case get_esc chunk of
           None \<Rightarrow> None
         | Some (lo, rest) \<Rightarrow>
           (case rest of
              d # ds \<Rightarrow>
                (if d = CHR ''-'' then
                   (case get_esc ds of
                      None \<Rightarrow> None
                    | Some (hi, rest') \<Rightarrow> bracket r (m \<or> (lo \<le> r \<and> r \<le> hi)) True rest')
                 else bracket r (m \<or> lo = r) True rest)
            | [] \<Rightarrow> None)))"
  by pat_completeness auto
termination
  by (relation "measure (\<lambda>(r, m, n, chunk). length chunk)")
     (auto dest!: get_esc_length)

declare bracket.simps [simp del]

lemma bracket_length: "bracket r m n cs = Some (b, ds) \<Longrightarrow> length ds < length cs"
proof (induction "length cs" arbitrary: m n cs rule: less_induct)
  case less
  then obtain c cs' where cs: "cs = c # cs'"
    by (cases cs) (auto simp: bracket.simps [of r m n "[]"])
  show ?case
  proof (cases "c = CHR '']'' \<and> n")
    case True
    with less.prems cs show ?thesis by (subst (asm) bracket.simps) auto
  next
    case False
    note eq = bracket.simps [of r m n "c # cs'"]
    obtain lo rest where g: "get_esc cs = Some (lo, rest)"
      using less.prems cs False by (auto simp: eq split: option.splits if_splits)
    note len = get_esc_length [OF g]
    obtain d es where rest: "rest = d # es" using get_esc_ne [OF g] by (cases rest) auto
    show ?thesis
    proof (cases "d = CHR ''-''")
      case True
      then obtain hi rest' where h: "get_esc es = Some (hi, rest')"
        and b: "bracket r (m \<or> (lo \<le> r \<and> r \<le> hi)) True rest' = Some (b, ds)"
        using less.prems False cs g rest
        by (auto simp: eq split: option.splits if_splits)
      have "length rest' < length cs" using get_esc_length [OF h] len rest by simp
      with less.hyps [OF this b] show ?thesis by simp
    next
      case dash: False
      have b: "bracket r (m \<or> lo = r) True rest = Some (b, ds)"
        using less.prems False cs g rest dash by (auto simp: eq split: if_splits)
      with less.hyps [OF len b] len show ?thesis by simp
    qed
  qed
qed

datatype chunk_result = Bad_Pattern | No_Match | Rest string

text \<open>
  \<open>matchChunk\<close>: after a failure (\<open>s = None\<close>) the chunk is still read to its end for
  syntax errors. The character a failed bracket compares against is irrelevant.
\<close>

function match_chunk :: "string \<Rightarrow> string option \<Rightarrow> chunk_result" where
  "match_chunk chunk s =
     (case chunk of
        [] \<Rightarrow> (case s of None \<Rightarrow> No_Match | Some t \<Rightarrow> Rest t)
      | c # cs \<Rightarrow>
        (let s1 = (case s of Some (x # xs) \<Rightarrow> Some (x, xs) | _ \<Rightarrow> None)
         in if c = CHR ''['' then
              (let negated = (case cs of d # _ \<Rightarrow> d = CHR ''^'' | [] \<Rightarrow> False);
                   body = (if negated then drop 1 cs else cs);
                   r = (case s1 of None \<Rightarrow> CHR ''x'' | Some (x, _) \<Rightarrow> x)
               in case bracket r False False body of
                    None \<Rightarrow> Bad_Pattern
                  | Some (m, rest) \<Rightarrow>
                      match_chunk rest
                        (case s1 of None \<Rightarrow> None
                         | Some (_, xs) \<Rightarrow> if m = negated then None else Some xs))
            else if c = CHR ''?'' then
              match_chunk cs
                (case s1 of None \<Rightarrow> None
                 | Some (x, xs) \<Rightarrow> if x = CHR ''/'' then None else Some xs)
            else if c = CHR 0x5C then
              (case cs of
                 [] \<Rightarrow> Bad_Pattern
               | d # ds \<Rightarrow>
                   match_chunk ds
                     (case s1 of None \<Rightarrow> None
                      | Some (x, xs) \<Rightarrow> if d = x then Some xs else None))
            else
              match_chunk cs
                (case s1 of None \<Rightarrow> None
                 | Some (x, xs) \<Rightarrow> if c = x then Some xs else None)))"
  by pat_completeness auto
termination
  by (relation "measure (\<lambda>(chunk, s). length chunk)")
     (auto dest!: bracket_length split: list.splits if_splits)

declare match_chunk.simps [simp del]

text \<open>The rest of the pattern is checked for syntax errors before a mismatch is reported.\<close>

function pattern_ok :: "string \<Rightarrow> bool" where
  "pattern_ok p =
     (if p = [] then True
      else case scan_chunk p of
        (_, chunk, rest) \<Rightarrow>
          (if match_chunk chunk (Some []) = Bad_Pattern then False else pattern_ok rest))"
  by pat_completeness auto
termination
  by (relation "measure length") (auto dest: scan_chunk_shorter [OF _ sym])

declare pattern_ok.simps [simp del]

text \<open>
  The star: try the chunk after skipping \<open>1, 2, ...\<close> characters of the name, none of them a
  slash. \<open>final\<close> says that no pattern is left, in which case the name must be exhausted.
\<close>

fun star_tries :: "string \<Rightarrow> bool \<Rightarrow> string \<Rightarrow> chunk_result" where
  "star_tries chunk final [] = No_Match"
| "star_tries chunk final (c # cs) =
     (if c = CHR ''/'' then No_Match
      else case match_chunk chunk (Some cs) of
        Rest t \<Rightarrow> if final \<and> t \<noteq> [] then star_tries chunk final cs else Rest t
      | Bad_Pattern \<Rightarrow> Bad_Pattern
      | No_Match \<Rightarrow> star_tries chunk final cs)"

text \<open>
  \<open>path.Match\<close>: \<open>None\<close> is \<open>ErrBadPattern\<close>.
\<close>

function path_match :: "string \<Rightarrow> string \<Rightarrow> bool option" where
  "path_match p name =
     (if p = [] then Some (name = [])
      else case scan_chunk p of
        (star, chunk, rest) \<Rightarrow>
          (if star \<and> chunk = [] then Some (CHR ''/'' \<notin> set name)
           else
             (let first = match_chunk chunk (Some name);
                  fail = (if pattern_ok rest then Some False else None)
              in case first of
                   Bad_Pattern \<Rightarrow> None
                 | Rest t \<Rightarrow>
                     (if t = [] \<or> rest \<noteq> [] then path_match rest t
                      else if star then
                        (case star_tries chunk (rest = []) name of
                           Rest u \<Rightarrow> path_match rest u
                         | Bad_Pattern \<Rightarrow> None
                         | No_Match \<Rightarrow> fail)
                      else fail)
                 | No_Match \<Rightarrow>
                     (if star then
                        (case star_tries chunk (rest = []) name of
                           Rest u \<Rightarrow> path_match rest u
                         | Bad_Pattern \<Rightarrow> None
                         | No_Match \<Rightarrow> fail)
                      else fail))))"
  by pat_completeness auto
termination
  by (relation "measure (\<lambda>(p, name). length p)") (auto dest: scan_chunk_shorter [OF _ sym])

declare path_match.simps [simp del]

subsection \<open>Patterns without metacharacters\<close>

definition plain_char :: "char \<Rightarrow> bool" where
  "plain_char c = (c \<noteq> CHR ''*'' \<and> c \<noteq> CHR ''?'' \<and> c \<noteq> CHR ''['' \<and> c \<noteq> CHR 0x5C)"

lemma chunk_len_plain:
  "list_all plain_char p \<Longrightarrow> chunk_len b p = length p"
  by (induction b p rule: chunk_len.induct) (auto simp: plain_char_def)

lemma scan_chunk_plain:
  assumes "list_all plain_char p"
  shows "scan_chunk p = (False, p, [])"
proof -
  have "dropWhile (\<lambda>c. c = CHR ''*'') p = p"
    using assms by (cases p) (auto simp: plain_char_def)
  with assms show ?thesis
    by (simp add: scan_chunk_def chunk_len_plain)
qed

lemma match_chunk_failed_Cons:
  "plain_char c \<Longrightarrow> match_chunk (c # cs) None = match_chunk cs None"
  by (subst match_chunk.simps) (auto simp: plain_char_def)

lemma match_chunk_Cons:
  "plain_char c \<Longrightarrow> match_chunk (c # cs) (Some s) =
     match_chunk cs (case s of [] \<Rightarrow> None | x # xs \<Rightarrow> if c = x then Some xs else None)"
  by (subst match_chunk.simps) (auto simp: plain_char_def split: list.splits)

lemma match_chunk_plain_failed:
  "list_all plain_char p \<Longrightarrow> match_chunk p None = No_Match"
  by (induction p) (simp_all add: match_chunk_failed_Cons match_chunk.simps [of "[]"])

lemma match_chunk_plain:
  "list_all plain_char p \<Longrightarrow>
     match_chunk p (Some s) = (if prefix p s then Rest (drop (length p) s) else No_Match)"
proof (induction p arbitrary: s)
  case Nil
  then show ?case by (simp add: match_chunk.simps)
next
  case (Cons c p)
  then show ?case
    by (cases s) (auto simp: match_chunk_Cons match_chunk_plain_failed)
qed

text \<open>A pattern with no metacharacter matches exactly itself.\<close>

lemma path_match_plain:
  assumes "list_all plain_char p"
  shows "path_match p name = Some (name = p)"
proof (cases "p = []")
  case True
  then show ?thesis by (simp add: path_match.simps)
next
  case False
  have ok: "pattern_ok []" by (simp add: pattern_ok.simps)
  have nil: "path_match [] t = Some (t = [])" for t by (simp add: path_match.simps)
  show ?thesis
    using False assms
    by (subst path_match.simps)
       (auto simp: scan_chunk_plain match_chunk_plain ok nil Let_def elim: prefixE
             split: chunk_result.splits)
qed

text \<open>A pattern whose only metacharacter is a star at its end: a prefix, and no slash after it.\<close>

lemma chunk_len_plain_star:
  "list_all plain_char p \<Longrightarrow> chunk_len False (p @ ''*'') = length p"
proof (induction p)
  case (Cons c p)
  then show ?case by (cases p) (auto simp: plain_char_def)
qed simp

lemma scan_chunk_plain_star:
  assumes "list_all plain_char p" and "p \<noteq> []"
  shows "scan_chunk (p @ ''*'') = (False, p, ''*'')"
proof -
  have "dropWhile (\<lambda>c. c = CHR ''*'') (p @ ''*'') = p @ ''*''"
    using assms by (cases p) (auto simp: plain_char_def)
  with assms chunk_len_plain_star [OF assms(1)] show ?thesis
    by (simp add: scan_chunk_def)
qed

lemma path_match_star: "path_match ''*'' name = Some (CHR ''/'' \<notin> set name)"
  by (subst path_match.simps) (simp add: scan_chunk_def)

lemma path_match_plain_star:
  assumes "list_all plain_char p" and "p \<noteq> []"
  shows "path_match (p @ ''*'') name =
           Some (prefix p name \<and> CHR ''/'' \<notin> set (drop (length p) name))"
proof -
  have ok: "pattern_ok ''*''"
    by (subst pattern_ok.simps)
       (simp add: scan_chunk_def match_chunk.simps [of "[]"] pattern_ok.simps [of "[]"])
  show ?thesis
    using assms
    by (subst path_match.simps)
       (simp add: scan_chunk_plain_star match_chunk_plain ok path_match_star)
qed

section \<open>Path cleaning\<close>

text \<open>
  \<open>path.Clean\<close> on components: empty and \<open>.\<close> components go, \<open>..\<close> removes the
  component before it, or is dropped at the root, or is kept at the start of a relative path.
  The accumulator is the output so far, last component first.
\<close>

fun split_slash :: "string \<Rightarrow> string list" where
  "split_slash [] = [[]]"
| "split_slash (c # cs) =
     (if c = CHR ''/'' then [] # split_slash cs
      else (case split_slash cs of w # ws \<Rightarrow> (c # w) # ws | [] \<Rightarrow> [[c]]))"

definition dot :: string where
  "dot = ''.''"

definition dotdot :: string where
  "dotdot = ''..''"

fun clean_parts :: "bool \<Rightarrow> string list \<Rightarrow> string list \<Rightarrow> string list" where
  "clean_parts rooted acc [] = rev acc"
| "clean_parts rooted acc (w # ws) =
     (if w = [] \<or> w = dot then clean_parts rooted acc ws
      else if w = dotdot then
        (case acc of
           [] \<Rightarrow> clean_parts rooted (if rooted then [] else [dotdot]) ws
         | a # as \<Rightarrow> clean_parts rooted (if a = dotdot then dotdot # acc else as) ws)
      else clean_parts rooted (w # acc) ws)"

fun join_slash :: "string list \<Rightarrow> string" where
  "join_slash [] = []"
| "join_slash [w] = w"
| "join_slash (w # ws) = w @ CHR ''/'' # join_slash ws"

definition is_abs :: "string \<Rightarrow> bool" where
  "is_abs p = prefix ''/'' p"

definition path_clean :: "string \<Rightarrow> string" where
  "path_clean p =
     (if p = [] then ''.''
      else let ws = clean_parts (is_abs p) [] (split_slash p)
           in if is_abs p then CHR ''/'' # join_slash ws
              else if ws = [] then ''.'' else join_slash ws)"

lemma split_slash_nonempty [simp]: "split_slash s \<noteq> []"
  by (induction s) (auto split: list.splits)

lemma split_slash_no_slash: "w \<in> set (split_slash s) \<Longrightarrow> CHR ''/'' \<notin> set w"
  by (induction s arbitrary: w) (auto split: list.splits if_splits)

lemma dotdot_neq [simp]: "dotdot \<noteq> []" "dotdot \<noteq> dot" "dot \<noteq> dotdot" "dot \<noteq> []"
  by (simp_all add: dot_def dotdot_def)

text \<open>
  The form of the output, read from its last component: real components, after any number of
  leading \<open>..\<close> (none when rooted).
\<close>

definition proper_part :: "string \<Rightarrow> bool" where
  "proper_part w \<longleftrightarrow> w \<noteq> [] \<and> w \<noteq> dot \<and> w \<noteq> dotdot"

fun clean_rev :: "bool \<Rightarrow> string list \<Rightarrow> bool" where
  "clean_rev rooted [] = True"
| "clean_rev rooted (a # as) =
     (if a = dotdot then \<not> rooted \<and> list_all (\<lambda>x. x = dotdot) as
      else proper_part a \<and> clean_rev rooted as)"

lemma clean_rev_dotdots: "list_all (\<lambda>x. x = dotdot) as \<Longrightarrow> clean_rev False as"
  by (cases as) auto

lemma clean_parts_cases:
  obtains (skip) "w = [] \<or> w = dot" "clean_parts r acc (w # ws) = clean_parts r acc ws"
  | (root) "w = dotdot" "acc = []"
      "clean_parts r acc (w # ws) = clean_parts r (if r then [] else [dotdot]) ws"
  | (up) a as where "w = dotdot" "acc = a # as"
      "clean_parts r acc (w # ws) = clean_parts r (if a = dotdot then dotdot # a # as else as) ws"
  | (name) "proper_part w" "clean_parts r acc (w # ws) = clean_parts r (w # acc) ws"
  by (cases acc) (auto simp: proper_part_def)

lemma clean_parts_form: "clean_rev r acc \<Longrightarrow> clean_rev r (rev (clean_parts r acc ws))"
proof (induction ws arbitrary: acc)
  case (Cons w ws)
  show ?case
  proof (cases rule: clean_parts_cases [of w r acc ws])
    case skip
    with Cons show ?thesis by (simp del: clean_parts.simps)
  next
    case root
    have "clean_rev r (if r then [] else [dotdot])" by simp
    from Cons.IH [OF this] root show ?thesis by (simp del: clean_parts.simps)
  next
    case (up a as)
    have "clean_rev r (if a = dotdot then dotdot # a # as else as)"
      using Cons.prems up(2) by (simp split: if_splits)
    from Cons.IH [OF this] up show ?thesis by (simp del: clean_parts.simps)
  next
    case name
    have "clean_rev r (w # acc)"
      using Cons.prems name(1) by (simp add: proper_part_def)
    from Cons.IH [OF this] name show ?thesis by (simp del: clean_parts.simps)
  qed
qed simp

text \<open>Without a \<open>..\<close> at its head, a cleaned path has no \<open>..\<close> at all.\<close>

lemma clean_rev_no_dotdot:
  "clean_rev r ws \<Longrightarrow> last ws \<noteq> dotdot \<Longrightarrow> dotdot \<notin> set ws"
proof (induction ws)
  case (Cons a as)
  show ?case
  proof (cases "a = dotdot")
    case True
    with Cons.prems have "list_all (\<lambda>x. x = dotdot) (a # as)" by simp
    then have "last (a # as) = dotdot" 
      using last_in_set [of "a # as"] by (auto simp only: list_all_iff list.distinct simp_thms)
    with Cons.prems show ?thesis by simp
  next
    case False
    with Cons show ?thesis by (cases as) auto
  qed
qed simp

lemma clean_rev_parts:
  "clean_rev r ws \<Longrightarrow> w \<in> set ws \<Longrightarrow> w = dotdot \<or> proper_part w"
  by (induction ws) (auto simp: list_all_iff split: if_splits)

lemma clean_parts_subset:
  "set (clean_parts r acc ws) \<subseteq> set acc \<union> set ws \<union> {dotdot}"
proof (induction ws arbitrary: acc)
  case (Cons w ws)
  show ?case
  proof (cases rule: clean_parts_cases [of w r acc ws])
    case skip
    with Cons.IH [of acc] show ?thesis by (auto simp del: clean_parts.simps)
  next
    case root
    with Cons.IH [of "if r then [] else [dotdot]"] show ?thesis by (auto simp del: clean_parts.simps split: if_splits)
  next
    case (up a as)
    with Cons.IH [of "if a = dotdot then dotdot # a # as else as"]
    show ?thesis by (auto simp del: clean_parts.simps split: if_splits)
  next
    case name
    with Cons.IH [of "w # acc"] show ?thesis by (auto simp del: clean_parts.simps)
  qed
qed auto

subsection \<open>Cleaning splits and joins components\<close>

lemma split_slash_append: "CHR ''/'' \<notin> set w \<Longrightarrow> split_slash (w @ CHR ''/'' # s) = w # split_slash s"
  by (induction w) (auto split: list.splits)

lemma split_slash_plain: "CHR ''/'' \<notin> set w \<Longrightarrow> split_slash w = [w]"
  by (induction w) (auto split: list.splits)

lemma split_join:
  "ws \<noteq> [] \<Longrightarrow> (\<And>w. w \<in> set ws \<Longrightarrow> CHR ''/'' \<notin> set w) \<Longrightarrow> split_slash (join_slash ws) = ws"
  by (induction ws rule: join_slash.induct) (auto simp: split_slash_plain split_slash_append)

lemma join_slash_Cons: "ws \<noteq> [] \<Longrightarrow> join_slash (w # ws) = w @ CHR ''/'' # join_slash ws"
  by (cases ws) simp_all

lemma join_slash_char: "join_slash ((c # w) # ws) = c # join_slash (w # ws)"
  by (cases ws) simp_all

lemma join_split: "join_slash (split_slash s) = s"
proof (induction s)
  case (Cons c s)
  then show ?case
    by (cases "split_slash s") (auto simp: join_slash_char join_slash_Cons)
qed simp

end
