(* ===== verification/Scan_Scope.thy ===== *)
theory Scan_Scope
  imports Go_Path
begin

text \<open>
  The scan scope (\<open>internal/analysis/scan_scope.go\<close>): which files of a repository are
  cookbook code. The curated exclusion list, the merge of the operator's decisions over it, and
  the lookup of a path. A \<open>ScanScope\<close> pointer is an option, \<open>None\<close> being nil.
\<close>

section \<open>The exclusion list\<close>

record scan_exclusion =
  se_pattern :: string
  se_reason :: string

definition exclusion :: "string \<Rightarrow> string \<Rightarrow> scan_exclusion" where
  "exclusion p r = \<lparr>se_pattern = p, se_reason = r\<rparr>"

definition default_scan_scope_exclusions :: "scan_exclusion list" where
  "default_scan_scope_exclusions = [
     exclusion ''Rakefile'' ''A developer task runner. Chef never loads it during a converge; it runs on a workstation or a build agent.'',
     exclusion ''Gemfile'' ''Declares the developer's Ruby toolchain, not the cookbook. Chef Infra Client does not read it on a node.'',
     exclusion ''Gemfile.lock'' ''The resolved developer toolchain that accompanies the Gemfile. Not loaded during a converge.'',
     exclusion ''spec/*'' ''ChefSpec and RSpec unit tests. They execute on a workstation or in CI against a simulated run, never on a converging node.'',
     exclusion ''test/*'' ''Integration test suites. They execute against a converged node from outside it, not as part of the converge.'',
     exclusion ''kitchen.yml*'' ''Test Kitchen configuration, consumed by the test harness on a workstation or build agent. Never read by Chef Infra Client.'',
     exclusion ''.kitchen.yml*'' ''The older dotfile spelling of the Test Kitchen configuration, same reason as kitchen.yml.'',
     exclusion ''.github/*'' ''CI workflow definitions. They run on the build system, not on a machine Chef converges.'',
     exclusion ''Jenkinsfile*'' ''A pipeline definition. It runs on the build agent, not on a machine Chef converges.'']"

type_synonym scan_scope = "scan_exclusion list option"

definition new_scan_scope :: "scan_exclusion list \<Rightarrow> scan_scope" where
  "new_scan_scope exs = Some exs"

definition default_scan_scope :: scan_scope where
  "default_scan_scope = new_scan_scope default_scan_scope_exclusions"

section \<open>The operator's decisions\<close>

text \<open>A row of \<open>datastore.ScanScopeExclusion\<close>, in the fields the merge reads.\<close>

record scope_row =
  sr_pattern :: string
  sr_excluded :: bool
  sr_reason :: string

definition row_exclusion :: "scope_row \<Rightarrow> scan_exclusion" where
  "row_exclusion r = exclusion (sr_pattern r) (sr_reason r)"

text \<open>The \<open>decision\<close> map: the last row of a pattern wins.\<close>

definition scope_decision :: "scope_row list \<Rightarrow> string \<rightharpoonup> scope_row" where
  "scope_decision rows = map_of (rev (map (\<lambda>r. (sr_pattern r, r)) rows))"

fun merge_curated :: "scope_row list \<Rightarrow> scan_exclusion list \<Rightarrow> scan_exclusion list" where
  "merge_curated rows [] = []"
| "merge_curated rows (ex # exs) =
     (case scope_decision rows (se_pattern ex) of
        None \<Rightarrow> ex # merge_curated rows exs
      | Some row \<Rightarrow>
          if \<not> sr_excluded row then merge_curated rows exs
          else row_exclusion row # merge_curated rows exs)"

definition merge_scan_scope_exclusions ::
  "scan_exclusion list \<Rightarrow> scope_row list \<Rightarrow> scan_exclusion list" where
  "merge_scan_scope_exclusions curated rows =
     merge_curated rows curated
       @ map row_exclusion
           (filter (\<lambda>r. \<not> (sr_pattern r \<in> set (map se_pattern curated) \<or> \<not> sr_excluded r)) rows)"

text \<open>
  \<open>NewScanScopeFromStore\<close>: the store is \<open>None\<close> for a nil store, \<open>Some None\<close> when the
  list cannot be read, \<open>Some (Some rows)\<close> otherwise.
\<close>

definition new_scan_scope_from_store :: "scope_row list option option \<Rightarrow> scan_scope" where
  "new_scan_scope_from_store store =
     (case store of
        None \<Rightarrow> new_scan_scope default_scan_scope_exclusions
      | Some None \<Rightarrow> new_scan_scope default_scan_scope_exclusions
      | Some (Some rows) \<Rightarrow>
          new_scan_scope (merge_scan_scope_exclusions default_scan_scope_exclusions rows))"

section \<open>Looking a path up\<close>

definition replace_char :: "char \<Rightarrow> char \<Rightarrow> string \<Rightarrow> string" where
  "replace_char a b s = map (\<lambda>c. if c = a then b else c) s"

definition normalise_scan_path :: "string \<Rightarrow> string" where
  "normalise_scan_path p =
     path_clean (trim_prefix (trim_prefix (replace_char CHR 0x5C CHR ''/'' p) ''./'') ''/'')"

definition matches_scan_pattern :: "string \<Rightarrow> string \<Rightarrow> bool" where
  "matches_scan_pattern pattern f =
     (if pattern = [] then False
      else case cut_suffix pattern ''/*'' of
        Some dir \<Rightarrow> f = dir \<or> prefix (dir @ ''/'') f
      | None \<Rightarrow> (case path_match pattern f of Some b \<Rightarrow> b | None \<Rightarrow> False))"

definition scan_excluded :: "scan_scope \<Rightarrow> string \<Rightarrow> scan_exclusion option" where
  "scan_excluded scope f =
     (case scope of
        None \<Rightarrow> None
      | Some exs \<Rightarrow>
          if f = [] then None
          else
            let norm = normalise_scan_path f
            in if norm = [] then None
               else find (\<lambda>ex. matches_scan_pattern (se_pattern ex) norm) exs)"

definition excludes_path :: "scan_scope \<Rightarrow> string \<Rightarrow> bool" where
  "excludes_path scope f = (scan_excluded scope f \<noteq> None)"

section \<open>Facts about the lookup\<close>

lemma path_clean_nonempty: "path_clean p \<noteq> []"
proof -
  let ?ws = "clean_parts (is_abs p) [] (split_slash p)"
  have form: "clean_rev (is_abs p) (rev ?ws)"
    by (rule clean_parts_form) simp
  show ?thesis
  proof (cases ?ws)
    case Nil
    then show ?thesis by (auto simp: path_clean_def)
  next
    case (Cons w ws)
    have "w = dotdot \<or> proper_part w"
      using clean_rev_parts [OF form, of w] Cons by auto
    then have "w \<noteq> []" using dotdot_neq(1) by (metis proper_part_def)
    with Cons show ?thesis by (cases ws) (auto simp: path_clean_def Let_def)
  qed
qed

lemma normalise_scan_path_nonempty: "normalise_scan_path f \<noteq> []"
  by (simp add: normalise_scan_path_def path_clean_nonempty)

lemma excludes_path_iff:
  "excludes_path scope f \<longleftrightarrow>
     (\<exists>exs ex. scope = Some exs \<and> f \<noteq> [] \<and> ex \<in> set exs
        \<and> matches_scan_pattern (se_pattern ex) (normalise_scan_path f))"
proof (cases scope)
  case None
  then show ?thesis by (simp add: excludes_path_def scan_excluded_def)
next
  case (Some exs)
  then show ?thesis
    by (simp add: excludes_path_def scan_excluded_def normalise_scan_path_nonempty Let_def
          Bex_def del: not_None_eq)
qed

lemma matches_dir_pattern:
  "matches_scan_pattern (dir @ ''/*'') f \<longleftrightarrow> f = dir \<or> prefix (dir @ ''/'') f"
proof -
  have "suffix ''/*'' (dir @ ''/*'')" by (simp only: suffix_def) blast
  then show ?thesis by (auto simp: matches_scan_pattern_def cut_suffix_def)
qed

lemma matches_plain_pattern:
  assumes "list_all plain_char p" and "p \<noteq> []"
  shows "matches_scan_pattern p f \<longleftrightarrow> f = p"
proof -
  have "\<not> suffix ''/*'' p"
    using assms(1) by (auto simp: suffix_def plain_char_def)
  with assms show ?thesis
    by (simp add: matches_scan_pattern_def cut_suffix_def path_match_plain)
qed

lemma matches_star_pattern:
  assumes "list_all plain_char p" and "p \<noteq> []" and "last p \<noteq> CHR ''/''"
  shows "matches_scan_pattern (p @ ''*'') f \<longleftrightarrow>
           prefix p f \<and> CHR ''/'' \<notin> set (drop (length p) f)"
proof -
  have "\<not> suffix ''/*'' (p @ ''*'')"
    using assms(3) by (cases p rule: rev_cases) (auto simp: suffix_def)
  with assms show ?thesis
    by (simp add: matches_scan_pattern_def cut_suffix_def path_match_plain_star)
qed

text \<open>The files the curated list excludes, spelled out.\<close>

definition curated_out_of_scope :: "string \<Rightarrow> bool" where
  "curated_out_of_scope f \<longleftrightarrow>
     f = ''Rakefile'' \<or> f = ''Gemfile'' \<or> f = ''Gemfile.lock''
     \<or> f = ''spec'' \<or> prefix ''spec/'' f
     \<or> f = ''test'' \<or> prefix ''test/'' f
     \<or> (prefix ''kitchen.yml'' f \<and> CHR ''/'' \<notin> set (drop 11 f))
     \<or> (prefix ''.kitchen.yml'' f \<and> CHR ''/'' \<notin> set (drop 12 f))
     \<or> f = ''.github'' \<or> prefix ''.github/'' f
     \<or> (prefix ''Jenkinsfile'' f \<and> CHR ''/'' \<notin> set (drop 11 f))"

lemma default_pattern_facts:
  "matches_scan_pattern ''Rakefile'' f \<longleftrightarrow> f = ''Rakefile''"
  "matches_scan_pattern ''Gemfile'' f \<longleftrightarrow> f = ''Gemfile''"
  "matches_scan_pattern ''Gemfile.lock'' f \<longleftrightarrow> f = ''Gemfile.lock''"
  "matches_scan_pattern ''spec/*'' f \<longleftrightarrow> f = ''spec'' \<or> prefix ''spec/'' f"
  "matches_scan_pattern ''test/*'' f \<longleftrightarrow> f = ''test'' \<or> prefix ''test/'' f"
  "matches_scan_pattern ''.github/*'' f \<longleftrightarrow> f = ''.github'' \<or> prefix ''.github/'' f"
  "matches_scan_pattern ''kitchen.yml*'' f \<longleftrightarrow>
     prefix ''kitchen.yml'' f \<and> CHR ''/'' \<notin> set (drop 11 f)"
  "matches_scan_pattern ''.kitchen.yml*'' f \<longleftrightarrow>
     prefix ''.kitchen.yml'' f \<and> CHR ''/'' \<notin> set (drop 12 f)"
  "matches_scan_pattern ''Jenkinsfile*'' f \<longleftrightarrow>
     prefix ''Jenkinsfile'' f \<and> CHR ''/'' \<notin> set (drop 11 f)"
  using matches_plain_pattern [of "''Rakefile''" f] matches_plain_pattern [of "''Gemfile''" f]
    matches_plain_pattern [of "''Gemfile.lock''" f]
    matches_dir_pattern [of "''spec''" f] matches_dir_pattern [of "''test''" f]
    matches_dir_pattern [of "''.github''" f]
    matches_star_pattern [of "''kitchen.yml''" f] matches_star_pattern [of "''.kitchen.yml''" f]
    matches_star_pattern [of "''Jenkinsfile''" f]
  by (simp_all add: plain_char_def eval_nat_numeral)

lemma default_pattern_matches:
  "(\<exists>ex\<in>set default_scan_scope_exclusions. matches_scan_pattern (se_pattern ex) f)
     \<longleftrightarrow> curated_out_of_scope f"
  unfolding default_scan_scope_exclusions_def exclusion_def curated_out_of_scope_def
  by (simp add: default_pattern_facts disj_assoc)

text \<open>The members of the merged list.\<close>

lemma scope_decision_pattern: "scope_decision rows p = Some row \<Longrightarrow> sr_pattern row = p"
  by (auto simp: scope_decision_def dest!: map_of_SomeD)

lemma scope_decision_None:
  "scope_decision rows p = None \<longleftrightarrow> p \<notin> set (map sr_pattern rows)"
  by (auto simp: scope_decision_def map_of_eq_None_iff image_image)

lemma scope_decision_unique:
  assumes "distinct (map sr_pattern rows)"
  shows "scope_decision rows p = Some row \<longleftrightarrow> row \<in> set rows \<and> sr_pattern row = p"
proof -
  have "distinct (map fst (rev (map (\<lambda>r. (sr_pattern r, r)) rows)))"
    using assms by (simp add: rev_map comp_def) (simp add: rev_map [symmetric])
  from map_of_eq_Some_iff [OF this] show ?thesis
    by (auto simp: scope_decision_def)
qed

lemma merge_curated_mem:
  "ex \<in> set (merge_curated rows curated) \<longleftrightarrow>
     (\<exists>c\<in>set curated. case scope_decision rows (se_pattern c) of
        None \<Rightarrow> ex = c | Some row \<Rightarrow> sr_excluded row \<and> ex = row_exclusion row)"
  by (induction curated) (auto split: option.splits)

lemma row_exclusion_pattern [simp]: "se_pattern (row_exclusion r) = sr_pattern r"
  by (simp add: row_exclusion_def exclusion_def)

lemma scope_decision_row:
  assumes "distinct (map sr_pattern rows)" and "row \<in> set rows"
  shows "scope_decision rows (sr_pattern row) = Some row"
  using scope_decision_unique [OF assms(1)] assms(2) by simp

lemma merge_curated_rows:
  assumes "distinct (map sr_pattern rows)"
  shows "ex \<in> set (merge_curated rows curated) \<longleftrightarrow>
     (ex \<in> set curated \<and> scope_decision rows (se_pattern ex) = None)
     \<or> (\<exists>row\<in>set rows. sr_pattern row \<in> set (map se_pattern curated)
          \<and> sr_excluded row \<and> ex = row_exclusion row)" (is "_ \<longleftrightarrow> ?C curated")
proof (induction curated)
  case (Cons c curated)
  show ?case
  proof (cases "scope_decision rows (se_pattern c)")
    case None
    then have "\<forall>r\<in>set rows. sr_pattern r \<noteq> se_pattern c"
      by (metis scope_decision_None image_eqI set_map)
    with None Cons show ?thesis by auto
  next
    case (Some row)
    then have row: "row \<in> set rows" "sr_pattern row = se_pattern c"
      by (simp_all add: scope_decision_unique [OF assms])
    have uniq: "r = row" if "r \<in> set rows" "sr_pattern r = se_pattern c" for r
      using scope_decision_row [OF assms that(1)] that(2) Some by simp
    let ?P = "se_pattern ` set curated"
    have e: "(\<exists>r\<in>set rows. sr_pattern r \<in> insert (se_pattern c) ?P \<and> sr_excluded r
                \<and> ex = row_exclusion r)
        \<longleftrightarrow> (sr_excluded row \<and> ex = row_exclusion row)
          \<or> (\<exists>r\<in>set rows. sr_pattern r \<in> ?P \<and> sr_excluded r \<and> ex = row_exclusion r)"
      using row uniq by blast
    have f: "(ex \<in> set (c # curated) \<and> scope_decision rows (se_pattern ex) = None)
        \<longleftrightarrow> ex \<in> set curated \<and> scope_decision rows (se_pattern ex) = None"
      using Some by auto
    have g: "ex \<in> set (merge_curated rows (c # curated)) \<longleftrightarrow>
        (sr_excluded row \<and> ex = row_exclusion row) \<or> ex \<in> set (merge_curated rows curated)"
      by (simp add: Some)
    have img: "se_pattern ` set (c # curated) = insert (se_pattern c) ?P" by simp
    show ?thesis unfolding g f set_map img e Cons.IH by blast
  qed
qed simp

lemma merge_mem_rows:
  assumes "distinct (map sr_pattern rows)"
  shows "ex \<in> set (merge_scan_scope_exclusions curated rows) \<longleftrightarrow>
     (ex \<in> set curated \<and> scope_decision rows (se_pattern ex) = None)
     \<or> (\<exists>row\<in>set rows. sr_excluded row \<and> ex = row_exclusion row)"
  by (auto simp: merge_scan_scope_exclusions_def merge_curated_rows [OF assms])

lemma merge_mem:
  assumes "distinct (map sr_pattern rows)"
  shows "ex \<in> set (merge_scan_scope_exclusions curated rows) \<longleftrightarrow>
     (case scope_decision rows (se_pattern ex) of
        None \<Rightarrow> ex \<in> set curated
      | Some row \<Rightarrow> sr_excluded row \<and> ex = row_exclusion row)"
proof (cases "scope_decision rows (se_pattern ex)")
  case None
  then have "row_exclusion row \<noteq> ex" if "row \<in> set rows" for row
    using that by (auto simp: scope_decision_None)
  with None show ?thesis by (auto simp: merge_mem_rows [OF assms])
next
  case (Some row)
  then have row: "row \<in> set rows" by (simp add: scope_decision_unique [OF assms])
  have uniq: "r = row" if "r \<in> set rows" "ex = row_exclusion r" for r
    using scope_decision_row [OF assms that(1)] that(2) Some by simp
  have "(\<exists>r\<in>set rows. sr_excluded r \<and> ex = row_exclusion r)
          \<longleftrightarrow> sr_excluded row \<and> ex = row_exclusion row"
    using row uniq by blast
  with Some show ?thesis by (simp add: merge_mem_rows [OF assms])
qed

section \<open>Properties\<close>

lemma default_scope_unfold: "default_scan_scope = Some default_scan_scope_exclusions"
  by (simp add: default_scan_scope_def new_scan_scope_def)

text \<open>Under the curated scope a path is excluded exactly when, once tidied, it is the
  Rakefile, the Gemfile or its lock, lies in spec, test or .github at the root of the
  repository, or is a Test Kitchen or Jenkins file at the root; an unknown path never is.\<close>

theorem default_scope_excludes:
  "excludes_path default_scan_scope f
     \<longleftrightarrow> f \<noteq> [] \<and> curated_out_of_scope (normalise_scan_path f)"
  unfolding excludes_path_iff default_scope_unfold default_pattern_matches [symmetric]
  by blast

text \<open>The operator's decisions, one for a pattern: with them in the store a path is excluded
  exactly when it matches a pattern the operator excludes, or a curated pattern the operator
  said nothing about. So declaring a curated pattern to be cookbook code brings its files
  back, and an operator's reason never changes which files are meant.\<close>

theorem store_scope_excludes:
  assumes "distinct (map sr_pattern rows)"
  shows "excludes_path (new_scan_scope_from_store (Some (Some rows))) f \<longleftrightarrow>
     f \<noteq> [] \<and>
     ((\<exists>row. row \<in> set rows \<and> sr_excluded row
          \<and> matches_scan_pattern (sr_pattern row) (normalise_scan_path f))
      \<or> (\<exists>ex. ex \<in> set default_scan_scope_exclusions
          \<and> se_pattern ex \<notin> set (map sr_pattern rows)
          \<and> matches_scan_pattern (se_pattern ex) (normalise_scan_path f)))"
proof -
  let ?merged = "merge_scan_scope_exclusions default_scan_scope_exclusions rows"
  let ?m = "\<lambda>p. matches_scan_pattern p (normalise_scan_path f)"
  have "(\<exists>ex. ex \<in> set ?merged \<and> ?m (se_pattern ex)) \<longleftrightarrow>
      (\<exists>row. row \<in> set rows \<and> sr_excluded row \<and> ?m (sr_pattern row))
      \<or> (\<exists>ex. ex \<in> set default_scan_scope_exclusions
            \<and> se_pattern ex \<notin> set (map sr_pattern rows) \<and> ?m (se_pattern ex))"
    unfolding merge_mem_rows [OF assms] scope_decision_None
    by (auto simp del: set_map)
  then show ?thesis
    unfolding excludes_path_iff new_scan_scope_from_store_def new_scan_scope_def
    by auto
qed

definition example_rows :: "scope_row list" where
  "example_rows = [\<lparr>sr_pattern = ''test/*'', sr_excluded = False, sr_reason = ''it runs''\<rparr>,
                   \<lparr>sr_pattern = ''ci/*'', sr_excluded = True, sr_reason = ''pipelines''\<rparr>]"

theorem store_scope_excludes_witness:
  "distinct (map sr_pattern example_rows)
   \<and> (\<exists>row. row \<in> set example_rows \<and> sr_excluded row
          \<and> matches_scan_pattern (sr_pattern row) (normalise_scan_path ''ci/build.rb''))
   \<and> excludes_path (new_scan_scope_from_store (Some (Some example_rows))) ''ci/build.rb''"
proof -
  have d: "distinct (map sr_pattern example_rows)" by (simp add: example_rows_def)
  have "matches_scan_pattern ''ci/*'' (normalise_scan_path ''ci/build.rb'')" by code_simp
  then have e: "\<exists>row. row \<in> set example_rows \<and> sr_excluded row
          \<and> matches_scan_pattern (sr_pattern row) (normalise_scan_path ''ci/build.rb'')"
    by (intro exI [of _ "example_rows ! 1"]) (simp add: example_rows_def)
  with d store_scope_excludes [OF d, of "''ci/build.rb''"] show ?thesis by simp
qed

end
