(* ===== verification/Cop_Classification.thy ===== *)
theory Cop_Classification
  imports Cop_Table Scan_Scope "HOL-Library.Word"
begin

text \<open>
  The classification of a CookStyle offence and the verdict of a scan
  (\<open>internal/analysis/cop_classification.go\<close>, \<open>cop_classification_defaults.go\<close>,
  \<open>cookstyle_status.go\<close>, the lookups of \<open>internal/remediation/copmapping.go\<close>).
  The classifier interface that scoring uses (\<open>remediation.CopClassifier\<close>) is the locale
  \<open>cop_classifier\<close>, interpreted here on the resolver; the scope interface
  (\<open>remediation.ScanScoper\<close>) is the locale \<open>scan_scoper\<close>, interpreted on the scan scope.
\<close>

section \<open>Looking a cop up\<close>

text \<open>\<open>init\<close>: the index of the table, later entries overwriting earlier ones.\<close>

definition cop_mapping_index :: "string \<rightharpoonup> cop_mapping" where
  "cop_mapping_index = map_of (rev (map (\<lambda>m. (cm_cop_name m, m)) embedded_cop_mappings))"

definition lookup_cop :: "string \<Rightarrow> cop_mapping option" where
  "lookup_cop cop_name = cop_mapping_index cop_name"

text \<open>\<open>variantSeparators\<close>: the replacer that deletes colons and full stops.\<close>

definition strip_separators :: "string \<Rightarrow> string" where
  "strip_separators s = filter (\<lambda>c. c \<noteq> CHR '':'' \<and> c \<noteq> CHR ''.'') s"

definition match_variant :: "string \<Rightarrow> string \<Rightarrow> cop_variant option" where
  "match_variant cop_name message =
     (case map_of poly_method_cop_variants cop_name of
        None \<Rightarrow> None
      | Some variants \<Rightarrow>
          let msg = strip_separators message
          in find (\<lambda>v. sublist (strip_separators (cv_token v)) msg) variants)"

definition offense_variant_token :: "string \<Rightarrow> string \<Rightarrow> string" where
  "offense_variant_token cop_name message =
     (case match_variant cop_name message of Some v \<Rightarrow> cv_token v | None \<Rightarrow> [])"

definition lookup_cop_for_offense :: "string \<Rightarrow> string \<Rightarrow> cop_mapping option" where
  "lookup_cop_for_offense cop_name message =
     (case match_variant cop_name message of
        Some v \<Rightarrow> Some (cv_mapping v)
      | None \<Rightarrow> lookup_cop cop_name)"

section \<open>Levels and sources\<close>

definition classification_blocker :: string where "classification_blocker = ''blocker''"
definition classification_review :: string where "classification_review = ''review''"
definition classification_noise :: string where "classification_noise = ''noise''"

definition source_operator_override :: string where
  "source_operator_override = ''operator_override''"
definition source_custom_cop :: string where "source_custom_cop = ''custom_cop''"
definition source_verified_removal :: string where
  "source_verified_removal = ''verified_removal''"
definition source_structural_noise :: string where
  "source_structural_noise = ''structural_noise''"
definition source_review_default :: string where "source_review_default = ''review_default''"

lemma classification_neq [simp]:
  "classification_blocker \<noteq> classification_review"
  "classification_review \<noteq> classification_blocker"
  "classification_blocker \<noteq> classification_noise"
  "classification_noise \<noteq> classification_blocker"
  "classification_review \<noteq> classification_noise"
  "classification_noise \<noteq> classification_review"
  by (simp_all add: classification_blocker_def classification_review_def classification_noise_def)

record resolved_classification =
  rc_classification :: string
  rc_source :: string

record classification_resolver =
  cr_operator_overrides :: "string \<rightharpoonup> string"
  cr_target_chef_version :: string

text \<open>
  \<open>NewResolverFromStore\<close>: the store is \<open>None\<close> for nil, \<open>Some None\<close> when the list of
  overrides cannot be read; of two rows for a cop the later one stands.
\<close>

definition new_resolver_from_store ::
  "(string \<times> string) list option option \<Rightarrow> string \<Rightarrow> classification_resolver" where
  "new_resolver_from_store store target =
     \<lparr>cr_operator_overrides =
        (case store of Some (Some rows) \<Rightarrow> map_of (rev rows) | _ \<Rightarrow> Map.empty),
      cr_target_chef_version = target\<rparr>"

section \<open>Versions\<close>

text \<open>The accumulator is a Go \<open>int\<close> of 64 bits, compared as a signed number.\<close>

fun parse_major_loop :: "64 word \<Rightarrow> string \<Rightarrow> 64 word" where
  "parse_major_loop n [] = n"
| "parse_major_loop n (ch # v) =
     (if is_digit ch then parse_major_loop (n * 10 + of_nat (digit_val ch)) v else n)"

definition parse_major_version :: "string \<Rightarrow> 64 word" where
  "parse_major_version v = parse_major_loop 0 v"

definition version_less_or_equal :: "string \<Rightarrow> string \<Rightarrow> bool" where
  "version_less_or_equal a b =
     (let a_major = sint (parse_major_version a); b_major = sint (parse_major_version b)
      in if a_major \<noteq> b_major then a_major \<le> b_major else a \<le> b)"

section \<open>Structural rules\<close>

definition custom_cop_prefix :: string where "custom_cop_prefix = ''Custom/''"

definition is_custom_cop :: "string \<Rightarrow> bool" where
  "is_custom_cop cop_name = prefix custom_cop_prefix cop_name"

definition noise_department_prefixes :: "string list" where
  "noise_department_prefixes = [''Style/'', ''Layout/'', ''Chef/Style/'']"

definition noise_tooling_markers :: "string list" where
  "noise_tooling_markers = [''ChefSpec'', ''Foodcritic'', ''Delivery'', ''Librarian'', ''Berks'']"

definition is_structural_noise :: "string \<Rightarrow> bool" where
  "is_structural_noise cop_name =
     (list_ex (\<lambda>p. prefix p cop_name) noise_department_prefixes
      \<or> list_ex (\<lambda>t. sublist t cop_name) noise_tooling_markers)"

section \<open>Resolution\<close>

definition verified_removal :: "classification_resolver \<Rightarrow> string \<Rightarrow> string \<Rightarrow> bool" where
  "verified_removal r cop_name message =
     (case lookup_cop_for_offense cop_name message of
        None \<Rightarrow> False
      | Some m \<Rightarrow> cm_removed_in m \<noteq> []
                  \<and> version_less_or_equal (cm_removed_in m) (cr_target_chef_version r))"

definition resolve_offense ::
  "classification_resolver \<Rightarrow> string \<Rightarrow> string \<Rightarrow> resolved_classification" where
  "resolve_offense r cop_name message =
     (case cr_operator_overrides r cop_name of
        Some class \<Rightarrow> \<lparr>rc_classification = class, rc_source = source_operator_override\<rparr>
      | None \<Rightarrow>
          if is_custom_cop cop_name
          then \<lparr>rc_classification = classification_blocker, rc_source = source_custom_cop\<rparr>
          else if verified_removal r cop_name message
          then \<lparr>rc_classification = classification_blocker, rc_source = source_verified_removal\<rparr>
          else if is_structural_noise cop_name
          then \<lparr>rc_classification = classification_noise, rc_source = source_structural_noise\<rparr>
          else \<lparr>rc_classification = classification_review, rc_source = source_review_default\<rparr>)"

definition resolve :: "classification_resolver \<Rightarrow> string \<Rightarrow> resolved_classification" where
  "resolve r cop_name = resolve_offense r cop_name []"

definition is_blocker :: "classification_resolver \<Rightarrow> string \<Rightarrow> bool" where
  "is_blocker r cop_name = (rc_classification (resolve r cop_name) = classification_blocker)"

definition classify :: "classification_resolver \<Rightarrow> string \<Rightarrow> string" where
  "classify r cop_name = rc_classification (resolve r cop_name)"

definition classify_offense :: "classification_resolver \<Rightarrow> string \<Rightarrow> string \<Rightarrow> string" where
  "classify_offense r cop_name message = rc_classification (resolve_offense r cop_name message)"

section \<open>Offences and the verdict of a scan\<close>

record offense_location =
  ol_file :: string
  ol_start_line :: int
  ol_start_column :: int
  ol_last_line :: int
  ol_last_column :: int

record cookstyle_offense =
  co_severity :: string
  co_message :: string
  co_cop_name :: string
  co_correctable :: bool
  co_corrected :: bool
  co_location :: offense_location
  co_file :: string

definition offense_path :: "cookstyle_offense \<Rightarrow> string" where
  "offense_path off = (if co_file off \<noteq> [] then co_file off else ol_file (co_location off))"

definition excludes_offense :: "scan_scope \<Rightarrow> cookstyle_offense \<Rightarrow> bool" where
  "excludes_offense scope off = (scan_excluded scope (offense_path off) \<noteq> None)"

definition status_ready :: string where "status_ready = ''ready''"
definition status_needs_review :: string where "status_needs_review = ''needs_review''"
definition status_blocked :: string where "status_blocked = ''blocked''"

lemma rollup_status_neq [simp]:
  "status_ready \<noteq> status_blocked" "status_blocked \<noteq> status_ready"
  "status_ready \<noteq> status_needs_review" "status_needs_review \<noteq> status_ready"
  "status_needs_review \<noteq> status_blocked" "status_blocked \<noteq> status_needs_review"
  by (simp_all add: status_ready_def status_needs_review_def status_blocked_def)

definition severity_fatal :: string where "severity_fatal = ''fatal''"

definition offenses_wont_parse :: "cookstyle_offense list \<Rightarrow> bool" where
  "offenses_wont_parse offs = list_ex (\<lambda>off. co_severity off = severity_fatal) offs"

text \<open>The loop of \<open>DeriveCookstyleStatusInScope\<close>, with \<open>hasReview\<close> as its state.\<close>

fun derive_status_loop ::
  "classification_resolver \<Rightarrow> scan_scope \<Rightarrow> bool \<Rightarrow> cookstyle_offense list \<Rightarrow> string" where
  "derive_status_loop r scope has_review [] =
     (if has_review then status_needs_review else status_ready)"
| "derive_status_loop r scope has_review (off # offs) =
     (if excludes_offense scope off then derive_status_loop r scope has_review offs
      else
        let c = classify_offense r (co_cop_name off) (co_message off)
        in if c = classification_blocker then status_blocked
           else if c = classification_review then derive_status_loop r scope True offs
           else derive_status_loop r scope has_review offs)"

definition derive_cookstyle_status_in_scope ::
  "cookstyle_offense list \<Rightarrow> classification_resolver \<Rightarrow> scan_scope \<Rightarrow> string" where
  "derive_cookstyle_status_in_scope offs r scope = derive_status_loop r scope False offs"

definition derive_cookstyle_status ::
  "cookstyle_offense list \<Rightarrow> classification_resolver \<Rightarrow> string" where
  "derive_cookstyle_status offs r = derive_cookstyle_status_in_scope offs r default_scan_scope"

definition evaluate_pass_fail ::
  "cookstyle_offense list \<Rightarrow> classification_resolver \<Rightarrow> bool" where
  "evaluate_pass_fail offs r = (derive_cookstyle_status offs r \<noteq> status_blocked)"

section \<open>The interfaces of scoring\<close>

text \<open>\<open>remediation.CopClassifier\<close>, with the law its declaration documents.\<close>

locale cop_classifier =
  fixes cls :: "string \<Rightarrow> string"
    and cls_offense :: "string \<Rightarrow> string \<Rightarrow> string"
  assumes cls_offense_nil: "cls_offense c [] = cls c"
begin

text \<open>An offence whose message singles nothing out is what its cop name says.\<close>

definition message_free :: "(string \<times> string) list \<Rightarrow> bool" where
  "message_free cms = (\<forall>(c, m)\<in>set cms. cls_offense c m = cls c)"

lemma message_free_empty_messages: "message_free (map (\<lambda>c. (c, [])) cs)"
  by (auto simp: message_free_def cls_offense_nil)

end

text \<open>\<open>remediation.ScanScoper\<close>: a path that is not known is cookbook code.\<close>

locale scan_scoper =
  fixes scoped_out :: "string \<Rightarrow> bool"
  assumes scoped_out_nil: "\<not> scoped_out []"

lemma scan_excluded_nil [simp]: "scan_excluded scope [] = None"
  by (simp add: scan_excluded_def split: option.splits)

interpretation resolver: cop_classifier "classify r" "classify_offense r" for r
  by unfold_locales (simp add: classify_def classify_offense_def resolve_def)

interpretation scope: scan_scoper "excludes_path s" for s
  by unfold_locales (simp add: excludes_path_def)

section \<open>Facts\<close>

lemma strip_separators_nil [simp]: "strip_separators [] = []"
  by (simp add: strip_separators_def)

text \<open>No token of the table is all separators, so an empty message matches no variant.\<close>

definition tokens_proper :: bool where
  "tokens_proper =
     list_all (\<lambda>(c, vs). list_all (\<lambda>v. strip_separators (cv_token v) \<noteq> []) vs)
       poly_method_cop_variants"

lemma tokens_proper: "tokens_proper"
  by (simp add: tokens_proper_def poly_method_cop_variants_def variant_def strip_separators_def)

lemma match_variant_nil [simp]: "match_variant c [] = None"
proof (cases "map_of poly_method_cop_variants c")
  case (Some vs)
  then have "(c, vs) \<in> set poly_method_cop_variants" by (rule map_of_SomeD)
  with tokens_proper have "list_all (\<lambda>v. strip_separators (cv_token v) \<noteq> []) vs"
    by (auto simp: tokens_proper_def list_all_iff)
  then show ?thesis
    by (auto simp: match_variant_def Some find_None_iff list_all_iff)
qed (simp add: match_variant_def)

lemma lookup_cop_for_offense_nil: "lookup_cop_for_offense c [] = lookup_cop c"
  by (simp add: lookup_cop_for_offense_def)

lemma excludes_offense_path: "excludes_offense scope off = excludes_path scope (offense_path off)"
  by (simp add: excludes_offense_def excludes_path_def)

abbreviation offense_class :: "classification_resolver \<Rightarrow> cookstyle_offense \<Rightarrow> string" where
  "offense_class r off \<equiv> classify_offense r (co_cop_name off) (co_message off)"

lemma derive_status_loop_alt:
  "derive_status_loop r scope h offs =
     (let inside = filter (\<lambda>off. \<not> excludes_offense scope off) offs
      in if list_ex (\<lambda>off. offense_class r off = classification_blocker) inside
         then status_blocked
         else if h \<or> list_ex (\<lambda>off. offense_class r off = classification_review) inside
         then status_needs_review
         else status_ready)"
  by (induction r scope h offs rule: derive_status_loop.induct) (auto simp: Let_def)

lemma classify_offense_cases:
  "classify_offense r c m =
     (case cr_operator_overrides r c of
        Some class \<Rightarrow> class
      | None \<Rightarrow> if is_custom_cop c \<or> verified_removal r c m then classification_blocker
                else if is_structural_noise c then classification_noise
                else classification_review)"
  by (auto simp: classify_offense_def resolve_offense_def split: option.splits)

lemma version_less_or_equal_linear:
  "version_less_or_equal a b \<or> version_less_or_equal b a"
  by (auto simp: version_less_or_equal_def Let_def)

lemma version_less_or_equal_trans:
  "version_less_or_equal a b \<Longrightarrow> version_less_or_equal b c \<Longrightarrow> version_less_or_equal a c"
  by (auto simp: version_less_or_equal_def Let_def split: if_splits)

lemma version_less_or_equal_antisym:
  "version_less_or_equal a b \<Longrightarrow> version_less_or_equal b a \<Longrightarrow> a = b"
  by (auto simp: version_less_or_equal_def Let_def split: if_splits)

section \<open>Properties\<close>

text \<open>
  What the curated data say of a cop and a message, without the index and the search: an entry of the
  list of variants of the cop that the message mentions, the first of them, or, when it mentions none, the
  entry of the cop in the table.
\<close>

definition mentions :: "string \<Rightarrow> cop_variant \<Rightarrow> bool" where
  "mentions m v = sublist (strip_separators (cv_token v)) (strip_separators m)"

definition variant_entry :: "string \<Rightarrow> string \<Rightarrow> cop_mapping \<Rightarrow> bool" where
  "variant_entry c m e =
     (\<exists>before v after. (c, before @ v # after) \<in> set poly_method_cop_variants \<and> mentions m v
        \<and> (\<forall>u\<in>set before. \<not> mentions m u) \<and> e = cv_mapping v)"

definition table_entry :: "string \<Rightarrow> string \<Rightarrow> cop_mapping \<Rightarrow> bool" where
  "table_entry c m e =
     (e \<in> set embedded_cop_mappings \<and> cm_cop_name e = c
      \<and> (\<forall>vs. (c, vs) \<in> set poly_method_cop_variants \<longrightarrow> (\<forall>v\<in>set vs. \<not> mentions m v)))"

lemma cop_names_distinct: "distinct (map cm_cop_name embedded_cop_mappings)"
  by (simp add: cop_table_defs cop_def)

lemma variant_cops_distinct: "distinct (map fst poly_method_cop_variants)"
  by code_simp

lemma lookup_cop_iff: "lookup_cop c = Some e \<longleftrightarrow> e \<in> set embedded_cop_mappings \<and> cm_cop_name e = c"
proof -
  have "distinct (map fst (rev (map (\<lambda>m. (cm_cop_name m, m)) embedded_cop_mappings)))"
    using cop_names_distinct by (simp add: rev_map comp_def flip: rev_map)
  then show ?thesis by (auto simp: lookup_cop_def cop_mapping_index_def)
qed

lemma find_iff: "find P xs = Some x \<longleftrightarrow> (\<exists>ys zs. xs = ys @ x # zs \<and> P x \<and> (\<forall>y\<in>set ys. \<not> P y))"
proof (induction xs)
  case (Cons a xs)
  show ?case
  proof (cases "P a")
    case True
    then show ?thesis by (auto simp: Cons_eq_append_conv)
  next
    case False
    then show ?thesis using Cons by (auto simp: Cons_eq_append_conv) (metis append_Cons set_ConsD)+
  qed
qed simp

lemma match_variant_iff:
  "match_variant c m = Some v \<longleftrightarrow>
     (\<exists>before after. (c, before @ v # after) \<in> set poly_method_cop_variants \<and> mentions m v
        \<and> (\<forall>u\<in>set before. \<not> mentions m u))"
proof -
  have "match_variant c m = Some v \<longleftrightarrow> (\<exists>vs. (c, vs) \<in> set poly_method_cop_variants \<and> find (mentions m) vs = Some v)"
    by (auto simp: match_variant_def mentions_def [abs_def] Let_def map_of_eq_Some_iff [OF variant_cops_distinct, symmetric]
        split: option.split)
  then show ?thesis by (auto simp: find_iff)
qed

lemma lookup_cop_for_offense_iff:
  "lookup_cop_for_offense c m = Some e \<longleftrightarrow> variant_entry c m e \<or> table_entry c m e"
proof (cases "match_variant c m")
  case None
  then have none: "\<not> mentions m v" if "(c, vs) \<in> set poly_method_cop_variants" "v \<in> set vs" for vs v
    using that variant_cops_distinct
    by (auto simp: match_variant_def mentions_def Let_def find_None_iff split: option.splits)
  then have "\<not> variant_entry c m e" by (auto simp: variant_entry_def)
  then show ?thesis using None none by (auto simp: lookup_cop_for_offense_def lookup_cop_iff table_entry_def)
next
  case (Some v)
  then have "\<not> table_entry c m e" by (fastforce simp: match_variant_iff table_entry_def)
  moreover have "variant_entry c m e \<longleftrightarrow> (\<exists>u. match_variant c m = Some u \<and> e = cv_mapping u)"
    by (auto simp: variant_entry_def match_variant_iff)
  ultimately show ?thesis using Some by (auto simp: lookup_cop_for_offense_def)
qed

text \<open>C23: An offence is a blocker exactly when the operator said so, or when the operator said nothing and
  the cop is a hand-defined migration cop or the curated data say that what the message flags, by the first
  variant it mentions or else by the cop's own entry, has been removed at or before the target version; and
  raising the target version never takes a blocker back. Neither the severity nor the location of an
  offence takes part.\<close>

theorem blocker_needs_evidence:
  "(classify_offense r c m = classification_blocker \<longleftrightarrow>
     cr_operator_overrides r c = Some classification_blocker
     \<or> (cr_operator_overrides r c = None
         \<and> (prefix ''Custom/'' c
            \<or> (\<exists>e. (variant_entry c m e \<or> table_entry c m e) \<and> cm_removed_in e \<noteq> []
                  \<and> version_less_or_equal (cm_removed_in e) (cr_target_chef_version r)))))
   \<and> (version_less_or_equal (cr_target_chef_version r) later \<and> classify_offense r c m = classification_blocker \<longrightarrow>
        classify_offense (r\<lparr>cr_target_chef_version := later\<rparr>) c m = classification_blocker)"
proof -
  have custom: "is_custom_cop c \<longleftrightarrow> prefix ''Custom/'' c"
    by (simp add: is_custom_cop_def custom_cop_prefix_def)
  have removed: "verified_removal r' c m \<longleftrightarrow>
      (\<exists>e. (variant_entry c m e \<or> table_entry c m e) \<and> cm_removed_in e \<noteq> []
         \<and> version_less_or_equal (cm_removed_in e) (cr_target_chef_version r'))" for r'
    by (auto simp: verified_removal_def lookup_cop_for_offense_iff [symmetric] split: option.split)
  show ?thesis
    using version_less_or_equal_trans
    by (auto simp: classify_offense_cases custom removed split: option.splits)
qed

text \<open>A witness: a call removed in Ruby 3, which the message names, at Chef 19 and then at Chef 20.\<close>

theorem blocker_needs_evidence_witness:
  "classify_offense \<lparr>cr_operator_overrides = Map.empty, cr_target_chef_version = ''20.1''\<rparr>
     ''Lint/DeprecatedClassMethods'' ''`File.exists?` is deprecated'' = classification_blocker"
proof -
  let ?r = "\<lparr>cr_operator_overrides = Map.empty, cr_target_chef_version = ''19.0''\<rparr>"
  have "version_less_or_equal (cr_target_chef_version ?r) ''20.1''"
    "classify_offense ?r ''Lint/DeprecatedClassMethods'' ''`File.exists?` is deprecated'' = classification_blocker"
    by code_simp+
  then show ?thesis
    using blocker_needs_evidence [of ?r "''Lint/DeprecatedClassMethods''" "''`File.exists?` is deprecated''" "''20.1''"] by simp
qed

text \<open>C5: The rollup status is Blocked exactly when some offence in scope is a blocker, Needs
  review exactly when none is and some offence in scope is for review, Ready otherwise.\<close>

theorem derive_status_verdict:
  "(derive_cookstyle_status_in_scope offs r scope = status_blocked \<longleftrightarrow>
      (\<exists>off. off \<in> set offs \<and> \<not> excludes_offense scope off
         \<and> offense_class r off = classification_blocker))
   \<and> (derive_cookstyle_status_in_scope offs r scope = status_needs_review \<longleftrightarrow>
      (\<nexists>off. off \<in> set offs \<and> \<not> excludes_offense scope off
         \<and> offense_class r off = classification_blocker)
      \<and> (\<exists>off. off \<in> set offs \<and> \<not> excludes_offense scope off
         \<and> offense_class r off = classification_review))
   \<and> derive_cookstyle_status_in_scope offs r scope
       \<in> {status_ready, status_needs_review, status_blocked}"
proof -
  let ?in = "filter (\<lambda>off. \<not> excludes_offense scope off) offs"
  have "list_ex P ?in \<longleftrightarrow> (\<exists>off. off \<in> set offs \<and> \<not> excludes_offense scope off \<and> P off)" for P
    by (auto simp: list_ex_iff)
  then show ?thesis
    by (simp add: derive_cookstyle_status_in_scope_def derive_status_loop_alt)
qed

text \<open>The worse of two rollup statuses.\<close>

definition worse_status :: "string \<Rightarrow> string \<Rightarrow> string" where
  "worse_status a b =
     (if a = status_blocked \<or> b = status_blocked then status_blocked
      else if a = status_needs_review \<or> b = status_needs_review then status_needs_review
      else status_ready)"

text \<open>The verdict on two groups of offences taken together is the worse of their verdicts,
  so it depends neither on the order in which the files were scanned nor on repetition, and
  adding offences never improves it.\<close>

theorem derive_status_append:
  "derive_cookstyle_status_in_scope (xs @ ys) r scope =
     worse_status (derive_cookstyle_status_in_scope xs r scope)
       (derive_cookstyle_status_in_scope ys r scope)"
  by (simp add: derive_cookstyle_status_in_scope_def derive_status_loop_alt worse_status_def Let_def)

text \<open>The namespace spelling of a flagged method does not matter: two messages that differ
  only in colons and full stops are given the same documentation and classification.\<close>

theorem variant_spelling_irrelevant:
  assumes "strip_separators m = strip_separators m'"
  shows "lookup_cop_for_offense c m = lookup_cop_for_offense c m'
         \<and> resolve_offense r c m = resolve_offense r c m'"
proof -
  have "match_variant c m = match_variant c m'"
    unfolding match_variant_def assms by (rule refl)
  then show ?thesis
    by (simp add: lookup_cop_for_offense_def resolve_offense_def verified_removal_def)
qed

lemma file_exists_variant:
  "map_option cm_removed_in
     (lookup_cop_for_offense ''Lint/DeprecatedClassMethods'' ''::File::exists? is deprecated'')
   = Some ''19.0''"
  by (simp add: lookup_cop_for_offense_def match_variant_def poly_method_cop_variants_def
      variant_def cop_def strip_separators_def sublist_Cons_right)

theorem variant_spelling_irrelevant_witness:
  "strip_separators ''File.exists? is deprecated''
     = strip_separators ''::File::exists? is deprecated''
   \<and> map_option cm_removed_in
       (lookup_cop_for_offense ''Lint/DeprecatedClassMethods'' ''File.exists? is deprecated'')
     = Some ''19.0''"
proof -
  have s: "strip_separators ''File.exists? is deprecated''
     = strip_separators ''::File::exists? is deprecated''"
    by (simp add: strip_separators_def)
  with variant_spelling_irrelevant [OF s, of "''Lint/DeprecatedClassMethods''"]
    file_exists_variant show ?thesis by simp
qed

text \<open>Within a major version the comparison of the removal version is the comparison of
  the strings: a feature removed in 18.9 is not held removed at target 18.10, nor one removed
  in 9.5 at target 9.10.\<close>

theorem version_minor_not_numeric:
  "\<not> version_less_or_equal ''18.9'' ''18.10'' \<and> version_less_or_equal ''18.10'' ''18.9''
   \<and> version_less_or_equal ''9.5'' ''10.0'' \<and> \<not> version_less_or_equal ''9.5'' ''9.10''"
  by code_simp

end
