(* ===== verification/Status.thy ===== *)
theory Status
  imports Prelude "HOL-Library.Word"
begin

text \<open>
  The two small status derivations the rest of the program shares: the aggregate Test Kitchen
  status (\<open>internal/tkstatus/status.go\<close>) and the staleness tier of a node
  (\<open>internal/staleness/staleness.go\<close>). A \<open>time.Time\<close> is a number of nanoseconds
  (\<open>None\<close> for the zero time), a \<open>time.Duration\<close> a signed 64-bit number of nanoseconds:
  products wrap, \<open>Sub\<close> saturates.
\<close>

section \<open>Test Kitchen status\<close>

record tk_counts =
  tk_passed :: int
  tk_failed :: int

definition tk_status_partial :: string where "tk_status_partial = ''partial''"
definition tk_status_failed :: string where "tk_status_failed = ''failed''"
definition tk_status_passed :: string where "tk_status_passed = ''passed''"

lemma tk_status_neq [simp]:
  "tk_status_partial \<noteq> tk_status_failed" "tk_status_failed \<noteq> tk_status_partial"
  "tk_status_partial \<noteq> tk_status_passed" "tk_status_passed \<noteq> tk_status_partial"
  "tk_status_failed \<noteq> tk_status_passed" "tk_status_passed \<noteq> tk_status_failed"
  "tk_status_partial \<noteq> []" "tk_status_failed \<noteq> []" "tk_status_passed \<noteq> []"
  "[] \<noteq> tk_status_partial" "[] \<noteq> tk_status_failed" "[] \<noteq> tk_status_passed"
  by (simp_all add: tk_status_partial_def tk_status_failed_def tk_status_passed_def)

definition compute_tk_status :: "int \<Rightarrow> int \<Rightarrow> string" where
  "compute_tk_status passed failed =
     (if passed > 0 \<and> failed > 0 then tk_status_partial
      else if failed > 0 then tk_status_failed
      else if passed > 0 then tk_status_passed
      else [])"

definition counts_status :: "tk_counts \<Rightarrow> string" where
  "counts_status c = compute_tk_status (tk_passed c) (tk_failed c)"

lemma counts_status_iff:
  "counts_status c = tk_status_failed \<longleftrightarrow> tk_failed c > 0 \<and> tk_passed c \<le> 0"
  "counts_status c = tk_status_partial \<longleftrightarrow> tk_failed c > 0 \<and> tk_passed c > 0"
  "counts_status c = tk_status_passed \<longleftrightarrow> tk_failed c \<le> 0 \<and> tk_passed c > 0"
  "counts_status c = [] \<longleftrightarrow> tk_failed c \<le> 0 \<and> tk_passed c \<le> 0"
  by (auto simp: counts_status_def compute_tk_status_def)

section \<open>Staleness tiers\<close>

datatype tier = Fresh | Warning | Critical

text \<open>The order of severity.\<close>

fun tier_rank :: "tier \<Rightarrow> nat" where
  "tier_rank Fresh = 0"
| "tier_rank Warning = 1"
| "tier_rank Critical = 2"

instantiation tier :: linorder
begin
definition less_eq_tier :: "tier \<Rightarrow> tier \<Rightarrow> bool" where
  "less_eq_tier a b = (tier_rank a \<le> tier_rank b)"
definition less_tier :: "tier \<Rightarrow> tier \<Rightarrow> bool" where
  "less_tier a b = (tier_rank a < tier_rank b)"
instance
proof
  fix a b :: tier
  assume "a \<le> b" "b \<le> a"
  then show "a = b" by (cases a; cases b) (simp_all add: less_eq_tier_def)
qed (auto simp: less_eq_tier_def less_tier_def)
end

record thresholds =
  th_warning_hours :: int
  th_critical_days :: int

definition hour_ns :: "64 word" where "hour_ns = 3600000000000"

type_synonym go_time = "int option"

text \<open>\<open>now.Sub(then)\<close>, saturating at the ends of the range of a duration.\<close>

definition go_sub :: "int \<Rightarrow> int \<Rightarrow> int" where
  "go_sub now earlier = max (- (2 ^ 63)) (min (2 ^ 63 - 1) (now - earlier))"

definition warning_dur :: "thresholds \<Rightarrow> int" where
  "warning_dur t = sint (of_int (th_warning_hours t) * hour_ns)"

definition critical_dur :: "thresholds \<Rightarrow> int" where
  "critical_dur t = sint (of_int (th_critical_days t) * 24 * hour_ns)"

definition compute_tier :: "go_time \<Rightarrow> int \<Rightarrow> thresholds \<Rightarrow> tier" where
  "compute_tier ohai_time now t =
     (case ohai_time of
        None \<Rightarrow> Critical
      | Some ohai \<Rightarrow>
          let age = go_sub now ohai
          in if age \<ge> critical_dur t then Critical
             else if age \<ge> warning_dur t then Warning
             else Fresh)"

definition is_stale_compat :: "tier \<Rightarrow> bool" where
  "is_stale_compat tr = (tr \<noteq> Fresh)"

lemma go_sub_mono: "now \<le> now' \<Longrightarrow> go_sub now t \<le> go_sub now' t"
  by (auto simp: go_sub_def)

lemma go_sub_anti: "t' \<le> t \<Longrightarrow> go_sub now t \<le> go_sub now t'"
  by (auto simp: go_sub_def)

text \<open>With thresholds a deployment can have, the durations are what the numbers say.\<close>

lemma sint_of_int_small:
  assumes "- (2 ^ 63) \<le> x" and "x < 2 ^ 63"
  shows "sint (of_int x :: 64 word) = x"
proof -
  have "sint (of_int x :: 64 word) = signed_take_bit 63 x"
    by (simp add: sint_sbintrunc')
  also have "\<dots> = x" using assms by (simp add: signed_take_bit_int_eq_self_iff)
  finally show ?thesis .
qed

lemma warning_dur_exact:
  assumes "0 \<le> th_warning_hours t" and "th_warning_hours t \<le> 2562047"
  shows "warning_dur t = th_warning_hours t * 3600000000000"
proof -
  have "of_int (th_warning_hours t) * hour_ns
      = (of_int (th_warning_hours t * 3600000000000) :: 64 word)"
    by (simp add: hour_ns_def)
  with assms show ?thesis
    by (simp only: warning_dur_def) (subst sint_of_int_small, auto)
qed

lemma critical_dur_exact:
  assumes "0 \<le> th_critical_days t" and "th_critical_days t \<le> 106751"
  shows "critical_dur t = th_critical_days t * 86400000000000"
proof -
  have "of_int (th_critical_days t) * 24 * hour_ns
      = (of_int (th_critical_days t * 86400000000000) :: 64 word)"
    by (simp add: hour_ns_def)
  with assms show ?thesis
    by (simp only: critical_dur_def) (subst sint_of_int_small, auto)
qed

end
