(* ===== verification/Complexity.thy ===== *)
theory Complexity
  imports Cop_Classification Status
begin

text \<open>
  Complexity scoring (\<open>internal/remediation/complexity.go\<close>,
  \<open>complexity_classification.go\<close>): the weights, the legacy and the
  classification-weighted score, the blast radius, the scoring of one cookbook or repository
  and of a batch, and what is written to the complexity tables.

  Counts are integers. The stored offences of a scan are the outcome of
  \<open>json.Unmarshal\<close> on them: absent, unparsable, or a list. An interface value
  (\<open>CopClassifier\<close>, \<open>ScanScoper\<close>) is an option, \<open>None\<close> being nil.
\<close>

section \<open>Weights and labels\<close>

definition weight_error_fatal :: int where "weight_error_fatal = 5"
definition weight_deprecation :: int where "weight_deprecation = 3"
definition weight_correctness :: int where "weight_correctness = 3"
definition weight_non_auto_correctable :: int where "weight_non_auto_correctable = 4"
definition weight_modernize :: int where "weight_modernize = 1"
definition weight_tk_fail :: int where "weight_tk_fail = 20"
definition weight_tk_partial :: int where "weight_tk_partial = 10"
definition weight_blocker :: int where "weight_blocker = 8"
definition weight_review :: int where "weight_review = 1"

lemmas weight_defs = weight_error_fatal_def weight_deprecation_def weight_correctness_def
  weight_non_auto_correctable_def weight_modernize_def weight_tk_fail_def weight_tk_partial_def
  weight_blocker_def weight_review_def

definition label_none :: string where "label_none = ''none''"
definition label_low :: string where "label_low = ''low''"
definition label_medium :: string where "label_medium = ''medium''"
definition label_high :: string where "label_high = ''high''"
definition label_critical :: string where "label_critical = ''critical''"

lemmas label_defs = label_none_def label_low_def label_medium_def label_high_def
  label_critical_def

definition score_to_label :: "int \<Rightarrow> string" where
  "score_to_label score =
     (if score \<le> 0 then label_none
      else if score \<le> 10 then label_low
      else if score \<le> 30 then label_medium
      else if score \<le> 60 then label_high
      else label_critical)"

section \<open>Inputs\<close>

record offense_summary =
  os_error_fatal :: int
  os_deprecation :: int
  os_correctness :: int
  os_modernize :: int
  os_auto_correctable :: int
  os_manual_fix :: int

definition zero_summary :: offense_summary where
  "zero_summary = \<lparr>os_error_fatal = 0, os_deprecation = 0, os_correctness = 0,
     os_modernize = 0, os_auto_correctable = 0, os_manual_fix = 0\<rparr>"

record blast_radius =
  br_affected_node_count :: int
  br_affected_role_count :: int
  br_affected_policy_count :: int

definition zero_blast :: blast_radius where
  "zero_blast = \<lparr>br_affected_node_count = 0, br_affected_role_count = 0,
     br_affected_policy_count = 0\<rparr>"

record complexity_input =
  ci_organisation_name :: string
  ci_cookbook_name :: string
  ci_cookbook_version :: string
  ci_git_repo_url :: string
  ci_target_chef_version :: string
  ci_cookstyle :: offense_summary
  ci_test_kitchen :: string
  ci_blast :: blast_radius

definition tk_weight :: "string \<Rightarrow> int" where
  "tk_weight status =
     (if status = tk_status_failed then weight_tk_fail
      else if status = tk_status_partial then weight_tk_partial
      else 0)"

definition compute_complexity_score :: "complexity_input \<Rightarrow> int" where
  "compute_complexity_score input =
     (let c = ci_cookstyle input
      in os_error_fatal c * weight_error_fatal
         + os_deprecation c * weight_deprecation
         + os_correctness c * weight_correctness
         + os_manual_fix c * weight_non_auto_correctable
         + os_modernize c * weight_modernize
         + tk_weight (ci_test_kitchen input))"

section \<open>Offences\<close>

record stored_offense =
  so_cop_name :: string
  so_severity :: string
  so_message :: string
  so_location_file :: string

datatype raw_offences = Absent | Unparsable | Offences "stored_offense list"

definition ns_deprecations :: string where "ns_deprecations = ''Chef/Deprecations/''"
definition ns_correctness :: string where "ns_correctness = ''Chef/Correctness/''"
definition ns_modernize :: string where "ns_modernize = ''Chef/Modernize/''"

definition is_deprecation :: "string \<Rightarrow> bool" where
  "is_deprecation c = prefix ns_deprecations c"
definition is_correctness :: "string \<Rightarrow> bool" where
  "is_correctness c = prefix ns_correctness c"
definition is_modernize :: "string \<Rightarrow> bool" where
  "is_modernize c = prefix ns_modernize c"
definition is_error_or_fatal :: "string \<Rightarrow> bool" where
  "is_error_or_fatal s = (s = ''error'' \<or> s = ''fatal'')"

definition add_if :: "bool \<Rightarrow> int \<Rightarrow> int" where
  "add_if b n = (if b then n + 1 else n)"

fun classify_loop :: "offense_summary \<Rightarrow> stored_offense list \<Rightarrow> offense_summary" where
  "classify_loop s [] = s"
| "classify_loop s (off # offs) =
     classify_loop
       (s\<lparr>os_error_fatal := add_if (is_error_or_fatal (so_severity off)) (os_error_fatal s),
          os_deprecation := add_if (is_deprecation (so_cop_name off)) (os_deprecation s),
          os_correctness := add_if (is_correctness (so_cop_name off)) (os_correctness s),
          os_modernize := add_if (is_modernize (so_cop_name off)) (os_modernize s)\<rparr>) offs"

definition classify_offenses :: "raw_offences \<Rightarrow> int \<Rightarrow> int \<Rightarrow> offense_summary" where
  "classify_offenses raw fallback_deprecation fallback_correctness =
     (case raw of
        Absent \<Rightarrow> zero_summary
      | Unparsable \<Rightarrow> zero_summary\<lparr>os_deprecation := fallback_deprecation,
                                     os_correctness := fallback_correctness\<rparr>
      | Offences offs \<Rightarrow> classify_loop zero_summary offs)"

section \<open>Classification-weighted scoring\<close>

record classified_offense =
  cl_cop_name :: string
  cl_severity :: string
  cl_classification :: string
  cl_out_of_scope :: bool

text \<open>The four tests of \<open>unclassifiedWeight\<close>, in their order.\<close>

definition raise_to :: "bool \<Rightarrow> int \<Rightarrow> int \<Rightarrow> int" where
  "raise_to b x w = (if b \<and> x > w then x else w)"

definition unclassified_weight :: "classified_offense \<Rightarrow> int" where
  "unclassified_weight off =
     (let w0 = 0;
          w1 = raise_to (is_error_or_fatal (cl_severity off)) weight_error_fatal w0;
          w2 = raise_to (is_deprecation (cl_cop_name off)) weight_deprecation w1;
          w3 = raise_to (is_correctness (cl_cop_name off)) weight_correctness w2
      in raise_to (is_modernize (cl_cop_name off)) weight_modernize w3)"

definition offense_weight :: "classified_offense \<Rightarrow> int" where
  "offense_weight off =
     (if cl_out_of_scope off then 0
      else if cl_classification off = classification_blocker then weight_blocker
      else if cl_classification off = classification_review then weight_review
      else if cl_classification off = classification_noise then 0
      else unclassified_weight off)"

fun cookstyle_complexity_loop :: "int \<Rightarrow> classified_offense list \<Rightarrow> int" where
  "cookstyle_complexity_loop score [] = score"
| "cookstyle_complexity_loop score (off # offs) =
     cookstyle_complexity_loop (score + offense_weight off) offs"

definition compute_cookstyle_complexity :: "classified_offense list \<Rightarrow> int" where
  "compute_cookstyle_complexity offs = cookstyle_complexity_loop 0 offs"

type_synonym classifier = "string \<Rightarrow> string \<Rightarrow> string"
type_synonym scoper = "string \<Rightarrow> bool"

definition classify_one :: "classifier \<Rightarrow> scoper option \<Rightarrow> stored_offense \<Rightarrow> classified_offense" where
  "classify_one classifier scope off =
     \<lparr>cl_cop_name = so_cop_name off,
      cl_severity = so_severity off,
      cl_classification = classifier (so_cop_name off) (so_message off),
      cl_out_of_scope =
        (case scope of None \<Rightarrow> False | Some excludes \<Rightarrow> excludes (so_location_file off))\<rparr>"

definition classify_offenses_for_complexity ::
  "raw_offences \<Rightarrow> classifier option \<Rightarrow> scoper option \<Rightarrow> classified_offense list" where
  "classify_offenses_for_complexity raw classifier scope =
     (case classifier of
        None \<Rightarrow> []
      | Some cls \<Rightarrow>
          (case raw of
             Absent \<Rightarrow> []
           | Unparsable \<Rightarrow> []
           | Offences offs \<Rightarrow> map (classify_one cls scope) offs))"

definition cookstyle_score ::
  "scoper option \<Rightarrow> classifier option \<Rightarrow> raw_offences \<Rightarrow> complexity_input \<Rightarrow> int" where
  "cookstyle_score scope classifier raw input =
     (if classifier \<noteq> None
      then compute_cookstyle_complexity (classify_offenses_for_complexity raw classifier scope)
           + tk_weight (ci_test_kitchen input)
      else compute_complexity_score input)"

section \<open>Blast radius\<close>

record usage_summary =
  us_cookbook_name :: string
  us_node_count :: int
  us_policy_names :: "string list option"

text \<open>
  \<open>countJSONBStringArray\<close>: the argument is \<open>None\<close> when the bytes are absent or do not
  parse as an array of strings.
\<close>

definition count_jsonb_string_array :: "string list option \<Rightarrow> int" where
  "count_jsonb_string_array arr =
     (case arr of None \<Rightarrow> 0 | Some xs \<Rightarrow> int (List.length xs))"

type_synonym radii = "string \<rightharpoonup> blast_radius"

definition radius_of :: "radii \<Rightarrow> string \<Rightarrow> blast_radius" where
  "radius_of m name = (case m name of None \<Rightarrow> zero_blast | Some r \<Rightarrow> r)"

fun add_usage :: "radii \<Rightarrow> usage_summary list \<Rightarrow> radii" where
  "add_usage radii [] = radii"
| "add_usage radii (d # ds) =
     (let r = radius_of radii (us_cookbook_name d);
          r' = r\<lparr>br_affected_node_count := br_affected_node_count r + us_node_count d,
                 br_affected_policy_count :=
                   br_affected_policy_count r + count_jsonb_string_array (us_policy_names d)\<rparr>
      in add_usage (radii(us_cookbook_name d \<mapsto> r')) ds)"

fun add_roles :: "radii \<Rightarrow> (string \<times> int) list \<Rightarrow> radii" where
  "add_roles radii [] = radii"
| "add_roles radii ((name, role_count) # rcs) =
     add_roles (radii(name \<mapsto> (radius_of radii name)\<lparr>br_affected_role_count := role_count\<rparr>)) rcs"

text \<open>
  The three reads of \<open>loadBlastRadii\<close>, each \<open>None\<close> when the query fails: the latest analysis
  (its organisation name), the usage summaries of an organisation, the role counts.
\<close>

record blast_reads =
  bl_latest_analysis :: "string option"
  bl_summaries :: "string \<Rightarrow> usage_summary list option"
  bl_role_counts :: "(string \<times> int) list option"

definition load_blast_radii :: "blast_reads \<Rightarrow> radii" where
  "load_blast_radii db =
     (let radii1 =
            (case bl_latest_analysis db of
               None \<Rightarrow> Map.empty
             | Some org \<Rightarrow>
                 if org = [] then Map.empty
                 else (case bl_summaries db org of
                         None \<Rightarrow> Map.empty
                       | Some ds \<Rightarrow> add_usage Map.empty ds))
      in (case bl_role_counts db of None \<Rightarrow> radii1 | Some rcs \<Rightarrow> add_roles radii1 rcs))"

section \<open>Results and the complexity tables\<close>

record complexity_result =
  cx_organisation_name :: string
  cx_cookbook_name :: string
  cx_cookbook_version :: string
  cx_git_repo_url :: string
  cx_target_chef_version :: string
  cx_complexity_score :: int
  cx_complexity_label :: string
  cx_summary :: offense_summary
  cx_blast :: blast_radius
  cx_evaluated_at :: go_time
  cx_skipped :: bool
  cx_error :: "string option"

text \<open>A row of a complexity table: the columns that are not its key.\<close>

record complexity_row =
  cw_score :: int
  cw_label :: string
  cw_summary :: offense_summary
  cw_blast :: blast_radius
  cw_evaluated_at :: go_time

type_synonym server_key = "string \<times> string \<times> string \<times> string"
type_synonym git_key = "string \<times> string \<times> string"

definition row_of_result :: "complexity_result \<Rightarrow> complexity_row" where
  "row_of_result res = \<lparr>cw_score = cx_complexity_score res, cw_label = cx_complexity_label res,
     cw_summary = cx_summary res, cw_blast = cx_blast res, cw_evaluated_at = cx_evaluated_at res\<rparr>"

text \<open>
  The upserts of \<open>internal/datastore/server_cookbook_complexity.go\<close> and
  \<open>git_repo_complexity.go\<close>. \<open>sql_ok\<close> says whether the statement itself succeeds.
\<close>

definition upsert_server_complexity ::
  "bool \<Rightarrow> (server_key \<rightharpoonup> complexity_row) \<Rightarrow> server_key \<Rightarrow> complexity_row
     \<Rightarrow> string + (server_key \<rightharpoonup> complexity_row)" where
  "upsert_server_complexity sql_ok tbl key row =
     (case key of (org, name, version, target) \<Rightarrow>
        if org = [] then Inl ''datastore: organisation_name is required''
        else if name = [] then Inl ''datastore: cookbook_name is required''
        else if target = [] then Inl ''datastore: target_chef_version is required''
        else if \<not> sql_ok then Inl ''datastore: upserting server cookbook complexity''
        else Inr (tbl(key \<mapsto> row)))"

definition persist_server_cookbook_complexity ::
  "bool \<Rightarrow> (server_key \<rightharpoonup> complexity_row) \<Rightarrow> complexity_result
     \<Rightarrow> (server_key \<rightharpoonup> complexity_row)" where
  "persist_server_cookbook_complexity sql_ok tbl res =
     (if cx_cookbook_name res = [] \<or> cx_target_chef_version res = [] then tbl
      else case upsert_server_complexity sql_ok tbl
                  (cx_organisation_name res, cx_cookbook_name res, cx_cookbook_version res,
                   cx_target_chef_version res) (row_of_result res) of
             Inl _ \<Rightarrow> tbl
           | Inr tbl' \<Rightarrow> tbl')"

definition upsert_git_complexity ::
  "bool \<Rightarrow> (git_key \<rightharpoonup> complexity_row) \<Rightarrow> git_key \<Rightarrow> complexity_row
     \<Rightarrow> string + (git_key \<rightharpoonup> complexity_row)" where
  "upsert_git_complexity sql_ok tbl key row =
     (case key of (name, url, target) \<Rightarrow>
        if name = [] then Inl ''datastore: git_repo_name is required''
        else if url = [] then Inl ''datastore: git_repo_url is required''
        else if target = [] then Inl ''datastore: target_chef_version is required''
        else if \<not> sql_ok then Inl ''datastore: upserting git repo complexity''
        else Inr (tbl(key \<mapsto> row)))"

definition persist_git_repo_complexity ::
  "bool \<Rightarrow> (git_key \<rightharpoonup> complexity_row) \<Rightarrow> complexity_result
     \<Rightarrow> (git_key \<rightharpoonup> complexity_row)" where
  "persist_git_repo_complexity sql_ok tbl res =
     (if cx_cookbook_name res = [] \<or> cx_target_chef_version res = [] then tbl
      else case upsert_git_complexity sql_ok tbl
                  (cx_cookbook_name res, cx_git_repo_url res, cx_target_chef_version res)
                  (row_of_result res) of
             Inl _ \<Rightarrow> tbl
           | Inr tbl' \<Rightarrow> tbl')"

text \<open>
  The resets: a deletion by cookbook or repository removes the rows of every target version.
  \<open>sql_ok\<close> again says whether the statement succeeds.
\<close>

definition reset_server_cookbook_scores ::
  "bool \<Rightarrow> (server_key \<rightharpoonup> complexity_row) \<Rightarrow> string \<Rightarrow> string \<Rightarrow> string
     \<Rightarrow> string + (server_key \<rightharpoonup> complexity_row)" where
  "reset_server_cookbook_scores sql_ok tbl org name version =
     (if \<not> sql_ok then Inl ''datastore: deleting server cookbook complexities''
      else Inr (\<lambda>(o', n', v', t'). if o' = org \<and> n' = name \<and> v' = version then None
                                     else tbl (o', n', v', t')))"

definition reset_git_repo_scores ::
  "bool \<Rightarrow> (git_key \<rightharpoonup> complexity_row) \<Rightarrow> string \<Rightarrow> string
     \<Rightarrow> string + (git_key \<rightharpoonup> complexity_row)" where
  "reset_git_repo_scores sql_ok tbl name url =
     (if \<not> sql_ok then Inl ''datastore: deleting git repo complexities''
      else Inr (\<lambda>(n', u', t'). if n' = name \<and> u' = url then None else tbl (n', u', t')))"

section \<open>Scoring one item\<close>

text \<open>
  A scan result and an auto-correct preview, in the columns scoring reads. \<open>cs_key\<close> is the key
  the row itself carries, which the preview is then looked up by.
\<close>

record 'k cookstyle_row =
  cs_key :: 'k
  cs_offences :: raw_offences
  cs_deprecation_count :: int
  cs_correctness_count :: int

record preview_row =
  pv_correctable_offenses :: int
  pv_remaining_offenses :: int

text \<open>A read: \<open>Inl\<close> for an error, \<open>Inr None\<close> for no row.\<close>

type_synonym 'a read = "string + 'a option"

record 'k score_db =
  sd_cookstyle :: "'k \<Rightarrow> 'k cookstyle_row read"
  sd_preview :: "'k \<Rightarrow> preview_row read"
  sd_write_ok :: "'k \<Rightarrow> bool"

text \<open>Step 2 of both scorers: the counts of the preview, when it could be read.\<close>

definition with_preview :: "preview_row read \<Rightarrow> offense_summary \<Rightarrow> offense_summary" where
  "with_preview pv summary =
     (case pv of
        Inr (Some p) \<Rightarrow> summary\<lparr>os_auto_correctable := pv_correctable_offenses p,
                                  os_manual_fix := pv_remaining_offenses p\<rparr>
      | _ \<Rightarrow> summary)"

record server_cookbook =
  sv_organisation_name :: string
  sv_name :: string
  sv_version :: string

record git_repo =
  gr_name :: string
  gr_git_repo_url :: string

definition empty_result ::
  "string \<Rightarrow> string \<Rightarrow> string \<Rightarrow> string \<Rightarrow> string \<Rightarrow> complexity_result" where
  "empty_result org name version url target =
     \<lparr>cx_organisation_name = org, cx_cookbook_name = name, cx_cookbook_version = version,
      cx_git_repo_url = url, cx_target_chef_version = target, cx_complexity_score = 0,
      cx_complexity_label = [], cx_summary = zero_summary, cx_blast = zero_blast,
      cx_evaluated_at = None, cx_skipped = False, cx_error = None\<rparr>"

definition score_one_server_cookbook ::
  "server_key score_db \<Rightarrow> scoper option \<Rightarrow> classifier option \<Rightarrow> radii \<Rightarrow> int
     \<Rightarrow> (server_key \<rightharpoonup> complexity_row) \<Rightarrow> string \<Rightarrow> server_cookbook
     \<Rightarrow> complexity_result \<times> (server_key \<rightharpoonup> complexity_row)" where
  "score_one_server_cookbook db scope classifier blast_radii now tbl target cb =
     (let res = empty_result (sv_organisation_name cb) (sv_name cb) (sv_version cb) [] target
      in case sd_cookstyle db (sv_organisation_name cb, sv_name cb, sv_version cb, target) of
           Inl e \<Rightarrow> (res\<lparr>cx_error := Some (''loading cookstyle result: '' @ e)\<rparr>, tbl)
         | Inr None \<Rightarrow> (res\<lparr>cx_skipped := True\<rparr>, tbl)
         | Inr (Some cs) \<Rightarrow>
             let summary = with_preview (sd_preview db (cs_key cs))
                   (classify_offenses (cs_offences cs) (cs_deprecation_count cs)
                      (cs_correctness_count cs));
                 blast = radius_of blast_radii (sv_name cb);
                 input = \<lparr>ci_organisation_name = sv_organisation_name cb,
                          ci_cookbook_name = sv_name cb, ci_cookbook_version = sv_version cb,
                          ci_git_repo_url = [], ci_target_chef_version = target,
                          ci_cookstyle = summary, ci_test_kitchen = [], ci_blast = blast\<rparr>;
                 score = cookstyle_score scope classifier (cs_offences cs) input;
                 res' = res\<lparr>cx_complexity_score := score,
                            cx_complexity_label := score_to_label score,
                            cx_summary := summary, cx_blast := blast,
                            cx_evaluated_at := Some now\<rparr>
             in (res', persist_server_cookbook_complexity
                         (sd_write_ok db (sv_organisation_name cb, sv_name cb, sv_version cb, target))
                         tbl res'))"

definition score_one_git_repo ::
  "git_key score_db \<Rightarrow> scoper option \<Rightarrow> classifier option \<Rightarrow> radii \<Rightarrow> (string \<rightharpoonup> tk_counts)
     \<Rightarrow> int \<Rightarrow> (git_key \<rightharpoonup> complexity_row) \<Rightarrow> string \<Rightarrow> git_repo
     \<Rightarrow> complexity_result \<times> (git_key \<rightharpoonup> complexity_row)" where
  "score_one_git_repo db scope classifier blast_radii tk_counts now tbl target repo =
     (let res = empty_result [] (gr_name repo) [] (gr_git_repo_url repo) target
      in case sd_cookstyle db (gr_name repo, gr_git_repo_url repo, target) of
           Inl e \<Rightarrow> (res\<lparr>cx_error := Some (''loading cookstyle result: '' @ e)\<rparr>, tbl)
         | Inr None \<Rightarrow> (res\<lparr>cx_skipped := True\<rparr>, tbl)
         | Inr (Some cs) \<Rightarrow>
             let summary = with_preview (sd_preview db (cs_key cs))
                   (classify_offenses (cs_offences cs) (cs_deprecation_count cs)
                      (cs_correctness_count cs));
                 blast = radius_of blast_radii (gr_name repo);
                 tk = (case tk_counts (gr_name repo @ ''|'' @ target) of
                         None \<Rightarrow> [] | Some c \<Rightarrow> counts_status c);
                 input = \<lparr>ci_organisation_name = [],
                          ci_cookbook_name = gr_name repo, ci_cookbook_version = [],
                          ci_git_repo_url = gr_git_repo_url repo, ci_target_chef_version = target,
                          ci_cookstyle = summary, ci_test_kitchen = tk, ci_blast = blast\<rparr>;
                 score = cookstyle_score scope classifier (cs_offences cs) input;
                 res' = res\<lparr>cx_complexity_score := score,
                            cx_complexity_label := score_to_label score,
                            cx_summary := summary, cx_blast := blast,
                            cx_evaluated_at := Some now\<rparr>
             in (res', persist_git_repo_complexity
                         (sd_write_ok db (gr_name repo, gr_git_repo_url repo, target)) tbl res'))"

section \<open>A batch\<close>

text \<open>
  The loop of \<open>ScoreServerCookbooks\<close> and \<open>ScoreGitRepos\<close> over an item scorer: \<open>cancelled\<close>
  is what \<open>ctx.Err() != nil\<close> answers before each item, by the number of items done; \<open>now\<close>
  is the clock when an item is scored.
\<close>

record batch_result =
  ba_total :: nat
  ba_scored :: nat
  ba_skipped :: nat
  ba_errors :: nat
  ba_results :: "complexity_result list"

definition tally :: "complexity_result \<Rightarrow> batch_result \<Rightarrow> batch_result" where
  "tally res b =
     (let b' = b\<lparr>ba_results := ba_results b @ [res]\<rparr>
      in if cx_skipped res then b'\<lparr>ba_skipped := Suc (ba_skipped b')\<rparr>
         else if cx_error res \<noteq> None then b'\<lparr>ba_errors := Suc (ba_errors b')\<rparr>
         else b'\<lparr>ba_scored := Suc (ba_scored b')\<rparr>)"

fun score_loop ::
  "(nat \<Rightarrow> 't \<Rightarrow> 'i \<Rightarrow> complexity_result \<times> 't) \<Rightarrow> (nat \<Rightarrow> bool) \<Rightarrow> nat \<Rightarrow> batch_result \<Rightarrow> 't
     \<Rightarrow> 'i list \<Rightarrow> batch_result \<times> 't" where
  "score_loop score cancelled k b tbl [] = (b, tbl)"
| "score_loop score cancelled k b tbl (item # items) =
     (if cancelled k then (b, tbl)
      else case score k tbl item of
             (res, tbl') \<Rightarrow> score_loop score cancelled (Suc k) (tally res b) tbl' items)"

definition start_batch :: "nat \<Rightarrow> batch_result" where
  "start_batch n = \<lparr>ba_total = n, ba_scored = 0, ba_skipped = 0, ba_errors = 0, ba_results = []\<rparr>"

definition score_server_cookbooks ::
  "server_key score_db \<Rightarrow> blast_reads \<Rightarrow> scoper option \<Rightarrow> (string \<Rightarrow> classifier option)
     \<Rightarrow> (nat \<Rightarrow> bool) \<Rightarrow> (nat \<Rightarrow> int) \<Rightarrow> (server_key \<rightharpoonup> complexity_row) \<Rightarrow> server_cookbook list
     \<Rightarrow> string \<Rightarrow> batch_result \<times> (server_key \<rightharpoonup> complexity_row)" where
  "score_server_cookbooks db reads scope classifier_for cancelled now tbl cookbooks target =
     (let radii = load_blast_radii reads; classifier = classifier_for target
      in score_loop
           (\<lambda>k tbl cb. score_one_server_cookbook db scope classifier radii (now k) tbl target cb)
           cancelled 0 (start_batch (List.length cookbooks)) tbl cookbooks)"

definition score_git_repos ::
  "git_key score_db \<Rightarrow> blast_reads \<Rightarrow> (string \<rightharpoonup> tk_counts) option \<Rightarrow> scoper option
     \<Rightarrow> (string \<Rightarrow> classifier option) \<Rightarrow> (nat \<Rightarrow> bool) \<Rightarrow> (nat \<Rightarrow> int)
     \<Rightarrow> (git_key \<rightharpoonup> complexity_row) \<Rightarrow> git_repo list \<Rightarrow> string
     \<Rightarrow> batch_result \<times> (git_key \<rightharpoonup> complexity_row)" where
  "score_git_repos db reads tk_counts scope classifier_for cancelled now tbl repos target =
     (let radii = load_blast_radii reads; classifier = classifier_for target;
          counts = (case tk_counts of None \<Rightarrow> Map.empty | Some m \<Rightarrow> m)
      in score_loop
           (\<lambda>k tbl repo. score_one_git_repo db scope classifier radii counts (now k) tbl target repo)
           cancelled 0 (start_batch (List.length repos)) tbl repos)"

section \<open>Facts\<close>

lemma cookstyle_complexity_loop_sum:
  "cookstyle_complexity_loop s offs = s + sum_list (map offense_weight offs)"
  by (induction s offs rule: cookstyle_complexity_loop.induct) auto

lemma compute_cookstyle_complexity_sum:
  "compute_cookstyle_complexity offs = sum_list (map offense_weight offs)"
  by (simp add: compute_cookstyle_complexity_def cookstyle_complexity_loop_sum)

definition count_if :: "('a \<Rightarrow> bool) \<Rightarrow> 'a list \<Rightarrow> int" where
  "count_if P xs = int (List.length (filter P xs))"

lemma count_if_simps [simp]:
  "count_if P [] = 0"
  "count_if P (x # xs) = (if P x then 1 else 0) + count_if P xs"
  by (simp_all add: count_if_def)

lemma classify_loop_counts:
  "classify_loop s offs =
     s\<lparr>os_error_fatal := os_error_fatal s + count_if (\<lambda>o'. is_error_or_fatal (so_severity o')) offs,
       os_deprecation := os_deprecation s + count_if (\<lambda>o'. is_deprecation (so_cop_name o')) offs,
       os_correctness := os_correctness s + count_if (\<lambda>o'. is_correctness (so_cop_name o')) offs,
       os_modernize := os_modernize s + count_if (\<lambda>o'. is_modernize (so_cop_name o')) offs\<rparr>"
proof (induction s offs rule: classify_loop.induct)
  case (1 s)
  then show ?case by simp
next
  case (2 s off offs)
  show ?case unfolding classify_loop.simps 2 by (simp add: add_if_def)
qed

text \<open>The weight of the categories exclude one another only in part: the largest wins.\<close>

lemma unclassified_weight_max:
  "unclassified_weight off =
     (if is_error_or_fatal (cl_severity off) then 5
      else if is_deprecation (cl_cop_name off) \<or> is_correctness (cl_cop_name off) then 3
      else if is_modernize (cl_cop_name off) then 1 else 0)"
  by (simp add: unclassified_weight_def raise_to_def weight_defs)

lemma unclassified_weight_bounds: "0 \<le> unclassified_weight off" "unclassified_weight off \<le> 5"
  by (simp_all add: unclassified_weight_max)

lemma offense_weight_bounds: "0 \<le> offense_weight off" "offense_weight off \<le> weight_blocker"
  using unclassified_weight_bounds [of off]
  by (simp_all add: offense_weight_def weight_blocker_def weight_review_def)

abbreviation in_scope_with :: "scoper option \<Rightarrow> classifier \<Rightarrow> string \<Rightarrow> stored_offense \<Rightarrow> bool" where
  "in_scope_with scope cls level off \<equiv>
     \<not> cl_out_of_scope (classify_one cls scope off)
     \<and> cls (so_cop_name off) (so_message off) = level"

lemma offense_weight_levels:
  assumes "cls (so_cop_name off) (so_message off)
             \<in> {classification_blocker, classification_review, classification_noise}"
  shows "offense_weight (classify_one cls scope off) =
     8 * (if in_scope_with scope cls classification_blocker off then 1 else 0)
       + (if in_scope_with scope cls classification_review off then 1 else 0)"
  using assms
  by (auto simp: offense_weight_def classify_one_def weight_blocker_def weight_review_def)

lemma weighted_score_levels:
  assumes "\<forall>off\<in>set offs. cls (so_cop_name off) (so_message off)
             \<in> {classification_blocker, classification_review, classification_noise}"
  shows "sum_list (map (\<lambda>off. offense_weight (classify_one cls scope off)) offs) =
     8 * count_if (in_scope_with scope cls classification_blocker) offs
       + count_if (in_scope_with scope cls classification_review) offs"
  using assms
proof (induction offs)
  case (Cons off offs)
  have "offense_weight (classify_one cls scope off) =
     8 * (if in_scope_with scope cls classification_blocker off then 1 else 0)
       + (if in_scope_with scope cls classification_review off then 1 else 0)"
    by (rule offense_weight_levels) (use Cons.prems in simp)
  then show ?case using Cons by simp
qed simp

text \<open>A resolver whose overrides are levels answers levels only.\<close>

lemma resolver_levels:
  assumes "ran (cr_operator_overrides r)
             \<subseteq> {classification_blocker, classification_review, classification_noise}"
  shows "classify_offense r c m
           \<in> {classification_blocker, classification_review, classification_noise}"
  using assms by (auto simp: classify_offense_cases ran_def split: option.splits)

lemma radius_of_upd:
  "radius_of (m(k \<mapsto> r)) n = (if n = k then r else radius_of m n)"
  by (simp add: radius_of_def)

lemma add_usage_radius:
  "radius_of (add_usage m ds) name =
     (radius_of m name)
       \<lparr>br_affected_node_count := br_affected_node_count (radius_of m name)
          + sum_list (map us_node_count (filter (\<lambda>d. us_cookbook_name d = name) ds)),
        br_affected_policy_count := br_affected_policy_count (radius_of m name)
          + sum_list (map (\<lambda>d. count_jsonb_string_array (us_policy_names d))
              (filter (\<lambda>d. us_cookbook_name d = name) ds))\<rparr>"
proof (induction m ds rule: add_usage.induct)
  case (1 m)
  then show ?case by simp
next
  case (2 m d ds)
  show ?case
    unfolding add_usage.simps Let_def 2 [OF refl refl] radius_of_upd
    by (cases "us_cookbook_name d = name") simp_all
qed

lemma add_roles_radius:
  "radius_of (add_roles m rcs) name =
     (case map_of (rev rcs) name of
        None \<Rightarrow> radius_of m name
      | Some n \<Rightarrow> (radius_of m name)\<lparr>br_affected_role_count := n\<rparr>)"
proof (induction m rcs rule: add_roles.induct)
  case (2 m k n rcs)
  show ?case
    unfolding add_roles.simps 2 radius_of_upd
    by (cases "name = k"; cases "map_of (rev rcs) name") (simp_all add: map_add_def)
qed simp

lemma tally_counts:
  "ba_scored (tally res b) + ba_skipped (tally res b) + ba_errors (tally res b)
     = Suc (ba_scored b + ba_skipped b + ba_errors b)"
  "ba_results (tally res b) = ba_results b @ [res]"
  "ba_total (tally res b) = ba_total b"
  by (simp_all add: tally_def Let_def)

lemma score_loop_counts:
  assumes "score_loop score cancelled k b tbl items = (b', tbl')"
    and "ba_scored b + ba_skipped b + ba_errors b = List.length (ba_results b)"
  shows "ba_scored b' + ba_skipped b' + ba_errors b' = List.length (ba_results b')
     \<and> ba_total b' = ba_total b
     \<and> List.length (ba_results b') \<le> List.length (ba_results b) + List.length items
     \<and> ((\<forall>j. \<not> cancelled j) \<longrightarrow>
          List.length (ba_results b') = List.length (ba_results b) + List.length items)"
  using assms
proof (induction score cancelled k b tbl items rule: score_loop.induct)
  case (2 score cancelled k b tbl item items)
  show ?case
  proof (cases "cancelled k")
    case True
    with 2 show ?thesis by auto
  next
    case False
    obtain res tbl1 where r: "score k tbl item = (res, tbl1)" by force
    from 2(2) False r
    have eq: "score_loop score cancelled (Suc k) (tally res b) tbl1 items = (b', tbl')" by simp
    have "ba_scored (tally res b) + ba_skipped (tally res b) + ba_errors (tally res b)
            = List.length (ba_results (tally res b))"
      using 2(3) by (simp add: tally_counts)
    from 2(1) [OF False r [symmetric] eq this] show ?thesis by (simp add: tally_counts)
  qed
qed simp

text \<open>A batch changes only the rows its items are the keys of.\<close>

lemma score_loop_frame:
  assumes "score_loop score cancelled k b tbl items = (b', tbl')"
    and "\<And>k tbl item. item \<in> set items \<Longrightarrow> key \<noteq> key_of item \<Longrightarrow> snd (score k tbl item) key = tbl key"
    and "key \<notin> key_of ` set items"
  shows "tbl' key = tbl key"
  using assms
proof (induction score cancelled k b tbl items rule: score_loop.induct)
  case (2 score cancelled k b tbl item items)
  show ?case
  proof (cases "cancelled k")
    case True
    with 2 show ?thesis by simp
  next
    case False
    obtain res tbl1 where r: "score k tbl item = (res, tbl1)" by force
    from 2(2) False r
    have eq: "score_loop score cancelled (Suc k) (tally res b) tbl1 items = (b', tbl')" by simp
    have "key \<noteq> key_of item" using 2(4) by auto
    then have "tbl1 key = tbl key" using 2(3) [of item k tbl] r by simp
    moreover have "tbl' key = tbl1 key"
      by (rule 2(1) [OF False r [symmetric] eq]) (use 2(3,4) in auto)
    ultimately show ?thesis by simp
  qed
qed simp

lemma upsert_server_alt:
  "upsert_server_complexity ok tbl (org, name, version, target) row = Inr tbl' \<longleftrightarrow>
     org \<noteq> [] \<and> name \<noteq> [] \<and> target \<noteq> [] \<and> ok
     \<and> tbl' = tbl((org, name, version, target) \<mapsto> row)"
  by (auto simp: upsert_server_complexity_def)

lemma persist_server_alt:
  "persist_server_cookbook_complexity ok tbl res =
     (if cx_organisation_name res \<noteq> [] \<and> cx_cookbook_name res \<noteq> []
         \<and> cx_target_chef_version res \<noteq> [] \<and> ok
      then tbl((cx_organisation_name res, cx_cookbook_name res, cx_cookbook_version res,
                cx_target_chef_version res) \<mapsto> row_of_result res)
      else tbl)"
  by (simp add: persist_server_cookbook_complexity_def upsert_server_complexity_def)

definition server_key_of :: "string \<Rightarrow> server_cookbook \<Rightarrow> server_key" where
  "server_key_of target cb = (sv_organisation_name cb, sv_name cb, sv_version cb, target)"

lemma score_one_server_frame:
  assumes "key \<noteq> server_key_of target cb"
  shows "snd (score_one_server_cookbook db scope cls radii now tbl target cb) key = tbl key"
  using assms
  by (auto simp: score_one_server_cookbook_def Let_def persist_server_alt empty_result_def
      server_key_of_def split: sum.splits option.splits)

section \<open>Properties\<close>

text \<open>With a resolver whose overrides are the three levels, the score of a scan is eight for
  each blocker in scope, one for each review offence in scope, and the Test Kitchen weight;
  noise and offences outside cookbook code cost nothing.\<close>

theorem weighted_score:
  assumes "ran (cr_operator_overrides r)
             \<subseteq> {classification_blocker, classification_review, classification_noise}"
  shows "cookstyle_score scope (Some (classify_offense r)) (Offences offs) input =
     8 * count_if (in_scope_with scope (classify_offense r) classification_blocker) offs
     + count_if (in_scope_with scope (classify_offense r) classification_review) offs
     + tk_weight (ci_test_kitchen input)"
proof -
  have "\<forall>off\<in>set offs. classify_offense r (so_cop_name off) (so_message off)
          \<in> {classification_blocker, classification_review, classification_noise}"
    using resolver_levels [OF assms] by blast
  from weighted_score_levels [OF this, of scope] show ?thesis
    by (simp add: cookstyle_score_def classify_offenses_for_complexity_def
        compute_cookstyle_complexity_sum comp_def)
qed

definition example_resolver :: classification_resolver where
  "example_resolver = new_resolver_from_store None ''19.0''"

definition example_stored :: "stored_offense list" where
  "example_stored =
     [\<lparr>so_cop_name = ''Custom/A'', so_severity = ''error'', so_message = [],
       so_location_file = ''recipes/a.rb''\<rparr>,
      \<lparr>so_cop_name = ''Custom/A'', so_severity = ''error'', so_message = [],
       so_location_file = ''Rakefile''\<rparr>]"

definition example_input :: complexity_input where
  "example_input = \<lparr>ci_organisation_name = ''o'', ci_cookbook_name = ''c'',
     ci_cookbook_version = ''1.0.0'', ci_git_repo_url = [], ci_target_chef_version = ''19.0'',
     ci_cookstyle = zero_summary, ci_test_kitchen = tk_status_failed, ci_blast = zero_blast\<rparr>"

lemma example_overrides: "ran (cr_operator_overrides example_resolver) = {}"
  by (simp add: example_resolver_def new_resolver_from_store_def)

lemma example_counts:
  "count_if (in_scope_with (Some (\<lambda>f. f = ''Rakefile'')) (classify_offense example_resolver)
      classification_blocker) example_stored = 1"
  "count_if (in_scope_with (Some (\<lambda>f. f = ''Rakefile'')) (classify_offense example_resolver)
      classification_review) example_stored = 0"
proof -
  have c: "classify_offense example_resolver ''Custom/A'' [] = classification_blocker"
    by (simp add: classify_offense_cases example_resolver_def new_resolver_from_store_def
        is_custom_cop_def custom_cop_prefix_def)
  show "count_if (in_scope_with (Some (\<lambda>f. f = ''Rakefile'')) (classify_offense example_resolver)
      classification_blocker) example_stored = 1"
    by (simp add: example_stored_def classify_one_def c)
  show "count_if (in_scope_with (Some (\<lambda>f. f = ''Rakefile'')) (classify_offense example_resolver)
      classification_review) example_stored = 0"
    by (simp add: example_stored_def classify_one_def c)
qed

theorem weighted_score_witness:
  "ran (cr_operator_overrides example_resolver)
     \<subseteq> {classification_blocker, classification_review, classification_noise}
   \<and> cookstyle_score (Some (\<lambda>f. f = ''Rakefile'')) (Some (classify_offense example_resolver))
       (Offences example_stored) example_input = 28"
proof -
  have h: "ran (cr_operator_overrides example_resolver)
     \<subseteq> {classification_blocker, classification_review, classification_noise}"
    by (simp add: example_overrides)
  from weighted_score [OF h, of "Some (\<lambda>f. f = ''Rakefile'')" example_stored example_input] h
  show ?thesis
    by (simp add: example_counts example_input_def tk_weight_def weight_tk_fail_def)
qed

text \<open>Scoring a server cookbook writes exactly the row of its own key, holding the result it
  returns, and only when a scan exists; an unscanned cookbook is skipped and one whose scan
  cannot be read is an error, and neither leaves a row that would make it look compatible.\<close>

theorem score_one_server_cookbook_effect:
  "(let key = server_key_of target cb;
        out = score_one_server_cookbook db scope cls radii now tbl target cb
    in snd out =
         (if (\<exists>cs. sd_cookstyle db key = Inr (Some cs)) \<and> sv_organisation_name cb \<noteq> []
             \<and> sv_name cb \<noteq> [] \<and> target \<noteq> [] \<and> sd_write_ok db key
          then tbl(key \<mapsto> row_of_result (fst out)) else tbl)
       \<and> (cx_skipped (fst out) \<longleftrightarrow> sd_cookstyle db key = Inr None)
       \<and> (cx_error (fst out) \<noteq> None \<longleftrightarrow> (\<exists>e. sd_cookstyle db key = Inl e))
       \<and> cx_complexity_label (fst out) =
           (if \<exists>cs. sd_cookstyle db key = Inr (Some cs)
            then score_to_label (cx_complexity_score (fst out)) else []))"
proof (cases "sd_cookstyle db (server_key_of target cb)")
  case (Inl e)
  then show ?thesis
    by (simp add: score_one_server_cookbook_def server_key_of_def empty_result_def)
next
  case (Inr row)
  then show ?thesis
    by (cases row) (simp_all add: score_one_server_cookbook_def server_key_of_def empty_result_def
        Let_def persist_server_alt)
qed

text \<open>A batch of server cookbooks accounts for every result it returns exactly once, as
  scored, skipped or in error, never for more items than it was given, and changes no row of
  the table but those of its own cookbooks at its own target version.\<close>

theorem score_server_cookbooks_accounts:
  "(let out = score_server_cookbooks db reads scope classifier_for cancelled now tbl cookbooks target;
        b = fst out
    in ba_scored b + ba_skipped b + ba_errors b = List.length (ba_results b)
       \<and> ba_total b = List.length cookbooks
       \<and> List.length (ba_results b) \<le> ba_total b
       \<and> {key. snd out key \<noteq> tbl key} \<subseteq> server_key_of target ` set cookbooks)"
proof -
  let ?score = "\<lambda>k tbl cb. score_one_server_cookbook db scope (classifier_for target)
                  (load_blast_radii reads) (now k) tbl target cb"
  obtain b tbl' where
    run: "score_loop ?score cancelled 0 (start_batch (List.length cookbooks)) tbl cookbooks = (b, tbl')"
    by force
  have "tbl' key = tbl key" if "key \<notin> server_key_of target ` set cookbooks" for key
    by (rule score_loop_frame [OF run _ that]) (rule score_one_server_frame)
  then have "{key. tbl' key \<noteq> tbl key} \<subseteq> server_key_of target ` set cookbooks"
    by blast
  moreover have "ba_scored b + ba_skipped b + ba_errors b = List.length (ba_results b)
     \<and> ba_total b = List.length cookbooks \<and> List.length (ba_results b) \<le> List.length cookbooks"
    using score_loop_counts [OF run] by (simp add: start_batch_def)
  ultimately show ?thesis using run by (simp add: score_server_cookbooks_def Let_def)
qed

text \<open>The blast radius of a cookbook name adds up the nodes and the policies of all the
  versions of that name in the latest analysis, and its roles are those of the last count for
  it; a failed read contributes nothing.\<close>

theorem blast_radius_sums:
  "(let ds = (case bl_latest_analysis db of None \<Rightarrow> [] | Some org \<Rightarrow>
                if org = [] then [] else case bl_summaries db org of None \<Rightarrow> [] | Some ds \<Rightarrow> ds);
        mine = filter (\<lambda>d. us_cookbook_name d = name) ds;
        rcs = (case bl_role_counts db of None \<Rightarrow> [] | Some rcs \<Rightarrow> rcs);
        r = radius_of (load_blast_radii db) name
    in br_affected_node_count r = sum_list (map us_node_count mine)
       \<and> br_affected_policy_count r
           = sum_list (map (\<lambda>d. count_jsonb_string_array (us_policy_names d)) mine)
       \<and> br_affected_role_count r = (case map_of (rev rcs) name of None \<Rightarrow> 0 | Some n \<Rightarrow> n))"
proof -
  have z: "radius_of Map.empty name = zero_blast" by (simp add: radius_of_def)
  define ds where "ds = (case bl_latest_analysis db of None \<Rightarrow> [] | Some org \<Rightarrow>
                if org = [] then [] else case bl_summaries db org of None \<Rightarrow> [] | Some ds \<Rightarrow> ds)"
  define rcs where "rcs = (case bl_role_counts db of None \<Rightarrow> [] | Some rcs \<Rightarrow> rcs)"
  have "load_blast_radii db = add_roles (add_usage Map.empty ds) rcs"
    by (simp add: load_blast_radii_def ds_def rcs_def split: option.splits)
  then show ?thesis
    unfolding ds_def [symmetric] rcs_def [symmetric] Let_def
    by (simp add: add_roles_radius add_usage_radius z zero_blast_def split: option.splits)
qed

end
