(* ===== verification/Fingerprint.thy ===== *)
theory Fingerprint
  imports Complexity "HOL-Library.Product_Lexorder"
begin

text \<open>
  Offence fingerprints (\<open>internal/analysis/cookstyle_fingerprint.go\<close>) and the trend
  recomputed from them (\<open>cookstyle_recompute.go\<close>). A time is a number of nanoseconds. The
  loop over the \<open>counts\<close> map takes the order of its iteration as an argument; the digest
  (sha256 of the canonical JSON) is a parameter.
\<close>

section \<open>Building a fingerprint\<close>

record fp_entry =
  fe_cop_name :: string
  fe_count :: int
  fe_severity :: string
  fe_excluded_count :: int
  fe_correctable :: bool

type_synonym fp_key = "string \<times> string \<times> bool"

definition offense_key :: "cookstyle_offense \<Rightarrow> fp_key" where
  "offense_key off = (co_cop_name off, co_severity off, co_corrected off)"

fun count_loop ::
  "scan_scope \<Rightarrow> (fp_key \<rightharpoonup> nat) \<times> (fp_key \<rightharpoonup> nat) \<Rightarrow> cookstyle_offense list
     \<Rightarrow> (fp_key \<rightharpoonup> nat) \<times> (fp_key \<rightharpoonup> nat)" where
  "count_loop scope acc [] = acc"
| "count_loop scope (counts, excluded) (off # offs) =
     count_loop scope
       (increment (offense_key off) counts,
        if excludes_offense scope off then increment (offense_key off) excluded else excluded) offs"

definition fp_entry_of ::
  "(fp_key \<rightharpoonup> nat) \<Rightarrow> (fp_key \<rightharpoonup> nat) \<Rightarrow> fp_key \<Rightarrow> fp_entry" where
  "fp_entry_of counts excluded k =
     (case k of (cop_name, severity, corrected) \<Rightarrow>
        \<lparr>fe_cop_name = cop_name, fe_count = int (count_of counts k), fe_severity = severity,
         fe_excluded_count = int (count_of excluded k), fe_correctable = corrected\<rparr>)"

text \<open>The comparison of \<open>sort.Slice\<close>: cop name, severity, \<open>false\<close> before \<open>true\<close>, count.\<close>

definition fp_sort_key :: "fp_entry \<Rightarrow> string \<times> string \<times> bool \<times> int" where
  "fp_sort_key e = (fe_cop_name e, fe_severity e, fe_correctable e, fe_count e)"

definition build_offence_fingerprint_in_scope ::
  "fp_key list \<Rightarrow> cookstyle_offense list \<Rightarrow> scan_scope \<Rightarrow> fp_entry list" where
  "build_offence_fingerprint_in_scope order offs scope =
     (case count_loop scope (Map.empty, Map.empty) offs of
        (counts, excluded) \<Rightarrow> sort_key fp_sort_key (map (fp_entry_of counts excluded) order))"

definition fingerprint_with_hash ::
  "(fp_entry list \<Rightarrow> string) \<Rightarrow> fp_key list \<Rightarrow> cookstyle_offense list \<Rightarrow> scan_scope
     \<Rightarrow> fp_entry list \<times> string" where
  "fingerprint_with_hash digest order offs scope =
     (let entries = build_offence_fingerprint_in_scope order offs scope
      in (entries, digest entries))"

text \<open>An order in which Go may range over the \<open>counts\<close> map: each key once.\<close>

definition iteration_order :: "fp_key list \<Rightarrow> cookstyle_offense list \<Rightarrow> bool" where
  "iteration_order order offs = (distinct order \<and> set order = offense_key ` set offs)"

section \<open>Deriving from a fingerprint\<close>

fun derive_fp_loop ::
  "classification_resolver \<Rightarrow> bool \<Rightarrow> fp_entry list \<Rightarrow> string" where
  "derive_fp_loop r has_review [] = (if has_review then status_needs_review else status_ready)"
| "derive_fp_loop r has_review (c # cs) =
     (if fe_count c - fe_excluded_count c \<le> 0 then derive_fp_loop r has_review cs
      else
        let cl = rc_classification (resolve r (fe_cop_name c))
        in if cl = classification_blocker then status_blocked
           else if cl = classification_review then derive_fp_loop r True cs
           else derive_fp_loop r has_review cs)"

definition derive_status_from_fingerprint ::
  "fp_entry list \<Rightarrow> classification_resolver \<Rightarrow> string" where
  "derive_status_from_fingerprint cops r = derive_fp_loop r False cops"

definition fp_offense :: "(string \<Rightarrow> string) \<Rightarrow> fp_entry \<Rightarrow> classified_offense" where
  "fp_offense classify_cop c =
     \<lparr>cl_cop_name = fe_cop_name c, cl_severity = fe_severity c,
      cl_classification = classify_cop (fe_cop_name c), cl_out_of_scope = False\<rparr>"

fun complexity_fp_loop :: "(string \<Rightarrow> string) \<Rightarrow> int \<Rightarrow> fp_entry list \<Rightarrow> int" where
  "complexity_fp_loop cls tot [] = tot"
| "complexity_fp_loop cls tot (c # cs) =
     (let in_scope = fe_count c - fe_excluded_count c
      in if in_scope \<le> 0 then complexity_fp_loop cls tot cs
         else complexity_fp_loop cls
                (tot + compute_cookstyle_complexity [fp_offense cls c] * in_scope) cs)"

definition complexity_from_fingerprint ::
  "fp_entry list \<Rightarrow> (string \<Rightarrow> string) option \<Rightarrow> int" where
  "complexity_from_fingerprint cops classifier =
     (case classifier of None \<Rightarrow> 0 | Some cls \<Rightarrow> complexity_fp_loop cls 0 cops)"

section \<open>Histories\<close>

record fp_row =
  fr_result_kind :: string
  fr_organisation_name :: string
  fr_cookbook_name :: string
  fr_cookbook_version :: string
  fr_git_repo_name :: string
  fr_git_repo_url :: string
  fr_target_chef_version :: string
  fr_cops :: "fp_entry list"
  fr_scanned_at :: int

record fp_history =
  fh_key :: string
  fh_rows :: "fp_row list"

definition fingerprint_kind_server_cookbook :: string where
  "fingerprint_kind_server_cookbook = ''server_cookbook''"

definition nul :: string where "nul = [CHR 0x00]"

definition fingerprint_result_key :: "fp_row \<Rightarrow> string" where
  "fingerprint_result_key r =
     (if fr_result_kind r = fingerprint_kind_server_cookbook
      then ''server'' @ nul @ fr_organisation_name r @ nul @ fr_cookbook_name r @ nul
             @ fr_cookbook_version r @ nul @ fr_target_chef_version r
      else ''git'' @ nul @ fr_git_repo_name r @ nul @ fr_git_repo_url r @ nul
             @ fr_target_chef_version r)"

fun group_loop ::
  "(string \<rightharpoonup> nat) \<Rightarrow> fp_history list \<Rightarrow> fp_row list \<Rightarrow> fp_history list" where
  "group_loop index out [] = out"
| "group_loop index out (row # rows) =
     (let key = fingerprint_result_key row
      in case index key of
           None \<Rightarrow> group_loop (index(key \<mapsto> List.length out))
                     (out @ [\<lparr>fh_key = key, fh_rows = [row]\<rparr>]) rows
         | Some pos \<Rightarrow>
             group_loop index (out[pos := (out ! pos)\<lparr>fh_rows := fh_rows (out ! pos) @ [row]\<rparr>]) rows)"

definition group_fingerprint_histories :: "fp_row list \<Rightarrow> fp_history list" where
  "group_fingerprint_histories rows = group_loop Map.empty [] rows"

fun valid_at_loop :: "int \<Rightarrow> fp_row option \<Rightarrow> fp_row list \<Rightarrow> fp_row option" where
  "valid_at_loop t found [] = found"
| "valid_at_loop t found (row # rows) =
     (if fr_scanned_at row > t then found else valid_at_loop t (Some row) rows)"

definition fingerprint_valid_at :: "fp_row list \<Rightarrow> int \<Rightarrow> fp_entry list option" where
  "fingerprint_valid_at rows t = map_option fr_cops (valid_at_loop t None rows)"

record rollup =
  ro_ready :: nat
  ro_needs_review :: nat
  ro_blocked :: nat
  ro_untested :: nat
  ro_total_complexity :: int
  ro_members_with_data :: nat

definition zero_rollup :: rollup where
  "zero_rollup = \<lparr>ro_ready = 0, ro_needs_review = 0, ro_blocked = 0, ro_untested = 0,
     ro_total_complexity = 0, ro_members_with_data = 0\<rparr>"

definition add_status :: "string \<Rightarrow> rollup \<Rightarrow> rollup" where
  "add_status status out =
     (if status = status_blocked then out\<lparr>ro_blocked := Suc (ro_blocked out)\<rparr>
      else if status = status_needs_review
        then out\<lparr>ro_needs_review := Suc (ro_needs_review out)\<rparr>
      else out\<lparr>ro_ready := Suc (ro_ready out)\<rparr>)"

fun rollup_loop ::
  "classification_resolver \<Rightarrow> int \<Rightarrow> rollup \<Rightarrow> fp_history list \<Rightarrow> rollup" where
  "rollup_loop r t out [] = out"
| "rollup_loop r t out (h # hs) =
     (case fingerprint_valid_at (fh_rows h) t of
        None \<Rightarrow> rollup_loop r t (out\<lparr>ro_untested := Suc (ro_untested out)\<rparr>) hs
      | Some cops \<Rightarrow>
          let out1 = out\<lparr>ro_members_with_data := Suc (ro_members_with_data out)\<rparr>;
              out2 = add_status (derive_status_from_fingerprint cops r) out1;
              out3 = out2\<lparr>ro_total_complexity := ro_total_complexity out2
                            + complexity_from_fingerprint cops (Some (classify r))\<rparr>
          in rollup_loop r t out3 hs)"

definition recompute_rollup_at ::
  "fp_history list \<Rightarrow> int \<Rightarrow> classification_resolver \<Rightarrow> rollup" where
  "recompute_rollup_at histories t r = rollup_loop r t zero_rollup histories"

text \<open>The two nested loops visit every row of every history in turn.\<close>

fun distinct_times_loop :: "int set \<Rightarrow> int list \<Rightarrow> fp_row list \<Rightarrow> int list" where
  "distinct_times_loop seen out [] = out"
| "distinct_times_loop seen out (row # rows) =
     (if fr_scanned_at row \<in> seen then distinct_times_loop seen out rows
      else distinct_times_loop (insert (fr_scanned_at row) seen) (out @ [fr_scanned_at row]) rows)"

definition distinct_scan_times :: "fp_history list \<Rightarrow> int list" where
  "distinct_scan_times histories =
     sort (distinct_times_loop {} [] (concat (map fh_rows histories)))"

definition recompute_trend ::
  "fp_history list \<Rightarrow> int list \<Rightarrow> classification_resolver \<Rightarrow> (int \<times> rollup) list" where
  "recompute_trend histories ts r =
     map (\<lambda>t. (t, recompute_rollup_at histories t r)) ts"

fun boundary_loop :: "int option \<Rightarrow> fp_history list \<Rightarrow> int option" where
  "boundary_loop earliest [] = earliest"
| "boundary_loop earliest (h # hs) =
     (case fh_rows h of
        [] \<Rightarrow> boundary_loop earliest hs
      | row # _ \<Rightarrow>
          (case earliest of
             None \<Rightarrow> boundary_loop (Some (fr_scanned_at row)) hs
           | Some e \<Rightarrow>
               if fr_scanned_at row < e then boundary_loop (Some (fr_scanned_at row)) hs
               else boundary_loop earliest hs))"

definition fingerprint_data_boundary :: "fp_history list \<Rightarrow> int option" where
  "fingerprint_data_boundary histories = boundary_loop None histories"

text \<open>What the datastore promises of a history: rows ascending by \<open>scanned_at\<close>.\<close>

definition ascending :: "fp_history \<Rightarrow> bool" where
  "ascending h = sorted (map fr_scanned_at (fh_rows h))"

section \<open>Facts: the entries\<close>

lemma count_loop_counts:
  "count_of (fst (count_loop scope acc offs)) k =
     count_of (fst acc) k + List.length (filter (\<lambda>off. offense_key off = k) offs)"
  "count_of (snd (count_loop scope acc offs)) k =
     count_of (snd acc) k
       + List.length (filter (\<lambda>off. offense_key off = k \<and> excludes_offense scope off) offs)"
  by (induction scope acc offs rule: count_loop.induct) (auto simp: count_of_increment)

definition key_count :: "cookstyle_offense list \<Rightarrow> fp_key \<Rightarrow> nat" where
  "key_count offs k = List.length (filter (\<lambda>off. offense_key off = k) offs)"

definition key_excluded :: "scan_scope \<Rightarrow> cookstyle_offense list \<Rightarrow> fp_key \<Rightarrow> nat" where
  "key_excluded scope offs k =
     List.length (filter (\<lambda>off. offense_key off = k \<and> excludes_offense scope off) offs)"

definition key_in_scope :: "scan_scope \<Rightarrow> cookstyle_offense list \<Rightarrow> fp_key \<Rightarrow> nat" where
  "key_in_scope scope offs k =
     List.length (filter (\<lambda>off. offense_key off = k \<and> \<not> excludes_offense scope off) offs)"

lemma key_count_split: "key_count offs k = key_excluded scope offs k + key_in_scope scope offs k"
  by (induction offs) (auto simp: key_count_def key_excluded_def key_in_scope_def)

definition fp_entry_for :: "scan_scope \<Rightarrow> cookstyle_offense list \<Rightarrow> fp_key \<Rightarrow> fp_entry" where
  "fp_entry_for scope offs k =
     \<lparr>fe_cop_name = fst k, fe_count = int (key_count offs k), fe_severity = fst (snd k),
      fe_excluded_count = int (key_excluded scope offs k), fe_correctable = snd (snd k)\<rparr>"

lemma build_alt:
  "build_offence_fingerprint_in_scope order offs scope =
     sort_key fp_sort_key (map (fp_entry_for scope offs) order)"
proof -
  obtain c e where l: "count_loop scope (Map.empty, Map.empty) offs = (c, e)" by force
  have "fp_entry_of c e k = fp_entry_for scope offs k" for k
    using count_loop_counts [of scope "(Map.empty, Map.empty)" offs k] l
    by (simp add: fp_entry_of_def fp_entry_for_def key_count_def key_excluded_def split: prod.split)
  then have "map (fp_entry_of c e) order = map (fp_entry_for scope offs) order" by simp
  then show ?thesis by (simp only: build_offence_fingerprint_in_scope_def l prod.case)
qed

lemma fp_entry_for_in_scope:
  "fe_count (fp_entry_for scope offs k) - fe_excluded_count (fp_entry_for scope offs k)
     = int (key_in_scope scope offs k)"
  by (simp add: fp_entry_for_def key_count_split [of offs k scope])

lemma key_in_scope_pos:
  "0 < key_in_scope scope offs k \<longleftrightarrow>
     (\<exists>off\<in>set offs. offense_key off = k \<and> \<not> excludes_offense scope off)"
  by (auto simp: key_in_scope_def filter_empty_conv)

lemma fp_sort_key_entry:
  "fp_sort_key (fp_entry_for scope offs k) = (fst k, fst (snd k), snd (snd k), int (key_count offs k))"
  by (simp add: fp_sort_key_def fp_entry_for_def)

lemma inj_fp_sort_key: "inj_on fp_sort_key (fp_entry_for scope offs ` S)"
  by (auto simp: inj_on_def fp_sort_key_entry)

lemma sort_key_unique:
  assumes "inj_on f (set xs)" and "distinct xs" and "distinct ys" and "set xs = set ys"
  shows "sort_key f xs = sort_key f ys"
proof (rule map_sorted_distinct_set_unique [where f = f])
  show "inj_on f (set (sort_key f xs) \<union> set (sort_key f ys))" using assms by simp
  show "sorted (map f (sort_key f xs))" "sorted (map f (sort_key f ys))" by simp_all
  show "distinct (map f (sort_key f xs))" "distinct (map f (sort_key f ys))"
    using assms by (simp_all add: distinct_map)
  show "set (sort_key f xs) = set (sort_key f ys)" using assms by simp
qed

lemma distinct_entries: "distinct order \<Longrightarrow> distinct (map (fp_entry_for scope offs) order)"
  by (auto simp: distinct_map inj_on_def fp_entry_for_def prod_eq_iff)

section \<open>Facts: the derivations\<close>

lemma derive_fp_loop_alt:
  "derive_fp_loop r h cs =
     (let live = filter (\<lambda>c. fe_count c - fe_excluded_count c > 0) cs
      in if list_ex (\<lambda>c. classify r (fe_cop_name c) = classification_blocker) live
         then status_blocked
         else if h \<or> list_ex (\<lambda>c. classify r (fe_cop_name c) = classification_review) live
         then status_needs_review
         else status_ready)"
  by (induction cs arbitrary: h) (auto simp: Let_def classify_def)

text \<open>The weight of the in-scope occurrences of an entry.\<close>

definition fp_weight :: "(string \<Rightarrow> string) \<Rightarrow> fp_entry \<Rightarrow> int" where
  "fp_weight cls c = offense_weight (fp_offense cls c) * max 0 (fe_count c - fe_excluded_count c)"

lemma complexity_fp_loop_sum:
  "complexity_fp_loop cls tot cs = tot + sum_list (map (fp_weight cls) cs)"
  by (induction cls tot cs rule: complexity_fp_loop.induct)
     (auto simp: Let_def fp_weight_def compute_cookstyle_complexity_sum max_def)

lemma sum_by_key:
  assumes "distinct ks" and "key ` set xs \<subseteq> set ks"
  shows "sum_list (map (\<lambda>k. w k * int (List.length (filter (\<lambda>x. key x = k \<and> P x) xs))) ks)
       = sum_list (map (\<lambda>x. w (key x)) (filter P xs))"
  using assms(2)
proof (induction xs)
  case (Cons x xs)
  have one: "sum_list (map (\<lambda>k. if key x = k then w k else 0) ks) = w (key x)"
    using assms(1) Cons.prems
    by (simp add: sum_list_distinct_conv_sum_set sum.delta)
  have "sum_list (map (\<lambda>k. w k * int (List.length (filter (\<lambda>y. key y = k \<and> P y) (x # xs)))) ks)
      = sum_list (map (\<lambda>k. (if P x \<and> key x = k then w k else 0)
          + w k * int (List.length (filter (\<lambda>y. key y = k \<and> P y) xs))) ks)"
    by (rule arg_cong [where f = sum_list], rule map_cong) (auto simp: algebra_simps)
  also have "\<dots> = (if P x then w (key x) else 0)
      + sum_list (map (\<lambda>k. w k * int (List.length (filter (\<lambda>y. key y = k \<and> P y) xs))) ks)"
    using one by (cases "P x") (simp_all add: sum_list_addf)
  finally show ?case using Cons by simp
qed simp

section \<open>Facts: histories\<close>

lemma valid_at_loop_filter:
  "sorted (map fr_scanned_at rows) \<Longrightarrow>
   valid_at_loop t found rows =
     (case filter (\<lambda>r. fr_scanned_at r \<le> t) rows of [] \<Rightarrow> found | rs \<Rightarrow> Some (last rs))"
proof (induction t found rows rule: valid_at_loop.induct)
  case (2 t found row rows)
  show ?case
  proof (cases "fr_scanned_at row > t")
    case True
    with 2(2) have "filter (\<lambda>r. fr_scanned_at r \<le> t) (row # rows) = []"
      by (auto simp: filter_empty_conv)
    with True show ?thesis by simp
  next
    case False
    with 2 show ?thesis by (auto split: list.splits)
  qed
qed simp

lemma rollup_loop_partition:
  "ro_ready (rollup_loop r t out hs) + ro_needs_review (rollup_loop r t out hs)
     + ro_blocked (rollup_loop r t out hs) + ro_untested (rollup_loop r t out hs)
   = ro_ready out + ro_needs_review out + ro_blocked out + ro_untested out + List.length hs"
  by (induction r t out hs rule: rollup_loop.induct)
     (auto simp: Let_def add_status_def split: option.splits)

lemma rollup_loop_members:
  "ro_members_with_data (rollup_loop r t out hs) + ro_untested (rollup_loop r t out hs)
   = ro_members_with_data out + ro_untested out + List.length hs"
  by (induction r t out hs rule: rollup_loop.induct)
     (auto simp: Let_def add_status_def split: option.splits)

lemma rollup_loop_cong:
  assumes "\<forall>h\<in>set hs. fingerprint_valid_at (fh_rows h) t = fingerprint_valid_at (fh_rows h) t'"
  shows "rollup_loop r t out hs = rollup_loop r t' out hs"
  using assms by (induction hs arbitrary: out) (auto split: option.splits)

lemma distinct_times_loop_spec:
  assumes "set out = seen" and "distinct out"
  shows "distinct (distinct_times_loop seen out rows)
         \<and> set (distinct_times_loop seen out rows) = seen \<union> fr_scanned_at ` set rows"
  using assms by (induction seen out rows rule: distinct_times_loop.induct) auto

lemma distinct_scan_times_set:
  "set (distinct_scan_times hs) = fr_scanned_at ` (\<Union>h\<in>set hs. set (fh_rows h))"
  using distinct_times_loop_spec [of "[]" "{}" "concat (map fh_rows hs)"]
  by (simp add: distinct_scan_times_def)

lemma valid_at_stable:
  assumes "ascending h" and "t \<le> t'"
    and "\<forall>row\<in>set (fh_rows h). \<not> (t < fr_scanned_at row \<and> fr_scanned_at row \<le> t')"
  shows "fingerprint_valid_at (fh_rows h) t = fingerprint_valid_at (fh_rows h) t'"
proof -
  have "filter (\<lambda>r. fr_scanned_at r \<le> t) (fh_rows h) = filter (\<lambda>r. fr_scanned_at r \<le> t') (fh_rows h)"
    using assms(2,3) by (intro filter_cong) auto
  with assms(1) show ?thesis
    by (simp add: fingerprint_valid_at_def valid_at_loop_filter ascending_def)
qed

definition earlier_of :: "int option \<Rightarrow> int \<Rightarrow> bool" where
  "earlier_of e t = (case e of None \<Rightarrow> False | Some x \<Rightarrow> x \<le> t)"

lemma earlier_of_simps [simp]:
  "\<not> earlier_of None t" "earlier_of (Some x) t \<longleftrightarrow> x \<le> t"
  by (simp_all add: earlier_of_def)

definition first_by :: "int \<Rightarrow> fp_history \<Rightarrow> bool" where
  "first_by t h = (case fh_rows h of [] \<Rightarrow> False | row # _ \<Rightarrow> fr_scanned_at row \<le> t)"

lemma boundary_loop_le:
  "earlier_of (boundary_loop e hs) t \<longleftrightarrow> earlier_of e t \<or> (\<exists>h\<in>set hs. first_by t h)"
proof (induction hs arbitrary: e)
  case (Cons h hs)
  show ?case
  proof (cases "fh_rows h")
    case Nil
    then show ?thesis by (simp add: Cons first_by_def)
  next
    case (Cons row rows)
    then show ?thesis by (cases e) (auto simp: Cons.IH first_by_def)
  qed
qed simp

lemma valid_at_None_iff:
  assumes "ascending h"
  shows "fingerprint_valid_at (fh_rows h) t = None \<longleftrightarrow> \<not> first_by t h"
proof (cases "fh_rows h")
  case Nil
  then show ?thesis by (simp add: fingerprint_valid_at_def first_by_def)
next
  case (Cons row rows)
  have sorted: "sorted (map fr_scanned_at (row # rows))" using assms Cons by (simp add: ascending_def)
  then have "(filter (\<lambda>r. fr_scanned_at r \<le> t) (row # rows) = []) \<longleftrightarrow> \<not> fr_scanned_at row \<le> t"
    by (force simp: filter_empty_conv)
  then show ?thesis
    using valid_at_loop_filter [OF sorted, of t None]
    by (auto simp: fingerprint_valid_at_def first_by_def Cons split: list.splits)
qed

section \<open>A fingerprint stands for its scan\<close>

text \<open>\<open>enrichOffenses\<close>: an offence as it is stored, in the columns scoring reads.\<close>

definition enrich_offense :: "cookstyle_offense \<Rightarrow> stored_offense" where
  "enrich_offense off = \<lparr>so_cop_name = co_cop_name off, so_severity = co_severity off,
     so_message = co_message off, so_location_file = co_file off\<rparr>"

definition key_offense :: "(string \<Rightarrow> string) \<Rightarrow> fp_key \<Rightarrow> classified_offense" where
  "key_offense cls k = \<lparr>cl_cop_name = fst k, cl_severity = fst (snd k),
     cl_classification = cls (fst k), cl_out_of_scope = False\<rparr>"

lemma fp_weight_entry:
  "fp_weight cls (fp_entry_for scope offs k)
     = offense_weight (key_offense cls k) * int (key_in_scope scope offs k)"
proof -
  have "fp_offense cls (fp_entry_for scope offs k) = key_offense cls k"
    by (simp add: fp_offense_def fp_entry_for_def key_offense_def)
  then show ?thesis unfolding fp_weight_def fp_entry_for_in_scope by simp
qed

lemma sum_list_sort_key:
  "sum_list (map w (sort_key f xs)) = sum_list (map (w :: 'a \<Rightarrow> int) xs)"
  by (metis mset_map mset_sort sum_mset_sum_list)

context cop_classifier
begin

text \<open>No message of an offence in scope changes the class its cop has.\<close>

definition read_by_name :: "scan_scope \<Rightarrow> cookstyle_offense list \<Rightarrow> bool" where
  "read_by_name scope offs =
     (\<forall>off\<in>set offs. \<not> excludes_offense scope off \<longrightarrow>
        cls_offense (co_cop_name off) (co_message off) = cls (co_cop_name off))"

lemma scored_weight:
  assumes "\<not> excludes_offense scope off \<Longrightarrow> cls_offense (co_cop_name off) (co_message off) = cls (co_cop_name off)"
    and "offense_path off = co_file off"
  shows "offense_weight (classify_one cls_offense (Some (excludes_path scope)) (enrich_offense off))
       = (if excludes_offense scope off then 0
          else offense_weight (key_offense cls (offense_key off)))"
  using assms
  by (cases "excludes_offense scope off")
     (simp_all add: classify_one_def enrich_offense_def key_offense_def offense_key_def
      offense_weight_def unclassified_weight_def excludes_offense_path)

lemma complexity_of_fingerprint:
  assumes "iteration_order order offs" and "read_by_name scope offs"
    and "\<forall>off\<in>set offs. offense_path off = co_file off"
  shows "complexity_from_fingerprint (build_offence_fingerprint_in_scope order offs scope) (Some cls)
       = compute_cookstyle_complexity
           (classify_offenses_for_complexity (Offences (map enrich_offense offs))
              (Some cls_offense) (Some (excludes_path scope)))"
proof -
  let ?w = "\<lambda>k. offense_weight (key_offense cls k)"
  let ?out = "\<lambda>off. \<not> excludes_offense scope off"
  have "complexity_from_fingerprint (build_offence_fingerprint_in_scope order offs scope) (Some cls)
      = sum_list (map (\<lambda>k. ?w k * int (key_in_scope scope offs k)) order)"
    by (simp add: complexity_from_fingerprint_def complexity_fp_loop_sum build_alt
        sum_list_sort_key comp_def fp_weight_entry)
  also have "\<dots> = sum_list (map (\<lambda>off. ?w (offense_key off)) (filter ?out offs))"
    unfolding key_in_scope_def
    by (rule sum_by_key) (use assms(1) in \<open>auto simp: iteration_order_def\<close>)
  also have "\<dots> = sum_list (map (\<lambda>off. if ?out off then ?w (offense_key off) else 0) offs)"
    by (simp add: sum_list_map_filter')
  also have "\<dots> = sum_list (map (\<lambda>off. offense_weight
        (classify_one cls_offense (Some (excludes_path scope)) (enrich_offense off))) offs)"
  proof (rule arg_cong [where f = sum_list], rule map_cong [OF refl])
    fix off assume m: "off \<in> set offs"
    then have "?out off \<Longrightarrow> cls_offense (co_cop_name off) (co_message off) = cls (co_cop_name off)"
      using assms(2) by (simp add: read_by_name_def)
    moreover have "offense_path off = co_file off" using assms(3) m by blast
    ultimately show "(if ?out off then ?w (offense_key off) else 0) = offense_weight
        (classify_one cls_offense (Some (excludes_path scope)) (enrich_offense off))"
      using scored_weight [of scope off] by simp
  qed
  finally show ?thesis
    by (simp add: classify_offenses_for_complexity_def compute_cookstyle_complexity_sum comp_def)
qed

end

text \<open>An offence as a fingerprint sees it: without its message, and with the path that was matched as its file.\<close>

definition plain_offense :: "cookstyle_offense \<Rightarrow> cookstyle_offense" where
  "plain_offense off = off\<lparr>co_message := [], co_file := offense_path off\<rparr>"

lemma plain_offense_simps [simp]:
  "offense_key (plain_offense off) = offense_key off" "co_cop_name (plain_offense off) = co_cop_name off"
  "co_message (plain_offense off) = []" "offense_path (plain_offense off) = offense_path off"
  "co_file (plain_offense off) = offense_path off"
  "excludes_offense scope (plain_offense off) = excludes_offense scope off"
  by (auto simp: plain_offense_def offense_key_def offense_path_def excludes_offense_def)

lemma count_loop_plain: "count_loop scope acc (map plain_offense offs) = count_loop scope acc offs"
  by (induction scope acc offs rule: count_loop.induct) auto

lemma fingerprint_plain:
  "build_offence_fingerprint_in_scope order (map plain_offense offs) scope
   = build_offence_fingerprint_in_scope order offs scope"
  by (simp add: build_offence_fingerprint_in_scope_def count_loop_plain)

lemma iteration_order_plain: "iteration_order order (map plain_offense offs) = iteration_order order offs"
  by (simp add: iteration_order_def image_image)

lemma classify_offense_nil [simp]: "classify_offense r c [] = classify r c"
  by (simp add: classify_offense_def classify_def resolve_def)

lemma plain_read_by_name: "resolver.read_by_name r scope (map plain_offense offs)"
  by (simp add: resolver.read_by_name_def)

lemma live_entries:
  assumes "iteration_order order offs"
  shows "(\<exists>c\<in>set (build_offence_fingerprint_in_scope order offs scope).
            fe_count c - fe_excluded_count c > 0 \<and> P (fe_cop_name c))
       \<longleftrightarrow> (\<exists>off\<in>set offs. \<not> excludes_offense scope off \<and> P (co_cop_name off))"
proof -
  have "(\<exists>c\<in>set (build_offence_fingerprint_in_scope order offs scope).
            fe_count c - fe_excluded_count c > 0 \<and> P (fe_cop_name c))
      \<longleftrightarrow> (\<exists>k\<in>set order. key_in_scope scope offs k > 0 \<and> P (fst k))"
    unfolding build_alt set_sort set_map bex_simps(7) fp_entry_for_in_scope
    by (simp add: fp_entry_for_def)
  also have "\<dots> \<longleftrightarrow> (\<exists>off\<in>set offs. \<not> excludes_offense scope off \<and> P (co_cop_name off))"
    using assms by (auto simp: key_in_scope_pos iteration_order_def) (auto simp: offense_key_def)
  finally show ?thesis .
qed

section \<open>Grouping\<close>

text \<open>The keys of a list of rows in the order of their first appearance.\<close>

definition first_keys :: "fp_row list \<Rightarrow> string list" where
  "first_keys rows = rev (remdups (rev (map fingerprint_result_key rows)))"

definition grouped :: "fp_row list \<Rightarrow> fp_history list" where
  "grouped rows = map (\<lambda>k. \<lparr>fh_key = k,
     fh_rows = filter (\<lambda>r. fingerprint_result_key r = k) rows\<rparr>) (first_keys rows)"

lemma first_keys_snoc:
  "first_keys (rows @ [row]) =
     (if fingerprint_result_key row \<in> set (first_keys rows) then first_keys rows
      else first_keys rows @ [fingerprint_result_key row])"
  by (simp add: first_keys_def)

lemma first_keys_facts: "distinct (first_keys rows)"
  "set (first_keys rows) = fingerprint_result_key ` set rows"
  by (simp_all add: first_keys_def)

lemma grouped_snoc_new:
  assumes "fingerprint_result_key row \<notin> set (first_keys rows)"
  shows "grouped (rows @ [row]) = grouped rows @ [\<lparr>fh_key = fingerprint_result_key row, fh_rows = [row]\<rparr>]"
proof -
  have "filter (\<lambda>r. fingerprint_result_key r = fingerprint_result_key row) rows = []"
    using assms unfolding first_keys_facts filter_empty_conv by (metis image_eqI)
  then show ?thesis
    using assms by (auto simp: grouped_def first_keys_snoc)
qed

lemma grouped_snoc_old:
  assumes "i < List.length (first_keys rows)" and "first_keys rows ! i = fingerprint_result_key row"
  shows "grouped (rows @ [row]) =
     (grouped rows)[i := (grouped rows ! i)\<lparr>fh_rows := fh_rows (grouped rows ! i) @ [row]\<rparr>]"
proof (rule nth_equalityI)
  have mem: "fingerprint_result_key row \<in> set (first_keys rows)" using assms by (metis nth_mem)
  then show "List.length (grouped (rows @ [row])) = List.length ((grouped rows)
      [i := (grouped rows ! i)\<lparr>fh_rows := fh_rows (grouped rows ! i) @ [row]\<rparr>])"
    by (simp add: grouped_def first_keys_snoc)
  fix j assume "j < List.length (grouped (rows @ [row]))"
  then have j: "j < List.length (first_keys rows)" using mem by (simp add: grouped_def first_keys_snoc)
  have "first_keys rows ! j = fingerprint_result_key row \<longleftrightarrow> j = i"
    using j assms first_keys_facts(1) [of rows] by (metis nth_eq_iff_index_eq)
  then show "grouped (rows @ [row]) ! j = (grouped rows)
      [i := (grouped rows ! i)\<lparr>fh_rows := fh_rows (grouped rows ! i) @ [row]\<rparr>] ! j"
    using j mem assms by (auto simp: grouped_def first_keys_snoc nth_list_update)
qed

lemma group_loop_spec:
  assumes "\<And>k. index k = None \<longleftrightarrow> k \<notin> set (first_keys seen)"
    and "\<And>k i. index k = Some i \<Longrightarrow> i < List.length (first_keys seen) \<and> first_keys seen ! i = k"
  shows "group_loop index (grouped seen) rows = grouped (seen @ rows)"
  using assms
proof (induction rows arbitrary: index seen)
  case (Cons row rows)
  let ?k = "fingerprint_result_key row"
  have len: "List.length (grouped seen) = List.length (first_keys seen)" by (simp add: grouped_def)
  show ?case
  proof (cases "index ?k")
    case None
    then have new: "?k \<notin> set (first_keys seen)" using Cons.prems(1) by blast
    let ?index = "index(?k \<mapsto> List.length (grouped seen))"
    have "group_loop ?index (grouped (seen @ [row])) rows = grouped ((seen @ [row]) @ rows)"
      by (rule Cons.IH)
         (use Cons.prems new in \<open>auto simp: first_keys_snoc len nth_append split: if_splits\<close>)
    then show ?thesis using None by (simp add: Let_def grouped_snoc_new [OF new])
  next
    case (Some i)
    then have i: "i < List.length (first_keys seen)" "first_keys seen ! i = ?k"
      using Cons.prems(2) by blast+
    then have mem: "?k \<in> set (first_keys seen)" by (metis nth_mem)
    have "group_loop index (grouped (seen @ [row])) rows = grouped ((seen @ [row]) @ rows)"
      by (rule Cons.IH) (use Cons.prems mem in \<open>auto simp: first_keys_snoc\<close>)
    then show ?thesis using Some by (simp add: Let_def grouped_snoc_old [OF i])
  qed
qed simp

section \<open>Properties\<close>

definition example_offense :: "string \<Rightarrow> string \<Rightarrow> cookstyle_offense" where
  "example_offense cop_name file =
     \<lparr>co_severity = ''warning'', co_message = [], co_cop_name = cop_name, co_correctable = True,
      co_corrected = False,
      co_location = \<lparr>ol_file = [], ol_start_line = 1, ol_start_column = 1, ol_last_line = 1,
                     ol_last_column = 2\<rparr>,
      co_file = file\<rparr>"

definition example_offenses :: "cookstyle_offense list" where
  "example_offenses = [example_offense ''Custom/A'' ''recipes/a.rb'',
                       example_offense ''Custom/A'' ''Rakefile'',
                       example_offense ''Chef/B'' ''recipes/a.rb'']"

definition example_order :: "fp_key list" where
  "example_order = [(''Custom/A'', ''warning'', False), (''Chef/B'', ''warning'', False)]"

lemma example_order: "iteration_order example_order example_offenses"
  by (auto simp: iteration_order_def example_order_def example_offenses_def example_offense_def
      offense_key_def)

text \<open>The entries and the hash of a fingerprint depend on the multiset of the offences only:
  neither the order of the offences nor the order in which Go ranges over the counts shows.\<close>

theorem fingerprint_order_independent:
  assumes "mset offs = mset offs'"
    and "iteration_order order offs" and "iteration_order order' offs'"
  shows "fingerprint_with_hash digest order offs scope
       = fingerprint_with_hash digest order' offs' scope"
proof -
  have sets: "set offs = set offs'" using assms(1) by (rule mset_eq_setD)
  have len: "List.length (filter P offs) = List.length (filter P offs')" for P
    using assms(1) by (metis mset_filter size_mset)
  have entries: "fp_entry_for scope offs = fp_entry_for scope offs'"
    by (rule ext) (simp add: fp_entry_for_def key_count_def key_excluded_def len)
  have "build_offence_fingerprint_in_scope order offs scope
      = build_offence_fingerprint_in_scope order' offs' scope"
    unfolding build_alt entries
    by (rule sort_key_unique)
       (use assms(2,3) sets inj_fp_sort_key distinct_entries in \<open>auto simp: iteration_order_def\<close>)
  then show ?thesis by (simp add: fingerprint_with_hash_def)
qed

theorem fingerprint_order_independent_witness:
  "mset example_offenses = mset (rev example_offenses)
   \<and> iteration_order (rev example_order) (rev example_offenses)
   \<and> fingerprint_with_hash (\<lambda>es. ''h'') example_order example_offenses default_scan_scope
     = fingerprint_with_hash (\<lambda>es. ''h'') (rev example_order) (rev example_offenses)
         default_scan_scope"
proof -
  have m: "mset example_offenses = mset (rev example_offenses)" by simp
  have o2: "iteration_order (rev example_order) (rev example_offenses)"
    using example_order by (simp add: iteration_order_def)
  from fingerprint_order_independent [OF m example_order o2] m o2 show ?thesis by blast
qed

text \<open>C4: The status re-derived from a fingerprint is the status the scan would have derived from its offences
  without their messages. It is the status the scan did derive whenever no message of an offence in scope
  changes the class of its cop, which only the few cops with variants in the curated data allow.\<close>

theorem fingerprint_status_is_scan_status:
  assumes "iteration_order order offs"
  shows "derive_status_from_fingerprint (build_offence_fingerprint_in_scope order offs scope) r
       = derive_cookstyle_status_in_scope (map plain_offense offs) r scope
    \<and> ((\<forall>off\<in>set offs. \<not> excludes_offense scope off \<longrightarrow> offense_class r off = classify r (co_cop_name off)) \<longrightarrow>
        derive_status_from_fingerprint (build_offence_fingerprint_in_scope order offs scope) r
        = derive_cookstyle_status_in_scope offs r scope)"
proof -
  have live: "list_ex (\<lambda>c. classify r (fe_cop_name c) = level)
          (filter (\<lambda>c. fe_count c - fe_excluded_count c > 0)
             (build_offence_fingerprint_in_scope order offs scope))
      \<longleftrightarrow> (\<exists>off\<in>set offs. \<not> excludes_offense scope off \<and> classify r (co_cop_name off) = level)" for level
    using live_entries [OF assms(1), of scope "\<lambda>c. classify r c = level"] by (auto simp: list_ex_iff)
  have derived: "derive_status_from_fingerprint (build_offence_fingerprint_in_scope order offs scope) r
      = derive_cookstyle_status_in_scope offs' r scope"
    if "\<And>level. list_ex (\<lambda>off. offense_class r off = level) (filter (\<lambda>off. \<not> excludes_offense scope off) offs')
        \<longleftrightarrow> (\<exists>off\<in>set offs. \<not> excludes_offense scope off \<and> classify r (co_cop_name off) = level)" for offs'
    using live [of classification_blocker] live [of classification_review] that
    by (simp add: derive_status_from_fingerprint_def derive_fp_loop_alt
        derive_cookstyle_status_in_scope_def derive_status_loop_alt Let_def)
  show ?thesis
    by (intro conjI impI derived) (auto simp: list_ex_iff)
qed

theorem fingerprint_status_is_scan_status_witness:
  "iteration_order example_order example_offenses
   \<and> derive_status_from_fingerprint
       (build_offence_fingerprint_in_scope example_order example_offenses default_scan_scope)
       example_resolver
     = derive_cookstyle_status_in_scope example_offenses example_resolver default_scan_scope"
proof -
  have "\<forall>off\<in>set example_offenses. \<not> excludes_offense default_scan_scope off \<longrightarrow>
      offense_class example_resolver off = classify example_resolver (co_cop_name off)"
    by (simp add: example_offenses_def example_offense_def classify_offense_def classify_def resolve_def)
  then show ?thesis using fingerprint_status_is_scan_status [OF example_order] example_order by blast
qed

text \<open>The proviso is needed: the message of a cop with variants can decide, and a fingerprint has no message.\<close>

theorem message_can_decide:
  "let off = (example_offense ''Lint/DeprecatedClassMethods'' ''recipes/a.rb'')\<lparr>co_message := ''`iterator?` is deprecated''\<rparr>;
       r = \<lparr>cr_operator_overrides = Map.empty, cr_target_chef_version = ''19.0''\<rparr>
   in derive_cookstyle_status_in_scope [off] r default_scan_scope
      \<noteq> derive_status_from_fingerprint
           (build_offence_fingerprint_in_scope [offense_key off] [off] default_scan_scope) r"
  by code_simp

text \<open>C24: The complexity re-derived from a fingerprint is the CookStyle part of the score of the scan's offences
  without their messages and with the path that was matched as their file; the collapse into counts changes
  nothing. It is the score of the stored offences themselves whenever no message of an offence in scope changes
  the class of its cop and every offence carries the file it is in.\<close>

theorem fingerprint_complexity_is_scan_complexity:
  assumes "iteration_order order offs"
  shows "complexity_from_fingerprint
           (build_offence_fingerprint_in_scope order offs scope) (Some (classify r))
       = compute_cookstyle_complexity
           (classify_offenses_for_complexity (Offences (map enrich_offense (map plain_offense offs)))
              (Some (classify_offense r)) (Some (excludes_path scope)))
    \<and> ((\<forall>off\<in>set offs. \<not> excludes_offense scope off \<longrightarrow> offense_class r off = classify r (co_cop_name off))
        \<and> (\<forall>off\<in>set offs. offense_path off = co_file off) \<longrightarrow>
        complexity_from_fingerprint
           (build_offence_fingerprint_in_scope order offs scope) (Some (classify r))
        = compute_cookstyle_complexity
           (classify_offenses_for_complexity (Offences (map enrich_offense offs))
              (Some (classify_offense r)) (Some (excludes_path scope))))"
  using resolver.complexity_of_fingerprint [of order "map plain_offense offs" r scope]
    resolver.complexity_of_fingerprint [OF assms, of r scope] plain_read_by_name [of r scope offs] assms
  by (simp add: iteration_order_plain fingerprint_plain resolver.read_by_name_def del: map_map)

theorem fingerprint_complexity_is_scan_complexity_witness:
  "complexity_from_fingerprint
     (build_offence_fingerprint_in_scope example_order example_offenses default_scan_scope)
     (Some (classify example_resolver))
   = compute_cookstyle_complexity
       (classify_offenses_for_complexity (Offences (map enrich_offense example_offenses))
          (Some (classify_offense example_resolver)) (Some (excludes_path default_scan_scope)))"
proof -
  have "\<forall>off\<in>set example_offenses. \<not> excludes_offense default_scan_scope off \<longrightarrow>
      offense_class example_resolver off = classify example_resolver (co_cop_name off)"
    "\<forall>off\<in>set example_offenses. offense_path off = co_file off"
    by (simp_all add: example_offenses_def example_offense_def classify_offense_def classify_def resolve_def offense_path_def)
  then show ?thesis using fingerprint_complexity_is_scan_complexity [OF example_order] by blast
qed

text \<open>Grouping the rows of a query gives one history for each result, in the order of first
  appearance, holding exactly the rows of that result in their order.\<close>

theorem group_fingerprint_histories_groups:
  "group_fingerprint_histories rows =
     map (\<lambda>k. \<lparr>fh_key = k, fh_rows = filter (\<lambda>r. fingerprint_result_key r = k) rows\<rparr>)
       (first_keys rows)"
  using group_loop_spec [of Map.empty "[]" rows]
  by (simp add: group_fingerprint_histories_def grouped_def first_keys_def)

text \<open>The recomputed rollup changes only at scan times: between two moments with no scan
  between them it is the same, so evaluating it at the distinct scan times misses nothing.\<close>

theorem rollup_is_step_function:
  assumes "\<forall>h\<in>set histories. ascending h" and "t \<le> t'"
    and "\<forall>s\<in>set (distinct_scan_times histories). \<not> (t < s \<and> s \<le> t')"
  shows "recompute_rollup_at histories t r = recompute_rollup_at histories t' r"
  unfolding recompute_rollup_at_def
proof (rule rollup_loop_cong, intro ballI)
  fix h assume h: "h \<in> set histories"
  then have "\<forall>row\<in>set (fh_rows h). \<not> (t < fr_scanned_at row \<and> fr_scanned_at row \<le> t')"
    using assms(3) by (auto simp: distinct_scan_times_set)
  then show "fingerprint_valid_at (fh_rows h) t = fingerprint_valid_at (fh_rows h) t'"
    using assms(1,2) h by (intro valid_at_stable) auto
qed

definition example_row :: "int \<Rightarrow> fp_row" where
  "example_row t = \<lparr>fr_result_kind = ''git_repo'', fr_organisation_name = [],
     fr_cookbook_name = [], fr_cookbook_version = [], fr_git_repo_name = ''r'',
     fr_git_repo_url = ''u'', fr_target_chef_version = ''19.0'', fr_cops = [],
     fr_scanned_at = t\<rparr>"

definition example_histories :: "fp_history list" where
  "example_histories = [\<lparr>fh_key = ''k'', fh_rows = [example_row 10, example_row 20]\<rparr>]"

lemma example_ascending: "\<forall>h\<in>set example_histories. ascending h"
  by (simp add: example_histories_def ascending_def example_row_def)

theorem rollup_is_step_function_witness:
  "recompute_rollup_at example_histories 10 example_resolver
     = recompute_rollup_at example_histories 19 example_resolver"
  by (rule rollup_is_step_function [OF example_ascending])
     (simp_all add: distinct_scan_times_set example_histories_def example_row_def)

text \<open>At every moment the recomputed statuses partition the membership, and the data boundary
  is exactly the moment from which some member has data: before it every member is untested.\<close>

theorem rollup_boundary:
  assumes "\<forall>h\<in>set histories. ascending h"
  shows "(let ro = recompute_rollup_at histories t r
          in ro_ready ro + ro_needs_review ro + ro_blocked ro + ro_untested ro = List.length histories
             \<and> ro_members_with_data ro = ro_ready ro + ro_needs_review ro + ro_blocked ro
             \<and> (ro_members_with_data ro > 0 \<longleftrightarrow>
                  earlier_of (fingerprint_data_boundary histories) t))"
proof -
  let ?ro = "recompute_rollup_at histories t r"
  have part: "ro_ready ?ro + ro_needs_review ?ro + ro_blocked ?ro + ro_untested ?ro
      = List.length histories"
    using rollup_loop_partition [of r t zero_rollup histories]
    by (simp add: recompute_rollup_at_def zero_rollup_def)
  have mem: "ro_members_with_data ?ro + ro_untested ?ro = List.length histories"
    using rollup_loop_members [of r t zero_rollup histories]
    by (simp add: recompute_rollup_at_def zero_rollup_def)
  have "ro_members_with_data (rollup_loop r t out hs) = ro_members_with_data out
      + List.length (filter (first_by t) hs)" if "\<forall>h\<in>set hs. ascending h" for out hs
    using that
  proof (induction hs arbitrary: out)
    case (Cons h hs)
    then show ?case
      using valid_at_None_iff [of h t]
      by (cases "fingerprint_valid_at (fh_rows h) t") (auto simp: Let_def add_status_def)
  qed simp
  from this [OF assms, of zero_rollup]
  have "ro_members_with_data ?ro = List.length (filter (first_by t) histories)"
    by (simp add: recompute_rollup_at_def zero_rollup_def)
  moreover have "earlier_of (fingerprint_data_boundary histories) t
      \<longleftrightarrow> (\<exists>h\<in>set histories. first_by t h)"
    by (simp add: fingerprint_data_boundary_def boundary_loop_le)
  ultimately have "ro_members_with_data ?ro > 0 \<longleftrightarrow>
      earlier_of (fingerprint_data_boundary histories) t"
    by (simp add: filter_empty_conv)
  with part mem show ?thesis unfolding Let_def by linarith
qed

theorem rollup_boundary_witness:
  "fingerprint_data_boundary example_histories = Some 10
   \<and> ro_members_with_data (recompute_rollup_at example_histories 15 example_resolver) > 0"
proof -
  have b: "fingerprint_data_boundary example_histories = Some 10"
    by (simp add: fingerprint_data_boundary_def example_histories_def example_row_def)
  have "ro_members_with_data (recompute_rollup_at example_histories 15 example_resolver) > 0
      \<longleftrightarrow> earlier_of (fingerprint_data_boundary example_histories) 15"
    using rollup_boundary [OF example_ascending, of 15 example_resolver] unfolding Let_def by blast
  with b show ?thesis by simp
qed

end
