(* ===== verification/Go_Json.thy ===== *)
theory Go_Json
  imports Prelude "HOL-Library.Word" Complex_Main
begin

text \<open>
  The parts of Go's standard library the parsing of node attributes rests on: JSON values as
  \<open>encoding/json\<close> decodes them into maps, structs and \<open>interface{}\<close>, conversions between
  \<open>float64\<close> and \<open>int64\<close>, and the rounding of \<open>float64\<close> arithmetic.

  A number is the rational its \<open>float64\<close> is. A raw message is absent (no bytes), invalid, or
  a document. Struct fields match object keys without regard to the case of ASCII letters; of
  several occurrences of a key the last one counts.
\<close>

section \<open>JSON\<close>

datatype json =
    JNull
  | JBool bool
  | JNum rat
  | JStr string
  | JArr "json list"
  | JObj "(string \<times> json) list"

datatype raw_json = RAbsent | RInvalid | RDoc json

text \<open>The entries of an object as a Go map: the last occurrence of each key.\<close>

fun last_entries :: "('k \<times> 'v) list \<Rightarrow> ('k \<times> 'v) list" where
  "last_entries [] = []"
| "last_entries ((k, v) # kvs) =
     (if k \<in> fst ` set kvs then last_entries kvs else (k, v) # last_entries kvs)"

lemma last_entries_keys: "fst ` set (last_entries kvs) = fst ` set kvs"
  by (induction kvs rule: last_entries.induct) auto

lemma distinct_last_entries: "distinct (map fst (last_entries kvs))"
  by (induction kvs rule: last_entries.induct) (simp_all add: last_entries_keys)

text \<open>The last value of a struct field among the entries of an object.\<close>

definition field_value :: "string \<Rightarrow> (string \<times> json) list \<Rightarrow> json option" where
  "field_value name kvs = map_of (rev (map (\<lambda>(k, v). (to_lower k, v)) kvs)) name"

text \<open>Decoding every value of an object with a decoder that may fail.\<close>

fun decode_all :: "(json \<Rightarrow> 'a option) \<Rightarrow> (string \<times> json) list \<Rightarrow> (string \<times> 'a) list option" where
  "decode_all dec [] = Some []"
| "decode_all dec ((k, v) # kvs) =
     (case (dec v, decode_all dec kvs) of
        (Some x, Some xs) \<Rightarrow> Some ((k, x) # xs)
      | _ \<Rightarrow> None)"

text \<open>\<open>json.Unmarshal\<close> into a map: an object or null; \<open>None\<close> is an error.\<close>

definition decode_map :: "(json \<Rightarrow> 'a option) \<Rightarrow> json \<Rightarrow> (string \<times> 'a) list option" where
  "decode_map dec j =
     (case j of
        JObj kvs \<Rightarrow> map_option last_entries (decode_all dec kvs)
      | JNull \<Rightarrow> Some []
      | _ \<Rightarrow> None)"

text \<open>\<open>json.Unmarshal\<close> of a value into a string: null leaves it empty.\<close>

definition decode_string :: "json \<Rightarrow> string option" where
  "decode_string j = (case j of JStr s \<Rightarrow> Some s | JNull \<Rightarrow> Some [] | _ \<Rightarrow> None)"

lemma decode_map_distinct:
  "decode_map dec j = Some m \<Longrightarrow> distinct (map fst m)"
  by (auto simp: decode_map_def distinct_last_entries split: json.splits)

section \<open>Integers\<close>

text \<open>The value an integer has once stored in an \<open>int64\<close>.\<close>

definition int64 :: "int \<Rightarrow> int" where
  "int64 x = sint (of_int x :: 64 word)"

definition min_int64 :: int where "min_int64 = - 9223372036854775808"

lemma int64_id:
  assumes "- (2 ^ 63) \<le> x" and "x < 2 ^ 63"
  shows "int64 x = x"
proof -
  have "int64 x = signed_take_bit 63 x" by (simp add: int64_def sint_sbintrunc')
  also have "\<dots> = x" using assms by (simp add: signed_take_bit_int_eq_self_iff)
  finally show ?thesis .
qed

text \<open>\<open>strconv.ParseInt(s, 10, 64)\<close>: a sign, then digits only, in range.\<close>

fun parse_digits :: "int \<Rightarrow> string \<Rightarrow> int option" where
  "parse_digits n [] = Some n"
| "parse_digits n (c # s) =
     (if is_digit c then parse_digits (n * 10 + int (digit_val c)) s else None)"

definition unsigned_of :: "string \<Rightarrow> int option" where
  "unsigned_of s = (if s = [] then None else parse_digits 0 s)"

definition parse_int :: "string \<Rightarrow> int option" where
  "parse_int s =
     (let v = (case s of
                 [] \<Rightarrow> None
               | c # s' \<Rightarrow> if c = CHR ''-'' then map_option uminus (unsigned_of s')
                           else if c = CHR ''+'' then unsigned_of s'
                           else unsigned_of s)
      in case v of
           None \<Rightarrow> None
         | Some n \<Rightarrow> if - (2 ^ 63) \<le> n \<and> n < 2 ^ 63 then Some n else None)"

section \<open>Floating point\<close>

datatype go_float = Finite rat | Not_finite

text \<open>\<open>int64(math.Floor(f))\<close>; what does not fit is the least integer, as on amd64.\<close>

definition floor_int64 :: "go_float \<Rightarrow> int" where
  "floor_int64 f =
     (case f of
        Finite x \<Rightarrow> let n = \<lfloor>x\<rfloor> in if - (2 ^ 63) \<le> n \<and> n < 2 ^ 63 then n else min_int64
      | Not_finite \<Rightarrow> min_int64)"

text \<open>Rounding to the nearest \<open>float64\<close>, ties to even, in the range of normal numbers.\<close>

definition pow2 :: "int \<Rightarrow> rat" where
  "pow2 e = (if 0 \<le> e then 2 ^ nat e else 1 / 2 ^ nat (- e))"

text \<open>The number of binary digits of a positive integer.\<close>

function bit_length :: "int \<Rightarrow> int" where
  "bit_length n = (if n \<le> 0 then 0 else 1 + bit_length (n div 2))"
  by auto
termination by (relation "measure nat") auto

declare bit_length.simps [simp del]

definition binary_exponent :: "rat \<Rightarrow> int" where
  "binary_exponent x =
     (case quotient_of x of (a, b) \<Rightarrow>
        let e = bit_length a - bit_length b
        in if x < pow2 e then e - 1 else e)"

definition round_half_even :: "rat \<Rightarrow> int" where
  "round_half_even x =
     (let f = \<lfloor>x\<rfloor>; d = x - of_int f
      in if d < 1 / 2 then f else if d > 1 / 2 then f + 1 else if even f then f else f + 1)"

definition round_pos :: "rat \<Rightarrow> rat" where
  "round_pos x =
     (let u = pow2 (binary_exponent x - 52) in of_int (round_half_even (x / u)) * u)"

definition float64 :: "rat \<Rightarrow> rat" where
  "float64 x = (if x = 0 then 0 else if x < 0 then - round_pos (- x) else round_pos x)"

end
