(* ===== verification/Disk.thy ===== *)
theory Disk
  imports Go_Json
begin

text \<open>
  The disk-space verdict of a node (\<open>internal/analysis/disk.go\<close> and the file system parsing
  of \<open>internal/analysis/readiness.go\<close>). The entries of the file system attribute are an
  association list; where the code ranges over the map, \<open>order\<close> is the order of the
  iteration. \<open>strconv.ParseFloat\<close> (\<open>pf\<close>) and the rendering of values that are not strings
  (\<open>fmt\<close>) are parameters.
\<close>

section \<open>Configuration\<close>

record disk_config =
  dc_install_path_linux :: string
  dc_install_path_windows :: string
  dc_install_size_mb_linux :: int
  dc_install_size_mb_windows :: int
  dc_min_remaining_free_percent :: int

definition is_windows :: "string \<Rightarrow> bool" where
  "is_windows platform = (to_lower platform = ''windows'')"

definition install_path :: "disk_config \<Rightarrow> string \<Rightarrow> string" where
  "install_path c platform =
     (if is_windows platform then dc_install_path_windows c else dc_install_path_linux c)"

definition install_size_mb :: "disk_config \<Rightarrow> string \<Rightarrow> int" where
  "install_size_mb c platform =
     (if is_windows platform then dc_install_size_mb_windows c else dc_install_size_mb_linux c)"

section \<open>The file system attribute\<close>

text \<open>\<open>filesystemEntry\<close>: a field that is missing or null is \<open>JNull\<close>.\<close>

record filesystem_entry =
  fs_kb_size :: json
  fs_kb_used :: json
  fs_kb_available :: json
  fs_percent_used :: json
  fs_mount :: json

definition field_or_nil :: "string \<Rightarrow> (string \<times> json) list \<Rightarrow> json" where
  "field_or_nil name kvs = (case field_value name kvs of None \<Rightarrow> JNull | Some v \<Rightarrow> v)"

definition decode_entry :: "json \<Rightarrow> filesystem_entry option" where
  "decode_entry j =
     (let entry = (\<lambda>kvs. \<lparr>fs_kb_size = field_or_nil ''kb_size'' kvs,
                         fs_kb_used = field_or_nil ''kb_used'' kvs,
                         fs_kb_available = field_or_nil ''kb_available'' kvs,
                         fs_percent_used = field_or_nil ''percent_used'' kvs,
                         fs_mount = field_or_nil ''mount'' kvs\<rparr>)
      in case j of JObj kvs \<Rightarrow> Some (entry kvs) | JNull \<Rightarrow> Some (entry []) | _ \<Rightarrow> None)"

type_synonym fs_map = "(string \<times> filesystem_entry) list"

definition decode_fs_map :: "json \<Rightarrow> fs_map option" where
  "decode_fs_map j = decode_map decode_entry j"

text \<open>One of the three nested maps, when it is there and has entries.\<close>

definition nested_map :: "(string \<times> json) list \<Rightarrow> string \<Rightarrow> fs_map option" where
  "nested_map nested key =
     (case map_of nested key of
        None \<Rightarrow> None
      | Some j \<Rightarrow> (case decode_fs_map j of
                     None \<Rightarrow> None
                   | Some m \<Rightarrow> if m = [] then None else Some m))"

definition parse_filesystem_attribute :: "raw_json \<Rightarrow> fs_map" where
  "parse_filesystem_attribute raw =
     (case raw of
        RAbsent \<Rightarrow> []
      | RInvalid \<Rightarrow> []
      | RDoc doc \<Rightarrow>
          let legacy = (case decode_fs_map doc of None \<Rightarrow> [] | Some m \<Rightarrow> m)
          in case decode_map Some doc of
               None \<Rightarrow> legacy
             | Some nested \<Rightarrow>
                 (case nested_map nested ''by_pair'' of
                    Some m \<Rightarrow> m
                  | None \<Rightarrow>
                      (case nested_map nested ''by_mountpoint'' of
                         Some m \<Rightarrow> m
                       | None \<Rightarrow>
                           (case nested_map nested ''by_device'' of
                              Some m \<Rightarrow> m
                            | None \<Rightarrow> legacy))))"

section \<open>Finding the mount\<close>

definition is_path_prefix :: "string \<Rightarrow> string \<Rightarrow> bool" where
  "is_path_prefix pre path =
     (if pre = ''/'' then True
      else if pre = path then True
      else if prefix pre path
      then List.length path > List.length pre \<and> path ! List.length pre = CHR ''/''
      else False)"

definition value_to_string :: "(json \<Rightarrow> string) \<Rightarrow> json \<Rightarrow> string" where
  "value_to_string fmt v = (case v of JNull \<Rightarrow> [] | JStr s \<Rightarrow> s | _ \<Rightarrow> fmt v)"

text \<open>
  The loop of \<open>findBestMountLinux\<close>: the state is the length of the best mount so far (\<open>-1\<close> at
  first) with its key and entry.
\<close>

fun best_mount_loop ::
  "(json \<Rightarrow> string) \<Rightarrow> string \<Rightarrow> int \<Rightarrow> (string \<times> filesystem_entry) option \<Rightarrow> fs_map
     \<Rightarrow> (string \<times> filesystem_entry) option" where
  "best_mount_loop fmt path best_len best [] = best"
| "best_mount_loop fmt path best_len best ((key, entry) # rest) =
     (let mount = value_to_string fmt (fs_mount entry)
      in if mount = [] then best_mount_loop fmt path best_len best rest
         else if is_path_prefix mount path \<and> int (List.length mount) > best_len
         then best_mount_loop fmt path (int (List.length mount)) (Some (key, entry)) rest
         else best_mount_loop fmt path best_len best rest)"

definition find_best_mount_linux ::
  "(json \<Rightarrow> string) \<Rightarrow> fs_map \<Rightarrow> string \<Rightarrow> (string \<times> filesystem_entry) option" where
  "find_best_mount_linux fmt m path = best_mount_loop fmt path (- 1) None m"

text \<open>A key or mount as a drive: upper case, without trailing slashes.\<close>

definition drive_name :: "string \<Rightarrow> string" where
  "drive_name s = to_upper (trim_right_by (\<lambda>c. c = CHR 0x5C \<or> c = CHR ''/'') s)"

definition target_drive :: "string \<Rightarrow> string" where
  "target_drive path =
     (let d = (if List.length path \<ge> 2 \<and> path ! 1 = CHR '':'' then to_upper (take 1 path) else [])
      in if d = [] then ''C'' else d)"

text \<open>Two loops over the map, each in an order of its own.\<close>

definition find_best_mount_windows ::
  "(json \<Rightarrow> string) \<Rightarrow> fs_map \<Rightarrow> fs_map \<Rightarrow> string \<Rightarrow> (string \<times> filesystem_entry) option" where
  "find_best_mount_windows fmt m1 m2 path =
     (let drive = target_drive path @ '':''
      in case find (\<lambda>(key, entry). drive_name key = drive) m1 of
           Some ke \<Rightarrow> Some ke
         | None \<Rightarrow> find (\<lambda>(key, entry).
                       drive_name (value_to_string fmt (fs_mount entry)) = drive) m2)"

definition find_best_mount ::
  "(json \<Rightarrow> string) \<Rightarrow> (fs_map \<Rightarrow> fs_map) \<Rightarrow> fs_map \<Rightarrow> string \<Rightarrow> string
     \<Rightarrow> (string \<times> filesystem_entry) option" where
  "find_best_mount fmt order m path platform =
     (if is_windows platform then find_best_mount_windows fmt (order m) (order m) path
      else find_best_mount_linux fmt (order m) path)"

section \<open>The verdict\<close>

definition to_int64 :: "(string \<Rightarrow> go_float option) \<Rightarrow> json \<Rightarrow> int" where
  "to_int64 pf v =
     (case v of
        JStr t \<Rightarrow>
          let s = trim_space t
          in if s = [] then - 1
             else (case parse_int s of
                     Some n \<Rightarrow> n
                   | None \<Rightarrow> (case pf s of None \<Rightarrow> - 1 | Some f \<Rightarrow> floor_int64 f))
      | JNum x \<Rightarrow> floor_int64 (Finite x)
      | _ \<Rightarrow> - 1)"

definition at_least_zero :: "int \<Rightarrow> int" where
  "at_least_zero n = (if n < 0 then 0 else n)"

text \<open>\<open>resolveDiskUsage\<close>: available and total MB, \<open>None\<close> when not known.\<close>

definition resolve_disk_usage ::
  "(string \<Rightarrow> go_float option) \<Rightarrow> (json \<Rightarrow> string) \<Rightarrow> (fs_map \<Rightarrow> fs_map) \<Rightarrow> raw_json \<Rightarrow> string
     \<Rightarrow> string \<Rightarrow> (int \<times> int) option" where
  "resolve_disk_usage pf fmt order filesystem platform path =
     (let m = parse_filesystem_attribute filesystem
      in if m = [] then None
         else case find_best_mount fmt order m path platform of
                None \<Rightarrow> None
              | Some (key, entry) \<Rightarrow>
                  let kb_avail = at_least_zero (to_int64 pf (fs_kb_available entry));
                      kb_size = at_least_zero (to_int64 pf (fs_kb_size entry))
                  in Some (kb_avail div 1024, kb_size div 1024))"

record disk_verdict =
  dv_sufficient :: "bool option"
  dv_available_mb :: "int option"
  dv_required_mb :: int
  dv_total_mb :: "int option"

definition percent_ok :: "int \<Rightarrow> int \<Rightarrow> int \<Rightarrow> int \<Rightarrow> bool" where
  "percent_ok avail_mb total_mb required min_percent =
     (if total_mb > 0 \<and> min_percent > 0
      then let remaining_kb = int64 ((avail_mb - required) * 1024);
               total_kb = int64 (total_mb * 1024);
               ratio = float64 (float64 (of_int remaining_kb) / float64 (of_int total_kb));
               pct_remaining = float64 (ratio * 100)
           in pct_remaining \<ge> float64 (of_int min_percent)
      else True)"

definition evaluate_disk ::
  "(string \<Rightarrow> go_float option) \<Rightarrow> (json \<Rightarrow> string) \<Rightarrow> (fs_map \<Rightarrow> fs_map) \<Rightarrow> raw_json \<Rightarrow> string
     \<Rightarrow> disk_config \<Rightarrow> disk_verdict" where
  "evaluate_disk pf fmt order filesystem platform cfg =
     (let required = install_size_mb cfg platform
      in case resolve_disk_usage pf fmt order filesystem platform (install_path cfg platform) of
           None \<Rightarrow> \<lparr>dv_sufficient = None, dv_available_mb = None, dv_required_mb = required,
                    dv_total_mb = None\<rparr>
         | Some (avail, totl) \<Rightarrow>
             \<lparr>dv_sufficient = Some (avail \<ge> required
                \<and> percent_ok avail totl required (dc_min_remaining_free_percent cfg)),
              dv_available_mb = Some avail, dv_required_mb = required, dv_total_mb = Some totl\<rparr>)"

section \<open>Facts\<close>

abbreviation mount_of :: "(json \<Rightarrow> string) \<Rightarrow> string \<times> filesystem_entry \<Rightarrow> string" where
  "mount_of fmt ke \<equiv> value_to_string fmt (fs_mount (snd ke))"

text \<open>An entry whose mount the install path lies on.\<close>

definition holds_path :: "(json \<Rightarrow> string) \<Rightarrow> string \<Rightarrow> string \<times> filesystem_entry \<Rightarrow> bool" where
  "holds_path fmt path ke = (mount_of fmt ke \<noteq> [] \<and> is_path_prefix (mount_of fmt ke) path)"

lemma best_mount_loop_spec:
  "case best_mount_loop fmt path n best m of
     None \<Rightarrow> best = None \<and> (\<forall>ke\<in>set m. holds_path fmt path ke \<longrightarrow> int (List.length (mount_of fmt ke)) \<le> n)
   | Some r \<Rightarrow>
       (best = Some r \<and> (\<forall>ke\<in>set m. holds_path fmt path ke \<longrightarrow> int (List.length (mount_of fmt ke)) \<le> n))
       \<or> (r \<in> set m \<and> holds_path fmt path r \<and> n < int (List.length (mount_of fmt r))
          \<and> (\<forall>ke\<in>set m. holds_path fmt path ke
                 \<longrightarrow> List.length (mount_of fmt ke) \<le> List.length (mount_of fmt r)))"
proof (induction fmt path n best m rule: best_mount_loop.induct)
  case (1 fmt path n best)
  then show ?case by (cases best) simp_all
next
  case (2 fmt path n best key entry rest)
  let ?ke = "(key, entry)"
  show ?case
  proof (cases "holds_path fmt path ?ke \<and> int (List.length (mount_of fmt ?ke)) > n")
    case True
    then have step: "best_mount_loop fmt path n best (?ke # rest)
        = best_mount_loop fmt path (int (List.length (mount_of fmt ?ke))) (Some ?ke) rest"
      by (simp add: holds_path_def Let_def)
    have IH: "case best_mount_loop fmt path (int (List.length (mount_of fmt ?ke))) (Some ?ke) rest of
        None \<Rightarrow> False
      | Some r \<Rightarrow> (?ke = r \<and> (\<forall>ke\<in>set rest. holds_path fmt path ke
                       \<longrightarrow> List.length (mount_of fmt ke) \<le> List.length (mount_of fmt r)))
          \<or> (r \<in> set rest \<and> holds_path fmt path r
             \<and> List.length (mount_of fmt ?ke) < List.length (mount_of fmt r)
             \<and> (\<forall>ke\<in>set rest. holds_path fmt path ke
                  \<longrightarrow> List.length (mount_of fmt ke) \<le> List.length (mount_of fmt r)))"
      using 2(2) True by (auto simp: holds_path_def split: option.splits)
    then obtain r where r: "best_mount_loop fmt path (int (List.length (mount_of fmt ?ke))) (Some ?ke) rest
        = Some r" by (auto split: option.splits)
    then show ?thesis using IH True unfolding step by (auto simp: less_imp_le)
  next
    case False
    then have step: "best_mount_loop fmt path n best (?ke # rest) = best_mount_loop fmt path n best rest"
      by (auto simp: holds_path_def Let_def)
    have IH: "case best_mount_loop fmt path n best rest of
        None \<Rightarrow> best = None \<and> (\<forall>ke\<in>set rest. holds_path fmt path ke \<longrightarrow> int (List.length (mount_of fmt ke)) \<le> n)
      | Some r \<Rightarrow>
          (best = Some r \<and> (\<forall>ke\<in>set rest. holds_path fmt path ke \<longrightarrow> int (List.length (mount_of fmt ke)) \<le> n))
          \<or> (r \<in> set rest \<and> holds_path fmt path r \<and> n < int (List.length (mount_of fmt r))
             \<and> (\<forall>ke\<in>set rest. holds_path fmt path ke
                  \<longrightarrow> List.length (mount_of fmt ke) \<le> List.length (mount_of fmt r)))"
    proof (cases "mount_of fmt ?ke = []")
      case True
      then show ?thesis using 2(1) by (simp add: Let_def)
    next
      case nonempty: False
      with False have "\<not> (is_path_prefix (mount_of fmt ?ke) path \<and> int (List.length (mount_of fmt ?ke)) > n)"
        by (auto simp: holds_path_def)
      then show ?thesis using 2(3) nonempty by simp
    qed
    then show ?thesis using False unfolding step
      by (cases "best_mount_loop fmt path n best rest") fastforce+
  qed
qed

lemma is_path_prefix_prefix:
  assumes "is_path_prefix pre (CHR ''/'' # p)"
  shows "prefix pre (CHR ''/'' # p)"
  using assms by (auto simp: is_path_prefix_def split: if_splits)

lemma path_prefix_unique:
  assumes "is_path_prefix a (CHR ''/'' # p)" and "is_path_prefix b (CHR ''/'' # p)"
    and "List.length a = List.length b"
  shows "a = b"
  using assms(3) is_path_prefix_prefix [OF assms(1)] is_path_prefix_prefix [OF assms(2)]
  by (metis prefix_length_prefix prefix_order.antisym order_refl)

lemma find_best_mount_linux_spec:
  "case find_best_mount_linux fmt m path of
     None \<Rightarrow> \<not> (\<exists>ke\<in>set m. holds_path fmt path ke)
   | Some r \<Rightarrow> r \<in> set m \<and> holds_path fmt path r
       \<and> (\<forall>ke\<in>set m. holds_path fmt path ke
              \<longrightarrow> List.length (mount_of fmt ke) \<le> List.length (mount_of fmt r))"
  using best_mount_loop_spec [where fmt = fmt and path = path and n = "- 1" and best = None and m = m]
  by (auto simp: find_best_mount_linux_def split: option.splits)

lemma find_best_mount_linux_order:
  assumes "set m = set m'"
    and "inj_on (mount_of fmt) {ke \<in> set m. holds_path fmt (CHR ''/'' # p) ke}"
  shows "find_best_mount_linux fmt m (CHR ''/'' # p) = find_best_mount_linux fmt m' (CHR ''/'' # p)"
proof -
  note s = find_best_mount_linux_spec [where fmt = fmt and m = m and path = "CHR ''/'' # p"]
  note s' = find_best_mount_linux_spec [where fmt = fmt and m = m' and path = "CHR ''/'' # p"]
  show ?thesis
  proof (cases "find_best_mount_linux fmt m (CHR ''/'' # p)")
    case None
    with s s' assms(1) show ?thesis by (auto split: option.splits)
  next
    case (Some r)
    with s have r: "r \<in> set m" "holds_path fmt (CHR ''/'' # p) r" by auto
    with s' assms(1) obtain r' where
      r': "find_best_mount_linux fmt m' (CHR ''/'' # p) = Some r'" by (auto split: option.splits)
    then have m': "r' \<in> set m" "holds_path fmt (CHR ''/'' # p) r'" using s' assms(1) by auto
    have "List.length (mount_of fmt r) = List.length (mount_of fmt r')"
      using s s' Some r' r m' assms(1) by (simp add: le_antisym)
    then have "mount_of fmt r = mount_of fmt r'"
      using r(2) m'(2) path_prefix_unique unfolding holds_path_def by blast
    then have "r = r'" using assms(2) r m' unfolding inj_on_def by blast
    then show ?thesis using Some r' by simp
  qed
qed

lemma resolve_disk_usage_nonneg:
  assumes "resolve_disk_usage pf fmt order raw platform path = Some (a, t)"
  shows "0 \<le> a \<and> 0 \<le> t"
  using assms by (auto simp: resolve_disk_usage_def Let_def at_least_zero_def split: if_splits option.splits)

section \<open>Properties\<close>

text \<open>On a platform other than Windows with an absolute install path, the verdict does not
  depend on the order in which Go ranges over the file systems, as long as no two entries that
  hold the install path claim the same mount point.\<close>

theorem disk_verdict_order_independent:
  assumes "\<not> is_windows platform" and "install_path cfg platform = CHR ''/'' # p"
    and "set (order m) = set (order' m)" and "parse_filesystem_attribute raw = m"
    and "inj_on (mount_of fmt) {ke \<in> set (order m). holds_path fmt (CHR ''/'' # p) ke}"
  shows "evaluate_disk pf fmt order raw platform cfg = evaluate_disk pf fmt order' raw platform cfg"
  using find_best_mount_linux_order [OF assms(3,5)] assms(1,2,4)
  by (simp add: evaluate_disk_def resolve_disk_usage_def find_best_mount_def Let_def)

definition example_fs :: "(string \<times> string) list \<Rightarrow> raw_json" where
  "example_fs kms = RDoc (JObj [(''by_pair'', JObj (map (\<lambda>(key, mount).
     (key, JObj [(''kb_size'', JStr ''102400''),
                 (''kb_available'', JStr (if key = ''rootfs,/'' then ''10240'' else ''81920'')),
                 (''mount'', JStr mount)])) kms))])"

definition example_disk_config :: disk_config where
  "example_disk_config = \<lparr>dc_install_path_linux = ''/hab'', dc_install_path_windows = ''C:'',
     dc_install_size_mb_linux = 20, dc_install_size_mb_windows = 20,
     dc_min_remaining_free_percent = 20\<rparr>"

definition no_float :: "string \<Rightarrow> go_float option" where "no_float s = None"
definition no_format :: "json \<Rightarrow> string" where "no_format v = ''?''"

definition example_mounts :: "(string \<times> string) list" where
  "example_mounts = [(''sda1'', ''/''), (''sdb1'', ''/hab'')]"

definition example_fs_entry :: "string \<Rightarrow> filesystem_entry" where
  "example_fs_entry mount = \<lparr>fs_kb_size = JStr ''102400'', fs_kb_used = JNull,
     fs_kb_available = JStr ''81920'', fs_percent_used = JNull, fs_mount = JStr mount\<rparr>"

lemma example_parse:
  "parse_filesystem_attribute (example_fs example_mounts) =
     [(''sda1'', example_fs_entry ''/''), (''sdb1'', example_fs_entry ''/hab'')]"
  by code_simp

theorem disk_verdict_order_independent_witness:
  "evaluate_disk no_float no_format id (example_fs example_mounts) ''ubuntu'' example_disk_config
   = evaluate_disk no_float no_format rev (example_fs example_mounts) ''ubuntu'' example_disk_config"
proof (rule disk_verdict_order_independent [OF _ _ _ example_parse])
  show "\<not> is_windows ''ubuntu''" by code_simp
  show "install_path example_disk_config ''ubuntu'' = CHR ''/'' # ''hab''" by code_simp
  show "inj_on (mount_of no_format) {ke \<in> set (id [(''sda1'', example_fs_entry ''/''),
          (''sdb1'', example_fs_entry ''/hab'')]). holds_path no_format (CHR ''/'' # ''hab'') ke}"
    by (auto simp: inj_on_def example_fs_entry_def value_to_string_def)
qed (auto simp: insert_commute)

text \<open>With two entries for one mount point the verdict depends on the order in which Go
  happens to range over the map: the same node is judged to have room or not by chance.\<close>

theorem duplicate_mount_by_chance:
  "dv_sufficient (evaluate_disk no_float no_format id
      (example_fs [(''rootfs,/'', ''/''), (''sda1,/'', ''/'')]) ''ubuntu'' example_disk_config) = Some False
   \<and> dv_sufficient (evaluate_disk no_float no_format rev
      (example_fs [(''rootfs,/'', ''/''), (''sda1,/'', ''/'')]) ''ubuntu'' example_disk_config) = Some True"
  by code_simp

text \<open>On other platforms than Windows the figures of a verdict are those of an entry whose
  mount holds the install path and is the deepest that does, and a positive verdict guarantees
  the install size.\<close>

theorem disk_uses_deepest_mount:
  assumes "\<not> is_windows platform"
    and "dv_available_mb (evaluate_disk pf fmt order raw platform cfg) = Some a"
  shows "(\<exists>ke\<in>set (order (parse_filesystem_attribute raw)).
            holds_path fmt (install_path cfg platform) ke
            \<and> (\<forall>ke'\<in>set (order (parse_filesystem_attribute raw)).
                 holds_path fmt (install_path cfg platform) ke'
                 \<longrightarrow> List.length (mount_of fmt ke') \<le> List.length (mount_of fmt ke))
            \<and> a = at_least_zero (to_int64 pf (fs_kb_available (snd ke))) div 1024)
         \<and> (dv_sufficient (evaluate_disk pf fmt order raw platform cfg) = Some True
              \<longrightarrow> install_size_mb cfg platform \<le> a)"
proof -
  let ?m = "order (parse_filesystem_attribute raw)"
  let ?path = "install_path cfg platform"
  from assms obtain t where
    u: "resolve_disk_usage pf fmt order raw platform ?path = Some (a, t)"
    by (auto simp: evaluate_disk_def Let_def split: option.splits)
  then obtain ke where
    f: "find_best_mount_linux fmt ?m ?path = Some ke"
    and a: "a = at_least_zero (to_int64 pf (fs_kb_available (snd ke))) div 1024"
    using assms(1)
    by (auto simp: resolve_disk_usage_def find_best_mount_def Let_def split: if_splits option.splits)
  have "ke \<in> set ?m \<and> holds_path fmt ?path ke
       \<and> (\<forall>ke'\<in>set ?m. holds_path fmt ?path ke'
              \<longrightarrow> List.length (mount_of fmt ke') \<le> List.length (mount_of fmt ke))"
    using find_best_mount_linux_spec [where fmt = fmt and m = ?m and path = ?path] f by simp
  then show ?thesis using a u by (auto simp: evaluate_disk_def Let_def)
qed

theorem disk_uses_deepest_mount_witness:
  "\<exists>ke\<in>set (id (parse_filesystem_attribute (example_fs example_mounts))).
     holds_path no_format (install_path example_disk_config ''ubuntu'') ke
     \<and> 80 = at_least_zero (to_int64 no_float (fs_kb_available (snd ke))) div 1024"
proof -
  have w: "\<not> is_windows ''ubuntu''" by code_simp
  have a: "dv_available_mb (evaluate_disk no_float no_format id (example_fs example_mounts)
      ''ubuntu'' example_disk_config) = Some 80" by code_simp
  from disk_uses_deepest_mount [OF w a] show ?thesis by blast
qed

text \<open>The percentage is computed in floating point, which can reject a node that exactly
  keeps the minimum: 49 MB available of 100, an install of 20 and a minimum of 29 percent leave
  29 percent, but 0.29 times 100 rounds to less than 29; the same figures pass at 30 percent.\<close>

theorem percent_boundary_rounding:
  "\<not> percent_ok 49 100 20 29 \<and> percent_ok 50 100 20 30 \<and> percent_ok 48 100 20 28"
  by code_simp

end
