(* ===== verification/Readiness.thy ===== *)
theory Readiness
  imports Disk Status Cop_Classification
begin

text \<open>
  Node upgrade readiness (\<open>internal/analysis/readiness.go\<close>): the verdict of each source on a
  cookbook, their combination, the rollup of a node, the evaluation of an organisation and
  what is stored in \<open>node_readiness\<close>.

  Maps that are only looked up are partial functions. The cookbooks of a node are an
  association list in the order Go happens to range over them. A \<open>*bool\<close> or \<open>*int\<close> is an
  option. A stored CookStyle result or complexity is kept in the columns read here.
\<close>

section \<open>Statuses and sources\<close>

definition status_compatible :: string where "status_compatible = ''compatible''"
definition status_compatible_cookstyle_only :: string where
  "status_compatible_cookstyle_only = ''compatible_cookstyle_only''"
definition status_incompatible :: string where "status_incompatible = ''incompatible''"
definition status_untested :: string where "status_untested = ''untested''"

definition source_cookstyle :: string where "source_cookstyle = ''cookstyle''"
definition source_none :: string where "source_none = ''none''"
definition source_server_cookstyle :: string where
  "source_server_cookstyle = ''server_cookstyle''"
definition source_git_cookstyle :: string where "source_git_cookstyle = ''git_cookstyle''"
definition source_git_test_kitchen :: string where
  "source_git_test_kitchen = ''git_test_kitchen''"
definition source_human_verdict :: string where "source_human_verdict = ''human''"

definition verdict_broken :: string where "verdict_broken = ''broken''"
definition verdict_not_broken :: string where "verdict_not_broken = ''not_broken''"

lemma readiness_status_neq [simp]:
  "status_compatible \<noteq> status_compatible_cookstyle_only" "status_compatible \<noteq> status_incompatible"
  "status_compatible \<noteq> status_untested" "status_compatible \<noteq> status_ready"
  "status_compatible \<noteq> status_needs_review" "status_compatible \<noteq> status_blocked"
  "status_compatible_cookstyle_only \<noteq> status_compatible" "status_compatible_cookstyle_only \<noteq> status_incompatible"
  "status_compatible_cookstyle_only \<noteq> status_untested" "status_compatible_cookstyle_only \<noteq> status_ready"
  "status_compatible_cookstyle_only \<noteq> status_needs_review" "status_compatible_cookstyle_only \<noteq> status_blocked"
  "status_incompatible \<noteq> status_compatible" "status_incompatible \<noteq> status_compatible_cookstyle_only"
  "status_incompatible \<noteq> status_untested" "status_incompatible \<noteq> status_ready"
  "status_incompatible \<noteq> status_needs_review" "status_incompatible \<noteq> status_blocked"
  "status_untested \<noteq> status_compatible" "status_untested \<noteq> status_compatible_cookstyle_only"
  "status_untested \<noteq> status_incompatible" "status_untested \<noteq> status_ready"
  "status_untested \<noteq> status_needs_review" "status_untested \<noteq> status_blocked"
  "status_ready \<noteq> status_compatible" "status_ready \<noteq> status_compatible_cookstyle_only"
  "status_ready \<noteq> status_incompatible" "status_ready \<noteq> status_untested"
  "status_needs_review \<noteq> status_compatible" "status_needs_review \<noteq> status_compatible_cookstyle_only"
  "status_needs_review \<noteq> status_incompatible" "status_needs_review \<noteq> status_untested"
  "status_blocked \<noteq> status_compatible" "status_blocked \<noteq> status_compatible_cookstyle_only"
  "status_blocked \<noteq> status_incompatible" "status_blocked \<noteq> status_untested"
  by (simp_all add: status_compatible_def status_compatible_cookstyle_only_def
      status_incompatible_def status_untested_def status_ready_def status_needs_review_def
      status_blocked_def)

lemma readiness_source_neq [simp]:
  "source_cookstyle \<noteq> source_none" "source_cookstyle \<noteq> source_server_cookstyle"
  "source_cookstyle \<noteq> source_git_cookstyle" "source_cookstyle \<noteq> source_git_test_kitchen"
  "source_cookstyle \<noteq> source_human_verdict" "source_none \<noteq> source_cookstyle"
  "source_none \<noteq> source_server_cookstyle" "source_none \<noteq> source_git_cookstyle"
  "source_none \<noteq> source_git_test_kitchen" "source_none \<noteq> source_human_verdict"
  "source_server_cookstyle \<noteq> source_cookstyle" "source_server_cookstyle \<noteq> source_none"
  "source_server_cookstyle \<noteq> source_git_cookstyle" "source_server_cookstyle \<noteq> source_git_test_kitchen"
  "source_server_cookstyle \<noteq> source_human_verdict" "source_git_cookstyle \<noteq> source_cookstyle"
  "source_git_cookstyle \<noteq> source_none" "source_git_cookstyle \<noteq> source_server_cookstyle"
  "source_git_cookstyle \<noteq> source_git_test_kitchen" "source_git_cookstyle \<noteq> source_human_verdict"
  "source_git_test_kitchen \<noteq> source_cookstyle" "source_git_test_kitchen \<noteq> source_none"
  "source_git_test_kitchen \<noteq> source_server_cookstyle" "source_git_test_kitchen \<noteq> source_git_cookstyle"
  "source_git_test_kitchen \<noteq> source_human_verdict" "source_human_verdict \<noteq> source_cookstyle"
  "source_human_verdict \<noteq> source_none" "source_human_verdict \<noteq> source_server_cookstyle"
  "source_human_verdict \<noteq> source_git_cookstyle" "source_human_verdict \<noteq> source_git_test_kitchen"
  by (simp_all add: source_cookstyle_def source_none_def source_server_cookstyle_def
      source_git_cookstyle_def source_git_test_kitchen_def source_human_verdict_def)

lemma human_verdict_neq [simp]:
  "verdict_broken \<noteq> verdict_not_broken" "verdict_not_broken \<noteq> verdict_broken"
  by (simp_all add: verdict_broken_def verdict_not_broken_def)

definition check_unknown :: string where "check_unknown = ''unknown''"
definition check_passed :: string where "check_passed = ''passed''"
definition check_failed :: string where "check_failed = ''failed''"
definition check_partial :: string where "check_partial = ''partial''"

lemma check_neq [simp]:
  "check_unknown \<noteq> check_passed" "check_passed \<noteq> check_unknown"
  "check_unknown \<noteq> check_failed" "check_failed \<noteq> check_unknown"
  "check_unknown \<noteq> check_partial" "check_partial \<noteq> check_unknown"
  "check_passed \<noteq> check_failed" "check_failed \<noteq> check_passed"
  "check_passed \<noteq> check_partial" "check_partial \<noteq> check_passed"
  "check_failed \<noteq> check_partial" "check_partial \<noteq> check_failed"
  by (simp_all add: check_unknown_def check_passed_def check_failed_def check_partial_def)

record source_verdict =
  vd_source :: string
  vd_status :: string
  vd_version :: string
  vd_commit_sha :: string
  vd_complexity_score :: int
  vd_complexity_label :: string
  vd_note :: string
  vd_recorded_by :: string

definition new_verdict :: "string \<Rightarrow> string \<Rightarrow> source_verdict" where
  "new_verdict source status =
     \<lparr>vd_source = source, vd_status = status, vd_version = [], vd_commit_sha = [],
      vd_complexity_score = 0, vd_complexity_label = [], vd_note = [], vd_recorded_by = []\<rparr>"

record blocking_cookbook =
  bk_name :: string
  bk_version :: string
  bk_reason :: string
  bk_source :: string
  bk_complexity_score :: int
  bk_complexity_label :: string
  bk_verdicts :: "source_verdict list"

section \<open>The cache\<close>

record repo_info =
  ri_name :: string
  ri_head_commit_sha :: string
  ri_has_test_suite :: bool
  ri_kitchen_excluded :: bool

text \<open>A CookStyle result or complexity row: \<open>cached_owner\<close> is the first part of its cache key.\<close>

record cs_result =
  cr_owner :: string
  cr_target :: string
  cr_cookstyle_status :: string
  cr_passed :: bool
  cr_error_message :: string

record complexity_ref =
  cc_owner :: string
  cc_target :: string
  cc_complexity_score :: int
  cc_complexity_label :: string

record standing_verdict =
  hv_verdict :: string
  hv_reason :: string
  hv_raised_by :: string

record readiness_cache =
  ca_git_repos :: "string \<rightharpoonup> repo_info"
  ca_git_cs_results :: "string \<rightharpoonup> cs_result"
  ca_server_cs_results :: "string \<rightharpoonup> cs_result"
  ca_server_complexity :: "string \<rightharpoonup> complexity_ref"
  ca_git_complexity :: "string \<rightharpoonup> complexity_ref"
  ca_git_tk_statuses :: "string \<rightharpoonup> string"
  ca_human_verdicts :: "string \<rightharpoonup> standing_verdict"
  ca_review_blocks_readiness :: bool
  ca_tk_blocks_readiness :: bool

definition cache_key :: "string \<Rightarrow> string \<Rightarrow> string" where
  "cache_key a b = a @ ''|'' @ b"

text \<open>The bulk reads, each an error or its rows; the counts in the order of the map.\<close>

record bulk_reads =
  bd_git_repos :: "string + repo_info list"
  bd_git_cs_results :: "string + cs_result list"
  bd_server_cs_results :: "string + cs_result list"
  bd_server_complexities :: "string + complexity_ref list"
  bd_git_complexities :: "string + complexity_ref list"
  bd_git_tk_counts :: "string + (string \<times> tk_counts) list"
  bd_human_verdicts :: "string + (string \<rightharpoonup> standing_verdict)"

text \<open>Filling a map row by row: a later row of a key overwrites an earlier one.\<close>

definition fill :: "('r \<Rightarrow> string) \<Rightarrow> ('r \<Rightarrow> 'v) \<Rightarrow> 'r list \<Rightarrow> (string \<rightharpoonup> 'v)" where
  "fill key val rows = map_of (rev (map (\<lambda>r. (key r, val r)) rows))"

definition build_readiness_cache ::
  "bulk_reads \<Rightarrow> bool \<Rightarrow> bool \<Rightarrow> string + readiness_cache" where
  "build_readiness_cache db review_blocks tk_blocks =
     (case bd_git_repos db of
        Inl e \<Rightarrow> Inl (''readiness: bulk-loading git repos: '' @ e)
      | Inr repos \<Rightarrow>
     (case bd_git_cs_results db of
        Inl e \<Rightarrow> Inl (''readiness: bulk-loading git CookStyle results: '' @ e)
      | Inr git_cs \<Rightarrow>
     (case bd_server_cs_results db of
        Inl e \<Rightarrow> Inl (''readiness: bulk-loading server CookStyle results: '' @ e)
      | Inr server_cs \<Rightarrow>
     (case bd_server_complexities db of
        Inl e \<Rightarrow> Inl (''readiness: bulk-loading server complexities: '' @ e)
      | Inr server_cx \<Rightarrow>
     (case bd_git_complexities db of
        Inl e \<Rightarrow> Inl (''readiness: bulk-loading git complexities: '' @ e)
      | Inr git_cx \<Rightarrow>
     (case bd_git_tk_counts db of
        Inl e \<Rightarrow> Inl (''readiness: bulk-loading git TK counts: '' @ e)
      | Inr counts \<Rightarrow>
     (case bd_human_verdicts db of
        Inl e \<Rightarrow> Inl (''readiness: bulk-loading the failure register: '' @ e)
      | Inr verdicts \<Rightarrow>
          Inr \<lparr>ca_git_repos = fill ri_name id repos,
               ca_git_cs_results = fill (\<lambda>r. cache_key (cr_owner r) (cr_target r)) id git_cs,
               ca_server_cs_results = fill (\<lambda>r. cache_key (cr_owner r) (cr_target r)) id server_cs,
               ca_server_complexity = fill (\<lambda>c. cache_key (cc_owner c) (cc_target c)) id server_cx,
               ca_git_complexity = fill (\<lambda>c. cache_key (cc_owner c) (cc_target c)) id git_cx,
               ca_git_tk_statuses =
                 fill fst (\<lambda>(k, c). counts_status c)
                   (filter (\<lambda>(k, c). counts_status c \<noteq> []) counts),
               ca_human_verdicts = verdicts,
               ca_review_blocks_readiness = review_blocks,
               ca_tk_blocks_readiness = tk_blocks\<rparr>)))))))"

section \<open>Cookbook identities\<close>

record org_cookbook =
  oc_organisation_name :: string
  oc_name :: string
  oc_version :: string

type_synonym cookbook_id_map = "string \<rightharpoonup> (string \<rightharpoonup> string)"

definition composite_id :: "org_cookbook \<Rightarrow> string" where
  "composite_id cb = oc_organisation_name cb @ ''/'' @ oc_name cb @ ''/'' @ oc_version cb"

fun id_map_loop :: "cookbook_id_map \<Rightarrow> org_cookbook list \<Rightarrow> cookbook_id_map" where
  "id_map_loop m [] = m"
| "id_map_loop m (cb # cbs) =
     (let versions = (case m (oc_name cb) of None \<Rightarrow> Map.empty | Some vs \<Rightarrow> vs)
      in id_map_loop (m(oc_name cb \<mapsto> versions(oc_version cb \<mapsto> composite_id cb))) cbs)"

definition build_cookbook_id_map :: "org_cookbook list \<Rightarrow> cookbook_id_map" where
  "build_cookbook_id_map cbs = id_map_loop Map.empty cbs"

definition lookup_cookbook_id :: "cookbook_id_map \<Rightarrow> string \<Rightarrow> string \<Rightarrow> string" where
  "lookup_cookbook_id m name version =
     (case m name of
        None \<Rightarrow> []
      | Some versions \<Rightarrow> (case versions version of None \<Rightarrow> [] | Some i \<Rightarrow> i))"

section \<open>The cookbooks of a node\<close>

definition decode_version :: "json \<Rightarrow> string option" where
  "decode_version j =
     (case j of
        JObj kvs \<Rightarrow> (case field_value ''version'' kvs of
                       None \<Rightarrow> Some [] | Some v \<Rightarrow> decode_string v)
      | JNull \<Rightarrow> Some []
      | _ \<Rightarrow> None)"

definition parse_cookbooks_attribute :: "raw_json \<Rightarrow> (string \<times> string) list" where
  "parse_cookbooks_attribute raw =
     (case raw of
        RAbsent \<Rightarrow> []
      | RInvalid \<Rightarrow> []
      | RDoc doc \<Rightarrow>
          let versions = (case decode_map decode_version doc of
                            None \<Rightarrow> [] | Some m \<Rightarrow> filter (\<lambda>(name, version). version \<noteq> []) m)
          in if versions \<noteq> [] then versions
             else (case decode_map decode_string doc of None \<Rightarrow> [] | Some m \<Rightarrow> m))"

section \<open>The verdict on a cookbook\<close>

definition cookstyle_verdict :: "string \<Rightarrow> bool \<Rightarrow> bool \<Rightarrow> string" where
  "cookstyle_verdict cookstyle_status passed review_blocks =
     (if cookstyle_status = status_ready then status_compatible
      else if cookstyle_status = status_blocked then status_incompatible
      else if cookstyle_status = status_needs_review
        then (if review_blocks then status_needs_review else status_compatible)
      else if passed then status_compatible
      else status_incompatible)"

definition known_repo :: "readiness_cache \<Rightarrow> string \<Rightarrow> repo_info option" where
  "known_repo cache name =
     (case ca_git_repos cache name of
        None \<Rightarrow> None | Some repo \<Rightarrow> if ri_name repo \<noteq> [] then Some repo else None)"

definition tk_eligible_repo :: "readiness_cache \<Rightarrow> string \<Rightarrow> repo_info option" where
  "tk_eligible_repo cache name =
     (case known_repo cache name of
        None \<Rightarrow> None
      | Some repo \<Rightarrow> if ri_has_test_suite repo \<and> \<not> ri_kitchen_excluded repo then Some repo else None)"

definition tk_status_of :: "readiness_cache \<Rightarrow> repo_info \<Rightarrow> string \<Rightarrow> string" where
  "tk_status_of cache repo target =
     (case ca_git_tk_statuses cache (cache_key (ri_name repo) target) of None \<Rightarrow> [] | Some s \<Rightarrow> s)"

text \<open>Source 1: CookStyle on the git repository.\<close>

definition git_cookstyle_verdicts ::
  "readiness_cache \<Rightarrow> string \<Rightarrow> string \<Rightarrow> source_verdict list" where
  "git_cookstyle_verdicts cache name target =
     (case known_repo cache name of
        None \<Rightarrow> []
      | Some repo \<Rightarrow>
          (case ca_git_cs_results cache (cache_key (ri_name repo) target) of
             None \<Rightarrow> []
           | Some r \<Rightarrow>
               if cr_error_message r \<noteq> [] then []
               else [(new_verdict source_git_cookstyle
                       (cookstyle_verdict (cr_cookstyle_status r) (cr_passed r)
                          (ca_review_blocks_readiness cache)))
                     \<lparr>vd_version := ''HEAD'', vd_commit_sha := ri_head_commit_sha repo\<rparr>]))"

text \<open>Source 2: CookStyle on the server cookbook, falling back to a scan without a target.\<close>

definition server_cs_result :: "readiness_cache \<Rightarrow> string \<Rightarrow> string \<Rightarrow> cs_result option" where
  "server_cs_result cache cookbook_id target =
     (case ca_server_cs_results cache (cache_key cookbook_id target) of
        Some r \<Rightarrow> if cr_error_message r = [] then Some r
                  else ca_server_cs_results cache (cache_key cookbook_id [])
      | None \<Rightarrow> ca_server_cs_results cache (cache_key cookbook_id []))"

definition server_cookstyle_verdicts ::
  "readiness_cache \<Rightarrow> string \<Rightarrow> string \<Rightarrow> string \<Rightarrow> source_verdict list" where
  "server_cookstyle_verdicts cache cookbook_id version target =
     (if cookbook_id = [] then []
      else case server_cs_result cache cookbook_id target of
             None \<Rightarrow> []
           | Some r \<Rightarrow>
               if cr_error_message r \<noteq> [] then []
               else [(new_verdict source_server_cookstyle
                       (cookstyle_verdict (cr_cookstyle_status r) (cr_passed r)
                          (ca_review_blocks_readiness cache)))
                     \<lparr>vd_version := version\<rparr>])"

text \<open>Source 3: Test Kitchen on the git repository.\<close>

definition tk_verdict_status :: "string \<Rightarrow> string" where
  "tk_verdict_status s =
     (if s = tk_status_passed then status_compatible
      else if s = tk_status_failed \<or> s = tk_status_partial then status_incompatible
      else [])"

definition kitchen_verdicts :: "readiness_cache \<Rightarrow> string \<Rightarrow> string \<Rightarrow> source_verdict list" where
  "kitchen_verdicts cache name target =
     (case tk_eligible_repo cache name of
        None \<Rightarrow> []
      | Some repo \<Rightarrow>
          if tk_status_of cache repo target = [] then []
          else [(new_verdict source_git_test_kitchen (tk_verdict_status (tk_status_of cache repo target)))
                \<lparr>vd_version := ''HEAD''\<rparr>])"

definition human_source_verdict :: "standing_verdict \<Rightarrow> string \<Rightarrow> source_verdict" where
  "human_source_verdict hv status =
     (new_verdict source_human_verdict status)
       \<lparr>vd_note := hv_reason hv, vd_recorded_by := hv_raised_by hv\<rparr>"

text \<open>
  \<open>checkCookbookCompatibility\<close>: the status, the source that decided it, and the verdicts in the
  order they were collected. The flags of the code are read off the verdicts of each source.
\<close>

definition automated_status :: "bool \<Rightarrow> bool \<Rightarrow> bool \<Rightarrow> bool \<Rightarrow> bool \<Rightarrow> string \<times> string" where
  "automated_status any_tk_fail any_cs_compatible has_tk any_cs_needs_review any_tested =
     (if any_tk_fail then (status_incompatible, source_git_test_kitchen)
      else if any_cs_compatible \<and> has_tk then (status_compatible, source_cookstyle)
      else if any_cs_compatible then (status_compatible_cookstyle_only, source_cookstyle)
      else if any_cs_needs_review then (status_needs_review, source_cookstyle)
      else if any_tested then (status_incompatible, source_cookstyle)
      else (status_untested, source_none))"

definition has_status :: "string \<Rightarrow> source_verdict list \<Rightarrow> bool" where
  "has_status status vs = list_ex (\<lambda>v. vd_status v = status) vs"

definition check_cookbook_compatibility ::
  "string \<Rightarrow> string \<Rightarrow> string \<Rightarrow> cookbook_id_map \<Rightarrow> readiness_cache
     \<Rightarrow> string \<times> string \<times> source_verdict list" where
  "check_cookbook_compatibility name version target ids cache =
     (let cs = git_cookstyle_verdicts cache name target
                 @ server_cookstyle_verdicts cache (lookup_cookbook_id ids name version) version target;
          tk = kitchen_verdicts cache name target;
          has_tk = (tk \<noteq> [] \<and> ca_tk_blocks_readiness cache);
          (status, source) = automated_status
             (has_tk \<and> has_status status_incompatible tk)
             (has_status status_compatible cs) has_tk (has_status status_needs_review cs)
             (cs \<noteq> [] \<or> has_tk);
          automated = (status, source, cs @ tk)
      in case ca_human_verdicts cache name of
           None \<Rightarrow> automated
         | Some hv \<Rightarrow>
             if hv_verdict hv = verdict_broken
             then (status_incompatible, source_human_verdict,
                   cs @ tk @ [human_source_verdict hv status_incompatible])
             else if hv_verdict hv = verdict_not_broken
             then (status_compatible, source_human_verdict,
                   cs @ tk @ [human_source_verdict hv status_compatible])
             else automated)"

section \<open>The lists of a node\<close>

definition with_complexity :: "complexity_ref option \<Rightarrow> source_verdict \<Rightarrow> source_verdict" where
  "with_complexity c v =
     (case c of
        None \<Rightarrow> v
      | Some cc \<Rightarrow> v\<lparr>vd_complexity_score := cc_complexity_score cc,
                      vd_complexity_label := cc_complexity_label cc\<rparr>)"

definition enrich_verdict ::
  "readiness_cache \<Rightarrow> string \<Rightarrow> string \<Rightarrow> string \<Rightarrow> source_verdict \<Rightarrow> source_verdict" where
  "enrich_verdict cache name cookbook_id target v =
     (if vd_source v = source_server_cookstyle
      then (if cookbook_id \<noteq> []
            then with_complexity (ca_server_complexity cache (cache_key cookbook_id target)) v
            else v)
      else if vd_source v = source_git_cookstyle
      then (case known_repo cache name of
              None \<Rightarrow> v
            | Some repo \<Rightarrow>
                with_complexity (ca_git_complexity cache (cache_key (ri_name repo) target)) v)
      else v)"

definition build_blocking_cookbook ::
  "readiness_cache \<Rightarrow> cookbook_id_map \<Rightarrow> string \<Rightarrow> string \<Rightarrow> string \<Rightarrow> string \<Rightarrow> string
     \<Rightarrow> source_verdict list \<Rightarrow> blocking_cookbook" where
  "build_blocking_cookbook cache ids target name version status source verdicts =
     (let cookbook_id = lookup_cookbook_id ids name version;
          cx = (if cookbook_id \<noteq> []
                then ca_server_complexity cache (cache_key cookbook_id target) else None)
      in \<lparr>bk_name = name, bk_version = version, bk_reason = status, bk_source = source,
          bk_complexity_score = (case cx of None \<Rightarrow> 0 | Some cc \<Rightarrow> cc_complexity_score cc),
          bk_complexity_label = (case cx of None \<Rightarrow> [] | Some cc \<Rightarrow> cc_complexity_label cc),
          bk_verdicts = map (enrich_verdict cache name cookbook_id target) verdicts\<rparr>)"

record tk_coverage =
  tc_total_cookbooks :: nat
  tc_eligible :: nat
  tc_tested :: nat
  tc_passed :: nat
  tc_failed :: nat

definition zero_coverage :: tk_coverage where
  "zero_coverage = \<lparr>tc_total_cookbooks = 0, tc_eligible = 0, tc_tested = 0, tc_passed = 0,
     tc_failed = 0\<rparr>"

definition cover :: "readiness_cache \<Rightarrow> string \<Rightarrow> string \<Rightarrow> tk_coverage \<Rightarrow> tk_coverage" where
  "cover cache target name s =
     (let s1 = s\<lparr>tc_total_cookbooks := Suc (tc_total_cookbooks s)\<rparr>
      in case tk_eligible_repo cache name of
           None \<Rightarrow> s1
         | Some repo \<Rightarrow>
             let s2 = s1\<lparr>tc_eligible := Suc (tc_eligible s1)\<rparr>;
                 tk = tk_status_of cache repo target
             in if tk = tk_status_passed
                then s2\<lparr>tc_tested := Suc (tc_tested s2), tc_passed := Suc (tc_passed s2)\<rparr>
                else if tk = tk_status_failed \<or> tk = tk_status_partial
                then s2\<lparr>tc_tested := Suc (tc_tested s2), tc_failed := Suc (tc_failed s2)\<rparr>
                else s2)"

fun evaluate_cookbooks_loop ::
  "readiness_cache \<Rightarrow> cookbook_id_map \<Rightarrow> string
     \<Rightarrow> blocking_cookbook list \<times> blocking_cookbook list \<times> tk_coverage
     \<Rightarrow> (string \<times> string) list
     \<Rightarrow> blocking_cookbook list \<times> blocking_cookbook list \<times> tk_coverage" where
  "evaluate_cookbooks_loop cache ids target acc [] = acc"
| "evaluate_cookbooks_loop cache ids target (blocking, review, stats) ((name, version) # cbs) =
     (let stats' = cover cache target name stats
      in case check_cookbook_compatibility name version target ids cache of
           (status, source, verdicts) \<Rightarrow>
             let entry = build_blocking_cookbook cache ids target name version status source verdicts
             in if status = status_compatible \<or> status = status_compatible_cookstyle_only
                then evaluate_cookbooks_loop cache ids target (blocking, review, stats') cbs
                else if status = status_needs_review
                then evaluate_cookbooks_loop cache ids target (blocking, review @ [entry], stats') cbs
                else if status = status_incompatible \<or> status = status_untested
                then evaluate_cookbooks_loop cache ids target (blocking @ [entry], review, stats') cbs
                else evaluate_cookbooks_loop cache ids target (blocking, review, stats') cbs)"

definition evaluate_cookbooks ::
  "((string \<times> string) list \<Rightarrow> (string \<times> string) list) \<Rightarrow> readiness_cache \<Rightarrow> cookbook_id_map
     \<Rightarrow> string \<Rightarrow> raw_json \<Rightarrow> blocking_cookbook list \<times> blocking_cookbook list \<times> tk_coverage" where
  "evaluate_cookbooks order cache ids target raw =
     (let cookbooks = parse_cookbooks_attribute raw
      in if cookbooks = [] then ([], [], zero_coverage)
         else evaluate_cookbooks_loop cache ids target ([], [], zero_coverage) (order cookbooks))"

section \<open>The check statuses\<close>

definition is_cookstyle_verdict_source :: "string \<Rightarrow> bool" where
  "is_cookstyle_verdict_source s = (s = source_server_cookstyle \<or> s = source_git_cookstyle)"

definition has_cookstyle_failure :: "blocking_cookbook \<Rightarrow> bool" where
  "has_cookstyle_failure b =
     list_ex (\<lambda>v. is_cookstyle_verdict_source (vd_source v) \<and> vd_status v = status_incompatible)
       (bk_verdicts b)"

definition has_only_tk_failure :: "blocking_cookbook \<Rightarrow> bool" where
  "has_only_tk_failure b =
     (\<not> has_cookstyle_failure b
      \<and> list_ex (\<lambda>v. vd_source v = source_git_test_kitchen \<and> vd_status v = status_incompatible)
          (bk_verdicts b))"

definition derive_cookstyle_status_from_blocking ::
  "bool \<Rightarrow> bool \<Rightarrow> blocking_cookbook list \<Rightarrow> string" where
  "derive_cookstyle_status_from_blocking all_compatible stale blocking =
     (if stale then check_unknown
      else if all_compatible \<and> blocking = [] then check_passed
      else
        let cs_fail_count = List.length (filter has_cookstyle_failure blocking);
            has_verdict = list_ex (\<lambda>b. list_ex (\<lambda>v. is_cookstyle_verdict_source (vd_source v))
                            (bk_verdicts b)) blocking
        in if cs_fail_count > 0 then check_failed
           else if blocking \<noteq> [] \<and> \<not> has_verdict
           then (if list_all has_only_tk_failure blocking then check_passed else check_unknown)
           else if has_verdict \<and> cs_fail_count = 0 then check_passed
           else check_unknown)"

definition derive_kitchen_status_from_blocking ::
  "bool \<Rightarrow> bool \<Rightarrow> blocking_cookbook list \<Rightarrow> tk_coverage \<Rightarrow> string" where
  "derive_kitchen_status_from_blocking all_compatible stale blocking s =
     (if stale then check_unknown
      else if tc_failed s > 0 then check_failed
      else if tc_passed s > 0 \<and> tc_tested s < tc_eligible s then check_partial
      else if tc_eligible s > 0 \<and> tc_tested s = tc_eligible s \<and> tc_failed s = 0 then check_passed
      else if tc_eligible s = 0
      then (if all_compatible \<and> blocking = [] then check_passed
            else if blocking \<noteq> [] then check_unknown
            else check_passed)
      else if all_compatible \<and> blocking = [] then check_passed
      else check_unknown)"

section \<open>The evaluator\<close>

record eval_config =
  ec_disk :: disk_config
  ec_review_blocks_readiness :: bool
  ec_tk_blocks_readiness :: bool

text \<open>
  The evaluator: values baked at construction, and the live providers (\<open>None\<close> when not wired;
  a provider is represented by what it currently answers).
\<close>

record evaluator =
  ev_concurrency :: int
  ev_baked :: eval_config
  ev_config_fn :: "eval_config option"
  ev_concurrency_fn :: "int option"

definition default_path :: "string \<Rightarrow> string \<Rightarrow> string" where
  "default_path p d = (if p = [] then d else p)"

definition default_size :: "int \<Rightarrow> int \<Rightarrow> int" where
  "default_size n d = (if n \<le> 0 then d else n)"

definition windows_hab :: string where "windows_hab = ''C:'' @ [CHR 0x5C] @ ''hab''"

definition new_readiness_evaluator ::
  "int \<Rightarrow> int \<Rightarrow> eval_config option \<Rightarrow> int option \<Rightarrow> evaluator" where
  "new_readiness_evaluator concurrency min_free_disk_mb config_fn concurrency_fn =
     (let size = default_size min_free_disk_mb 2048
      in \<lparr>ev_concurrency = default_size concurrency 1,
          ev_baked = \<lparr>ec_disk = \<lparr>dc_install_path_linux = ''/hab'',
                                dc_install_path_windows = windows_hab,
                                dc_install_size_mb_linux = size, dc_install_size_mb_windows = size,
                                dc_min_remaining_free_percent = 20\<rparr>,
                      ec_review_blocks_readiness = False, ec_tk_blocks_readiness = False\<rparr>,
          ev_config_fn = config_fn, ev_concurrency_fn = concurrency_fn\<rparr>)"

definition new_readiness_evaluator_from_config ::
  "int \<Rightarrow> eval_config \<Rightarrow> eval_config option \<Rightarrow> int option \<Rightarrow> evaluator" where
  "new_readiness_evaluator_from_config concurrency cfg config_fn concurrency_fn =
     (let d = ec_disk cfg
      in \<lparr>ev_concurrency = default_size concurrency 1,
          ev_baked = cfg\<lparr>ec_disk :=
            \<lparr>dc_install_path_linux = default_path (dc_install_path_linux d) ''/hab'',
             dc_install_path_windows = default_path (dc_install_path_windows d) windows_hab,
             dc_install_size_mb_linux = default_size (dc_install_size_mb_linux d) 3072,
             dc_install_size_mb_windows = default_size (dc_install_size_mb_windows d) 6144,
             dc_min_remaining_free_percent =
               default_size (dc_min_remaining_free_percent d) 20\<rparr>\<rparr>,
          ev_config_fn = config_fn, ev_concurrency_fn = concurrency_fn\<rparr>)"

definition effective_concurrency :: "evaluator \<Rightarrow> int" where
  "effective_concurrency e =
     (case ev_concurrency_fn e of
        None \<Rightarrow> ev_concurrency e
      | Some n \<Rightarrow> if n \<ge> 1 then n else ev_concurrency e)"

definition live_config :: "evaluator \<Rightarrow> eval_config" where
  "live_config e = (case ev_config_fn e of Some cfg \<Rightarrow> cfg | None \<Rightarrow> ev_baked e)"

definition eval_disk_config :: "evaluator \<Rightarrow> disk_config" where
  "eval_disk_config e = ec_disk (live_config e)"

definition review_blocks_readiness_now :: "evaluator \<Rightarrow> bool" where
  "review_blocks_readiness_now e = ec_review_blocks_readiness (live_config e)"

definition tk_blocks_readiness_now :: "evaluator \<Rightarrow> bool" where
  "tk_blocks_readiness_now e = ec_tk_blocks_readiness (live_config e)"

definition install_size_for_platform :: "evaluator \<Rightarrow> string \<Rightarrow> int" where
  "install_size_for_platform e platform = install_size_mb (eval_disk_config e) platform"

section \<open>One node\<close>

record node_snapshot =
  sn_organisation_name :: string
  sn_node_name :: string
  sn_platform :: string
  sn_filesystem :: raw_json
  sn_cookbooks :: raw_json
  sn_is_stale :: bool

record readiness_result =
  rr_organisation_name :: string
  rr_node_name :: string
  rr_target_chef_version :: string
  rr_is_ready :: bool
  rr_all_cookbooks_compatible :: bool
  rr_sufficient_disk_space :: "bool option"
  rr_blocking_cookbooks :: "blocking_cookbook list"
  rr_review_cookbooks :: "blocking_cookbook list"
  rr_available_disk_mb :: "int option"
  rr_required_disk_mb :: int
  rr_stale_data :: bool
  rr_status :: string
  rr_cookstyle_status :: string
  rr_kitchen_status :: string
  rr_evaluated_at :: int

text \<open>
  What the run time leaves open: the two orders in which maps are ranged over, and the number
  conversions of the standard library (see \<open>Disk\<close>).
\<close>

record go_env =
  ge_cookbook_order :: "(string \<times> string) list \<Rightarrow> (string \<times> string) list"
  ge_fs_order :: "fs_map \<Rightarrow> fs_map"
  ge_parse_float :: "string \<Rightarrow> go_float option"
  ge_format :: "json \<Rightarrow> string"

definition node_status :: "bool \<Rightarrow> blocking_cookbook list \<Rightarrow> blocking_cookbook list \<Rightarrow> string" where
  "node_status disk_ok blocking review =
     (if \<not> disk_ok \<or> blocking \<noteq> [] then status_blocked
      else if review \<noteq> [] then status_needs_review
      else status_ready)"

definition evaluate_one ::
  "go_env \<Rightarrow> evaluator \<Rightarrow> int \<Rightarrow> node_snapshot \<Rightarrow> string \<Rightarrow> cookbook_id_map \<Rightarrow> readiness_cache
     \<Rightarrow> readiness_result" where
  "evaluate_one env e now snap target ids cache =
     (case evaluate_cookbooks (ge_cookbook_order env) cache ids target (sn_cookbooks snap) of
        (blocking, review, stats) \<Rightarrow>
          let all_compatible = (blocking = []);
              v = evaluate_disk (ge_parse_float env) (ge_format env) (ge_fs_order env)
                    (sn_filesystem snap) (sn_platform snap) (eval_disk_config e);
              (sufficient, available) =
                (if sn_is_stale snap then (None, None) else (dv_sufficient v, dv_available_mb v));
              status = node_status (sufficient = Some True) blocking review
          in \<lparr>rr_organisation_name = sn_organisation_name snap,
              rr_node_name = sn_node_name snap,
              rr_target_chef_version = target,
              rr_is_ready = (status = status_ready),
              rr_all_cookbooks_compatible = all_compatible,
              rr_sufficient_disk_space = sufficient,
              rr_blocking_cookbooks = blocking,
              rr_review_cookbooks = review,
              rr_available_disk_mb = available,
              rr_required_disk_mb = install_size_for_platform e (sn_platform snap),
              rr_stale_data = sn_is_stale snap,
              rr_status = status,
              rr_cookstyle_status =
                derive_cookstyle_status_from_blocking all_compatible (sn_is_stale snap) blocking,
              rr_kitchen_status =
                derive_kitchen_status_from_blocking all_compatible (sn_is_stale snap) blocking stats,
              rr_evaluated_at = now\<rparr>)"

section \<open>Persistence and the organisation\<close>

type_synonym readiness_key = "string \<times> string \<times> string"
type_synonym readiness_table = "readiness_key \<rightharpoonup> readiness_result"

definition result_key :: "readiness_result \<Rightarrow> readiness_key" where
  "result_key r = (rr_organisation_name r, rr_node_name r, rr_target_chef_version r)"

text \<open>
  \<open>persistResult\<close> with \<open>upsertNodeReadiness\<close>: the required columns, then the statement, which
  \<open>sql_ok\<close> says succeeds. The evaluator always supplies a status.
\<close>

definition persist_result ::
  "(readiness_key \<Rightarrow> bool) \<Rightarrow> readiness_table \<Rightarrow> readiness_result \<Rightarrow> string + readiness_table" where
  "persist_result sql_ok tbl r =
     (if rr_organisation_name r = [] then Inl ''datastore: organisation_name is required''
      else if rr_node_name r = [] then Inl ''datastore: node_name is required''
      else if rr_target_chef_version r = [] then Inl ''datastore: target_chef_version is required''
      else if \<not> sql_ok (result_key r) then Inl ''datastore: upserting node readiness''
      else Inr (tbl(result_key r \<mapsto> r)))"

text \<open>A failure to persist is logged and the batch goes on.\<close>

fun persist_all ::
  "(readiness_key \<Rightarrow> bool) \<Rightarrow> readiness_table \<Rightarrow> readiness_result list \<Rightarrow> readiness_table" where
  "persist_all sql_ok tbl [] = tbl"
| "persist_all sql_ok tbl (r # rs) =
     persist_all sql_ok (case persist_result sql_ok tbl r of Inl _ \<Rightarrow> tbl | Inr t \<Rightarrow> t) rs"

record org_reads =
  og_snapshots :: "string + node_snapshot list"
  og_server_cookbooks :: "string + org_cookbook list"
  og_bulk :: bulk_reads

text \<open>
  \<open>EvaluateOrganisation\<close>. The workers each evaluate and persist one node and append its result
  under a lock; \<open>schedule\<close> is the order in which they get there, \<open>started\<close> how many were
  started before the context was cancelled.
\<close>

definition evaluate_organisation ::
  "go_env \<Rightarrow> evaluator \<Rightarrow> org_reads \<Rightarrow> (readiness_key \<Rightarrow> bool) \<Rightarrow> int \<Rightarrow> nat
     \<Rightarrow> (readiness_result list \<Rightarrow> readiness_result list) \<Rightarrow> string \<Rightarrow> readiness_table
     \<Rightarrow> (string + readiness_result list) \<times> readiness_table" where
  "evaluate_organisation env e db sql_ok now started schedule target tbl =
     (if target = [] then (Inr [], tbl)
      else case og_snapshots db of
        Inl err \<Rightarrow> (Inl (''readiness: listing node snapshots: '' @ err), tbl)
      | Inr snaps \<Rightarrow>
          if snaps = [] then (Inr [], tbl)
          else (case og_server_cookbooks db of
            Inl err \<Rightarrow> (Inl (''readiness: listing server cookbooks: '' @ err), tbl)
          | Inr cbs \<Rightarrow>
              let ids = build_cookbook_id_map cbs
              in (case build_readiness_cache (og_bulk db) (review_blocks_readiness_now e)
                         (tk_blocks_readiness_now e) of
                    Inl err \<Rightarrow> (Inl (''readiness: building cache: '' @ err), tbl)
                  | Inr cache \<Rightarrow>
                      let results = schedule (map (\<lambda>s. evaluate_one env e now s target ids cache)
                                                (take started snaps))
                      in (Inr results, persist_all sql_ok tbl results))))"

section \<open>Facts\<close>

abbreviation cookbook_status ::
  "readiness_cache \<Rightarrow> cookbook_id_map \<Rightarrow> string \<Rightarrow> string \<times> string \<Rightarrow> string" where
  "cookbook_status cache ids target cb \<equiv>
     fst (check_cookbook_compatibility (fst cb) (snd cb) target ids cache)"

definition passes :: "string \<Rightarrow> bool" where
  "passes status = (status = status_compatible \<or> status = status_compatible_cookstyle_only)"

definition blocks :: "string \<Rightarrow> bool" where
  "blocks status = (status = status_incompatible \<or> status = status_untested)"

lemma automated_status_vocabulary:
  "passes (fst (automated_status a b c d e)) \<or> blocks (fst (automated_status a b c d e))
     \<or> fst (automated_status a b c d e) = status_needs_review"
  by (simp add: automated_status_def passes_def blocks_def)

lemma cookbook_status_vocabulary:
  "passes (cookbook_status cache ids target cb) \<or> blocks (cookbook_status cache ids target cb)
     \<or> cookbook_status cache ids target cb = status_needs_review"
  using automated_status_vocabulary
  by (auto simp: check_cookbook_compatibility_def Let_def passes_def blocks_def
      split: prod.splits option.splits) (metis fst_conv passes_def blocks_def)+

lemma passes_blocks_exclusive:
  "passes s \<Longrightarrow> \<not> blocks s" "passes s \<Longrightarrow> s \<noteq> status_needs_review" "blocks s \<Longrightarrow> s \<noteq> status_needs_review"
  by (auto simp: passes_def blocks_def)

definition entry_for ::
  "readiness_cache \<Rightarrow> cookbook_id_map \<Rightarrow> string \<Rightarrow> string \<times> string \<Rightarrow> blocking_cookbook" where
  "entry_for cache ids target cb =
     (case check_cookbook_compatibility (fst cb) (snd cb) target ids cache of
        (status, source, verdicts) \<Rightarrow>
          build_blocking_cookbook cache ids target (fst cb) (snd cb) status source verdicts)"

lemma evaluate_cookbooks_loop_alt:
  "evaluate_cookbooks_loop cache ids target (blocking, review, stats) cbs =
     (blocking @ map (entry_for cache ids target)
        (filter (\<lambda>cb. blocks (cookbook_status cache ids target cb)) cbs),
      review @ map (entry_for cache ids target)
        (filter (\<lambda>cb. cookbook_status cache ids target cb = status_needs_review) cbs),
      fold (\<lambda>cb. cover cache target (fst cb)) cbs stats)"
proof (induction cbs arbitrary: blocking review stats)
  case (Cons cb cbs)
  obtain name version where cb: "cb = (name, version)" by force
  obtain status source verdicts where
    c: "check_cookbook_compatibility name version target ids cache = (status, source, verdicts)"
    by (metis prod_cases3)
  have st: "cookbook_status cache ids target cb = status" by (simp add: cb c)
  have e: "entry_for cache ids target cb
      = build_blocking_cookbook cache ids target name version status source verdicts"
    by (simp add: entry_for_def cb c)
  consider "passes status" | "status = status_needs_review" | "blocks status"
    using cookbook_status_vocabulary [where cache = cache and ids = ids and target = target and cb = cb] st
    by auto
  then show ?case
  proof cases
    case 1
    then show ?thesis
      using st by (auto simp: cb c Let_def Cons.IH passes_def blocks_def)
  next
    case 2
    then show ?thesis using st e by (simp add: cb c Let_def Cons.IH blocks_def)
  next
    case 3
    then show ?thesis using st e by (auto simp: cb c Let_def Cons.IH passes_def blocks_def)
  qed
qed simp

lemma evaluate_cookbooks_alt:
  assumes "order [] = []"
  shows "evaluate_cookbooks order cache ids target raw =
     (let cbs = order (parse_cookbooks_attribute raw)
      in (map (entry_for cache ids target)
            (filter (\<lambda>cb. blocks (cookbook_status cache ids target cb)) cbs),
          map (entry_for cache ids target)
            (filter (\<lambda>cb. cookbook_status cache ids target cb = status_needs_review) cbs),
          fold (\<lambda>cb. cover cache target (fst cb)) cbs zero_coverage))"
  using assms by (simp add: evaluate_cookbooks_def evaluate_cookbooks_loop_alt Let_def)

lemma cover_commute:
  "cover cache target a (cover cache target b s) = cover cache target b (cover cache target a s)"
  by (simp add: cover_def Let_def split: option.splits)

lemma fold_cover_mset:
  assumes "mset xs = mset ys"
  shows "fold (\<lambda>cb. cover cache target (fst cb)) xs s = fold (\<lambda>cb. cover cache target (fst cb)) ys s"
  by (rule fold_permuted_eq [where P = "\<lambda>_. True", OF assms]) (simp_all add: cover_commute)

lemma derive_cookstyle_mset:
  assumes "mset b1 = mset b2"
  shows "derive_cookstyle_status_from_blocking c stale b1 = derive_cookstyle_status_from_blocking c stale b2"
proof -
  have s: "set b1 = set b2" using assms by (rule mset_eq_setD)
  have n: "b1 = [] \<longleftrightarrow> b2 = []" using s by auto
  have l: "filter P b1 = [] \<longleftrightarrow> filter P b2 = []" for P
    using s by (simp add: filter_empty_conv)
  show ?thesis
    by (simp add: derive_cookstyle_status_from_blocking_def Let_def s n l list_ex_iff list_all_iff)
qed

lemma derive_kitchen_mset:
  assumes "mset b1 = mset b2"
  shows "derive_kitchen_status_from_blocking c stale b1 s = derive_kitchen_status_from_blocking c stale b2 s"
proof -
  have "b1 = [] \<longleftrightarrow> b2 = []" using assms by auto
  then show ?thesis by (simp add: derive_kitchen_status_from_blocking_def)
qed

text \<open>An order in which Go may range over a map.\<close>

definition is_map_order :: "('a list \<Rightarrow> 'a list) \<Rightarrow> bool" where
  "is_map_order order \<longleftrightarrow> (\<forall>xs. mset (order xs) = mset xs)"

lemma is_map_order_facts:
  assumes "is_map_order order"
  shows "order [] = []" "set (order xs) = set xs"
  using assms unfolding is_map_order_def
  by (metis mset_zero_iff_right mset.simps(1)) (metis assms is_map_order_def mset_eq_setD)

definition disk_of :: "go_env \<Rightarrow> evaluator \<Rightarrow> node_snapshot \<Rightarrow> bool option" where
  "disk_of env e snap =
     (if sn_is_stale snap then None
      else dv_sufficient (evaluate_disk (ge_parse_float env) (ge_format env) (ge_fs_order env)
             (sn_filesystem snap) (sn_platform snap) (eval_disk_config e)))"

abbreviation node_cookbooks :: "node_snapshot \<Rightarrow> (string \<times> string) list" where
  "node_cookbooks snap \<equiv> parse_cookbooks_attribute (sn_cookbooks snap)"

lemma evaluate_one_fields:
  assumes "is_map_order (ge_cookbook_order env)"
  shows "rr_blocking_cookbooks (evaluate_one env e now snap target ids cache) =
           map (entry_for cache ids target)
             (filter (\<lambda>cb. blocks (cookbook_status cache ids target cb))
                (ge_cookbook_order env (node_cookbooks snap)))" (is ?B)
    and "rr_review_cookbooks (evaluate_one env e now snap target ids cache) =
           map (entry_for cache ids target)
             (filter (\<lambda>cb. cookbook_status cache ids target cb = status_needs_review)
                (ge_cookbook_order env (node_cookbooks snap)))" (is ?R)
    and "rr_status (evaluate_one env e now snap target ids cache) =
           node_status (disk_of env e snap = Some True)
             (rr_blocking_cookbooks (evaluate_one env e now snap target ids cache))
             (rr_review_cookbooks (evaluate_one env e now snap target ids cache))" (is ?S)
  using is_map_order_facts(1) [OF assms]
  by (simp_all add: evaluate_one_def evaluate_cookbooks_alt Let_def disk_of_def)

lemma cookstyle_verdicts_frame:
  "git_cookstyle_verdicts (cache\<lparr>ca_git_tk_statuses := m\<rparr>) = git_cookstyle_verdicts cache"
  "git_cookstyle_verdicts (cache\<lparr>ca_tk_blocks_readiness := b\<rparr>) = git_cookstyle_verdicts cache"
  "server_cookstyle_verdicts (cache\<lparr>ca_git_tk_statuses := m\<rparr>) = server_cookstyle_verdicts cache"
  "server_cookstyle_verdicts (cache\<lparr>ca_tk_blocks_readiness := b\<rparr>) = server_cookstyle_verdicts cache"
  by (intro ext, simp add: git_cookstyle_verdicts_def server_cookstyle_verdicts_def known_repo_def
      server_cs_result_def cong: option.case_cong if_cong)+

lemma persist_result_alt:
  "(case persist_result sql_ok tbl r of Inl _ \<Rightarrow> tbl | Inr t \<Rightarrow> t) =
     (if rr_organisation_name r \<noteq> [] \<and> rr_node_name r \<noteq> [] \<and> rr_target_chef_version r \<noteq> []
         \<and> sql_ok (result_key r)
      then tbl(result_key r \<mapsto> r) else tbl)"
  by (simp add: persist_result_def)

lemma persist_all_spec:
  "persist_all sql_ok tbl rs key = tbl key
   \<or> (\<exists>r\<in>set rs. result_key r = key \<and> persist_all sql_ok tbl rs key = Some r)"
proof (induction rs arbitrary: tbl)
  case (Cons r rs)
  define t where "t = (case persist_result sql_ok tbl r of Inl _ \<Rightarrow> tbl | Inr t \<Rightarrow> t)"
  have "t key = tbl key \<or> (result_key r = key \<and> t key = Some r)"
    unfolding t_def persist_result_alt by simp
  moreover have "persist_all sql_ok tbl (r # rs) key = persist_all sql_ok t rs key"
    by (simp add: t_def)
  ultimately show ?case using Cons [of t] by (metis list.set_intros)
qed simp

lemma evaluate_one_key:
  "result_key (evaluate_one env e now s target ids cache)
     = (sn_organisation_name s, sn_node_name s, target)"
  by (simp add: evaluate_one_def result_key_def Let_def split: prod.split)

lemma human_verdict_overrides:
  assumes "ca_human_verdicts cache name = Some hv"
    and "hv_verdict hv = verdict_broken \<or> hv_verdict hv = verdict_not_broken"
  shows "check_cookbook_compatibility name version target ids cache =
     (let status = (if hv_verdict hv = verdict_broken then status_incompatible else status_compatible)
      in (status, source_human_verdict,
          snd (snd (check_cookbook_compatibility name version target ids
                      (cache\<lparr>ca_human_verdicts := Map.empty\<rparr>)))
            @ [human_source_verdict hv status]))"
  using assms
  by (auto simp: check_cookbook_compatibility_def Let_def git_cookstyle_verdicts_def
      server_cookstyle_verdicts_def server_cs_result_def kitchen_verdicts_def tk_eligible_repo_def
      known_repo_def tk_status_of_def split: prod.splits cong: option.case_cong if_cong)

section \<open>Properties\<close>

definition empty_cache :: readiness_cache where
  "empty_cache = \<lparr>ca_git_repos = Map.empty, ca_git_cs_results = Map.empty,
     ca_server_cs_results = Map.empty, ca_server_complexity = Map.empty,
     ca_git_complexity = Map.empty, ca_git_tk_statuses = Map.empty,
     ca_human_verdicts = Map.empty, ca_review_blocks_readiness = False,
     ca_tk_blocks_readiness = True\<rparr>"

definition example_repo :: repo_info where
  "example_repo = \<lparr>ri_name = ''nginx'', ri_head_commit_sha = ''abc'', ri_has_test_suite = True,
     ri_kitchen_excluded = False\<rparr>"

definition example_cache :: readiness_cache where
  "example_cache = empty_cache\<lparr>
     ca_git_repos := [''nginx'' \<mapsto> example_repo],
     ca_git_tk_statuses := [''nginx|19'' \<mapsto> tk_status_passed],
     ca_human_verdicts := [''apt'' \<mapsto> \<lparr>hv_verdict = verdict_not_broken, hv_reason = ''checked'',
                                    hv_raised_by = ''ann''\<rparr>]\<rparr>"

text \<open>C3: A standing human verdict decides in both directions: the status is the one the person
  recorded, its source is the person, and every verdict the automated sources reported is kept
  unchanged in front of it.\<close>

theorem human_verdict_decides:
  assumes "ca_human_verdicts cache name = Some hv"
    and "hv_verdict hv = verdict_broken \<or> hv_verdict hv = verdict_not_broken"
  shows "check_cookbook_compatibility name version target ids cache =
     (let status = (if hv_verdict hv = verdict_broken then status_incompatible else status_compatible)
      in (status, source_human_verdict,
          snd (snd (check_cookbook_compatibility name version target ids
                      (cache\<lparr>ca_human_verdicts := Map.empty\<rparr>)))
            @ [human_source_verdict hv status]))"
  using human_verdict_overrides [OF assms] .

theorem human_verdict_decides_witness:
  "fst (check_cookbook_compatibility ''apt'' ''1.0'' ''19'' Map.empty example_cache) = status_compatible"
  using human_verdict_decides [of example_cache "''apt''"
      "\<lparr>hv_verdict = verdict_not_broken, hv_reason = ''checked'', hv_raised_by = ''ann''\<rparr>"
      "''1.0''" "''19''" Map.empty]
  by (simp add: example_cache_def Let_def)

text \<open>With the Test Kitchen switch off, no Test Kitchen result changes the status of a
  cookbook or the source of its verdict, whatever the results are.\<close>

theorem tk_switch_off_inert:
  "(let off = cache\<lparr>ca_tk_blocks_readiness := False\<rparr>;
        other = off\<lparr>ca_git_tk_statuses := statuses\<rparr>;
        a = check_cookbook_compatibility name version target ids off;
        b = check_cookbook_compatibility name version target ids other
    in fst a = fst b \<and> fst (snd a) = fst (snd b))"
  by (simp add: check_cookbook_compatibility_def Let_def case_prod_beta cookstyle_verdicts_frame
      split: option.split)

text \<open>C1: A node is ready exactly when its data is fresh, its disk is known to suffice and every
  cookbook it runs passes; it is blocked exactly when the disk is insufficient or unknown, as
  for stale data, or some cookbook is incompatible or untested; otherwise it needs review.\<close>

theorem node_rollup:
  assumes "is_map_order (ge_cookbook_order env)"
  shows "(let r = evaluate_one env e now snap target ids cache;
             st = cookbook_status cache ids target
         in (rr_status r = status_ready \<longleftrightarrow>
               disk_of env e snap = Some True \<and> (\<forall>cb\<in>set (node_cookbooks snap). passes (st cb)))
            \<and> (rr_status r = status_blocked \<longleftrightarrow>
               disk_of env e snap \<noteq> Some True \<or> (\<exists>cb\<in>set (node_cookbooks snap). blocks (st cb)))
            \<and> rr_status r \<in> {status_ready, status_needs_review, status_blocked}
            \<and> (rr_is_ready r \<longleftrightarrow> rr_status r = status_ready))"
proof -
  let ?r = "evaluate_one env e now snap target ids cache"
  let ?st = "cookbook_status cache ids target"
  have b: "rr_blocking_cookbooks ?r = [] \<longleftrightarrow> \<not> (\<exists>cb\<in>set (node_cookbooks snap). blocks (?st cb))"
    using is_map_order_facts(2) [OF assms]
    by (auto simp: evaluate_one_fields(1) [OF assms] filter_empty_conv)
  have v: "rr_review_cookbooks ?r = [] \<longleftrightarrow>
      \<not> (\<exists>cb\<in>set (node_cookbooks snap). ?st cb = status_needs_review)"
    using is_map_order_facts(2) [OF assms]
    by (auto simp: evaluate_one_fields(2) [OF assms] filter_empty_conv)
  have all: "(\<forall>cb\<in>set (node_cookbooks snap). passes (?st cb)) \<longleftrightarrow>
      rr_blocking_cookbooks ?r = [] \<and> rr_review_cookbooks ?r = []"
    unfolding b v using cookbook_status_vocabulary passes_blocks_exclusive by blast
  have ready: "rr_is_ready ?r \<longleftrightarrow> rr_status ?r = status_ready"
    by (simp add: evaluate_one_def Let_def split: prod.split)
  show ?thesis
    unfolding Let_def all
    using b ready evaluate_one_fields(3) [OF assms, of e now snap target ids cache]
    by (simp add: node_status_def)
qed

definition example_env :: go_env where
  "example_env = \<lparr>ge_cookbook_order = rev, ge_fs_order = id, ge_parse_float = no_float,
     ge_format = no_format\<rparr>"

definition example_evaluator :: evaluator where
  "example_evaluator = new_readiness_evaluator_from_config 4
     \<lparr>ec_disk = example_disk_config, ec_review_blocks_readiness = False,
      ec_tk_blocks_readiness = True\<rparr> None None"

definition example_snapshot :: node_snapshot where
  "example_snapshot = \<lparr>sn_organisation_name = ''org'', sn_node_name = ''n1'',
     sn_platform = ''ubuntu'', sn_filesystem = example_fs example_mounts,
     sn_cookbooks = RDoc (JObj [(''apt'', JObj [(''version'', JStr ''1.0'')])]),
     sn_is_stale = False\<rparr>"

lemma example_map_order: "is_map_order (ge_cookbook_order example_env)"
  by (simp add: is_map_order_def example_env_def)

lemma example_disk: "disk_of example_env example_evaluator example_snapshot = Some True"
  by code_simp

lemma example_cookbooks: "node_cookbooks example_snapshot = [(''apt'', ''1.0'')]"
  by code_simp

lemma example_apt:
  "fst (check_cookbook_compatibility ''apt'' ''1.0'' ''19'' Map.empty example_cache) = status_compatible"
  by (simp add: check_cookbook_compatibility_def example_cache_def Let_def split: prod.split)

theorem node_rollup_witness:
  "rr_is_ready (evaluate_one example_env example_evaluator 0 example_snapshot ''19'' Map.empty
     example_cache)"
  using node_rollup [OF example_map_order, of example_evaluator 0 example_snapshot "''19''"
      Map.empty example_cache]
  by (simp add: Let_def example_disk example_cookbooks example_apt passes_def)

text \<open>Nothing that is stored about a node depends on the order in which Go ranges over its
  cookbooks, except the order of the two lists: they hold the same entries, and all statuses
  agree.\<close>

theorem evaluate_one_order_independent:
  assumes "is_map_order (ge_cookbook_order env)" and "is_map_order order"
  shows "(let a = evaluate_one env e now snap target ids cache;
             b = evaluate_one (env\<lparr>ge_cookbook_order := order\<rparr>) e now snap target ids cache
         in mset (rr_blocking_cookbooks a) = mset (rr_blocking_cookbooks b)
            \<and> mset (rr_review_cookbooks a) = mset (rr_review_cookbooks b)
            \<and> a\<lparr>rr_blocking_cookbooks := [], rr_review_cookbooks := []\<rparr>
              = b\<lparr>rr_blocking_cookbooks := [], rr_review_cookbooks := []\<rparr>)"
proof -
  let ?xs = "ge_cookbook_order env (node_cookbooks snap)"
  let ?ys = "order (node_cookbooks snap)"
  have m: "mset ?xs = mset ?ys" using assms by (simp add: is_map_order_def)
  have mf: "mset (map f (filter P ?xs)) = mset (map f (filter P ?ys))"
    for f :: "string \<times> string \<Rightarrow> blocking_cookbook" and P
    using m by simp
  have em: "map f (filter P ?xs) = [] \<longleftrightarrow> map f (filter P ?ys) = []"
    for f :: "string \<times> string \<Rightarrow> blocking_cookbook" and P
    using mf [of f P] by (metis mset_zero_iff)
  note o1 = is_map_order_facts(1) [OF assms(1)] and o2 = is_map_order_facts(1) [OF assms(2)]
  show ?thesis
    using mf em fold_cover_mset [OF m, of cache target zero_coverage]
    by (simp add: evaluate_one_def evaluate_cookbooks_alt o1 o2 Let_def node_status_def
        derive_cookstyle_mset [OF mf] derive_kitchen_mset [OF mf] del: mset_map mset_filter)
qed

theorem evaluate_one_order_independent_witness:
  "mset (rr_blocking_cookbooks (evaluate_one example_env example_evaluator 0 example_snapshot ''19''
      Map.empty empty_cache))
   = mset (rr_blocking_cookbooks (evaluate_one (example_env\<lparr>ge_cookbook_order := id\<rparr>)
      example_evaluator 0 example_snapshot ''19'' Map.empty empty_cache))"
  using evaluate_one_order_independent [OF example_map_order, of id example_evaluator 0
      example_snapshot "''19''" Map.empty empty_cache]
  by (simp add: Let_def is_map_order_def)

text \<open>Evaluating an organisation either fails before anything is stored, or changes only rows
  of nodes of that organisation at that target version, each to a result it returns; it stores
  nothing when any of the bulk reads fails.\<close>

theorem evaluate_organisation_effect:
  assumes "is_map_order schedule"
  shows "(case evaluate_organisation env e db sql_ok now started schedule target tbl of
            (Inl err, tbl') \<Rightarrow> tbl' = tbl
          | (Inr results, tbl') \<Rightarrow>
              List.length results \<le> started
              \<and> {key. tbl' key \<noteq> tbl key}
                  \<subseteq> {key. \<exists>r\<in>set results. result_key r = key \<and> tbl' key = Some r}
              \<and> set (map result_key results)
                  \<subseteq> {(sn_organisation_name s, sn_node_name s, target) | s.
                       \<exists>snaps. og_snapshots db = Inr snaps \<and> s \<in> set snaps})"
proof -
  have len: "List.length (schedule xs) = List.length xs" for xs
    using assms by (metis is_map_order_def size_mset)
  have st: "set (schedule xs) = set xs" for xs by (rule is_map_order_facts(2) [OF assms])
  have per: "{key. persist_all sql_ok tbl rs key \<noteq> tbl key}
      \<subseteq> {key. \<exists>r\<in>set rs. result_key r = key \<and> persist_all sql_ok tbl rs key = Some r}" for rs
    using persist_all_spec by blast
  show ?thesis
  proof (cases "\<exists>snaps cbs cache. target \<noteq> [] \<and> og_snapshots db = Inr snaps \<and> snaps \<noteq> []
      \<and> og_server_cookbooks db = Inr cbs \<and> build_readiness_cache (og_bulk db)
            (review_blocks_readiness_now e) (tk_blocks_readiness_now e) = Inr cache")
    case True
    then obtain snaps cbs cache where h: "target \<noteq> []" "og_snapshots db = Inr snaps" "snaps \<noteq> []"
      "og_server_cookbooks db = Inr cbs"
      "build_readiness_cache (og_bulk db) (review_blocks_readiness_now e) (tk_blocks_readiness_now e)
         = Inr cache" by blast
    define rs where "rs = schedule (map (\<lambda>s. evaluate_one env e now s target
        (build_cookbook_id_map cbs) cache) (take started snaps))"
    have run: "evaluate_organisation env e db sql_ok now started schedule target tbl
        = (Inr rs, persist_all sql_ok tbl rs)"
      using h by (simp add: evaluate_organisation_def rs_def Let_def)
    have "set (map result_key rs)
        \<subseteq> {(sn_organisation_name s, sn_node_name s, target) | s. s \<in> set snaps}"
      by (auto simp: rs_def st evaluate_one_key dest: in_set_takeD)
    moreover have "List.length rs \<le> started" by (simp add: rs_def len)
    ultimately show ?thesis using per [of rs] h(2) unfolding run by simp
  next
    case False
    then show ?thesis by (auto simp: evaluate_organisation_def Let_def split: sum.splits)
  qed
qed

definition example_reads :: org_reads where
  "example_reads = \<lparr>og_snapshots = Inr [example_snapshot], og_server_cookbooks = Inr [],
     og_bulk = \<lparr>bd_git_repos = Inr [], bd_git_cs_results = Inr [], bd_server_cs_results = Inr [],
       bd_server_complexities = Inr [], bd_git_complexities = Inr [], bd_git_tk_counts = Inr [],
       bd_human_verdicts = Inr Map.empty\<rparr>\<rparr>"

theorem evaluate_organisation_effect_witness:
  "\<exists>results tbl'. evaluate_organisation example_env example_evaluator example_reads (\<lambda>_. True) 0 1 rev
      ''19'' Map.empty = (Inr results, tbl') \<and> List.length results \<le> 1"
  using evaluate_organisation_effect [where schedule = rev and env = example_env
      and e = example_evaluator and db = example_reads and sql_ok = "\<lambda>_. True" and now = 0
      and started = 1 and target = "''19''" and tbl = Map.empty]
  by (simp add: is_map_order_def evaluate_organisation_def example_reads_def
      build_readiness_cache_def Let_def)

text \<open>A cookbook that passed Test Kitchen but has no CookStyle result is held incompatible, with
  CookStyle given as the source although it never ran, as long as the switch is on.\<close>

theorem tk_pass_without_cookstyle:
  assumes "git_cookstyle_verdicts cache name target = []"
    and "server_cookstyle_verdicts cache (lookup_cookbook_id ids name version) version target = []"
    and "tk_eligible_repo cache name = Some repo"
    and "tk_status_of cache repo target = tk_status_passed"
    and "ca_human_verdicts cache name = None" and "ca_tk_blocks_readiness cache"
  shows "check_cookbook_compatibility name version target ids cache =
     (status_incompatible, source_cookstyle,
      [(new_verdict source_git_test_kitchen status_compatible)\<lparr>vd_version := ''HEAD''\<rparr>])"
  using assms
  by (simp add: check_cookbook_compatibility_def kitchen_verdicts_def Let_def automated_status_def
      has_status_def tk_verdict_status_def new_verdict_def)

theorem tk_pass_without_cookstyle_witness:
  "fst (check_cookbook_compatibility ''nginx'' ''1.0'' ''19'' Map.empty example_cache)
     = status_incompatible"
proof -
  have "check_cookbook_compatibility ''nginx'' ''1.0'' ''19'' Map.empty example_cache =
     (status_incompatible, source_cookstyle,
      [(new_verdict source_git_test_kitchen status_compatible)\<lparr>vd_version := ''HEAD''\<rparr>])"
    by (rule tk_pass_without_cookstyle [where repo = example_repo])
       (simp_all add: example_cache_def empty_cache_def example_repo_def git_cookstyle_verdicts_def
         server_cookstyle_verdicts_def lookup_cookbook_id_def tk_eligible_repo_def known_repo_def
         tk_status_of_def cache_key_def)
  then show ?thesis by simp
qed

end
