(* ===== verification/Kitchen_Queue.thy ===== *)
theory Kitchen_Queue
  imports Prelude
begin

text \<open>
  The queue of Test Kitchen runs (\<open>internal/datastore/kitchen_run_queue.go\<close> over the table of
  migration 0024). The table is the list of its rows. A nullable text column is a string, the
  empty one standing for NULL, as the code writes and reads it (\<open>nullEmpty\<close>, \<open>COALESCE\<close>). The
  clock and the generated row id are arguments. Every statement is atomic; a statement the
  database refuses for reasons of its own is left to the caller (see \<open>Queue_Manager\<close>). The
  foreign key to the table of batches is not modelled: batch ids are taken to exist.
\<close>

section \<open>Rows\<close>

datatype queue_status = Queued | Running | Completed | Failed_run | Cancelled | Interrupted

fun active :: "queue_status \<Rightarrow> bool" where
  "active Queued = True"
| "active Running = True"
| "active _ = False"

record run_params =
  rp_run_type :: string
  rp_git_repo_name :: string
  rp_git_repo_url :: string
  rp_suite_name :: string
  rp_platform_name :: string
  rp_instance_name :: string
  rp_target_chef_version :: string
  rp_head_commit_sha :: string
  rp_node_name :: string
  rp_organisation_name :: string
  rp_cookbook_source :: string
  rp_batch_id :: string
  rp_priority :: int
  rp_retry_of :: string

record queue_item =
  qi_id :: string
  qi_params :: run_params
  qi_status :: queue_status
  qi_enqueued_at :: int
  qi_started_at :: "int option"
  qi_completed_at :: "int option"
  qi_error_message :: string
  qi_output :: string

type_synonym queue_table = "queue_item list"

datatype queue_error = Required string | Constraint_violation | Already_exists | Not_found

section \<open>Deduplication\<close>

text \<open>
  The partial unique indexes: the key of an active row, or none when a column of the index is
  NULL, since NULLs never conflict.
\<close>

definition git_key :: "run_params \<Rightarrow> string list" where
  "git_key p = [rp_git_repo_name p, rp_suite_name p, rp_platform_name p, rp_target_chef_version p,
     rp_head_commit_sha p]"

definition node_key :: "run_params \<Rightarrow> string list" where
  "node_key p = [rp_organisation_name p, rp_node_name p, rp_target_chef_version p]"

definition dedup_key :: "run_params \<Rightarrow> (string \<times> string list) option" where
  "dedup_key p =
     (let key = (if rp_run_type p = ''git'' then git_key p else node_key p)
      in if [] \<in> set key then None else Some (rp_run_type p, key))"

definition active_keys :: "queue_table \<Rightarrow> (string \<times> string list) list" where
  "active_keys tbl =
     map (\<lambda>r. the (dedup_key (qi_params r)))
       (filter (\<lambda>r. active (qi_status r) \<and> dedup_key (qi_params r) \<noteq> None) tbl)"

definition ids :: "queue_table \<Rightarrow> string list" where
  "ids tbl = map qi_id tbl"

definition conflicts :: "queue_table \<Rightarrow> string \<Rightarrow> run_params \<Rightarrow> bool" where
  "conflicts tbl new_id p =
     (new_id \<in> set (ids tbl)
      \<or> (case dedup_key p of None \<Rightarrow> False | Some k \<Rightarrow> k \<in> set (active_keys tbl)))"

section \<open>Operations\<close>

definition new_row :: "string \<Rightarrow> int \<Rightarrow> run_params \<Rightarrow> queue_item" where
  "new_row new_id now p =
     \<lparr>qi_id = new_id, qi_params = p, qi_status = Queued, qi_enqueued_at = now,
      qi_started_at = None, qi_completed_at = None, qi_error_message = [], qi_output = []\<rparr>"

definition default_priority :: "run_params \<Rightarrow> run_params" where
  "default_priority p = (if rp_priority p = 0 then p\<lparr>rp_priority := 10\<rparr> else p)"

definition enqueue_kitchen_run ::
  "string \<Rightarrow> int \<Rightarrow> run_params \<Rightarrow> queue_table \<Rightarrow> queue_error + queue_item \<times> queue_table" where
  "enqueue_kitchen_run new_id now p tbl =
     (if rp_run_type p = [] then Inl (Required ''run_type'')
      else if rp_target_chef_version p = [] then Inl (Required ''target_chef_version'')
      else if rp_run_type p \<noteq> ''git'' \<and> rp_run_type p \<noteq> ''node'' then Inl Constraint_violation
      else if conflicts tbl new_id p then Inl Already_exists
      else if rp_retry_of p \<noteq> [] \<and> rp_retry_of p \<notin> set (ids tbl) then Inl Constraint_violation
      else let row = new_row new_id now (default_priority p) in Inr (row, tbl @ [row]))"

text \<open>\<open>ORDER BY priority DESC, enqueued_at ASC LIMIT 1\<close> over the queued rows.\<close>

definition goes_before :: "queue_item \<Rightarrow> queue_item \<Rightarrow> bool" where
  "goes_before a b =
     (rp_priority (qi_params a) > rp_priority (qi_params b)
      \<or> (rp_priority (qi_params a) = rp_priority (qi_params b)
         \<and> qi_enqueued_at a < qi_enqueued_at b))"

fun next_queued :: "queue_table \<Rightarrow> queue_item option" where
  "next_queued [] = None"
| "next_queued (r # rs) =
     (if qi_status r \<noteq> Queued then next_queued rs
      else case next_queued rs of
             None \<Rightarrow> Some r
           | Some b \<Rightarrow> if goes_before b r then Some b else Some r)"

definition claim_row :: "int \<Rightarrow> queue_item \<Rightarrow> queue_item" where
  "claim_row now r = r\<lparr>qi_status := Running, qi_started_at := Some now\<rparr>"

definition claim_next_kitchen_run :: "int \<Rightarrow> queue_table \<Rightarrow> queue_item option \<times> queue_table" where
  "claim_next_kitchen_run now tbl =
     (case next_queued tbl of
        None \<Rightarrow> (None, tbl)
      | Some r \<Rightarrow> (Some (claim_row now r), update_where (\<lambda>q. qi_id q = qi_id r) (claim_row now) tbl))"

text \<open>An update that must hit a row (\<open>checkRowsAffected\<close>).\<close>

definition update_checked ::
  "(queue_item \<Rightarrow> bool) \<Rightarrow> (queue_item \<Rightarrow> queue_item) \<Rightarrow> queue_table \<Rightarrow> queue_error + queue_table" where
  "update_checked P f tbl =
     (if list_ex P tbl then Inr (update_where P f tbl) else Inl Not_found)"

definition complete_kitchen_run ::
  "string \<Rightarrow> int \<Rightarrow> string \<Rightarrow> queue_table \<Rightarrow> queue_error + queue_table" where
  "complete_kitchen_run i now out tbl =
     update_checked (\<lambda>r. qi_id r = i \<and> qi_status r = Running)
       (\<lambda>r. r\<lparr>qi_status := Completed, qi_completed_at := Some now, qi_output := out\<rparr>) tbl"

definition fail_kitchen_run ::
  "string \<Rightarrow> int \<Rightarrow> string \<Rightarrow> string \<Rightarrow> queue_table \<Rightarrow> queue_error + queue_table" where
  "fail_kitchen_run i now err out tbl =
     update_checked (\<lambda>r. qi_id r = i \<and> qi_status r = Running)
       (\<lambda>r. r\<lparr>qi_status := Failed_run, qi_completed_at := Some now, qi_error_message := err,
              qi_output := out\<rparr>) tbl"

definition cancel_row :: "int \<Rightarrow> queue_item \<Rightarrow> queue_item" where
  "cancel_row now r = r\<lparr>qi_status := Cancelled, qi_completed_at := Some now\<rparr>"

definition cancel_kitchen_run :: "string \<Rightarrow> int \<Rightarrow> queue_table \<Rightarrow> queue_error + queue_table" where
  "cancel_kitchen_run i now tbl =
     update_checked (\<lambda>r. qi_id r = i \<and> active (qi_status r)) (cancel_row now) tbl"

definition count_rows :: "(queue_item \<Rightarrow> bool) \<Rightarrow> queue_table \<Rightarrow> nat" where
  "count_rows P tbl = List.length (filter P tbl)"

definition cancel_kitchen_runs_by_batch :: "string \<Rightarrow> int \<Rightarrow> queue_table \<Rightarrow> nat \<times> queue_table" where
  "cancel_kitchen_runs_by_batch batch now tbl =
     (let P = (\<lambda>r. batch \<noteq> [] \<and> rp_batch_id (qi_params r) = batch \<and> qi_status r = Queued)
      in (count_rows P tbl, update_where P (cancel_row now) tbl))"

definition retryable :: "queue_status \<Rightarrow> bool" where
  "retryable s = (s = Failed_run \<or> s = Interrupted \<or> s = Cancelled)"

definition retry_kitchen_run ::
  "string \<Rightarrow> int \<Rightarrow> string \<Rightarrow> queue_table \<Rightarrow> queue_error + queue_item \<times> queue_table" where
  "retry_kitchen_run new_id now i tbl =
     (case find (\<lambda>r. qi_id r = i \<and> retryable (qi_status r)) tbl of
        None \<Rightarrow> Inl Not_found
      | Some r \<Rightarrow>
          let p = (qi_params r)\<lparr>rp_retry_of := i\<rparr>; row = new_row new_id now p
          in if conflicts tbl new_id p then Inl Already_exists else Inr (row, tbl @ [row]))"

definition mark_interrupted_kitchen_runs :: "int \<Rightarrow> queue_table \<Rightarrow> nat \<times> queue_table" where
  "mark_interrupted_kitchen_runs now tbl =
     (count_rows (\<lambda>r. qi_status r = Running) tbl,
      update_where (\<lambda>r. qi_status r = Running)
        (\<lambda>r. r\<lparr>qi_status := Interrupted, qi_completed_at := Some now,
               qi_error_message := ''interrupted: application restarted while running''\<rparr>) tbl)"

text \<open>Deleting a row sets the \<open>retry_of\<close> that refers to it to NULL.\<close>

definition forget_retry :: "queue_item \<Rightarrow> queue_item" where
  "forget_retry r = r\<lparr>qi_params := (qi_params r)\<lparr>rp_retry_of := []\<rparr>\<rparr>"

definition purge_completed_kitchen_runs :: "int \<Rightarrow> queue_table \<Rightarrow> nat \<times> queue_table" where
  "purge_completed_kitchen_runs older_than tbl =
     (let old = (\<lambda>r. \<not> active (qi_status r)
                   \<and> (case qi_completed_at r of None \<Rightarrow> False | Some t \<Rightarrow> t < older_than))
      in (count_rows old tbl,
          update_where (\<lambda>r. rp_retry_of (qi_params r) \<in> qi_id ` set (filter old tbl)) forget_retry
            (filter (\<lambda>r. \<not> old r) tbl)))"

definition kitchen_queue_stats :: "queue_table \<Rightarrow> nat \<times> nat" where
  "kitchen_queue_stats tbl =
     (count_rows (\<lambda>r. qi_status r = Queued) tbl, count_rows (\<lambda>r. qi_status r = Running) tbl)"

section \<open>Operations as steps\<close>

datatype queue_op =
    Enqueue string int run_params
  | Claim int
  | Complete string int string
  | Fail string int string string
  | Cancel string int
  | Cancel_batch string int
  | Retry string int string
  | Mark_interrupted int
  | Purge int

definition on_ok :: "'a + queue_table \<Rightarrow> queue_table \<Rightarrow> queue_table" where
  "on_ok res tbl = (case res of Inl _ \<Rightarrow> tbl | Inr t \<Rightarrow> t)"

fun apply_op :: "queue_op \<Rightarrow> queue_table \<Rightarrow> queue_table" where
  "apply_op (Enqueue i now p) tbl =
     (case enqueue_kitchen_run i now p tbl of Inl _ \<Rightarrow> tbl | Inr (_, t) \<Rightarrow> t)"
| "apply_op (Claim now) tbl = snd (claim_next_kitchen_run now tbl)"
| "apply_op (Complete i now out) tbl = on_ok (complete_kitchen_run i now out tbl) tbl"
| "apply_op (Fail i now err out) tbl = on_ok (fail_kitchen_run i now err out tbl) tbl"
| "apply_op (Cancel i now) tbl = on_ok (cancel_kitchen_run i now tbl) tbl"
| "apply_op (Cancel_batch b now) tbl = snd (cancel_kitchen_runs_by_batch b now tbl)"
| "apply_op (Retry i now j) tbl =
     (case retry_kitchen_run i now j tbl of Inl _ \<Rightarrow> tbl | Inr (_, t) \<Rightarrow> t)"
| "apply_op (Mark_interrupted now) tbl = snd (mark_interrupted_kitchen_runs now tbl)"
| "apply_op (Purge t) tbl = snd (purge_completed_kitchen_runs t tbl)"

section \<open>The invariant\<close>

definition well_formed :: "queue_table \<Rightarrow> bool" where
  "well_formed tbl \<longleftrightarrow> distinct (ids tbl) \<and> distinct (active_keys tbl)"

text \<open>An update that keeps ids and parameters and never makes a row active.\<close>

definition gentle :: "(queue_item \<Rightarrow> queue_item) \<Rightarrow> queue_table \<Rightarrow> bool" where
  "gentle f tbl \<longleftrightarrow> (\<forall>r\<in>set tbl. qi_id (f r) = qi_id r
      \<and> dedup_key (qi_params (f r)) = dedup_key (qi_params r)
      \<and> (active (qi_status (f r)) \<longrightarrow> active (qi_status r)))"

lemma gentle_ids: "gentle f tbl \<Longrightarrow> ids (map f tbl) = ids tbl"
  by (simp add: gentle_def ids_def)

lemma gentle_active_keys: "gentle f tbl \<Longrightarrow> subseq (active_keys (map f tbl)) (active_keys tbl)"
  by (induction tbl) (auto simp: gentle_def active_keys_def)

lemma subseq_distinct: "subseq xs ys \<Longrightarrow> distinct ys \<Longrightarrow> distinct xs"
  by (metis subseq_conv_nths distinct_nthsI)

lemma gentle_well_formed: "gentle f tbl \<Longrightarrow> well_formed tbl \<Longrightarrow> well_formed (map f tbl)"
  by (metis gentle_active_keys gentle_ids subseq_distinct well_formed_def)

lemma update_where_well_formed:
  assumes "well_formed tbl"
    and "\<And>r. P r \<Longrightarrow> qi_id (f r) = qi_id r
      \<and> dedup_key (qi_params (f r)) = dedup_key (qi_params r)
           \<and> (active (qi_status (f r)) \<longrightarrow> active (qi_status r))"
  shows "well_formed (update_where P f tbl)"
  unfolding update_where_def by (rule gentle_well_formed [OF _ assms(1)]) (simp add: gentle_def assms(2))

lemma subseq_map_filter:
  "subseq (map k (filter (\<lambda>r. P r \<and> Q r) tbl)) (map k (filter Q tbl))"
  by (rule subseq_map) (simp flip: filter_filter)

lemma active_keys_filter: "subseq (active_keys (filter P tbl)) (active_keys tbl)"
  unfolding active_keys_def filter_filter by (rule subseq_map_filter)

lemma filter_well_formed: "well_formed tbl \<Longrightarrow> well_formed (filter P tbl)"
  unfolding well_formed_def
  by (metis active_keys_filter subseq_distinct ids_def distinct_map_filter)

lemma append_row_well_formed:
  assumes "well_formed tbl" and "\<not> conflicts tbl i p" and "dedup_key q = dedup_key p"
  shows "well_formed (tbl @ [new_row i now q])"
  using assms
  by (auto simp: well_formed_def ids_def active_keys_def new_row_def conflicts_def
      split: option.splits)

lemma purge_table:
  obtains P Q where "snd (purge_completed_kitchen_runs t tbl) = update_where Q forget_retry (filter P tbl)"
  unfolding purge_completed_kitchen_runs_def Let_def snd_conv by blast

lemma dedup_key_default_priority: "dedup_key (default_priority p) = dedup_key p"
  by (simp add: default_priority_def dedup_key_def git_key_def node_key_def)

lemma dedup_key_retry: "dedup_key (p\<lparr>rp_retry_of := i\<rparr>) = dedup_key p"
  by (simp add: dedup_key_def git_key_def node_key_def)

lemma goes_before_facts:
  "\<not> goes_before r r"
  "goes_before b a \<Longrightarrow> \<not> goes_before a b"
  "\<not> goes_before q b \<Longrightarrow> \<not> goes_before b a \<Longrightarrow> \<not> goes_before q a"
  by (auto simp: goes_before_def)

lemma next_queued_none: "next_queued tbl = None \<longleftrightarrow> (\<forall>r\<in>set tbl. qi_status r \<noteq> Queued)"
  by (induction tbl) (auto split: option.splits)

lemma next_queued_some:
  assumes "next_queued tbl = Some r"
  shows "r \<in> set tbl \<and> qi_status r = Queued
         \<and> (\<forall>q\<in>set tbl. qi_status q = Queued \<longrightarrow> \<not> goes_before q r)"
  using assms
proof (induction tbl arbitrary: r)
  case (Cons a rs)
  consider (skip) "qi_status a \<noteq> Queued" "next_queued rs = Some r"
    | (only) "qi_status a = Queued" "next_queued rs = None" "r = a"
    | (first) b where "qi_status a = Queued" "next_queued rs = Some b" "\<not> goes_before b a" "r = a"
    | (later) b where "qi_status a = Queued" "next_queued rs = Some b" "goes_before b a" "r = b"
    using Cons.prems by (auto split: if_splits option.splits)
  then show ?case
  proof cases
    case skip
    then show ?thesis using Cons.IH by simp
  next
    case only
    then have "\<forall>q\<in>set rs. qi_status q \<noteq> Queued" by (simp add: next_queued_none)
    then show ?thesis using only goes_before_facts(1) by simp
  next
    case first
    then show ?thesis using Cons.IH [OF first(2)] goes_before_facts(1,3) by (metis set_ConsD list.set_intros(1))
  next
    case later
    then show ?thesis using Cons.IH [OF later(2)] goes_before_facts(2) by simp
  qed
qed simp

section \<open>Every operation keeps the invariant\<close>

lemma on_ok_update_checked:
  "on_ok (update_checked P f tbl) tbl = (if list_ex P tbl then update_where P f tbl else tbl)"
  by (simp add: on_ok_def update_checked_def)

lemmas queue_update_defs =
  complete_kitchen_run_def fail_kitchen_run_def cancel_kitchen_run_def
  cancel_kitchen_runs_by_batch_def mark_interrupted_kitchen_runs_def cancel_row_def

lemma claim_table:
  "snd (claim_next_kitchen_run now tbl) =
     (case next_queued tbl of
        None \<Rightarrow> tbl | Some r \<Rightarrow> update_where (\<lambda>q. qi_id q = qi_id r) (claim_row now) tbl)"
  by (simp add: claim_next_kitchen_run_def split: option.split)

lemma unique_row:
  assumes "distinct (ids tbl)" and "q \<in> set tbl" and "r \<in> set tbl" and "qi_id q = qi_id r"
  shows "q = r"
  using assms by (auto simp: ids_def distinct_map inj_on_def)

lemma claimed_row:
  assumes "well_formed tbl" and "next_queued tbl = Some r" and "q \<in> set tbl" and "qi_id q = qi_id r"
  shows "qi_status q = Queued"
  using unique_row [of tbl q r] assms next_queued_some [OF assms(2)] by (simp add: well_formed_def)

lemma claim_well_formed:
  assumes "well_formed tbl"
  shows "well_formed (snd (claim_next_kitchen_run now tbl))"
proof (cases "next_queued tbl")
  case None
  then show ?thesis using assms by (simp add: claim_table)
next
  case (Some r)
  have "gentle (\<lambda>q. if qi_id q = qi_id r then claim_row now q else q) tbl"
    using claimed_row [OF assms Some] by (simp add: gentle_def claim_row_def)
  then show ?thesis
    using gentle_well_formed assms by (simp add: claim_table Some update_where_def)
qed

lemma apply_op_well_formed:
  assumes "well_formed tbl"
  shows "well_formed (apply_op op tbl)"
proof (cases op)
  case (Enqueue i now p)
  then show ?thesis
    using assms append_row_well_formed [OF assms, of i p "default_priority p" now]
    by (auto simp: enqueue_kitchen_run_def dedup_key_default_priority Let_def)
next
  case (Claim now)
  then show ?thesis using claim_well_formed [OF assms] by simp
next
  case (Complete i now out)
  then show ?thesis using assms
    by (auto simp: on_ok_update_checked queue_update_defs intro!: update_where_well_formed)
next
  case (Fail i now err out)
  then show ?thesis using assms
    by (auto simp: on_ok_update_checked queue_update_defs intro!: update_where_well_formed)
next
  case (Cancel i now)
  then show ?thesis using assms
    by (auto simp: on_ok_update_checked queue_update_defs intro!: update_where_well_formed)
next
  case (Cancel_batch b now)
  then show ?thesis using assms
    by (auto simp: queue_update_defs Let_def intro!: update_where_well_formed)
next
  case (Retry i now j)
  show ?thesis
  proof (cases "find (\<lambda>r. qi_id r = j \<and> retryable (qi_status r)) tbl")
    case None
    then show ?thesis using assms Retry by (simp add: retry_kitchen_run_def)
  next
    case (Some r)
    then show ?thesis
      using assms Retry append_row_well_formed
        [OF assms, of i "(qi_params r)\<lparr>rp_retry_of := j\<rparr>" "(qi_params r)\<lparr>rp_retry_of := j\<rparr>" now]
      by (simp add: retry_kitchen_run_def Let_def)
  qed
next
  case (Mark_interrupted now)
  then show ?thesis using assms
    by (auto simp: queue_update_defs intro!: update_where_well_formed)
next
  case (Purge t)
  obtain P Q where "apply_op op tbl = update_where Q forget_retry (filter P tbl)"
    unfolding Purge apply_op.simps by (rule purge_table)
  then show ?thesis
    using update_where_well_formed [OF filter_well_formed [OF assms], of Q forget_retry P]
    by (simp add: forget_retry_def dedup_key_retry)
qed

section \<open>Status of a row over time\<close>

definition status_of :: "queue_table \<Rightarrow> string \<Rightarrow> queue_status option" where
  "status_of tbl i = map_option qi_status (find (\<lambda>r. qi_id r = i) tbl)"

lemma status_of_Some:
  assumes "distinct (ids tbl)"
  shows "status_of tbl i = Some s \<longleftrightarrow> (\<exists>r\<in>set tbl. qi_id r = i \<and> qi_status r = s)"
proof
  assume "status_of tbl i = Some s"
  then obtain r where "find (\<lambda>r. qi_id r = i) tbl = Some r" "qi_status r = s"
    by (auto simp: status_of_def)
  then show "\<exists>r\<in>set tbl. qi_id r = i \<and> qi_status r = s" using find_SomeD by fast
next
  assume "\<exists>r\<in>set tbl. qi_id r = i \<and> qi_status r = s"
  then obtain r where r: "r \<in> set tbl" "qi_id r = i" "qi_status r = s" by blast
  then obtain q where q: "find (\<lambda>r. qi_id r = i) tbl = Some q"
    using find_SomeI [where P = "\<lambda>r. qi_id r = i", OF r(1)] by blast
  then have "q \<in> set tbl \<and> qi_id q = i" by (rule find_SomeD)
  then have "q = r" using unique_row [OF assms] r by simp
  then show "status_of tbl i = Some s" using q r by (simp add: status_of_def)
qed

lemma status_of_None: "status_of tbl i = None \<longleftrightarrow> i \<notin> set (ids tbl)"
  by (auto simp: status_of_def ids_def find_None_iff)

text \<open>How the status of an existing row may change: the state machine of the queue.\<close>

inductive may_become :: "queue_status \<Rightarrow> queue_status \<Rightarrow> bool" where
  stay: "may_become s s"
| claimed: "may_become Queued Running"
| cancelled_early: "may_become Queued Cancelled"
| finished: "s \<in> {Completed, Failed_run, Cancelled, Interrupted} \<Longrightarrow> may_become Running s"

inductive_simps may_become_simps: "may_become s t"
inductive_cases may_become_queued: "may_become s Queued"

definition row_follows :: "queue_table \<Rightarrow> queue_table \<Rightarrow> bool" where
  "row_follows tbl tbl' \<longleftrightarrow>
     (\<forall>r'\<in>set tbl'. (qi_id r' \<notin> set (ids tbl) \<and> qi_status r' = Queued)
        \<or> (\<exists>r\<in>set tbl. qi_id r = qi_id r' \<and> may_become (qi_status r) (qi_status r')))"

lemma row_follows_refl: "row_follows tbl tbl"
  by (auto simp: row_follows_def intro: may_become.intros)

lemma row_follows_update:
  assumes "\<And>r. r \<in> set tbl \<Longrightarrow> P r \<Longrightarrow> qi_id (f r) = qi_id r \<and> may_become (qi_status r) (qi_status (f r))"
  shows "row_follows tbl (update_where P f tbl)"
  using assms by (fastforce simp: row_follows_def update_where_def intro: may_become.intros)

lemma row_follows_append:
  "i \<notin> set (ids tbl) \<Longrightarrow> row_follows tbl (tbl @ [new_row i now p])"
  by (auto simp: row_follows_def new_row_def intro: may_become.intros)

lemma row_follows_filter: "row_follows tbl (filter P tbl)"
  by (auto simp: row_follows_def intro: may_become.intros)

lemma row_follows_claim:
  assumes "well_formed tbl"
  shows "row_follows tbl (snd (claim_next_kitchen_run now tbl))"
proof (cases "next_queued tbl")
  case None
  then show ?thesis by (simp add: claim_table row_follows_refl)
next
  case (Some r)
  then show ?thesis
    using claimed_row [OF assms Some]
    by (auto simp: claim_table claim_row_def may_become_simps intro!: row_follows_update)
qed

lemma active_cases: "active s \<longleftrightarrow> s = Queued \<or> s = Running"
  by (cases s) simp_all

lemma apply_op_follows:
  assumes "well_formed tbl"
  shows "row_follows tbl (apply_op op tbl)"
proof (cases op)
  case (Enqueue i now p)
  then show ?thesis
    by (auto simp: enqueue_kitchen_run_def conflicts_def Let_def
        intro: row_follows_refl row_follows_append)
next
  case (Claim now)
  then show ?thesis using row_follows_claim [OF assms] by simp
next
  case (Retry i now j)
  show ?thesis
    using Retry by (auto simp: retry_kitchen_run_def conflicts_def Let_def
        intro: row_follows_refl row_follows_append split: option.splits)
next
  case (Purge t)
  obtain P Q where "apply_op op tbl = update_where Q forget_retry (filter P tbl)"
    unfolding Purge apply_op.simps by (rule purge_table)
  then show ?thesis
    by (auto simp: row_follows_def update_where_def forget_retry_def may_become_simps)
qed (auto simp: on_ok_update_checked queue_update_defs Let_def may_become_simps active_cases
      intro!: row_follows_update row_follows_refl)

section \<open>The store interface\<close>

text \<open>
  What the manager relies on from its \<open>Store\<close>: every operation keeps the store's invariant, an
  id is queued only if it was before or the operation made it, and a claim returns a queued id
  and leaves it unqueued.
\<close>

text \<open>The ids claimed by a sequence of operations.\<close>

fun claims :: "('o \<Rightarrow> 's \<Rightarrow> 's) \<Rightarrow> ('o \<Rightarrow> 's \<Rightarrow> string option) \<Rightarrow> 'o list \<Rightarrow> 's \<Rightarrow> string list" where
  "claims step claimed [] s = []"
| "claims step claimed (op # ops) s =
     (case claimed op s of
        None \<Rightarrow> claims step claimed ops (step op s)
      | Some i \<Rightarrow> i # claims step claimed ops (step op s))"

locale run_store =
  fixes inv :: "'s \<Rightarrow> bool"
    and queued :: "'s \<Rightarrow> string set"
    and known :: "'s \<Rightarrow> string set"
    and step :: "'o \<Rightarrow> 's \<Rightarrow> 's"
    and new_ids :: "'o \<Rightarrow> string list"
    and claimed :: "'o \<Rightarrow> 's \<Rightarrow> string option"
  assumes inv_step: "inv s \<Longrightarrow> inv (step op s)"
    and queued_known: "queued s \<subseteq> known s"
    and known_step: "inv s \<Longrightarrow> known (step op s) \<subseteq> known s \<union> set (new_ids op)"
    and queued_step: "inv s \<Longrightarrow> queued (step op s) \<subseteq> queued s \<union> set (new_ids op)"
    and claimed_queued:
      "inv s \<Longrightarrow> claimed op s = Some i \<Longrightarrow> i \<in> queued s \<and> i \<notin> queued (step op s) \<and> new_ids op = []"
begin

lemma inv_run: "inv s \<Longrightarrow> inv (fold step ops s)"
  by (induction ops arbitrary: s) (simp_all add: inv_step)

lemma claims_from:
  "inv s \<Longrightarrow> set (claims step claimed ops s) \<subseteq> queued s \<union> set (concat (map new_ids ops))"
proof (induction ops arbitrary: s)
  case (Cons op ops)
  have rest: "set (claims step claimed ops (step op s))
      \<subseteq> queued s \<union> set (new_ids op) \<union> set (concat (map new_ids ops))"
    using Cons.IH [OF inv_step [OF Cons.prems]] queued_step [OF Cons.prems, of op] by blast
  then show ?case
    using claimed_queued [OF Cons.prems, of op] by (cases "claimed op s") auto
qed simp

lemma claims_distinct:
  assumes "inv s" and "distinct (concat (map new_ids ops))"
    and "set (concat (map new_ids ops)) \<inter> known s = {}"
  shows "distinct (claims step claimed ops s)"
  using assms
proof (induction ops arbitrary: s)
  case (Cons op ops)
  have s': "inv (step op s)" using Cons.prems(1) by (rule inv_step)
  have fresh: "set (concat (map new_ids ops)) \<inter> known (step op s) = {}"
    using Cons.prems known_step [OF Cons.prems(1), of op] by fastforce
  have rest: "distinct (claims step claimed ops (step op s))"
    by (rule Cons.IH [OF s' _ fresh]) (use Cons.prems(2) in simp)
  show ?case
  proof (cases "claimed op s")
    case None
    with rest show ?thesis by simp
  next
    case (Some i)
    then have i: "i \<in> known s" "i \<notin> queued (step op s)"
      using claimed_queued [OF Cons.prems(1) Some] queued_known by auto
    then have "i \<notin> set (claims step claimed ops (step op s))"
      using claims_from [OF s', of ops] Cons.prems(3) by auto
    with rest Some show ?thesis by simp
  qed
qed simp

end

definition queued_ids :: "queue_table \<Rightarrow> string set" where
  "queued_ids tbl = {qi_id r | r. r \<in> set tbl \<and> qi_status r = Queued}"

fun op_new_ids :: "queue_op \<Rightarrow> string list" where
  "op_new_ids (Enqueue i now p) = [i]"
| "op_new_ids (Retry i now j) = [i]"
| "op_new_ids _ = []"

fun op_claimed :: "queue_op \<Rightarrow> queue_table \<Rightarrow> string option" where
  "op_claimed (Claim now) tbl = map_option qi_id (fst (claim_next_kitchen_run now tbl))"
| "op_claimed _ tbl = None"

lemma ids_update_where:
  assumes "\<And>r. r \<in> set tbl \<Longrightarrow> P r \<Longrightarrow> qi_id (f r) = qi_id r"
  shows "ids (update_where P f tbl) = ids tbl"
  using assms by (simp add: ids_def update_where_def)

lemma apply_op_ids: "set (ids (apply_op op tbl)) \<subseteq> set (ids tbl) \<union> set (op_new_ids op)"
proof (cases op)
  case (Claim now)
  then show ?thesis
    by (simp add: claim_table ids_update_where claim_row_def split: option.splits)
next
  case (Retry i now j)
  then show ?thesis
    by (auto simp: retry_kitchen_run_def Let_def ids_def new_row_def split: option.splits)
next
  case (Purge t)
  obtain P Q where "apply_op op tbl = update_where Q forget_retry (filter P tbl)"
    unfolding Purge apply_op.simps by (rule purge_table)
  then show ?thesis by (auto simp: ids_def update_where_def forget_retry_def)
next
  case (Enqueue i now p)
  then show ?thesis by (auto simp: enqueue_kitchen_run_def Let_def ids_def new_row_def)
qed (simp_all add: on_ok_update_checked queue_update_defs Let_def ids_update_where)

lemma apply_op_queued:
  assumes "well_formed tbl"
  shows "queued_ids (apply_op op tbl) \<subseteq> queued_ids tbl \<union> set (op_new_ids op)"
proof
  fix i assume "i \<in> queued_ids (apply_op op tbl)"
  then obtain r' where r': "r' \<in> set (apply_op op tbl)" "qi_id r' = i" "qi_status r' = Queued"
    by (auto simp: queued_ids_def)
  then consider "i \<notin> set (ids tbl)"
    | r where "r \<in> set tbl" "qi_id r = i" "may_become (qi_status r) Queued"
    using apply_op_follows [OF assms, of op] unfolding row_follows_def by metis
  then show "i \<in> queued_ids tbl \<union> set (op_new_ids op)"
  proof cases
    case 1
    have "i \<in> set (ids (apply_op op tbl))" using r' by (auto simp: ids_def)
    then show ?thesis using apply_op_ids [of op tbl] 1 by blast
  next
    case 2
    then show ?thesis by (auto simp: queued_ids_def elim: may_become_queued)
  qed
qed

lemma queued_after_claim:
  assumes "next_queued tbl = Some r"
  shows "queued_ids (apply_op (Claim now) tbl) = queued_ids tbl - {qi_id r}"
proof -
  have "apply_op (Claim now) tbl = map (\<lambda>q. if qi_id q = qi_id r then claim_row now q else q) tbl"
    by (simp add: claim_table assms update_where_def)
  then show ?thesis by (auto simp: queued_ids_def claim_row_def split: if_splits)
qed

lemma op_claimed_queued:
  assumes "well_formed tbl" and "op_claimed op tbl = Some i"
  shows "i \<in> queued_ids tbl \<and> i \<notin> queued_ids (apply_op op tbl) \<and> op_new_ids op = []"
proof -
  from assms(2) obtain now where op: "op = Claim now" by (cases op) simp_all
  with assms(2) obtain r where r: "next_queued tbl = Some r" "qi_id r = i"
    by (auto simp: claim_next_kitchen_run_def claim_row_def split: option.splits)
  then have "i \<in> queued_ids tbl" using next_queued_some [OF r(1)] by (auto simp: queued_ids_def)
  moreover have "i \<notin> queued_ids (apply_op op tbl)"
    unfolding op queued_after_claim [OF r(1)] using r(2) by simp
  ultimately show ?thesis using op by simp
qed

interpretation queue: run_store well_formed queued_ids "\<lambda>tbl. set (ids tbl)" apply_op op_new_ids op_claimed
proof
  show "queued_ids tbl \<subseteq> set (ids tbl)" for tbl by (auto simp: queued_ids_def ids_def)
qed (erule apply_op_well_formed, rule apply_op_ids, erule apply_op_queued, erule (1) op_claimed_queued)

lemma queued_ids_code: "queued_ids tbl = set (map qi_id (filter (\<lambda>r. qi_status r = Queued) tbl))"
  by (auto simp: queued_ids_def)

section \<open>Properties\<close>

text \<open>C6: Whatever operations the program performs, in whatever order, the queue never holds two
  rows with one id, nor two active rows (queued or running) with the same complete key: the
  repository, suite, platform, target and commit of a git run, the organisation, node and target of a
  node run. A row with an empty column in its key, such as an unknown commit, has no key: the
  unique index does not cover it, and the same instance can be queued again.\<close>

theorem queue_never_holds_duplicates:
  "distinct (ids (fold apply_op ops [])) \<and> distinct (active_keys (fold apply_op ops []))"
  using queue.inv_run [of "[]" ops] by (simp add: well_formed_def ids_def active_keys_def)

text \<open>As long as generated ids are not reused, no item is ever claimed twice, and so no run is
  started twice, whatever else happens to the queue in between.\<close>

theorem item_claimed_at_most_once:
  assumes "distinct (concat (map op_new_ids ops))"
  shows "distinct (claims apply_op op_claimed ops [])"
  by (rule queue.claims_distinct) (use assms in \<open>simp_all add: well_formed_def ids_def active_keys_def\<close>)

definition example_params :: "string \<Rightarrow> run_params" where
  "example_params sha = \<lparr>rp_run_type = ''git'', rp_git_repo_name = ''apt'', rp_git_repo_url = ''u'',
     rp_suite_name = ''default'', rp_platform_name = ''ubuntu'', rp_instance_name = ''default-ubuntu'',
     rp_target_chef_version = ''19'', rp_head_commit_sha = sha, rp_node_name = [],
     rp_organisation_name = [], rp_cookbook_source = [], rp_batch_id = [], rp_priority = 0,
     rp_retry_of = []\<rparr>"

definition example_ops :: "queue_op list" where
  "example_ops = [Enqueue ''a'' 1 (example_params ''c1''), Claim 2, Fail ''a'' 3 ''boom'' [],
     Retry ''b'' 4 ''a'', Claim 5, Claim 6]"

theorem item_claimed_at_most_once_witness:
  "claims apply_op op_claimed example_ops [] = [''a'', ''b'']
   \<and> distinct (claims apply_op op_claimed example_ops [])"
proof -
  have "claims apply_op op_claimed example_ops [] = [''a'', ''b'']" by code_simp
  moreover have "distinct (concat (map op_new_ids example_ops))" by (simp add: example_ops_def)
  ultimately show ?thesis using item_claimed_at_most_once by blast
qed

text \<open>A claim takes the queued item of the highest priority and, among those, one enqueued
  first, marks exactly it as running, and takes nothing only when nothing is queued.\<close>

theorem claim_takes_next:
  assumes "well_formed tbl"
  shows "(case claim_next_kitchen_run now tbl of
            (None, tbl') \<Rightarrow> tbl' = tbl \<and> queued_ids tbl = {}
          | (Some item, tbl') \<Rightarrow>
              qi_status item = Running
              \<and> (\<exists>r\<in>set tbl. qi_status r = Queued \<and> item = claim_row now r
                   \<and> (\<forall>q\<in>set tbl. qi_status q = Queued \<longrightarrow> \<not> goes_before q r)
                   \<and> tbl' = map (\<lambda>q. if q = r then item else q) tbl))"
proof (cases "next_queued tbl")
  case None
  then have "claim_next_kitchen_run now tbl = (None, tbl)" by (simp add: claim_next_kitchen_run_def)
  moreover have "queued_ids tbl = {}" using None by (auto simp: queued_ids_def next_queued_none)
  ultimately show ?thesis by simp
next
  case (Some r)
  note r = next_queued_some [OF Some]
  have "update_where (\<lambda>q. qi_id q = qi_id r) (claim_row now) tbl
      = map (\<lambda>q. if q = r then claim_row now r else q) tbl"
    unfolding update_where_def
    by (rule map_cong [OF refl]) (use unique_row [of tbl _ r] assms r in \<open>auto simp: well_formed_def\<close>)
  then show ?thesis using r Some by (auto simp: claim_next_kitchen_run_def claim_row_def)
qed

theorem claim_takes_next_witness:
  "\<exists>r\<in>set (fold apply_op [Enqueue ''a'' 1 (example_params ''c1'')] []). qi_status r = Queued
     \<and> fst (claim_next_kitchen_run 2 (fold apply_op [Enqueue ''a'' 1 (example_params ''c1'')] []))
         = Some (claim_row 2 r)"
proof -
  let ?tbl = "fold apply_op [Enqueue ''a'' 1 (example_params ''c1'')] []"
  have w: "well_formed ?tbl"
    by (rule queue.inv_run) (simp add: well_formed_def ids_def active_keys_def)
  have "queued_ids ?tbl \<noteq> {}"
    by (simp add: queued_ids_def enqueue_kitchen_run_def conflicts_def new_row_def ids_def
        active_keys_def example_params_def Let_def dedup_key_def git_key_def)
  with claim_takes_next [OF w, of 2] show ?thesis
    by (auto split: prod.splits option.splits)
qed

text \<open>The deduplication does not apply to a run whose commit is not known: an empty column is
  stored as NULL, which the unique index never holds equal, so the same instance is queued
  twice.\<close>

theorem unknown_commit_not_deduplicated:
  "queued_ids (fold apply_op [Enqueue ''a'' 1 (example_params []), Enqueue ''b'' 1 (example_params [])] [])
     = {''a'', ''b''}
   \<and> queued_ids (fold apply_op [Enqueue ''a'' 1 (example_params ''c1''),
        Enqueue ''b'' 1 (example_params ''c1'')] []) = {''a''}"
  unfolding queued_ids_code by code_simp

end
