(* ===== verification/Queue_Manager.thy ===== *)
theory Queue_Manager
  imports Kitchen_Queue
begin

text \<open>
  The worker pool (\<open>internal/kitchenqueue/manager.go\<close>) over the queue of \<open>Kitchen_Queue\<close>. Each
  goroutine running \<open>worker\<close> is in a \<open>phase\<close>: the point between two sections of its loop that
  other goroutines can observe. A section under the lock, a store call or the return of an
  external call (limiter, executor) is one step of the relation \<open>manager_step\<close>; which step comes
  next is free, as the scheduler is. A store call may fail. What \<open>Execute\<close> returns is free;
  \<open>Wait\<close> of the limiter fails only when its context is cancelled, as its interface says, and
  that context is cancelled by \<open>Stop\<close> alone.
\<close>

section \<open>State\<close>

datatype phase =
    Top
  | Past_stop
  | Ready
  | Sleeping
  | Waiting queue_item
  | Starting queue_item
  | Executing queue_item
  | Returned queue_item "string option" bool string
  | Recording queue_item "string option" bool string

text \<open>
  \<open>mg_running\<close> maps the id of an item to whether its context has been cancelled. The last two
  fields are history: the ids ever in the store and the calls of \<open>Execute\<close>.
\<close>

record manager =
  mg_table :: queue_table
  mg_workers :: "nat \<rightharpoonup> phase"
  mg_running :: "string \<rightharpoonup> bool"
  mg_target :: int
  mg_active :: int
  mg_next :: nat
  mg_stopped :: bool
  mg_known :: "string set"
  mg_executed :: "string list"

section \<open>Operations\<close>

definition goto :: "nat \<Rightarrow> phase \<Rightarrow> manager \<Rightarrow> manager" where
  "goto w p m = m\<lparr>mg_workers := (mg_workers m)(w \<mapsto> p)\<rparr>"

definition leave :: "nat \<Rightarrow> manager \<Rightarrow> manager" where
  "leave w m = m\<lparr>mg_workers := (mg_workers m)(w := None), mg_active := mg_active m - 1\<rparr>"

definition spawn_worker :: "manager \<Rightarrow> manager" where
  "spawn_worker m =
     m\<lparr>mg_active := mg_active m + 1, mg_workers := (mg_workers m)(mg_next m \<mapsto> Top),
       mg_next := mg_next m + 1\<rparr>"

primrec spawn_workers :: "nat \<Rightarrow> manager \<Rightarrow> manager" where
  "spawn_workers 0 m = m"
| "spawn_workers (Suc n) m = spawn_workers n (spawn_worker m)"

definition start_manager :: "nat \<Rightarrow> int \<Rightarrow> queue_table \<Rightarrow> manager" where
  "start_manager worker_count now tbl =
     spawn_workers worker_count
       \<lparr>mg_table = snd (mark_interrupted_kitchen_runs now tbl), mg_workers = Map.empty,
        mg_running = Map.empty, mg_target = int worker_count, mg_active = 0, mg_next = 0,
        mg_stopped = False, mg_known = set (ids tbl), mg_executed = []\<rparr>"

definition set_worker_count :: "int \<Rightarrow> manager \<Rightarrow> manager" where
  "set_worker_count n0 m =
     (let n = (if n0 < 1 then 1 else n0); m1 = m\<lparr>mg_target := n\<rparr>
      in if n > mg_active m then spawn_workers (nat (n - mg_active m)) m1 else m1)"

definition cancel_item :: "string \<Rightarrow> manager \<Rightarrow> bool \<times> manager" where
  "cancel_item i m =
     (case mg_running m i of
        None \<Rightarrow> (False, m)
      | Some _ \<Rightarrow> (True, m\<lparr>mg_running := (mg_running m)(i \<mapsto> True)\<rparr>))"

definition is_running :: "string \<Rightarrow> manager \<Rightarrow> bool" where
  "is_running i m = (mg_running m i \<noteq> None)"

definition stop_manager :: "manager \<Rightarrow> manager" where
  "stop_manager m = m\<lparr>mg_stopped := True\<rparr>"

definition stop_timeout :: "manager \<Rightarrow> manager" where
  "stop_timeout m = m\<lparr>mg_running := (\<lambda>i. map_option (\<lambda>_. True) (mg_running m i))\<rparr>"

text \<open>The end of \<open>executeItem\<close>: how the outcome of a run is stored; errors are dropped.\<close>

definition record_outcome ::
  "queue_item \<Rightarrow> string option \<Rightarrow> bool \<Rightarrow> string \<Rightarrow> int \<Rightarrow> queue_table \<Rightarrow> queue_table" where
  "record_outcome item exec_err was_cancelled out now tbl =
     (case exec_err of
        Some e \<Rightarrow>
          if was_cancelled then on_ok (cancel_kitchen_run (qi_id item) now tbl) tbl
          else on_ok (fail_kitchen_run (qi_id item) now e out tbl) tbl
      | None \<Rightarrow> on_ok (complete_kitchen_run (qi_id item) now out tbl) tbl)"

text \<open>
  \<open>handleKitchenQueueCancel\<close>: signal the worker, then update the row; whether the caller is told
  the item was cancelled.
\<close>

definition handle_kitchen_queue_cancel :: "string \<Rightarrow> int \<Rightarrow> manager \<Rightarrow> bool \<times> manager" where
  "handle_kitchen_queue_cancel i now m =
     (let m1 = snd (cancel_item i m)
      in case cancel_kitchen_run i now (mg_table m1) of
           Inl _ \<Rightarrow> (False, m1)
         | Inr t \<Rightarrow> (True, m1\<lparr>mg_table := t\<rparr>))"

section \<open>Steps\<close>

text \<open>The store operations of the rest of the program; claims and recovery are the manager's.\<close>

fun outside_op :: "queue_op \<Rightarrow> bool" where
  "outside_op (Enqueue i now p) = True"
| "outside_op (Retry i now j) = True"
| "outside_op (Cancel i now) = True"
| "outside_op (Cancel_batch b now) = True"
| "outside_op (Purge t) = True"
| "outside_op _ = False"

definition do_op :: "queue_op \<Rightarrow> manager \<Rightarrow> manager" where
  "do_op op m =
     m\<lparr>mg_table := apply_op op (mg_table m), mg_known := mg_known m \<union> set (op_new_ids op)\<rparr>"

definition begin_item :: "nat \<Rightarrow> queue_item \<Rightarrow> manager \<Rightarrow> manager" where
  "begin_item w item m =
     goto w (Executing item)
       (m\<lparr>mg_running := (mg_running m)(qi_id item \<mapsto> False),
          mg_executed := mg_executed m @ [qi_id item]\<rparr>)"

definition forget_item :: "string \<Rightarrow> manager \<Rightarrow> manager" where
  "forget_item i m = m\<lparr>mg_running := (mg_running m)(i := None)\<rparr>"

datatype event =
    By_worker nat
  | Cancel_call string
  | Resize int
  | Stop_call
  | Timeout
  | Store_op queue_op

inductive manager_step :: "bool \<Rightarrow> manager \<Rightarrow> event \<Rightarrow> manager \<Rightarrow> bool" for limited where
  top_stop: "mg_workers m w = Some Top \<Longrightarrow> mg_stopped m
    \<Longrightarrow> manager_step limited m (By_worker w) (leave w m)"
| top_go: "mg_workers m w = Some Top \<Longrightarrow> \<not> mg_stopped m
    \<Longrightarrow> manager_step limited m (By_worker w) (goto w Past_stop m)"
| scale_exit: "mg_workers m w = Some Past_stop \<Longrightarrow> mg_active m > mg_target m
    \<Longrightarrow> manager_step limited m (By_worker w) (leave w m)"
| scale_stay: "mg_workers m w = Some Past_stop \<Longrightarrow> \<not> mg_active m > mg_target m
    \<Longrightarrow> manager_step limited m (By_worker w) (goto w Ready m)"
| claim_error: "mg_workers m w = Some Ready
    \<Longrightarrow> manager_step limited m (By_worker w) (goto w Sleeping m)"
| claim_none: "mg_workers m w = Some Ready
    \<Longrightarrow> claim_next_kitchen_run now (mg_table m) = (None, tbl)
    \<Longrightarrow> manager_step limited m (By_worker w) (goto w Sleeping (m\<lparr>mg_table := tbl\<rparr>))"
| claim_some: "mg_workers m w = Some Ready
    \<Longrightarrow> claim_next_kitchen_run now (mg_table m) = (Some item, tbl)
    \<Longrightarrow> manager_step limited m (By_worker w)
          (goto w (if limited then Waiting item else Starting item) (m\<lparr>mg_table := tbl\<rparr>))"
| wake: "mg_workers m w = Some Sleeping
    \<Longrightarrow> manager_step limited m (By_worker w) (goto w Top m)"
| limiter_passes: "mg_workers m w = Some (Waiting item)
    \<Longrightarrow> manager_step limited m (By_worker w) (goto w (Starting item) m)"
| limiter_aborts: "mg_workers m w = Some (Waiting item) \<Longrightarrow> mg_stopped m
    \<Longrightarrow> manager_step limited m (By_worker w) (goto w Top m)"
| begins: "mg_workers m w = Some (Starting item)
    \<Longrightarrow> manager_step limited m (By_worker w) (begin_item w item m)"
| returns: "mg_workers m w = Some (Executing item)
    \<Longrightarrow> was_cancelled = (mg_running m (qi_id item) = Some True)
    \<Longrightarrow> manager_step limited m (By_worker w) (goto w (Returned item exec_err was_cancelled out) m)"
| forgets: "mg_workers m w = Some (Returned item exec_err was_cancelled out)
    \<Longrightarrow> manager_step limited m (By_worker w)
          (goto w (Recording item exec_err was_cancelled out) (forget_item (qi_id item) m))"
| records: "mg_workers m w = Some (Recording item exec_err was_cancelled out)
    \<Longrightarrow> tbl = record_outcome item exec_err was_cancelled out now (mg_table m)
    \<Longrightarrow> manager_step limited m (By_worker w) (goto w Top (m\<lparr>mg_table := tbl\<rparr>))"
| record_error: "mg_workers m w = Some (Recording item exec_err was_cancelled out)
    \<Longrightarrow> manager_step limited m (By_worker w) (goto w Top m)"
| cancels: "manager_step limited m (Cancel_call i) (snd (cancel_item i m))"
| resizes: "manager_step limited m (Resize n) (set_worker_count n m)"
| stops: "manager_step limited m Stop_call (stop_manager m)"
| times_out: "mg_stopped m \<Longrightarrow> manager_step limited m Timeout (stop_timeout m)"
| store: "outside_op op \<Longrightarrow> set (op_new_ids op) \<inter> mg_known m = {}
    \<Longrightarrow> manager_step limited m (Store_op op) (do_op op m)"

inductive_cases manager_step_cases: "manager_step limited m ev m'"

inductive manager_run :: "bool \<Rightarrow> manager \<Rightarrow> event list \<Rightarrow> manager \<Rightarrow> bool" for limited where
  run_nil: "manager_run limited m [] m"
| run_cons: "manager_step limited m ev m1 \<Longrightarrow> manager_run limited m1 evs m2
    \<Longrightarrow> manager_run limited m (ev # evs) m2"

inductive_simps manager_run_simps:
  "manager_run limited m [] m'"
  "manager_run limited m (ev # evs) m'"

definition reachable :: "bool \<Rightarrow> manager \<Rightarrow> bool" where
  "reachable limited m \<longleftrightarrow>
     (\<exists>worker_count now tbl evs. 0 < worker_count \<and> well_formed tbl
        \<and> manager_run limited (start_manager worker_count now tbl) evs m)"

section \<open>Runs\<close>

lemma manager_run_append:
  "manager_run limited m evs m1 \<Longrightarrow> manager_run limited m1 evs' m2
   \<Longrightarrow> manager_run limited m (evs @ evs') m2"
  by (induction rule: manager_run.induct) (auto intro: manager_run.intros)

lemma reachable_run: "reachable limited m \<Longrightarrow> manager_run limited m evs m' \<Longrightarrow> reachable limited m'"
  unfolding reachable_def by (meson manager_run_append)

lemma run_invariant:
  assumes "manager_run limited m evs m'" and "I m"
    and "\<And>m ev m'. I m \<Longrightarrow> manager_step limited m ev m' \<Longrightarrow> I m'"
  shows "I m'"
  using assms by (induction rule: manager_run.induct) blast+

lemma reachable_invariant:
  assumes "reachable limited m"
    and "\<And>n now tbl. 0 < n \<Longrightarrow> well_formed tbl \<Longrightarrow> I (start_manager n now tbl)"
    and "\<And>m ev m'. I m \<Longrightarrow> manager_step limited m ev m' \<Longrightarrow> I m'"
  shows "I m"
  using assms run_invariant unfolding reachable_def by metis

lemmas manager_defs =
  goto_def leave_def begin_item_def forget_item_def stop_manager_def stop_timeout_def do_op_def

section \<open>The size of the pool\<close>

definition counted :: "(nat \<rightharpoonup> phase) \<Rightarrow> int \<Rightarrow> nat \<Rightarrow> bool" where
  "counted ws n k \<longleftrightarrow> finite (dom ws) \<and> n = int (card (dom ws)) \<and> (\<forall>w\<in>dom ws. w < k)"

definition pool_ok :: "manager \<Rightarrow> bool" where
  "pool_ok m \<longleftrightarrow> counted (mg_workers m) (mg_active m) (mg_next m) \<and> 1 \<le> mg_target m
     \<and> (mg_stopped m \<or> mg_target m \<le> mg_active m)"

lemma spawn_workers_fields [simp]:
  "mg_table (spawn_workers n m) = mg_table m"
  "mg_running (spawn_workers n m) = mg_running m"
  "mg_target (spawn_workers n m) = mg_target m"
  "mg_active (spawn_workers n m) = mg_active m + int n"
  "mg_stopped (spawn_workers n m) = mg_stopped m"
  "mg_known (spawn_workers n m) = mg_known m"
  "mg_executed (spawn_workers n m) = mg_executed m"
  by (induction n arbitrary: m) (simp_all add: spawn_worker_def)

lemma counted_update: "counted ws n k \<Longrightarrow> ws w = Some p \<Longrightarrow> counted (ws(w \<mapsto> q)) n k"
  by (auto simp: counted_def insert_absorb domI)

lemma counted_remove:
  assumes "counted ws n k" and "ws w = Some p"
  shows "counted (ws(w := None)) (n - 1) k"
proof -
  have w: "w \<in> dom ws" using assms(2) by blast
  have "0 < card (dom ws)" using assms(1) w by (auto simp: counted_def card_gt_0_iff)
  then show ?thesis using assms(1) w
    by (auto simp: counted_def card_Diff_singleton of_nat_diff Suc_le_eq simp del: domIff)
qed

lemma spawn_worker_counted:
  assumes "counted (mg_workers m) (mg_active m) (mg_next m)"
  shows "counted (mg_workers (spawn_worker m)) (mg_active (spawn_worker m)) (mg_next (spawn_worker m))"
proof -
  have "mg_next m \<notin> dom (mg_workers m)" using assms by (auto simp: counted_def)
  with assms show ?thesis by (auto simp: counted_def spawn_worker_def less_Suc_eq simp del: domIff)
qed

lemma spawn_workers_counted:
  "counted (mg_workers m) (mg_active m) (mg_next m)
   \<Longrightarrow> counted (mg_workers (spawn_workers n m)) (mg_active m + int n) (mg_next (spawn_workers n m))"
proof (induction n arbitrary: m)
  case (Suc n)
  show ?case using Suc.IH [OF spawn_worker_counted [OF Suc.prems]]
    by (simp add: spawn_worker_def algebra_simps)
qed simp

lemma cancel_item_fields [simp]:
  "mg_table (snd (cancel_item i m)) = mg_table m"
  "mg_workers (snd (cancel_item i m)) = mg_workers m"
  "mg_target (snd (cancel_item i m)) = mg_target m"
  "mg_active (snd (cancel_item i m)) = mg_active m"
  "mg_next (snd (cancel_item i m)) = mg_next m"
  "mg_stopped (snd (cancel_item i m)) = mg_stopped m"
  "mg_known (snd (cancel_item i m)) = mg_known m"
  "mg_executed (snd (cancel_item i m)) = mg_executed m"
  "mg_running (snd (cancel_item i m)) j = None \<longleftrightarrow> mg_running m j = None"
  by (auto simp: cancel_item_def split: option.splits)

lemma set_worker_count_fields [simp]:
  "mg_table (set_worker_count n m) = mg_table m"
  "mg_running (set_worker_count n m) = mg_running m"
  "mg_target (set_worker_count n m) = max n 1"
  "mg_active (set_worker_count n m) = max (mg_active m) (max n 1)"
  "mg_stopped (set_worker_count n m) = mg_stopped m"
  "mg_known (set_worker_count n m) = mg_known m"
  "mg_executed (set_worker_count n m) = mg_executed m"
  by (auto simp: set_worker_count_def Let_def)

lemma set_worker_count_counted:
  assumes "counted (mg_workers m) (mg_active m) (mg_next m)"
  shows "counted (mg_workers (set_worker_count n m)) (max (mg_active m) (max n 1))
     (mg_next (set_worker_count n m))"
  using assms spawn_workers_counted [of "m\<lparr>mg_target := max n 1\<rparr>" "nat (max n 1 - mg_active m)"]
  by (auto simp: set_worker_count_def Let_def max_def split: if_splits)

lemma pool_step:
  assumes "pool_ok m" and "manager_step limited m ev m'"
  shows "pool_ok m'"
proof -
  have c: "counted (mg_workers m) (mg_active m) (mg_next m)"
      "1 \<le> mg_target m" "mg_stopped m \<or> mg_target m \<le> mg_active m"
    using assms(1) by (simp_all add: pool_ok_def)
  show ?thesis using assms(2)
  proof cases
    case (resizes n)
    then show ?thesis using c set_worker_count_counted [OF c(1)] by (auto simp: pool_ok_def)
  qed (use c in \<open>auto simp: pool_ok_def manager_defs counted_update counted_remove\<close>)
qed

lemma pool_start: "0 < n \<Longrightarrow> pool_ok (start_manager n now tbl)"
proof -
  assume n: "0 < n"
  define m where "m = \<lparr>mg_table = snd (mark_interrupted_kitchen_runs now tbl), mg_workers = Map.empty,
        mg_running = Map.empty, mg_target = int n, mg_active = 0, mg_next = 0,
        mg_stopped = False, mg_known = set (ids tbl), mg_executed = []\<rparr>"
  have "counted (mg_workers m) (mg_active m) (mg_next m)" by (simp add: m_def counted_def)
  from spawn_workers_counted [OF this, of n] show ?thesis
    using n by (simp add: pool_ok_def start_manager_def m_def)
qed

lemma pool_reachable: "reachable limited m \<Longrightarrow> pool_ok m"
  by (erule reachable_invariant) (use pool_start pool_step in blast)+

section \<open>The items the workers hold\<close>

fun item_of :: "phase \<Rightarrow> queue_item option" where
  "item_of (Waiting item) = Some item"
| "item_of (Starting item) = Some item"
| "item_of (Executing item) = Some item"
| "item_of (Returned item e c out) = Some item"
| "item_of (Recording item e c out) = Some item"
| "item_of _ = None"

definition item_id :: "phase \<Rightarrow> string option" where
  "item_id p = map_option qi_id (item_of p)"

lemma item_id_simps [simp]:
  "item_id Top = None" "item_id Past_stop = None" "item_id Ready = None" "item_id Sleeping = None"
  "item_id (Waiting item) = Some (qi_id item)" "item_id (Starting item) = Some (qi_id item)"
  "item_id (Executing item) = Some (qi_id item)" "item_id (Returned item e c out) = Some (qi_id item)"
  "item_id (Recording item e c out) = Some (qi_id item)"
  by (simp_all add: item_id_def)

fun not_begun :: "phase \<Rightarrow> bool" where
  "not_begun (Waiting item) = True"
| "not_begun (Starting item) = True"
| "not_begun _ = False"

fun in_execution :: "phase \<Rightarrow> bool" where
  "in_execution (Executing item) = True"
| "in_execution (Returned item e c out) = True"
| "in_execution _ = False"

text \<open>
  For the workers \<open>ws\<close>, the ids \<open>K\<close> ever stored, the queued ids \<open>Q\<close> and the executed ones \<open>E\<close>:
  an item held was stored, is not queued, is held once, and has not run when it is still to start.
\<close>

definition held_ok :: "(nat \<rightharpoonup> phase) \<Rightarrow> string set \<Rightarrow> string set \<Rightarrow> string list \<Rightarrow> bool" where
  "held_ok ws K Q E \<longleftrightarrow>
     (\<forall>w p i. ws w = Some p \<longrightarrow> item_id p = Some i \<longrightarrow>
        i \<in> K \<and> i \<notin> Q \<and> (not_begun p \<longrightarrow> i \<notin> set E)
        \<and> (\<forall>w' p'. ws w' = Some p' \<longrightarrow> item_id p' = Some i \<longrightarrow> w' = w))"

lemma held_empty [simp]: "held_ok (\<lambda>w. None) K Q E"
  by (simp add: held_ok_def)

lemma held_drop: "held_ok ws K Q E \<Longrightarrow> item_id q = None \<Longrightarrow> held_ok (ws(w \<mapsto> q)) K Q E"
  by (fastforce simp: held_ok_def split: if_splits)

lemma held_remove: "held_ok ws K Q E \<Longrightarrow> held_ok (ws(w := None)) K Q E"
  by (fastforce simp: held_ok_def split: if_splits)

lemma held_same:
  assumes "held_ok ws K Q E" and "ws w = Some p" and "item_id q = item_id p"
    and "not_begun q \<longrightarrow> not_begun p"
  shows "held_ok (ws(w \<mapsto> q)) K Q E"
proof -
  have "\<exists>p'. ws v = Some p' \<and> item_id p' = item_id r \<and> (not_begun r \<longrightarrow> not_begun p')"
    if "(ws(w \<mapsto> q)) v = Some r" for v r
    using that assms(2-4) by (cases "v = w") auto
  then show ?thesis using assms(1) unfolding held_ok_def by metis
qed

lemma held_mono:
  "held_ok ws K Q E \<Longrightarrow> K \<subseteq> K' \<Longrightarrow> Q' \<inter> K \<subseteq> Q \<Longrightarrow> held_ok ws K' Q' E"
  unfolding held_ok_def by blast

lemma held_claim:
  assumes "held_ok ws K Q E" and "item_id q = Some i" and "i \<in> Q" "i \<in> K" "i \<notin> Q'" "i \<notin> set E"
    and "Q' \<subseteq> Q"
  shows "held_ok (ws(w \<mapsto> q)) K Q' E"
proof -
  have "item_id p \<noteq> Some i" if "ws v = Some p" for v p
    using assms(1,3) that unfolding held_ok_def by blast
  then show ?thesis using assms unfolding held_ok_def
    by (auto split: if_splits simp del: not_begun.simps)
qed

lemma held_begin:
  assumes "held_ok ws K Q E" and "ws w = Some p" and "item_id p = Some i" and "item_id q = Some i"
    and "\<not> not_begun q"
  shows "held_ok (ws(w \<mapsto> q)) K Q (E @ [i])"
proof -
  have same: "held_ok (ws(w \<mapsto> q)) K Q E" using held_same [OF assms(1,2)] assms by simp
  have "j \<noteq> i" if "(ws(w \<mapsto> q)) v = Some r" "item_id r = Some j" "not_begun r" for v r j
    using same that assms(4,5) unfolding held_ok_def by (metis fun_upd_same option.inject)
  then show ?thesis using same unfolding held_ok_def by (auto simp del: fun_upd_apply)
qed

lemma held_spawn:
  "held_ok (mg_workers m) K Q E \<Longrightarrow> held_ok (mg_workers (spawn_workers n m)) K Q E"
  by (induction n arbitrary: m) (simp_all add: spawn_worker_def held_drop)

definition items_ok :: "manager \<Rightarrow> bool" where
  "items_ok m \<longleftrightarrow>
     well_formed (mg_table m) \<and> set (ids (mg_table m)) \<subseteq> mg_known m
     \<and> held_ok (mg_workers m) (mg_known m) (queued_ids (mg_table m)) (mg_executed m)
     \<and> distinct (mg_executed m) \<and> set (mg_executed m) \<subseteq> mg_known m
     \<and> set (mg_executed m) \<inter> queued_ids (mg_table m) = {}"

text \<open>A store operation whose new ids are fresh leaves what the workers hold alone.\<close>

lemma items_op:
  assumes "items_ok m" and "set (op_new_ids op) \<inter> mg_known m = {}"
  shows "well_formed (apply_op op (mg_table m))"
    and "set (ids (apply_op op (mg_table m))) \<subseteq> mg_known m \<union> set (op_new_ids op)"
    and "queued_ids (apply_op op (mg_table m)) \<inter> mg_known m \<subseteq> queued_ids (mg_table m)"
  using assms queue.inv_step [of "mg_table m" op] queue.known_step [of "mg_table m" op]
    queue.queued_step [of "mg_table m" op]
  by (auto simp: items_ok_def)

lemma items_do_op:
  assumes "items_ok m" and "set (op_new_ids op) \<inter> mg_known m = {}"
  shows "items_ok (do_op op m)"
proof -
  have "set (mg_executed m) \<inter> queued_ids (apply_op op (mg_table m)) = {}"
    using assms(1) items_op(3) [OF assms] by (auto simp: items_ok_def)
  then show ?thesis
    using items_op(1,2) [OF assms] assms(1)
    by (auto simp: items_ok_def do_op_def intro: held_mono [OF _ _ items_op(3) [OF assms]])
qed

lemma record_outcome_is_op:
  "\<exists>op. op_new_ids op = [] \<and> record_outcome item e c out now tbl = apply_op op tbl"
proof -
  let ?i = "qi_id item"
  consider "record_outcome item e c out now tbl = apply_op (Cancel ?i now) tbl"
    | x where "record_outcome item e c out now tbl = apply_op (Fail ?i now x out) tbl"
    | "record_outcome item e c out now tbl = apply_op (Complete ?i now out) tbl"
    by (cases e; cases c) (simp_all add: record_outcome_def)
  then show ?thesis by (metis op_new_ids.simps(3,4,5,6,7))
qed

lemma items_claim:
  assumes "items_ok m" and "claim_next_kitchen_run now (mg_table m) = (Some item, tbl)"
    and "item_id q = Some (qi_id item)"
  shows "items_ok (goto w q (m\<lparr>mg_table := tbl\<rparr>))"
proof -
  have wf: "well_formed (mg_table m)" using assms(1) by (simp add: items_ok_def)
  have tbl: "apply_op (Claim now) (mg_table m) = tbl"
    "op_claimed (Claim now) (mg_table m) = Some (qi_id item)"
    using assms(2) by simp_all
  have id: "qi_id item \<in> queued_ids (mg_table m)" "qi_id item \<notin> queued_ids tbl"
    using queue.claimed_queued [OF wf tbl(2)] tbl(1) by simp_all
  have sub: "queued_ids tbl \<subseteq> queued_ids (mg_table m)"
    using queue.queued_step [OF wf, of "Claim now"] tbl(1) by simp
  have ids: "set (ids tbl) \<subseteq> mg_known m"
    using queue.known_step [OF wf, of "Claim now"] tbl(1) assms(1) by (auto simp: items_ok_def)
  have "held_ok ((mg_workers m)(w \<mapsto> q)) (mg_known m) (queued_ids tbl) (mg_executed m)"
    by (rule held_claim [OF _ assms(3) id(1) _ id(2) _ sub])
       (use assms(1) id(1) queue.queued_known in \<open>auto simp: items_ok_def\<close>)
  then show ?thesis
    using assms(1) ids sub queue.inv_step [OF wf, of "Claim now"] tbl(1)
    by (auto simp: items_ok_def goto_def)
qed

lemma items_goto:
  assumes "items_ok m" and "mg_workers m w = Some p"
    and "item_id q = None \<or> (item_id q = item_id p \<and> (not_begun q \<longrightarrow> not_begun p))"
  shows "items_ok (goto w q m)"
  using assms held_drop held_same by (auto simp: items_ok_def goto_def)

lemma items_cong:
  assumes "items_ok m" and "mg_table m' = mg_table m" "mg_workers m' = mg_workers m"
    and "mg_known m' = mg_known m" "mg_executed m' = mg_executed m"
  shows "items_ok m'"
  using assms by (simp add: items_ok_def)

lemma items_begin:
  assumes "items_ok m" and "mg_workers m w = Some (Starting item)"
  shows "items_ok (begin_item w item m)"
proof -
  have h: "held_ok (mg_workers m) (mg_known m) (queued_ids (mg_table m)) (mg_executed m)"
    using assms(1) by (simp add: items_ok_def)
  have "qi_id item \<in> mg_known m" "qi_id item \<notin> queued_ids (mg_table m)" "qi_id item \<notin> set (mg_executed m)"
    using h assms(2) unfolding held_ok_def by fastforce+
  then show ?thesis
    using assms(1) held_begin [OF h assms(2), of "qi_id item" "Executing item"]
    by (auto simp: items_ok_def begin_item_def goto_def)
qed

lemma items_step:
  assumes "items_ok m" and "manager_step limited m ev m'"
  shows "items_ok m'"
  using assms(2)
proof cases
  case (claim_some w now item tbl)
  show ?thesis unfolding claim_some(2)
    by (rule items_claim [OF assms(1) claim_some(4)]) simp
next
  case (claim_none w now tbl)
  then have "tbl = mg_table m" by (simp add: claim_next_kitchen_run_def split: option.splits)
  then have "m' = goto w Sleeping m" by (simp add: claim_none)
  then show ?thesis using items_goto [OF assms(1) claim_none(3), of Sleeping] by simp
next
  case (begins w item)
  then show ?thesis using items_begin [OF assms(1)] by simp
next
  case (records w item e c out tbl now)
  obtain op where op: "op_new_ids op = []" "tbl = apply_op op (mg_table m)"
    using record_outcome_is_op [of item e c out now "mg_table m"] records(4) by blast
  have "m' = goto w Top (do_op op m)"
    unfolding records(2) op(2) do_op_def by (simp add: op(1))
  moreover have "items_ok (do_op op m)" by (rule items_do_op) (simp_all add: assms(1) op)
  moreover have "mg_workers (do_op op m) w = Some (Recording item e c out)"
    using records by (simp add: do_op_def)
  ultimately show ?thesis using items_goto by simp
next
  case (forgets w item e c out)
  have "items_ok (forget_item (qi_id item) m)"
    by (rule items_cong [OF assms(1)]) (simp_all add: forget_item_def)
  moreover have "mg_workers (forget_item (qi_id item) m) w = Some (Returned item e c out)"
    using forgets by (simp add: forget_item_def)
  ultimately show ?thesis using items_goto forgets by simp
next
  case (store op)
  then show ?thesis using items_do_op [OF assms(1)] by simp
next
  case (resizes n)
  have "held_ok (mg_workers m') (mg_known m) (queued_ids (mg_table m)) (mg_executed m)"
    using assms(1) resizes by (auto simp: items_ok_def set_worker_count_def Let_def held_spawn)
  then show ?thesis using assms(1) resizes by (simp add: items_ok_def)
next
  case (top_stop w)
  then show ?thesis using assms(1) held_remove by (simp add: items_ok_def leave_def)
next
  case (scale_exit w)
  then show ?thesis using assms(1) held_remove by (simp add: items_ok_def leave_def)
next
  case cancels
  then show ?thesis using items_cong [OF assms(1)] by simp
next
  case stops
  then show ?thesis using items_cong [OF assms(1)] by (simp add: stop_manager_def)
next
  case times_out
  then show ?thesis using items_cong [OF assms(1)] by (simp add: stop_timeout_def)
qed (use items_goto [OF assms(1)] in \<open>simp_all\<close>)

lemma items_start:
  assumes "well_formed tbl"
  shows "items_ok (start_manager n now tbl)"
proof -
  have t: "snd (mark_interrupted_kitchen_runs now tbl) = apply_op (Mark_interrupted now) tbl" by simp
  have "set (ids (apply_op (Mark_interrupted now) tbl)) \<subseteq> set (ids tbl)"
    using queue.known_step [OF assms, of "Mark_interrupted now"] by simp
  then show ?thesis
    using queue.inv_step [OF assms, of "Mark_interrupted now"]
    by (auto simp: items_ok_def start_manager_def t simp del: apply_op.simps
        intro!: held_spawn)
qed

lemma items_reachable: "reachable limited m \<Longrightarrow> items_ok m"
  by (erule reachable_invariant) (use items_start items_step in blast)+

section \<open>The running map\<close>

definition exec_id :: "phase \<Rightarrow> string option" where
  "exec_id p = (if in_execution p then item_id p else None)"

definition exec_at :: "(nat \<rightharpoonup> phase) \<Rightarrow> nat \<rightharpoonup> string" where
  "exec_at ws w = Option.bind (ws w) exec_id"

definition executing :: "(nat \<rightharpoonup> phase) \<Rightarrow> string set" where
  "executing ws = ran (exec_at ws)"

definition running_ok :: "manager \<Rightarrow> bool" where
  "running_ok m \<longleftrightarrow> items_ok m \<and> dom (mg_running m) = executing (mg_workers m)"

lemma exec_at_update: "exec_at (ws(w := x)) = (exec_at ws)(w := Option.bind x exec_id)"
  by (simp add: exec_at_def fun_eq_iff)

lemma ran_add: "f w = None \<Longrightarrow> ran (f(w := y)) = ran f \<union> set_option y"
proof -
  assume f: "f w = None"
  have "(\<exists>a. (f(w := y)) a = Some x) \<longleftrightarrow> (\<exists>a. f a = Some x) \<or> y = Some x" for x
    using f by (metis fun_upd_apply option.distinct(1))
  then show ?thesis by (auto simp: ran_def simp del: fun_upd_apply)
qed

lemma ran_drop:
  assumes "f w = Some i" and "\<And>v. f v = Some i \<Longrightarrow> v = w"
  shows "ran (f(w := None)) = ran f - {i}"
proof -
  have "(\<exists>a. (f(w := None)) a = Some x) \<longleftrightarrow> (\<exists>a. f a = Some x) \<and> x \<noteq> i" for x
    using assms by (metis fun_upd_apply option.distinct(1) option.inject)
  then show ?thesis by (auto simp: ran_def simp del: fun_upd_apply)
qed

lemma executing_update:
  assumes "exec_at ws w = None"
  shows "executing (ws(w := x)) = executing ws \<union> set_option (Option.bind x exec_id)"
  unfolding executing_def exec_at_update by (rule ran_add) (rule assms)

lemma executing_same:
  assumes "exec_at ws w = exec_id q"
  shows "executing (ws(w \<mapsto> q)) = executing ws"
  unfolding executing_def exec_at_update using assms by (simp add: fun_upd_idem)

lemma executing_forget:
  assumes "held_ok ws K Q E" and "ws w = Some p" and "item_id p = Some i" and "exec_id q = None"
    and "in_execution p"
  shows "executing (ws(w \<mapsto> q)) = executing ws - {i}"
proof -
  have only: "v = w" if "exec_at ws v = Some i" for v
  proof -
    from that obtain r where r: "ws v = Some r" "item_id r = Some i"
      by (auto simp: exec_at_def exec_id_def Option.bind_eq_Some_conv split: if_splits)
    with assms(1-3) show ?thesis unfolding held_ok_def by blast
  qed
  have "exec_at ws w = Some i" using assms(2,3,5) by (simp add: exec_at_def exec_id_def)
  from ran_drop [where f = "exec_at ws", OF this only] show ?thesis
    unfolding executing_def exec_at_update by (simp add: assms(4))
qed

lemma executing_spawn:
  "counted (mg_workers m) (mg_active m) (mg_next m)
   \<Longrightarrow> executing (mg_workers (spawn_workers n m)) = executing (mg_workers m)"
proof (induction n arbitrary: m)
  case (Suc n)
  have "mg_workers m (mg_next m) = None" using Suc.prems by (force simp: counted_def)
  then have "executing (mg_workers (spawn_worker m)) = executing (mg_workers m)"
    by (simp add: spawn_worker_def executing_update exec_at_def exec_id_def)
  then show ?case using Suc.IH [OF spawn_worker_counted [OF Suc.prems]] by simp
qed simp

lemma running_step:
  assumes "running_ok m" and "pool_ok m" and "manager_step limited m ev m'"
  shows "running_ok m'"
proof -
  have items: "items_ok m'" using items_step assms by (auto simp: running_ok_def)
  have dom: "dom (mg_running m) = executing (mg_workers m)" using assms(1) by (simp add: running_ok_def)
  have "dom (mg_running m') = executing (mg_workers m')" using assms(3)
  proof cases
    case (forgets w item e c out)
    have "held_ok (mg_workers m) (mg_known m) (queued_ids (mg_table m)) (mg_executed m)"
      using assms(1) by (simp add: running_ok_def items_ok_def)
    from executing_forget [OF this forgets(3), of "qi_id item" "Recording item e c out"] show ?thesis
      by (simp add: forgets(2) goto_def forget_item_def dom exec_id_def)
  next
    case (returns w item c e out)
    then show ?thesis
      using executing_same [of "mg_workers m" w "Returned item e c out"]
      by (simp add: goto_def dom exec_at_def exec_id_def)
  next
    case (resizes n)
    then show ?thesis using assms(2) executing_spawn [of "m\<lparr>mg_target := max n 1\<rparr>"]
      by (auto simp: set_worker_count_def Let_def pool_ok_def max_def dom)
  next
    case (times_out)
    then show ?thesis using dom by (auto simp: stop_timeout_def dom_def)
  next
    case (cancels i)
    have "dom (mg_running (snd (cancel_item i m))) = dom (mg_running m)" by (auto simp: dom_def)
    then show ?thesis using cancels dom by simp
  qed (simp_all add: manager_defs dom executing_update exec_at_def exec_id_def)
  with items show ?thesis by (simp add: running_ok_def)
qed

lemma running_reachable: "reachable limited m \<Longrightarrow> running_ok m"
proof -
  assume r: "reachable limited m"
  have "running_ok m \<and> pool_ok m"
  proof (rule reachable_invariant [OF r])
    fix n now tbl assume "0 < (n::nat)" "well_formed tbl"
    moreover have "dom (mg_running (start_manager n now tbl)) = executing (mg_workers (start_manager n now tbl))"
      by (simp add: start_manager_def executing_spawn counted_def)
         (simp add: executing_def exec_at_def ran_def)
    ultimately show "running_ok (start_manager n now tbl) \<and> pool_ok (start_manager n now tbl)"
      using items_start pool_start by (simp add: running_ok_def)
  qed (use running_step pool_step in blast)
  then show ?thesis by simp
qed

section \<open>Shutdown\<close>

text \<open>The steps a worker can still take once \<open>stopCh\<close> is closed.\<close>

fun rank :: "phase \<Rightarrow> nat" where
  "rank Top = 1"
| "rank Sleeping = 2"
| "rank (Recording item e c out) = 2"
| "rank (Returned item e c out) = 3"
| "rank (Executing item) = 4"
| "rank (Starting item) = 5"
| "rank (Waiting item) = 6"
| "rank Ready = 7"
| "rank Past_stop = 8"

definition work :: "(nat \<rightharpoonup> phase) \<Rightarrow> nat" where
  "work ws = (\<Sum>w\<in>dom ws. rank (the (ws w)))"

lemma work_update:
  assumes "finite (dom ws)" and "ws w = Some p"
  shows "work (ws(w \<mapsto> q)) + rank p = work ws + rank q"
    and "work (ws(w := None)) + rank p = work ws"
proof -
  have w: "w \<in> dom ws" using assms(2) by blast
  have rest: "(\<Sum>v\<in>dom ws - {w}. rank (the ((ws(w := r)) v))) = (\<Sum>v\<in>dom ws - {w}. rank (the (ws v)))" for r
    by (rule sum.cong) auto
  have "work ws = rank p + (\<Sum>v\<in>dom ws - {w}. rank (the (ws v)))"
    using sum.remove [OF assms(1) w, of "\<lambda>v. rank (the (ws v))"] assms(2) by (simp add: work_def)
  moreover have "work (ws(w \<mapsto> q)) = rank q + (\<Sum>v\<in>dom ws - {w}. rank (the (ws v)))"
    unfolding rest [of "Some q", symmetric]
    using sum.remove [OF assms(1) w, of "\<lambda>v. rank (the ((ws(w \<mapsto> q)) v))"] assms(1)
    by (simp add: work_def insert_absorb [OF w])
  moreover have "work (ws(w := None)) = (\<Sum>v\<in>dom ws - {w}. rank (the (ws v)))"
    using rest [of None] by (simp add: work_def)
  ultimately show "work (ws(w \<mapsto> q)) + rank p = work ws + rank q"
    "work (ws(w := None)) + rank p = work ws" by simp_all
qed

lemma rank_bounds: "1 \<le> rank p \<and> rank p \<le> 8"
  by (cases p) simp_all

lemma work_bound: "finite (dom ws) \<Longrightarrow> work ws \<le> 8 * card (dom ws)"
  using sum_bounded_above [of "dom ws" "\<lambda>w. rank (the (ws w))" 8] rank_bounds
  by (simp add: work_def mult.commute)

fun is_worker :: "event \<Rightarrow> bool" where
  "is_worker (By_worker w) = True"
| "is_worker _ = False"

fun is_resize :: "event \<Rightarrow> bool" where
  "is_resize (Resize n) = True"
| "is_resize _ = False"

lemma stopped_step:
  assumes "manager_step limited m ev m'" and "mg_stopped m" and "pool_ok m" and "\<not> is_resize ev"
  shows "mg_stopped m' \<and> work (mg_workers m') + (if is_worker ev then 1 else 0) \<le> work (mg_workers m)"
proof -
  have fin: "finite (dom (mg_workers m))" using assms(3) by (simp add: pool_ok_def counted_def)
  note upd = work_update(1) [OF fin] and rem = work_update(2) [OF fin]
  have go: "work ((mg_workers m)(w \<mapsto> q)) < work (mg_workers m)"
    if "mg_workers m w = Some p" "rank q < rank p" for w p q
    using upd [OF that(1), of q] that(2) by simp
  have out: "work ((mg_workers m)(w := None)) < work (mg_workers m)"
    if "mg_workers m w = Some p" for w p
    using rem [OF that] rank_bounds [of p] by simp
  show ?thesis using assms(1,2,4)
    by cases (auto simp: manager_defs Suc_le_eq intro: go out)
qed

lemma stopped_run:
  assumes "manager_run limited m evs m'" and "mg_stopped m" and "pool_ok m"
    and "list_all (\<lambda>ev. \<not> is_resize ev) evs"
  shows "work (mg_workers m') + List.length (filter is_worker evs) \<le> work (mg_workers m)"
  using assms
proof (induction rule: manager_run.induct)
  case (run_cons m ev m1 evs m2)
  have s: "mg_stopped m1" "work (mg_workers m1) + (if is_worker ev then 1 else 0) \<le> work (mg_workers m)"
    using stopped_step [OF run_cons.hyps(1) run_cons.prems(1,2)] run_cons.prems(3) by simp_all
  have "work (mg_workers m2) + List.length (filter is_worker evs) \<le> work (mg_workers m1)"
    by (rule run_cons.IH [OF s(1) pool_step [OF run_cons.prems(2) run_cons.hyps(1)]])
       (use run_cons.prems(3) in simp)
  with s(2) show ?case by (auto split: if_splits)
qed simp

text \<open>Every worker that is still there can take a step.\<close>

lemma worker_can_step:
  assumes "mg_workers m w = Some p"
  shows "\<exists>m'. manager_step limited m (By_worker w) m'"
proof (cases p)
  case Top
  then show ?thesis using assms top_stop [of m w] top_go [of m w] by blast
next
  case Past_stop
  then show ?thesis using assms scale_exit [of m w] scale_stay [of m w] by blast
next
  case Ready
  then show ?thesis using assms claim_error [of m w] by blast
next
  case Sleeping
  then show ?thesis using assms wake [of m w] by blast
next
  case (Waiting item)
  then show ?thesis using assms limiter_passes [of m w item] by blast
next
  case (Starting item)
  then show ?thesis using assms begins [of m w item] by blast
next
  case (Executing item)
  then show ?thesis using assms returns [of m w item] by blast
next
  case (Returned item e c out)
  then show ?thesis using assms forgets [of m w item e c out] by blast
next
  case (Recording item e c out)
  then show ?thesis using assms record_error [of m w item e c out] by blast
qed

section \<open>Cancelling an item that waits for the limiter\<close>

lemma status_after_cancel:
  assumes "well_formed tbl" and "status_of tbl i = Some s" and "active s"
  shows "\<exists>tbl'. cancel_kitchen_run i now tbl = Inr tbl' \<and> status_of tbl' i = Some Cancelled
     \<and> tbl' = apply_op (Cancel i now) tbl"
proof -
  have d: "distinct (ids tbl)" using assms(1) by (simp add: well_formed_def)
  from assms(2) obtain r where r: "r \<in> set tbl" "qi_id r = i" "qi_status r = s"
    using status_of_Some [OF d] by blast
  define tbl' where "tbl' = update_where (\<lambda>r. qi_id r = i \<and> active (qi_status r)) (cancel_row now) tbl"
  have "list_ex (\<lambda>r. qi_id r = i \<and> active (qi_status r)) tbl"
    using r assms(3) by (auto simp: list_ex_iff)
  then have c: "cancel_kitchen_run i now tbl = Inr tbl'"
    by (simp add: cancel_kitchen_run_def update_checked_def tbl'_def)
  have "ids tbl' = ids tbl" unfolding tbl'_def by (rule ids_update_where) (simp add: cancel_row_def)
  then have d': "distinct (ids tbl')" using d by simp
  have "cancel_row now r \<in> set tbl'" using r assms(3) by (force simp: tbl'_def update_where_def)
  then have "status_of tbl' i = Some Cancelled"
    unfolding status_of_Some [OF d'] by (rule bexI [rotated]) (simp add: cancel_row_def r(2))
  then show ?thesis using c by (simp add: on_ok_def)
qed

lemma cancel_while_waiting:
  assumes "reachable limited m" and "mg_workers m w = Some (Waiting item)"
    and "status_of (mg_table m) (qi_id item) = Some Running"
  shows "cancel_item (qi_id item) m = (False, m)"
    and "\<exists>t. handle_kitchen_queue_cancel (qi_id item) now m = (True, m\<lparr>mg_table := t\<rparr>)
           \<and> status_of t (qi_id item) = Some Cancelled
           \<and> manager_run limited m [Store_op (Cancel (qi_id item) now), By_worker w, By_worker w]
               (begin_item w item (goto w (Starting item) (m\<lparr>mg_table := t\<rparr>)))"
proof -
  let ?i = "qi_id item"
  have ok: "running_ok m" by (rule running_reachable [OF assms(1)])
  have held: "held_ok (mg_workers m) (mg_known m) (queued_ids (mg_table m)) (mg_executed m)"
    and wf: "well_formed (mg_table m)" using ok by (simp_all add: running_ok_def items_ok_def)
  have "?i \<notin> executing (mg_workers m)"
  proof
    assume "?i \<in> executing (mg_workers m)"
    then obtain v p where p: "mg_workers m v = Some p" "in_execution p" "item_id p = Some ?i"
      by (auto simp: executing_def exec_at_def exec_id_def ran_def Option.bind_eq_Some_conv
          split: if_splits)
    then have "v = w" using held assms(2) unfolding held_ok_def by (metis item_id_simps(5))
    then show False using p(1,2) assms(2) by auto
  qed
  then have none: "mg_running m ?i = None" using ok by (auto simp: running_ok_def)
  then show c: "cancel_item ?i m = (False, m)" by (simp add: cancel_item_def)
  obtain t where t: "cancel_kitchen_run ?i now (mg_table m) = Inr t" "status_of t ?i = Some Cancelled"
    "t = apply_op (Cancel ?i now) (mg_table m)"
    using status_after_cancel [OF wf assms(3), of now] by auto
  have s1: "manager_step limited m (Store_op (Cancel ?i now)) (m\<lparr>mg_table := t\<rparr>)"
    using store [of "Cancel ?i now" m limited] t(3) by (simp add: do_op_def)
  have s2: "manager_step limited (m\<lparr>mg_table := t\<rparr>) (By_worker w) (goto w (Starting item) (m\<lparr>mg_table := t\<rparr>))"
    by (rule limiter_passes) (simp add: assms(2))
  have s3: "manager_step limited (goto w (Starting item) (m\<lparr>mg_table := t\<rparr>)) (By_worker w)
      (begin_item w item (goto w (Starting item) (m\<lparr>mg_table := t\<rparr>)))"
    by (rule begins) (simp add: goto_def)
  have "handle_kitchen_queue_cancel ?i now m = (True, m\<lparr>mg_table := t\<rparr>)"
    by (simp add: handle_kitchen_queue_cancel_def c t(1))
  then show "\<exists>t. handle_kitchen_queue_cancel ?i now m = (True, m\<lparr>mg_table := t\<rparr>)
           \<and> status_of t ?i = Some Cancelled
           \<and> manager_run limited m [Store_op (Cancel ?i now), By_worker w, By_worker w]
               (begin_item w item (goto w (Starting item) (m\<lparr>mg_table := t\<rparr>)))"
    using t(2) s1 s2 s3 by (meson manager_run.intros)
qed

section \<open>Properties\<close>

text \<open>A pool with one worker over one queued item, and that worker's first steps.\<close>

definition example_table :: queue_table where
  "example_table = fold apply_op [Enqueue ''a'' 1 (example_params ''c1'')] []"

definition example_item :: queue_item where
  "example_item = claim_row 3 (new_row ''a'' 1 (default_priority (example_params ''c1'')))"

definition example_waiting :: manager where
  "example_waiting =
     goto 0 (Waiting example_item)
       ((goto 0 Ready (goto 0 Past_stop (start_manager (Suc 0) 2 example_table)))
          \<lparr>mg_table := [example_item]\<rparr>)"

lemma example_table_row:
  "example_table = [new_row ''a'' 1 (default_priority (example_params ''c1''))]"
  by code_simp

lemma example_start:
  "mg_executed (start_manager (Suc 0) 2 example_table) = []"
  "mg_table (start_manager (Suc 0) 2 example_table) = example_table"
  "mg_workers (start_manager (Suc 0) 2 example_table) = [0 \<mapsto> Top]"
  "\<not> mg_stopped (start_manager (Suc 0) 2 example_table)"
  "mg_active (start_manager (Suc 0) 2 example_table) = 1"
  "mg_target (start_manager (Suc 0) 2 example_table) = 1"
  by (simp_all add: start_manager_def spawn_worker_def mark_interrupted_kitchen_runs_def
      example_table_row new_row_def update_where_def)

lemma example_claim:
  "claim_next_kitchen_run 3 example_table = (Some example_item, [example_item])"
  unfolding example_table_row example_item_def by code_simp

lemma example_reachable: "reachable True example_waiting"
proof -
  let ?m0 = "start_manager (Suc 0) 2 example_table"
  have s1: "manager_step True ?m0 (By_worker 0) (goto 0 Past_stop ?m0)"
    by (rule top_go) (simp_all add: example_start)
  have s2: "manager_step True (goto 0 Past_stop ?m0) (By_worker 0) (goto 0 Ready (goto 0 Past_stop ?m0))"
    by (rule scale_stay) (simp_all add: example_start goto_def)
  have s3: "manager_step True (goto 0 Ready (goto 0 Past_stop ?m0)) (By_worker 0) example_waiting"
    using claim_some [of "goto 0 Ready (goto 0 Past_stop ?m0)" 0 3 example_item "[example_item]" True]
    by (simp add: example_waiting_def goto_def example_start example_claim)
  have "well_formed example_table" unfolding example_table_def by (rule queue.inv_run) (simp add: well_formed_def ids_def active_keys_def)
  moreover have "manager_run True ?m0 [By_worker 0, By_worker 0, By_worker 0] example_waiting"
    by (rule run_cons [OF s1 run_cons [OF s2 run_cons [OF s3 run_nil]]])
  ultimately show ?thesis unfolding reachable_def by (intro exI conjI) simp_all
qed

lemma example_waiting_facts:
  "mg_workers example_waiting 0 = Some (Waiting example_item)"
  "status_of (mg_table example_waiting) (qi_id example_item) = Some Running"
  "mg_executed example_waiting = []" "mg_active example_waiting = 1" "mg_target example_waiting = 1"
  "qi_id example_item = ''a''"
  by (simp_all add: example_waiting_def goto_def status_of_def example_item_def claim_row_def
      example_start new_row_def)

text \<open>C2: However the workers, the web handlers, shutdown and the rest of the program interleave,
  the executor is called at most once for an item, no two workers hold the same item, and the map
  of running items holds exactly the items whose execution has begun and not ended.\<close>

theorem executed_at_most_once:
  assumes "reachable limited m"
  shows "distinct (mg_executed m)
         \<and> (\<forall>w w' p p'. mg_workers m w = Some p \<and> mg_workers m w' = Some p'
              \<and> item_of p \<noteq> None \<and> item_id p = item_id p' \<longrightarrow> w = w')
         \<and> (\<forall>i. is_running i m \<longleftrightarrow> (\<exists>w p. mg_workers m w = Some p \<and> in_execution p \<and> item_id p = Some i))"
proof -
  have ok: "running_ok m" by (rule running_reachable [OF assms])
  then have "distinct (mg_executed m)"
    and held: "held_ok (mg_workers m) (mg_known m) (queued_ids (mg_table m)) (mg_executed m)"
    and dom: "dom (mg_running m) = executing (mg_workers m)"
    by (simp_all add: running_ok_def items_ok_def)
  moreover have "w = w'" if "mg_workers m w = Some p" "mg_workers m w' = Some p'" "item_of p \<noteq> None"
      "item_id p = item_id p'" for w w' p p'
  proof -
    from that(3) obtain i where "item_id p = Some i" by (auto simp: item_id_def)
    then show ?thesis using held that unfolding held_ok_def by metis
  qed
  moreover have "is_running i m \<longleftrightarrow> i \<in> executing (mg_workers m)" for i
    unfolding is_running_def dom [symmetric] by blast
  moreover have "i \<in> executing ws \<longleftrightarrow> (\<exists>w p. ws w = Some p \<and> in_execution p \<and> item_id p = Some i)" for i ws
    by (auto simp: executing_def exec_at_def exec_id_def ran_def Option.bind_eq_Some_conv split: if_splits)
  ultimately show ?thesis by blast
qed

theorem executed_at_most_once_witness:
  "mg_executed example_waiting = [] \<and> \<not> is_running ''a'' example_waiting"
proof -
  have "is_running ''a'' example_waiting \<longleftrightarrow>
      (\<exists>w p. mg_workers example_waiting w = Some p \<and> in_execution p \<and> item_id p = Some ''a'')"
    using executed_at_most_once [OF example_reachable] by blast
  moreover have "mg_workers example_waiting = [0 \<mapsto> Waiting example_item]"
    by (simp add: example_waiting_def goto_def example_start)
  ultimately show ?thesis by (simp add: example_waiting_facts)
qed

text \<open>The counter of active workers is the number of goroutines still in the loop, and until
  shutdown it never falls below the target, which is at least one.\<close>

theorem pool_keeps_its_size:
  assumes "reachable limited m"
  shows "finite (dom (mg_workers m)) \<and> mg_active m = int (card (dom (mg_workers m)))
         \<and> 1 \<le> mg_target m \<and> (mg_stopped m \<or> mg_target m \<le> mg_active m)"
  using pool_reachable [OF assms] unfolding pool_ok_def counted_def by blast

theorem pool_keeps_its_size_witness:
  "int (card (dom (mg_workers (set_worker_count 5 example_waiting)))) = 5"
proof -
  have "reachable True (set_worker_count 5 example_waiting)"
    by (rule reachable_run [OF example_reachable run_cons [OF resizes run_nil]])
  from pool_keeps_its_size [OF this] show ?thesis by (simp add: example_waiting_facts)
qed

text \<open>C22: Shutdown ends: once the stop channel is closed, and if the pool is not resized again,
  the workers take at most eight steps each in total, whatever the others do meanwhile, and as
  long as a worker is left it can take a step; so when they cannot go on, none is left.\<close>

theorem shutdown_ends:
  assumes "reachable limited m" and "mg_stopped m" and "manager_run limited m evs m'"
    and "list_all (\<lambda>ev. \<not> is_resize ev) evs"
  shows "int (List.length (filter is_worker evs)) \<le> 8 * mg_active m
         \<and> (mg_active m' = 0 \<or> (\<exists>w m''. manager_step limited m' (By_worker w) m''))"
proof -
  have ok: "pool_ok m" by (rule pool_reachable [OF assms(1)])
  then have fin: "finite (dom (mg_workers m))" "mg_active m = int (card (dom (mg_workers m)))"
    by (simp_all add: pool_ok_def counted_def)
  have "List.length (filter is_worker evs) \<le> 8 * card (dom (mg_workers m))"
    using stopped_run [OF assms(3,2) ok assms(4)] work_bound [OF fin(1)] by linarith
  moreover have "pool_ok m'" by (rule pool_reachable [OF reachable_run [OF assms(1,3)]])
  then have "mg_active m' = 0 \<or> (\<exists>w p. mg_workers m' w = Some p)"
    by (auto simp: pool_ok_def counted_def card_eq_0_iff dom_eq_empty_conv)
  then have "mg_active m' = 0 \<or> (\<exists>w m''. manager_step limited m' (By_worker w) m'')"
    using worker_can_step by blast
  ultimately show ?thesis using fin(2) by simp
qed

theorem shutdown_ends_witness:
  "\<exists>m'. manager_run True (stop_manager example_waiting) [By_worker 0, By_worker 0] m'
     \<and> (2::int) \<le> 8 * mg_active (stop_manager example_waiting) \<and> mg_active m' = 0"
proof -
  let ?m = "stop_manager example_waiting"
  have r: "reachable True ?m"
    by (rule reachable_run [OF example_reachable run_cons [OF stops run_nil]])
  have s1: "manager_step True ?m (By_worker 0) (goto 0 Top ?m)"
    by (rule limiter_aborts [where item = example_item]) (simp_all add: stop_manager_def example_waiting_facts)
  have s2: "manager_step True (goto 0 Top ?m) (By_worker 0) (leave 0 (goto 0 Top ?m))"
    by (rule top_stop) (simp_all add: goto_def stop_manager_def)
  have run: "manager_run True ?m [By_worker 0, By_worker 0] (leave 0 (goto 0 Top ?m))"
    by (rule run_cons [OF s1 run_cons [OF s2 run_nil]])
  have "int (List.length (filter is_worker [By_worker 0, By_worker 0])) \<le> 8 * mg_active ?m"
    using shutdown_ends [OF r _ run] by (simp add: stop_manager_def)
  moreover have "mg_active (leave 0 (goto 0 Top ?m)) = 0"
    by (simp add: leave_def goto_def stop_manager_def example_waiting_facts)
  ultimately show ?thesis using run by auto
qed

text \<open>Cancelling an item that a worker has claimed but not yet started, because it waits for the
  rate limiter, is answered as done and stored as cancelled; but the worker is not told, and when
  the limiter lets it pass it executes the cancelled item in a context that is not cancelled.\<close>

theorem cancelled_item_still_executed:
  assumes "reachable limited m" and "mg_workers m w = Some (Waiting item)"
    and "status_of (mg_table m) (qi_id item) = Some Running"
  shows "fst (handle_kitchen_queue_cancel (qi_id item) now m)
         \<and> (\<exists>m' evs. manager_run limited m (Store_op (Cancel (qi_id item) now) # evs) m'
              \<and> status_of (mg_table m') (qi_id item) = Some Cancelled
              \<and> mg_workers m' w = Some (Executing item)
              \<and> mg_running m' (qi_id item) = Some False)"
proof -
  obtain t where t: "handle_kitchen_queue_cancel (qi_id item) now m = (True, m\<lparr>mg_table := t\<rparr>)"
    "status_of t (qi_id item) = Some Cancelled"
    "manager_run limited m [Store_op (Cancel (qi_id item) now), By_worker w, By_worker w]
       (begin_item w item (goto w (Starting item) (m\<lparr>mg_table := t\<rparr>)))"
    using cancel_while_waiting(2) [OF assms, of now] by blast
  show ?thesis
    by (intro conjI exI, simp add: t(1), rule t(3)) (simp_all add: begin_item_def goto_def t(2))
qed

theorem cancelled_item_still_executed_witness:
  "\<exists>m' evs. manager_run True example_waiting evs m' \<and> status_of (mg_table m') ''a'' = Some Cancelled
     \<and> mg_running m' ''a'' = Some False"
  using cancelled_item_still_executed
    [OF example_reachable example_waiting_facts(1,2), of 4] example_waiting_facts(6)
  by auto

end
