(* ===== verification/Rate_Limiter.thy ===== *)
theory Rate_Limiter
  imports Prelude
begin

text \<open>
  The VM start limiter (\<open>internal/kitchenqueue/ratelimiter.go\<close>). Times and durations are
  integers (nanoseconds). What each iteration of the loop of \<open>Wait\<close> observes from outside (the
  context, the live configuration, the clock, the outcome of the sleep) is a \<open>wait_step\<close>; a
  call that is still sleeping when its steps are exhausted is \<open>Pending\<close>.
\<close>

section \<open>The limiter\<close>

record wait_step =
  ws_ctx_err :: "string option"
  ws_window :: int
  ws_max :: int
  ws_now :: int
  ws_sleep_err :: "string option"

datatype wait_outcome = Failed string | Passed | Started int | Pending

definition prune :: "int list \<Rightarrow> int \<Rightarrow> int \<Rightarrow> int list" where
  "prune starts now window = dropWhile (\<lambda>s. \<not> s > now - window) starts"

definition later :: "int \<Rightarrow> int \<Rightarrow> int" where
  "later t u = (if t > u then t else u)"

definition earliest :: "int list \<Rightarrow> int \<Rightarrow> int \<Rightarrow> int \<Rightarrow> int" where
  "earliest starts now window mx =
     (let n = List.length starts;
          next1 = (if int n \<ge> mx then later (starts ! (n - nat mx) + window) now else now)
      in if n > 0 then later (starts ! (n - 1) + window div mx) next1 else next1)"

fun wait_loop :: "wait_step list \<Rightarrow> int list \<Rightarrow> wait_outcome \<times> int list" where
  "wait_loop [] starts = (Pending, starts)"
| "wait_loop (st # sts) starts =
     (case ws_ctx_err st of
        Some e \<Rightarrow> (Failed e, starts)
      | None \<Rightarrow>
          if ws_window st \<le> 0 \<or> ws_max st < 1 then (Passed, starts)
          else
            let pruned = prune starts (ws_now st) (ws_window st);
                nxt = earliest pruned (ws_now st) (ws_window st) (ws_max st)
            in if \<not> nxt > ws_now st then (Started (ws_now st), pruned @ [ws_now st])
               else case ws_sleep_err st of
                      Some e \<Rightarrow> (Failed e, pruned)
                    | None \<Rightarrow> wait_loop sts pruned)"

text \<open>The calls of \<open>Wait\<close>, one after the other under the lock, and the starts they granted.\<close>

fun wait_calls :: "wait_step list list \<Rightarrow> int list \<Rightarrow> int list \<times> int list" where
  "wait_calls [] starts = ([], starts)"
| "wait_calls (call # calls) starts =
     (case wait_loop call starts of
        (outcome, starts') \<Rightarrow>
          (case wait_calls calls starts' of
             (granted, final) \<Rightarrow>
               ((case outcome of Started t \<Rightarrow> t # granted | _ \<Rightarrow> granted), final)))"

section \<open>Facts\<close>

lemma later_le:
  "later t u \<le> v \<longleftrightarrow> t \<le> v \<and> u \<le> v"
  "v < later t u \<longleftrightarrow> v < t \<or> v < u"
  by (auto simp: later_def)

lemma earliest_le:
  assumes "\<not> earliest starts now window mx > v"
  shows "now \<le> v"
    and "int (List.length starts) \<ge> mx \<Longrightarrow> starts ! (List.length starts - nat mx) + window \<le> v"
    and "starts \<noteq> [] \<Longrightarrow> last starts + window div mx \<le> v"
  using assms by (auto simp: earliest_def Let_def later_le last_conv_nth split: if_splits)

lemma earliest_leI:
  assumes "now \<le> v"
    and "int (List.length starts) \<ge> mx \<Longrightarrow> starts ! (List.length starts - nat mx) + window \<le> v"
    and "starts \<noteq> [] \<Longrightarrow> last starts + window div mx \<le> v"
  shows "\<not> earliest starts now window mx > v"
  using assms by (auto simp: earliest_def Let_def later_le last_conv_nth)

text \<open>
  Against the whole history of granted starts: the recorded ones are its end, what was pruned
  is out of the window, and starts \<open>mx\<close> apart are at least a window apart.
\<close>

definition covered :: "int \<Rightarrow> nat \<Rightarrow> int \<Rightarrow> int list \<Rightarrow> int list \<Rightarrow> bool" where
  "covered window mx now hist starts \<longleftrightarrow>
     (\<exists>old. hist = old @ starts \<and> (\<forall>s\<in>set old. s \<le> now - window))
     \<and> sorted hist \<and> (\<forall>s\<in>set hist. s \<le> now)
     \<and> (\<forall>i. i + mx < List.length hist \<longrightarrow> hist ! i + window \<le> hist ! (i + mx))
     \<and> (\<forall>i. Suc i < List.length hist \<longrightarrow> hist ! i + window div int mx \<le> hist ! Suc i)"

lemma covered_prune:
  assumes "covered window mx now hist starts" and "now \<le> now'" and "0 < window"
  shows "covered window mx now' hist (prune starts now' window)"
proof -
  from assms(1) obtain old where old: "hist = old @ starts" "\<forall>s\<in>set old. s \<le> now - window"
    by (auto simp: covered_def)
  let ?gone = "takeWhile (\<lambda>s. \<not> s > now' - window) starts"
  have "hist = (old @ ?gone) @ prune starts now' window"
    by (simp add: old(1) prune_def)
  moreover have "\<forall>s\<in>set (old @ ?gone). s \<le> now' - window"
    using old(2) assms(2) by (auto dest: set_takeWhileD)
  ultimately have "\<exists>old. hist = old @ prune starts now' window \<and> (\<forall>s\<in>set old. s \<le> now' - window)"
    by blast
  moreover have "\<forall>s\<in>set hist. s \<le> now'"
    using assms(1,2) by (auto simp: covered_def)
  ultimately show ?thesis using assms(1) by (simp add: covered_def)
qed

lemma covered_grant:
  assumes cov: "covered window mx now hist starts" and pos: "0 < window" "0 < mx"
    and free: "\<not> earliest starts now window (int mx) > now"
  shows "covered window mx now (hist @ [now]) (starts @ [now])"
proof -
  from cov obtain old where old: "hist = old @ starts" "\<forall>s\<in>set old. s \<le> now - window"
    by (auto simp: covered_def)
  have le: "\<forall>s\<in>set hist. s \<le> now" and srt: "sorted hist" using cov by (auto simp: covered_def)
  have apart: "hist ! (List.length hist - mx) + window \<le> now" if "mx \<le> List.length hist"
  proof (cases "mx \<le> List.length starts")
    case True
    then have "starts ! (List.length starts - mx) + window \<le> now"
      using earliest_le(2) [OF free] by simp
    moreover have "hist ! (List.length hist - mx) = starts ! (List.length starts - mx)"
      using True by (simp add: old(1) nth_append_right)
    ultimately show ?thesis by simp
  next
    case False
    then have "List.length hist - mx < List.length old" using that by (simp add: old(1))
    then have "hist ! (List.length hist - mx) \<in> set old" by (simp add: old(1) nth_append_left)
    with old(2) show ?thesis by fastforce
  qed
  have gap: "last hist + window div int mx \<le> now" if "hist \<noteq> []"
  proof (cases "starts = []")
    case True
    then have "last hist \<in> set old" using that old(1) by simp
    then have "last hist + window \<le> now" using old(2) by fastforce
    moreover have "window div int mx \<le> window"
      using zdiv_mono2 [of window 1 "int mx"] pos by simp
    ultimately show ?thesis by linarith
  next
    case False
    then show ?thesis using earliest_le(3) [OF free] by (simp add: old(1))
  qed
  have far: "(hist @ [now]) ! i + window \<le> (hist @ [now]) ! (i + mx)"
    if "i + mx < List.length (hist @ [now])" for i
  proof (cases "i + mx < List.length hist")
    case True
    then show ?thesis using cov by (simp add: covered_def nth_append)
  next
    case False
    with that have im: "i + mx = List.length hist" by simp
    then have "i = List.length hist - mx" "mx \<le> List.length hist" by simp_all
    then have "hist ! i + window \<le> now" using apart by simp
    with im pos(2) show ?thesis by (simp add: nth_append)
  qed
  have close: "(hist @ [now]) ! i + window div int mx \<le> (hist @ [now]) ! Suc i"
    if "Suc i < List.length (hist @ [now])" for i
  proof (cases "Suc i < List.length hist")
    case True
    then show ?thesis using cov by (simp add: covered_def nth_append)
  next
    case False
    with that have "Suc i = List.length hist" by simp
    then show ?thesis using gap by (cases hist rule: rev_cases) (auto simp: nth_append)
  qed
  have "hist @ [now] = old @ (starts @ [now])" by (simp add: old(1))
  then show ?thesis
    unfolding covered_def using old(2) le srt far close by (auto simp: sorted_append)
qed

text \<open>With one configuration throughout and a clock that does not go back.\<close>

definition steady :: "int \<Rightarrow> nat \<Rightarrow> wait_step list \<Rightarrow> bool" where
  "steady window mx sts \<longleftrightarrow> (\<forall>st\<in>set sts. ws_window st = window \<and> ws_max st = int mx)"

lemma covered_later:
  "covered window mx now hist starts \<Longrightarrow> now \<le> now' \<Longrightarrow> covered window mx now' hist starts"
  unfolding covered_def by (smt (verit))

definition last_now :: "int \<Rightarrow> wait_step list \<Rightarrow> int" where
  "last_now now sts = (if sts = [] then now else ws_now (last sts))"

lemma wait_loop_covered:
  assumes "covered window mx now hist starts" and "0 < window" and "0 < mx"
    and "steady window mx sts" and "sorted (now # map ws_now sts)"
    and "wait_loop sts starts = (outcome, starts')"
  shows "covered window mx (last_now now sts)
           (hist @ (case outcome of Started t \<Rightarrow> [t] | _ \<Rightarrow> [])) starts'"
  using assms
proof (induction sts starts arbitrary: now rule: wait_loop.induct)
  case (1 starts)
  then show ?case by (simp add: last_now_def)
next
  case (2 st sts starts)
  let ?now = "ws_now st"
  let ?pruned = "prune starts ?now window"
  have mono: "now \<le> ?now" "?now \<le> last_now now (st # sts)"
    using 2(6) by (cases sts rule: rev_cases; simp add: last_now_def)+
  have cfg: "ws_window st = window" "ws_max st = int mx" using 2(5) by (simp_all add: steady_def)
  have on: "\<not> (ws_window st \<le> 0 \<or> ws_max st < 1)" using 2(3,4) cfg by simp
  have cov: "covered window mx ?now hist ?pruned"
    by (rule covered_prune [OF 2(2) mono(1) 2(3)])
  have start: "covered window mx now hist starts" using 2(2) .
  consider (ctx) e where "ws_ctx_err st = Some e"
    | (grant) "ws_ctx_err st = None" "\<not> earliest ?pruned ?now window (int mx) > ?now"
    | (sleep_fail) e where "ws_ctx_err st = None" "earliest ?pruned ?now window (int mx) > ?now"
        "ws_sleep_err st = Some e"
    | (again) "ws_ctx_err st = None" "earliest ?pruned ?now window (int mx) > ?now"
        "ws_sleep_err st = None"
    by (cases "ws_ctx_err st"; cases "ws_sleep_err st") blast+
  then show ?case
  proof cases
    case ctx
    then have "outcome = Failed e" "starts' = starts" using 2(7) by simp_all
    then show ?thesis using covered_later [OF start] mono by simp
  next
    case grant
    then have "outcome = Started ?now" "starts' = ?pruned @ [?now]" using 2(7) on cfg by auto
    then show ?thesis
      using covered_later [OF covered_grant [OF cov 2(3,4) grant(2)] mono(2)] by simp
  next
    case sleep_fail
    then have "outcome = Failed e" "starts' = ?pruned" using 2(7) on cfg by auto
    then show ?thesis using covered_later [OF cov mono(2)] by simp
  next
    case again
    then have rest: "wait_loop sts ?pruned = (outcome, starts')" using 2(7) on cfg by auto
    have "covered window mx (last_now ?now sts)
        (hist @ (case outcome of Started t \<Rightarrow> [t] | _ \<Rightarrow> [])) starts'"
    proof (rule 2(1) [OF again(1) on refl refl _ again(3)])
      show "\<not> \<not> earliest (prune starts (ws_now st) (ws_window st)) (ws_now st) (ws_window st) (ws_max st)
          > ws_now st" using again(2) cfg by simp
      show "covered window mx ?now hist (prune starts (ws_now st) (ws_window st))"
        using cov cfg by simp
      show "steady window mx sts" using 2(5) by (simp add: steady_def)
      show "sorted (?now # map ws_now sts)" using 2(6) by simp
      show "wait_loop sts (prune starts (ws_now st) (ws_window st)) = (outcome, starts')"
        using rest cfg by simp
    qed (use 2(3,4) in simp_all)
    moreover have "last_now ?now sts = last_now now (st # sts)" by (simp add: last_now_def)
    ultimately show ?thesis by simp
  qed
qed

lemma wait_calls_covered:
  assumes "covered window mx now hist starts" and "0 < window" and "0 < mx"
    and "steady window mx (concat calls)" and "sorted (now # map ws_now (concat calls))"
    and "wait_calls calls starts = (granted, final)"
  shows "\<exists>now'. covered window mx now' (hist @ granted) final"
  using assms
proof (induction calls arbitrary: now hist starts granted)
  case (Cons call calls)
  obtain outcome starts1 where w: "wait_loop call starts = (outcome, starts1)" by force
  obtain granted1 where g: "wait_calls calls starts1 = (granted1, final)"
    "granted = (case outcome of Started t \<Rightarrow> [t] | _ \<Rightarrow> []) @ granted1"
    using Cons.prems(6) w by (auto split: prod.splits wait_outcome.splits)
  have s: "sorted (now # map ws_now call)" "steady window mx call"
    using Cons.prems(4,5) by (auto simp: sorted_append steady_def)
  have c: "covered window mx (last_now now call)
      (hist @ (case outcome of Started t \<Rightarrow> [t] | _ \<Rightarrow> [])) starts1"
    by (rule wait_loop_covered [OF Cons.prems(1,2,3) s(2,1) w])
  have "sorted (last_now now call # map ws_now (concat calls))"
    using Cons.prems(5) by (auto simp: sorted_append last_now_def)
  moreover have "steady window mx (concat calls)"
    using Cons.prems(4) by (simp add: steady_def)
  ultimately show ?case
    using Cons.IH [OF c Cons.prems(2,3) _ _ g(1)] by (simp add: g(2))
qed auto

text \<open>Starts that far apart leave at most \<open>mx\<close> of them in any window.\<close>

lemma window_bound:
  fixes hist :: "int list"
  assumes "sorted hist" and "0 < mx"
    and "\<forall>i. i + mx < List.length hist \<longrightarrow> hist ! i + window \<le> hist ! (i + mx)"
  shows "List.length (filter (\<lambda>s. t - window < s \<and> s \<le> t) hist) \<le> mx"
proof -
  define I where "I = {i. i < List.length hist \<and> t - window < hist ! i \<and> hist ! i \<le> t}"
  have len: "List.length (filter (\<lambda>s. t - window < s \<and> s \<le> t) hist) = card I"
    by (simp add: length_filter_conv_card I_def)
  have fin: "finite I" by (simp add: I_def)
  show ?thesis
  proof (cases "I = {}")
    case False
    define m where "m = Min I"
    have m: "m \<in> I" "\<And>j. j \<in> I \<Longrightarrow> m \<le> j" using fin False by (simp_all add: m_def)
    have "j < m + mx" if j: "j \<in> I" for j
    proof (rule ccontr)
      assume "\<not> j < m + mx"
      then have "m + mx \<le> j" "j < List.length hist" using j by (simp_all add: I_def)
      then have "hist ! (m + mx) \<le> hist ! j" using assms(1) by (simp add: sorted_nth_mono)
      moreover have "hist ! m + window \<le> hist ! (m + mx)"
        using assms(3) \<open>m + mx \<le> j\<close> \<open>j < List.length hist\<close> by simp
      ultimately show False using m(1) j by (simp add: I_def)
    qed
    then have "I \<subseteq> {m..<m + mx}" using m(2) by auto
    then have "card I \<le> card {m..<m + mx}" by (rule card_mono [OF finite_atLeastLessThan])
    then show ?thesis by (simp add: len)
  qed (simp add: len)
qed

text \<open>A start that is refused is granted once the time it was told has come.\<close>

lemma prune_suffix: "\<exists>k. prune starts now window = drop k starts"
  by (metis prune_def dropWhile_eq_drop)

lemma earliest_stable:
  assumes nxt: "\<not> earliest starts now window (int mx) > v" and "0 < mx" and "now \<le> v"
  shows "\<not> earliest (prune starts v window) v window (int mx) > v"
proof -
  obtain k where k: "prune starts v window = drop k starts" using prune_suffix by blast
  show ?thesis unfolding k
  proof (rule earliest_leI)
    assume "int mx \<le> int (List.length (drop k starts))"
    then have mk: "mx \<le> List.length starts - k" "k \<le> List.length starts" using assms(2) by auto
    then have "drop k starts ! (List.length (drop k starts) - nat (int mx))
        = starts ! (List.length starts - mx)" by simp
    moreover have "starts ! (List.length starts - mx) + window \<le> v"
      using earliest_le(2) [OF nxt] mk by simp
    ultimately show "drop k starts ! (List.length (drop k starts) - nat (int mx)) + window \<le> v"
      by simp
  next
    assume "drop k starts \<noteq> []"
    then show "last (drop k starts) + window div int mx \<le> v"
      using earliest_le(3) [OF nxt] by (cases "starts = []") (auto simp: last_drop)
  qed simp
qed

section \<open>Properties\<close>

text \<open>C21: With one configuration and a clock that never goes back, whatever the workers do, any
  window of the configured length holds at most the configured number of granted starts, and
  consecutive starts are at least the window divided by that number apart.\<close>

theorem rate_limit_holds:
  assumes "0 < window" and "0 < mx"
    and "steady window mx (concat calls)" and "sorted (map ws_now (concat calls))"
  shows "List.length (filter (\<lambda>s. t - window < s \<and> s \<le> t) (fst (wait_calls calls []))) \<le> mx
         \<and> (\<forall>i. Suc i < List.length (fst (wait_calls calls []))
              \<longrightarrow> window div int mx
                 \<le> fst (wait_calls calls []) ! Suc i - fst (wait_calls calls []) ! i)"
proof -
  obtain granted final where run: "wait_calls calls [] = (granted, final)" by force
  define now where "now = (if concat calls = [] then 0 else ws_now (hd (concat calls)))"
  have "sorted (now # map ws_now (concat calls))"
  proof (cases "concat calls")
    case Nil
    show ?thesis unfolding Nil by simp
  next
    case (Cons st sts)
    then show ?thesis using assms(4) by (simp add: now_def)
  qed
  moreover have "covered window mx now [] []" by (simp add: covered_def)
  ultimately obtain now' where "covered window mx now' granted final"
    using wait_calls_covered [OF _ assms(1,2,3) _ run] by fastforce
  then have c: "sorted granted"
    "\<forall>i. i + mx < List.length granted \<longrightarrow> granted ! i + window \<le> granted ! (i + mx)"
    "\<forall>i. Suc i < List.length granted \<longrightarrow> granted ! i + window div int mx \<le> granted ! Suc i"
    by (auto simp: covered_def)
  have "granted ! Suc i - granted ! i \<ge> window div int mx" if "Suc i < List.length granted" for i
    using c(3) that by (simp add: le_diff_eq add.commute)
  then show ?thesis using window_bound [OF c(1) assms(2) c(2)] by (simp add: run)
qed

definition example_step :: "int \<Rightarrow> wait_step" where
  "example_step now = \<lparr>ws_ctx_err = None, ws_window = 60, ws_max = 2, ws_now = now,
     ws_sleep_err = None\<rparr>"

definition example_calls :: "wait_step list list" where
  "example_calls = [[example_step 0], [example_step 10, example_step 30],
                    [example_step 40, example_step 61]]"

theorem rate_limit_holds_witness:
  "fst (wait_calls example_calls []) = [0, 30, 61]
   \<and> List.length (filter (\<lambda>s. 60 - 60 < s \<and> s \<le> 60) (fst (wait_calls example_calls []))) \<le> 2"
proof -
  have s: "steady 60 2 (concat example_calls)" "sorted (map ws_now (concat example_calls))"
    by (simp_all add: example_calls_def steady_def example_step_def)
  have "fst (wait_calls example_calls []) = [0, 30, 61]" by code_simp
  then show ?thesis using rate_limit_holds [OF _ _ s, of 60] by simp
qed

text \<open>A start that was refused is granted at the time the limiter computed, and at any later
  time at which nothing else has started: the wait of a call is never longer than the one sleep
  it takes.\<close>

theorem refused_start_granted_after_wait:
  assumes "0 < window" and "0 < mx" and "ws_ctx_err st = None"
    and "ws_window st = window" and "ws_max st = int mx" and "now \<le> ws_now st"
    and "earliest (prune starts now window) now window (int mx) \<le> ws_now st"
  shows "fst (wait_loop (st # sts) (prune starts now window)) = Started (ws_now st)"
proof -
  have "\<not> earliest (prune starts now window) now window (int mx) > ws_now st"
    using assms(7) by simp
  from earliest_stable [OF this assms(2,6)] show ?thesis
    using assms(1-5) by (simp add: Let_def)
qed

theorem refused_start_granted_after_wait_witness:
  "\<not> earliest (prune [0, 30] 40 60) 40 60 2 \<le> 40
   \<and> fst (wait_loop [example_step 61] (prune [0, 30] 40 60)) = Started 61"
proof -
  have e: "earliest (prune [0, 30] 40 60) 40 60 (int 2) = 60" by code_simp
  have "fst (wait_loop [example_step 61] (prune [0, 30] 40 60)) = Started (ws_now (example_step 61))"
    by (rule refused_start_granted_after_wait [where mx = 2])
       (use e in \<open>simp_all add: example_step_def\<close>)
  with e show ?thesis by (simp add: example_step_def)
qed

end
