(* ===== verification/Go_Time.thy ===== *)
theory Go_Time
  imports Main
begin

text \<open>
  The part of Go's \<open>time\<close> package the scheduling code uses, for times in UTC: a time is a number
  of nanoseconds since 1970-01-01T00:00Z (before it when negative), a day its number since that
  date. The Gregorian date of a day is found as the package does, by cycles of 400, 100, 4 and 1
  years counted from the year 1.
\<close>

section \<open>Dates\<close>

definition epoch_days :: int where "epoch_days = 719162"

definition is_leap :: "int \<Rightarrow> bool" where
  "is_leap y = (4 dvd y \<and> (\<not> 100 dvd y \<or> 400 dvd y))"

definition month_lengths :: "int \<Rightarrow> int list" where
  "month_lengths y = [31, if is_leap y then 29 else 28, 31, 30, 31, 30, 31, 31, 30, 31, 30, 31]"

definition days_before_year :: "int \<Rightarrow> int" where
  "days_before_year y = (let p = y - 1 in 365 * p + p div 4 - p div 100 + p div 400)"

definition days_before_month :: "int \<Rightarrow> nat \<Rightarrow> int" where
  "days_before_month y m = sum_list (take (m - 1) (month_lengths y))"

text \<open>The year of a day counted from 0001-01-01, and the days since its first of January.\<close>

definition year_and_yday :: "int \<Rightarrow> int \<times> int" where
  "year_and_yday n =
     (let a = n div 146097; r1 = n - 146097 * a;
          c = min 3 (r1 div 36524); r2 = r1 - 36524 * c;
          q = r2 div 1461; r3 = r2 - 1461 * q;
          y = min 3 (r3 div 365)
      in (400 * a + 100 * c + 4 * q + y + 1, r3 - 365 * y))"

fun month_scan :: "int list \<Rightarrow> nat \<Rightarrow> int \<Rightarrow> nat \<times> int" where
  "month_scan [] m yday = (m, yday + 1)"
| "month_scan (len # lens) m yday =
     (if yday < len then (m, yday + 1) else month_scan lens (m + 1) (yday - len))"

definition civil :: "int \<Rightarrow> int \<times> nat \<times> int" where
  "civil day =
     (case year_and_yday (day + epoch_days) of
        (y, yday) \<Rightarrow> (case month_scan (month_lengths y) 1 yday of (m, d) \<Rightarrow> (y, m, d)))"

definition year_of :: "int \<Rightarrow> int" where "year_of day = fst (civil day)"
definition month_of :: "int \<Rightarrow> nat" where "month_of day = fst (snd (civil day))"
definition mday_of :: "int \<Rightarrow> int" where "mday_of day = snd (snd (civil day))"

text \<open>0 is Sunday; 1970-01-01 was a Thursday.\<close>
definition weekday_of :: "int \<Rightarrow> int" where "weekday_of day = (day + 4) mod 7"

text \<open>\<open>time.Date\<close> at midnight: a month past December counts on into the next year.\<close>

definition date_day :: "int \<Rightarrow> nat \<Rightarrow> int \<Rightarrow> int" where
  "date_day y m d =
     (let y' = y + int ((m - 1) div 12); m' = (m - 1) mod 12 + 1
      in days_before_year y' + days_before_month y' m' + d - 1 - epoch_days)"

section \<open>The calendar round trip\<close>

lemma month_lengths_simps [simp]: "List.length (month_lengths y) = 12"
  by (simp add: month_lengths_def)

lemma days_before_year_cycles:
  assumes "0 \<le> c" "c \<le> 3" "0 \<le> q" "q \<le> 24" "0 \<le> y" "y \<le> 3"
  shows "days_before_year (400 * a + 100 * c + 4 * q + y + 1)
       = 146097 * a + 36524 * c + 1461 * q + 365 * y"
proof -
  let ?p = "400 * a + 100 * c + 4 * q + y"
  have "?p div 4 = 100 * a + 25 * c + q"
    by (rule int_div_pos_eq [where r = y]) (use assms in simp_all)
  moreover have "?p div 100 = 4 * a + c"
    by (rule int_div_pos_eq [where r = "4 * q + y"]) (use assms in simp_all)
  moreover have "?p div 400 = a"
    by (rule int_div_pos_eq [where r = "100 * c + 4 * q + y"]) (use assms in simp_all)
  ultimately show ?thesis by (simp add: days_before_year_def Let_def)
qed

lemma div_pred:
  fixes y k :: int
  assumes "0 < k"
  shows "y div k = (y - 1) div k + (if k dvd y then 1 else 0)"
proof (cases "k dvd y")
  case True
  then obtain j where j: "y = k * j" by blast
  have "(y - 1) div k = j - 1"
    by (rule int_div_pos_eq [of _ k "j - 1" "k - 1"]) (use assms in \<open>simp_all add: j algebra_simps\<close>)
  then show ?thesis using assms by (simp add: j)
next
  case False
  then have r: "0 < y mod k" using assms by (metis dvd_eq_mod_eq_0 pos_mod_sign order_le_less)
  have "y - 1 = k * (y div k) + (y mod k - 1)" using mult_div_mod_eq [of k y] by linarith
  then have "(y - 1) div k = y div k"
    by (rule int_div_pos_eq) (use assms r pos_mod_bound [of k y] in linarith)+
  then show ?thesis using False by simp
qed

lemma days_before_year_next:
  "days_before_year (y + 1) = days_before_year y + 365 + (if is_leap y then 1 else 0)"
proof -
  have d: "100 dvd y \<Longrightarrow> 4 dvd y" "400 dvd y \<Longrightarrow> 100 dvd y"
    using dvd_trans [of 4 100 y] dvd_trans [of 100 400 y] by simp_all
  define u v w where "u = (y - 1) div 4" and "v = (y - 1) div 100" and "w = (y - 1) div 400"
  define b4 b100 b400 :: int where "b4 = (if 4 dvd y then 1 else 0)"
    and "b100 = (if 100 dvd y then 1 else 0)" and "b400 = (if 400 dvd y then 1 else 0)"
  have "y div 4 = u + b4" "y div 100 = v + b100" "y div 400 = w + b400"
    unfolding u_def v_def w_def b4_def b100_def b400_def by (rule div_pred, rule zero_less_numeral)+
  then have "days_before_year (y + 1) = 365 * y + (u + b4) - (v + b100) + (w + b400)"
    unfolding days_before_year_def Let_def add_diff_cancel_right' by metis
  moreover have "days_before_year y = 365 * (y - 1) + u - v + w"
    unfolding days_before_year_def Let_def u_def v_def w_def ..
  moreover have l: "(if is_leap y then 1 else 0) = b4 - b100 + b400"
    unfolding is_leap_def b4_def b100_def b400_def using d
    by (cases "4 dvd y"; cases "100 dvd y"; cases "400 dvd y") simp_all
  ultimately show ?thesis unfolding l by (simp add: algebra_simps)
qed

lemma capped_div:
  fixes r k b :: int
  assumes "0 \<le> r" and "0 < k" and "0 \<le> b"
  shows "0 \<le> min b (r div k)" and "min b (r div k) \<le> b" and "k * min b (r div k) \<le> r"
    and "min b (r div k) < b \<Longrightarrow> r < k * min b (r div k) + k"
proof -
  have d: "0 \<le> r div k" "k * (r div k) \<le> r" "r < k * (r div k) + k"
    using assms pos_imp_zdiv_nonneg_iff [of k r] mult_div_mod_eq [of k r] pos_mod_bound [of k r]
      pos_mod_sign [of k r] by linarith+
  show "0 \<le> min b (r div k)" "min b (r div k) \<le> b" using d assms by simp_all
  have "k * min b (r div k) \<le> k * (r div k)" using assms by (simp add: mult_left_mono)
  then show "k * min b (r div k) \<le> r" using d by linarith
  show "r < k * min b (r div k) + k" if "min b (r div k) < b"
    using d that by (simp add: min_def split: if_splits)
qed

lemma year_and_yday_correct:
  assumes "year_and_yday n = (y, yd)"
  shows "days_before_year y + yd = n" and "0 \<le> yd" and "yd < 365 + (if is_leap y then 1 else 0)"
proof -
  define a where "a = n div 146097"
  define r1 where "r1 = n - 146097 * a"
  define c where "c = min 3 (r1 div 36524)"
  define r2 where "r2 = r1 - 36524 * c"
  define q where "q = r2 div 1461"
  define r3 where "r3 = r2 - 1461 * q"
  define k where "k = min 3 (r3 div 365)"
  have "year_and_yday n = (400 * a + 100 * c + 4 * q + k + 1, r3 - 365 * k)"
    unfolding year_and_yday_def Let_def a_def r1_def c_def r2_def q_def r3_def k_def by (rule refl)
  then have yv: "y = 400 * a + 100 * c + 4 * q + k + 1" and yd: "yd = r3 - 365 * k"
    using assms by simp_all
  have r1: "0 \<le> r1" "r1 < 146097"
    unfolding r1_def a_def by (simp_all add: minus_mult_div_eq_mod)
  have c: "0 \<le> c" "c \<le> 3" "36524 * c \<le> r1" "c < 3 \<Longrightarrow> r1 < 36524 * c + 36524"
    unfolding c_def by (rule capped_div; use r1 in simp)+
  have r2: "0 \<le> r2" "r2 \<le> 36524" "c < 3 \<Longrightarrow> r2 < 36524"
    unfolding r2_def using c r1 by linarith+
  have q: "0 \<le> q" "q \<le> 24" "1461 * q \<le> r2" "r2 < 1461 * q + 1461"
    using mult_div_mod_eq [of 1461 r2] pos_mod_bound [of 1461 r2] pos_mod_sign [of 1461 r2] r2
    unfolding q_def [symmetric] by linarith+
  have r3: "0 \<le> r3" "r3 \<le> 1460" unfolding r3_def using q by linarith+
  have k: "0 \<le> k" "k \<le> 3" "365 * k \<le> r3" "k < 3 \<Longrightarrow> r3 < 365 * k + 365"
    unfolding k_def by (rule capped_div; use r3 in simp)+
  have "n = 146097 * a + 36524 * c + 1461 * q + 365 * k + yd"
    using yd r1_def r2_def r3_def by simp
  then show "days_before_year y + yd = n"
    using days_before_year_cycles [OF c(1,2) q(1,2) k(1,2), of a] yv by simp
  show "0 \<le> yd" using yd k by simp
  have leap: "is_leap y" if "yd = 365"
  proof -
    have k3: "k = 3" using that yd k r3 by linarith
    have y4: "y = 4 * (100 * a + 25 * c + q + 1)" using yv k3 by simp
    have "400 dvd y" if "100 dvd y"
    proof -
      have "y = 100 * (4 * a + c) + 4 * (q + 1)" using yv k3 by simp
      then have "100 dvd 4 * (q + 1)" using \<open>100 dvd y\<close> by (metis dvd_add_right_iff dvd_triv_left)
      then obtain j where "4 * (q + 1) = 100 * j" by blast
      then have "q + 1 = 25 * j" by simp
      moreover from this have "j = 1" using q(1,2) by linarith
      ultimately have q24: "q = 24" by simp
      have "c = 3"
      proof (rule ccontr)
        assume "c \<noteq> 3"
        then have "r2 < 36524" using c r2 by linarith
        then have "r3 < 1460" using q24 r3_def by simp
        then show False using \<open>yd = 365\<close> yd k3 by simp
      qed
      then have "y = 400 * (a + 1)" using yv k3 q24 by simp
      then show ?thesis by simp
    qed
    then show ?thesis using y4 by (auto simp: is_leap_def)
  qed
  have "yd \<le> 365" using yd k r3 by linarith
  then show "yd < 365 + (if is_leap y then 1 else 0)" using leap by (cases "yd = 365") simp_all
qed

lemma year_length: "sum_list (month_lengths y) = 365 + (if is_leap y then 1 else 0)"
  by (simp add: month_lengths_def)

lemma month_scan_correct:
  assumes "month_scan lens m yd = (k, d)" and "0 \<le> yd" and "yd < sum_list lens"
    and "\<forall>len\<in>set lens. 0 < len"
  shows "m \<le> k \<and> k < m + List.length lens \<and> 1 \<le> d \<and> d \<le> lens ! (k - m)
         \<and> sum_list (take (k - m) lens) + d - 1 = yd"
  using assms
proof (induction lens m yd rule: month_scan.induct)
  case (2 len lens m yd)
  show ?case
  proof (cases "yd < len")
    case True
    then show ?thesis using 2(2,3) by auto
  next
    case False
    have "m + 1 \<le> k \<and> k < m + 1 + List.length lens \<and> 1 \<le> d \<and> d \<le> lens ! (k - (m + 1))
        \<and> sum_list (take (k - (m + 1)) lens) + d - 1 = yd - len"
      by (rule 2(1) [OF False]) (use 2 False in auto)
    moreover from this have "k - m = Suc (k - (m + 1))" by (simp add: Suc_diff_Suc)
    ultimately show ?thesis by simp
  qed
qed simp

text \<open>Every day has one date, with a month and a day that exist, and that date is that day.\<close>

lemma civil_correct:
  assumes "civil day = (y, m, d)"
  shows "1 \<le> m \<and> m \<le> 12 \<and> 1 \<le> d \<and> d \<le> month_lengths y ! (m - 1)" and "date_day y m d = day"
proof -
  obtain y' yd where yy: "year_and_yday (day + epoch_days) = (y', yd)" by force
  with assms have ms: "y' = y" "month_scan (month_lengths y) 1 yd = (m, d)"
    by (auto simp: civil_def split: prod.splits)
  note yc = year_and_yday_correct [OF yy [unfolded ms(1)]]
  have "1 \<le> m \<and> m < 1 + List.length (month_lengths y) \<and> 1 \<le> d \<and> d \<le> month_lengths y ! (m - 1)
      \<and> sum_list (take (m - 1) (month_lengths y)) + d - 1 = yd"
    by (rule month_scan_correct [OF ms(2)])
       (use yc year_length in \<open>auto simp: month_lengths_def split: if_splits\<close>)
  then have m: "1 \<le> m" "m \<le> 12" "1 \<le> d" "d \<le> month_lengths y ! (m - 1)"
      "days_before_month y m + d - 1 = yd"
    by (simp_all add: days_before_month_def)
  show "1 \<le> m \<and> m \<le> 12 \<and> 1 \<le> d \<and> d \<le> month_lengths y ! (m - 1)" using m by simp
  have "(m - 1) div 12 = 0" "(m - 1) mod 12 + 1 = m" using m by simp_all
  then show "date_day y m d = day" using m(5) yc(1) by (simp add: date_day_def Let_def)
qed

lemma days_before_year_mono: "y \<le> z \<Longrightarrow> days_before_year y \<le> days_before_year z"
proof (induction z rule: int_ge_induct)
  case (step z)
  then show ?case using days_before_year_next [of z] by (simp split: if_splits)
qed simp

lemma year_unique:
  assumes "days_before_year y \<le> n" and "n < days_before_year (y + 1)"
  shows "year_and_yday n = (y, n - days_before_year y)"
proof -
  obtain z zd where z: "year_and_yday n = (z, zd)" by force
  note zc = year_and_yday_correct [OF z]
  have "n < days_before_year (z + 1)" using zc days_before_year_next [of z] by linarith
  then have "\<not> y > z" using days_before_year_mono [of "z + 1" y] assms(1) by linarith
  moreover have "\<not> z > y" using days_before_year_mono [of "y + 1" z] assms(2) zc by linarith
  ultimately have "z = y" by linarith
  then show ?thesis using z zc by simp
qed

lemma month_scan_unique:
  assumes "i < List.length lens" and "0 \<le> r" and "r < lens ! i" and "\<forall>len\<in>set lens. 0 < len"
  shows "month_scan lens m (sum_list (take i lens) + r) = (m + i, r + 1)"
  using assms
proof (induction lens arbitrary: i m)
  case (Cons len lens)
  show ?case
  proof (cases i)
    case 0
    then show ?thesis using Cons.prems by simp
  next
    case (Suc j)
    have "0 \<le> sum_list (take j lens)"
      using Cons.prems(4) by (intro sum_list_nonneg) (auto dest: in_set_takeD simp: less_imp_le)
    then show ?thesis using Cons.IH [of j "m + 1"] Cons.prems Suc by simp
  qed
qed simp

lemma take_sum_bound:
  fixes xs :: "int list"
  assumes "i < List.length xs" and "\<forall>x\<in>set xs. 0 < x"
  shows "0 \<le> sum_list (take i xs) \<and> sum_list (take i xs) + xs ! i \<le> sum_list xs"
  using assms
proof (induction xs arbitrary: i)
  case (Cons x xs)
  have "0 \<le> sum_list xs" using Cons.prems(2) by (intro sum_list_nonneg) (auto intro: less_imp_le)
  then show ?case using Cons.IH Cons.prems by (cases i) fastforce+
qed simp

lemma month_lengths_pos: "\<forall>len\<in>set (month_lengths y). 0 < len"
  by (simp add: month_lengths_def)

lemma days_before_month_bound:
  assumes "1 \<le> m" and "m \<le> 12"
  shows "0 \<le> days_before_month y m
   \<and> days_before_month y m + month_lengths y ! (m - 1) \<le> 365 + (if is_leap y then 1 else 0)"
proof -
  have "m - 1 < List.length (month_lengths y)" using assms by simp
  from take_sum_bound [OF this month_lengths_pos] show ?thesis
    by (simp add: days_before_month_def year_length)
qed

text \<open>A month and day that exist are the date of their day: the calendar round trip.\<close>

lemma civil_date_day:
  assumes m: "1 \<le> m" "m \<le> 12" and d: "1 \<le> d" "d \<le> month_lengths y ! (m - 1)"
  shows "civil (date_day y m d) = (y, m, d)"
proof -
  have "(m - 1) div 12 = 0" "(m - 1) mod 12 + 1 = m" using m by simp_all
  then have n: "date_day y m d + epoch_days = days_before_year y + (days_before_month y m + (d - 1))"
    by (simp add: date_day_def Let_def)
  have "days_before_month y m + (d - 1) < 365 + (if is_leap y then 1 else 0)"
    "0 \<le> days_before_month y m + (d - 1)"
    using days_before_month_bound [OF m, of y] d by linarith+
  then have "year_and_yday (date_day y m d + epoch_days) = (y, days_before_month y m + (d - 1))"
    unfolding n using year_unique [of y] days_before_year_next [of y] by simp
  moreover have "month_scan (month_lengths y) 1 (days_before_month y m + (d - 1)) = (m, d)"
    using month_scan_unique [of "m - 1" "month_lengths y" "d - 1" 1] m d
    by (simp add: days_before_month_def) (simp add: month_lengths_def)
  ultimately show ?thesis by (simp add: civil_def)
qed

lemma next_month_day:
  assumes "1 \<le> m" "m \<le> 12"
  shows "date_day y (m + 1) 1 = date_day y m 1 + month_lengths y ! (m - 1)"
proof (cases "m = 12")
  case True
  have "days_before_month y 12 + 31 = 365 + (if is_leap y then 1 else 0)"
    by (simp add: days_before_month_def month_lengths_def)
  then show ?thesis using days_before_year_next [of y] True
    by (simp add: date_day_def days_before_month_def Let_def) (simp add: month_lengths_def)
next
  case False
  then have i: "m - 1 < List.length (month_lengths y)" "Suc (m - 1) = m" "m < 12" using assms by simp_all
  from take_Suc_conv_app_nth [OF i(1), unfolded i(2)]
  have "days_before_month y (m + 1) = days_before_month y m + month_lengths y ! (m - 1)"
    by (simp add: days_before_month_def)
  then show ?thesis using i(3) assms(1) by (simp add: date_day_def Let_def)
qed

text \<open>Up to the first of the next month, the month stays what it is.\<close>

lemma month_until_next:
  assumes "civil day = (y, m, d)" and "day \<le> e" and "e < date_day y (m + 1) 1"
  shows "civil e = (y, m, d + (e - day))" and "day < date_day y (m + 1) 1"
proof -
  note c = civil_correct [OF assms(1)]
  have nm: "date_day y (m + 1) 1 = date_day y m 1 + month_lengths y ! (m - 1)"
    by (rule next_month_day) (use c in simp_all)
  have lin: "date_day y m k = date_day y m 1 + k - 1" for k by (simp add: date_day_def Let_def)
  have day: "day = date_day y m 1 + d - 1" using c(2) lin [of d] by simp
  have "e = date_day y m (d + (e - day))" using day lin [of "d + (e - day)"] by simp
  moreover have "civil (date_day y m (d + (e - day))) = (y, m, d + (e - day))"
    by (rule civil_date_day) (use c day nm assms in simp_all)
  ultimately show "civil e = (y, m, d + (e - day))" by simp
  show "day < date_day y (m + 1) 1" using c day nm by simp
qed

section \<open>Clock fields and durations\<close>

definition second_ns :: int where "second_ns = 1000000000"
definition minute_ns :: int where "minute_ns = 60 * second_ns"
definition hour_ns :: int where "hour_ns = 60 * minute_ns"
definition day_ns :: int where "day_ns = 24 * hour_ns"

lemmas duration_defs = second_ns_def minute_ns_def hour_ns_def day_ns_def

definition day_of :: "int \<Rightarrow> int" where "day_of t = t div day_ns"
definition hour_of :: "int \<Rightarrow> int" where "hour_of t = (t div hour_ns) mod 24"
definition minute_of :: "int \<Rightarrow> int" where "minute_of t = (t div minute_ns) mod 60"

text \<open>\<open>t.Truncate(d)\<close> for a unit that divides the day.\<close>
definition truncate_to :: "int \<Rightarrow> int \<Rightarrow> int" where "truncate_to unit t = t div unit * unit"

lemma truncate_next:
  assumes "0 < unit"
  shows "t < truncate_to unit (t + unit)" and "truncate_to unit (t + unit) = (t div unit + 1) * unit"
    and "\<lbrakk>t \<le> v; v < truncate_to unit (t + unit)\<rbrakk> \<Longrightarrow> v div unit = t div unit"
proof -
  show e: "truncate_to unit (t + unit) = (t div unit + 1) * unit"
    using assms by (simp add: truncate_to_def div_add_self2)
  have b: "t div unit * unit \<le> t" "t < (t div unit + 1) * unit"
    using div_mult_mod_eq [of t unit] pos_mod_bound [OF assms, of t] pos_mod_sign [OF assms, of t]
    unfolding distrib_right by linarith+
  then show "t < truncate_to unit (t + unit)" by (simp add: e)
  assume "t \<le> v" "v < truncate_to unit (t + unit)"
  then have "t div unit \<le> v div unit" using assms by (simp add: zdiv_mono1)
  moreover have "v div unit < t div unit + 1"
  proof -
    have "unit * (v div unit) \<le> v"
      using mult_div_mod_eq [of unit v] pos_mod_sign [OF assms, of v] by linarith
    also have "v < unit * (t div unit + 1)"
      using \<open>v < truncate_to unit (t + unit)\<close> by (simp add: e mult.commute)
    finally show ?thesis using assms by (simp add: mult_less_cancel_left_pos)
  qed
  ultimately show "v div unit = t div unit" by linarith
qed

end
