(* ===== verification/Cron_Schedule.thy ===== *)
theory Cron_Schedule
  imports Prelude Go_Json Go_Time
begin

text \<open>
  The cron schedule of the collector (\<open>internal/collector/scheduler.go\<close>): the parser of the
  five-field expressions and the search for the next time a schedule fires. Times are in UTC (see
  \<open>Go_Time\<close>). The key set of a \<open>map[int]bool\<close> is the list of its keys. \<open>int\<close> has 64 bits and
  wraps around, which \<open>atoi\<close> and the loop over a range can do.
\<close>

section \<open>Parsing\<close>

record cron_field =
  cf_values :: "int list"
  cf_min :: int
  cf_max :: int

record cron_schedule =
  cs_expr :: string
  cs_fields :: "cron_field list"

datatype part_error =
    Invalid_step string
  | Invalid_range_start string
  | Invalid_range_end string
  | Range_out_of_bounds int int
  | Invalid_value string
  | Value_out_of_bounds int
  | No_values

datatype cron_error = Wrong_field_count nat | Bad_field nat part_error

text \<open>The state of the two splitters: the parts so far, and the one being read.\<close>

definition flush :: "string \<Rightarrow> string list" where
  "flush cur = (if cur = [] then [] else [cur])"

fun split_on :: "(char \<Rightarrow> bool) \<Rightarrow> string \<Rightarrow> string \<Rightarrow> string list" where
  "split_on sep cur [] = flush cur"
| "split_on sep cur (ch # s) =
     (if sep ch then flush cur @ split_on sep [] s else split_on sep (cur @ [ch]) s)"

definition split_fields :: "string \<Rightarrow> string list" where
  "split_fields s = split_on (\<lambda>ch. ch = CHR '' '' \<or> ch = CHR 0x09) [] s"

definition split_on_comma :: "string \<Rightarrow> string list" where
  "split_on_comma s = split_on (\<lambda>ch. ch = CHR '','') [] s"

definition index_byte :: "string \<Rightarrow> char \<Rightarrow> nat option" where
  "index_byte s b = index_of [b] s"

fun atoi_loop :: "int \<Rightarrow> string \<Rightarrow> int option" where
  "atoi_loop n [] = Some n"
| "atoi_loop n (ch # s) =
     (if is_digit ch then atoi_loop (int64 (int64 (n * 10) + int (digit_val ch))) s else None)"

definition atoi :: "string \<Rightarrow> int option" where
  "atoi s = (if s = [] then None else atoi_loop 0 s)"

definition normalise :: "int \<Rightarrow> int \<Rightarrow> int \<Rightarrow> int" where
  "normalise v mn mx = (if mn = 0 \<and> mx = 6 \<and> v = 7 then 0 else v)"

text \<open>
  \<open>for i := lo; i <= hi; i += step\<close>. A field spans at most 60 values, so the loop ends within 60
  rounds unless \<open>i += step\<close> wraps around, which can add at most 60 pairs of rounds more.
\<close>

fun range_values :: "nat \<Rightarrow> int \<Rightarrow> int \<Rightarrow> int \<Rightarrow> int list" where
  "range_values 0 i hi step = []"
| "range_values (Suc fuel) i hi step =
     (if i \<le> hi then i # range_values fuel (int64 (i + step)) hi step else [])"

definition range_fuel :: nat where "range_fuel = 200"

definition parse_step :: "string \<Rightarrow> part_error + string \<times> int" where
  "parse_step part =
     (case index_byte part CHR ''/'' of
        None \<Rightarrow> Inr (part, 1)
      | Some k \<Rightarrow>
          (case atoi (drop (k + 1) part) of
             None \<Rightarrow> Inl (Invalid_step (drop (k + 1) part))
           | Some s \<Rightarrow> if s \<le> 0 then Inl (Invalid_step (drop (k + 1) part)) else Inr (take k part, s)))"

definition parse_range :: "string \<Rightarrow> nat \<Rightarrow> int \<Rightarrow> int \<Rightarrow> int \<Rightarrow> part_error + int list" where
  "parse_range part k step mn mx =
     (case atoi (take k part) of
        None \<Rightarrow> Inl (Invalid_range_start (take k part))
      | Some lo \<Rightarrow>
          (case atoi (drop (k + 1) part) of
             None \<Rightarrow> Inl (Invalid_range_end (drop (k + 1) part))
           | Some hi \<Rightarrow>
               if lo < mn \<or> hi > mx \<or> lo > hi then Inl (Range_out_of_bounds lo hi)
               else Inr (map (\<lambda>i. normalise i mn mx) (range_values range_fuel lo hi step))))"

definition parse_literal :: "string \<Rightarrow> int \<Rightarrow> int \<Rightarrow> part_error + int list" where
  "parse_literal part mn mx =
     (case atoi part of
        None \<Rightarrow> Inl (Invalid_value part)
      | Some v0 \<Rightarrow>
          let v = normalise v0 mn mx
          in if v < mn \<or> v > mx then Inl (Value_out_of_bounds v) else Inr [v])"

text \<open>The values a part adds to the field.\<close>

definition parse_cron_part :: "string \<Rightarrow> int \<Rightarrow> int \<Rightarrow> part_error + int list" where
  "parse_cron_part part0 mn mx =
     (case parse_step part0 of
        Inl e \<Rightarrow> Inl e
      | Inr (part, step) \<Rightarrow>
          (case index_byte part CHR ''-'' of
             Some k \<Rightarrow> parse_range part k step mn mx
           | None \<Rightarrow>
               if part = ''*'' then Inr (range_values range_fuel mn mx step)
               else parse_literal part mn mx))"

fun parse_parts :: "string list \<Rightarrow> int \<Rightarrow> int \<Rightarrow> int list \<Rightarrow> part_error + int list" where
  "parse_parts [] mn mx vs = Inr vs"
| "parse_parts (part # parts) mn mx vs =
     (case parse_cron_part part mn mx of
        Inl e \<Rightarrow> Inl e
      | Inr new \<Rightarrow> parse_parts parts mn mx (vs @ new))"

definition parse_cron_field :: "string \<Rightarrow> int \<Rightarrow> int \<Rightarrow> part_error + cron_field" where
  "parse_cron_field field mn mx =
     (case parse_parts (split_on_comma field) mn mx [] of
        Inl e \<Rightarrow> Inl e
      | Inr vs \<Rightarrow>
          if vs = [] then Inl No_values
          else Inr \<lparr>cf_values = vs, cf_min = mn, cf_max = mx\<rparr>)"

definition cron_bounds :: "(int \<times> int) list" where
  "cron_bounds = [(0, 59), (0, 23), (1, 31), (1, 12), (0, 6)]"

fun parse_fields :: "nat \<Rightarrow> string list \<Rightarrow> (int \<times> int) list \<Rightarrow> cron_error + cron_field list" where
  "parse_fields i (f # fs) ((mn, mx) # bs) =
     (case parse_cron_field f mn mx of
        Inl e \<Rightarrow> Inl (Bad_field (i + 1) e)
      | Inr cf \<Rightarrow>
          (case parse_fields (i + 1) fs bs of Inl e \<Rightarrow> Inl e | Inr cfs \<Rightarrow> Inr (cf # cfs)))"
| "parse_fields i _ _ = Inr []"

definition parse_schedule :: "string \<Rightarrow> cron_error + cron_schedule" where
  "parse_schedule expr =
     (let fields = split_fields expr
      in if List.length fields \<noteq> 5 then Inl (Wrong_field_count (List.length fields))
         else case parse_fields 0 fields cron_bounds of
                Inl e \<Rightarrow> Inl e
              | Inr cfs \<Rightarrow> Inr \<lparr>cs_expr = expr, cs_fields = cfs\<rparr>)"

section \<open>The next firing time\<close>

definition field_has :: "cron_schedule \<Rightarrow> nat \<Rightarrow> int \<Rightarrow> bool" where
  "field_has cs i v = (v \<in> set (cf_values (cs_fields cs ! i)))"

definition first_of_next_month :: "int \<Rightarrow> int" where
  "first_of_next_month t =
     date_day (year_of (day_of t)) (month_of (day_of t) + 1) 1 * day_ns"

lemma first_of_next_month_facts:
  "t < first_of_next_month t"
  "\<lbrakk>t \<le> v; v < first_of_next_month t\<rbrakk> \<Longrightarrow> month_of (day_of v) = month_of (day_of t)"
proof -
  obtain y m d where c: "civil (day_of t) = (y, m, d)" by (metis prod_cases3)
  let ?n = "date_day y (m + 1) 1"
  have n: "first_of_next_month t = ?n * day_ns"
    by (simp add: first_of_next_month_def year_of_def month_of_def c)
  have pos: "0 < day_ns" by (simp add: duration_defs)
  have day: "v < k * day_ns \<longleftrightarrow> day_of v < k" for v k
  proof -
    have "day_ns * day_of v \<le> v" "v < day_ns * (day_of v + 1)"
      using mult_div_mod_eq [of day_ns v] pos_mod_bound [OF pos, of v] pos_mod_sign [OF pos, of v]
      unfolding day_of_def distrib_left by linarith+
    then show ?thesis
      using mult_le_cancel_left_pos [OF pos, of "day_of v + 1" k]
        mult_le_cancel_left_pos [OF pos, of k "day_of v"]
      by (simp add: mult.commute) linarith
  qed
  have "1 \<le> m \<and> m \<le> 12 \<and> 1 \<le> d \<and> d \<le> month_lengths y ! (m - 1)" "date_day y m d = day_of t"
    by (rule civil_correct [OF c])+
  then have "day_of t < ?n" using next_month_day [of m y] by (simp add: date_day_def Let_def)
  then show "t < first_of_next_month t" by (simp add: n day)
  assume v: "t \<le> v" "v < first_of_next_month t"
  then have "day_of t \<le> day_of v" "day_of v < ?n"
    using pos by (simp_all add: n day) (simp add: day_of_def zdiv_mono1)
  then show "month_of (day_of v) = month_of (day_of t)"
    using month_until_next(1) [OF c] by (simp add: month_of_def c)
qed

lemma units_pos: "0 < minute_ns" "0 < hour_ns" "0 < day_ns"
  by (simp_all add: duration_defs)

function cron_next_loop :: "cron_schedule \<Rightarrow> int \<Rightarrow> int \<Rightarrow> int option" where
  "cron_next_loop cs limit t =
     (if \<not> t < limit then None
      else if \<not> field_has cs 3 (int (month_of (day_of t)))
      then cron_next_loop cs limit (first_of_next_month t)
      else if \<not> field_has cs 2 (mday_of (day_of t))
      then cron_next_loop cs limit (truncate_to day_ns (t + day_ns))
      else if \<not> field_has cs 4 (weekday_of (day_of t))
      then cron_next_loop cs limit (truncate_to day_ns (t + day_ns))
      else if \<not> field_has cs 1 (hour_of t)
      then cron_next_loop cs limit (truncate_to hour_ns (t + hour_ns))
      else if \<not> field_has cs 0 (minute_of t)
      then cron_next_loop cs limit (t + minute_ns)
      else Some t)"
  by pat_completeness auto

termination
  by (relation "measure (\<lambda>(cs, limit, t). nat (limit - t))")
     (use first_of_next_month_facts(1) truncate_next(1) units_pos in auto)

declare cron_next_loop.simps [simp del]

definition cron_next :: "cron_schedule \<Rightarrow> int \<Rightarrow> int option" where
  "cron_next cs after =
     cron_next_loop cs (after + 4 * 365 * 24 * hour_ns) (truncate_to minute_ns after + minute_ns)"

text \<open>
  The head of the scheduler's loop: how long to wait for the next run, or none when the loop
  ends because the schedule is said never to fire again; and what a tick does.
\<close>

definition loop_wait :: "cron_schedule \<Rightarrow> int \<Rightarrow> int option" where
  "loop_wait cs now =
     (case cron_next cs now of
        None \<Rightarrow> None
      | Some next_fire \<Rightarrow> Some (let delay = next_fire - now in if delay < 0 then 0 else delay))"

datatype tick = Skipped | Paused | Ran

definition on_tick :: "bool \<Rightarrow> bool \<Rightarrow> bool \<Rightarrow> tick" where
  "on_tick is_running pause_on_critical critical =
     (if is_running then Skipped else if pause_on_critical \<and> critical then Paused else Ran)"

section \<open>The search finds the first matching minute\<close>

text \<open>What it means for a schedule to fire at a time, and the plain specification of the search.\<close>

definition fires_at :: "cron_schedule \<Rightarrow> int \<Rightarrow> bool" where
  "fires_at cs t \<longleftrightarrow>
     field_has cs 3 (int (month_of (day_of t))) \<and> field_has cs 2 (mday_of (day_of t))
     \<and> field_has cs 4 (weekday_of (day_of t)) \<and> field_has cs 1 (hour_of t)
     \<and> field_has cs 0 (minute_of t)"

definition first_firing :: "cron_schedule \<Rightarrow> int \<Rightarrow> int \<Rightarrow> int \<Rightarrow> bool" where
  "first_firing cs t limit u \<longleftrightarrow>
     t \<le> u \<and> u < limit \<and> fires_at cs u \<and> (\<forall>v. t \<le> v \<and> v < u \<longrightarrow> \<not> fires_at cs v)"

lemma finer_unit:
  assumes "v div minute_ns = t div minute_ns"
  shows "minute_of v = minute_of t \<and> v div hour_ns = t div hour_ns"
proof -
  have "w div hour_ns = w div minute_ns div 60" for w
    by (simp add: duration_defs zdiv_zmult2_eq)
  with assms show ?thesis by (simp add: minute_of_def)
qed

lemma hour_unit:
  assumes "v div hour_ns = t div hour_ns"
  shows "hour_of v = hour_of t \<and> day_of v = day_of t"
proof -
  have "w div day_ns = w div hour_ns div 24" for w
    by (simp add: duration_defs zdiv_zmult2_eq)
  with assms show ?thesis by (simp add: hour_of_def day_of_def)
qed

lemma idle_hour:
  "\<not> field_has cs 1 (hour_of t) \<Longrightarrow> v div hour_ns = t div hour_ns \<Longrightarrow> \<not> fires_at cs v"
  using hour_unit [of v t] by (simp add: fires_at_def)

lemma idle_minute:
  "\<not> field_has cs 0 (minute_of t) \<Longrightarrow> v div minute_ns = t div minute_ns \<Longrightarrow> \<not> fires_at cs v"
  using finer_unit [of v t] by (simp add: fires_at_def)

text \<open>Skipping to a later time where nothing fires in between changes nothing.\<close>

lemma skip_idle:
  assumes "t < t'" and "\<And>v. t \<le> v \<Longrightarrow> v < t' \<Longrightarrow> \<not> fires_at cs v"
  shows "first_firing cs t limit u \<longleftrightarrow> first_firing cs t' limit u"
  using assms unfolding first_firing_def by (meson linorder_not_le order.trans order_less_imp_le)

lemma aligned_minute:
  assumes "minute_ns dvd t" and "t \<le> v" and "v < t + minute_ns"
  shows "v div minute_ns = t div minute_ns"
proof -
  from assms(1) obtain k where k: "t = minute_ns * k" by blast
  have "v div minute_ns = k"
    by (rule int_div_pos_eq [where r = "v - t"]) (use assms k in simp_all)
  then show ?thesis using k units_pos(1) by simp
qed

lemma dvd_units: "minute_ns dvd hour_ns" "hour_ns dvd day_ns" "minute_ns dvd day_ns"
  by (simp_all add: duration_defs)

lemma cron_next_loop_correct:
  assumes "minute_ns dvd t"
  shows "cron_next_loop cs limit t = Some u \<longleftrightarrow> first_firing cs t limit u"
  using assms
proof (induction cs limit t rule: cron_next_loop.induct)
  case (1 cs limit t)
  have dv: "minute_ns dvd truncate_to day_ns v" "minute_ns dvd truncate_to hour_ns v"
    "minute_ns dvd first_of_next_month v" for v
    unfolding truncate_to_def first_of_next_month_def by (simp_all add: dvd_units dvd_mult)
  have idle: "first_firing cs t limit u \<longleftrightarrow> first_firing cs t' limit u"
    if "t < t'" "\<And>v. t \<le> v \<Longrightarrow> v < t' \<Longrightarrow> \<not> fires_at cs v" for t'
    by (rule skip_idle [OF that])
  consider (over) "\<not> t < limit"
    | (month) "t < limit" "\<not> field_has cs 3 (int (month_of (day_of t)))"
    | (day) "t < limit" "field_has cs 3 (int (month_of (day_of t)))"
        "\<not> field_has cs 2 (mday_of (day_of t))"
    | (dow) "t < limit" "field_has cs 3 (int (month_of (day_of t)))"
        "field_has cs 2 (mday_of (day_of t))" "\<not> field_has cs 4 (weekday_of (day_of t))"
    | (hour) "t < limit" "field_has cs 3 (int (month_of (day_of t)))"
        "field_has cs 2 (mday_of (day_of t))" "field_has cs 4 (weekday_of (day_of t))"
        "\<not> field_has cs 1 (hour_of t)"
    | (minute) "t < limit" "field_has cs 3 (int (month_of (day_of t)))"
        "field_has cs 2 (mday_of (day_of t))" "field_has cs 4 (weekday_of (day_of t))"
        "field_has cs 1 (hour_of t)" "\<not> field_has cs 0 (minute_of t)"
    | (hit) "t < limit" "fires_at cs t"
    by (auto simp: fires_at_def)
  then show ?case
  proof cases
    case over
    then show ?thesis by (subst cron_next_loop.simps) (auto simp: first_firing_def)
  next
    case month
    have "first_firing cs t limit u \<longleftrightarrow> first_firing cs (first_of_next_month t) limit u"
      by (rule idle [OF first_of_next_month_facts(1)])
         (use first_of_next_month_facts(2) month in \<open>simp add: fires_at_def\<close>)
    moreover have "cron_next_loop cs limit t = cron_next_loop cs limit (first_of_next_month t)"
      by (subst cron_next_loop.simps) (simp add: month)
    ultimately show ?thesis using "1.IH"(1) month dv by simp
  next
    case day
    have "first_firing cs t limit u \<longleftrightarrow> first_firing cs (truncate_to day_ns (t + day_ns)) limit u"
      by (rule idle [OF truncate_next(1) [OF units_pos(3)]])
         (use truncate_next(3) [OF units_pos(3)] day in \<open>simp add: fires_at_def day_of_def\<close>)
    moreover have "cron_next_loop cs limit t = cron_next_loop cs limit (truncate_to day_ns (t + day_ns))"
      by (subst cron_next_loop.simps) (simp add: day)
    ultimately show ?thesis using "1.IH"(2) day dv by simp
  next
    case dow
    have "first_firing cs t limit u \<longleftrightarrow> first_firing cs (truncate_to day_ns (t + day_ns)) limit u"
      by (rule idle [OF truncate_next(1) [OF units_pos(3)]])
         (use truncate_next(3) [OF units_pos(3)] dow in \<open>simp add: fires_at_def day_of_def\<close>)
    moreover have "cron_next_loop cs limit t = cron_next_loop cs limit (truncate_to day_ns (t + day_ns))"
      by (subst cron_next_loop.simps) (simp add: dow)
    ultimately show ?thesis using "1.IH"(3) dow dv by simp
  next
    case hour
    have "first_firing cs t limit u \<longleftrightarrow> first_firing cs (truncate_to hour_ns (t + hour_ns)) limit u"
      by (rule idle [OF truncate_next(1) [OF units_pos(2)]])
         (rule idle_hour [OF hour(5) truncate_next(3) [OF units_pos(2)]])
    moreover have "cron_next_loop cs limit t = cron_next_loop cs limit (truncate_to hour_ns (t + hour_ns))"
      by (subst cron_next_loop.simps) (simp add: hour del: One_nat_def)
    ultimately show ?thesis using "1.IH"(4) hour dv by (simp del: One_nat_def)
  next
    case minute
    have "first_firing cs t limit u \<longleftrightarrow> first_firing cs (t + minute_ns) limit u"
      by (rule idle, simp add: units_pos, rule idle_minute [OF minute(6)])
         (rule aligned_minute [OF "1.prems"])
    moreover have "cron_next_loop cs limit t = cron_next_loop cs limit (t + minute_ns)"
      by (subst cron_next_loop.simps) (simp add: minute del: One_nat_def)
    ultimately show ?thesis using "1.IH"(5) minute "1.prems" by (simp del: One_nat_def)
  next
    case hit
    have "cron_next_loop cs limit t = Some t"
      by (subst cron_next_loop.simps) (use hit in \<open>simp add: fires_at_def del: One_nat_def\<close>)
    then show ?thesis using hit by (auto simp: first_firing_def)
  qed
qed

lemma first_firing_aligned:
  assumes "minute_ns dvd t"
  shows "first_firing cs t limit u \<longleftrightarrow>
     t \<le> u \<and> minute_ns dvd u \<and> u < limit \<and> fires_at cs u
     \<and> (\<forall>v. t \<le> v \<and> v < u \<and> minute_ns dvd v \<longrightarrow> \<not> fires_at cs v)"
proof -
  define fl where "fl v = minute_ns * (v div minute_ns)" for v
  have fl: "minute_ns dvd fl v" "fl v \<le> v" "fl v div minute_ns = v div minute_ns" for v
    using mult_div_mod_eq [of minute_ns v] pos_mod_sign [OF units_pos(1), of v] units_pos(1)
    unfolding fl_def by (simp, linarith, simp)
  have ge: "t \<le> fl v" if "t \<le> v" for v
  proof -
    have "minute_ns * (t div minute_ns) \<le> minute_ns * (v div minute_ns)"
      using zdiv_mono1 [OF that units_pos(1)] units_pos(1) by (simp add: mult_left_mono)
    then show ?thesis using assms by (simp add: fl_def)
  qed
  have same: "fires_at cs (fl v) = fires_at cs v" for v
    using finer_unit [OF fl(3) [of v]] hour_unit [of "fl v" v] by (simp add: fires_at_def)
  have id: "fl v = v" if "minute_ns dvd v" for v using that by (simp add: fl_def)
  show ?thesis
  proof
    assume f: "first_firing cs t limit u"
    then have "\<not> fl u < u" using ge same by (metis first_firing_def)
    then have "fl u = u" using fl(2) [of u] by linarith
    then show "t \<le> u \<and> minute_ns dvd u \<and> u < limit \<and> fires_at cs u
     \<and> (\<forall>v. t \<le> v \<and> v < u \<and> minute_ns dvd v \<longrightarrow> \<not> fires_at cs v)"
      using f fl(1) [of u] by (simp add: first_firing_def)
  next
    assume r: "t \<le> u \<and> minute_ns dvd u \<and> u < limit \<and> fires_at cs u
     \<and> (\<forall>v. t \<le> v \<and> v < u \<and> minute_ns dvd v \<longrightarrow> \<not> fires_at cs v)"
    have "\<not> fires_at cs v" if "t \<le> v" "v < u" for v
      using r that ge [of v] fl(1,2) [of v] same [of v] by (meson order_le_less_trans)
    then show "first_firing cs t limit u" using r by (simp add: first_firing_def)
  qed
qed

lemma next_minute:
  assumes "minute_ns dvd u"
  shows "truncate_to minute_ns t + minute_ns \<le> u \<longleftrightarrow> t < u"
proof -
  obtain k where k: "u = minute_ns * k" using assms by blast
  have b: "minute_ns * (t div minute_ns) \<le> t" "t < minute_ns * (t div minute_ns) + minute_ns"
    using mult_div_mod_eq [of minute_ns t] pos_mod_sign [OF units_pos(1), of t]
      pos_mod_bound [OF units_pos(1), of t] by linarith+
  have "truncate_to minute_ns t + minute_ns \<le> u \<longleftrightarrow> t div minute_ns + 1 \<le> k"
    using units_pos(1) by (simp add: truncate_to_def k mult.commute flip: distrib_left_numeral)
      (metis add.commute distrib_left mult.commute mult.right_neutral mult_le_cancel_left_pos)
  also have "\<dots> \<longleftrightarrow> t < u"
  proof
    assume "t div minute_ns + 1 \<le> k"
    then have "minute_ns * (t div minute_ns + 1) \<le> u"
      unfolding k using units_pos(1) by (simp add: mult_left_mono del: distrib_left)
    then show "t < u" using b by (simp add: distrib_left)
  next
    assume "t < u"
    then have "minute_ns * (t div minute_ns) < minute_ns * k" using b k by linarith
    then show "t div minute_ns + 1 \<le> k" using units_pos(1) by (simp add: mult_less_cancel_left_pos)
  qed
  finally show ?thesis .
qed

section \<open>What the parser accepts\<close>

lemma atoi_loop_bound:
  assumes "atoi_loop n s = Some v" and "0 \<le> n" "n < 10 ^ k" and "k + List.length s \<le> 18"
  shows "0 \<le> v \<and> v < 10 ^ 18"
  using assms
proof (induction s arbitrary: n k)
  case Nil
  have "(10 :: int) ^ k \<le> 10 ^ 18" by (rule power_increasing) (use Nil in simp_all)
  then show ?case using Nil by simp
next
  case (Cons ch s)
  have d: "is_digit ch" using Cons.prems(1) by (simp split: if_splits)
  then have dig: "int (digit_val ch) < 10" by (simp add: is_digit_def digit_val_def)
  have k: "(10 :: int) ^ Suc k \<le> 10 ^ 18" by (rule power_increasing) (use Cons.prems in simp_all)
  have b: "0 \<le> n * 10 + int (digit_val ch)" "n * 10 + int (digit_val ch) < 10 ^ Suc k"
    using Cons.prems(2,3) dig by simp_all
  have "int64 (n * 10) = n * 10"
    by (rule int64_id) (use Cons.prems(2,3) k in simp_all)
  moreover have "int64 (n * 10 + int (digit_val ch)) = n * 10 + int (digit_val ch)"
    by (rule int64_id) (use b k in simp_all)
  ultimately have "atoi_loop (n * 10 + int (digit_val ch)) s = Some v"
    using Cons.prems(1) d by simp
  then show ?case using Cons.IH [OF _ b] Cons.prems(4) by simp
qed

lemma atoi_bound: "atoi s = Some v \<Longrightarrow> List.length s \<le> 18 \<Longrightarrow> 0 \<le> v \<and> v < 10 ^ 18"
  using atoi_loop_bound [of 0 s v 0] by (simp add: atoi_def split: if_splits)

lemma range_values_set:
  assumes "0 \<le> i" "hi \<le> 59" "0 < step" "step < 10 ^ 18" "hi - i < int fuel"
  shows "set (range_values fuel i hi step) = {v. i \<le> v \<and> v \<le> hi \<and> step dvd (v - i)}"
  using assms
proof (induction fuel arbitrary: i)
  case (Suc fuel)
  show ?case
  proof (cases "i \<le> hi")
    case True
    have n: "int64 (i + step) = i + step" by (rule int64_id) (use Suc.prems True in simp_all)
    have "set (range_values fuel (i + step) hi step)
        = {v. i + step \<le> v \<and> v \<le> hi \<and> step dvd (v - (i + step))}"
      by (rule Suc.IH) (use Suc.prems True in simp_all)
    moreover have "i \<le> v \<and> step dvd (v - i) \<longleftrightarrow> v = i \<or> (i + step \<le> v \<and> step dvd (v - (i + step)))" for v
    proof -
      have e: "step dvd (v - (i + step)) \<longleftrightarrow> step dvd (v - i)"
        using dvd_add_times_triv_right_iff [of step "v - i" "- 1"] by (simp add: diff_diff_eq)
      show ?thesis
      proof
        assume l: "i \<le> v \<and> step dvd (v - i)"
        have "i + step \<le> v" if "v \<noteq> i" using zdvd_imp_le [of step "v - i"] l that by linarith
        then show "v = i \<or> (i + step \<le> v \<and> step dvd (v - (i + step)))" using l e by blast
      next
        assume "v = i \<or> (i + step \<le> v \<and> step dvd (v - (i + step)))"
        then show "i \<le> v \<and> step dvd (v - i)"
        proof
          assume "v = i"
          then show ?thesis by simp
        next
          assume "i + step \<le> v \<and> step dvd (v - (i + step))"
          then show ?thesis using e \<open>0 < step\<close> by linarith
        qed
      qed
    qed
    ultimately show ?thesis using True n by auto
  qed auto
qed auto

lemma split_on_lengths:
  "part \<in> set (split_on sep cur s) \<Longrightarrow> List.length part \<le> List.length cur + List.length s"
  by (induction sep cur s rule: split_on.induct) (auto simp: flush_def split: if_splits)

definition in_bounds :: "int \<Rightarrow> int \<Rightarrow> int list \<Rightarrow> bool" where
  "in_bounds mn mx vs = (\<forall>v\<in>set vs. mn \<le> v \<and> v \<le> mx)"

lemma parse_step_bounds:
  assumes "parse_step part0 = Inr (part, step)" and "List.length part0 \<le> 18"
  shows "List.length part \<le> 18 \<and> 0 < step \<and> step < 10 ^ 18"
proof (cases "index_byte part0 CHR ''/''")
  case (Some k)
  then obtain s where s: "atoi (drop (k + 1) part0) = Some s" "0 < s" "part = take k part0" "step = s"
    using assms(1) by (auto simp: parse_step_def split: option.splits if_splits)
  then show ?thesis using atoi_bound [OF s(1)] assms(2) by simp
qed (use assms in \<open>auto simp: parse_step_def\<close>)

lemma parse_cron_part_bounds:
  assumes "parse_cron_part part0 mn mx = Inr vs" and "List.length part0 \<le> 18"
    and b: "0 \<le> mn" "mn \<le> mx" "mx \<le> 59"
  shows "in_bounds mn mx vs"
proof -
  from assms(1) obtain part step where st: "parse_step part0 = Inr (part, step)"
    by (auto simp: parse_cron_part_def split: sum.splits)
  note sb = parse_step_bounds [OF st assms(2)]
  show ?thesis
  proof (cases "index_byte part CHR ''-''")
    case (Some k)
    then have "parse_range part k step mn mx = Inr vs"
      using assms(1) st by (simp add: parse_cron_part_def)
    then obtain lo hi where r0: "\<not> (lo < mn \<or> hi > mx \<or> lo > hi)"
        "vs = map (\<lambda>i. normalise i mn mx) (range_values range_fuel lo hi step)"
      unfolding parse_range_def by (auto simp del: de_Morgan_disj split: option.splits if_split_asm)
    then have r: "mn \<le> lo" "hi \<le> mx" "lo \<le> hi"
        "vs = map (\<lambda>i. normalise i mn mx) (range_values range_fuel lo hi step)" by simp_all
    have "set (range_values range_fuel lo hi step) = {v. lo \<le> v \<and> v \<le> hi \<and> step dvd (v - lo)}"
      by (rule range_values_set) (use r b sb in \<open>simp_all add: range_fuel_def\<close>)
    then show ?thesis using r by (auto simp: in_bounds_def normalise_def)
  next
    case None
    show ?thesis
    proof (cases "part = ''*''")
      case True
      have "set (range_values range_fuel mn mx step) = {v. mn \<le> v \<and> v \<le> mx \<and> step dvd (v - mn)}"
        by (rule range_values_set) (use b sb in \<open>simp_all add: range_fuel_def\<close>)
      then show ?thesis using True None assms(1) st by (auto simp: parse_cron_part_def in_bounds_def)
    next
      case False
      then have "parse_literal part mn mx = Inr vs"
        using None assms(1) st by (simp add: parse_cron_part_def)
      then show ?thesis
        by (auto simp: parse_literal_def Let_def in_bounds_def split: option.splits if_splits)
    qed
  qed
qed

lemma parse_parts_bounds:
  assumes "parse_parts parts mn mx vs0 = Inr vs" and "\<forall>part\<in>set parts. List.length part \<le> 18"
    and "0 \<le> mn" "mn \<le> mx" "mx \<le> 59" and "in_bounds mn mx vs0"
  shows "in_bounds mn mx vs"
  using assms
proof (induction parts arbitrary: vs0)
  case (Cons part parts)
  then obtain new where n: "parse_cron_part part mn mx = Inr new"
      "parse_parts parts mn mx (vs0 @ new) = Inr vs"
    by (auto split: sum.splits)
  have "in_bounds mn mx new" by (rule parse_cron_part_bounds [OF n(1)]) (use Cons.prems in simp_all)
  then have "in_bounds mn mx (vs0 @ new)" using Cons.prems(6) by (auto simp: in_bounds_def)
  then show ?case using Cons.IH [OF n(2)] Cons.prems by simp
qed simp

lemma parse_cron_field_bounds:
  assumes "parse_cron_field f mn mx = Inr cf" and "List.length f \<le> 18"
    and "0 \<le> mn" "mn \<le> mx" "mx \<le> 59"
  shows "cf_values cf \<noteq> [] \<and> in_bounds mn mx (cf_values cf)"
proof -
  from assms(1) obtain vs where vs: "parse_parts (split_on_comma f) mn mx [] = Inr vs" "vs \<noteq> []"
      "cf = \<lparr>cf_values = vs, cf_min = mn, cf_max = mx\<rparr>"
    by (auto simp: parse_cron_field_def split: sum.splits if_splits)
  have "\<forall>part\<in>set (split_on_comma f). List.length part \<le> 18"
    using split_on_lengths [of _ "\<lambda>ch. ch = CHR '',''" "[]" f] assms(2)
    by (fastforce simp: split_on_comma_def)
  from parse_parts_bounds [OF vs(1) this assms(3-5)] show ?thesis using vs by (simp add: in_bounds_def)
qed

lemma parse_fields_bounds:
  assumes "parse_fields i fs bs = Inr cfs" and "List.length fs = List.length bs"
    and "\<forall>f\<in>set fs. List.length f \<le> 18"
    and "\<forall>(mn, mx)\<in>set bs. 0 \<le> mn \<and> mn \<le> mx \<and> mx \<le> 59"
  shows "list_all2 (\<lambda>cf (mn, mx). cf_values cf \<noteq> [] \<and> in_bounds mn mx (cf_values cf)) cfs bs"
  using assms
proof (induction i fs bs arbitrary: cfs rule: parse_fields.induct)
  case (1 i f fs mn mx bs)
  then obtain cf rest where c: "parse_cron_field f mn mx = Inr cf"
      "parse_fields (i + 1) fs bs = Inr rest" "cfs = cf # rest"
    by (auto split: sum.splits)
  have "cf_values cf \<noteq> [] \<and> in_bounds mn mx (cf_values cf)"
    by (rule parse_cron_field_bounds [OF c(1)]) (use "1.prems" in auto)
  then show ?case using "1.IH" [OF c(1,2)] "1.prems" c(3) by simp
qed simp_all

section \<open>Properties\<close>

definition leap_schedule :: cron_schedule where
  "leap_schedule = (case parse_schedule ''0 0 29 2 *'' of Inr cs \<Rightarrow> cs | Inl _ \<Rightarrow> \<lparr>cs_expr = [], cs_fields = []\<rparr>)"

lemma cron_next_spec:
  "cron_next cs after = Some u \<longleftrightarrow>
     after < u \<and> minute_ns dvd u \<and> u < after + 4 * 365 * 24 * hour_ns \<and> fires_at cs u
     \<and> (\<forall>v. after < v \<and> v < u \<and> minute_ns dvd v \<longrightarrow> \<not> fires_at cs v)"
proof -
  let ?t = "truncate_to minute_ns after + minute_ns"
  have d: "minute_ns dvd ?t" by (simp add: truncate_to_def)
  have "cron_next cs after = Some u \<longleftrightarrow> first_firing cs ?t (after + 4 * 365 * 24 * hour_ns) u"
    unfolding cron_next_def by (rule cron_next_loop_correct [OF d])
  also have "\<dots> \<longleftrightarrow> after < u \<and> minute_ns dvd u \<and> u < after + 4 * 365 * 24 * hour_ns
     \<and> fires_at cs u \<and> (\<forall>v. after < v \<and> v < u \<and> minute_ns dvd v \<longrightarrow> \<not> fires_at cs v)"
    unfolding first_firing_aligned [OF d] using next_minute by blast
  finally show ?thesis .
qed

text \<open>C31: The search returns the first whole minute after the given time at which every field of
  the schedule holds, provided it lies within four times 365 days, and the zero time exactly when
  there is none; it always returns.\<close>

theorem next_is_first_firing:
  "cron_next cs after = Some u \<longleftrightarrow>
     after < u \<and> minute_ns dvd u \<and> u < after + 4 * 365 * 24 * hour_ns \<and> fires_at cs u
     \<and> (\<forall>v. after < v \<and> v < u \<and> minute_ns dvd v \<longrightarrow> \<not> fires_at cs v)"
  by (rule cron_next_spec)

theorem next_is_first_firing_witness:
  "cron_next leap_schedule (date_day 2024 2 28 * day_ns) = Some (date_day 2024 2 29 * day_ns)
   \<and> \<not> fires_at leap_schedule (date_day 2024 2 28 * day_ns + minute_ns)"
proof -
  have n: "cron_next leap_schedule (date_day 2024 2 28 * day_ns) = Some (date_day 2024 2 29 * day_ns)"
    by code_simp
  have "date_day 2024 2 28 * day_ns + minute_ns < date_day 2024 2 29 * day_ns" by code_simp
  moreover have "minute_ns dvd date_day 2024 2 28 * day_ns + minute_ns"
    by (simp add: dvd_units dvd_mult)
  ultimately show ?thesis using n next_is_first_firing units_pos(1) by (metis less_add_same_cancel1)
qed

text \<open>An accepted expression has five fields, none empty, and every value of a field lies in
  the bounds of its position, when no field is so long that its numbers could overflow.\<close>

theorem parsed_fields_in_bounds:
  assumes "parse_schedule expr = Inr cs"
    and "\<forall>f\<in>set (split_fields expr). List.length f \<le> 18"
  shows "List.length (cs_fields cs) = 5
         \<and> list_all2 (\<lambda>cf (mn, mx). cf_values cf \<noteq> [] \<and> (\<forall>v\<in>set (cf_values cf). mn \<le> v \<and> v \<le> mx))
             (cs_fields cs) cron_bounds"
proof -
  have p: "List.length (split_fields expr) = 5"
      "parse_fields 0 (split_fields expr) cron_bounds = Inr (cs_fields cs)"
    using assms(1) by (auto simp: parse_schedule_def Let_def split: sum.splits if_splits)
  have "list_all2 (\<lambda>cf (mn, mx). cf_values cf \<noteq> [] \<and> in_bounds mn mx (cf_values cf))
      (cs_fields cs) cron_bounds"
    by (rule parse_fields_bounds [OF p(2)]) (use p(1) assms(2) in \<open>simp_all add: cron_bounds_def\<close>)
  then show ?thesis
    by (auto simp: in_bounds_def cron_bounds_def dest: list_all2_lengthD
        elim!: list_all2_mono)
qed

theorem parsed_fields_in_bounds_witness:
  "\<exists>cs. parse_schedule ''*/15 1-5 1,15 * 7'' = Inr cs \<and> List.length (cs_fields cs) = 5"
proof -
  have f: "\<forall>f\<in>set (split_fields ''*/15 1-5 1,15 * 7''). List.length f \<le> 18" by code_simp
  have "\<not> isl (parse_schedule ''*/15 1-5 1,15 * 7'')" by code_simp
  then obtain cs where "parse_schedule ''*/15 1-5 1,15 * 7'' = Inr cs" by (metis sum.disc(1) sumE)
  then show ?thesis using parsed_fields_in_bounds [OF _ f] by blast
qed

text \<open>A schedule for the twenty-ninth of February fires on that day in 2028 as in 2024, but
  after its run in 2024 the search gives up, because four times 365 days are less than the four
  years between them, and the scheduler's loop ends for good.\<close>

theorem leap_day_schedule_stops:
  "fires_at leap_schedule (date_day 2024 2 29 * day_ns)
   \<and> fires_at leap_schedule (date_day 2028 2 29 * day_ns)
   \<and> loop_wait leap_schedule (date_day 2024 2 29 * day_ns) = None"
  by code_simp

text \<open>Seven is accepted for Sunday as a single value only, not as the end of a range; and a step
  after a single value is read and ignored.\<close>

theorem parser_limits:
  "parse_cron_field ''7'' 0 6 = Inr \<lparr>cf_values = [0], cf_min = 0, cf_max = 6\<rparr>
   \<and> parse_schedule ''0 0 * * 5-7'' = Inl (Bad_field 5 (Range_out_of_bounds 5 7))
   \<and> parse_cron_field ''5/15'' 0 59 = Inr \<lparr>cf_values = [5], cf_min = 0, cf_max = 59\<rparr>"
  by code_simp

end
