(* ===== verification/Go_Strconv.thy ===== *)
theory Go_Strconv
  imports Prelude Go_Json
begin

text \<open>
  The conversions between integers and decimal text the code takes from \<open>strconv\<close> and \<open>fmt\<close>:
  \<open>%d\<close> and \<open>FormatInt\<close> of a number that is not negative, and \<open>ParseInt(s, 10, 64)\<close>.
\<close>

function decimal :: "int \<Rightarrow> string" where
  "decimal n = (if n < 10 then [char_of (48 + n)] else decimal (n div 10) @ [char_of (48 + n mod 10)])"
  by pat_completeness auto
termination
  by (relation "measure nat") auto

declare decimal.simps [simp del]

definition digits_value :: "string \<Rightarrow> int" where
  "digits_value s = foldl (\<lambda>n c. n * 10 + int (digit_val c)) 0 s"

definition all_digits :: "string \<Rightarrow> bool" where
  "all_digits s = (s \<noteq> [] \<and> list_all is_digit s)"

definition in_int64 :: "int \<Rightarrow> bool" where
  "in_int64 n = (- (2 ^ 63) \<le> n \<and> n < 2 ^ 63)"

definition parse_int64 :: "string \<Rightarrow> int option" where
  "parse_int64 s =
     (let neg = (s \<noteq> [] \<and> hd s = CHR ''-'');
          body = (if s \<noteq> [] \<and> (hd s = CHR ''-'' \<or> hd s = CHR ''+'') then tl s else s);
          v = (if neg then - digits_value body else digits_value body)
      in if all_digits body \<and> in_int64 v then Some v else None)"

lemma digit_char:
  assumes "0 \<le> n" and "n < 10"
  shows "is_digit (char_of (48 + n))" "int (digit_val (char_of (48 + n))) = n"
proof -
  have "(of_char (char_of (48 + n) :: char) :: int) = 48 + n"
    using assms by (simp add: of_char_of)
  then have "int (of_char (char_of (48 + n) :: char)) = 48 + n"
    by (simp only: of_nat_of_char)
  then show "is_digit (char_of (48 + n))" "int (digit_val (char_of (48 + n))) = n"
    using assms unfolding is_digit_def digit_val_def by linarith+
qed

lemma decimal_digits: "0 \<le> n \<Longrightarrow> all_digits (decimal n)"
proof (induction n rule: decimal.induct)
  case (1 n)
  then show ?case
    by (subst decimal.simps) (auto simp: all_digits_def digit_char)
qed

lemma decimal_value: "0 \<le> n \<Longrightarrow> digits_value (decimal n) = n"
proof (induction n rule: decimal.induct)
  case (1 n)
  show ?case
  proof (cases "n < 10")
    case True
    then show ?thesis using 1(2) by (subst decimal.simps) (simp add: digits_value_def digit_char)
  next
    case False
    then have "digits_value (decimal (n div 10)) = n div 10" using 1 by simp
    then show ?thesis
      using False by (subst decimal.simps) (simp add: digits_value_def digit_char)
  qed
qed

lemma digits_no_sign: "all_digits s \<Longrightarrow> hd s \<noteq> CHR ''-'' \<and> hd s \<noteq> CHR ''+''"
  by (cases s) (auto simp: all_digits_def is_digit_def)

lemma digit_not_hyphen: "is_digit c \<Longrightarrow> c \<noteq> CHR ''-''"
  by (auto simp: is_digit_def)

lemma parse_decimal: "0 \<le> n \<Longrightarrow> n < 2 ^ 63 \<Longrightarrow> parse_int64 (decimal n) = Some n"
  using decimal_digits [of n] digits_no_sign [OF decimal_digits, of n]
  by (simp add: parse_int64_def decimal_value in_int64_def)

lemma digits_value_bound: "list_all is_digit s \<Longrightarrow> digits_value s < 10 ^ length s"
proof (induction s rule: rev_induct)
  case (snoc c s)
  then have "digits_value s < 10 ^ length s" "int (digit_val c) < 10"
    by (auto simp: is_digit_def digit_val_def)
  then show ?case by (simp add: digits_value_def)
qed (simp add: digits_value_def)

lemma decimal_length: "0 \<le> n \<Longrightarrow> 10 ^ k \<le> n \<Longrightarrow> k < length (decimal n)"
proof -
  assume "0 \<le> n" "10 ^ k \<le> n"
  moreover have "0 \<le> n \<Longrightarrow> n < 10 ^ length (decimal n)"
    using digits_value_bound [of "decimal n"] decimal_digits [of n]
    by (simp add: decimal_value all_digits_def)
  ultimately have "(10 :: int) ^ k < 10 ^ length (decimal n)" by linarith
  then show ?thesis by simp
qed

end
