(* ===== verification/Unified_Diff.thy ===== *)
theory Unified_Diff
  imports Prelude Go_Strconv
begin

text \<open>
  The diff shown in an autocorrect preview (\<open>internal/remediation/autocorrect.go\<close>): splitting
  into lines, the edit script by a table of longest common subsequences, its grouping into hunks
  with context, and the text of the diff. Files are maps from path to content; a map the code
  ranges over is the list of its keys in the order of the iteration.
\<close>

section \<open>Lines\<close>

definition lf :: char where "lf = CHR 0x0A"

text \<open>\<open>strings.SplitAfter(s, "\n")\<close>, and \<open>splitLines\<close>, which drops a last empty piece.\<close>

fun split_after :: "string \<Rightarrow> string \<Rightarrow> string list" where
  "split_after cur [] = [cur]"
| "split_after cur (c # s) =
     (if c = lf then (cur @ [c]) # split_after [] s else split_after (cur @ [c]) s)"

definition split_lines :: "string \<Rightarrow> string list" where
  "split_lines s =
     (if s = [] then []
      else let ls = split_after [] s in if last ls = [] then butlast ls else ls)"

definition strip_newline :: "string \<Rightarrow> string" where
  "strip_newline s = trim_right_by (\<lambda>c. c = CHR 0x0D \<or> c = lf) s"

definition same_line :: "string \<Rightarrow> string \<Rightarrow> bool" where
  "same_line x y = (strip_newline x = strip_newline y)"

section \<open>The edit script\<close>

datatype edit_op = Edit_equal | Edit_delete | Edit_insert

record edit =
  ed_op :: edit_op
  ed_line :: string

definition mk_edit :: "edit_op \<Rightarrow> string \<Rightarrow> edit" where
  "mk_edit op line = \<lparr>ed_op = op, ed_line = line\<rparr>"

text \<open>A row of the table from the row below it, from right to left; then all rows.\<close>

fun lcs_row :: "string \<Rightarrow> string list \<Rightarrow> nat list \<Rightarrow> nat list" where
  "lcs_row x [] below = [0]"
| "lcs_row x (y # ys) below =
     (let row = lcs_row x ys (tl below)
      in (if same_line x y then below ! 1 + 1
          else if below ! 0 \<ge> row ! 0 then below ! 0 else row ! 0) # row)"

fun lcs_table :: "string list \<Rightarrow> string list \<Rightarrow> nat list list" where
  "lcs_table [] b = [replicate (List.length b + 1) 0]"
| "lcs_table (x # xs) b = (let t = lcs_table xs b in lcs_row x b (t ! 0) # t)"

function walk_table ::
  "nat list list \<Rightarrow> string list \<Rightarrow> string list \<Rightarrow> nat \<Rightarrow> nat \<Rightarrow> edit list" where
  "walk_table lcs a b i j =
     (if i < List.length a \<and> j < List.length b then
        if same_line (a ! i) (b ! j) then mk_edit Edit_equal (b ! j) # walk_table lcs a b (i + 1) (j + 1)
        else if lcs ! (i + 1) ! j \<ge> lcs ! i ! (j + 1)
        then mk_edit Edit_delete (a ! i) # walk_table lcs a b (i + 1) j
        else mk_edit Edit_insert (b ! j) # walk_table lcs a b i (j + 1)
      else map (mk_edit Edit_delete) (drop i a) @ map (mk_edit Edit_insert) (drop j b))"
  by pat_completeness auto
termination
  by (relation "measure (\<lambda>(lcs, a, b, i, j). (List.length a - i) + (List.length b - j))") auto

declare walk_table.simps [simp del]

definition compute_edits :: "string list \<Rightarrow> string list \<Rightarrow> edit list" where
  "compute_edits a b = walk_table (lcs_table a b) a b 0 0"

section \<open>Hunks\<close>

record hunk =
  hk_orig_start :: nat
  hk_orig_count :: nat
  hk_new_start :: nat
  hk_new_count :: nat
  hk_lines :: "string list"

definition change_positions :: "edit list \<Rightarrow> nat list" where
  "change_positions edits = filter (\<lambda>i. ed_op (edits ! i) \<noteq> Edit_equal) [0..<List.length edits]"

fun group_changes :: "nat \<Rightarrow> nat \<Rightarrow> nat \<Rightarrow> nat list \<Rightarrow> (nat \<times> nat) list" where
  "group_changes ctx gs ge [] = [(gs, ge)]"
| "group_changes ctx gs ge (pos # ps) =
     (if pos - ge \<le> 2 * ctx then group_changes ctx gs (pos + 1) ps
      else (gs, ge) # group_changes ctx pos (pos + 1) ps)"

definition in_orig :: "edit \<Rightarrow> bool" where "in_orig e = (ed_op e \<noteq> Edit_insert)"
definition in_new :: "edit \<Rightarrow> bool" where "in_new e = (ed_op e \<noteq> Edit_delete)"

definition count_edits :: "(edit \<Rightarrow> bool) \<Rightarrow> edit list \<Rightarrow> nat" where
  "count_edits P es = List.length (filter P es)"

fun line_mark :: "edit_op \<Rightarrow> char" where
  "line_mark Edit_equal = CHR '' ''"
| "line_mark Edit_delete = CHR ''-''"
| "line_mark Edit_insert = CHR ''+''"

definition hunk_line :: "edit \<Rightarrow> string" where
  "hunk_line e = line_mark (ed_op e) # ed_line e"

definition make_hunk :: "edit list \<Rightarrow> nat \<Rightarrow> nat \<times> nat \<Rightarrow> hunk" where
  "make_hunk edits ctx g =
     (let hstart = fst g - ctx;
          hend = (if snd g + ctx > List.length edits then List.length edits else snd g + ctx);
          before = take hstart edits; body = drop hstart (take hend edits)
      in \<lparr>hk_orig_start = count_edits in_orig before, hk_orig_count = count_edits in_orig body,
          hk_new_start = count_edits in_new before, hk_new_count = count_edits in_new body,
          hk_lines = map hunk_line body\<rparr>)"

definition group_hunks :: "edit list \<Rightarrow> nat \<Rightarrow> hunk list" where
  "group_hunks edits ctx =
     (case change_positions edits of
        [] \<Rightarrow> []
      | pos # ps \<Rightarrow> map (make_hunk edits ctx) (group_changes ctx pos (pos + 1) ps))"

section \<open>The text\<close>

definition no_newline_note :: string where
  "no_newline_note = [lf] @ [CHR 0x5C] @ '' No newline at end of file'' @ [lf]"

definition hunk_text :: "hunk \<Rightarrow> string" where
  "hunk_text h =
     ''@@ -'' @ decimal (int (hk_orig_start h) + 1) @ '','' @ decimal (int (hk_orig_count h)) @ '' +''
       @ decimal (int (hk_new_start h) + 1) @ '','' @ decimal (int (hk_new_count h)) @ '' @@'' @ [lf]
       @ concat (map (\<lambda>line. line @ (if suffix [lf] line then [] else no_newline_note)) (hk_lines h))"

definition context_lines :: nat where "context_lines = 3"

definition compute_unified_diff :: "string \<Rightarrow> string list \<Rightarrow> string list \<Rightarrow> string" where
  "compute_unified_diff path a b =
     ''--- a/'' @ path @ [lf] @ ''+++ b/'' @ path @ [lf]
       @ concat (map hunk_text (group_hunks (compute_edits a b) context_lines))"

text \<open>\<open>sortStringSlice\<close>: each element is moved left past the greater ones.\<close>

fun insert_from_right :: "string \<Rightarrow> string list \<Rightarrow> string list" where
  "insert_from_right key [] = [key]"
| "insert_from_right key (x # xs) = (if x > key then x # insert_from_right key xs else key # x # xs)"

text \<open>The sorted part is kept reversed here, its right end first.\<close>

definition sort_string_slice :: "string list \<Rightarrow> string list" where
  "sort_string_slice s = rev (fold insert_from_right s [])"

definition content_of :: "(string \<rightharpoonup> string) \<Rightarrow> string \<Rightarrow> string" where
  "content_of files p = (case files p of None \<Rightarrow> [] | Some c \<Rightarrow> c)"

fun diff_loop ::
  "(string \<rightharpoonup> string) \<Rightarrow> (string \<rightharpoonup> string) \<Rightarrow> string list \<Rightarrow> string \<times> nat \<Rightarrow> string \<times> nat" where
  "diff_loop originals modified [] acc = acc"
| "diff_loop originals modified (p # ps) (buf, changed) =
     (if content_of originals p = content_of modified p
      then diff_loop originals modified ps (buf, changed)
      else diff_loop originals modified ps
             (buf @ compute_unified_diff p (split_lines (content_of originals p))
                      (split_lines (content_of modified p)),
              changed + 1))"

text \<open>\<open>paths\<close> is the key set of \<open>allPaths\<close> in the order it is ranged over.\<close>

definition generate_unified_diffs ::
  "string list \<Rightarrow> (string \<rightharpoonup> string) \<Rightarrow> (string \<rightharpoonup> string) \<Rightarrow> string \<times> nat" where
  "generate_unified_diffs paths originals modified =
     diff_loop originals modified (sort_string_slice paths) ([], 0)"

section \<open>Lines are pieces of the text\<close>

lemma concat_split_after: "concat (split_after cur s) = cur @ s"
  by (induction cur s rule: split_after.induct) auto

lemma split_after_not_Nil: "split_after cur s \<noteq> []"
  by (induction cur s rule: split_after.induct) auto

lemma concat_split_lines: "concat (split_lines s) = s"
proof -
  have "concat (butlast ls) = concat ls" if "ls \<noteq> []" "last ls = []" for ls :: "string list"
    using that by (metis append_Nil2 append_butlast_last_id concat.simps concat_append)
  then show ?thesis
    using concat_split_after [of "[]" s] split_after_not_Nil [of "[]" s]
    by (auto simp: split_lines_def Let_def)
qed

section \<open>The table\<close>

lemma replicate_0_nth: "j \<le> n \<Longrightarrow> (0 # replicate n 0) ! j = (0 :: nat)"
  by (cases j) simp_all

text \<open>The length of a longest common subsequence, by plain recursion.\<close>

fun lcs_len :: "string list \<Rightarrow> string list \<Rightarrow> nat" where
  "lcs_len (x # xs) (y # ys) =
     (if same_line x y then lcs_len xs ys + 1 else max (lcs_len xs (y # ys)) (lcs_len (x # xs) ys))"
| "lcs_len _ _ = 0"

lemma lcs_len_Nil [simp]: "lcs_len [] b = 0" "lcs_len a [] = 0"
  by (cases b; simp) (cases a; simp)

definition row_ok :: "string list \<Rightarrow> string list \<Rightarrow> nat list \<Rightarrow> bool" where
  "row_ok xs b row \<longleftrightarrow> List.length row = List.length b + 1
     \<and> (\<forall>j \<le> List.length b. row ! j = lcs_len xs (drop j b))"

lemma row_ok_tl: "row_ok xs (y # ys) row \<Longrightarrow> row_ok xs ys (tl row)"
  by (cases row) (auto simp: row_ok_def nth_Cons split: nat.splits)

lemma lcs_row_ok: "row_ok xs b below \<Longrightarrow> row_ok (x # xs) b (lcs_row x b below)"
proof (induction b arbitrary: below)
  case (Cons y ys)
  have r: "row_ok (x # xs) ys (lcs_row x ys (tl below))" by (rule Cons.IH [OF row_ok_tl [OF Cons.prems]])
  have b: "below ! 0 = lcs_len xs (y # ys)" "below ! 1 = lcs_len xs ys"
    using Cons.prems by (auto simp: row_ok_def)
  have "lcs_row x ys (tl below) ! 0 = lcs_len (x # xs) ys" using r by (auto simp: row_ok_def)
  with b have "lcs_row x (y # ys) below = lcs_len (x # xs) (y # ys) # lcs_row x ys (tl below)"
    by (simp add: Let_def max_def)
  then show ?case using r by (auto simp: row_ok_def nth_Cons split: nat.splits)
qed (simp add: row_ok_def)

lemma lcs_table_ok:
  "List.length (lcs_table a b) = List.length a + 1
   \<and> (\<forall>i \<le> List.length a. row_ok (drop i a) b (lcs_table a b ! i))"
proof (induction a)
  case (Cons x xs)
  then have "row_ok xs b (lcs_table xs b ! 0)" by (metis drop0 le0)
  from lcs_row_ok [OF this] show ?case using Cons by (auto simp: Let_def nth_Cons split: nat.splits)
qed (simp add: row_ok_def replicate_0_nth)

lemma lcs_table_entry:
  "i \<le> List.length a \<Longrightarrow> j \<le> List.length b \<Longrightarrow>
   lcs_table a b ! i ! j = lcs_len (drop i a) (drop j b)"
  using lcs_table_ok by (simp add: row_ok_def)

text \<open>The plain recursion is the maximum over all common subsequences.\<close>

lemma lcs_len_upper:
  "subseq zs (map strip_newline a) \<Longrightarrow> subseq zs (map strip_newline b) \<Longrightarrow> List.length zs \<le> lcs_len a b"
proof (induction a b arbitrary: zs rule: lcs_len.induct)
  case (1 x xs y ys)
  show ?case
  proof (cases "same_line x y")
    case True
    show ?thesis
    proof (cases zs)
      case (Cons z zs')
      have "subseq zs' (map strip_newline xs)" "subseq zs' (map strip_newline ys)"
        using 1(4,5) Cons by (metis list.simps(9) subseq_Cons2_iff subseq_Cons')+
      then show ?thesis using 1(1) [OF True] Cons True by simp
    qed simp
  next
    case False
    consider "subseq zs (map strip_newline xs)" | "subseq zs (map strip_newline ys)"
    proof (cases zs)
      case Nil
      then show ?thesis using that by simp
    next
      case (Cons z zs')
      have "z \<noteq> strip_newline x \<or> z \<noteq> strip_newline y" using False by (auto simp: same_line_def)
      then show ?thesis using 1(4,5) Cons that by (metis list.simps(9) subseq_Cons2_neq)
    qed
    then show ?thesis
      using 1(2) [OF False] 1(3) [OF False] 1(4,5) False by cases (fastforce simp: max_def)+
  qed
qed simp_all

section \<open>The edit script\<close>

definition orig_of :: "edit list \<Rightarrow> string list" where
  "orig_of es = map (strip_newline \<circ> ed_line) (filter in_orig es)"

definition new_of :: "edit list \<Rightarrow> string list" where
  "new_of es = map ed_line (filter in_new es)"

lemma in_orig_simps [simp]:
  "in_orig (mk_edit Edit_equal l)" "in_orig (mk_edit Edit_delete l)" "\<not> in_orig (mk_edit Edit_insert l)"
  "in_new (mk_edit Edit_equal l)" "\<not> in_new (mk_edit Edit_delete l)" "in_new (mk_edit Edit_insert l)"
  "ed_line (mk_edit op l) = l" "ed_op (mk_edit op l) = op"
  by (simp_all add: in_orig_def in_new_def mk_edit_def)

lemma orig_new_simps [simp]:
  "orig_of [] = []" "new_of [] = []"
  "orig_of (e # es) = (if in_orig e then [strip_newline (ed_line e)] else []) @ orig_of es"
  "new_of (e # es) = (if in_new e then [ed_line e] else []) @ new_of es"
  "orig_of (es @ fs) = orig_of es @ orig_of fs" "new_of (es @ fs) = new_of es @ new_of fs"
  by (simp_all add: orig_of_def new_of_def)

lemma edits_of_rest [simp]:
  "orig_of (map (mk_edit Edit_delete) ls) = map strip_newline ls"
  "orig_of (map (mk_edit Edit_insert) ls) = []"
  "new_of (map (mk_edit Edit_delete) ls) = []" "new_of (map (mk_edit Edit_insert) ls) = ls"
  by (induction ls) simp_all

definition kept :: "edit list \<Rightarrow> nat" where
  "kept es = List.length (filter (\<lambda>e. ed_op e = Edit_equal) es)"

lemma kept_simps [simp]:
  "kept [] = 0" "kept (e # es) = (if ed_op e = Edit_equal then 1 else 0) + kept es"
  "kept (es @ fs) = kept es + kept fs"
  "kept (map (mk_edit Edit_delete) ls) = 0" "kept (map (mk_edit Edit_insert) ls) = 0"
  by (simp_all add: kept_def filter_empty_conv)

lemma walk_table_sides:
  assumes "i \<le> List.length a" and "j \<le> List.length b"
  shows "orig_of (walk_table lcs a b i j) = map strip_newline (drop i a)"
    and "new_of (walk_table lcs a b i j) = drop j b"
  using assms
proof (induction lcs a b i j rule: walk_table.induct)
  case (1 lcs a b i j)
  consider (rest) "\<not> (i < List.length a \<and> j < List.length b)"
    | (same) "i < List.length a" "j < List.length b" "same_line (a ! i) (b ! j)"
    | (del) "i < List.length a" "j < List.length b" "\<not> same_line (a ! i) (b ! j)"
        "lcs ! (i + 1) ! j \<ge> lcs ! i ! (j + 1)"
    | (ins) "i < List.length a" "j < List.length b" "\<not> same_line (a ! i) (b ! j)"
        "\<not> lcs ! (i + 1) ! j \<ge> lcs ! i ! (j + 1)"
    by blast
  then have "orig_of (walk_table lcs a b i j) = map strip_newline (drop i a)
      \<and> new_of (walk_table lcs a b i j) = drop j b"
  proof cases
    case rest
    then show ?thesis by (subst (1 2) walk_table.simps) auto
  next
    case same
    have w: "walk_table lcs a b i j
        = mk_edit Edit_equal (b ! j) # walk_table lcs a b (i + 1) (j + 1)"
      by (subst walk_table.simps) (use same in simp)
    show ?thesis using "1.IH"(1,2) same
      by (simp add: w Cons_nth_drop_Suc [symmetric] same_line_def)
  next
    case del
    have w: "walk_table lcs a b i j = mk_edit Edit_delete (a ! i) # walk_table lcs a b (i + 1) j"
      by (subst walk_table.simps) (use del in simp)
    show ?thesis using "1.IH"(3,4) del by (simp add: w Cons_nth_drop_Suc [symmetric, of i a])
  next
    case ins
    have w: "walk_table lcs a b i j = mk_edit Edit_insert (b ! j) # walk_table lcs a b i (j + 1)"
      by (subst walk_table.simps) (use ins in simp)
    show ?thesis using "1.IH"(5,6) ins by (simp add: w Cons_nth_drop_Suc [symmetric, of j b])
  qed
  then show "orig_of (walk_table lcs a b i j) = map strip_newline (drop i a)"
    "new_of (walk_table lcs a b i j) = drop j b" by simp_all
qed

lemma walk_table_kept:
  assumes "i \<le> List.length a" and "j \<le> List.length b"
  shows "kept (walk_table (lcs_table a b) a b i j) = lcs_len (drop i a) (drop j b)"
  using assms
proof (induction "lcs_table a b" a b i j rule: walk_table.induct)
  case (1 a b i j)
  let ?t = "lcs_table a b"
  show ?case
  proof (cases "i < List.length a \<and> j < List.length b")
    case False
    then have "lcs_len (drop i a) (drop j b) = 0" by auto
    then show ?thesis by (subst walk_table.simps) (use False in auto)
  next
    case True
    have d: "drop i a = a ! i # drop (i + 1) a" "drop j b = b ! j # drop (j + 1) b"
      using True by (simp_all add: Cons_nth_drop_Suc)
    have e: "?t ! (i + 1) ! j = lcs_len (drop (i + 1) a) (drop j b)"
        "?t ! i ! (j + 1) = lcs_len (drop i a) (drop (j + 1) b)"
      using True by (simp_all add: lcs_table_entry)
    consider (same) "same_line (a ! i) (b ! j)"
      | (del) "\<not> same_line (a ! i) (b ! j)" "?t ! (i + 1) ! j \<ge> ?t ! i ! (j + 1)"
      | (ins) "\<not> same_line (a ! i) (b ! j)" "\<not> ?t ! (i + 1) ! j \<ge> ?t ! i ! (j + 1)"
      by blast
    then show ?thesis
    proof cases
      case same
      have "walk_table ?t a b i j = mk_edit Edit_equal (b ! j) # walk_table ?t a b (i + 1) (j + 1)"
        by (subst walk_table.simps) (use True same in simp)
      then show ?thesis using 1(1) [OF _ same] True same d by simp
    next
      case del
      have "walk_table ?t a b i j = mk_edit Edit_delete (a ! i) # walk_table ?t a b (i + 1) j"
        by (subst walk_table.simps) (use True del in simp)
      then show ?thesis using 1(2) [OF _ del] True del(1) del(2) [unfolded e]
        by (simp add: d)
    next
      case ins
      have "walk_table ?t a b i j = mk_edit Edit_insert (b ! j) # walk_table ?t a b i (j + 1)"
        by (subst walk_table.simps) (use True ins in simp)
      then show ?thesis using 1(3) [OF _ ins] True ins(1) ins(2) [unfolded e]
        by (simp add: d)
    qed
  qed
qed

lemma compute_edits_facts:
  "orig_of (compute_edits a b) = map strip_newline a"
  "new_of (compute_edits a b) = b"
  "kept (compute_edits a b) = lcs_len a b"
  using walk_table_sides [of 0 a 0 b] walk_table_kept [of 0 a 0 b] by (simp_all add: compute_edits_def)

section \<open>Applying a diff\<close>

text \<open>
  What a patch program does with the hunks, on lines with their ends: copy the lines before a hunk,
  check the hunk's deleted lines against the original, to the last character, and its context lines
  up to their ends, and check both positions and counts of its header. Each line of the result is
  marked: \<open>True\<close> for a line copied from the original, \<open>False\<close> for one the hunk adds.
\<close>

fun apply_lines :: "string list \<Rightarrow> string list \<Rightarrow> ((bool \<times> string) list \<times> string list) option" where
  "apply_lines [] rest = Some ([], rest)"
| "apply_lines ([] # ls) rest = None"
| "apply_lines ((c # l) # ls) rest =
     (if c = CHR ''+'' then
        (case apply_lines ls rest of None \<Rightarrow> None | Some (out, r) \<Rightarrow> Some ((False, l) # out, r))
      else
        (case rest of
           [] \<Rightarrow> None
         | x # xs \<Rightarrow>
             if c = CHR ''-'' then (if x = l then apply_lines ls xs else None)
             else if c = CHR '' '' \<and> same_line l x then
               (case apply_lines ls xs of None \<Rightarrow> None | Some (out, r) \<Rightarrow> Some ((True, x) # out, r))
             else None))"

fun apply_patch :: "nat \<Rightarrow> nat \<Rightarrow> hunk list \<Rightarrow> string list \<Rightarrow> (bool \<times> string) list option" where
  "apply_patch pos npos [] rest = Some (map (Pair True) rest)"
| "apply_patch pos npos (h # hs) rest =
     (let skip = hk_orig_start h - pos
      in if pos > hk_orig_start h \<or> skip > List.length rest \<or> npos + skip \<noteq> hk_new_start h then None
         else case apply_lines (hk_lines h) (drop skip rest) of
                None \<Rightarrow> None
              | Some (out, rest') \<Rightarrow>
                  if List.length rest' + hk_orig_count h \<noteq> List.length (drop skip rest)
                     \<or> List.length out \<noteq> hk_new_count h then None
                  else case apply_patch (hk_orig_start h + hk_orig_count h)
                              (hk_new_start h + hk_new_count h) hs rest' of
                         None \<Rightarrow> None
                       | Some tail \<Rightarrow> Some (map (Pair True) (take skip rest) @ out @ tail))"

lemma op_cases: "ed_op e = Edit_equal \<or> ed_op e = Edit_delete \<or> ed_op e = Edit_insert"
  by (cases "ed_op e") simp_all

text \<open>Edits with the line of the original each stands for; an inserted line stands for none.\<close>

type_synonym placed_edit = "edit \<times> string"

definition orig_lines :: "placed_edit list \<Rightarrow> string list" where
  "orig_lines ps = map snd (filter (in_orig \<circ> fst) ps)"

definition merged :: "placed_edit list \<Rightarrow> (bool \<times> string) list" where
  "merged ps = map (\<lambda>(e, x). if ed_op e = Edit_equal then (True, x) else (False, ed_line e)) (filter (in_new \<circ> fst) ps)"

definition fits :: "placed_edit list \<Rightarrow> bool" where
  "fits ps \<longleftrightarrow> (\<forall>(e, x)\<in>set ps. (ed_op e = Edit_delete \<longrightarrow> ed_line e = x) \<and> (ed_op e = Edit_equal \<longrightarrow> same_line (ed_line e) x))"

lemma placed_simps [simp]:
  "orig_lines [] = []" "merged [] = []" "fits []"
  "orig_lines (p # ps) = (if in_orig (fst p) then [snd p] else []) @ orig_lines ps"
  "merged (p # ps) = (if in_new (fst p)
      then [if ed_op (fst p) = Edit_equal then (True, snd p) else (False, ed_line (fst p))] else []) @ merged ps"
  "orig_lines (ps @ qs) = orig_lines ps @ orig_lines qs" "merged (ps @ qs) = merged ps @ merged qs"
  "fits (ps @ qs) \<longleftrightarrow> fits ps \<and> fits qs"
  by (auto simp: orig_lines_def merged_def fits_def split: prod.splits)

lemma fits_Cons: "fits ((e, x) # ps) \<longleftrightarrow>
    (ed_op e = Edit_delete \<longrightarrow> ed_line e = x) \<and> (ed_op e = Edit_equal \<longrightarrow> same_line (ed_line e) x) \<and> fits ps"
  by (auto simp: fits_def)

lemma placed_lengths:
  "List.length (orig_lines ps) = count_edits in_orig (map fst ps)" "List.length (merged ps) = count_edits in_new (map fst ps)"
  by (simp_all add: orig_lines_def merged_def count_edits_def filter_map)

lemma apply_lines_body:
  "fits ps \<Longrightarrow> apply_lines (map hunk_line (map fst ps)) (orig_lines ps @ rest) = Some (merged ps, rest)"
proof (induction ps)
  case (Cons p ps)
  obtain e x where p: "p = (e, x)" by (cases p)
  have f: "fits ps" "ed_op e = Edit_delete \<Longrightarrow> ed_line e = x" "ed_op e = Edit_equal \<Longrightarrow> same_line (ed_line e) x"
    using Cons.prems by (simp_all add: p fits_Cons)
  show ?case
    using Cons.IH [OF f(1)] f(2,3) by (cases "ed_op e") (simp_all add: p hunk_line_def in_orig_def in_new_def)
qed simp

text \<open>The result of a patch against the lines it should give: copied lines up to their ends, added ones exactly.\<close>

definition agrees :: "bool \<times> string \<Rightarrow> string \<Rightarrow> bool" where
  "agrees out line = (if fst out then same_line (snd out) line else snd out = line)"

lemma merged_agrees: "fits ps \<Longrightarrow> list_all2 agrees (merged ps) (new_of (map fst ps))"
proof (induction ps)
  case (Cons p ps)
  obtain e x where p: "p = (e, x)" by (cases p)
  have f: "fits ps" "ed_op e = Edit_equal \<Longrightarrow> same_line (ed_line e) x"
    using Cons.prems by (simp_all add: p fits_Cons)
  show ?case
    using Cons.IH [OF f(1)] f(2) by (cases "ed_op e") (simp_all add: p in_new_def agrees_def same_line_def)
qed simp

lemma walk_table_placed:
  assumes "i \<le> List.length a" and "j \<le> List.length b"
  shows "\<exists>ps. map fst ps = walk_table lcs a b i j \<and> orig_lines ps = drop i a \<and> fits ps"
  using assms
proof (induction lcs a b i j rule: walk_table.induct)
  case (1 lcs a b i j)
  consider (rest) "\<not> (i < List.length a \<and> j < List.length b)"
    | (same) "i < List.length a" "j < List.length b" "same_line (a ! i) (b ! j)"
    | (del) "i < List.length a" "j < List.length b" "\<not> same_line (a ! i) (b ! j)"
        "lcs ! (i + 1) ! j \<ge> lcs ! i ! (j + 1)"
    | (ins) "i < List.length a" "j < List.length b" "\<not> same_line (a ! i) (b ! j)"
        "\<not> lcs ! (i + 1) ! j \<ge> lcs ! i ! (j + 1)"
    by blast
  then show ?case
  proof cases
    case rest
    let ?ps = "map (\<lambda>x. (mk_edit Edit_delete x, x)) (drop i a) @ map (\<lambda>y. (mk_edit Edit_insert y, y)) (drop j b)"
    have "orig_lines (map (\<lambda>x. (mk_edit Edit_delete x, x)) xs) = xs" "orig_lines (map (\<lambda>y. (mk_edit Edit_insert y, y)) xs) = []"
      for xs by (induction xs) simp_all
    moreover have "fits ?ps" by (auto simp: fits_def)
    moreover have "map fst ?ps = walk_table lcs a b i j"
      by (subst walk_table.simps) (use rest in \<open>auto simp: comp_def\<close>)
    ultimately show ?thesis by (intro exI [of _ ?ps]) simp
  next
    case same
    obtain ps where ps: "map fst ps = walk_table lcs a b (i + 1) (j + 1)" "orig_lines ps = drop (i + 1) a" "fits ps"
      using "1.IH"(1) same by auto
    have "walk_table lcs a b i j = mk_edit Edit_equal (b ! j) # walk_table lcs a b (i + 1) (j + 1)"
      by (subst walk_table.simps) (use same in simp)
    then show ?thesis using ps same
      by (intro exI [of _ "(mk_edit Edit_equal (b ! j), a ! i) # ps"])
         (simp add: fits_Cons Cons_nth_drop_Suc same_line_def)
  next
    case del
    obtain ps where ps: "map fst ps = walk_table lcs a b (i + 1) j" "orig_lines ps = drop (i + 1) a" "fits ps"
      using "1.IH"(2) del "1.prems" by auto
    have "walk_table lcs a b i j = mk_edit Edit_delete (a ! i) # walk_table lcs a b (i + 1) j"
      by (subst walk_table.simps) (use del in simp)
    then show ?thesis using ps del
      by (intro exI [of _ "(mk_edit Edit_delete (a ! i), a ! i) # ps"]) (simp add: fits_Cons Cons_nth_drop_Suc)
  next
    case ins
    obtain ps where ps: "map fst ps = walk_table lcs a b i (j + 1)" "orig_lines ps = drop i a" "fits ps"
      using "1.IH"(3) ins "1.prems" by auto
    have "walk_table lcs a b i j = mk_edit Edit_insert (b ! j) # walk_table lcs a b i (j + 1)"
      by (subst walk_table.simps) (use ins in simp)
    then show ?thesis using ps
      by (intro exI [of _ "(mk_edit Edit_insert (b ! j), b ! j) # ps"]) (simp add: fits_Cons)
  qed
qed

definition quiet :: "edit list \<Rightarrow> bool" where
  "quiet es \<longleftrightarrow> (\<forall>e\<in>set es. ed_op e = Edit_equal)"

lemma quiet_sides: "quiet (map fst ps) \<Longrightarrow> merged ps = map (Pair True) (orig_lines ps)"
  by (induction ps) (auto simp: quiet_def in_orig_def in_new_def)

lemma quiet_counts: "quiet es \<Longrightarrow> count_edits in_orig es = count_edits in_new es"
  by (induction es) (auto simp: quiet_def count_edits_def in_orig_def in_new_def)

lemma count_edits_append: "count_edits P (es @ fs) = count_edits P es + count_edits P fs"
  by (simp add: count_edits_def)

text \<open>Groups in order from \<open>p\<close> on, the edits outside their hunks being quiet.\<close>

definition hunk_from :: "nat \<Rightarrow> nat \<times> nat \<Rightarrow> nat" where "hunk_from ctx g = fst g - ctx"

definition hunk_to :: "edit list \<Rightarrow> nat \<Rightarrow> nat \<times> nat \<Rightarrow> nat" where
  "hunk_to es ctx g = min (snd g + ctx) (List.length es)"

fun good_groups :: "edit list \<Rightarrow> nat \<Rightarrow> nat \<Rightarrow> (nat \<times> nat) list \<Rightarrow> bool" where
  "good_groups es ctx p [] = quiet (drop p es)"
| "good_groups es ctx p (g # gs) =
     (p \<le> hunk_from ctx g \<and> hunk_from ctx g \<le> hunk_to es ctx g
      \<and> quiet (drop p (take (hunk_from ctx g) es)) \<and> good_groups es ctx (hunk_to es ctx g) gs)"

lemma make_hunk_fields:
  "hk_orig_start (make_hunk es ctx g) = count_edits in_orig (take (hunk_from ctx g) es)"
  "hk_new_start (make_hunk es ctx g) = count_edits in_new (take (hunk_from ctx g) es)"
  "hk_orig_count (make_hunk es ctx g)
     = count_edits in_orig (drop (hunk_from ctx g) (take (hunk_to es ctx g) es))"
  "hk_new_count (make_hunk es ctx g)
     = count_edits in_new (drop (hunk_from ctx g) (take (hunk_to es ctx g) es))"
  "hk_lines (make_hunk es ctx g) = map hunk_line (drop (hunk_from ctx g) (take (hunk_to es ctx g) es))"
  by (auto simp: make_hunk_def Let_def hunk_from_def hunk_to_def min_def)

lemma apply_patch_groups:
  assumes es: "es = map fst ps" and fit: "fits ps"
  shows "good_groups es ctx p gs \<Longrightarrow>
   apply_patch (count_edits in_orig (take p es)) (count_edits in_new (take p es))
     (map (make_hunk es ctx) gs) (orig_lines (drop p ps)) = Some (merged (drop p ps))"
proof (induction gs arbitrary: p)
  case Nil
  then show ?case by (simp add: quiet_sides es drop_map [symmetric])
next
  case (Cons g gs)
  define hs where "hs = hunk_from ctx g"
  define he where "he = hunk_to es ctx g"
  have o: "p \<le> hs" "hs \<le> he" "quiet (drop p (take hs es))" "good_groups es ctx he gs"
    using Cons.prems by (simp_all add: hs_def he_def)
  define A where "A = drop p (take hs ps)"
  define B where "B = drop hs (take he ps)"
  define C where "C = drop he ps"
  have t: "take m ps = take n ps @ drop n (take m ps)" if "n \<le> m" for m n
    using append_take_drop_id [of n "take m ps"] that by (simp add: min_absorb1)
  have sp1: "take hs ps = take p ps @ A" unfolding A_def by (rule t [OF o(1)])
  have "take he ps = take hs ps @ B" unfolding B_def by (rule t [OF o(2)])
  then have sp: "take hs ps = take p ps @ A" "take he ps = take p ps @ A @ B"
    unfolding sp1 by simp_all
  have spe: "take hs es = take p es @ map fst A" "take he es = take p es @ map fst A @ map fst B"
    unfolding es take_map sp by simp_all
  have "ps = take p ps @ A @ B @ C" using append_take_drop_id [of he ps] sp(2) by (simp add: C_def)
  moreover have "List.length (take p ps) = p" using o(1,2) by (simp add: he_def hunk_to_def es)
  ultimately have sd: "drop p ps = A @ B @ C" by (metis append_eq_conv_conj)
  have rec: "apply_patch (count_edits in_orig (take he es)) (count_edits in_new (take he es))
      (map (make_hunk es ctx) gs) (orig_lines C) = Some (merged C)"
    unfolding C_def by (rule Cons.IH [OF o(4)])
  have qA: "quiet (map fst A)" using o(3) by (simp add: A_def es take_map drop_map)
  have "fits B" using fit append_take_drop_id [of he ps] by (metis sp(2) placed_simps(8))
  then have body: "apply_lines (map hunk_line (map fst B)) (orig_lines B @ orig_lines C) = Some (merged B, orig_lines C)"
    by (rule apply_lines_body)
  have B: "drop hs (take he es) = map fst B" by (simp add: B_def es take_map drop_map)
  have h: "hk_orig_start (make_hunk es ctx g) = count_edits in_orig (take p es) + count_edits in_orig (map fst A)"
    "hk_new_start (make_hunk es ctx g) = count_edits in_new (take p es) + count_edits in_new (map fst A)"
    "hk_orig_count (make_hunk es ctx g) = count_edits in_orig (map fst B)"
    "hk_new_count (make_hunk es ctx g) = count_edits in_new (map fst B)"
    "hk_lines (make_hunk es ctx g) = map hunk_line (map fst B)"
    unfolding make_hunk_fields hs_def [symmetric] he_def [symmetric] B spe(1)
    by (simp_all add: count_edits_append)
  show ?case
    using rec body quiet_sides [OF qA] quiet_counts [OF qA]
    by (simp add: h sd spe(2) placed_lengths count_edits_append Let_def add.assoc del: map_map)
qed

lemma quiet_slice:
  "(\<And>i. p \<le> i \<Longrightarrow> i < q \<Longrightarrow> i < List.length es \<Longrightarrow> ed_op (es ! i) = Edit_equal)
   \<Longrightarrow> quiet (drop p (take q es))"
  unfolding quiet_def
proof
  fix e
  assume q: "\<And>i. p \<le> i \<Longrightarrow> i < q \<Longrightarrow> i < List.length es \<Longrightarrow> ed_op (es ! i) = Edit_equal"
    and "e \<in> set (drop p (take q es))"
  then obtain i where i: "i < List.length (take q es) - p" "e = drop p (take q es) ! i"
    by (auto simp: in_set_conv_nth)
  then have b: "p + i < q" "p + i < List.length es" "p \<le> List.length (take q es)" by auto
  then have "e = es ! (p + i)" using i(2) by simp
  then show "ed_op e = Edit_equal" using q [of "p + i"] b by simp
qed

lemma quiet_end:
  "(\<And>i. p \<le> i \<Longrightarrow> i < List.length es \<Longrightarrow> ed_op (es ! i) = Edit_equal) \<Longrightarrow> quiet (drop p es)"
  by (auto simp: quiet_def in_set_conv_nth)

lemma group_changes_good:
  assumes "\<And>i. e \<le> i \<Longrightarrow> i < List.length es \<Longrightarrow> ed_op (es ! i) \<noteq> Edit_equal \<longleftrightarrow> i \<in> set ps"
    and "sorted_wrt (<) ps" and "\<forall>i\<in>set ps. e \<le> i \<and> i < List.length es"
    and "p \<le> s - ctx" and "s < e" and "e \<le> List.length es"
    and "\<And>i. p \<le> i \<Longrightarrow> i < s \<Longrightarrow> ed_op (es ! i) = Edit_equal"
  shows "good_groups es ctx p (group_changes ctx s e ps)"
  using assms
proof (induction ps arbitrary: p s e)
  case Nil
  have "quiet (drop p (take (s - ctx) es))"
    by (rule quiet_slice, rule Nil.prems(7)) simp_all
  moreover have "quiet (drop (min (e + ctx) (List.length es)) es)"
    by (rule quiet_end) (use Nil.prems(1) in auto)
  moreover have "s - ctx \<le> min (e + ctx) (List.length es)" using Nil.prems(5,6) by linarith
  ultimately show ?case using Nil.prems(4) by (simp add: hunk_from_def hunk_to_def)
next
  case (Cons pos ps)
  have pos: "e \<le> pos" "pos < List.length es" "\<forall>i\<in>set ps. pos < i" "sorted_wrt (<) ps"
    using Cons.prems(2,3) by auto
  have after: "ed_op (es ! i) \<noteq> Edit_equal \<longleftrightarrow> i \<in> set ps" if "pos + 1 \<le> i" "i < List.length es" for i
    using Cons.prems(1) [of i] pos(1) that by auto
  show ?case
  proof (cases "pos - e \<le> 2 * ctx")
    case True
    have "good_groups es ctx p (group_changes ctx s (pos + 1) ps)"
      by (rule Cons.IH [OF after pos(4) _ Cons.prems(4) _ _ Cons.prems(7)])
         (use pos Cons.prems(3,5) in auto)
    then show ?thesis using True by simp
  next
    case False
    let ?p = "min (e + ctx) (List.length es)"
    have before: "ed_op (es ! i) = Edit_equal" if "?p \<le> i" "i < pos" for i
      using Cons.prems(1) [of i] that pos by fastforce
    have "good_groups es ctx ?p (group_changes ctx pos (pos + 1) ps)"
      by (rule Cons.IH [OF after pos(4) _ _ _ _ before]) (use pos Cons.prems(3) False in auto)
    moreover have "quiet (drop p (take (s - ctx) es))"
      by (rule quiet_slice, rule Cons.prems(7)) simp_all
    moreover have "s - ctx \<le> ?p" using Cons.prems(5,6) by linarith
    ultimately show ?thesis using False Cons.prems(4) by (simp add: hunk_from_def hunk_to_def)
  qed
qed

lemma group_hunks_apply:
  assumes es: "es = map fst qs" and fit: "fits qs"
  shows "apply_patch 0 0 (group_hunks es ctx) (orig_lines qs) = Some (merged qs)"
proof (cases "change_positions es")
  case Nil
  then have "quiet es" by (auto simp: change_positions_def quiet_def filter_empty_conv in_set_conv_nth)
  then show ?thesis using Nil by (simp add: group_hunks_def quiet_sides es)
next
  case (Cons pos ps)
  have srt: "sorted_wrt (<) (pos # ps)"
    unfolding Cons [symmetric] change_positions_def by (rule sorted_wrt_filter) simp
  have mem: "i \<in> set (pos # ps) \<longleftrightarrow> i < List.length es \<and> ed_op (es ! i) \<noteq> Edit_equal" for i
    unfolding Cons [symmetric] change_positions_def by auto
  have "good_groups es ctx 0 (group_changes ctx pos (pos + 1) ps)"
  proof (rule group_changes_good)
    show "ed_op (es ! i) \<noteq> Edit_equal \<longleftrightarrow> i \<in> set ps" if "pos + 1 \<le> i" "i < List.length es" for i
      using mem [of i] that by auto
    show "ed_op (es ! i) = Edit_equal" if "i < pos" for i
      using mem [of i] mem [of pos] srt that by fastforce
  qed (use srt mem in \<open>auto simp: Suc_le_eq\<close>)
  from apply_patch_groups [OF es fit this] show ?thesis
    using Cons by (simp add: group_hunks_def count_edits_def)
qed

section \<open>The insertion sort sorts\<close>

lemma insert_from_right_facts:
  "mset (insert_from_right key xs) = {#key#} + mset xs"
  "sorted_wrt (\<ge>) xs \<Longrightarrow> sorted_wrt (\<ge>) (insert_from_right key xs)"
proof -
  show m: "mset (insert_from_right key xs) = {#key#} + mset xs" for xs by (induction xs) simp_all
  have s: "set (insert_from_right key xs) = insert key (set xs)" for xs
    using arg_cong [OF m, of set_mset] by simp
  show "sorted_wrt (\<ge>) xs \<Longrightarrow> sorted_wrt (\<ge>) (insert_from_right key xs)"
    by (induction xs) (auto simp: s)
qed

lemma fold_insert_facts:
  "sorted_wrt (\<ge>) acc \<Longrightarrow>
   sorted_wrt (\<ge>) (fold insert_from_right s acc) \<and> mset (fold insert_from_right s acc) = mset s + mset acc"
  by (induction s arbitrary: acc) (simp_all add: insert_from_right_facts)

lemma sort_string_slice_sort: "sort_string_slice s = sort s"
proof -
  have "sorted (sort_string_slice s)"
    using fold_insert_facts [of "[]" s] by (simp add: sort_string_slice_def sorted_wrt_rev)
  moreover have "mset (sort_string_slice s) = mset s"
    using fold_insert_facts [of "[]" s] by (simp add: sort_string_slice_def)
  ultimately show ?thesis by (rule properties_for_sort [symmetric, rotated])
qed

section \<open>The number of kept lines\<close>

lemma kept_lines_common:
  "subseq (map (strip_newline \<circ> ed_line) (filter (\<lambda>e. ed_op e = Edit_equal) es)) (orig_of es)"
  "subseq (map (strip_newline \<circ> ed_line) (filter (\<lambda>e. ed_op e = Edit_equal) es)) (map strip_newline (new_of es))"
proof -
  have sub: "subseq (map f (filter (\<lambda>e. ed_op e = Edit_equal) es)) (map f (filter P es))"
    if "\<And>e. ed_op e = Edit_equal \<Longrightarrow> P e" for P and f :: "edit \<Rightarrow> string"
  proof (rule subseq_map)
    have "filter (\<lambda>e. ed_op e = Edit_equal) es = filter (\<lambda>e. ed_op e = Edit_equal) (filter P es)"
      using that by (auto intro!: filter_cong)
    then show "subseq (filter (\<lambda>e. ed_op e = Edit_equal) es) (filter P es)" by (metis subseq_filter_left)
  qed
  show "subseq (map (strip_newline \<circ> ed_line) (filter (\<lambda>e. ed_op e = Edit_equal) es)) (orig_of es)"
    "subseq (map (strip_newline \<circ> ed_line) (filter (\<lambda>e. ed_op e = Edit_equal) es)) (map strip_newline (new_of es))"
    unfolding orig_of_def new_of_def map_map by (rule sub, simp add: in_orig_def in_new_def)+
qed

section \<open>Properties\<close>

text \<open>C25: The hunks of a diff, applied by position to the lines of the original, give the lines of
  the modified file: added lines exactly, line ends included, and unchanged lines as the original has them,
  which differ from the modified file's in their ends at most. Each hunk starts where its header says in
  both files, has the number of lines its header says, and deletes exactly lines of the original.\<close>

theorem diff_applies:
  "\<exists>out. apply_patch 0 0 (group_hunks (compute_edits a b) ctx) a = Some out \<and> list_all2 agrees out b"
proof -
  obtain ps where ps: "map fst ps = compute_edits a b" "orig_lines ps = a" "fits ps"
    using walk_table_placed [of 0 a 0 b "lcs_table a b"] by (auto simp: compute_edits_def)
  then show ?thesis
    using group_hunks_apply [OF ps(1) [symmetric] ps(3), of ctx] merged_agrees [OF ps(3)]
    by (simp add: compute_edits_facts)
qed

text \<open>The table of the diff holds the lengths of the longest common subsequences, and the edit
  script is minimal: the lines it keeps are as many as any common subsequence of the two files
  has, and what it keeps and inserts is exactly the modified file.\<close>

theorem edit_script_minimal:
  "new_of (compute_edits a b) = b
   \<and> kept (compute_edits a b) = lcs_table a b ! 0 ! 0
   \<and> kept (compute_edits a b)
       = Max (List.length ` {zs. subseq zs (map strip_newline a) \<and> subseq zs (map strip_newline b)})"
proof -
  let ?C = "{zs. subseq zs (map strip_newline a) \<and> subseq zs (map strip_newline b)}"
  let ?es = "compute_edits a b"
  have "finite {zs. subseq zs (map strip_newline a)}"
    by (rule finite_subset [of _ "set (subseqs (map strip_newline a))"])
       (auto simp: in_set_subseqs)
  then have "finite ?C" by (rule rev_finite_subset) blast
  then have fin: "finite (List.length ` ?C)" by simp
  have "map (strip_newline \<circ> ed_line) (filter (\<lambda>e. ed_op e = Edit_equal) ?es) \<in> ?C"
    using kept_lines_common [of ?es] by (simp add: compute_edits_facts)
  then have "kept ?es \<in> List.length ` ?C" unfolding kept_def by force
  moreover have "n \<le> kept ?es" if "n \<in> List.length ` ?C" for n
    using that lcs_len_upper by (auto simp: compute_edits_facts)
  ultimately have "kept ?es = Max (List.length ` ?C)" using fin by (intro Max_eqI [symmetric]) auto
  moreover have "kept ?es = lcs_table a b ! 0 ! 0"
    using lcs_table_entry [of 0 a 0 b] by (simp add: compute_edits_facts)
  ultimately show ?thesis by (simp add: compute_edits_facts)
qed

text \<open>A file whose line ends alone change counts as modified, but its diff shows no change: it is
  a header without a hunk.\<close>

theorem line_end_change_not_shown:
  "generate_unified_diffs [''a.rb''] [''a.rb'' \<mapsto> [CHR ''x'', CHR 0x0D, lf]] [''a.rb'' \<mapsto> [CHR ''x'', lf]]
     = (''--- a/a.rb'' @ [lf] @ ''+++ b/a.rb'' @ [lf], 1)"
  by code_simp

end
