(* ===== verification/Auth_Store.thy ===== *)
theory Auth_Store
  imports Prelude
begin

text \<open>
  The tables behind authentication (\<open>internal/datastore/users.go\<close>, \<open>sessions.go\<close>,
  \<open>api_tokens.go\<close>) and their operations, with the constraints the migrations leave in place:
  the key and the two check constraints of \<open>users\<close> (0001, 0009, 0029, 0034), the foreign key
  with \<open>ON DELETE CASCADE\<close> and the check constraints of \<open>sessions\<close> (0001, 0009, 0034), and the
  unique constraints of \<open>api_tokens\<close> (0067). A column that is NULL for an empty string is the
  empty string; times are integers; \<open>now\<close> is the time of the statement, and ids are generated
  by the database.
\<close>

section \<open>Roles and providers\<close>

definition role_admin :: string where "role_admin = ''admin''"
definition role_operator :: string where "role_operator = ''operator''"
definition role_viewer :: string where "role_viewer = ''viewer''"
definition provider_local :: string where "provider_local = ''local''"
definition provider_saml :: string where "provider_saml = ''saml''"

lemma role_distinct [simp]:
  "role_admin \<noteq> role_operator" "role_operator \<noteq> role_admin" "role_admin \<noteq> role_viewer"
  "role_viewer \<noteq> role_admin" "role_operator \<noteq> role_viewer" "role_viewer \<noteq> role_operator"
  "provider_local \<noteq> provider_saml" "provider_saml \<noteq> provider_local"
  "role_admin \<noteq> []" "role_operator \<noteq> []" "role_viewer \<noteq> []"
  by (simp_all add: role_admin_def role_operator_def role_viewer_def provider_local_def provider_saml_def)

text \<open>\<open>chk_users_role\<close> (0029), \<open>chk_sessions_role\<close> (0001, never altered) and the providers (0034).\<close>

definition user_role_ok :: "string \<Rightarrow> bool" where
  "user_role_ok r = (r = role_admin \<or> r = role_operator \<or> r = role_viewer)"

definition session_role_ok :: "string \<Rightarrow> bool" where
  "session_role_ok r = (r = role_admin \<or> r = role_viewer)"

definition provider_ok :: "string \<Rightarrow> bool" where
  "provider_ok p = (p = provider_local \<or> p = provider_saml)"

section \<open>Rows\<close>

record user =
  us_username :: string
  us_display_name :: string
  us_email :: string
  us_password_hash :: string
  us_role :: string
  us_auth_provider :: string
  us_saml_subject :: string
  us_is_locked :: bool
  us_failed :: int
  us_last_login :: "int option"
  us_created_at :: int
  us_updated_at :: int

record user_params =
  up_username :: string
  up_display_name :: string
  up_email :: string
  up_password_hash :: string
  up_role :: string
  up_auth_provider :: string
  up_saml_subject :: string

record user_update =
  uu_display_name :: "string option"
  uu_email :: "string option"
  uu_role :: "string option"
  uu_is_locked :: "bool option"

record session =
  se_id :: string
  se_username :: string
  se_auth_provider :: string
  se_role :: string
  se_expires_at :: int
  se_created_at :: int

record api_token =
  at_id :: string
  at_username :: string
  at_name :: string
  at_hash :: string
  at_can_write :: bool
  at_created_at :: int
  at_last_used :: "int option"

record auth_db =
  db_users :: "user list"
  db_sessions :: "session list"
  db_tokens :: "api_token list"

datatype store_error = Not_found | Already_exists | Store_failed

section \<open>Users\<close>

definition get_user_by_username :: "string \<Rightarrow> auth_db \<Rightarrow> store_error + user" where
  "get_user_by_username u db =
     (case row_of us_username u (db_users db) of None \<Rightarrow> Inl Not_found | Some r \<Rightarrow> Inr r)"

text \<open>A NULL subject is equal to no parameter.\<close>
definition get_user_by_saml_subject :: "string \<Rightarrow> auth_db \<Rightarrow> store_error + user" where
  "get_user_by_saml_subject s db =
     (case find (\<lambda>r. us_saml_subject r \<noteq> [] \<and> us_saml_subject r = s) (db_users db) of
        None \<Rightarrow> Inl Not_found | Some r \<Rightarrow> Inr r)"

definition subject_taken :: "string \<Rightarrow> user list \<Rightarrow> bool" where
  "subject_taken s tbl = (s \<noteq> [] \<and> list_ex (\<lambda>r. us_saml_subject r = s) tbl)"

definition insert_user :: "user_params \<Rightarrow> int \<Rightarrow> auth_db \<Rightarrow> store_error + user \<times> auth_db" where
  "insert_user p now db =
     (if \<not> user_role_ok (up_role p) \<or> \<not> provider_ok (up_auth_provider p) then Inl Store_failed
      else if list_ex (\<lambda>r. us_username r = up_username p) (db_users db)
              \<or> subject_taken (up_saml_subject p) (db_users db)
      then Inl Already_exists
      else let r = \<lparr>us_username = up_username p, us_display_name = up_display_name p,
                    us_email = up_email p, us_password_hash = up_password_hash p,
                    us_role = up_role p, us_auth_provider = up_auth_provider p,
                    us_saml_subject = up_saml_subject p, us_is_locked = False, us_failed = 0,
                    us_last_login = None, us_created_at = now, us_updated_at = now\<rparr>
           in Inr (r, db\<lparr>db_users := db_users db @ [r]\<rparr>))"

text \<open>One row changed by its key and returned; the caller has checked the constraints.\<close>

definition update_user_row ::
  "string \<Rightarrow> (user \<Rightarrow> user) \<Rightarrow> auth_db \<Rightarrow> (user \<times> auth_db) option" where
  "update_user_row u f db =
     map_option (\<lambda>r. (f r, db\<lparr>db_users := update_where (\<lambda>r. us_username r = u) f (db_users db)\<rparr>))
       (row_of us_username u (db_users db))"

definition saml_update :: "user_params \<Rightarrow> int \<Rightarrow> user \<Rightarrow> user" where
  "saml_update p now r =
     r\<lparr>us_display_name := up_display_name p, us_email := up_email p, us_role := up_role p,
       us_saml_subject := up_saml_subject p, us_updated_at := now\<rparr>"

definition update_saml_user_by_username ::
  "string \<Rightarrow> user_params \<Rightarrow> int \<Rightarrow> auth_db \<Rightarrow> store_error + user \<times> auth_db" where
  "update_saml_user_by_username u p now db =
     (case update_user_row u (saml_update p now) db of
        None \<Rightarrow> Inl Store_failed
      | Some res \<Rightarrow>
          if \<not> user_role_ok (up_role p) then Inl Store_failed
          else if subject_taken (up_saml_subject p) (filter (\<lambda>r. us_username r \<noteq> u) (db_users db))
          then Inl Already_exists
          else Inr res)"

definition upsert_saml_user ::
  "user_params \<Rightarrow> int \<Rightarrow> auth_db \<Rightarrow> store_error + (user \<times> bool) \<times> auth_db" where
  "upsert_saml_user p now db =
     (let updated = \<lambda>u. case update_saml_user_by_username u p now db of
                          Inl e \<Rightarrow> Inl e | Inr (r, db') \<Rightarrow> Inr ((r, False), db')
      in case get_user_by_saml_subject (up_saml_subject p) db of
           Inr existing \<Rightarrow> updated (us_username existing)
         | Inl e \<Rightarrow>
             (case get_user_by_username (up_username p) db of
                Inr existing \<Rightarrow>
                  if us_auth_provider existing \<noteq> provider_saml then Inl Already_exists
                  else updated (us_username existing)
              | Inl e \<Rightarrow>
                  (case insert_user p now db of
                     Inl e \<Rightarrow> Inl e | Inr (r, db') \<Rightarrow> Inr ((r, True), db'))))"

definition apply_update :: "user_update \<Rightarrow> int \<Rightarrow> user \<Rightarrow> user" where
  "apply_update p now r =
     (let set_text = \<lambda>new old. (case new of None \<Rightarrow> old | Some s \<Rightarrow> s)
      in r\<lparr>us_display_name := set_text (uu_display_name p) (us_display_name r),
           us_email := set_text (uu_email p) (us_email r),
           us_role := set_text (uu_role p) (us_role r),
           us_is_locked := (case uu_is_locked p of None \<Rightarrow> us_is_locked r | Some l \<Rightarrow> l),
           us_failed := (if uu_is_locked p = Some False then 0 else us_failed r),
           us_updated_at := now\<rparr>)"

definition update_user ::
  "string \<Rightarrow> user_update \<Rightarrow> int \<Rightarrow> auth_db \<Rightarrow> store_error + user \<times> auth_db" where
  "update_user u p now db =
     (case update_user_row u (apply_update p now) db of
        None \<Rightarrow> Inl Not_found
      | Some res \<Rightarrow>
          if (case uu_role p of None \<Rightarrow> False | Some r \<Rightarrow> \<not> user_role_ok r) then Inl Store_failed
          else Inr res)"

text \<open>The statements that only report whether a row was there.\<close>

definition checked_update :: "string \<Rightarrow> (user \<Rightarrow> user) \<Rightarrow> auth_db \<Rightarrow> store_error + auth_db" where
  "checked_update u f db =
     (case update_user_row u f db of None \<Rightarrow> Inl Not_found | Some (_, db') \<Rightarrow> Inr db')"

definition update_user_password :: "string \<Rightarrow> string \<Rightarrow> int \<Rightarrow> auth_db \<Rightarrow> store_error + auth_db" where
  "update_user_password u hash now =
     checked_update u (\<lambda>r. r\<lparr>us_password_hash := hash, us_updated_at := now\<rparr>)"

definition lock_user :: "string \<Rightarrow> int \<Rightarrow> auth_db \<Rightarrow> store_error + auth_db" where
  "lock_user u now = checked_update u (\<lambda>r. r\<lparr>us_is_locked := True, us_updated_at := now\<rparr>)"

definition record_login_success :: "string \<Rightarrow> int \<Rightarrow> auth_db \<Rightarrow> store_error + auth_db" where
  "record_login_success u now =
     checked_update u (\<lambda>r. r\<lparr>us_failed := 0, us_last_login := Some now, us_updated_at := now\<rparr>)"

text \<open>The counter is a four-byte INTEGER, on which the addition fails rather than wrapping.\<close>

definition max_integer :: int where "max_integer = 2147483647"

definition increment_failed_login_attempts ::
  "string \<Rightarrow> int \<Rightarrow> auth_db \<Rightarrow> store_error + int \<times> auth_db" where
  "increment_failed_login_attempts u now db =
     (case update_user_row u (\<lambda>r. r\<lparr>us_failed := us_failed r + 1, us_updated_at := now\<rparr>) db of
        None \<Rightarrow> Inl Not_found
      | Some (r, db') \<Rightarrow> if us_failed r > max_integer then Inl Store_failed else Inr (us_failed r, db'))"

text \<open>Sessions go with the row by the foreign key; credentials have none.\<close>

definition delete_user :: "string \<Rightarrow> auth_db \<Rightarrow> store_error + auth_db" where
  "delete_user u db =
     (if row_of us_username u (db_users db) = None then Inl Not_found
      else Inr (db\<lparr>db_users := delete_where (\<lambda>r. us_username r = u) (db_users db),
                   db_sessions := delete_where (\<lambda>s. se_username s = u) (db_sessions db)\<rparr>))"

definition ensure_default_admin :: "string \<Rightarrow> int \<Rightarrow> auth_db \<Rightarrow> store_error + bool \<times> auth_db" where
  "ensure_default_admin hash now db =
     (if db_users db \<noteq> [] then Inr (False, db)
      else case insert_user
             \<lparr>up_username = ''admin'', up_display_name = ''Administrator'', up_email = [],
              up_password_hash = hash, up_role = role_admin, up_auth_provider = provider_local,
              up_saml_subject = []\<rparr> now db of
             Inl Already_exists \<Rightarrow> Inr (False, db)
           | Inl e \<Rightarrow> Inl e
           | Inr (_, db') \<Rightarrow> Inr (True, db'))"

section \<open>Sessions\<close>

record session_params =
  sp_username :: string
  sp_auth_provider :: string
  sp_role :: string
  sp_expires_at :: int

text \<open>\<open>new_id\<close> is the UUID the database generates.\<close>

definition insert_session ::
  "string \<Rightarrow> session_params \<Rightarrow> int \<Rightarrow> auth_db \<Rightarrow> store_error + session \<times> auth_db" where
  "insert_session new_id p now db =
     (if \<not> session_role_ok (sp_role p) \<or> \<not> provider_ok (sp_auth_provider p)
         \<or> list_ex (\<lambda>s. se_id s = new_id) (db_sessions db)
         \<or> row_of us_username (sp_username p) (db_users db) = None
      then Inl Store_failed
      else let s = \<lparr>se_id = new_id, se_username = sp_username p,
                    se_auth_provider = sp_auth_provider p, se_role = sp_role p,
                    se_expires_at = sp_expires_at p, se_created_at = now\<rparr>
           in Inr (s, db\<lparr>db_sessions := db_sessions db @ [s]\<rparr>))"

definition get_valid_session :: "string \<Rightarrow> int \<Rightarrow> auth_db \<Rightarrow> store_error + session" where
  "get_valid_session i now db =
     (case find (\<lambda>s. se_id s = i \<and> now < se_expires_at s) (db_sessions db) of
        None \<Rightarrow> Inl Not_found | Some s \<Rightarrow> Inr s)"

definition delete_sessions :: "(session \<Rightarrow> bool) \<Rightarrow> auth_db \<Rightarrow> nat \<times> auth_db" where
  "delete_sessions P db =
     (List.length (filter P (db_sessions db)), db\<lparr>db_sessions := delete_where P (db_sessions db)\<rparr>)"

definition delete_session :: "string \<Rightarrow> auth_db \<Rightarrow> store_error + auth_db" where
  "delete_session i db =
     (case delete_sessions (\<lambda>s. se_id s = i) db of (n, db') \<Rightarrow> if n = 0 then Inl Not_found else Inr db')"

definition delete_sessions_by_username :: "string \<Rightarrow> auth_db \<Rightarrow> nat \<times> auth_db" where
  "delete_sessions_by_username u = delete_sessions (\<lambda>s. se_username s = u)"

definition delete_saml_sessions_by_username :: "string \<Rightarrow> auth_db \<Rightarrow> nat \<times> auth_db" where
  "delete_saml_sessions_by_username u =
     delete_sessions (\<lambda>s. se_username s = u \<and> se_auth_provider s = provider_saml)"

definition delete_expired_sessions :: "int \<Rightarrow> auth_db \<Rightarrow> nat \<times> auth_db" where
  "delete_expired_sessions now = delete_sessions (\<lambda>s. se_expires_at s \<le> now)"

section \<open>Credentials\<close>

record token_params =
  tp_username :: string
  tp_name :: string
  tp_hash :: string
  tp_can_write :: bool

text \<open>\<open>btrim(name) <> ''\<close> trims blanks only.\<close>

definition insert_api_token ::
  "string \<Rightarrow> token_params \<Rightarrow> int \<Rightarrow> auth_db \<Rightarrow> store_error + api_token \<times> auth_db" where
  "insert_api_token new_id p now db =
     (if list_all (\<lambda>c. c = CHR '' '') (tp_name p)
         \<or> list_ex (\<lambda>t. at_id t = new_id \<or> at_hash t = tp_hash p
                        \<or> at_username t = tp_username p \<and> at_name t = tp_name p) (db_tokens db)
      then Inl Store_failed
      else let t = \<lparr>at_id = new_id, at_username = tp_username p, at_name = tp_name p,
                    at_hash = tp_hash p, at_can_write = tp_can_write p, at_created_at = now,
                    at_last_used = None\<rparr>
           in Inr (t, db\<lparr>db_tokens := db_tokens db @ [t]\<rparr>))"

definition get_api_token_by_hash :: "string \<Rightarrow> auth_db \<Rightarrow> store_error + api_token" where
  "get_api_token_by_hash h db =
     (case row_of at_hash h (db_tokens db) of None \<Rightarrow> Inl Not_found | Some t \<Rightarrow> Inr t)"

definition delete_api_token :: "string \<Rightarrow> string \<Rightarrow> auth_db \<Rightarrow> store_error + auth_db" where
  "delete_api_token u i db =
     (let mine = \<lambda>t. at_id t = i \<and> at_username t = u
      in if list_ex mine (db_tokens db)
         then Inr (db\<lparr>db_tokens := delete_where mine (db_tokens db)\<rparr>) else Inl Not_found)"

definition delete_api_tokens_by_username :: "string \<Rightarrow> auth_db \<Rightarrow> nat \<times> auth_db" where
  "delete_api_tokens_by_username u db =
     (let theirs = \<lambda>t. at_username t = u
      in (List.length (filter theirs (db_tokens db)),
          db\<lparr>db_tokens := delete_where theirs (db_tokens db)\<rparr>))"

definition minute_ago :: "int \<Rightarrow> int" where "minute_ago now = now - 60000000000"

definition touch_api_token_last_used :: "string \<Rightarrow> int \<Rightarrow> auth_db \<Rightarrow> auth_db" where
  "touch_api_token_last_used i now db =
     db\<lparr>db_tokens := update_where
          (\<lambda>t. at_id t = i \<and> (case at_last_used t of None \<Rightarrow> True | Some l \<Rightarrow> l < minute_ago now))
          (\<lambda>t. t\<lparr>at_last_used := Some now\<rparr>) (db_tokens db)\<rparr>"

section \<open>What the constraints guarantee\<close>

definition user_row_ok :: "user \<Rightarrow> bool" where
  "user_row_ok r \<longleftrightarrow> user_role_ok (us_role r) \<and> provider_ok (us_auth_provider r)
     \<and> 0 \<le> us_failed r \<and> us_failed r \<le> max_integer"

definition users_ok :: "user list \<Rightarrow> bool" where
  "users_ok tbl \<longleftrightarrow> distinct (map us_username tbl) \<and> (\<forall>r\<in>set tbl. user_row_ok r)
     \<and> (\<forall>r\<in>set tbl. \<forall>q\<in>set tbl. us_saml_subject r \<noteq> [] \<longrightarrow> us_saml_subject r = us_saml_subject q
          \<longrightarrow> us_username r = us_username q)"

definition session_row_ok :: "user list \<Rightarrow> session \<Rightarrow> bool" where
  "session_row_ok tbl s \<longleftrightarrow> session_role_ok (se_role s) \<and> provider_ok (se_auth_provider s)
     \<and> se_username s \<in> us_username ` set tbl"

definition sessions_ok :: "user list \<Rightarrow> session list \<Rightarrow> bool" where
  "sessions_ok tbl ss \<longleftrightarrow> distinct (map se_id ss) \<and> (\<forall>s\<in>set ss. session_row_ok tbl s)"

definition tokens_ok :: "api_token list \<Rightarrow> bool" where
  "tokens_ok ts \<longleftrightarrow> distinct (map at_id ts) \<and> distinct (map at_hash ts)
     \<and> distinct (map (\<lambda>t. (at_username t, at_name t)) ts)"

definition auth_ok :: "auth_db \<Rightarrow> bool" where
  "auth_ok db \<longleftrightarrow> users_ok (db_users db) \<and> sessions_ok (db_users db) (db_sessions db)
     \<and> tokens_ok (db_tokens db)"

lemma users_ok_key: "users_ok tbl \<Longrightarrow> row_of us_username u tbl = Some r \<longleftrightarrow> r \<in> set tbl \<and> us_username r = u"
  by (rule row_of_iff) (simp add: users_ok_def)

lemma sessions_ok_names:
  "us_username ` set tbl \<subseteq> us_username ` set tbl' \<Longrightarrow> sessions_ok tbl ss \<Longrightarrow> sessions_ok tbl' ss"
  unfolding sessions_ok_def session_row_ok_def by blast

subsection \<open>Changes of one user row\<close>

lemma update_user_row_SomeD:
  "update_user_row u f db = Some (r', db') \<Longrightarrow>
   (\<exists>r\<in>set (db_users db). us_username r = u \<and> r' = f r)
   \<and> db' = db\<lparr>db_users := update_where (\<lambda>r. us_username r = u) f (db_users db)\<rparr>"
  by (auto simp: update_user_row_def dest!: row_of_Some)

definition keeps_user_row :: "(user \<Rightarrow> user) \<Rightarrow> string \<Rightarrow> user list \<Rightarrow> bool" where
  "keeps_user_row f u tbl \<longleftrightarrow>
     (\<forall>r\<in>set tbl. us_username r = u \<longrightarrow> us_username (f r) = u \<and> user_row_ok (f r)
        \<and> (us_saml_subject (f r) = us_saml_subject r
           \<or> \<not> subject_taken (us_saml_subject (f r)) (filter (\<lambda>q. us_username q \<noteq> u) tbl)))"

lemma update_where_users_ok:
  assumes ok: "users_ok tbl" and f: "keeps_user_row f u tbl"
  shows "users_ok (update_where (\<lambda>r. us_username r = u) f tbl)"
proof -
  let ?t = "update_where (\<lambda>r. us_username r = u) f tbl"
  have mem: "q \<in> set ?t \<longleftrightarrow> (\<exists>r\<in>set tbl. q = (if us_username r = u then f r else r))" for q
    unfolding set_update_where image_iff by (rule refl)
  have "map us_username ?t = map us_username tbl"
    using f by (auto simp: update_where_def keeps_user_row_def)
  then have d: "distinct (map us_username ?t)" using ok by (simp add: users_ok_def)
  have rows: "\<forall>q\<in>set ?t. user_row_ok q"
    using ok f by (auto simp: mem users_ok_def keeps_user_row_def)
  have one: "r = q" if "r \<in> set tbl" "q \<in> set tbl" "us_username r = us_username q" for r q
    using ok that by (auto simp: users_ok_def distinct_map inj_on_def)
  have sub: "us_username p = us_username q"
    if p: "p \<in> set ?t" and q: "q \<in> set ?t" and s: "us_saml_subject p \<noteq> []" "us_saml_subject p = us_saml_subject q"
    for p q
  proof -
    obtain r where r: "r \<in> set tbl" "p = (if us_username r = u then f r else r)" using p mem by blast
    obtain w where w: "w \<in> set tbl" "q = (if us_username w = u then f w else w)" using q mem by blast
    have old: "us_username r = us_username w" if "us_saml_subject r = us_saml_subject w" "us_saml_subject r \<noteq> []"
      using ok r(1) w(1) that unfolding users_ok_def by blast
    have keep: "us_username (f v) = u \<and>
        (us_saml_subject (f v) = us_saml_subject v
         \<or> (\<forall>x\<in>set tbl. us_username x \<noteq> u \<longrightarrow> us_saml_subject (f v) \<noteq> [] \<longrightarrow> us_saml_subject x \<noteq> us_saml_subject (f v)))"
      if "v \<in> set tbl" "us_username v = u" for v
      using f that unfolding keeps_user_row_def subject_taken_def list_ex_iff by auto
    show ?thesis
    proof (cases "us_username r = u"; cases "us_username w = u")
      assume "us_username r = u" "us_username w = u"
      then show ?thesis using r w keep by simp
    next
      assume c: "us_username r = u" "us_username w \<noteq> u"
      then show ?thesis using r w keep [OF r(1) c(1)] s old by auto
    next
      assume c: "us_username r \<noteq> u" "us_username w = u"
      then show ?thesis using r w keep [OF w(1) c(2)] s old by auto
    next
      assume "us_username r \<noteq> u" "us_username w \<noteq> u"
      then show ?thesis using r w s old by simp
    qed
  qed
  show ?thesis using d rows sub unfolding users_ok_def by blast
qed

lemma update_user_row_ok:
  assumes ok: "auth_ok db" and up: "update_user_row u f db = Some (r', db')"
    and f: "keeps_user_row f u (db_users db)"
  shows "auth_ok db'"
proof -
  have db': "db' = db\<lparr>db_users := update_where (\<lambda>r. us_username r = u) f (db_users db)\<rparr>"
    using update_user_row_SomeD [OF up] by simp
  have "us_username ` set (db_users db) \<subseteq> us_username ` set (db_users db')"
  proof
    fix n assume "n \<in> us_username ` set (db_users db)"
    then obtain r where r: "r \<in> set (db_users db)" "n = us_username r" by blast
    let ?q = "if us_username r = u then f r else r"
    have "?q \<in> set (db_users db')" using r(1) by (simp add: db' set_update_where image_iff) blast
    moreover have "us_username ?q = n" using r f by (auto simp: keeps_user_row_def)
    ultimately show "n \<in> us_username ` set (db_users db')" by blast
  qed
  then show ?thesis
    using ok update_where_users_ok [OF _ f] sessions_ok_names unfolding auth_ok_def db' by auto
qed

lemma keeps_user_row_same:
  assumes "users_ok tbl"
    and "\<And>r. us_username (f r) = us_username r \<and> us_saml_subject (f r) = us_saml_subject r"
    and "\<And>r. user_row_ok r \<Longrightarrow> user_row_ok (f r)"
  shows "keeps_user_row f u tbl"
  using assms by (simp add: keeps_user_row_def users_ok_def)

subsection \<open>Every operation keeps the constraints\<close>

lemma insert_user_ok:
  assumes "auth_ok db" and "insert_user p now db = Inr (r, db')"
  shows "auth_ok db'"
proof -
  have c: "user_role_ok (up_role p)" "provider_ok (up_auth_provider p)"
    and new: "\<forall>q\<in>set (db_users db). us_username q \<noteq> up_username p"
      "\<not> subject_taken (up_saml_subject p) (db_users db)"
    and db': "db' = db\<lparr>db_users := db_users db @ [r]\<rparr>"
    and r: "us_username r = up_username p" "us_saml_subject r = up_saml_subject p"
      "us_role r = up_role p" "us_auth_provider r = up_auth_provider p" "us_failed r = 0"
    using assms(2) by (auto simp: insert_user_def Let_def list_ex_iff split: if_splits)
  have row: "user_row_ok r" using c by (simp add: user_row_ok_def r max_integer_def)
  have sub: "us_saml_subject q \<noteq> us_saml_subject r" if "q \<in> set (db_users db)" "us_saml_subject r \<noteq> []" for q
    using that new(2) by (simp add: subject_taken_def list_ex_iff r)
  have old: "users_ok (db_users db)" using assms(1) by (simp add: auth_ok_def)
  have u: "users_ok (db_users db @ [r])"
    unfolding users_ok_def
  proof (intro conjI ballI impI)
    show "distinct (map us_username (db_users db @ [r]))"
      using old new(1) by (auto simp: users_ok_def r(1))
    show "user_row_ok q" if "q \<in> set (db_users db @ [r])" for q
      using that old row by (auto simp: users_ok_def)
    have osub: "us_username q = us_username w"
      if "q \<in> set (db_users db)" "w \<in> set (db_users db)" "us_saml_subject q \<noteq> []"
        "us_saml_subject q = us_saml_subject w" for q w
      using old that unfolding users_ok_def by blast
    fix q w assume m: "q \<in> set (db_users db @ [r])" "w \<in> set (db_users db @ [r])"
      and s: "us_saml_subject q \<noteq> []" "us_saml_subject q = us_saml_subject w"
    from m consider "q = r" "w = r" | "q = r" "w \<in> set (db_users db)" | "w = r" "q \<in> set (db_users db)"
      | "q \<in> set (db_users db)" "w \<in> set (db_users db)" by auto
    then show "us_username q = us_username w"
      using s osub sub by cases metis+
  qed
  show ?thesis
    using assms(1) u sessions_ok_names [of "db_users db" "db_users db @ [r]"]
    unfolding auth_ok_def db' by auto
qed

lemma update_saml_user_ok:
  assumes "auth_ok db" and "update_saml_user_by_username u p now db = Inr (r, db')"
  shows "auth_ok db'"
proof -
  have up: "update_user_row u (saml_update p now) db = Some (r, db')"
    and c: "user_role_ok (up_role p)"
      "\<not> subject_taken (up_saml_subject p) (filter (\<lambda>r. us_username r \<noteq> u) (db_users db))"
    using assms(2) by (auto simp: update_saml_user_by_username_def split: option.splits if_splits)
  have "keeps_user_row (saml_update p now) u (db_users db)"
    using assms(1) c by (simp add: keeps_user_row_def saml_update_def auth_ok_def users_ok_def user_row_ok_def)
  then show ?thesis by (rule update_user_row_ok [OF assms(1) up])
qed

lemma upsert_saml_user_ok:
  assumes "auth_ok db" and "upsert_saml_user p now db = Inr (r, db')"
  shows "auth_ok db'"
  using assms by (auto simp: upsert_saml_user_def split: sum.splits prod.splits if_splits
      intro: insert_user_ok update_saml_user_ok)

lemma update_user_ok:
  assumes "auth_ok db" and "update_user u p now db = Inr (r, db')"
  shows "auth_ok db'"
proof -
  have up: "update_user_row u (apply_update p now) db = Some (r, db')"
    and c: "\<And>role. uu_role p = Some role \<Longrightarrow> user_role_ok role"
    using assms(2) by (auto simp: update_user_def split: option.splits if_splits)
  have "keeps_user_row (apply_update p now) u (db_users db)"
    using assms(1)
    by (intro keeps_user_row_same)
       (auto simp: apply_update_def Let_def auth_ok_def user_row_ok_def max_integer_def c split: option.splits)
  then show ?thesis by (rule update_user_row_ok [OF assms(1) up])
qed

lemma checked_update_ok:
  assumes "auth_ok db" and "checked_update u f db = Inr db'"
    and "\<And>r. us_username (f r) = us_username r \<and> us_saml_subject (f r) = us_saml_subject r"
    and "\<And>r. user_row_ok r \<Longrightarrow> user_row_ok (f r)"
  shows "auth_ok db'"
proof -
  obtain r where "update_user_row u f db = Some (r, db')"
    using assms(2) by (auto simp: checked_update_def split: option.splits)
  moreover have "users_ok (db_users db)" using assms(1) by (simp add: auth_ok_def)
  ultimately show ?thesis
    using update_user_row_ok keeps_user_row_same assms by metis
qed

lemma update_user_password_ok: "\<lbrakk>auth_ok db; update_user_password u h now db = Inr db'\<rbrakk> \<Longrightarrow> auth_ok db'"
  unfolding update_user_password_def by (rule checked_update_ok, assumption, assumption) (auto simp: user_row_ok_def)

lemma lock_user_ok: "\<lbrakk>auth_ok db; lock_user u now db = Inr db'\<rbrakk> \<Longrightarrow> auth_ok db'"
  unfolding lock_user_def by (rule checked_update_ok, assumption, assumption) (auto simp: user_row_ok_def)

lemma record_login_success_ok: "\<lbrakk>auth_ok db; record_login_success u now db = Inr db'\<rbrakk> \<Longrightarrow> auth_ok db'"
  unfolding record_login_success_def
  by (rule checked_update_ok, assumption, assumption) (auto simp: user_row_ok_def max_integer_def)

lemma increment_failed_ok:
  assumes "auth_ok db" and "increment_failed_login_attempts u now db = Inr (n, db')"
  shows "auth_ok db'"
proof -
  let ?f = "\<lambda>r. r\<lparr>us_failed := us_failed r + 1, us_updated_at := now\<rparr>"
  obtain r where up: "update_user_row u ?f db = Some (r, db')" and le: "us_failed r \<le> max_integer"
    using assms(2) by (auto simp: increment_failed_login_attempts_def split: option.splits if_splits)
  have u: "users_ok (db_users db)" using assms(1) by (simp add: auth_ok_def)
  have "us_failed q + 1 \<le> max_integer" if "q \<in> set (db_users db)" "us_username q = u" for q
  proof -
    obtain w where w: "w \<in> set (db_users db)" "us_username w = u" "r = ?f w"
      using update_user_row_SomeD [OF up] by blast
    then have "w = q" using that users_ok_key [OF u] by (metis option.inject)
    then show ?thesis using le w by simp
  qed
  then have "keeps_user_row ?f u (db_users db)"
    using u by (auto simp: keeps_user_row_def users_ok_def user_row_ok_def)
  then show ?thesis by (rule update_user_row_ok [OF assms(1) up])
qed

lemma delete_user_ok:
  assumes "auth_ok db" and "delete_user u db = Inr db'"
  shows "auth_ok db'"
proof -
  let ?U = "delete_where (\<lambda>r. us_username r = u) (db_users db)"
  let ?S = "delete_where (\<lambda>s. se_username s = u) (db_sessions db)"
  have db': "db' = db\<lparr>db_users := ?U, db_sessions := ?S\<rparr>"
    using assms(2) by (simp add: delete_user_def split: if_splits)
  have "users_ok ?U"
    using assms(1) unfolding auth_ok_def users_ok_def by (simp add: distinct_delete_where)
  moreover have "sessions_ok ?U ?S"
    using assms(1) unfolding auth_ok_def sessions_ok_def
    by (fastforce simp: distinct_delete_where session_row_ok_def)
  ultimately show ?thesis using assms(1) by (simp add: auth_ok_def db')
qed

lemma delete_sessions_ok: "auth_ok db \<Longrightarrow> auth_ok (snd (delete_sessions P db))"
  by (auto simp: delete_sessions_def auth_ok_def sessions_ok_def distinct_delete_where)

lemma insert_session_ok:
  assumes "auth_ok db" and "insert_session i p now db = Inr (s, db')"
  shows "auth_ok db'"
proof -
  have c: "session_role_ok (sp_role p)" "provider_ok (sp_auth_provider p)"
      "\<forall>q\<in>set (db_sessions db). se_id q \<noteq> i" "sp_username p \<in> us_username ` set (db_users db)"
    and s: "se_id s = i" "se_username s = sp_username p" "se_role s = sp_role p"
      "se_auth_provider s = sp_auth_provider p"
    and db': "db' = db\<lparr>db_sessions := db_sessions db @ [s]\<rparr>"
    using assms(2) by (auto simp: insert_session_def Let_def list_ex_iff row_of_None split: if_splits)
  have "sessions_ok (db_users db) (db_sessions db @ [s])"
    using assms(1) c by (auto simp: auth_ok_def sessions_ok_def session_row_ok_def s image_iff)
  then show ?thesis using assms(1) by (simp add: auth_ok_def db')
qed

lemma insert_api_token_ok:
  assumes "auth_ok db" and "insert_api_token i p now db = Inr (t, db')"
  shows "auth_ok db'"
proof -
  have new: "\<forall>q\<in>set (db_tokens db). at_id q \<noteq> i \<and> at_hash q \<noteq> tp_hash p
        \<and> \<not> (at_username q = tp_username p \<and> at_name q = tp_name p)"
    and t: "at_id t = i" "at_hash t = tp_hash p" "at_username t = tp_username p" "at_name t = tp_name p"
    and db': "db' = db\<lparr>db_tokens := db_tokens db @ [t]\<rparr>"
    using assms(2) by (auto simp: insert_api_token_def list_ex_iff Let_def split: if_splits)
  have "tokens_ok (db_tokens db @ [t])"
    using assms(1) new by (auto simp: auth_ok_def tokens_ok_def t)
  then show ?thesis using assms(1) by (simp add: auth_ok_def db')
qed

lemma delete_tokens_ok: "auth_ok db \<Longrightarrow> auth_ok (db\<lparr>db_tokens := delete_where P (db_tokens db)\<rparr>)"
  by (simp add: auth_ok_def tokens_ok_def distinct_delete_where)

lemma touch_token_ok: "auth_ok db \<Longrightarrow> auth_ok (touch_api_token_last_used i now db)"
  by (simp add: touch_api_token_last_used_def auth_ok_def tokens_ok_def map_update_where)

end
