(* ===== verification/Auth.thy ===== *)
theory Auth
  imports Auth_Store
begin

text \<open>
  Authentication and access control (\<open>internal/auth/local.go\<close>, \<open>session.go\<close>, \<open>credential.go\<close>,
  \<open>password.go\<close>, \<open>middleware.go\<close>, \<open>auth/jit/provisioner.go\<close>) and the handlers over them
  (\<open>internal/webapi/credential_scope.go\<close>, \<open>routes.go\<close>, \<open>handle_auth.go\<close>,
  \<open>handle_auth_tokens.go\<close>, \<open>handle_admin_users.go\<close>, \<open>handle_saml.go\<close>). A request is one step on
  the tables of \<open>Auth_Store\<close>. Any call to the store may fail: \<open>down\<close> says which calls of the
  request do. Bcrypt, SHA-256 and the Unicode tables are the record \<open>primitives\<close>.
\<close>

record primitives =
  bcrypt_check :: "string \<Rightarrow> string \<Rightarrow> bool"
  bcrypt_hash :: "string \<Rightarrow> string option"
  sha256_hex :: "string \<Rightarrow> string"
  runes :: "string \<Rightarrow> nat list"
  is_upper_rune :: "nat \<Rightarrow> bool"
  is_lower_rune :: "nat \<Rightarrow> bool"
  is_digit_rune :: "nat \<Rightarrow> bool"

datatype store_call =
    Get_user | Increment_failed | Lock_user | Record_success | Refresh_user
  | Insert_session | Get_session | Delete_session | Delete_sessions
  | Get_token | Get_token_user | Touch_token | Insert_token | Delete_token | Delete_tokens
  | Insert_user | Update_user | Update_password | Delete_user | Get_subject

type_synonym faults = "store_call \<Rightarrow> bool"

text \<open>A call that fails when the store is down for it.\<close>
definition attempt :: "faults \<Rightarrow> store_call \<Rightarrow> store_error + 'a \<Rightarrow> store_error + 'a" where
  "attempt down c r = (if down c then Inl Store_failed else r)"

section \<open>Local login\<close>

datatype auth_error = Invalid_credentials | Account_locked | Lookup_failed

record login_result =
  lr_success :: bool
  lr_user :: "user option"
  lr_error :: "auth_error option"
  lr_locked :: bool
  lr_failed_attempts :: int

definition login_refused :: "auth_error \<Rightarrow> bool \<Rightarrow> int \<Rightarrow> login_result" where
  "login_refused e locked n =
     \<lparr>lr_success = False, lr_user = None, lr_error = Some e, lr_locked = locked, lr_failed_attempts = n\<rparr>"

record local_authenticator =
  la_lockout_attempts :: int
  la_live_attempts :: "int option"

definition new_local_authenticator :: "int \<Rightarrow> int option \<Rightarrow> local_authenticator" where
  "new_local_authenticator n live =
     \<lparr>la_lockout_attempts = (if n \<le> 0 then 5 else n), la_live_attempts = live\<rparr>"

definition effective_lockout_attempts :: "local_authenticator \<Rightarrow> int" where
  "effective_lockout_attempts a =
     (case la_live_attempts a of
        Some n \<Rightarrow> if n > 0 then n else la_lockout_attempts a
      | None \<Rightarrow> la_lockout_attempts a)"

definition handle_failed_attempt ::
  "faults \<Rightarrow> local_authenticator \<Rightarrow> user \<Rightarrow> int \<Rightarrow> auth_db \<Rightarrow> auth_db \<times> login_result" where
  "handle_failed_attempt down a user now db =
     (case attempt down Increment_failed (increment_failed_login_attempts (us_username user) now db) of
        Inl e \<Rightarrow> (db, login_refused Invalid_credentials False 0)
      | Inr (failed_count, db') \<Rightarrow>
          if failed_count \<ge> effective_lockout_attempts a
          then (case attempt down Lock_user (lock_user (us_username user) now db') of
                  Inl e \<Rightarrow> (db', login_refused Account_locked True failed_count)
                | Inr db'' \<Rightarrow> (db'', login_refused Account_locked True failed_count))
          else (db', login_refused Invalid_credentials False failed_count))"

definition authenticate ::
  "primitives \<Rightarrow> faults \<Rightarrow> local_authenticator \<Rightarrow> string \<Rightarrow> string \<Rightarrow> int \<Rightarrow> auth_db
   \<Rightarrow> auth_db \<times> login_result" where
  "authenticate prim down a username password now db =
     (case attempt down Get_user (get_user_by_username username db) of
        Inl Not_found \<Rightarrow> (db, login_refused Invalid_credentials False 0)
      | Inl e \<Rightarrow> (db, login_refused Lookup_failed False 0)
      | Inr user \<Rightarrow>
          if us_auth_provider user \<noteq> provider_local
          then (db, login_refused Invalid_credentials False 0)
          else if us_is_locked user then (db, login_refused Account_locked True 0)
          else if \<not> bcrypt_check prim (us_password_hash user) password
          then handle_failed_attempt down a user now db
          else let db' = (case attempt down Record_success (record_login_success username now db) of
                            Inl e \<Rightarrow> db | Inr db' \<Rightarrow> db');
                   user' = (case attempt down Refresh_user (get_user_by_username username db') of
                              Inl e \<Rightarrow> user | Inr r \<Rightarrow> r)
               in (db', \<lparr>lr_success = True, lr_user = Some user', lr_error = None,
                         lr_locked = False, lr_failed_attempts = 0\<rparr>))"

text \<open>The status code of a failed login.\<close>
definition login_error_from_result :: "login_result \<Rightarrow> nat" where
  "login_error_from_result r = (if lr_locked r \<or> lr_error r = Some Account_locked then 423 else 401)"

section \<open>Sessions\<close>

record session_manager =
  sm_lifetime :: int
  sm_live_lifetime :: "int option"

definition new_session_manager :: "int \<Rightarrow> int option \<Rightarrow> session_manager" where
  "new_session_manager lifetime live =
     \<lparr>sm_lifetime = (if lifetime \<le> 0 then 8 * 3600000000000 else lifetime), sm_live_lifetime = live\<rparr>"

definition effective_lifetime :: "session_manager \<Rightarrow> int" where
  "effective_lifetime m =
     (case sm_live_lifetime m of
        Some d \<Rightarrow> if d > 0 then d else sm_lifetime m
      | None \<Rightarrow> sm_lifetime m)"

definition create_session ::
  "faults \<Rightarrow> session_manager \<Rightarrow> string \<Rightarrow> string \<Rightarrow> string \<Rightarrow> string \<Rightarrow> int \<Rightarrow> auth_db
   \<Rightarrow> store_error + session \<times> auth_db" where
  "create_session down m new_id username provider role now db =
     attempt down Insert_session
       (insert_session new_id
          \<lparr>sp_username = username, sp_auth_provider = provider, sp_role = role,
           sp_expires_at = now + effective_lifetime m\<rparr> now db)"

text \<open>\<open>Login\<close>: the session on success, otherwise the status code of the refusal.\<close>

definition login ::
  "primitives \<Rightarrow> faults \<Rightarrow> local_authenticator \<Rightarrow> session_manager \<Rightarrow> string \<Rightarrow> string \<Rightarrow> string
   \<Rightarrow> int \<Rightarrow> auth_db \<Rightarrow> auth_db \<times> (nat + session)" where
  "login prim down a m new_id username password now db =
     (case authenticate prim down a username password now db of
        (db', r) \<Rightarrow>
          (case lr_user r of
             None \<Rightarrow> (db', Inl (login_error_from_result r))
           | Some user \<Rightarrow>
               (case create_session down m new_id (us_username user) (us_auth_provider user)
                       (us_role user) now db' of
                  Inl e \<Rightarrow> (db', Inl 500)
                | Inr (s, db'') \<Rightarrow> (db'', Inr s))))"

definition handle_login ::
  "primitives \<Rightarrow> faults \<Rightarrow> local_authenticator \<Rightarrow> session_manager \<Rightarrow> string \<Rightarrow> string \<times> string
   \<Rightarrow> int \<Rightarrow> auth_db \<Rightarrow> auth_db \<times> (nat + session)" where
  "handle_login prim down a m new_id body now db =
     (if fst body = [] \<or> snd body = [] then (db, Inl 400)
      else login prim down a m new_id (fst body) (snd body) now db)"

definition access_screen :: string where "access_screen = ''screen''"
definition access_credential :: string where "access_credential = ''credential''"

lemma access_distinct [simp]: "access_screen \<noteq> access_credential" "access_credential \<noteq> access_screen"
  by (simp_all add: access_screen_def access_credential_def)

record session_info =
  si_session_id :: string
  si_username :: string
  si_auth_provider :: string
  si_role :: string
  si_expires_at :: "int option"
  si_access_method :: string
  si_credential_id :: string
  si_credential_name :: string
  si_can_write :: bool

definition is_credential :: "session_info \<Rightarrow> bool" where
  "is_credential s = (si_access_method s = access_credential)"

definition is_admin :: "session_info \<Rightarrow> bool" where
  "is_admin s = (si_role s = role_admin)"

definition is_operator :: "session_info \<Rightarrow> bool" where
  "is_operator s = (si_role s = role_operator \<or> si_role s = role_admin)"

definition info_of_session :: "session \<Rightarrow> session_info" where
  "info_of_session s =
     \<lparr>si_session_id = se_id s, si_username = se_username s, si_auth_provider = se_auth_provider s,
      si_role = se_role s, si_expires_at = Some (se_expires_at s), si_access_method = access_screen,
      si_credential_id = [], si_credential_name = [], si_can_write = False\<rparr>"

definition validate_session :: "faults \<Rightarrow> string \<Rightarrow> int \<Rightarrow> auth_db \<Rightarrow> session_info option" where
  "validate_session down token now db =
     (if token = [] then None
      else case attempt down Get_session (get_valid_session token now db) of
             Inl e \<Rightarrow> None
           | Inr s \<Rightarrow> Some (info_of_session s))"

text \<open>A session that is already gone is no error.\<close>

definition invalidate_session :: "faults \<Rightarrow> string \<Rightarrow> auth_db \<Rightarrow> auth_db" where
  "invalidate_session down token db =
     (if token = [] then db
      else case attempt down Delete_session (delete_session token db) of Inl e \<Rightarrow> db | Inr db' \<Rightarrow> db')"

definition invalidate_user_sessions :: "faults \<Rightarrow> string \<Rightarrow> auth_db \<Rightarrow> auth_db" where
  "invalidate_user_sessions down username db =
     (if down Delete_sessions then db else snd (delete_sessions_by_username username db))"

definition cleanup_expired :: "faults \<Rightarrow> int \<Rightarrow> auth_db \<Rightarrow> auth_db" where
  "cleanup_expired down now db =
     (if down Delete_sessions then db else snd (delete_expired_sessions now db))"

section \<open>Credentials\<close>

definition credential_prefix :: string where "credential_prefix = ''cmm_''"

definition is_credential_secret :: "string \<Rightarrow> bool" where
  "is_credential_secret s = prefix credential_prefix s"

text \<open>\<open>random\<close> is the encoded randomness, or none when the source of randomness fails.\<close>

definition issue_credential ::
  "primitives \<Rightarrow> faults \<Rightarrow> string option \<Rightarrow> string \<Rightarrow> string \<Rightarrow> string \<Rightarrow> bool \<Rightarrow> int \<Rightarrow> auth_db
   \<Rightarrow> (api_token \<times> string) option \<times> auth_db" where
  "issue_credential prim down random new_id username name0 can_write now db =
     (let name = trim_space name0
      in if name = [] \<or> trim_space username = [] then (None, db)
         else case random of
                None \<Rightarrow> (None, db)
              | Some rnd \<Rightarrow>
                  let secret = credential_prefix @ rnd
                  in case attempt down Insert_token
                            (insert_api_token new_id
                               \<lparr>tp_username = username, tp_name = name,
                                tp_hash = sha256_hex prim secret, tp_can_write = can_write\<rparr> now db) of
                       Inl e \<Rightarrow> (None, db)
                     | Inr (tok, db') \<Rightarrow> (Some (tok, secret), db'))"

definition destroy_credential :: "faults \<Rightarrow> string \<Rightarrow> string \<Rightarrow> auth_db \<Rightarrow> store_error + auth_db" where
  "destroy_credential down username i db =
     attempt down Delete_token (delete_api_token username i db)"

definition destroy_all_credentials_for :: "faults \<Rightarrow> string \<Rightarrow> auth_db \<Rightarrow> auth_db" where
  "destroy_all_credentials_for down username db =
     (if down Delete_tokens then db else snd (delete_api_tokens_by_username username db))"

definition info_of_token :: "user \<Rightarrow> api_token \<Rightarrow> session_info" where
  "info_of_token user tok =
     \<lparr>si_session_id = [], si_username = us_username user, si_auth_provider = us_auth_provider user,
      si_role = us_role user, si_expires_at = None, si_access_method = access_credential,
      si_credential_id = at_id tok, si_credential_name = at_name tok, si_can_write = at_can_write tok\<rparr>"

text \<open>\<open>Validate\<close> of a secret that carries the prefix.\<close>

definition validate_credential ::
  "primitives \<Rightarrow> faults \<Rightarrow> string \<Rightarrow> int \<Rightarrow> auth_db \<Rightarrow> session_info option \<times> auth_db" where
  "validate_credential prim down secret now db =
     (if \<not> is_credential_secret secret then (None, db)
      else case attempt down Get_token (get_api_token_by_hash (sha256_hex prim secret) db) of
             Inl e \<Rightarrow> (None, db)
           | Inr tok \<Rightarrow>
               (case attempt down Get_token_user (get_user_by_username (at_username tok) db) of
                  Inl e \<Rightarrow> (None, db)
                | Inr user \<Rightarrow>
                    if us_is_locked user then (None, db)
                    else (Some (info_of_token user tok),
                          if down Touch_token then db
                          else touch_api_token_last_used (at_id tok) now db)))"

section \<open>Requests\<close>

record request =
  rq_method :: string
  rq_path :: string
  rq_authorization :: string
  rq_cookie :: string

definition bearer :: string where "bearer = ''Bearer ''"

definition extract_token :: "request \<Rightarrow> string" where
  "extract_token req =
     (let hdr = rq_authorization req
      in if List.length hdr > List.length bearer
            \<and> to_lower (take (List.length bearer) hdr) = to_lower bearer
         then trim_space (drop (List.length bearer) hdr)
         else rq_cookie req)"

text \<open>
  \<open>RequireAuth\<close>: the caller's identity, or 401. \<open>wired\<close> says whether the credential manager is
  configured.
\<close>

definition require_auth ::
  "primitives \<Rightarrow> faults \<Rightarrow> bool \<Rightarrow> request \<Rightarrow> int \<Rightarrow> auth_db \<Rightarrow> (nat + session_info) \<times> auth_db" where
  "require_auth prim down wired req now db =
     (let token = extract_token req
      in if token = [] then (Inl 401, db)
         else if wired \<and> is_credential_secret token
         then (case validate_credential prim down token now db of
                 (None, db') \<Rightarrow> (Inl 401, db')
               | (Some info, db') \<Rightarrow> (Inr info, db'))
         else (case validate_session down token now db of
                 None \<Rightarrow> (Inl 401, db)
               | Some info \<Rightarrow> (Inr info, db)))"

definition method_get :: string where "method_get = ''GET''"
definition method_head :: string where "method_head = ''HEAD''"
definition method_options :: string where "method_options = ''OPTIONS''"
definition method_post :: string where "method_post = ''POST''"
definition method_put :: string where "method_put = ''PUT''"
definition method_delete :: string where "method_delete = ''DELETE''"

definition mcp_path :: string where "mcp_path = ''/api/v1/mcp''"
definition failure_register_path :: string where "failure_register_path = ''/api/v1/failure-register''"

definition credential_may_proceed :: "session_info \<Rightarrow> request \<Rightarrow> bool" where
  "credential_may_proceed info req =
     (if \<not> is_credential info then True
      else if rq_method req = method_get \<or> rq_method req = method_head \<or> rq_method req = method_options
      then True
      else if rq_path req = mcp_path then True
      else if \<not> si_can_write info then False
      else rq_method req = method_post \<and> rq_path req = failure_register_path)"

text \<open>\<open>protect\<close>, \<open>operatorOnly\<close> and \<open>adminOnly\<close>: whether the handler runs, and for whom.\<close>

datatype route_role = Authenticated | Operator_only | Admin_only

fun role_admits :: "route_role \<Rightarrow> session_info \<Rightarrow> bool" where
  "role_admits Authenticated info = True"
| "role_admits Operator_only info = is_operator info"
| "role_admits Admin_only info = is_admin info"

definition guarded ::
  "primitives \<Rightarrow> faults \<Rightarrow> bool \<Rightarrow> route_role \<Rightarrow> request \<Rightarrow> int \<Rightarrow> auth_db
   \<Rightarrow> (nat + session_info) \<times> auth_db" where
  "guarded prim down wired role req now db =
     (case require_auth prim down wired req now db of
        (Inl code, db') \<Rightarrow> (Inl code, db')
      | (Inr info, db') \<Rightarrow>
          (if \<not> role_admits role info then Inl 403
           else if credential_may_proceed info req then Inr info else Inl 403, db'))"

end
