(* ===== verification/Auth_Handlers.thy ===== *)
theory Auth_Handlers
  imports Auth
begin

text \<open>
  The handlers that change accounts, sessions and credentials
  (\<open>internal/webapi/handle_admin_users.go\<close>, \<open>handle_auth.go\<close>, \<open>handle_auth_tokens.go\<close>,
  \<open>handle_saml.go\<close>) with the SAML provisioner (\<open>internal/auth/jit/provisioner.go\<close>), the password
  rules (\<open>internal/auth/password.go\<close>), and the service as a step relation over them. A handler
  returns the tables and the status code. A request body is what it decodes to, or none when it
  does not decode.
\<close>

section \<open>Passwords\<close>

datatype password_problem = Too_short int nat | No_upper | No_lower | No_digit

definition default_min_length :: "int \<Rightarrow> int" where
  "default_min_length n = (if n \<le> 0 then 8 else n)"

text \<open>Each rune counts for the first class of the switch it belongs to.\<close>

definition validate_password :: "primitives \<Rightarrow> string \<Rightarrow> int \<Rightarrow> password_problem list" where
  "validate_password prim password min0 =
     (let min_length = default_min_length min0;
          rs = runes prim password;
          up = list_ex (is_upper_rune prim) rs;
          lo = list_ex (\<lambda>r. \<not> is_upper_rune prim r \<and> is_lower_rune prim r) rs;
          di = list_ex (\<lambda>r. \<not> is_upper_rune prim r \<and> \<not> is_lower_rune prim r \<and> is_digit_rune prim r) rs
      in (if int (List.length rs) < min_length then [Too_short min_length (List.length rs)] else [])
         @ (if min_length \<ge> 8
            then (if up then [] else [No_upper]) @ (if lo then [] else [No_lower])
                 @ (if di then [] else [No_digit])
            else []))"

section \<open>Administration of accounts\<close>

record create_user_request =
  cu_username :: string
  cu_display_name :: string
  cu_email :: string
  cu_password :: string
  cu_role :: string

record admin_request =
  ar_method :: string
  ar_path :: string
  ar_caller :: "session_info option"
  ar_create :: "create_user_request option"
  ar_update :: "user_update option"
  ar_reset :: "string option"

definition users_path :: string where "users_path = ''/api/v1/admin/users''"
definition users_subpath :: string where "users_subpath = ''/api/v1/admin/users/''"
definition password_suffix :: string where "password_suffix = ''/password''"

definition handle_admin_create_user ::
  "primitives \<Rightarrow> faults \<Rightarrow> int \<Rightarrow> admin_request \<Rightarrow> int \<Rightarrow> auth_db \<Rightarrow> nat \<times> auth_db" where
  "handle_admin_create_user prim down min_len req now db =
     (if ar_method req \<noteq> method_post then (405, db)
      else case ar_create req of
             None \<Rightarrow> (400, db)
           | Some body \<Rightarrow>
               if cu_username body = [] then (400, db)
               else if cu_password body = [] then (400, db)
               else let role = (if cu_role body = [] then role_viewer else cu_role body)
                    in if role \<noteq> role_admin \<and> role \<noteq> role_operator \<and> role \<noteq> role_viewer then (422, db)
                       else if validate_password prim (cu_password body) (default_min_length min_len) \<noteq> []
                       then (422, db)
                       else case bcrypt_hash prim (cu_password body) of
                              None \<Rightarrow> (500, db)
                            | Some hash \<Rightarrow>
                                (case attempt down Insert_user
                                        (insert_user
                                           \<lparr>up_username = cu_username body,
                                            up_display_name = cu_display_name body,
                                            up_email = cu_email body, up_password_hash = hash,
                                            up_role = role, up_auth_provider = provider_local,
                                            up_saml_subject = []\<rparr> now db) of
                                   Inl Already_exists \<Rightarrow> (409, db)
                                 | Inl e \<Rightarrow> (500, db)
                                 | Inr (user, db') \<Rightarrow> (201, db')))"

definition handle_admin_reset_password ::
  "primitives \<Rightarrow> faults \<Rightarrow> int \<Rightarrow> admin_request \<Rightarrow> int \<Rightarrow> auth_db \<Rightarrow> nat \<times> auth_db" where
  "handle_admin_reset_password prim down min_len req now db =
     (if ar_method req \<noteq> method_put then (405, db)
      else let raw = trim_prefix (ar_path req) users_subpath;
               username = (case cut_suffix raw password_suffix of None \<Rightarrow> raw | Some u \<Rightarrow> u)
           in if username = [] then (400, db)
              else case ar_reset req of
                     None \<Rightarrow> (400, db)
                   | Some password \<Rightarrow>
                       if password = [] then (400, db)
                       else if validate_password prim password (default_min_length min_len) \<noteq> []
                       then (422, db)
                       else case bcrypt_hash prim password of
                              None \<Rightarrow> (500, db)
                            | Some hash \<Rightarrow>
                                (case attempt down Update_password
                                        (update_user_password username hash now db) of
                                   Inl Not_found \<Rightarrow> (404, db)
                                 | Inl e \<Rightarrow> (500, db)
                                 | Inr db' \<Rightarrow> (204, invalidate_user_sessions down username db')))"

definition handle_admin_update_user ::
  "primitives \<Rightarrow> faults \<Rightarrow> int \<Rightarrow> admin_request \<Rightarrow> int \<Rightarrow> auth_db \<Rightarrow> nat \<times> auth_db" where
  "handle_admin_update_user prim down min_len req now db =
     (if ar_method req \<noteq> method_put then (405, db)
      else let username = trim_prefix (ar_path req) users_subpath
           in if suffix password_suffix username
              then handle_admin_reset_password prim down min_len req now db
              else if username = [] then (400, db)
              else case ar_update req of
                     None \<Rightarrow> (400, db)
                   | Some body \<Rightarrow>
                       if (case uu_role body of
                             None \<Rightarrow> False
                           | Some r \<Rightarrow> r \<noteq> role_admin \<and> r \<noteq> role_operator \<and> r \<noteq> role_viewer)
                       then (422, db)
                       else case attempt down Update_user (update_user username body now db) of
                              Inl Not_found \<Rightarrow> (404, db)
                            | Inl e \<Rightarrow> (500, db)
                            | Inr (updated, db') \<Rightarrow>
                                (200, if uu_is_locked body = Some True
                                      then invalidate_user_sessions down username db' else db'))"

definition handle_admin_delete_user ::
  "faults \<Rightarrow> admin_request \<Rightarrow> auth_db \<Rightarrow> nat \<times> auth_db" where
  "handle_admin_delete_user down req db =
     (if ar_method req \<noteq> method_delete then (405, db)
      else let username = trim_prefix (ar_path req) users_subpath
           in if username = [] then (400, db)
              else if (case ar_caller req of None \<Rightarrow> False | Some info \<Rightarrow> si_username info = username)
              then (409, db)
              else case attempt down Delete_user (delete_user username db) of
                     Inl Not_found \<Rightarrow> (404, db)
                   | Inl e \<Rightarrow> (500, db)
                   | Inr db' \<Rightarrow> (204, destroy_all_credentials_for down username db'))"

definition handle_admin_users ::
  "primitives \<Rightarrow> faults \<Rightarrow> int \<Rightarrow> admin_request \<Rightarrow> int \<Rightarrow> auth_db \<Rightarrow> nat \<times> auth_db" where
  "handle_admin_users prim down min_len req now db =
     (if ar_path req = users_path
      then (if ar_method req = method_get then (200, db)
            else if ar_method req = method_post
            then handle_admin_create_user prim down min_len req now db
            else (405, db))
      else let remainder = trim_prefix (ar_path req) users_subpath
           in if remainder = [] then (404, db)
              else if suffix password_suffix remainder
              then (if ar_method req = method_put
                    then handle_admin_reset_password prim down min_len req now db else (405, db))
              else if ar_method req = method_put
              then handle_admin_update_user prim down min_len req now db
              else if ar_method req = method_delete then handle_admin_delete_user down req db
              else (405, db))"

section \<open>A person's own credentials\<close>

definition token_name_max_len :: nat where "token_name_max_len = 100"

text \<open>Creating one for the caller; the secret is in the answer and nowhere else.\<close>

definition create_my_token ::
  "primitives \<Rightarrow> faults \<Rightarrow> string option \<Rightarrow> string \<Rightarrow> session_info \<Rightarrow> (string \<times> bool) option
   \<Rightarrow> int \<Rightarrow> auth_db \<Rightarrow> (nat \<times> (api_token \<times> string) option) \<times> auth_db" where
  "create_my_token prim down random new_id caller body now db =
     (if si_username caller = [] then ((401, None), db)
      else case body of
             None \<Rightarrow> ((400, None), db)
           | Some (name0, can_write) \<Rightarrow>
               let name = trim_space name0
               in if name = [] then ((400, None), db)
                  else if List.length name > token_name_max_len then ((400, None), db)
                  else case issue_credential prim down random new_id (si_username caller) name
                              can_write now db of
                         (None, db') \<Rightarrow> ((400, None), db')
                       | (Some res, db') \<Rightarrow> ((201, Some res), db'))"

definition destroy_my_token :: "faults \<Rightarrow> session_info \<Rightarrow> string \<Rightarrow> auth_db \<Rightarrow> nat \<times> auth_db" where
  "destroy_my_token down caller i db =
     (if si_username caller = [] then (401, db)
      else if i = [] \<or> CHR ''/'' \<in> set i then (404, db)
      else case destroy_credential down (si_username caller) i db of
             Inl Not_found \<Rightarrow> (404, db)
           | Inl e \<Rightarrow> (500, db)
           | Inr db' \<Rightarrow> (204, db'))"

section \<open>SAML\<close>

record saml_info =
  sa_subject :: string
  sa_username :: string
  sa_email :: string
  sa_display_name :: string
  sa_role :: string

fun replace_problem_char :: "char \<Rightarrow> string" where
  "replace_problem_char c =
     (if c = CHR ''@'' then ''_at_''
      else if c = CHR '' '' \<or> c = CHR ''/'' \<or> c = CHR 0x5C then ''_''
      else [c])"

text \<open>The part after the last colon, unless nothing follows it.\<close>
definition after_last_colon :: "string \<Rightarrow> string" where
  "after_last_colon s =
     (let tail = rev (takeWhile (\<lambda>c. c \<noteq> CHR '':'') (rev s)) in if tail = [] then s else tail)"

definition sanitise_username :: "string \<Rightarrow> string" where
  "sanitise_username subject =
     to_lower (take 64 (concat (map replace_problem_char (after_last_colon subject))))"

definition saml_params :: "saml_info \<Rightarrow> user_params" where
  "saml_params info =
     \<lparr>up_username = (if sa_username info = [] then sanitise_username (sa_subject info) else sa_username info),
      up_display_name = sa_display_name info, up_email = sa_email info, up_password_hash = [],
      up_role = (if sa_role info = [] then role_viewer else sa_role info),
      up_auth_provider = provider_saml, up_saml_subject = sa_subject info\<rparr>"

definition provision :: "faults \<Rightarrow> saml_info \<Rightarrow> int \<Rightarrow> auth_db \<Rightarrow> (user \<times> bool) option \<times> auth_db" where
  "provision down info now db =
     (if sa_subject info = [] then (None, db)
      else case attempt down Update_user (upsert_saml_user (saml_params info) now db) of
             Inl e \<Rightarrow> (None, db)
           | Inr ((user, is_new), db') \<Rightarrow>
               (Some (user, is_new),
                case attempt down Record_success (record_login_success (us_username user) now db') of
                  Inl e \<Rightarrow> db' | Inr db'' \<Rightarrow> db''))"

text \<open>\<open>HandleACS\<close> after the assertion has been validated.\<close>

definition handle_acs ::
  "faults \<Rightarrow> session_manager \<Rightarrow> string \<Rightarrow> saml_info \<Rightarrow> int \<Rightarrow> auth_db \<Rightarrow> (nat + session) \<times> auth_db" where
  "handle_acs down m new_id info now db =
     (case provision down info now db of
        (None, db') \<Rightarrow> (Inl 500, db')
      | (Some (user, is_new), db') \<Rightarrow>
          if us_is_locked user then (Inl 403, db')
          else case create_session down m new_id (us_username user) provider_saml (us_role user) now db' of
                 Inl e \<Rightarrow> (Inl 500, db')
               | Inr (s, db'') \<Rightarrow> (Inr s, db''))"

definition handle_slo :: "faults \<Rightarrow> string \<Rightarrow> auth_db \<Rightarrow> nat \<times> auth_db" where
  "handle_slo down subject db =
     (case attempt down Get_subject (get_user_by_saml_subject subject db) of
        Inl e \<Rightarrow> (200, db)
      | Inr user \<Rightarrow>
          if down Delete_sessions then (500, db)
          else (200, snd (delete_saml_sessions_by_username (us_username user) db)))"

section \<open>The service\<close>

text \<open>The requests and background work that reach the tables, each with its time.\<close>

datatype event =
    Login local_authenticator session_manager string "string \<times> string"
  | Logout string
  | Admin int admin_request
  | Create_token "string option" string session_info "(string \<times> bool) option"
  | Destroy_token session_info string
  | Saml_acs session_manager string saml_info
  | Saml_slo string
  | Request bool route_role request
  | Cleanup

fun auth_step :: "primitives \<Rightarrow> faults \<Rightarrow> int \<Rightarrow> event \<Rightarrow> auth_db \<Rightarrow> auth_db" where
  "auth_step prim down now (Login a m new_id body) db =
     fst (handle_login prim down a m new_id body now db)"
| "auth_step prim down now (Logout token) db = invalidate_session down token db"
| "auth_step prim down now (Admin min_len req) db = snd (handle_admin_users prim down min_len req now db)"
| "auth_step prim down now (Create_token random new_id caller body) db =
     snd (create_my_token prim down random new_id caller body now db)"
| "auth_step prim down now (Destroy_token caller i) db = snd (destroy_my_token down caller i db)"
| "auth_step prim down now (Saml_acs m new_id info) db = snd (handle_acs down m new_id info now db)"
| "auth_step prim down now (Saml_slo subject) db = snd (handle_slo down subject db)"
| "auth_step prim down now (Request wired role req) db = snd (guarded prim down wired role req now db)"
| "auth_step prim down now Cleanup db = cleanup_expired down now db"

fun auth_run :: "primitives \<Rightarrow> (faults \<times> int \<times> event) list \<Rightarrow> auth_db \<Rightarrow> auth_db" where
  "auth_run prim [] db = db"
| "auth_run prim ((down, now, ev) # evs) db = auth_run prim evs (auth_step prim down now ev db)"

section \<open>The constraints hold throughout\<close>

text \<open>The equation of the call comes first, for use in forward steps.\<close>

lemmas store_okD = insert_user_ok [rotated] upsert_saml_user_ok [rotated] update_user_ok [rotated]
  update_user_password_ok [rotated] lock_user_ok [rotated] record_login_success_ok [rotated]
  increment_failed_ok [rotated] delete_user_ok [rotated] insert_session_ok [rotated]
  insert_api_token_ok [rotated]

lemmas store_ok_simps = delete_sessions_ok delete_tokens_ok touch_token_ok

lemma attempt_Inr: "attempt down c r = Inr x \<longleftrightarrow> \<not> down c \<and> r = Inr x"
  by (simp add: attempt_def)

lemma handle_failed_attempt_ok: "auth_ok db \<Longrightarrow> auth_ok (fst (handle_failed_attempt down a user now db))"
  by (auto simp: handle_failed_attempt_def attempt_Inr split: sum.split prod.split simp: store_ok_simps dest: store_okD)

lemma authenticate_ok: "auth_ok db \<Longrightarrow> auth_ok (fst (authenticate prim down a u pw now db))"
  by (auto simp: authenticate_def attempt_Inr Let_def handle_failed_attempt_ok
      split: sum.split store_error.split simp: store_ok_simps dest: store_okD)

lemma create_session_ok:
  "\<lbrakk>auth_ok db; create_session down m i u p r now db = Inr (s, db')\<rbrakk> \<Longrightarrow> auth_ok db'"
  by (auto simp: create_session_def attempt_Inr simp: store_ok_simps dest: store_okD)

lemma handle_login_ok: "auth_ok db \<Longrightarrow> auth_ok (fst (handle_login prim down a m i body now db))"
  using authenticate_ok [of db prim down a "fst body" "snd body" now]
  by (auto simp: handle_login_def login_def split: prod.split option.split sum.split
      dest: create_session_ok [rotated])

lemma invalidate_user_sessions_ok: "auth_ok db \<Longrightarrow> auth_ok (invalidate_user_sessions down u db)"
  by (simp add: invalidate_user_sessions_def delete_sessions_by_username_def store_ok_simps)

lemma delete_session_ok: "\<lbrakk>auth_ok db; delete_session i db = Inr db'\<rbrakk> \<Longrightarrow> auth_ok db'"
  using delete_sessions_ok [of db "\<lambda>s. se_id s = i"]
  by (auto simp: delete_session_def split: prod.splits if_splits)

lemma reset_password_ok:
  "auth_ok db \<Longrightarrow> auth_ok (snd (handle_admin_reset_password prim down n req now db))"
  by (auto simp: handle_admin_reset_password_def Let_def attempt_Inr
      split: option.split sum.split store_error.split simp: invalidate_user_sessions_ok dest: store_okD)

lemma create_user_ok:
  "auth_ok db \<Longrightarrow> auth_ok (snd (handle_admin_create_user prim down n req now db))"
  by (auto simp: handle_admin_create_user_def Let_def attempt_Inr
      split: option.split sum.split store_error.split simp: store_ok_simps dest: store_okD)

lemma update_user_handler_ok:
  "auth_ok db \<Longrightarrow> auth_ok (snd (handle_admin_update_user prim down n req now db))"
  by (auto simp: handle_admin_update_user_def Let_def attempt_Inr reset_password_ok
      split: option.split sum.split store_error.split simp: invalidate_user_sessions_ok dest: store_okD)

lemma destroy_all_ok: "auth_ok db \<Longrightarrow> auth_ok (destroy_all_credentials_for down u db)"
  by (simp add: destroy_all_credentials_for_def delete_api_tokens_by_username_def Let_def store_ok_simps)

lemma delete_user_handler_ok: "auth_ok db \<Longrightarrow> auth_ok (snd (handle_admin_delete_user down req db))"
  by (auto simp: handle_admin_delete_user_def Let_def attempt_Inr
      split: option.split sum.split store_error.split simp: destroy_all_ok dest: store_okD)

lemma admin_ok: "auth_ok db \<Longrightarrow> auth_ok (snd (handle_admin_users prim down n req now db))"
  by (simp add: handle_admin_users_def Let_def reset_password_ok create_user_ok update_user_handler_ok
      delete_user_handler_ok)

lemma create_my_token_ok: "auth_ok db \<Longrightarrow> auth_ok (snd (create_my_token prim down rnd i caller body now db))"
  by (auto simp: create_my_token_def issue_credential_def Let_def attempt_Inr
      split: option.split sum.split prod.split simp: store_ok_simps dest: store_okD)

lemma destroy_my_token_ok: "auth_ok db \<Longrightarrow> auth_ok (snd (destroy_my_token down caller i db))"
  by (auto simp: destroy_my_token_def destroy_credential_def delete_api_token_def Let_def attempt_Inr
      split: sum.split store_error.split if_splits simp: store_ok_simps dest: store_okD)

lemma provision_ok: "auth_ok db \<Longrightarrow> auth_ok (snd (provision down info now db))"
  by (auto simp: provision_def attempt_Inr split: sum.split prod.split simp: store_ok_simps dest: store_okD)

lemma handle_acs_ok: "auth_ok db \<Longrightarrow> auth_ok (fst (prod.swap (handle_acs down m i info now db)))"
  using provision_ok [of db down info now]
  by (auto simp: handle_acs_def split: prod.split option.split sum.split dest: create_session_ok [rotated])

lemma handle_slo_ok: "auth_ok db \<Longrightarrow> auth_ok (snd (handle_slo down subj db))"
  by (auto simp: handle_slo_def delete_saml_sessions_by_username_def split: sum.split simp: store_ok_simps dest: store_okD)

lemma guarded_ok: "auth_ok db \<Longrightarrow> auth_ok (snd (guarded prim down wired role req now db))"
  by (auto simp: guarded_def require_auth_def validate_credential_def Let_def
      split: prod.split sum.split option.split simp: store_ok_simps dest: store_okD)

lemma invalidate_session_ok: "auth_ok db \<Longrightarrow> auth_ok (invalidate_session down token db)"
  by (auto simp: invalidate_session_def attempt_Inr split: sum.split dest: delete_session_ok [rotated])

lemma auth_step_ok: "auth_ok db \<Longrightarrow> auth_ok (auth_step prim down now ev db)"
proof (cases ev)
  case (Saml_acs m i info)
  then show "auth_ok db \<Longrightarrow> ?thesis" using handle_acs_ok [of db down m i info now] by simp
qed (simp_all add: handle_login_ok admin_ok create_my_token_ok destroy_my_token_ok handle_slo_ok
    guarded_ok cleanup_expired_def delete_expired_sessions_def store_ok_simps invalidate_session_ok)

lemma auth_run_ok: "auth_ok db \<Longrightarrow> auth_ok (auth_run prim evs db)"
proof (induction evs arbitrary: db)
  case (Cons e evs)
  then show ?case by (cases e) (simp add: auth_step_ok)
qed simp

section \<open>Who gets in\<close>

lemma get_userD: "get_user_by_username u db = Inr r \<Longrightarrow> r \<in> set (db_users db) \<and> us_username r = u"
  by (auto simp: get_user_by_username_def dest: row_of_Some split: option.splits)

lemma get_tokenD: "get_api_token_by_hash h db = Inr t \<Longrightarrow> t \<in> set (db_tokens db) \<and> at_hash t = h"
  by (auto simp: get_api_token_by_hash_def dest: row_of_Some split: option.splits)

lemma get_valid_sessionD:
  "get_valid_session i now db = Inr s \<Longrightarrow> s \<in> set (db_sessions db) \<and> se_id s = i \<and> now < se_expires_at s"
  by (auto simp: get_valid_session_def dest: find_SomeD split: option.splits)

definition screen_access :: "string \<Rightarrow> int \<Rightarrow> auth_db \<Rightarrow> session_info \<Rightarrow> bool" where
  "screen_access token now db info \<longleftrightarrow>
     (\<exists>s\<in>set (db_sessions db). se_id s = token \<and> now < se_expires_at s \<and> info = info_of_session s)"

definition credential_access :: "primitives \<Rightarrow> string \<Rightarrow> auth_db \<Rightarrow> session_info \<Rightarrow> bool" where
  "credential_access prim token db info \<longleftrightarrow>
     (\<exists>t\<in>set (db_tokens db). \<exists>r\<in>set (db_users db).
        at_hash t = sha256_hex prim token \<and> us_username r = at_username t \<and> \<not> us_is_locked r
        \<and> info = info_of_token r t)"

lemma validate_session_access:
  "validate_session down token now db = Some info \<Longrightarrow> screen_access token now db info"
  by (auto simp: validate_session_def attempt_Inr screen_access_def dest!: get_valid_sessionD
      split: if_splits sum.splits)

lemma validate_credential_access:
  "validate_credential prim down token now db = (Some info, db') \<Longrightarrow> credential_access prim token db info"
  unfolding validate_credential_def credential_access_def
  by (auto simp: attempt_Inr dest!: get_userD get_tokenD split: if_splits sum.splits)

lemma require_auth_access:
  assumes "require_auth prim down wired req now db = (Inr info, db')"
  shows "screen_access (extract_token req) now db info
         \<or> wired \<and> credential_access prim (extract_token req) db info"
  using assms unfolding require_auth_def Let_def
  by (auto split: if_splits prod.splits option.splits dest: validate_session_access validate_credential_access)

lemma guarded_require:
  "guarded prim down wired role req now db = (Inr info, db') \<Longrightarrow>
   require_auth prim down wired req now db = (Inr info, db') \<and> role_admits role info
   \<and> credential_may_proceed info req"
  by (auto simp: guarded_def split: prod.splits sum.splits if_splits)

lemma info_simps [simp]:
  "si_username (info_of_session s) = se_username s" "si_role (info_of_session s) = se_role s"
  "\<not> is_credential (info_of_session s)"
  "si_username (info_of_token r t) = us_username r" "si_role (info_of_token r t) = us_role r"
  "si_can_write (info_of_token r t) = at_can_write t" "is_credential (info_of_token r t)"
  by (simp_all add: info_of_session_def info_of_token_def is_credential_def)

text \<open>The account whose row is locked and that has no session left.\<close>

definition shut_out :: "string \<Rightarrow> auth_db \<Rightarrow> bool" where
  "shut_out u db \<longleftrightarrow> (\<exists>r. row_of us_username u (db_users db) = Some r \<and> us_is_locked r)
     \<and> (\<forall>s\<in>set (db_sessions db). se_username s \<noteq> u)"

text \<open>The requests that end it: an administrator unlocks the account, or deletes it.\<close>

fun reopens :: "string \<Rightarrow> event \<Rightarrow> bool" where
  "reopens u (Admin n req) =
     (trim_prefix (ar_path req) users_subpath = u
      \<and> (ar_method req = method_delete
         \<or> (\<exists>b. ar_update req = Some b \<and> uu_is_locked b = Some False)))"
| "reopens u _ = False"

lemma shut_out_no_access:
  assumes ok: "auth_ok db" and out: "shut_out u db"
    and g: "guarded prim down wired role req now db = (Inr info, db')"
  shows "si_username info \<noteq> u"
proof -
  have "screen_access (extract_token req) now db info
        \<or> wired \<and> credential_access prim (extract_token req) db info"
    using guarded_require [OF g] require_auth_access by blast
  moreover obtain r0 where r0: "row_of us_username u (db_users db) = Some r0" "us_is_locked r0"
    using out by (auto simp: shut_out_def)
  have "us_username r \<noteq> u" if "\<not> us_is_locked r" "r \<in> set (db_users db)" for r
  proof
    assume "us_username r = u"
    then have "row_of us_username u (db_users db) = Some r"
      using ok that(2) users_ok_key by (simp add: auth_ok_def)
    then show False using r0 that(1) by simp
  qed
  moreover have "\<forall>s\<in>set (db_sessions db). se_username s \<noteq> u" using out by (simp add: shut_out_def)
  ultimately show ?thesis
    unfolding screen_access_def credential_access_def by (metis info_simps(1) info_simps(4))
qed

subsection \<open>What one operation does to an account that is shut out\<close>

definition row_fate :: "string \<Rightarrow> auth_db \<Rightarrow> auth_db \<Rightarrow> bool" where
  "row_fate u db db' \<longleftrightarrow>
     (\<forall>r. row_of us_username u (db_users db) = Some r \<longrightarrow> us_is_locked r \<longrightarrow>
        (\<exists>r'. row_of us_username u (db_users db') = Some r' \<and> us_is_locked r'))"

definition no_new_session :: "string \<Rightarrow> auth_db \<Rightarrow> auth_db \<Rightarrow> bool" where
  "no_new_session u db db' \<longleftrightarrow>
     (\<forall>s\<in>set (db_sessions db'). se_username s = u \<longrightarrow> s \<in> set (db_sessions db))"

definition keeps_out :: "string \<Rightarrow> auth_db \<Rightarrow> auth_db \<Rightarrow> bool" where
  "keeps_out u db db' \<longleftrightarrow> row_fate u db db' \<and> no_new_session u db db'"

lemma keeps_out_refl [simp]: "keeps_out u db db"
  by (simp add: keeps_out_def row_fate_def no_new_session_def)

lemma keeps_out_trans: "keeps_out u db1 db2 \<Longrightarrow> keeps_out u db2 db3 \<Longrightarrow> keeps_out u db1 db3"
  unfolding keeps_out_def row_fate_def no_new_session_def by blast

lemma keeps_out_shut: "shut_out u db \<Longrightarrow> keeps_out u db db' \<Longrightarrow> shut_out u db'"
  unfolding shut_out_def keeps_out_def row_fate_def no_new_session_def by blast

lemma keeps_out_update_row:
  assumes up: "update_user_row v f db = Some (r, db')"
    and f: "\<And>r. us_username (f r) = us_username r"
    and lock: "\<And>r. v = u \<Longrightarrow> us_is_locked r \<Longrightarrow> us_is_locked (f r)"
  shows "keeps_out u db db'"
proof -
  have "db' = db\<lparr>db_users := update_where (\<lambda>r. us_username r = v) f (db_users db)\<rparr>"
    using update_user_row_SomeD [OF up] by simp
  then show ?thesis
    using f lock by (auto simp: keeps_out_def row_fate_def no_new_session_def row_of_update_where
        dest: row_of_Some)
qed

lemma keeps_out_checked:
  assumes "checked_update v f db = Inr db'"
    and "\<And>r. us_username (f r) = us_username r" and "\<And>r. us_is_locked r \<Longrightarrow> us_is_locked (f r)"
  shows "keeps_out u db db'"
  using assms keeps_out_update_row by (auto simp: checked_update_def split: option.splits)

lemma keeps_out_insert_user: "insert_user p now db = Inr (r, db') \<Longrightarrow> keeps_out u db db'"
  by (auto simp: insert_user_def Let_def keeps_out_def row_fate_def no_new_session_def row_of_append
      split: if_splits)

lemma keeps_out_lock_user: "lock_user v now db = Inr db' \<Longrightarrow> keeps_out u db db'"
  unfolding lock_user_def by (rule keeps_out_checked, assumption) simp_all

lemma keeps_out_password: "update_user_password v h now db = Inr db' \<Longrightarrow> keeps_out u db db'"
  unfolding update_user_password_def by (rule keeps_out_checked, assumption) simp_all

lemma keeps_out_success: "record_login_success v now db = Inr db' \<Longrightarrow> keeps_out u db db'"
  unfolding record_login_success_def by (rule keeps_out_checked, assumption) simp_all

lemma keeps_out_increment:
  "increment_failed_login_attempts v now db = Inr (n, db') \<Longrightarrow> keeps_out u db db'"
  by (auto simp: increment_failed_login_attempts_def split: option.splits if_splits
      elim!: keeps_out_update_row)

lemma keeps_out_update_user:
  assumes "update_user v b now db = Inr (r, db')" and "v = u \<longrightarrow> uu_is_locked b \<noteq> Some False"
  shows "keeps_out u db db'"
proof -
  have up: "update_user_row v (apply_update b now) db = Some (r, db')"
    using assms(1) by (auto simp: update_user_def split: option.splits if_splits)
  show ?thesis
    by (rule keeps_out_update_row [OF up])
       (use assms(2) in \<open>auto simp: apply_update_def Let_def split: option.splits\<close>)
qed

lemma keeps_out_saml_update:
  assumes "update_saml_user_by_username v p now db = Inr (r, db')"
  shows "keeps_out u db db'"
proof -
  have up: "update_user_row v (saml_update p now) db = Some (r, db')"
    using assms by (auto simp: update_saml_user_by_username_def split: option.splits if_splits)
  show ?thesis by (rule keeps_out_update_row [OF up]) (simp_all add: saml_update_def)
qed

lemma keeps_out_upsert: "upsert_saml_user p now db = Inr (r, db') \<Longrightarrow> keeps_out u db db'"
  by (auto simp: upsert_saml_user_def split: sum.splits prod.splits if_splits
      dest: keeps_out_insert_user keeps_out_saml_update)

lemma keeps_out_delete_user: "delete_user v db = Inr db' \<Longrightarrow> v \<noteq> u \<Longrightarrow> keeps_out u db db'"
proof -
  assume a: "delete_user v db = Inr db'" "v \<noteq> u"
  have keep: "row_of us_username u (delete_where (\<lambda>r. us_username r = v) tbl) = row_of us_username u tbl" for tbl
    using a(2) by (induction tbl) (auto simp: row_of_def delete_where_def)
  then show ?thesis
    using a by (auto simp: delete_user_def keeps_out_def row_fate_def no_new_session_def keep split: if_splits)
qed

lemma keeps_out_delete_sessions: "keeps_out u db (snd (delete_sessions P db))"
  by (auto simp: delete_sessions_def keeps_out_def row_fate_def no_new_session_def)

lemma keeps_out_tokens [simp]: "keeps_out u db (db\<lparr>db_tokens := ts\<rparr>)"
  by (simp add: keeps_out_def row_fate_def no_new_session_def)

lemma keeps_out_touch [simp]: "keeps_out u db (touch_api_token_last_used i now db)"
  by (simp add: touch_api_token_last_used_def)

lemma keeps_out_insert_token: "insert_api_token i p now db = Inr (t, db') \<Longrightarrow> keeps_out u db db'"
  by (auto simp: insert_api_token_def Let_def split: if_splits)

lemma keeps_out_session:
  "create_session down m i v p role now db = Inr (s, db') \<Longrightarrow> v \<noteq> u \<Longrightarrow> keeps_out u db db'"
  by (auto simp: create_session_def attempt_Inr insert_session_def Let_def keeps_out_def row_fate_def
      no_new_session_def split: if_splits)

lemma keeps_out_invalidate: "keeps_out u db (invalidate_user_sessions down v db)"
  by (simp add: invalidate_user_sessions_def delete_sessions_by_username_def keeps_out_delete_sessions)

lemma keeps_out_destroy_all: "keeps_out u db (destroy_all_credentials_for down v db)"
  by (simp add: destroy_all_credentials_for_def delete_api_tokens_by_username_def Let_def)

lemmas keeps_outD = keeps_out_insert_user keeps_out_lock_user keeps_out_password keeps_out_success
  keeps_out_increment keeps_out_upsert keeps_out_session

subsection \<open>No request lets a locked account back in\<close>

lemma failed_attempt_keeps_out: "keeps_out u db (fst (handle_failed_attempt down a user now db))"
  by (auto simp: handle_failed_attempt_def attempt_Inr split: sum.split prod.split
      dest!: keeps_outD [where u = u] elim: keeps_out_trans)

lemma authenticate_keeps_out: "keeps_out u db (fst (authenticate prim down a v pw now db))"
  by (auto simp: authenticate_def attempt_Inr Let_def failed_attempt_keeps_out
      split: sum.split store_error.split dest: keeps_out_success)

lemma authenticate_user:
  assumes "authenticate prim down a v pw now db = (db', res)" and "lr_user res = Some user"
  obtains r where "row_of us_username v (db_users db) = Some r" "\<not> us_is_locked r"
    "us_auth_provider r = provider_local" "bcrypt_check prim (us_password_hash r) pw"
    "us_username user = v"
proof -
  have no: "lr_user (snd (handle_failed_attempt down a r now db)) = None" for r
    by (auto simp: handle_failed_attempt_def login_refused_def split: sum.split prod.split)
  obtain r where r: "get_user_by_username v db = Inr r" "\<not> us_is_locked r"
      "us_auth_provider r = provider_local" "bcrypt_check prim (us_password_hash r) pw"
    using assms no
    by (auto simp: authenticate_def attempt_Inr login_refused_def split: sum.splits store_error.splits if_splits)
       (metis option.distinct(1) snd_conv)+
  have "us_username user = v"
    using assms no r
    by (auto simp: authenticate_def attempt_Inr login_refused_def attempt_def Let_def dest: get_userD
        split: sum.splits store_error.splits if_splits)
  then show ?thesis
    using that r by (auto simp: get_user_by_username_def split: option.splits)
qed

lemma handle_login_keeps_out:
  assumes "shut_out u db"
  shows "keeps_out u db (fst (handle_login prim down a m i body now db))"
proof -
  obtain db1 res where au: "authenticate prim down a (fst body) (snd body) now db = (db1, res)"
    by (cases "authenticate prim down a (fst body) (snd body) now db")
  have k1: "keeps_out u db db1" using authenticate_keeps_out [of u db prim down a "fst body" "snd body" now] au by simp
  have "keeps_out u db db2"
    if "lr_user res = Some user" "create_session down m i (us_username user) (us_auth_provider user) (us_role user) now db1 = Inr (s, db2)"
    for user s db2
  proof -
    have "us_username user \<noteq> u"
      using authenticate_user [OF au that(1)] assms unfolding shut_out_def by (metis option.inject)
    then show ?thesis using k1 that(2) keeps_out_session keeps_out_trans by blast
  qed
  then show ?thesis
    using k1 by (auto simp: handle_login_def login_def au split: option.split sum.split)
qed

lemma upsert_returns_row:
  assumes "upsert_saml_user p now db = Inr ((user, b), db')"
  shows "row_of us_username (us_username user) (db_users db') = Some user"
proof -
  have upd: "row_of us_username (us_username r) (db_users db1) = Some r"
    if up: "update_saml_user_by_username v p now db = Inr (r, db1)" for v r db1
  proof -
    obtain r0 where r0: "row_of us_username v (db_users db) = Some r0" "r = saml_update p now r0"
        "db1 = db\<lparr>db_users := update_where (\<lambda>r. us_username r = v) (saml_update p now) (db_users db)\<rparr>"
      using up unfolding update_saml_user_by_username_def update_user_row_def
      by (cases "row_of us_username v (db_users db)") (simp_all split: if_splits)
    have n: "us_username r0 = v" using row_of_Some [OF r0(1)] by simp
    have k: "us_username (saml_update p now q) = us_username q" for q by (simp add: saml_update_def)
    show ?thesis by (simp add: r0 n k row_of_update_where)
  qed
  have ins: "row_of us_username (us_username r) (db_users db1) = Some r"
    if ins: "insert_user p now db = Inr (r, db1)" for r db1
  proof -
    have n: "row_of us_username (up_username p) (db_users db) = None"
      and r: "us_username r = up_username p" "db1 = db\<lparr>db_users := db_users db @ [r]\<rparr>"
      using ins unfolding insert_user_def Let_def row_of_None
      by (auto simp: list_ex_iff split: if_splits)
    show ?thesis by (simp add: r n row_of_append)
  qed
  show ?thesis
    using assms by (auto simp: upsert_saml_user_def split: sum.splits prod.splits if_splits intro: upd ins)
qed

lemma provision_keeps_out:
  assumes "provision down info now db = (res, db')"
  shows "keeps_out u db db'"
  using assms
  by (auto simp: provision_def attempt_Inr split: sum.splits prod.splits if_splits
      dest!: keeps_outD [where u = u] elim: keeps_out_trans)

lemma provision_user_locked:
  assumes out: "shut_out u db" and p: "provision down info now db = (Some (user, b), db')"
    and u: "us_username user = u"
  shows "us_is_locked user"
proof -
  obtain db1 where up: "upsert_saml_user (saml_params info) now db = Inr ((user, b), db1)"
    using p by (auto simp: provision_def attempt_Inr split: sum.splits if_splits)
  have "shut_out u db1" using keeps_out_shut [OF out] keeps_out_upsert [OF up] by blast
  then show ?thesis using upsert_returns_row [OF up] u by (auto simp: shut_out_def)
qed

lemma handle_acs_keeps_out:
  assumes "shut_out u db"
  shows "keeps_out u db (snd (handle_acs down m i info now db))"
proof -
  obtain res db1 where p: "provision down info now db = (res, db1)" by (cases "provision down info now db")
  have k1: "keeps_out u db db1" by (rule provision_keeps_out [OF p])
  have "keeps_out u db db2"
    if "res = Some (user, b)" "\<not> us_is_locked user"
      "create_session down m i (us_username user) provider_saml (us_role user) now db1 = Inr (s, db2)"
    for user b s db2
  proof -
    have "us_username user \<noteq> u" using provision_user_locked [OF assms] p that(1,2) by blast
    then show ?thesis using k1 that(3) keeps_out_session keeps_out_trans by blast
  qed
  then show ?thesis using k1 by (auto simp: handle_acs_def p split: option.split sum.split prod.split)
qed

lemma reset_keeps_out: "keeps_out u db (snd (handle_admin_reset_password prim down n req now db))"
proof -
  have "keeps_out u db (invalidate_user_sessions down v db1)" if "update_user_password v h now db = Inr db1" for v h db1
    using keeps_out_password [OF that] keeps_out_trans keeps_out_invalidate by blast
  then show ?thesis
    by (auto simp: handle_admin_reset_password_def Let_def attempt_Inr
        split: option.split sum.split store_error.split)
qed

lemma admin_keeps_out:
  assumes "\<not> reopens u (Admin n req)"
  shows "keeps_out u db (snd (handle_admin_users prim down n req now db))"
proof -
  let ?v = "trim_prefix (ar_path req) users_subpath"
  have c: "keeps_out u db (snd (handle_admin_create_user prim down n req now db))"
    by (auto simp: handle_admin_create_user_def Let_def attempt_Inr
        split: option.split sum.split store_error.split intro: keeps_out_insert_user)
  have d: "keeps_out u db (snd (handle_admin_delete_user down req db))" if "ar_method req = method_delete"
  proof -
    have "?v \<noteq> u" using assms that by simp
    then have "keeps_out u db (destroy_all_credentials_for down ?v db1)" if "delete_user ?v db = Inr db1" for db1
      using keeps_out_delete_user [OF that] keeps_out_trans keeps_out_destroy_all by blast
    then show ?thesis
      by (auto simp: handle_admin_delete_user_def Let_def attempt_Inr
          split: option.split sum.split store_error.split)
  qed
  have w: "keeps_out u db (snd (handle_admin_update_user prim down n req now db))"
  proof -
    have k: "keeps_out u db db1" if "ar_update req = Some b" "update_user ?v b now db = Inr (r, db1)" for b r db1
      using assms that by (intro keeps_out_update_user [OF that(2)]) auto
    then have "keeps_out u db (invalidate_user_sessions down ?v db1)"
      if "ar_update req = Some b" "update_user ?v b now db = Inr (r, db1)" for b r db1
      using that keeps_out_trans keeps_out_invalidate by blast
    with k show ?thesis
      by (auto simp: handle_admin_update_user_def Let_def attempt_Inr reset_keeps_out
          split: option.split sum.split store_error.split)
  qed
  show ?thesis
    unfolding handle_admin_users_def Let_def by (simp add: c d w reset_keeps_out)
qed

lemma guarded_keeps_out: "keeps_out u db (snd (guarded prim down wired role req now db))"
  by (auto simp: guarded_def require_auth_def validate_credential_def Let_def
      split: prod.split sum.split option.split)

lemma auth_step_keeps_out:
  assumes "shut_out u db" and "\<not> reopens u ev"
  shows "keeps_out u db (auth_step prim down now ev db)"
proof (cases ev)
  case (Admin n req)
  then show ?thesis using admin_keeps_out assms(2) by simp
next
  case (Logout token)
  then show ?thesis
    by (auto simp: invalidate_session_def attempt_Inr delete_session_def
        split: sum.split prod.splits if_splits) (metis keeps_out_delete_sessions snd_conv)
qed (auto simp: handle_login_keeps_out [OF assms(1)] handle_acs_keeps_out [OF assms(1)] guarded_keeps_out
    cleanup_expired_def delete_expired_sessions_def keeps_out_delete_sessions handle_slo_def
    delete_saml_sessions_by_username_def create_my_token_def issue_credential_def destroy_my_token_def
    destroy_credential_def delete_api_token_def attempt_Inr Let_def
    split: sum.split store_error.split option.split prod.split if_splits
    intro: keeps_out_insert_token)

lemma shut_out_run:
  assumes "shut_out u db" and "\<forall>(down, now, ev)\<in>set evs. \<not> reopens u ev"
  shows "shut_out u (auth_run prim evs db)"
  using assms
proof (induction evs arbitrary: db)
  case (Cons e evs)
  obtain down now ev where e: "e = (down, now, ev)" by (cases e)
  have "shut_out u (auth_step prim down now ev db)"
    using Cons.prems auth_step_keeps_out keeps_out_shut by (auto simp: e)
  then show ?case using Cons by (simp add: e)
qed simp

end
