(* ===== verification/Account_Origin.thy ===== *)
theory Account_Origin
  imports Auth_Handlers
begin

text \<open>
  Where accounts come from. A local account is made by an administrator and has a password; a SAML
  account is made by the first login through the identity provider and is found by its subject. Nothing in the
  tables keeps the two apart: the guards of \<open>UpsertSAMLUser\<close>, of \<open>Authenticate\<close> and of the provisioner do.
\<close>

abbreviation account :: "string \<Rightarrow> auth_db \<Rightarrow> user option" where
  "account u db \<equiv> row_of us_username u (db_users db)"

text \<open>Names are a key, no local account has a subject, and every session was opened the way its account allows.\<close>

definition origins_ok :: "auth_db \<Rightarrow> bool" where
  "origins_ok db \<longleftrightarrow>
     distinct (map us_username (db_users db))
     \<and> (\<forall>u r. account u db = Some r \<longrightarrow> provider_ok (us_auth_provider r)
        \<and> (us_auth_provider r = provider_local \<longrightarrow> us_saml_subject r = []))
     \<and> (\<forall>s\<in>set (db_sessions db). \<exists>r. account (se_username s) db = Some r \<and> us_auth_provider r = se_auth_provider s)"

text \<open>What nobody but an administrator changes of a local account.\<close>

definition same_identity :: "user \<Rightarrow> user \<Rightarrow> bool" where
  "same_identity r r' \<longleftrightarrow>
     us_auth_provider r' = us_auth_provider r \<and> us_password_hash r' = us_password_hash r
     \<and> us_role r' = us_role r \<and> us_saml_subject r' = us_saml_subject r"

definition keeps_local :: "string \<Rightarrow> auth_db \<Rightarrow> auth_db \<Rightarrow> bool" where
  "keeps_local u db db' \<longleftrightarrow>
     (\<forall>r. account u db = Some r \<longrightarrow> us_auth_provider r = provider_local \<longrightarrow>
        (\<exists>r'. account u db' = Some r' \<and> same_identity r r'))"

definition sound :: "string \<Rightarrow> auth_db \<Rightarrow> auth_db \<Rightarrow> bool" where
  "sound u db db' \<longleftrightarrow> (origins_ok db \<longrightarrow> origins_ok db' \<and> keeps_local u db db')"

lemma same_identity_refl [simp]: "same_identity r r"
  by (simp add: same_identity_def)

lemma keeps_local_trans: "keeps_local u a b \<Longrightarrow> keeps_local u b c \<Longrightarrow> keeps_local u a c"
  unfolding keeps_local_def same_identity_def by (metis (no_types, lifting))

lemma sound_refl [simp]: "sound u db db"
  by (simp add: sound_def keeps_local_def)

lemma sound_trans: "sound u a b \<Longrightarrow> sound u b c \<Longrightarrow> sound u a c"
  unfolding sound_def using keeps_local_trans by blast

lemma providers_differ [simp]: "provider_saml \<noteq> provider_local" "provider_local \<noteq> provider_saml"
  by (simp_all add: provider_saml_def provider_local_def)

lemma provider_ok_iff: "provider_ok p \<longleftrightarrow> p = provider_local \<or> p = provider_saml"
  by (auto simp: provider_ok_def)

section \<open>The operations of the store\<close>

lemma account_updated:
  assumes "update_user_row v f db = Some (r1, db')" and "\<And>r. us_username (f r) = us_username r"
  shows "account j db' = map_option (\<lambda>r. if us_username r = v then f r else r) (account j db)"
    and "db_sessions db' = db_sessions db"
    and "map us_username (db_users db') = map us_username (db_users db)"
  using update_user_row_SomeD [OF assms(1)] assms(2) by (simp_all add: row_of_update_where map_update_where)

text \<open>A row keeps its provider, and its subject unless it is a SAML account.\<close>

lemma sound_update_row:
  assumes up: "update_user_row v f db = Some (r1, db')"
    and f: "\<And>r. us_username (f r) = us_username r" "\<And>r. us_auth_provider (f r) = us_auth_provider r"
    and sub: "\<And>r. account v db = Some r \<Longrightarrow> us_auth_provider r = provider_local \<Longrightarrow> us_saml_subject (f r) = us_saml_subject r"
    and own: "\<And>r. v = u \<Longrightarrow> account u db = Some r \<Longrightarrow> us_auth_provider r = provider_local \<Longrightarrow> same_identity r (f r)"
  shows "sound u db db'"
proof -
  note acc = account_updated [OF up f(1)]
  have name: "us_username r = j" if "account j db = Some r" for j r using row_of_Some [OF that] by simp
  show ?thesis
    unfolding sound_def origins_ok_def keeps_local_def acc
  proof (intro impI conjI allI ballI)
    assume o: "distinct (map us_username (db_users db)) \<and>
        (\<forall>u r. account u db = Some r \<longrightarrow> provider_ok (us_auth_provider r) \<and>
          (us_auth_provider r = provider_local \<longrightarrow> us_saml_subject r = [])) \<and>
        (\<forall>s\<in>set (db_sessions db). \<exists>r. account (se_username s) db = Some r \<and> us_auth_provider r = se_auth_provider s)"
    then show "distinct (map us_username (db_users db))" by simp
    show "provider_ok (us_auth_provider q)"
      if "map_option (\<lambda>r. if us_username r = v then f r else r) (account j db) = Some q" for j q
      using that o f(2) by auto
    show "us_saml_subject q = []"
      if q: "map_option (\<lambda>r. if us_username r = v then f r else r) (account j db) = Some q" "us_auth_provider q = provider_local"
      for j q
    proof -
      obtain r where r: "account j db = Some r" "q = (if us_username r = v then f r else r)" using q(1) by auto
      then show ?thesis using o sub [of r] name [OF r(1)] q(2) f(2) by (auto split: if_splits)
    qed
    show "\<exists>r. map_option (\<lambda>r. if us_username r = v then f r else r) (account (se_username s) db) = Some r
        \<and> us_auth_provider r = se_auth_provider s" if "s \<in> set (db_sessions db)" for s
      using o that f(2) by fastforce
    show "\<exists>r'. map_option (\<lambda>r. if us_username r = v then f r else r) (account u db) = Some r' \<and> same_identity q r'"
      if "account u db = Some q" "us_auth_provider q = provider_local" for q
      using own [of q] that name [OF that(1)] by auto
  qed
qed

lemma sound_checked:
  assumes "checked_update v f db = Inr db'"
    and "\<And>r. us_username (f r) = us_username r" and "\<And>r. us_auth_provider (f r) = us_auth_provider r"
    and "\<And>r. us_saml_subject (f r) = us_saml_subject r" and "\<And>r. v = u \<Longrightarrow> same_identity r (f r)"
  shows "sound u db db'"
proof -
  obtain r where "update_user_row v f db = Some (r, db')"
    using assms(1) by (auto simp: checked_update_def split: option.splits)
  then show ?thesis by (rule sound_update_row) (use assms in simp_all)
qed

lemma sound_lock_user: "lock_user v now db = Inr db' \<Longrightarrow> sound u db db'"
  unfolding lock_user_def by (rule sound_checked, assumption) (simp_all add: same_identity_def)

lemma sound_success: "record_login_success v now db = Inr db' \<Longrightarrow> sound u db db'"
  unfolding record_login_success_def by (rule sound_checked, assumption) (simp_all add: same_identity_def)

lemma sound_password: "update_user_password v h now db = Inr db' \<Longrightarrow> v \<noteq> u \<Longrightarrow> sound u db db'"
  unfolding update_user_password_def by (rule sound_checked, assumption) simp_all

lemma sound_increment: "increment_failed_login_attempts v now db = Inr (n, db') \<Longrightarrow> sound u db db'"
  unfolding increment_failed_login_attempts_def
  by (auto split: option.splits if_splits elim!: sound_update_row simp: same_identity_def)

lemma sound_update_user: "update_user v b now db = Inr (r, db') \<Longrightarrow> v \<noteq> u \<Longrightarrow> sound u db db'"
  unfolding update_user_def
  by (auto split: option.splits if_splits elim!: sound_update_row simp: apply_update_def Let_def)

lemma account_append:
  "account j (db\<lparr>db_users := db_users db @ [r]\<rparr>) =
     (case account j db of Some x \<Rightarrow> Some x | None \<Rightarrow> if us_username r = j then Some r else None)"
  by (simp add: row_of_append)

lemma sound_new_user:
  assumes "provider_ok (us_auth_provider r)" "us_auth_provider r = provider_local \<Longrightarrow> us_saml_subject r = []"
    and new: "us_username r \<notin> us_username ` set (db_users db)"
  shows "sound u db (db\<lparr>db_users := db_users db @ [r]\<rparr>)"
proof -
  have kept: "account j db = Some q \<Longrightarrow> account j (db\<lparr>db_users := db_users db @ [r]\<rparr>) = Some q" for j q
    unfolding account_append by simp
  have only: "account j (db\<lparr>db_users := db_users db @ [r]\<rparr>) = Some q \<Longrightarrow> q = r \<or> account j db = Some q" for j q
    unfolding account_append by (auto split: option.splits if_splits)
  show ?thesis
    unfolding sound_def origins_ok_def keeps_local_def
    using assms(1,2) new kept only by (auto simp: distinct_append) (metis same_identity_refl)+
qed

lemma sound_insert_user:
  assumes "insert_user p now db = Inr (r, db')" "up_auth_provider p = provider_local \<Longrightarrow> up_saml_subject p = []"
  shows "sound u db db'"
proof -
  have "db' = db\<lparr>db_users := db_users db @ [r]\<rparr>" "us_auth_provider r = up_auth_provider p"
    "us_saml_subject r = up_saml_subject p" "provider_ok (up_auth_provider p)"
    "us_username r \<notin> us_username ` set (db_users db)"
    using assms(1) by (auto simp: insert_user_def Let_def list_ex_iff split: if_splits)
  then show ?thesis using sound_new_user [of r db u] assms(2) by simp
qed

text \<open>A SAML login updates SAML accounts only.\<close>

lemma sound_saml_update:
  assumes "update_saml_user_by_username v p now db = Inr (r, db')"
    and "\<And>r. account v db = Some r \<Longrightarrow> us_auth_provider r \<noteq> provider_local"
  shows "sound u db db'"
proof -
  have up: "update_user_row v (saml_update p now) db = Some (r, db')"
    using assms by (auto simp: update_saml_user_by_username_def split: option.splits if_splits)
  show ?thesis
    by (rule sound_update_row [OF up]) (use assms(2) in \<open>auto simp: saml_update_def\<close>)
qed

lemma by_subject_is_saml:
  assumes "origins_ok db" "get_user_by_saml_subject s db = Inr r"
  shows "account (us_username r) db = Some r" "us_auth_provider r = provider_saml"
proof -
  have r: "r \<in> set (db_users db)" "us_saml_subject r \<noteq> []"
    using assms(2) by (auto simp: get_user_by_saml_subject_def dest: find_SomeD split: option.splits)
  show a: "account (us_username r) db = Some r" using assms(1) r(1) by (simp add: row_of_iff origins_ok_def)
  show "us_auth_provider r = provider_saml"
    using assms(1) a r(2) by (auto simp: origins_ok_def provider_ok_iff)
qed

lemma upsert_cases:
  assumes "upsert_saml_user p now db = Inr ((user, b), db')" "origins_ok db"
  shows "(\<exists>v r. account v db = Some r \<and> us_auth_provider r = provider_saml
            \<and> update_saml_user_by_username v p now db = Inr (user, db'))
         \<or> insert_user p now db = Inr (user, db')"
proof (cases "get_user_by_saml_subject (up_saml_subject p) db")
  case (Inr r)
  then have "update_saml_user_by_username (us_username r) p now db = Inr (user, db')"
    using assms(1) by (auto simp: upsert_saml_user_def split: sum.splits)
  then show ?thesis using by_subject_is_saml [OF assms(2) Inr] by blast
next
  case (Inl e)
  show ?thesis
  proof (cases "account (up_username p) db")
    case None
    then show ?thesis
      using assms(1) Inl by (auto simp: upsert_saml_user_def get_user_by_username_def split: sum.splits)
  next
    case (Some r)
    then have "us_auth_provider r = provider_saml" "update_saml_user_by_username (us_username r) p now db = Inr (user, db')"
      using assms(1) Inl
      by (auto simp: upsert_saml_user_def get_user_by_username_def split: sum.splits if_splits)
    moreover have "us_username r = up_username p" using row_of_Some [OF Some] by simp
    ultimately show ?thesis using Some by auto
  qed
qed

lemma sound_upsert:
  assumes "upsert_saml_user p now db = Inr ((user, b), db')" "up_auth_provider p = provider_saml"
  shows "sound u db db'"
proof (cases "origins_ok db")
  case True
  from upsert_cases [OF assms(1) True] show ?thesis
  proof (elim disjE exE conjE)
    fix v r
    assume "account v db = Some r" "us_auth_provider r = provider_saml"
      "update_saml_user_by_username v p now db = Inr (user, db')"
    then show ?thesis using sound_saml_update [of v p now db user db' u] by simp
  next
    assume "insert_user p now db = Inr (user, db')"
    then show ?thesis by (rule sound_insert_user) (simp add: assms(2))
  qed
qed (simp add: sound_def)

lemma upsert_gives_saml:
  assumes "upsert_saml_user p now db = Inr ((user, b), db')" "up_auth_provider p = provider_saml" "origins_ok db"
  shows "us_auth_provider user = provider_saml"
  using upsert_cases [OF assms(1,3)] assms(2)
  by (auto simp: update_saml_user_by_username_def update_user_row_def saml_update_def insert_user_def Let_def split: if_splits)

lemma sound_delete_user:
  assumes "delete_user v db = Inr db'" "v \<noteq> u"
  shows "sound u db db'"
proof -
  have keep: "account j db' = (if j = v then None else account j db)" for j
  proof -
    have "row_of us_username j (delete_where (\<lambda>r. us_username r = v) tbl)
        = (if j = v then None else row_of us_username j tbl)" for tbl
      by (induction tbl) (auto simp: row_of_def delete_where_def)
    then show ?thesis using assms(1) by (auto simp: delete_user_def split: if_splits)
  qed
  have "db_sessions db' = delete_where (\<lambda>s. se_username s = v) (db_sessions db)"
    "distinct (map us_username (db_users db)) \<Longrightarrow> distinct (map us_username (db_users db'))"
    using assms(1) by (auto simp: delete_user_def distinct_delete_where split: if_splits)
  then show ?thesis using assms(2) by (auto simp: sound_def origins_ok_def keeps_local_def keep)
qed

text \<open>Changes to sessions and credentials.\<close>

lemma sound_fewer_sessions:
  assumes "db_users db' = db_users db" "set (db_sessions db') \<subseteq> set (db_sessions db)"
  shows "sound u db db'"
  using assms by (auto simp: sound_def origins_ok_def keeps_local_def)

lemma sound_delete_sessions: "sound u db (snd (delete_sessions P db))"
  by (rule sound_fewer_sessions) (auto simp: delete_sessions_def)

lemma sound_tokens [simp]: "sound u db (db\<lparr>db_tokens := ts\<rparr>)"
  by (rule sound_fewer_sessions) simp_all

lemma sound_touch [simp]: "sound u db (touch_api_token_last_used i now db)"
  by (simp add: touch_api_token_last_used_def)

lemma sound_insert_token: "insert_api_token i p now db = Inr (t, db') \<Longrightarrow> sound u db db'"
  by (auto simp: insert_api_token_def Let_def split: if_splits)

lemma sound_session:
  assumes "create_session down m i v p role now db = Inr (s, db')"
    and "account v db = Some r" "us_auth_provider r = p"
  shows "sound u db db'"
proof -
  have "db_users db' = db_users db" "db_sessions db' = db_sessions db @ [s]" "se_username s = v" "se_auth_provider s = p"
    using assms(1) by (auto simp: create_session_def attempt_Inr insert_session_def Let_def split: if_splits)
  then show ?thesis using assms(2,3) by (auto simp: sound_def origins_ok_def keeps_local_def)
qed

lemma sound_invalidate: "sound u db (invalidate_user_sessions down v db)"
  by (simp add: invalidate_user_sessions_def delete_sessions_by_username_def sound_delete_sessions)

lemma sound_destroy_all: "sound u db (destroy_all_credentials_for down v db)"
  by (simp add: destroy_all_credentials_for_def delete_api_tokens_by_username_def Let_def)

section \<open>The requests\<close>

lemma sound_failed_attempt: "sound u db (fst (handle_failed_attempt down a user now db))"
  by (auto simp: handle_failed_attempt_def attempt_Inr split: sum.split prod.split
      dest!: sound_increment [where u = u] sound_lock_user [where u = u] elim: sound_trans)

lemma sound_authenticate: "sound u db (fst (authenticate prim down a v pw now db))"
  by (auto simp: authenticate_def attempt_Inr Let_def sound_failed_attempt
      split: sum.split store_error.split dest: sound_success)

lemma success_keeps_account:
  assumes "record_login_success v now db = Inr db'" "account j db = Some r"
  shows "\<exists>r'. account j db' = Some r' \<and> us_auth_provider r' = us_auth_provider r"
proof -
  obtain q where "update_user_row v (\<lambda>r. r\<lparr>us_failed := 0, us_last_login := Some now, us_updated_at := now\<rparr>) db = Some (q, db')"
    using assms(1) by (auto simp: record_login_success_def checked_update_def split: option.splits)
  from account_updated(1) [OF this, of j] show ?thesis using assms(2) by simp
qed

lemma authenticate_account:
  assumes "authenticate prim down a v pw now db = (db', res)" "lr_user res = Some user"
  shows "\<exists>r. account (us_username user) db' = Some r \<and> us_auth_provider r = us_auth_provider user"
proof -
  have no: "lr_user (snd (handle_failed_attempt down a r now db)) = None" for r
    by (auto simp: handle_failed_attempt_def login_refused_def split: sum.split prod.split)
  obtain r where r: "account v db = Some r" "us_username user = v" and pass: "\<not> us_is_locked r"
    "us_auth_provider r = provider_local" "bcrypt_check prim (us_password_hash r) pw"
    by (rule authenticate_user [OF assms]) (use that in blast)
  have name: "us_username r = v" using row_of_Some [OF r(1)] by simp
  let ?db = "case attempt down Record_success (record_login_success v now db) of Inl e \<Rightarrow> db | Inr db' \<Rightarrow> db'"
  have "db' = ?db" "user = (case attempt down Refresh_user (get_user_by_username v ?db) of Inl e \<Rightarrow> r | Inr q \<Rightarrow> q)"
    using assms no r(1) pass
    by (auto simp: authenticate_def attempt_def get_user_by_username_def login_refused_def Let_def
        split: sum.splits store_error.splits if_splits option.splits)
  moreover obtain r' where "account v ?db = Some r'" "us_auth_provider r' = us_auth_provider r"
  proof -
    have "\<exists>r'. account v ?db = Some r' \<and> us_auth_provider r' = us_auth_provider r"
      using success_keeps_account [of v now db _ v r] r(1) by (cases "attempt down Record_success (record_login_success v now db)") (auto simp: attempt_def split: if_splits)
    then show ?thesis using that by blast
  qed
  ultimately show ?thesis
    using r(2) by (auto simp: attempt_def get_user_by_username_def split: sum.splits if_splits)
qed

lemma sound_handle_login: "sound u db (fst (handle_login prim down a m i body now db))"
proof -
  obtain db1 res where au: "authenticate prim down a (fst body) (snd body) now db = (db1, res)"
    by (cases "authenticate prim down a (fst body) (snd body) now db")
  have k1: "sound u db db1" using sound_authenticate [of u db prim down a "fst body" "snd body" now] au by simp
  have "sound u db db2"
    if "lr_user res = Some user" "create_session down m i (us_username user) (us_auth_provider user) (us_role user) now db1 = Inr (s, db2)"
    for user s db2
    using authenticate_account [OF au that(1)] sound_session [OF that(2)] sound_trans [OF k1] by blast
  then show ?thesis using k1 by (auto simp: handle_login_def login_def au split: option.split sum.split)
qed

lemma saml_params_saml [simp]: "up_auth_provider (saml_params info) = provider_saml"
  by (simp add: saml_params_def)

lemma provision_facts:
  assumes "provision down info now db = (res, db')"
  shows "sound u db db'"
    and "origins_ok db \<Longrightarrow> res = Some (user, b) \<Longrightarrow>
           \<exists>r. account (us_username user) db' = Some r \<and> us_auth_provider r = provider_saml"
proof -
  show "sound u db db'"
    using assms
    by (auto simp: provision_def attempt_Inr split: sum.splits prod.splits if_splits
        dest!: sound_upsert [where u = u] sound_success [where u = u] elim: sound_trans)
  assume ok: "origins_ok db" and res: "res = Some (user, b)"
  obtain db1 where up: "upsert_saml_user (saml_params info) now db = Inr ((user, b), db1)"
    and db': "db' = (case attempt down Record_success (record_login_success (us_username user) now db1) of Inl e \<Rightarrow> db1 | Inr db2 \<Rightarrow> db2)"
    using assms res by (auto simp: provision_def attempt_Inr split: sum.splits if_splits)
  have "account (us_username user) db1 = Some user" by (rule upsert_returns_row [OF up])
  moreover have "us_auth_provider user = provider_saml" by (rule upsert_gives_saml [OF up _ ok]) simp
  ultimately show "\<exists>r. account (us_username user) db' = Some r \<and> us_auth_provider r = provider_saml"
    using success_keeps_account [of "us_username user" now db1 _ "us_username user" user]
    by (cases "attempt down Record_success (record_login_success (us_username user) now db1)") (auto simp: db' attempt_def split: if_splits)
qed

lemma sound_handle_acs: "sound u db (snd (handle_acs down m i info now db))"
proof (cases "origins_ok db")
  case ok: True
  obtain res db1 where p: "provision down info now db = (res, db1)" by (cases "provision down info now db")
  have k1: "sound u db db1" by (rule provision_facts(1) [OF p])
  have "sound u db db2"
    if "res = Some (user, b)"
      "create_session down m i (us_username user) provider_saml (us_role user) now db1 = Inr (s, db2)"
    for user b s db2
    using provision_facts(2) [OF p ok that(1)] sound_session [OF that(2)] sound_trans [OF k1] by blast
  then show ?thesis using k1 by (auto simp: handle_acs_def p split: option.split sum.split prod.split)
qed (simp add: sound_def)

text \<open>An administrator's request to change, to delete or to give a password to one account.\<close>

fun administers :: "string \<Rightarrow> event \<Rightarrow> bool" where
  "administers u (Admin n req) =
     (trim_prefix (ar_path req) users_subpath = u \<or> trim_prefix (ar_path req) users_subpath = u @ password_suffix)"
| "administers u _ = False"

lemma cut_suffix_Some: "cut_suffix s x = Some t \<Longrightarrow> s = t @ x"
  by (auto simp: cut_suffix_def suffix_def split: if_splits)

lemma sound_reset:
  assumes "\<not> administers u (Admin n req)"
  shows "sound u db (snd (handle_admin_reset_password prim down n' req now db))"
proof -
  let ?raw = "trim_prefix (ar_path req) users_subpath"
  have v: "(case cut_suffix ?raw password_suffix of None \<Rightarrow> ?raw | Some t \<Rightarrow> t) \<noteq> u"
    using assms cut_suffix_Some [of ?raw password_suffix] by (auto split: option.split)
  then show ?thesis
    using sound_trans [OF sound_password [OF _ v] sound_invalidate]
    by (auto simp: handle_admin_reset_password_def Let_def attempt_Inr split: option.split sum.split store_error.split)
qed

lemma sound_admin:
  assumes "\<not> administers u (Admin n req)"
  shows "sound u db (snd (handle_admin_users prim down n req now db))"
proof -
  let ?v = "trim_prefix (ar_path req) users_subpath"
  have v: "?v \<noteq> u" using assms by simp
  have c: "sound u db (snd (handle_admin_create_user prim down n req now db))"
    by (auto simp: handle_admin_create_user_def Let_def attempt_Inr
        split: option.split sum.split store_error.split intro: sound_insert_user)
  have d: "sound u db (snd (handle_admin_delete_user down req db))"
    using sound_trans [OF sound_delete_user [OF _ v] sound_destroy_all]
    by (auto simp: handle_admin_delete_user_def Let_def attempt_Inr split: option.split sum.split store_error.split)
  have w: "sound u db (snd (handle_admin_update_user prim down n req now db))"
    using sound_update_user [OF _ v] sound_trans [OF sound_update_user [OF _ v] sound_invalidate]
    by (auto simp: handle_admin_update_user_def Let_def attempt_Inr sound_reset [OF assms]
        split: option.split sum.split store_error.split)
  show ?thesis
    unfolding handle_admin_users_def Let_def by (simp add: c d w sound_reset [OF assms])
qed

lemma sound_guarded: "sound u db (snd (guarded prim down wired role req now db))"
  by (auto simp: guarded_def require_auth_def validate_credential_def Let_def
      split: prod.split sum.split option.split)

lemma sound_auth_step:
  assumes "\<not> administers u ev"
  shows "sound u db (auth_step prim down now ev db)"
proof (cases ev)
  case (Admin n req)
  then show ?thesis using sound_admin assms by simp
next
  case (Logout token)
  then show ?thesis
    by (auto simp: invalidate_session_def attempt_Inr delete_session_def
        split: sum.split prod.splits if_splits) (metis sound_delete_sessions snd_conv)
qed (auto simp: sound_handle_login sound_handle_acs sound_guarded
    cleanup_expired_def delete_expired_sessions_def sound_delete_sessions handle_slo_def
    delete_saml_sessions_by_username_def create_my_token_def issue_credential_def destroy_my_token_def
    destroy_credential_def delete_api_token_def attempt_Inr Let_def
    split: sum.split store_error.split option.split prod.split if_splits
    intro: sound_insert_token)

lemma sound_auth_run:
  assumes "\<forall>(down, now, ev)\<in>set evs. \<not> administers u ev"
  shows "sound u db (auth_run prim evs db)"
  using assms
proof (induction evs arbitrary: db)
  case (Cons e evs)
  obtain down now ev where e: "e = (down, now, ev)" by (cases e)
  have "sound u db (auth_step prim down now ev db)" using Cons.prems sound_auth_step by (simp add: e)
  then show ?case using Cons sound_trans by (auto simp: e)
qed simp

text \<open>Every name outgrows those of finitely many requests, so the invariant holds whatever is administered.\<close>

lemma origins_ok_step:
  assumes "origins_ok db"
  shows "origins_ok (auth_step prim down now ev db)"
proof -
  obtain u where "\<not> administers u ev"
  proof (cases ev)
    case (Admin n req)
    have "\<not> administers (trim_prefix (ar_path req) users_subpath @ ''x'') ev"
      by (simp add: Admin password_suffix_def)
    then show ?thesis by (rule that)
  qed (auto intro: that)
  then show ?thesis using sound_auth_step assms unfolding sound_def by blast
qed

lemma origins_ok_run: "origins_ok db \<Longrightarrow> origins_ok (auth_run prim evs db)"
proof (induction evs arbitrary: db)
  case (Cons e evs)
  then show ?case using origins_ok_step by (cases e) simp
qed simp

end
