(* ===== verification/Access_Control.thy ===== *)
theory Access_Control
  imports Account_Origin
begin

text \<open>
  What authentication promises: who a handler runs for, that a locked account stays out whatever
  requests follow, that wrong passwords lock an account, and what the role check on the session
  table means for operators.
\<close>

section \<open>Wrong passwords in a row\<close>

fun login_attempts ::
  "primitives \<Rightarrow> local_authenticator \<Rightarrow> string \<Rightarrow> (string \<times> int) list \<Rightarrow> auth_db \<Rightarrow> auth_db" where
  "login_attempts prim a u [] db = db"
| "login_attempts prim a u ((pw, now) # ps) db =
     login_attempts prim a u ps (fst (authenticate prim (\<lambda>_. False) a u pw now db))"

lemma get_user_row: "row_of us_username u (db_users db) = Some r \<Longrightarrow> get_user_by_username u db = Inr r"
  by (simp add: get_user_by_username_def)

lemma locked_attempt:
  assumes "row_of us_username u (db_users db) = Some r" and "us_is_locked r"
  shows "fst (authenticate prim down a u pw now db) = db
         \<and> \<not> lr_success (snd (authenticate prim down a u pw now db))"
  using assms by (simp add: authenticate_def attempt_def get_user_row login_refused_def)

lemma login_attempts_locked:
  assumes "row_of us_username u (db_users db) = Some r" and "us_is_locked r"
  shows "login_attempts prim a u ps db = db"
  by (induction ps) (auto simp: locked_attempt [OF assms])

lemma wrong_attempt:
  assumes row: "row_of us_username u (db_users db) = Some r"
    and r: "us_auth_provider r = provider_local" "\<not> us_is_locked r" "\<not> bcrypt_check prim (us_password_hash r) pw"
    and room: "us_failed r < max_integer"
  obtains r' where
    "row_of us_username u (db_users (fst (authenticate prim (\<lambda>_. False) a u pw now db))) = Some r'"
    "us_failed r' = us_failed r + 1" "us_password_hash r' = us_password_hash r"
    "us_auth_provider r' = provider_local"
    "us_is_locked r' \<longleftrightarrow> effective_lockout_attempts a \<le> us_failed r + 1"
proof -
  let ?f = "\<lambda>r. r\<lparr>us_failed := us_failed r + 1, us_updated_at := now\<rparr>"
  let ?db1 = "db\<lparr>db_users := update_where (\<lambda>r. us_username r = u) ?f (db_users db)\<rparr>"
  have n: "us_username r = u" using row_of_Some [OF row] by simp
  have inc: "increment_failed_login_attempts u now db = Inr (us_failed r + 1, ?db1)"
    using room by (simp add: increment_failed_login_attempts_def update_user_row_def row)
  have row1: "row_of us_username u (db_users ?db1) = Some (?f r)"
    using row_of_updated [OF row, of ?f] by simp
  have au: "fst (authenticate prim (\<lambda>_. False) a u pw now db)
      = fst (handle_failed_attempt (\<lambda>_. False) a r now db)"
    using r by (simp add: authenticate_def attempt_def get_user_row [OF row])
  let ?g = "\<lambda>r. r\<lparr>us_is_locked := True, us_updated_at := now\<rparr>"
  let ?db2 = "?db1\<lparr>db_users := update_where (\<lambda>r. us_username r = u) ?g (db_users ?db1)\<rparr>"
  have lock: "lock_user u now ?db1 = Inr ?db2"
    unfolding lock_user_def checked_update_def update_user_row_def row1 by simp
  have row2: "row_of us_username u (db_users ?db2) = Some (?g (?f r))"
    using row_of_updated [OF row1, of ?g] by simp
  show ?thesis
  proof (cases "effective_lockout_attempts a \<le> us_failed r + 1")
    case True
    then have "fst (handle_failed_attempt (\<lambda>_. False) a r now db) = ?db2"
      unfolding handle_failed_attempt_def attempt_def n by (simp only: inc if_False sum.case prod.case lock if_True fst_conv)
    then show ?thesis using that [of "?g (?f r)"] row2 r True by (simp add: au)
  next
    case False
    then have "fst (handle_failed_attempt (\<lambda>_. False) a r now db) = ?db1"
      unfolding handle_failed_attempt_def attempt_def n by (simp only: inc if_False sum.case prod.case fst_conv)
    then show ?thesis using that [of "?f r"] row1 r False by (simp add: au)
  qed
qed

lemma login_attempts_row:
  assumes "row_of us_username u (db_users db) = Some r"
    and "us_auth_provider r = provider_local" and "\<not> us_is_locked r"
    and "\<forall>(pw, now)\<in>set ps. \<not> bcrypt_check prim (us_password_hash r) pw"
    and "us_failed r < max_integer" and "effective_lockout_attempts a \<le> max_integer"
  shows "\<exists>r'. row_of us_username u (db_users (login_attempts prim a u ps db)) = Some r'
    \<and> (us_is_locked r' \<longleftrightarrow> ps \<noteq> [] \<and> effective_lockout_attempts a \<le> us_failed r + int (List.length ps))"
  using assms(1-5)
proof (induction ps arbitrary: db r)
  case (Cons p ps)
  obtain pw now where p: "p = (pw, now)" by (cases p)
  let ?db1 = "fst (authenticate prim (\<lambda>_. False) a u pw now db)"
  have wrong: "\<not> bcrypt_check prim (us_password_hash r) pw" using Cons.prems(4) by (simp add: p)
  obtain r1 where r1: "row_of us_username u (db_users ?db1) = Some r1" "us_failed r1 = us_failed r + 1"
      "us_password_hash r1 = us_password_hash r" "us_auth_provider r1 = provider_local"
      "us_is_locked r1 \<longleftrightarrow> effective_lockout_attempts a \<le> us_failed r + 1"
    by (rule wrong_attempt [OF Cons.prems(1-3) wrong Cons.prems(5)])
  show ?case
  proof (cases "us_is_locked r1")
    case True
    then show ?thesis using r1 login_attempts_locked [OF r1(1) True] by (simp add: p)
  next
    case False
    then have room: "us_failed r1 < max_integer" using r1(2,5) assms(6) by simp
    have w: "\<forall>(pw, now)\<in>set ps. \<not> bcrypt_check prim (us_password_hash r1) pw"
      using Cons.prems(4) by (simp add: r1(3))
    obtain r' where r': "row_of us_username u (db_users (login_attempts prim a u ps ?db1)) = Some r'"
      "us_is_locked r' \<longleftrightarrow> ps \<noteq> [] \<and> effective_lockout_attempts a \<le> us_failed r1 + int (List.length ps)"
      using Cons.IH [OF r1(1,4) False w room] by blast
    have "us_is_locked r' \<longleftrightarrow> effective_lockout_attempts a \<le> us_failed r + int (List.length (p # ps))"
      using r'(2) False r1(2,5) by (cases ps) (auto simp: algebra_simps)
    then show ?thesis using r'(1) by (simp add: p)
  qed
qed simp

section \<open>Roles of sessions\<close>

lemma insert_session_role: "insert_session i p now db = Inr (s, db') \<Longrightarrow> session_role_ok (sp_role p)"
  by (simp add: insert_session_def split: if_splits)

lemma create_session_operator:
  assumes "role = role_operator"
  shows "create_session down m i v p role now db = Inl Store_failed"
  using assms by (simp add: create_session_def attempt_def insert_session_def session_role_ok_def)

lemma authenticate_role:
  assumes "authenticate prim down a v pw now db = (db', res)" and "lr_user res = Some user"
    and row: "row_of us_username v (db_users db) = Some r"
  shows "us_role user = us_role r"
proof -
  have no: "lr_user (snd (handle_failed_attempt down a q now db)) = None" for q
    by (auto simp: handle_failed_attempt_def login_refused_def split: sum.split prod.split)
  let ?f = "\<lambda>r. r\<lparr>us_failed := 0, us_last_login := Some now, us_updated_at := now\<rparr>"
  have n: "us_username r = v" using row_of_Some [OF row] by simp
  have "record_login_success v now db = Inr (db\<lparr>db_users := update_where (\<lambda>r. us_username r = v) ?f (db_users db)\<rparr>)"
    by (simp add: record_login_success_def checked_update_def update_user_row_def row)
  moreover have "row_of us_username v (update_where (\<lambda>r. us_username r = v) ?f (db_users db)) = Some (?f r)"
    by (rule row_of_updated [OF row]) simp
  ultimately show ?thesis
    using assms(1,2) no [of r]
    by (auto simp: authenticate_def attempt_def get_user_row [OF row] get_user_by_username_def row
        login_refused_def Let_def split: if_splits)
qed

lemma provision_role:
  assumes "provision down info now db = (Some (user, b), db')"
  shows "us_role user = up_role (saml_params info)"
  using assms
  by (auto simp: provision_def attempt_Inr upsert_saml_user_def update_saml_user_by_username_def
      update_user_row_def saml_update_def insert_user_def Let_def
      split: sum.splits prod.splits if_splits option.splits)

section \<open>A small deployment\<close>

text \<open>
  Concrete tables for the witnesses: an administrator who holds a session and a
  credential, an operator and a viewer. The primitives stand in for bcrypt and SHA-256 with identity
  functions.
\<close>

definition plain_primitives :: primitives where
  "plain_primitives =
     \<lparr>bcrypt_check = (\<lambda>h p. h = p), bcrypt_hash = Some, sha256_hex = (\<lambda>s. s),
      runes = map of_char, is_upper_rune = (\<lambda>n. 65 \<le> n \<and> n \<le> 90),
      is_lower_rune = (\<lambda>n. 97 \<le> n \<and> n \<le> 122), is_digit_rune = (\<lambda>n. 48 \<le> n \<and> n \<le> 57)\<rparr>"

definition sample_user :: "string \<Rightarrow> string \<Rightarrow> user" where
  "sample_user u role =
     \<lparr>us_username = u, us_display_name = [], us_email = [], us_password_hash = ''secret'',
      us_role = role, us_auth_provider = provider_local, us_saml_subject = [], us_is_locked = False,
      us_failed = 0, us_last_login = None, us_created_at = 0, us_updated_at = 0\<rparr>"

definition sample_session :: session where
  "sample_session =
     \<lparr>se_id = ''s1'', se_username = ''ann'', se_auth_provider = provider_local, se_role = role_admin,
      se_expires_at = 100, se_created_at = 0\<rparr>"

definition sample_token :: api_token where
  "sample_token =
     \<lparr>at_id = ''t1'', at_username = ''ann'', at_name = ''editor'', at_hash = ''cmm_x'',
      at_can_write = False, at_created_at = 0, at_last_used = None\<rparr>"

definition sample_db :: auth_db where
  "sample_db =
     \<lparr>db_users = [sample_user ''ann'' role_admin, sample_user ''bob'' role_operator,
        sample_user ''cat'' role_viewer],
      db_sessions = [sample_session], db_tokens = [sample_token]\<rparr>"

definition sample_request :: "string \<Rightarrow> request" where
  "sample_request cookie = \<lparr>rq_method = method_get, rq_path = ''/api/v1/nodes'', rq_authorization = [], rq_cookie = cookie\<rparr>"

definition sample_admin :: "string \<Rightarrow> string \<Rightarrow> user_update option \<Rightarrow> admin_request" where
  "sample_admin meth u upd =
     \<lparr>ar_method = meth, ar_path = users_subpath @ u, ar_caller = None, ar_create = None,
      ar_update = upd, ar_reset = None\<rparr>"

definition lock_request :: user_update where
  "lock_request = \<lparr>uu_display_name = None, uu_email = None, uu_role = None, uu_is_locked = Some True\<rparr>"

definition demote_request :: user_update where
  "demote_request = \<lparr>uu_display_name = None, uu_email = None, uu_role = Some role_viewer, uu_is_locked = None\<rparr>"

definition sample_authenticator :: local_authenticator where
  "sample_authenticator = new_local_authenticator 3 None"

definition sample_sessions :: session_manager where
  "sample_sessions = new_session_manager 0 None"

lemma sample_db_ok: "auth_ok sample_db"
  by code_simp

section \<open>Properties\<close>

text \<open>From tables that meet the database's constraints, every sequence of requests leads to tables that meet
  them, whichever calls to the store fail on the way.\<close>

theorem auth_constraints_hold:
  "auth_ok db \<Longrightarrow> auth_ok (auth_run prim evs db)"
  by (rule auth_run_ok)

theorem auth_constraints_hold_witness:
  "auth_ok (auth_run plain_primitives
     [(\<lambda>_. False, 5, Login sample_authenticator sample_sessions ''s2'' (''ann'', ''secret'')),
      (\<lambda>c. c = Delete_tokens, 6, Admin 8 (sample_admin method_delete ''ann'' None))] sample_db)"
  by (rule auth_constraints_hold [OF sample_db_ok])

text \<open>C11: No login through the identity provider takes over a local account. Whatever requests follow one
  another, from whomever and with whichever calls to the store failing, no local account has a SAML subject and
  every session was opened the way its account allows, by password for a local account and through the
  identity provider for a SAML one; and as long as no administrator changes, deletes or gives a password to
  a local account, it is there with the password, the role and the origin it had.\<close>

theorem local_accounts_keep_their_identity:
  assumes "origins_ok db"
  shows "(\<forall>u r. account u (auth_run prim evs db) = Some r \<and> us_auth_provider r = provider_local \<longrightarrow> us_saml_subject r = [])
    \<and> (\<forall>s\<in>set (db_sessions (auth_run prim evs db)). \<exists>r. account (se_username s) (auth_run prim evs db) = Some r
          \<and> us_auth_provider r = se_auth_provider s)
    \<and> ((\<forall>(down, now, ev)\<in>set evs. \<not> administers u ev) \<and> account u db = Some r \<and> us_auth_provider r = provider_local \<longrightarrow>
          (\<exists>r'. account u (auth_run prim evs db) = Some r' \<and> same_identity r r'))"
  using origins_ok_run [OF assms, of prim evs] sound_auth_run [of evs u db prim] assms
  unfolding sound_def keeps_local_def origins_ok_def by blast

definition false_ann :: saml_info where
  "false_ann = \<lparr>sa_subject = ''idp:ann'', sa_username = ''ann'', sa_email = [], sa_display_name = [], sa_role = ''viewer''\<rparr>"

text \<open>A witness: somebody whom the identity provider calls ann, as a local administrator is called, logs in.\<close>

theorem local_accounts_keep_their_identity_witness:
  "\<exists>r. account ''ann'' (auth_run plain_primitives [(\<lambda>_. False, 5, Saml_acs sample_sessions ''s2'' false_ann)] sample_db) = Some r
     \<and> us_auth_provider r = provider_local \<and> us_role r = role_admin \<and> us_password_hash r = ''secret''"
proof -
  have "origins_ok sample_db"
    by (auto simp: origins_ok_def sample_db_def sample_session_def sample_user_def row_of_def provider_ok_def split: if_splits)
  moreover have "account ''ann'' sample_db = Some (sample_user ''ann'' role_admin)"
    by (simp add: sample_db_def sample_user_def row_of_def)
  ultimately show ?thesis
    using local_accounts_keep_their_identity [of sample_db plain_primitives
        "[(\<lambda>_. False, 5, Saml_acs sample_sessions ''s2'' false_ann)]" "''ann''" "sample_user ''ann'' role_admin"]
    by (auto simp: same_identity_def sample_user_def)
qed

text \<open>C7: A guarded handler runs only for the owner of an unexpired session whose account exists and
  whose role was administrator, or viewer on a route open to everybody; or for the holder of a
  credential whose account is not locked and has the required role now, and then only to read, to
  talk to the assistant endpoint, or, with write access, to record a new entry in the failure
  register.\<close>

theorem handler_runs_for:
  assumes "auth_ok db" and "guarded prim down wired role req now db = (Inr info, db')"
  shows "(\<exists>s\<in>set (db_sessions db). \<exists>r\<in>set (db_users db).
            se_id s = extract_token req \<and> now < se_expires_at s \<and> info = info_of_session s
            \<and> us_username r = se_username s
            \<and> (se_role s = role_admin \<or> se_role s = role_viewer \<and> role = Authenticated))
         \<or> (wired \<and> (\<exists>t\<in>set (db_tokens db). \<exists>r\<in>set (db_users db).
            at_hash t = sha256_hex prim (extract_token req) \<and> us_username r = at_username t
            \<and> \<not> us_is_locked r \<and> info = info_of_token r t \<and> role_admits role (info_of_token r t)
            \<and> (rq_method req \<in> {method_get, method_head, method_options} \<or> rq_path req = mcp_path
               \<or> at_can_write t \<and> rq_method req = method_post \<and> rq_path req = failure_register_path)))"
proof -
  have g: "role_admits role info" "credential_may_proceed info req"
      "screen_access (extract_token req) now db info
       \<or> wired \<and> credential_access prim (extract_token req) db info"
    using guarded_require [OF assms(2)] require_auth_access by blast+
  from g(3) show ?thesis
  proof
    assume "screen_access (extract_token req) now db info"
    then obtain s where s: "s \<in> set (db_sessions db)" "se_id s = extract_token req"
        "now < se_expires_at s" "info = info_of_session s"
      by (auto simp: screen_access_def)
    have row: "session_row_ok (db_users db) s"
      using assms(1) s(1) by (simp add: auth_ok_def sessions_ok_def)
    then obtain r where "r \<in> set (db_users db)" "us_username r = se_username s"
      by (auto simp: session_row_ok_def)
    moreover have "se_role s = role_admin \<or> se_role s = role_viewer \<and> role = Authenticated"
      using row g(1) s(4)
      by (cases role) (auto simp: session_row_ok_def session_role_ok_def is_operator_def is_admin_def)
    ultimately show ?thesis using s by blast
  next
    assume c: "wired \<and> credential_access prim (extract_token req) db info"
    then obtain t r where t: "t \<in> set (db_tokens db)" "r \<in> set (db_users db)"
        "at_hash t = sha256_hex prim (extract_token req)" "us_username r = at_username t"
        "\<not> us_is_locked r" "info = info_of_token r t"
      by (auto simp: credential_access_def)
    have "rq_method req \<in> {method_get, method_head, method_options} \<or> rq_path req = mcp_path
        \<or> at_can_write t \<and> rq_method req = method_post \<and> rq_path req = failure_register_path"
      using g(2) by (auto simp: credential_may_proceed_def t(6) split: if_splits)
    then show ?thesis using c t g(1) by blast
  qed
qed

theorem handler_runs_for_witness:
  "guarded plain_primitives (\<lambda>_. False) True Admin_only (sample_request ''s1'') 5 sample_db
     = (Inr (info_of_session sample_session), sample_db)
   \<and> (\<exists>s\<in>set (db_sessions sample_db). se_id s = ''s1'')"
proof -
  have g: "guarded plain_primitives (\<lambda>_. False) True Admin_only (sample_request ''s1'') 5 sample_db
     = (Inr (info_of_session sample_session), sample_db)"
    by code_simp
  have e: "extract_token (sample_request ''s1'') = ''s1''" by code_simp
  show ?thesis using handler_runs_for [OF sample_db_ok g] g
    by (auto simp: e) (auto simp: sample_db_def sample_session_def)
qed

text \<open>C8: Once an administrator has locked an account and its sessions could be removed, no request
  ever runs as that account again, by session or credential, local or SAML login, whatever
  requests follow and whichever calls to the store fail, until it is unlocked or deleted by an
  administrator.\<close>

theorem locked_account_stays_out:
  assumes ok: "auth_ok db"
    and lock: "ar_path req = users_subpath @ u" "ar_update req = Some b" "uu_is_locked b = Some True"
      "handle_admin_users prim down n req now db = (200, db1)" "\<not> down Delete_sessions"
    and evs: "\<forall>(d, t, e)\<in>set evs. \<not> reopens u e"
    and run: "guarded prim d wired role rq t (auth_run prim evs db1) = (Inr info, db2)"
  shows "si_username info \<noteq> u"
proof -
  have path: "users_subpath @ u \<noteq> users_path" by (simp add: users_subpath_def users_path_def)
  have tp: "trim_prefix (users_subpath @ u) users_subpath = u" by (simp add: trim_prefix_def)
  have r200: "fst (handle_admin_reset_password prim down n req now db) \<noteq> 200"
    by (auto simp: handle_admin_reset_password_def Let_def split: option.split sum.split store_error.split)
  have d200: "fst (handle_admin_delete_user down req db) \<noteq> 200"
    by (auto simp: handle_admin_delete_user_def Let_def split: option.split sum.split store_error.split)
  have "handle_admin_update_user prim down n req now db = (200, db1)"
    using lock(4) path r200 d200 unfolding handle_admin_users_def lock(1) tp Let_def
    by (auto split: if_splits)
  then obtain r db0 where up: "update_user u b now db = Inr (r, db0)"
      and db1: "db1 = invalidate_user_sessions down u db0"
    using r200 unfolding handle_admin_update_user_def lock(1,2) tp Let_def
    by (auto simp: attempt_Inr lock(3) split: if_splits sum.splits store_error.splits)
  obtain r0 where r0: "row_of us_username u (db_users db) = Some r0"
      and db0: "db0 = db\<lparr>db_users := update_where (\<lambda>r. us_username r = u) (apply_update b now) (db_users db)\<rparr>"
    using up by (auto simp: update_user_def update_user_row_def split: option.splits if_splits)
  have "us_username (apply_update b now q) = us_username q" for q by (simp add: apply_update_def Let_def)
  then have "row_of us_username u (db_users db0) = Some (apply_update b now r0)"
    unfolding db0 using row_of_updated [OF r0, of "apply_update b now"] by simp
  moreover have "us_is_locked (apply_update b now r0)" by (simp add: apply_update_def Let_def lock(3))
  ultimately have "shut_out u db1"
    using lock(5) by (simp add: shut_out_def db1 invalidate_user_sessions_def
        delete_sessions_by_username_def delete_sessions_def)
  then have "shut_out u (auth_run prim evs db1)" by (rule shut_out_run [OF _ evs])
  moreover have "auth_ok db1" using update_user_ok [OF ok up] invalidate_user_sessions_ok db1 by simp
  ultimately show ?thesis using shut_out_no_access run auth_run_ok by blast
qed

theorem locked_account_stays_out_witness:
  "\<exists>info db2. guarded plain_primitives (\<lambda>_. False) True Authenticated (sample_request ''s2'') 5
       (auth_run plain_primitives
          [(\<lambda>_. False, 4, Login sample_authenticator sample_sessions ''s2'' (''cat'', ''secret''))]
          (snd (handle_admin_users plain_primitives (\<lambda>_. False) 8
                  (sample_admin method_put ''ann'' (Some lock_request)) 3 sample_db)))
       = (Inr info, db2) \<and> si_username info \<noteq> ''ann''"
proof -
  let ?req = "sample_admin method_put ''ann'' (Some lock_request)"
  let ?evs = "[(\<lambda>_. False, 4, Login sample_authenticator sample_sessions ''s2'' (''cat'', ''secret''))]"
  let ?db1 = "snd (handle_admin_users plain_primitives (\<lambda>_. False) 8 ?req 3 sample_db)"
  have "fst (handle_admin_users plain_primitives (\<lambda>_. False) 8 ?req 3 sample_db) = 200" by code_simp
  then have l: "handle_admin_users plain_primitives (\<lambda>_. False) 8 ?req 3 sample_db = (200, ?db1)"
    by (metis prod.collapse)
  have a: "ar_path ?req = users_subpath @ ''ann''" "ar_update ?req = Some lock_request"
      "uu_is_locked lock_request = Some True"
    by (simp_all add: sample_admin_def lock_request_def)
  have "\<not> isl (fst (guarded plain_primitives (\<lambda>_. False) True Authenticated (sample_request ''s2'') 5
       (auth_run plain_primitives ?evs ?db1)))"
    by code_simp
  then obtain info db2 where g: "guarded plain_primitives (\<lambda>_. False) True Authenticated
       (sample_request ''s2'') 5 (auth_run plain_primitives ?evs ?db1) = (Inr info, db2)"
    by (metis prod.collapse sum.collapse(2))
  have "si_username info \<noteq> ''ann''"
    by (rule locked_account_stays_out [OF sample_db_ok a l _ _ g]) simp_all
  with g show ?thesis by blast
qed

text \<open>C9: A local account that is not locked is locked after a run of wrong passwords exactly when
  they are enough to reach the threshold in force, the failures counted before included; and once
  it is locked every further attempt is refused and changes nothing, the right password and
  whatever failing calls included.\<close>

theorem wrong_passwords_lock:
  assumes "row_of us_username u (db_users db) = Some r"
    and "us_auth_provider r = provider_local" and "\<not> us_is_locked r"
    and "\<forall>(pw, now)\<in>set ps. \<not> bcrypt_check prim (us_password_hash r) pw"
    and "us_failed r < max_integer" and "effective_lockout_attempts a \<le> max_integer"
    and "db' = login_attempts prim a u ps db"
  shows "\<exists>r'. row_of us_username u (db_users db') = Some r'
    \<and> (us_is_locked r' \<longleftrightarrow> ps \<noteq> [] \<and> effective_lockout_attempts a \<le> us_failed r + int (List.length ps))
    \<and> (us_is_locked r' \<longrightarrow> (\<forall>down pw now. fst (authenticate prim down a u pw now db') = db'
         \<and> \<not> lr_success (snd (authenticate prim down a u pw now db'))))"
  using login_attempts_row [OF assms(1-6)] locked_attempt unfolding assms(7) by blast

theorem wrong_passwords_lock_witness:
  "\<exists>r. row_of us_username ''cat''
         (db_users (login_attempts plain_primitives sample_authenticator ''cat''
            [(''a'', 1), (''b'', 2), (''c'', 3)] sample_db)) = Some r \<and> us_is_locked r"
proof -
  have row: "row_of us_username ''cat'' (db_users sample_db) = Some (sample_user ''cat'' role_viewer)"
    by code_simp
  have w: "\<forall>(pw, now)\<in>set [(''a'', 1), (''b'', 2), (''c'', 3 :: int)].
      \<not> bcrypt_check plain_primitives (us_password_hash (sample_user ''cat'' role_viewer)) pw"
    by (simp add: plain_primitives_def sample_user_def)
  show ?thesis
    using wrong_passwords_lock [OF row _ _ w _ _ refl, of sample_authenticator]
    by (auto simp: sample_user_def max_integer_def sample_authenticator_def new_local_authenticator_def
        effective_lockout_attempts_def)
qed

text \<open>Deleting an account removes its sessions with it and, when that call does not fail, its
  credentials: no request runs as the account afterwards.\<close>

theorem deleted_account_is_gone:
  assumes "auth_ok db" and "ar_path req = users_subpath @ u" and "ar_method req = method_delete"
    and "handle_admin_users prim down n req now db = (204, db1)" and "\<not> down Delete_tokens"
  shows "row_of us_username u (db_users db1) = None
    \<and> (\<forall>s\<in>set (db_sessions db1). se_username s \<noteq> u) \<and> (\<forall>t\<in>set (db_tokens db1). at_username t \<noteq> u)"
proof -
  have path: "users_subpath @ u \<noteq> users_path" by (simp add: users_subpath_def users_path_def)
  have tp: "trim_prefix (users_subpath @ u) users_subpath = u" by (simp add: trim_prefix_def)
  have m: "method_delete \<noteq> method_put" by (simp add: method_delete_def method_put_def)
  have "handle_admin_delete_user down req db = (204, db1)"
    using assms(4) path m unfolding handle_admin_users_def assms(2,3) tp Let_def
    by (auto split: if_splits)
  then obtain db0 where del: "delete_user u db = Inr db0" and db1: "db1 = destroy_all_credentials_for down u db0"
    unfolding handle_admin_delete_user_def assms(2,3) tp Let_def
    by (auto simp: attempt_Inr split: if_splits sum.splits store_error.splits)
  have "db0 = db\<lparr>db_users := delete_where (\<lambda>r. us_username r = u) (db_users db),
      db_sessions := delete_where (\<lambda>s. se_username s = u) (db_sessions db)\<rparr>"
    using del by (simp add: delete_user_def split: if_splits)
  then show ?thesis
    using assms(5) by (auto simp: db1 destroy_all_credentials_for_def delete_api_tokens_by_username_def
        Let_def row_of_None)
qed

theorem deleted_account_is_gone_witness:
  "list_all (\<lambda>t. at_username t \<noteq> ''ann'') (db_tokens (snd (handle_admin_users plain_primitives
     (\<lambda>_. False) 8 (sample_admin method_delete ''ann'' None) 3 sample_db)))"
proof -
  let ?req = "sample_admin method_delete ''ann'' None"
  let ?db1 = "snd (handle_admin_users plain_primitives (\<lambda>_. False) 8 ?req 3 sample_db)"
  have "fst (handle_admin_users plain_primitives (\<lambda>_. False) 8 ?req 3 sample_db) = 204" by code_simp
  then have d: "handle_admin_users plain_primitives (\<lambda>_. False) 8 ?req 3 sample_db = (204, ?db1)"
    by (metis prod.collapse)
  have "ar_path ?req = users_subpath @ ''ann''" "ar_method ?req = method_delete"
    by (simp_all add: sample_admin_def)
  then show ?thesis using deleted_account_is_gone [OF sample_db_ok _ _ d] by (simp add: list_all_iff)
qed

text \<open>C10: An account with the operator role cannot get a session: the check constraint of the session
  table admits administrators and viewers only, so a local login with the right password ends in
  an internal error, and so does every SAML login that maps to the role.\<close>

theorem operator_cannot_log_in:
  assumes "row_of us_username u (db_users db) = Some r" and "us_role r = role_operator"
  shows "isl (snd (login prim down a m new_id u pw now db))
    \<and> (us_auth_provider r = provider_local \<and> \<not> us_is_locked r \<and> bcrypt_check prim (us_password_hash r) pw
         \<and> \<not> down Get_user \<longrightarrow> snd (login prim down a m new_id u pw now db) = Inl 500)
    \<and> (sa_role info = role_operator \<longrightarrow> isl (fst (handle_acs down m new_id info now db)))"
proof (intro conjI impI)
  obtain db1 res where au: "authenticate prim down a u pw now db = (db1, res)"
    by (cases "authenticate prim down a u pw now db")
  have fail: "create_session down m new_id (us_username user) (us_auth_provider user) (us_role user) now db1
      = Inl Store_failed" if "lr_user res = Some user" for user
    by (rule create_session_operator) (simp add: authenticate_role [OF au that assms(1)] assms(2))
  then show "isl (snd (login prim down a m new_id u pw now db))"
    by (auto simp: login_def au split: option.split)
  assume "us_auth_provider r = provider_local \<and> \<not> us_is_locked r \<and> bcrypt_check prim (us_password_hash r) pw
         \<and> \<not> down Get_user"
  then have "lr_user res \<noteq> None"
    using au by (auto simp: authenticate_def attempt_def get_user_row [OF assms(1)] Let_def)
  then show "snd (login prim down a m new_id u pw now db) = Inl 500"
    using fail by (auto simp: login_def au)
next
  assume op: "sa_role info = role_operator"
  have "us_role user = role_operator" if "provision down info now db = (Some (user, b), db1)" for user b db1
    using provision_role [OF that] op by (simp add: saml_params_def)
  then show "isl (fst (handle_acs down m new_id info now db))"
    by (auto simp: handle_acs_def create_session_operator split: prod.split option.split)
qed

theorem operator_cannot_log_in_witness:
  "snd (login plain_primitives (\<lambda>_. False) sample_authenticator sample_sessions ''s9'' ''bob'' ''secret'' 5
     sample_db) = Inl 500"
proof -
  have row: "row_of us_username ''bob'' (db_users sample_db) = Some (sample_user ''bob'' role_operator)"
    by code_simp
  show ?thesis
    using operator_cannot_log_in [OF row, of plain_primitives "\<lambda>_. False" sample_authenticator
        sample_sessions "''s9''" "''secret''" 5]
    by (simp add: sample_user_def plain_primitives_def)
qed

text \<open>When an administrator takes the administrator role from an account, its credentials lose
  it at once but its open sessions keep it: the session row holds a copy of the role, and the
  update removes sessions only on a lock.\<close>

theorem demotion_spares_sessions:
  "(let db1 = snd (handle_admin_users plain_primitives (\<lambda>_. False) 8
                     (sample_admin method_put ''ann'' (Some demote_request)) 3 sample_db)
    in fst (handle_admin_users plain_primitives (\<lambda>_. False) 8
              (sample_admin method_put ''ann'' (Some demote_request)) 3 sample_db) = 200
     \<and> map us_role (db_users db1) = [role_viewer, role_operator, role_viewer]
     \<and> fst (guarded plain_primitives (\<lambda>_. False) True Admin_only (sample_request ''s1'') 5 db1)
         = Inr (info_of_session sample_session)
     \<and> fst (guarded plain_primitives (\<lambda>_. False) True Admin_only (sample_request ''cmm_x'') 5 db1) = Inl 403)"
  by code_simp

end
