(* ===== verification/VM_Lifecycle.thy ===== *)
theory VM_Lifecycle
  imports Prelude Go_Json Go_Strconv "HOL-Library.Signed_Division"
begin

text \<open>
  The virtual machines of Test Kitchen runs: their names and the age the name carries
  (\<open>internal/hypervisor/hypervisor.go\<close>), which machines the inventory lists
  (\<open>proxmox.go\<close>, \<open>vcenter.go\<close>), the sweep of old ones (\<open>sweep.go\<close>, \<open>sweep_ticker.go\<close>), the
  tracking table (\<open>internal/datastore/vm_tracking.go\<close>) and the clean-up of its orphans
  (\<open>orphan.go\<close>, \<open>webapi/handle_hypervisor.go\<close>). The hypervisor itself is what its list returns and
  which requests to destroy a machine it refuses; an operation returns the requests it made.
  Names are ASCII; durations are 64-bit nanoseconds and wrap around.
\<close>

section \<open>Names\<close>

definition hyphen :: char where "hyphen = CHR ''-''"

definition max_vm_name_len :: nat where "max_vm_name_len = 80"

definition name_char :: "char \<Rightarrow> bool" where
  "name_char c =
     (is_digit c \<or> (97 \<le> (of_char c :: nat) \<and> (of_char c :: nat) \<le> 122))"

text \<open>\<open>sanitiseRe.ReplaceAllString(s, "-")\<close>: each maximal run of other characters is one hyphen.\<close>

fun replace_runs :: "bool \<Rightarrow> string \<Rightarrow> string" where
  "replace_runs in_run [] = []"
| "replace_runs in_run (c # s) =
     (if name_char c then c # replace_runs False s
      else if in_run then replace_runs True s else hyphen # replace_runs True s)"

definition trim_hyphens :: "string \<Rightarrow> string" where
  "trim_hyphens s = trim_right_by (\<lambda>c. c = hyphen) (dropWhile (\<lambda>c. c = hyphen) s)"

definition sanitise_component :: "string \<Rightarrow> string" where
  "sanitise_component s = trim_hyphens (replace_runs False (to_lower s))"

text \<open>
  Only the cookbook is shortened: \<open>name_overhead\<close> is the length of the other parts, and
  \<open>kept_cookbook m\<close> what is left of the cookbook in \<open>m\<close> characters. \<open>ts\<close> is the Unix time, which is
  not negative.
\<close>

definition name_overhead :: "string \<Rightarrow> string \<Rightarrow> string \<Rightarrow> string \<Rightarrow> nat" where
  "name_overhead pre suite platform timestamp =
     List.length pre + 1 + 1 + List.length suite + 1 + List.length platform + 1 + List.length timestamp"

definition kept_cookbook :: "nat \<Rightarrow> string \<Rightarrow> string" where
  "kept_cookbook overhead cookbook =
     (let max_cookbook = (if int max_vm_name_len - int overhead < 1 then 1
                          else max_vm_name_len - overhead)
      in if List.length cookbook > max_cookbook
         then trim_right_by (\<lambda>c. c = hyphen) (take max_cookbook cookbook) else cookbook)"

definition generate_vm_name :: "string \<Rightarrow> string \<Rightarrow> string \<Rightarrow> string \<Rightarrow> int \<Rightarrow> string" where
  "generate_vm_name prefix0 cookbook_name suite_name platform_name ts =
     (let pre = sanitise_component (if prefix0 = [] then ''cmm'' else prefix0);
          cookbook = sanitise_component cookbook_name;
          suite = sanitise_component suite_name;
          platform = sanitise_component platform_name;
          timestamp = decimal ts
      in pre @ [hyphen] @ kept_cookbook (name_overhead pre suite platform timestamp) cookbook @ [hyphen]
         @ suite @ [hyphen] @ platform @ [hyphen] @ timestamp)"

record vm_name_components =
  vn_prefix :: string
  vn_cookbook :: string
  vn_suite :: string
  vn_platform :: string
  vn_timestamp :: int

text \<open>\<open>strings.LastIndex\<close> of a hyphen, and the pieces of \<open>SplitN(s, "-", 3)\<close> padded with empty ones.\<close>

definition split_last_hyphen :: "string \<Rightarrow> (string \<times> string) option" where
  "split_last_hyphen s =
     (if hyphen \<in> set s
      then Some (let tail = rev (takeWhile (\<lambda>c. c \<noteq> hyphen) (rev s))
                 in (take (List.length s - List.length tail - 1) s, tail))
      else None)"

definition split_first_hyphen :: "string \<Rightarrow> string \<times> string" where
  "split_first_hyphen s =
     (takeWhile (\<lambda>c. c \<noteq> hyphen) s, tl (dropWhile (\<lambda>c. c \<noteq> hyphen) s))"

definition name_prefix :: "string \<Rightarrow> string" where
  "name_prefix p = (let s = sanitise_component p in if s = [] then ''cmm'' else s)"

definition parse_vm_name :: "string \<Rightarrow> string \<Rightarrow> vm_name_components option" where
  "parse_vm_name name expected_prefix =
     (let pre = name_prefix expected_prefix
      in if \<not> prefix (pre @ [hyphen]) name then None
         else case split_last_hyphen (drop (List.length pre + 1) name) of
                None \<Rightarrow> None
              | Some (middle, ts_part) \<Rightarrow>
                  if List.length ts_part < 10 then None
                  else case parse_int64 ts_part of
                         None \<Rightarrow> None
                       | Some ts \<Rightarrow>
                           if middle = [] then None
                           else case split_first_hyphen middle of
                                  (first, rest) \<Rightarrow>
                                    (case split_first_hyphen rest of
                                       (second, third) \<Rightarrow>
                                         Some \<lparr>vn_prefix = pre, vn_cookbook = first, vn_suite = second,
                                               vn_platform = third, vn_timestamp = ts\<rparr>))"

section \<open>The inventory\<close>

record managed_vm =
  mv_id :: string
  mv_name :: string
  mv_power_state :: string
  mv_uptime :: int

definition kitchen_prefix :: string where "kitchen_prefix = ''kitchen-''"

definition matches_kitchen_prefix :: "string \<Rightarrow> string \<Rightarrow> bool" where
  "matches_kitchen_prefix name p =
     (if p = [] then True else if prefix p name then True else prefix kitchen_prefix name)"

definition list_managed_vms :: "string \<Rightarrow> managed_vm list \<Rightarrow> managed_vm list" where
  "list_managed_vms p vms = filter (\<lambda>vm. matches_kitchen_prefix (mv_name vm) p) vms"

section \<open>The sweep\<close>

definition second_ns :: int where "second_ns = 1000000000"

definition vm_age :: "managed_vm \<Rightarrow> string \<Rightarrow> int \<Rightarrow> int option" where
  "vm_age vm p now_unix =
     (case parse_vm_name (mv_name vm) p of
        Some parts \<Rightarrow> Some (int64 (int64 (now_unix - vn_timestamp parts) * second_ns))
      | None \<Rightarrow>
          if prefix kitchen_prefix (mv_name vm)
          then (if mv_uptime vm > 0 then Some (mv_uptime vm)
                else if mv_power_state vm = ''poweredOff'' then Some (int64 (now_unix * second_ns))
                else None)
          else None)"

datatype sweep_action = Skipped_unparsed | Skipped_too_young | Would_destroy | Destroy_error | Destroyed

record sweep_detail =
  sd_vm :: managed_vm
  sd_age :: int
  sd_action :: sweep_action

text \<open>What the loop does with one machine; \<open>refuses\<close> says which requests to destroy fail.\<close>

definition sweep_one ::
  "(string \<Rightarrow> bool) \<Rightarrow> string \<Rightarrow> int \<Rightarrow> bool \<Rightarrow> int \<Rightarrow> managed_vm \<Rightarrow> sweep_detail" where
  "sweep_one refuses p threshold dry_run now vm =
     (case vm_age vm p now of
        None \<Rightarrow> \<lparr>sd_vm = vm, sd_age = 0, sd_action = Skipped_unparsed\<rparr>
      | Some age \<Rightarrow>
          \<lparr>sd_vm = vm, sd_age = age sdiv second_ns,
           sd_action = (if age < threshold then Skipped_too_young
                        else if dry_run then Would_destroy
                        else if refuses (mv_id vm) then Destroy_error else Destroyed)\<rparr>)"

record sweep_result =
  sr_scanned :: nat
  sr_destroyed :: nat
  sr_too_young :: nat
  sr_unparsed :: nat
  sr_errors :: nat
  sr_dry_run :: bool
  sr_details :: "sweep_detail list"

definition count_action :: "sweep_action \<Rightarrow> sweep_detail list \<Rightarrow> nat" where
  "count_action a ds = List.length (filter (\<lambda>d. sd_action d = a) ds)"

text \<open>\<open>SweepOrphanVMs\<close> on what the hypervisor lists; the counters go up with the details.\<close>

definition sweep_orphan_vms ::
  "(string \<Rightarrow> bool) \<Rightarrow> managed_vm list \<Rightarrow> string \<Rightarrow> int \<Rightarrow> bool \<Rightarrow> int \<Rightarrow> sweep_result" where
  "sweep_orphan_vms refuses inventory p threshold dry_run now =
     (let ds = map (sweep_one refuses p threshold dry_run now) (list_managed_vms p inventory)
      in \<lparr>sr_scanned = List.length ds, sr_destroyed = count_action Destroyed ds,
          sr_too_young = count_action Skipped_too_young ds,
          sr_unparsed = count_action Skipped_unparsed ds, sr_errors = count_action Destroy_error ds,
          sr_dry_run = dry_run, sr_details = ds\<rparr>)"

definition destroy_requests :: "sweep_result \<Rightarrow> string list" where
  "destroy_requests r =
     map (mv_id \<circ> sd_vm)
       (filter (\<lambda>d. sd_action d = Destroyed \<or> sd_action d = Destroy_error) (sr_details r))"

text \<open>The settings of the scheduled sweep, and one round of the ticker after its timer has fired.\<close>

definition effective_vm_name_prefix :: "string \<Rightarrow> string" where
  "effective_vm_name_prefix p = (if p \<noteq> [] then p else ''cmm'')"

definition minute_dur :: int where "minute_dur = 60 * second_ns"

definition effective_orphan_sweep_interval :: "int \<Rightarrow> int" where
  "effective_orphan_sweep_interval minutes =
     (if minutes < 0 then 0 else if minutes = 0 then 30 * minute_dur
      else if minutes < 5 then 5 * minute_dur else int64 (minutes * minute_dur))"

definition effective_timeout_minutes :: "int \<Rightarrow> int" where
  "effective_timeout_minutes m = (if m \<le> 0 then 30 else m)"

definition effective_orphan_sweep_age :: "int \<Rightarrow> int \<Rightarrow> int" where
  "effective_orphan_sweep_age age_minutes timeout_minutes =
     (if age_minutes > 0 then int64 (age_minutes * minute_dur)
      else int64 (int64 (2 * effective_timeout_minutes timeout_minutes) * minute_dur))"

record sweep_params =
  pa_prefix :: string
  pa_age :: int
  pa_interval :: int

definition sweep_tick ::
  "sweep_params \<Rightarrow> (string \<Rightarrow> bool) \<Rightarrow> managed_vm list option \<Rightarrow> int \<Rightarrow> sweep_result option" where
  "sweep_tick p refuses inventory now =
     (if pa_interval p \<le> 0 then None
      else case inventory of
             None \<Rightarrow> None
           | Some vms \<Rightarrow> Some (sweep_orphan_vms refuses vms (pa_prefix p) (pa_age p) False now))"

section \<open>The tracking table\<close>

definition vm_creating :: string where "vm_creating = ''creating''"
definition vm_running :: string where "vm_running = ''running''"
definition vm_destroying :: string where "vm_destroying = ''destroying''"
definition vm_destroyed :: string where "vm_destroyed = ''destroyed''"
definition vm_orphaned :: string where "vm_orphaned = ''orphaned''"

lemma vm_status_distinct [simp]:
  "vm_orphaned \<noteq> vm_destroyed" "vm_destroyed \<noteq> vm_orphaned"
  "vm_creating \<noteq> vm_destroyed" "vm_creating \<noteq> vm_orphaned"
  by (simp_all add: vm_orphaned_def vm_destroyed_def vm_creating_def)

definition valid_vm_status :: "string \<Rightarrow> bool" where
  "valid_vm_status s = (s = vm_creating \<or> s = vm_running \<or> s = vm_destroying \<or> s = vm_destroyed \<or> s = vm_orphaned)"

record tracked_vm =
  tv_id :: string
  tv_name :: string
  tv_hypervisor_id :: string
  tv_cookbook :: string
  tv_suite :: string
  tv_platform :: string
  tv_batch_id :: string
  tv_status :: string
  tv_created_at :: int
  tv_expected_destroy_at :: "int option"
  tv_actual_destroy_at :: "int option"
  tv_updated_at :: int

record tracked_vm_params =
  tp_vm_name :: string
  tp_hypervisor_id :: string
  tp_cookbook :: string
  tp_suite :: string
  tp_platform :: string
  tp_batch_id :: string
  tp_expected_destroy_at :: "int option"

datatype vm_store_error = Vm_invalid | Vm_not_found | Vm_failed

type_synonym vm_table = "tracked_vm list"

definition insert_tracked_vm ::
  "string \<Rightarrow> tracked_vm_params \<Rightarrow> int \<Rightarrow> vm_table \<Rightarrow> vm_store_error + tracked_vm \<times> vm_table" where
  "insert_tracked_vm new_id p now tbl =
     (if tp_vm_name p = [] \<or> tp_cookbook p = [] \<or> tp_suite p = [] \<or> tp_platform p = []
      then Inl Vm_invalid
      else if list_ex (\<lambda>r. tv_id r = new_id) tbl then Inl Vm_failed
      else let r = \<lparr>tv_id = new_id, tv_name = tp_vm_name p, tv_hypervisor_id = tp_hypervisor_id p,
                    tv_cookbook = tp_cookbook p, tv_suite = tp_suite p, tv_platform = tp_platform p,
                    tv_batch_id = tp_batch_id p, tv_status = vm_creating, tv_created_at = now,
                    tv_expected_destroy_at = tp_expected_destroy_at p, tv_actual_destroy_at = None,
                    tv_updated_at = now\<rparr>
           in Inr (r, tbl @ [r]))"

definition update_vm :: "string \<Rightarrow> (tracked_vm \<Rightarrow> tracked_vm) \<Rightarrow> vm_table \<Rightarrow> vm_store_error + vm_table" where
  "update_vm i f tbl =
     (if i = [] then Inl Vm_invalid
      else if \<not> list_ex (\<lambda>r. tv_id r = i) tbl then Inl Vm_not_found
      else Inr (update_where (\<lambda>r. tv_id r = i) f tbl))"

definition update_tracked_vm_status ::
  "string \<Rightarrow> string \<Rightarrow> string \<Rightarrow> int \<Rightarrow> vm_table \<Rightarrow> vm_store_error + vm_table" where
  "update_tracked_vm_status i status hypervisor_id now tbl =
     (if i = [] \<or> \<not> valid_vm_status status then Inl Vm_invalid
      else update_vm i
             (\<lambda>r. r\<lparr>tv_status := status,
                   tv_hypervisor_id := (if hypervisor_id = [] then tv_hypervisor_id r else hypervisor_id),
                   tv_updated_at := now\<rparr>) tbl)"

definition mark_vm_destroyed :: "string \<Rightarrow> int \<Rightarrow> vm_table \<Rightarrow> vm_store_error + vm_table" where
  "mark_vm_destroyed i now =
     update_vm i (\<lambda>r. r\<lparr>tv_status := vm_destroyed, tv_actual_destroy_at := Some now, tv_updated_at := now\<rparr>)"

definition mark_vm_orphaned :: "string \<Rightarrow> int \<Rightarrow> vm_table \<Rightarrow> vm_store_error + vm_table" where
  "mark_vm_orphaned i now = update_vm i (\<lambda>r. r\<lparr>tv_status := vm_orphaned, tv_updated_at := now\<rparr>)"

definition overdue :: "int \<Rightarrow> tracked_vm \<Rightarrow> bool" where
  "overdue now r =
     (tv_status r \<noteq> vm_destroyed \<and> tv_status r \<noteq> vm_orphaned
      \<and> (case tv_expected_destroy_at r of None \<Rightarrow> False | Some t \<Rightarrow> t < now))"

definition list_orphaned_vms :: "int \<Rightarrow> vm_table \<Rightarrow> tracked_vm list" where
  "list_orphaned_vms now tbl = sort_key (\<lambda>r. - tv_created_at r) (filter (overdue now) tbl)"

definition list_tracked_vms_filtered :: "string \<Rightarrow> vm_table \<Rightarrow> tracked_vm list" where
  "list_tracked_vms_filtered status tbl =
     sort_key (\<lambda>r. - tv_created_at r) (filter (\<lambda>r. status = [] \<or> tv_status r = status) tbl)"

definition delete_tracked_vm :: "string \<Rightarrow> vm_table \<Rightarrow> vm_store_error + vm_table" where
  "delete_tracked_vm i tbl =
     (if i = [] then Inl Vm_invalid
      else if \<not> list_ex (\<lambda>r. tv_id r = i) tbl then Inl Vm_not_found
      else Inr (delete_where (\<lambda>r. tv_id r = i) tbl))"

section \<open>Detection and clean-up of orphans\<close>

record orphan_result =
  or_detected :: nat
  or_destroyed :: nat
  or_errors :: nat

text \<open>
  \<open>fails\<close> says for which ids a marking fails. The details and the comparison with the machines
  still running only add text.
\<close>

fun detect_loop ::
  "(string \<Rightarrow> bool) \<Rightarrow> int \<Rightarrow> tracked_vm list \<Rightarrow> orphan_result \<Rightarrow> vm_table \<Rightarrow> orphan_result \<times> vm_table" where
  "detect_loop fails now [] res tbl = (res, tbl)"
| "detect_loop fails now (vm # vms) res tbl =
     (case (if fails (tv_id vm) then Inl Vm_failed else mark_vm_orphaned (tv_id vm) now tbl) of
        Inl e \<Rightarrow> detect_loop fails now vms (res\<lparr>or_errors := or_errors res + 1\<rparr>) tbl
      | Inr tbl' \<Rightarrow> detect_loop fails now vms (res\<lparr>or_detected := or_detected res + 1\<rparr>) tbl')"

definition detect_orphans :: "(string \<Rightarrow> bool) \<Rightarrow> int \<Rightarrow> vm_table \<Rightarrow> orphan_result \<times> vm_table" where
  "detect_orphans fails now tbl =
     detect_loop fails now (list_orphaned_vms now tbl)
       \<lparr>or_detected = 0, or_destroyed = 0, or_errors = 0\<rparr> tbl"

text \<open>The state of the second pass: the counters, the table, and the requests made to the hypervisor.\<close>

fun cleanup_loop ::
  "(string \<Rightarrow> bool) \<Rightarrow> (string \<Rightarrow> bool) \<Rightarrow> int \<Rightarrow> tracked_vm list \<Rightarrow> orphan_result \<Rightarrow> vm_table
   \<Rightarrow> string list \<Rightarrow> orphan_result \<times> vm_table \<times> string list" where
  "cleanup_loop fails refuses now [] res tbl reqs = (res, tbl, reqs)"
| "cleanup_loop fails refuses now (vm # vms) res tbl reqs =
     (let marked = (if fails (tv_id vm) then Inl Vm_failed else mark_vm_destroyed (tv_id vm) now tbl);
          failed = res\<lparr>or_errors := or_errors res + 1\<rparr>;
          gone = res\<lparr>or_destroyed := or_destroyed res + 1\<rparr>
      in if tv_status vm \<noteq> vm_orphaned then cleanup_loop fails refuses now vms res tbl reqs
         else if tv_hypervisor_id vm = []
         then (case marked of
                 Inl e \<Rightarrow> cleanup_loop fails refuses now vms failed tbl reqs
               | Inr tbl' \<Rightarrow> cleanup_loop fails refuses now vms gone tbl' reqs)
         else let reqs' = reqs @ [tv_hypervisor_id vm]
              in if refuses (tv_hypervisor_id vm)
                 then cleanup_loop fails refuses now vms failed tbl reqs'
                 else (case marked of
                         Inl e \<Rightarrow> cleanup_loop fails refuses now vms failed tbl reqs'
                       | Inr tbl' \<Rightarrow> cleanup_loop fails refuses now vms gone tbl' reqs'))"

text \<open>
  \<open>CleanupOrphans\<close>; \<open>refuses\<close> is none when no hypervisor is configured. \<open>fails1\<close> and \<open>fails2\<close> are the
  markings that fail in the two passes.
\<close>

definition cleanup_orphans ::
  "(string \<Rightarrow> bool) \<Rightarrow> (string \<Rightarrow> bool) \<Rightarrow> (string \<Rightarrow> bool) option \<Rightarrow> int \<Rightarrow> int \<Rightarrow> vm_table
   \<Rightarrow> orphan_result \<times> vm_table \<times> string list" where
  "cleanup_orphans fails1 fails2 refuses now1 now2 tbl =
     (case detect_orphans fails1 now1 tbl of
        (res, tbl1) \<Rightarrow>
          (case refuses of
             None \<Rightarrow> (res, tbl1, [])
           | Some rf \<Rightarrow> cleanup_loop fails2 rf now2 (list_orphaned_vms now2 tbl1) res tbl1 []))"

text \<open>Destroying one tracked machine on request: status code, table and requests.\<close>

definition handle_hypervisor_destroy_vm ::
  "(string \<Rightarrow> bool) \<Rightarrow> (string \<Rightarrow> bool) option \<Rightarrow> string \<Rightarrow> int \<Rightarrow> vm_table
   \<Rightarrow> nat \<times> vm_table \<times> string list" where
  "handle_hypervisor_destroy_vm fails refuses i now tbl =
     (if i = [] then (500, tbl, [])
      else case row_of tv_id i tbl of
             None \<Rightarrow> (404, tbl, [])
           | Some vm \<Rightarrow>
               let reqs = (if tv_hypervisor_id vm \<noteq> [] \<and> refuses \<noteq> None then [tv_hypervisor_id vm] else [])
               in if list_ex (case refuses of None \<Rightarrow> (\<lambda>_. False) | Some rf \<Rightarrow> rf) reqs
                  then (500, tbl, reqs)
                  else case (if fails i then Inl Vm_failed else mark_vm_destroyed i now tbl) of
                         Inl e \<Rightarrow> (500, tbl, reqs)
                       | Inr tbl' \<Rightarrow> (200, tbl', reqs))"

section \<open>Lemmas on names\<close>

definition vm_name_char :: "char \<Rightarrow> bool" where
  "vm_name_char c = (name_char c \<or> c = hyphen)"

lemma set_trim_right_by: "set (trim_right_by P s) \<subseteq> set s"
  by (auto simp: trim_right_by_def dest!: set_dropWhileD)

lemma length_trim_right_by: "length (trim_right_by P s) \<le> length s"
  by (metis trim_right_by_def length_dropWhile_le length_rev)

lemma replace_runs_chars: "list_all vm_name_char (replace_runs b s)"
  by (induction b s rule: replace_runs.induct) (auto simp: vm_name_char_def)

lemma sanitise_chars: "list_all vm_name_char (sanitise_component s)"
  using replace_runs_chars [of False "to_lower s"] set_trim_right_by
  unfolding sanitise_component_def trim_hyphens_def list_all_iff
  by (meson set_dropWhileD subsetD)

lemma decimal_chars: "0 \<le> n \<Longrightarrow> list_all vm_name_char (decimal n)"
  using decimal_digits [of n]
  by (auto simp: all_digits_def list_all_iff vm_name_char_def name_char_def)

lemma kept_cookbook_chars: "list_all vm_name_char cb \<Longrightarrow> list_all vm_name_char (kept_cookbook m cb)"
  using set_trim_right_by by (fastforce simp: kept_cookbook_def list_all_iff Let_def dest: in_set_takeD)

lemma kept_cookbook_length: "length (kept_cookbook m cb) \<le> max 1 (80 - m)"
  using length_trim_right_by [of "\<lambda>c. c = hyphen" "take (max 1 (80 - m)) cb"]
  by (auto simp: kept_cookbook_def Let_def max_vm_name_len_def max_def split: if_splits)

lemma kept_cookbook_whole: "length cb + m \<le> 80 \<Longrightarrow> kept_cookbook m cb = cb"
  by (auto simp: kept_cookbook_def Let_def max_vm_name_len_def)

lemma generated_name_chars: "0 \<le> ts \<Longrightarrow> list_all vm_name_char (generate_vm_name p cb su pl ts)"
  by (simp add: generate_vm_name_def Let_def sanitise_chars decimal_chars kept_cookbook_chars)
     (simp add: vm_name_char_def)

lemma split_last_hyphen_append:
  assumes "hyphen \<notin> set t"
  shows "split_last_hyphen (s @ hyphen # t) = Some (s, t)"
proof -
  have "takeWhile (\<lambda>c. c \<noteq> hyphen) (rev t @ hyphen # rev s) = rev t"
    using assms by (subst takeWhile_append2) auto
  then show ?thesis by (simp add: split_last_hyphen_def Let_def)
qed

lemma split_first_hyphen_append: "hyphen \<notin> set s \<Longrightarrow> split_first_hyphen (s @ hyphen # t) = (s, t)"
  by (induction s) (auto simp: split_first_hyphen_def)

lemma sanitise_cmm: "sanitise_component ''cmm'' = ''cmm''"
  by code_simp

lemma name_prefix_eq:
  assumes "p = [] \<or> sanitise_component p \<noteq> []"
  shows "sanitise_component (if p = [] then ''cmm'' else p) = name_prefix p"
proof -
  have "sanitise_component [] = []" by code_simp
  then show ?thesis using assms by (auto simp: name_prefix_def sanitise_cmm)
qed

lemma decimal_no_hyphen: "0 \<le> n \<Longrightarrow> hyphen \<notin> set (decimal n)"
  using decimal_digits [of n] digit_not_hyphen by (auto simp: all_digits_def list_all_iff hyphen_def)

lemma parse_generated:
  assumes "10 ^ 9 \<le> ts" "ts < 2 ^ 63" "p = [] \<or> sanitise_component p \<noteq> []"
  shows "parse_vm_name (generate_vm_name p cb su pl ts) p =
           (case split_first_hyphen
                  (kept_cookbook (name_overhead (name_prefix p) (sanitise_component su) (sanitise_component pl) (decimal ts)) (sanitise_component cb)
                   @ hyphen # sanitise_component su @ hyphen # sanitise_component pl) of
              (a, rest) \<Rightarrow>
                (case split_first_hyphen rest of
                   (b, c) \<Rightarrow> Some \<lparr>vn_prefix = name_prefix p, vn_cookbook = a, vn_suite = b,
                                  vn_platform = c, vn_timestamp = ts\<rparr>))"
proof -
  let ?m = "kept_cookbook (name_overhead (name_prefix p) (sanitise_component su) (sanitise_component pl) (decimal ts)) (sanitise_component cb)
            @ hyphen # sanitise_component su @ hyphen # sanitise_component pl"
  have g: "generate_vm_name p cb su pl ts = (name_prefix p @ [hyphen]) @ ?m @ hyphen # decimal ts"
    by (simp add: generate_vm_name_def Let_def name_prefix_eq [OF assms(3)])
  have s: "split_last_hyphen (?m @ hyphen # decimal ts) = Some (?m, decimal ts)"
    using assms(1) by (intro split_last_hyphen_append decimal_no_hyphen) simp
  have l: "\<not> length (decimal ts) < 10" and v: "parse_int64 (decimal ts) = Some ts"
    using assms decimal_length [of ts 9] parse_decimal [of ts] by simp_all
  have pre: "prefix (name_prefix p @ [hyphen]) (generate_vm_name p cb su pl ts)"
    and dr: "drop (length (name_prefix p) + 1) (generate_vm_name p cb su pl ts) = ?m @ hyphen # decimal ts"
    unfolding g by simp_all
  show ?thesis
    unfolding parse_vm_name_def Let_def dr s using pre l v by (simp split: prod.split)
qed

lemma generated_timestamp:
  assumes "10 ^ 9 \<le> ts" "ts < 2 ^ 63" "p = [] \<or> sanitise_component p \<noteq> []"
  shows "map_option vn_timestamp (parse_vm_name (generate_vm_name p cb su pl ts) p) = Some ts"
  by (simp add: parse_generated [OF assms] split: prod.split)

section \<open>Properties of names\<close>

text \<open>C33: Reading a generated name with the same prefix gives back the time it was made, and the
  cookbook, suite and platform as they were sanitised, when neither of the first two contains a
  hyphen and the name fits in 80 characters. The hypotheses are a clock after 2001 and a prefix that
  does not vanish when it is sanitised.\<close>

theorem vm_name_roundtrip:
  assumes "10 ^ 9 \<le> ts" and "ts < 2 ^ 63" and "p = [] \<or> sanitise_component p \<noteq> []"
  shows "map_option vn_timestamp (parse_vm_name (generate_vm_name p cb su pl ts) p) = Some ts
    \<and> (hyphen \<notin> set (sanitise_component cb) \<and> hyphen \<notin> set (sanitise_component su)
       \<and> length (sanitise_component cb)
         + name_overhead (name_prefix p) (sanitise_component su) (sanitise_component pl) (decimal ts) \<le> 80
       \<longrightarrow> parse_vm_name (generate_vm_name p cb su pl ts) p =
             Some \<lparr>vn_prefix = name_prefix p, vn_cookbook = sanitise_component cb,
                   vn_suite = sanitise_component su, vn_platform = sanitise_component pl,
                   vn_timestamp = ts\<rparr>)"
  using assms
  by (auto simp: generated_timestamp parse_generated split_first_hyphen_append kept_cookbook_whole split: prod.split)

text \<open>The underscore of this cookbook becomes a hyphen, so only the platform may have one.\<close>

theorem vm_name_roundtrip_witness:
  "parse_vm_name (generate_vm_name ''CMM'' ''nginx'' ''Default'' ''ubuntu 22.04'' 1736933400) ''CMM'' =
     Some \<lparr>vn_prefix = ''cmm'', vn_cookbook = ''nginx'', vn_suite = ''default'',
           vn_platform = ''ubuntu-22-04'', vn_timestamp = 1736933400\<rparr>"
proof -
  have s: "sanitise_component ''CMM'' = ''cmm''" "name_prefix ''CMM'' = ''cmm''"
    "sanitise_component ''nginx'' = ''nginx''" "sanitise_component ''Default'' = ''default''"
    "sanitise_component ''ubuntu 22.04'' = ''ubuntu-22-04''" "decimal 1736933400 = ''1736933400''"
    by code_simp+
  show ?thesis
    using vm_name_roundtrip [of 1736933400 "''CMM''" "''nginx''" "''Default''" "''ubuntu 22.04''"]
    by (simp add: s hyphen_def name_overhead_def)
qed

text \<open>A name consists of lower-case letters, digits and hyphens only, and it is at most 80 characters
  long, unless the parts other than the cookbook take 80 by themselves: only the cookbook is
  shortened, so that a long suite and platform give a name longer than a hypervisor takes.\<close>

theorem vm_name_length:
  assumes "0 \<le> ts"
  shows "list_all vm_name_char (generate_vm_name p cb su pl ts)
    \<and> length (generate_vm_name p cb su pl ts)
        \<le> max 80 (name_overhead (sanitise_component (if p = [] then ''cmm'' else p)) (sanitise_component su)
                    (sanitise_component pl) (decimal ts) + 1)
    \<and> 80 < length (generate_vm_name [] ''nginx'' (replicate 40 (CHR ''s'')) (replicate 40 (CHR ''p'')) 1736933400)"
proof (intro conjI)
  show "list_all vm_name_char (generate_vm_name p cb su pl ts)"
    using assms by (rule generated_name_chars)
  show "length (generate_vm_name p cb su pl ts)
        \<le> max 80 (name_overhead (sanitise_component (if p = [] then ''cmm'' else p)) (sanitise_component su)
                    (sanitise_component pl) (decimal ts) + 1)"
    using kept_cookbook_length
      [of "name_overhead (sanitise_component (if p = [] then ''cmm'' else p)) (sanitise_component su)
             (sanitise_component pl) (decimal ts)" "sanitise_component cb"]
    by (simp add: generate_vm_name_def Let_def name_overhead_def)
  show "80 < length (generate_vm_name [] ''nginx'' (replicate 40 (CHR ''s'')) (replicate 40 (CHR ''p'')) 1736933400)"
    by code_simp
qed

theorem vm_name_length_witness:
  "length (generate_vm_name ''cmm'' (replicate 100 (CHR ''x'')) ''default'' ''ubuntu'' 1736933400) \<le> 80"
proof -
  have s: "sanitise_component ''default'' = ''default''" "sanitise_component ''ubuntu'' = ''ubuntu''"
     "decimal 1736933400 = ''1736933400''"
    by code_simp+
  show ?thesis
    using vm_name_length [of 1736933400 "''cmm''" "replicate 100 (CHR ''x'')" "''default''" "''ubuntu''"]
    by (simp add: sanitise_cmm s name_overhead_def)
qed

section \<open>Lemmas on the sweep\<close>

lemma sd_vm_sweep_one [simp]: "sd_vm (sweep_one refuses p th dry now vm) = vm"
  by (simp add: sweep_one_def split: option.split)

definition old_enough :: "string \<Rightarrow> int \<Rightarrow> int \<Rightarrow> managed_vm \<Rightarrow> bool" where
  "old_enough p th now vm = (case vm_age vm p now of None \<Rightarrow> False | Some age \<Rightarrow> th \<le> age)"

lemma asked_iff:
  "(sd_action (sweep_one refuses p th dry now vm) = Destroyed
    \<or> sd_action (sweep_one refuses p th dry now vm) = Destroy_error) \<longleftrightarrow> \<not> dry \<and> old_enough p th now vm"
  by (auto simp: sweep_one_def old_enough_def split: option.split)

lemma destroy_requests_sweep:
  "destroy_requests (sweep_orphan_vms refuses vms p th dry now) =
     (if dry then [] else map mv_id (filter (old_enough p th now) (list_managed_vms p vms)))"
  by (simp add: destroy_requests_def sweep_orphan_vms_def Let_def filter_map comp_def asked_iff)

lemma asked_of_one:
  assumes "distinct (map mv_id vms)" "vm \<in> set vms"
  shows "mv_id vm \<in> set (destroy_requests (sweep_orphan_vms refuses vms p th dry now))
           \<longleftrightarrow> \<not> dry \<and> matches_kitchen_prefix (mv_name vm) p \<and> old_enough p th now vm"
proof -
  have "mv_id vm \<in> mv_id ` {v \<in> set vms. P v} \<longleftrightarrow> P vm" for P
    using assms by (fastforce simp: distinct_map dest: inj_onD)
  from this [of "\<lambda>v. matches_kitchen_prefix (mv_name v) p \<and> old_enough p th now v"] show ?thesis
    by (simp add: destroy_requests_sweep list_managed_vms_def conj_ac)
qed

lemma prefix_generated:
  "p \<noteq> [] \<Longrightarrow> prefix (sanitise_component p @ [hyphen]) (generate_vm_name p cb su pl ts)"
  by (simp add: generate_vm_name_def Let_def)

lemma generated_age:
  assumes "10 ^ 9 \<le> ts" "p = [] \<or> sanitise_component p \<noteq> []"
    and "mv_name vm = generate_vm_name p cb su pl ts"
    and "ts \<le> now" "now < ts + 9 * 10 ^ 9" "now < 2 ^ 63"
  shows "vm_age vm p now = Some ((now - ts) * second_ns)"
proof -
  have "map_option vn_timestamp (parse_vm_name (mv_name vm) p) = Some ts"
    using generated_timestamp [of ts p] assms by simp
  moreover have "int64 (now - ts) = now - ts" "int64 ((now - ts) * second_ns) = (now - ts) * second_ns"
    using assms by (simp_all add: int64_id second_ns_def)
  ultimately show ?thesis by (auto simp: vm_age_def)
qed

section \<open>Properties of the sweep\<close>

text \<open>C32: A machine whose name the program made is asked to be destroyed by a sweep exactly when the sweep is
  not a dry run, the machine is at least as old as the threshold, and the name begins with the prefix as it is
  configured (or with that of Test Kitchen), whatever else the hypervisor lists and whichever requests fail.
  The name does begin with it when sanitising leaves the prefix as it is; a prefix that sanitising changes is
  one under which machines can be left for ever. The hypotheses are that sanitising leaves something of the
  prefix, that ids are distinct, and a clock that has not gone back and is within 285 years of the name.\<close>

theorem sweep_destroys_old_ones_only:
  assumes "p = [] \<or> sanitise_component p \<noteq> []"
    and "distinct (map mv_id vms)" and "vm \<in> set vms"
    and "mv_name vm = generate_vm_name p cb su pl ts"
    and "10 ^ 9 \<le> ts" and "ts \<le> now" and "now < ts + 9 * 10 ^ 9" and "now < 2 ^ 63"
  shows "(mv_id vm \<in> set (destroy_requests (sweep_orphan_vms refuses vms p th dry now))
           \<longleftrightarrow> \<not> dry \<and> th \<le> (now - ts) * second_ns
               \<and> (prefix p (mv_name vm) \<or> prefix kitchen_prefix (mv_name vm)))
         \<and> (sanitise_component p = p \<longrightarrow> prefix p (mv_name vm))"
proof -
  have "vm_age vm p now = Some ((now - ts) * second_ns)"
    by (rule generated_age) (use assms in simp_all)
  moreover have "prefix p (mv_name vm)" if "sanitise_component p = p"
    using prefix_generated [of p cb su pl ts] assms(4) that by (cases "p = []") (auto dest: append_prefixD)
  ultimately show ?thesis
    by (auto simp: asked_of_one [OF assms(2,3)] matches_kitchen_prefix_def old_enough_def)
qed

theorem sweep_destroys_old_ones_only_witness:
  "mv_id \<lparr>mv_id = ''7'', mv_name = generate_vm_name ''cmm'' ''nginx'' ''default'' ''ubuntu'' 1736933400,
          mv_power_state = ''poweredOn'', mv_uptime = 0\<rparr>
     \<in> set (destroy_requests
          (sweep_orphan_vms (\<lambda>_. False)
             [\<lparr>mv_id = ''7'', mv_name = generate_vm_name ''cmm'' ''nginx'' ''default'' ''ubuntu'' 1736933400,
               mv_power_state = ''poweredOn'', mv_uptime = 0\<rparr>]
             ''cmm'' (effective_orphan_sweep_age 0 0) False 1736937000))"
  using sweep_destroys_old_ones_only
    [of "''cmm''" "[\<lparr>mv_id = ''7'', mv_name = generate_vm_name ''cmm'' ''nginx'' ''default'' ''ubuntu'' 1736933400,
               mv_power_state = ''poweredOn'', mv_uptime = 0\<rparr>]"
        "\<lparr>mv_id = ''7'', mv_name = generate_vm_name ''cmm'' ''nginx'' ''default'' ''ubuntu'' 1736933400,
               mv_power_state = ''poweredOn'', mv_uptime = 0\<rparr>"
        "''nginx''" "''default''" "''ubuntu''" 1736933400 1736937000]
  by (simp add: sanitise_cmm effective_orphan_sweep_age_def effective_timeout_minutes_def minute_dur_def
      second_ns_def int64_id)

text \<open>When the configured prefix has a character that sanitising changes, such as a capital letter, the
  inventory never lists a machine the program has named with it, so no sweep destroys one, however
  old: the names begin with the sanitised prefix and the inventory compares with the raw one. Only
  names that begin with the word kitchen and a hyphen are listed without regard to the prefix.\<close>

theorem unsanitised_prefix_is_never_swept:
  assumes "list_ex (\<lambda>c. \<not> vm_name_char c) p" and "0 \<le> ts"
    and "distinct (map mv_id vms)" and "vm \<in> set vms"
    and "mv_name vm = generate_vm_name p cb su pl ts" and "\<not> prefix kitchen_prefix (mv_name vm)"
  shows "mv_id vm \<notin> set (destroy_requests (sweep_orphan_vms refuses vms p th dry now))"
proof -
  have "\<not> prefix p (mv_name vm)"
    using assms(1,5) generated_name_chars [OF assms(2), of p cb su pl]
    by (metis list_all_iff list_ex_iff set_mono_prefix subsetD)
  then show ?thesis
    using assms(1,6) by (auto simp: asked_of_one [OF assms(3,4)] matches_kitchen_prefix_def)
qed

theorem unsanitised_prefix_is_never_swept_witness:
  "''7'' \<notin> set (destroy_requests
     (sweep_orphan_vms (\<lambda>_. False)
        [\<lparr>mv_id = ''7'', mv_name = generate_vm_name ''CMM'' ''nginx'' ''default'' ''ubuntu'' 1736933400,
          mv_power_state = ''poweredOn'', mv_uptime = 0\<rparr>] ''CMM'' 1 False 1999999999))"
proof -
  have "\<not> prefix kitchen_prefix (generate_vm_name ''CMM'' ''nginx'' ''default'' ''ubuntu'' 1736933400)"
    "list_ex (\<lambda>c. \<not> vm_name_char c) ''CMM''"
    by code_simp+
  then show ?thesis
    using unsanitised_prefix_is_never_swept [of "''CMM''" 1736933400
      "[\<lparr>mv_id = ''7'', mv_name = generate_vm_name ''CMM'' ''nginx'' ''default'' ''ubuntu'' 1736933400,
          mv_power_state = ''poweredOn'', mv_uptime = 0\<rparr>]"
      "\<lparr>mv_id = ''7'', mv_name = generate_vm_name ''CMM'' ''nginx'' ''default'' ''ubuntu'' 1736933400,
          mv_power_state = ''poweredOn'', mv_uptime = 0\<rparr>" "''nginx''" "''default''" "''ubuntu''"]
    by simp
qed

text \<open>The age of a machine wraps around: one that somebody named by date, which the prefix lists, has
  a positive age of many years as soon as it exists, and the first sweep destroys it.\<close>

theorem dated_name_is_swept_at_once:
  "vm_age \<lparr>mv_id = ''9'', mv_name = ''cmm-build-20250115093000'', mv_power_state = ''poweredOn'', mv_uptime = 0\<rparr>
     ''cmm'' 1736933400 = Some 6146833333087674368
   \<and> destroy_requests (sweep_orphan_vms (\<lambda>_. False)
       [\<lparr>mv_id = ''9'', mv_name = ''cmm-build-20250115093000'', mv_power_state = ''poweredOn'', mv_uptime = 0\<rparr>]
       ''cmm'' (effective_orphan_sweep_age 0 0) False 1736933400) = [''9'']"
  by code_simp

section \<open>Lemmas on the orphans\<close>

definition mark :: "int \<Rightarrow> tracked_vm \<Rightarrow> tracked_vm" where
  "mark now r = r\<lparr>tv_status := vm_orphaned, tv_updated_at := now\<rparr>"

lemma mark_vm_orphaned_mark:
  "i \<noteq> [] \<Longrightarrow> i \<in> tv_id ` set tbl
     \<Longrightarrow> mark_vm_orphaned i now tbl = Inr (update_where (\<lambda>r. tv_id r = i) (mark now) tbl)"
  by (auto simp: mark_vm_orphaned_def update_vm_def mark_def [abs_def] list_ex_iff)

lemma detect_loop_eq:
  "[] \<notin> set (map tv_id vms) \<Longrightarrow> set (map tv_id vms) \<subseteq> set (map tv_id tbl)
    \<Longrightarrow> detect_loop fails now vms res tbl =
         (res\<lparr>or_detected := or_detected res + length (filter (\<lambda>v. \<not> fails (tv_id v)) vms),
              or_errors := or_errors res + length (filter (\<lambda>v. fails (tv_id v)) vms)\<rparr>,
          map (\<lambda>r. if tv_id r \<in> set (map tv_id vms) \<and> \<not> fails (tv_id r) then mark now r else r) tbl)"
proof (induction vms arbitrary: res tbl)
  case (Cons v vms)
  have ids: "map tv_id (update_where (\<lambda>r. tv_id r = tv_id v) (mark now) tbl) = map tv_id tbl"
    by (rule map_update_where) (simp add: mark_def)
  have eq: "map (\<lambda>r. if tv_id r \<in> set (map tv_id vms) \<and> \<not> fails (tv_id r) then mark now r else r)
              (update_where (\<lambda>r. tv_id r = tv_id v) (mark now) tbl)
            = map (\<lambda>r. if tv_id r \<in> set (map tv_id (v # vms)) \<and> \<not> fails (tv_id r) then mark now r else r) tbl"
    if "\<not> fails (tv_id v)"
    using that by (auto simp: update_where_def mark_def)
  have eq': "map (\<lambda>r. if tv_id r \<in> set (map tv_id vms) \<and> \<not> fails (tv_id r) then mark now r else r) tbl
            = map (\<lambda>r. if tv_id r \<in> set (map tv_id (v # vms)) \<and> \<not> fails (tv_id r) then mark now r else r) tbl"
    if "fails (tv_id v)"
    using that by auto
  have "tv_id v \<noteq> []" "tv_id v \<in> tv_id ` set tbl" using Cons.prems by auto
  then have m: "mark_vm_orphaned (tv_id v) now tbl = Inr (update_where (\<lambda>r. tv_id r = tv_id v) (mark now) tbl)"
    by (rule mark_vm_orphaned_mark)
  show ?case
  proof (cases "fails (tv_id v)")
    case True
    then show ?thesis
      using Cons.IH [of tbl "res\<lparr>or_errors := or_errors res + 1\<rparr>"] Cons.prems eq' by simp
  next
    case False
    then show ?thesis
      using Cons.IH [of "update_where (\<lambda>r. tv_id r = tv_id v) (mark now) tbl"
                        "res\<lparr>or_detected := or_detected res + 1\<rparr>"] Cons.prems eq [OF False]
      by (simp add: m ids)
  qed
qed simp

lemma cleanup_loop_skips:
  "list_all (\<lambda>v. tv_status v \<noteq> vm_orphaned) vms
    \<Longrightarrow> cleanup_loop fails refuses now vms res tbl reqs = (res, tbl, reqs)"
  by (induction vms) simp_all

lemma listed_not_orphaned: "list_all (\<lambda>v. tv_status v \<noteq> vm_orphaned) (list_orphaned_vms now tbl)"
  by (auto simp: list_orphaned_vms_def overdue_def list_all_iff)

lemma cleanup_orphans_eq:
  "cleanup_orphans fails1 fails2 refuses now1 now2 tbl =
     (fst (detect_orphans fails1 now1 tbl), snd (detect_orphans fails1 now1 tbl), [])"
  by (simp add: cleanup_orphans_def cleanup_loop_skips listed_not_orphaned split: prod.split option.split)

lemma detect_orphans_eq:
  assumes "distinct (map tv_id tbl)" "[] \<notin> set (map tv_id tbl)"
  shows "detect_orphans fails now tbl =
     (\<lparr>or_detected = length (filter (\<lambda>v. overdue now v \<and> \<not> fails (tv_id v)) tbl), or_destroyed = 0,
       or_errors = length (filter (\<lambda>v. overdue now v \<and> fails (tv_id v)) tbl)\<rparr>,
      map (\<lambda>r. if overdue now r \<and> \<not> fails (tv_id r) then mark now r else r) tbl)"
proof -
  have "tv_id r \<in> set (map tv_id (list_orphaned_vms now tbl)) \<longleftrightarrow> overdue now r" if "r \<in> set tbl" for r
    using assms(1) that by (fastforce simp: list_orphaned_vms_def distinct_map dest: inj_onD)
  moreover have "length (filter P (list_orphaned_vms now tbl)) = length (filter (\<lambda>v. overdue now v \<and> P v) tbl)" for P
    by (simp add: list_orphaned_vms_def filter_sort conj_commute)
  ultimately show ?thesis
    unfolding detect_orphans_def using assms(2)
    by (subst detect_loop_eq) (auto simp: list_orphaned_vms_def)
qed

section \<open>Properties of the clean-up\<close>

text \<open>The clean-up of orphans marks every overdue machine it can as orphaned and counts it, but it
  destroys none and asks the hypervisor for nothing, whatever the table holds: its second pass looks
  for machines marked as orphaned in a list that leaves them out.\<close>

theorem cleanup_destroys_nothing:
  assumes "distinct (map tv_id tbl)" and "[] \<notin> set (map tv_id tbl)"
  shows "cleanup_orphans fails1 fails2 refuses now1 now2 tbl =
     (\<lparr>or_detected = length (filter (\<lambda>v. overdue now1 v \<and> \<not> fails1 (tv_id v)) tbl), or_destroyed = 0,
       or_errors = length (filter (\<lambda>v. overdue now1 v \<and> fails1 (tv_id v)) tbl)\<rparr>,
      map (\<lambda>r. if overdue now1 r \<and> \<not> fails1 (tv_id r)
               then r\<lparr>tv_status := vm_orphaned, tv_updated_at := now1\<rparr> else r) tbl,
      [])"
  by (simp add: cleanup_orphans_eq detect_orphans_eq [OF assms] mark_def)

definition late_vm :: tracked_vm where
  "late_vm = \<lparr>tv_id = ''a'', tv_name = ''cmm-nginx-default-ubuntu-1736933400'', tv_hypervisor_id = ''101'',
     tv_cookbook = ''nginx'', tv_suite = ''default'', tv_platform = ''ubuntu'', tv_batch_id = [],
     tv_status = vm_running, tv_created_at = 1736933400, tv_expected_destroy_at = Some 1736937000,
     tv_actual_destroy_at = None, tv_updated_at = 1736933400\<rparr>"

theorem cleanup_destroys_nothing_witness:
  "cleanup_orphans (\<lambda>_. False) (\<lambda>_. False) (Some (\<lambda>_. False)) 1736940000 1736940001 [late_vm] =
     (\<lparr>or_detected = 1, or_destroyed = 0, or_errors = 0\<rparr>,
      [late_vm\<lparr>tv_status := vm_orphaned, tv_updated_at := 1736940000\<rparr>], [])"
  using cleanup_destroys_nothing [of "[late_vm]" "\<lambda>_. False" "\<lambda>_. False" "Some (\<lambda>_. False)" 1736940000 1736940001]
  by (simp add: late_vm_def overdue_def vm_running_def vm_destroyed_def vm_orphaned_def)

end
