(* ===== verification/Ownership_Store.thy ===== *)
theory Ownership_Store
  imports Prelude Go_Json
begin

text \<open>
  The tables behind ownership and their operations: \<open>internal/datastore/owners.go\<close>,
  \<open>ownership_assignments.go\<close>, \<open>owner_aliases.go\<close>, \<open>owner_merge.go\<close>, \<open>ownership_import_clear.go\<close> and
  \<open>ownership_audit_log.go\<close>, with the constraints the migrations leave in place (0001, 0009, 0030,
  0058). A text column that is NULL for an empty string is the empty string, except the organisation
  of an assignment, on which queries depend; times are integers and \<open>now\<close> is the time of the statement;
  the numbers and UUIDs the database generates are drawn from one counter. A call that fails for
  another reason than its arguments and the constraints is not modelled.
\<close>

section \<open>Constants and constraints\<close>

definition source_manual :: string where "source_manual = ''manual''"
definition source_auto_rule :: string where "source_auto_rule = ''auto_rule''"
definition source_import :: string where "source_import = ''import''"
definition conf_definitive :: string where "conf_definitive = ''definitive''"
definition conf_inferred :: string where "conf_inferred = ''inferred''"
definition entity_node :: string where "entity_node = ''node''"
definition entity_cookbook :: string where "entity_cookbook = ''cookbook''"
definition entity_git_repo :: string where "entity_git_repo = ''git_repo''"
definition entity_role :: string where "entity_role = ''role''"
definition entity_policy :: string where "entity_policy = ''policy''"
definition alias_custom :: string where "alias_custom = ''custom''"
definition alias_email :: string where "alias_email = ''email''"

lemmas ownership_constants =
  source_manual_def source_auto_rule_def source_import_def conf_definitive_def conf_inferred_def
  entity_node_def entity_cookbook_def entity_git_repo_def entity_role_def entity_policy_def
  alias_custom_def alias_email_def

lemma ownership_constants_distinct [simp]:
  "source_manual \<noteq> source_auto_rule" "source_auto_rule \<noteq> source_manual"
  "source_manual \<noteq> source_import" "source_import \<noteq> source_manual"
  "source_auto_rule \<noteq> source_import" "source_import \<noteq> source_auto_rule"
  "entity_node \<noteq> entity_cookbook" "entity_cookbook \<noteq> entity_node"
  "entity_git_repo \<noteq> entity_node" "entity_node \<noteq> entity_git_repo"
  "entity_git_repo \<noteq> entity_cookbook" "entity_cookbook \<noteq> entity_git_repo"
  "entity_policy \<noteq> entity_node" "entity_node \<noteq> entity_policy"
  "entity_role \<noteq> entity_node" "entity_node \<noteq> entity_role"
  by (simp_all add: ownership_constants)

definition slug_char :: "char \<Rightarrow> bool" where
  "slug_char c =
     (is_digit c \<or> (97 \<le> (of_char c :: nat) \<and> (of_char c :: nat) \<le> 122)
      \<or> c = CHR ''.'' \<or> c = CHR ''_'' \<or> c = CHR ''-'')"

definition leading_punctuation :: "char \<Rightarrow> bool" where
  "leading_punctuation c = (c = CHR ''.'' \<or> c = CHR ''_'' \<or> c = CHR ''-'')"

text \<open>\<open>^[a-z0-9][a-z0-9._-]*$\<close>\<close>

definition owner_name_ok :: "string \<Rightarrow> bool" where
  "owner_name_ok s = (s \<noteq> [] \<and> list_all slug_char s \<and> \<not> leading_punctuation (hd s))"

definition owner_type_ok :: "string \<Rightarrow> bool" where
  "owner_type_ok t = (t \<in> set [''team'', ''individual'', ''business_unit'', ''cost_centre'', ''custom''])"

definition entity_type_ok :: "string \<Rightarrow> bool" where
  "entity_type_ok t =
     (t = entity_node \<or> t = entity_cookbook \<or> t = entity_git_repo \<or> t = entity_role \<or> t = entity_policy)"

definition source_ok :: "string \<Rightarrow> bool" where
  "source_ok s = (s = source_manual \<or> s = source_auto_rule \<or> s = source_import)"

definition confidence_ok :: "string \<Rightarrow> bool" where
  "confidence_ok c = (c = conf_definitive \<or> c = conf_inferred)"

definition alias_type_ok :: "string \<Rightarrow> bool" where
  "alias_type_ok t = (t \<in> set [''email'', ''git_name'', ''git_email'', ''username'', ''custom''])"

section \<open>Rows\<close>

record owner =
  ow_name :: string
  ow_display_name :: string
  ow_contact_email :: string
  ow_contact_channel :: string
  ow_type :: string
  ow_metadata :: "json option"
  ow_created_at :: int
  ow_updated_at :: int

record owner_params =
  op_name :: string
  op_display_name :: string
  op_contact_email :: string
  op_contact_channel :: string
  op_type :: string
  op_metadata :: "json option"

record owner_update =
  ou_display_name :: "string option"
  ou_contact_email :: "string option"
  ou_contact_channel :: "string option"
  ou_type :: "string option"
  ou_metadata :: "json option option"

record assignment =
  as_id :: int
  as_owner :: string
  as_entity_type :: string
  as_entity_key :: string
  as_org :: "string option"
  as_source :: string
  as_rule :: "string option"
  as_confidence :: string
  as_notes :: string
  as_created_at :: int
  as_updated_at :: int

record assignment_params =
  ap_owner :: string
  ap_entity_type :: string
  ap_entity_key :: string
  ap_org :: string
  ap_source :: string
  ap_rule :: string
  ap_confidence :: string
  ap_notes :: string

record owner_alias =
  al_id :: int
  al_owner :: string
  al_type :: string
  al_value :: string
  al_source :: string
  al_created_at :: int

record audit_entry =
  au_action :: string
  au_actor :: string
  au_owner :: string
  au_entity_type :: string
  au_entity_key :: string
  au_organisation :: string
  au_details :: json

record ownership_db =
  od_owners :: "owner list"
  od_assignments :: "assignment list"
  od_aliases :: "owner_alias list"
  od_audit :: "audit_entry list"
  od_next_id :: int

datatype own_error = Own_invalid | Own_exists | Own_missing | Own_failed

text \<open>\<open>nullStringPtr\<close>, and the expression the unique index and the queries compare organisations by.\<close>

definition null_string :: "string \<Rightarrow> string option" where
  "null_string s = (if s = [] then None else Some s)"

definition org_key :: "string option \<Rightarrow> string" where
  "org_key org = (case org of None \<Rightarrow> ''__none__'' | Some s \<Rightarrow> s)"

type_synonym entity = "string \<times> string \<times> string"

definition entity_of :: "assignment \<Rightarrow> entity" where
  "entity_of a = (as_entity_type a, as_entity_key a, org_key (as_org a))"

definition assignment_key :: "assignment \<Rightarrow> string \<times> entity" where
  "assignment_key a = (as_owner a, entity_of a)"

definition alias_key :: "owner_alias \<Rightarrow> string \<times> string" where
  "alias_key l = (al_type l, al_value l)"

definition owner_names :: "ownership_db \<Rightarrow> string list" where
  "owner_names db = map ow_name (od_owners db)"

section \<open>Owners\<close>

definition get_owner_by_name :: "string \<Rightarrow> ownership_db \<Rightarrow> owner option" where
  "get_owner_by_name name db = row_of ow_name name (od_owners db)"

definition insert_owner :: "owner_params \<Rightarrow> int \<Rightarrow> ownership_db \<Rightarrow> own_error + owner \<times> ownership_db" where
  "insert_owner p now db =
     (if op_name p = [] \<or> op_type p = [] then Inl Own_invalid
      else if \<not> owner_name_ok (op_name p) \<or> \<not> owner_type_ok (op_type p) then Inl Own_failed
      else if op_name p \<in> set (owner_names db) then Inl Own_exists
      else let o' = \<lparr>ow_name = op_name p, ow_display_name = op_display_name p,
                     ow_contact_email = op_contact_email p, ow_contact_channel = op_contact_channel p,
                     ow_type = op_type p, ow_metadata = op_metadata p,
                     ow_created_at = now, ow_updated_at = now\<rparr>
           in Inr (o', db\<lparr>od_owners := od_owners db @ [o']\<rparr>))"

definition set_field :: "'a option \<Rightarrow> 'a \<Rightarrow> 'a" where
  "set_field new old = (case new of None \<Rightarrow> old | Some x \<Rightarrow> x)"

definition updated_owner :: "owner_update \<Rightarrow> int \<Rightarrow> owner \<Rightarrow> owner" where
  "updated_owner u now r =
     r\<lparr>ow_display_name := set_field (ou_display_name u) (ow_display_name r),
       ow_contact_email := set_field (ou_contact_email u) (ow_contact_email r),
       ow_contact_channel := set_field (ou_contact_channel u) (ow_contact_channel r),
       ow_type := set_field (ou_type u) (ow_type r),
       ow_metadata := set_field (ou_metadata u) (ow_metadata r),
       ow_updated_at := now\<rparr>"

definition update_owner ::
  "string \<Rightarrow> owner_update \<Rightarrow> int \<Rightarrow> ownership_db \<Rightarrow> own_error + owner \<times> ownership_db" where
  "update_owner name u now db =
     (case get_owner_by_name name db of
        None \<Rightarrow> Inl Own_missing
      | Some r \<Rightarrow>
          if \<not> owner_type_ok (ow_type (updated_owner u now r)) then Inl Own_failed
          else Inr (updated_owner u now r,
                    db\<lparr>od_owners := update_where (\<lambda>r. ow_name r = name) (updated_owner u now) (od_owners db)\<rparr>))"

text \<open>Deleting an owner cascades to the assignments and the aliases.\<close>

definition delete_owner_row :: "string \<Rightarrow> ownership_db \<Rightarrow> ownership_db" where
  "delete_owner_row name db =
     db\<lparr>od_owners := delete_where (\<lambda>r. ow_name r = name) (od_owners db),
        od_assignments := delete_where (\<lambda>a. as_owner a = name) (od_assignments db),
        od_aliases := delete_where (\<lambda>l. al_owner l = name) (od_aliases db)\<rparr>"

definition delete_owner :: "string \<Rightarrow> ownership_db \<Rightarrow> own_error + nat \<times> ownership_db" where
  "delete_owner name db =
     (if name \<notin> set (owner_names db) then Inl Own_missing
      else Inr (length (filter (\<lambda>a. as_owner a = name) (od_assignments db)), delete_owner_row name db))"

definition count_assignments_by_owner :: "string \<Rightarrow> ownership_db \<Rightarrow> (string \<times> nat) list" where
  "count_assignments_by_owner name db =
     (let held = filter (\<lambda>a. as_owner a = name) (od_assignments db)
      in map (\<lambda>t. (t, length (filter (\<lambda>a. as_entity_type a = t) held)))
           (remdups (map as_entity_type held)))"

section \<open>Assignments\<close>

definition assignment_row :: "assignment_params \<Rightarrow> int \<Rightarrow> int \<Rightarrow> assignment" where
  "assignment_row p i now =
     \<lparr>as_id = i, as_owner = ap_owner p, as_entity_type = ap_entity_type p, as_entity_key = ap_entity_key p,
      as_org = null_string (ap_org p), as_source = ap_source p, as_rule = null_string (ap_rule p),
      as_confidence = ap_confidence p, as_notes = ap_notes p, as_created_at = now, as_updated_at = now\<rparr>"

definition insert_assignment ::
  "assignment_params \<Rightarrow> int \<Rightarrow> ownership_db \<Rightarrow> own_error + assignment \<times> ownership_db" where
  "insert_assignment p now db =
     (let a = assignment_row p (od_next_id db) now
      in if \<not> entity_type_ok (ap_entity_type p) \<or> \<not> source_ok (ap_source p) \<or> \<not> confidence_ok (ap_confidence p)
         then Inl Own_failed
         else if list_ex (\<lambda>b. assignment_key b = assignment_key a) (od_assignments db) then Inl Own_exists
         else if ap_owner p \<notin> set (owner_names db) then Inl Own_failed
         else Inr (a, db\<lparr>od_assignments := od_assignments db @ [a], od_next_id := od_next_id db + 1\<rparr>))"

definition get_assignment :: "int \<Rightarrow> ownership_db \<Rightarrow> assignment option" where
  "get_assignment i db = row_of as_id i (od_assignments db)"

definition delete_assignment :: "int \<Rightarrow> ownership_db \<Rightarrow> own_error + ownership_db" where
  "delete_assignment i db =
     (if i \<notin> set (map as_id (od_assignments db)) then Inl Own_missing
      else Inr (db\<lparr>od_assignments := delete_where (\<lambda>a. as_id a = i) (od_assignments db)\<rparr>))"

text \<open>One page of the assignments of an owner, newest first, with the number there are.\<close>

record assignment_filter =
  af_owner :: string
  af_entity_type :: string
  af_org :: string
  af_source :: string
  af_limit :: int
  af_offset :: int

definition in_filter :: "assignment_filter \<Rightarrow> assignment \<Rightarrow> bool" where
  "in_filter f a =
     (as_owner a = af_owner f
      \<and> (af_entity_type f = [] \<or> as_entity_type a = af_entity_type f)
      \<and> (af_org f = [] \<or> as_org a = Some (af_org f))
      \<and> (af_source f = [] \<or> as_source a = af_source f))"

definition list_assignments_by_owner :: "assignment_filter \<Rightarrow> ownership_db \<Rightarrow> assignment list \<times> nat" where
  "list_assignments_by_owner f db =
     (let found = filter (in_filter f) (od_assignments db);
          limit = (if af_limit f \<le> 0 then 25 else af_limit f);
          offset = (if af_offset f < 0 then 0 else af_offset f)
      in (take (nat limit) (drop (nat offset) (sort_key (\<lambda>a. - as_created_at a) found)), length found))"

definition list_owned_entity_keys :: "string \<Rightarrow> ownership_db \<Rightarrow> string list" where
  "list_owned_entity_keys et db =
     remdups (map as_entity_key (filter (\<lambda>a. as_entity_type a = et) (od_assignments db)))"

text \<open>\<open>LookupAssignmentOwnersByEntity\<close> for one key: the owner and the organisation of each assignment.\<close>

definition assignment_owners :: "string \<Rightarrow> string \<Rightarrow> ownership_db \<Rightarrow> (string \<times> string) list" where
  "assignment_owners et key db =
     (if et = [] then []
      else map (\<lambda>a. (as_owner a, case as_org a of None \<Rightarrow> [] | Some s \<Rightarrow> s))
             (filter (\<lambda>a. as_entity_type a = et \<and> as_entity_key a = key) (od_assignments db)))"

section \<open>Moving assignments\<close>

definition reassigned :: "string \<Rightarrow> int \<Rightarrow> assignment \<Rightarrow> assignment" where
  "reassigned into now b =
     b\<lparr>as_owner := into, as_source := source_manual, as_confidence := conf_definitive,
       as_rule := None, as_updated_at := now\<rparr>"

text \<open>The loop over the assignments to move, with the counts of those moved and those dropped.\<close>

fun reassign_loop ::
  "string \<Rightarrow> int \<Rightarrow> assignment list \<Rightarrow> assignment list \<Rightarrow> nat \<Rightarrow> nat \<Rightarrow> assignment list \<times> nat \<times> nat" where
  "reassign_loop into now [] tbl moved skipped = (tbl, moved, skipped)"
| "reassign_loop into now (a # rest) tbl moved skipped =
     (if list_ex (\<lambda>b. as_owner b = into \<and> entity_of b = entity_of a) tbl
      then reassign_loop into now rest (delete_where (\<lambda>b. as_id b = as_id a) tbl) moved (skipped + 1)
      else reassign_loop into now rest (update_where (\<lambda>b. as_id b = as_id a) (reassigned into now) tbl)
             (moved + 1) skipped)"

definition to_move :: "string \<Rightarrow> string \<Rightarrow> string \<Rightarrow> assignment \<Rightarrow> bool" where
  "to_move source et org a =
     (as_owner a = source \<and> (et = [] \<or> as_entity_type a = et) \<and> (org = [] \<or> as_org a = Some org))"

definition reassign_ownership ::
  "string \<Rightarrow> string \<Rightarrow> string \<Rightarrow> string \<Rightarrow> int \<Rightarrow> ownership_db \<Rightarrow> ownership_db \<times> nat \<times> nat" where
  "reassign_ownership source into et org now db =
     (case reassign_loop into now (filter (to_move source et org) (od_assignments db)) (od_assignments db) 0 0 of
        (tbl, moved, skipped) \<Rightarrow> (db\<lparr>od_assignments := tbl\<rparr>, moved, skipped))"

section \<open>Aliases\<close>

definition alias_row :: "int \<Rightarrow> string \<Rightarrow> string \<Rightarrow> string \<Rightarrow> string \<Rightarrow> int \<Rightarrow> owner_alias" where
  "alias_row i name ty v src now =
     \<lparr>al_id = i, al_owner = name, al_type = ty, al_value = v, al_source = src, al_created_at = now\<rparr>"

definition insert_owner_alias ::
  "string \<Rightarrow> string \<Rightarrow> string \<Rightarrow> string \<Rightarrow> int \<Rightarrow> ownership_db \<Rightarrow> own_error + owner_alias \<times> ownership_db" where
  "insert_owner_alias name ty v src now db =
     (let l = alias_row (od_next_id db) name ty v (if src = [] then source_manual else src) now
      in if name = [] \<or> ty = [] \<or> v = [] then Inl Own_invalid
         else if \<not> alias_type_ok ty then Inl Own_failed
         else if (ty, v) \<in> set (map alias_key (od_aliases db)) then Inl Own_exists
         else if name \<notin> set (owner_names db) then Inl Own_failed
         else Inr (l, db\<lparr>od_aliases := od_aliases db @ [l], od_next_id := od_next_id db + 1\<rparr>))"

definition resolve_owner_by_alias :: "string \<Rightarrow> string \<Rightarrow> ownership_db \<Rightarrow> string option" where
  "resolve_owner_by_alias ty v db = map_option al_owner (row_of alias_key (ty, v) (od_aliases db))"

definition delete_owner_alias :: "int \<Rightarrow> ownership_db \<Rightarrow> own_error + ownership_db" where
  "delete_owner_alias i db =
     (if i \<notin> set (map al_id (od_aliases db)) then Inl Own_missing
      else Inr (db\<lparr>od_aliases := delete_where (\<lambda>l. al_id l = i) (od_aliases db)\<rparr>))"

text \<open>\<open>INSERT ... ON CONFLICT (alias_type, alias_value) DO NOTHING\<close>, and whether a row was added.\<close>

definition add_alias :: "string \<Rightarrow> string \<Rightarrow> string \<Rightarrow> string \<Rightarrow> int \<Rightarrow> ownership_db \<Rightarrow> ownership_db \<times> bool" where
  "add_alias name ty v src now db =
     (if (ty, v) \<in> set (map alias_key (od_aliases db)) then (db, False)
      else (db\<lparr>od_aliases := od_aliases db @ [alias_row (od_next_id db) name ty v src now],
              od_next_id := od_next_id db + 1\<rparr>, True))"

fun seed_loop :: "int \<Rightarrow> owner list \<Rightarrow> ownership_db \<Rightarrow> nat \<Rightarrow> ownership_db \<times> nat" where
  "seed_loop now [] db n = (db, n)"
| "seed_loop now (r # rows) db n =
     (case add_alias (ow_name r) alias_email (ow_contact_email r) ''contact_email'' now db of
        (db', added) \<Rightarrow> seed_loop now rows db' (if added then n + 1 else n))"

definition seed_aliases_from_contact_emails :: "int \<Rightarrow> ownership_db \<Rightarrow> ownership_db \<times> nat" where
  "seed_aliases_from_contact_emails now db =
     seed_loop now (filter (\<lambda>r. ow_contact_email r \<noteq> []) (od_owners db)) db 0"

section \<open>Merging two owners\<close>

record merge_result =
  mr_reassigned :: nat
  mr_skipped :: nat
  mr_aliases_moved :: nat
  mr_aliases_dropped :: nat
  mr_name_aliased :: bool

definition alias_moves :: "string \<Rightarrow> string \<Rightarrow> owner_alias list \<Rightarrow> owner_alias \<Rightarrow> bool" where
  "alias_moves source into als l =
     (al_owner l = source \<and> \<not> list_ex (\<lambda>b. al_owner b = into \<and> alias_key b = alias_key l) als)"

definition merge_owners ::
  "string \<Rightarrow> string \<Rightarrow> int \<Rightarrow> ownership_db \<Rightarrow> own_error + merge_result \<times> ownership_db" where
  "merge_owners source into now db =
     (if source = [] \<or> into = [] \<or> source = into then Inl Own_invalid
      else if source \<notin> set (owner_names db) \<or> into \<notin> set (owner_names db) then Inl Own_missing
      else case reassign_ownership source into [] [] now db of
        (db1, moved, skipped) \<Rightarrow>
          (let als = od_aliases db1;
               als2 = update_where (alias_moves source into als) (\<lambda>l. l\<lparr>al_owner := into\<rparr>) als;
               als3 = delete_where (\<lambda>l. al_owner l = source) als2
           in case add_alias into alias_custom source ''merge'' now (db1\<lparr>od_aliases := als3\<rparr>) of
                (db4, added) \<Rightarrow>
                  Inr (\<lparr>mr_reassigned = moved, mr_skipped = skipped,
                        mr_aliases_moved = length (filter (alias_moves source into als) als),
                        mr_aliases_dropped = length (filter (\<lambda>l. al_owner l = source) als2),
                        mr_name_aliased = added\<rparr>,
                       delete_owner_row source db4)))"

section \<open>The audit log and clearing imports\<close>

text \<open>An entry names both an entity type and a key or neither; an entry that cannot be written is only logged.\<close>

definition audit :: "string \<Rightarrow> string \<Rightarrow> string \<Rightarrow> string \<Rightarrow> string \<Rightarrow> string \<Rightarrow> json \<Rightarrow> ownership_db \<Rightarrow> ownership_db" where
  "audit actor action name et key org details db =
     (if (et = []) = (key = [])
      then db\<lparr>od_audit := od_audit db @ [\<lparr>au_action = action, au_actor = actor, au_owner = name,
              au_entity_type = et, au_entity_key = key, au_organisation = org, au_details = details\<rparr>]\<rparr>
      else db)"

text \<open>\<open>details ->> key = value\<close> for a text value.\<close>

definition detail_is :: "string \<Rightarrow> string \<Rightarrow> json \<Rightarrow> bool" where
  "detail_is key v j =
     (case j of JObj kvs \<Rightarrow> map_of (rev kvs) key = Some (JStr v) | _ \<Rightarrow> False)"

definition action_owner_created :: string where "action_owner_created = ''owner_created''"

definition created_by_import :: "audit_entry list \<Rightarrow> string \<Rightarrow> bool" where
  "created_by_import entries name =
     list_ex (\<lambda>l. au_owner l = name \<and> au_action l = action_owner_created
                   \<and> detail_is ''source'' ''import'' (au_details l)) entries"

definition clear_imported_ownership :: "ownership_db \<Rightarrow> ownership_db \<times> nat \<times> nat" where
  "clear_imported_ownership db =
     (let kept = delete_where (\<lambda>a. as_source a = source_import) (od_assignments db);
          gone = filter (\<lambda>r. created_by_import (od_audit db) (ow_name r)
                             \<and> \<not> list_ex (\<lambda>a. as_owner a = ow_name r) kept) (od_owners db)
      in (fold delete_owner_row (map ow_name gone) (db\<lparr>od_assignments := kept\<rparr>),
          length (filter (\<lambda>a. as_source a = source_import) (od_assignments db)),
          length gone))"

definition count_imported_ownership :: "ownership_db \<Rightarrow> nat \<times> nat" where
  "count_imported_ownership db =
     (length (filter (\<lambda>a. as_source a = source_import) (od_assignments db)),
      length (filter (\<lambda>r. created_by_import (od_audit db) (ow_name r)
               \<and> \<not> list_ex (\<lambda>a. as_owner a = ow_name r \<and> as_source a \<noteq> source_import) (od_assignments db))
        (od_owners db)))"

section \<open>Assignments of rules\<close>

definition list_auto_rule_assignments :: "string \<Rightarrow> string \<Rightarrow> ownership_db \<Rightarrow> assignment list" where
  "list_auto_rule_assignments rule org db =
     filter (\<lambda>a. as_source a = source_auto_rule \<and> as_rule a = Some rule \<and> (org = [] \<or> as_org a = Some org))
       (od_assignments db)"

text \<open>
  \<open>currentMatchKeys\<close> holds the strings type, colon, key. The rows listed exist, so no deletion fails.
\<close>

definition match_key :: "string \<Rightarrow> string \<Rightarrow> string" where
  "match_key et key = et @ '':'' @ key"

definition is_stale :: "string \<Rightarrow> string \<Rightarrow> string list \<Rightarrow> assignment \<Rightarrow> bool" where
  "is_stale rule org keys a =
     (as_source a = source_auto_rule \<and> as_rule a = Some rule \<and> (org = [] \<or> as_org a = Some org)
      \<and> match_key (as_entity_type a) (as_entity_key a) \<notin> set keys)"

fun delete_loop :: "assignment list \<Rightarrow> ownership_db \<Rightarrow> nat \<Rightarrow> ownership_db \<times> nat" where
  "delete_loop [] db n = (db, n)"
| "delete_loop (a # rest) db n =
     (case delete_assignment (as_id a) db of
        Inl e \<Rightarrow> (db, n)
      | Inr db' \<Rightarrow> delete_loop rest db' (n + 1))"

definition delete_stale_auto_rule_assignments ::
  "string \<Rightarrow> string \<Rightarrow> string list \<Rightarrow> ownership_db \<Rightarrow> ownership_db \<times> nat" where
  "delete_stale_auto_rule_assignments rule org keys db =
     delete_loop
       (filter (\<lambda>a. match_key (as_entity_type a) (as_entity_key a) \<notin> set keys)
          (list_auto_rule_assignments rule org db)) db 0"

definition list_distinct_auto_rule_names :: "ownership_db \<Rightarrow> string list" where
  "list_distinct_auto_rule_names db = sort (remdups (List.map_filter as_rule (od_assignments db)))"

definition delete_auto_rule_assignments_by_name :: "string \<Rightarrow> ownership_db \<Rightarrow> ownership_db \<times> nat" where
  "delete_auto_rule_assignments_by_name rule db =
     (db\<lparr>od_assignments := delete_where (\<lambda>a. as_rule a = Some rule) (od_assignments db)\<rparr>,
      length (filter (\<lambda>a. as_rule a = Some rule) (od_assignments db)))"

section \<open>The constraints as an invariant\<close>

definition owners_ok :: "owner list \<Rightarrow> bool" where
  "owners_ok rows =
     (distinct (map ow_name rows) \<and> list_all (\<lambda>r. owner_name_ok (ow_name r) \<and> owner_type_ok (ow_type r)) rows)"

definition assignments_ok :: "string set \<Rightarrow> int \<Rightarrow> assignment list \<Rightarrow> bool" where
  "assignments_ok names next tbl =
     (distinct (map as_id tbl) \<and> distinct (map assignment_key tbl)
      \<and> list_all (\<lambda>a. as_id a < next \<and> as_owner a \<in> names \<and> entity_type_ok (as_entity_type a)
                       \<and> source_ok (as_source a) \<and> confidence_ok (as_confidence a)) tbl)"

definition aliases_ok :: "string set \<Rightarrow> int \<Rightarrow> owner_alias list \<Rightarrow> bool" where
  "aliases_ok names next tbl =
     (distinct (map al_id tbl) \<and> distinct (map alias_key tbl)
      \<and> list_all (\<lambda>l. al_id l < next \<and> al_owner l \<in> names \<and> alias_type_ok (al_type l)) tbl)"

definition ownership_ok :: "ownership_db \<Rightarrow> bool" where
  "ownership_ok db =
     (owners_ok (od_owners db)
      \<and> assignments_ok (set (owner_names db)) (od_next_id db) (od_assignments db)
      \<and> aliases_ok (set (owner_names db)) (od_next_id db) (od_aliases db))"

lemma assignments_ok_mono:
  "assignments_ok N n tbl \<Longrightarrow> N \<subseteq> N' \<Longrightarrow> n \<le> n' \<Longrightarrow> assignments_ok N' n' tbl"
  by (fastforce simp: assignments_ok_def list_all_iff)

lemma aliases_ok_mono: "aliases_ok N n tbl \<Longrightarrow> N \<subseteq> N' \<Longrightarrow> n \<le> n' \<Longrightarrow> aliases_ok N' n' tbl"
  by (fastforce simp: aliases_ok_def list_all_iff)

lemma assignments_ok_next: "assignments_ok N n tbl \<Longrightarrow> assignments_ok N (n + 1) tbl"
  and aliases_ok_next: "aliases_ok N n als \<Longrightarrow> aliases_ok N (n + 1) als"
  by (erule assignments_ok_mono aliases_ok_mono; simp)+

lemma assignments_ok_delete: "assignments_ok N n tbl \<Longrightarrow> assignments_ok N n (delete_where P tbl)"
  by (simp add: assignments_ok_def distinct_delete_where list_all_iff)

lemma aliases_ok_delete: "aliases_ok N n tbl \<Longrightarrow> aliases_ok N n (delete_where P tbl)"
  by (simp add: aliases_ok_def distinct_delete_where list_all_iff)

lemma assignments_ok_append:
  assumes "assignments_ok N n tbl" "as_id a = n" "assignment_key a \<notin> assignment_key ` set tbl" "as_owner a \<in> N"
    and "entity_type_ok (as_entity_type a)" "source_ok (as_source a)" "confidence_ok (as_confidence a)"
  shows "assignments_ok N (n + 1) (tbl @ [a])"
proof -
  have "as_id b < n" if "b \<in> set tbl" for b
    using assms(1) that by (simp add: assignments_ok_def list_all_iff)
  then show ?thesis
    using assms by (fastforce simp: assignments_ok_def list_all_iff)
qed

lemma aliases_ok_append:
  assumes "aliases_ok N n tbl" "al_id l = n" "alias_key l \<notin> alias_key ` set tbl" "al_owner l \<in> N"
    and "alias_type_ok (al_type l)"
  shows "aliases_ok N (n + 1) (tbl @ [l])"
proof -
  have "al_id b < n" if "b \<in> set tbl" for b
    using assms(1) that by (simp add: aliases_ok_def list_all_iff)
  then show ?thesis
    using assms by (fastforce simp: aliases_ok_def list_all_iff)
qed

lemma assignments_ok_drop_owner:
  "assignments_ok N n tbl \<Longrightarrow> assignments_ok (N - {name}) n (delete_where (\<lambda>a. as_owner a = name) tbl)"
  by (simp add: assignments_ok_def distinct_delete_where list_all_iff)

lemma aliases_ok_drop_owner:
  "aliases_ok N n tbl \<Longrightarrow> aliases_ok (N - {name}) n (delete_where (\<lambda>l. al_owner l = name) tbl)"
  by (simp add: aliases_ok_def distinct_delete_where list_all_iff)

lemma owner_names_delete_row [simp]: "set (owner_names (delete_owner_row name db)) = set (owner_names db) - {name}"
  by (auto simp: owner_names_def delete_owner_row_def)

lemma delete_owner_row_ok: "ownership_ok db \<Longrightarrow> ownership_ok (delete_owner_row name db)"
  using assignments_ok_drop_owner [of "set (owner_names db)" _ _ name]
    aliases_ok_drop_owner [of "set (owner_names db)" _ _ name]
  by (simp add: ownership_ok_def) (simp add: delete_owner_row_def owners_ok_def distinct_delete_where list_all_iff)

lemma insert_owner_Inr:
  assumes "insert_owner p now db = Inr (r, db')"
  shows "op_name p \<notin> set (owner_names db)" "ow_name r = op_name p"
    "owner_names db' = owner_names db @ [op_name p]" "od_assignments db' = od_assignments db"
    "od_aliases db' = od_aliases db" "od_next_id db' = od_next_id db" "od_audit db' = od_audit db"
    "od_owners db' = od_owners db @ [r]" "owner_name_ok (op_name p)"
  using assms by (auto simp: insert_owner_def owner_names_def Let_def split: if_splits)

lemma insert_owner_ok:
  assumes "insert_owner p now db = Inr (r, db')" "ownership_ok db"
  shows "ownership_ok db'"
proof -
  have "owners_ok (od_owners db')"
    using assms by (auto simp: insert_owner_def ownership_ok_def owners_ok_def owner_names_def Let_def split: if_splits)
  moreover have "set (owner_names db) \<subseteq> set (owner_names db')"
    using insert_owner_Inr(3) [OF assms(1)] by auto
  ultimately show ?thesis
    using assms(2) unfolding ownership_ok_def insert_owner_Inr(4-6) [OF assms(1)]
    by (blast intro: assignments_ok_mono aliases_ok_mono)
qed

lemma update_owner_ok:
  assumes "update_owner name u now db = Inr (r, db')" "ownership_ok db"
  shows "ownership_ok db'"
proof -
  obtain q where q: "get_owner_by_name name db = Some q" "owner_type_ok (ow_type (updated_owner u now q))"
    and db': "db' = db\<lparr>od_owners := update_where (\<lambda>r. ow_name r = name) (updated_owner u now) (od_owners db)\<rparr>"
    using assms(1) by (auto simp: update_owner_def split: option.splits if_splits)
  have n: "map ow_name (od_owners db') = map ow_name (od_owners db)"
    unfolding db' by (simp add: map_update_where updated_owner_def)
  have ok: "owners_ok (od_owners db)" using assms(2) by (simp add: ownership_ok_def)
  moreover have "r = q" if "r \<in> set (od_owners db)" "ow_name r = name" for r
  proof -
    have "row_of ow_name name (od_owners db) = Some r"
      using that ok by (simp add: owners_ok_def row_of_iff)
    then show ?thesis using q(1) by (simp add: get_owner_by_name_def)
  qed
  ultimately have "owners_ok (od_owners db')"
    using q(2) unfolding owners_ok_def n by (auto simp: db' set_update_where list_all_iff updated_owner_def)
  then show ?thesis
    using assms(2) n by (simp add: ownership_ok_def owner_names_def db')
qed

lemma insert_assignment_Inr:
  assumes "insert_assignment p now db = Inr (a, db')"
  shows "a = assignment_row p (od_next_id db) now"
    "db' = db\<lparr>od_assignments := od_assignments db @ [a], od_next_id := od_next_id db + 1\<rparr>"
    "entity_type_ok (ap_entity_type p)" "source_ok (ap_source p)" "confidence_ok (ap_confidence p)"
    "assignment_key a \<notin> assignment_key ` set (od_assignments db)" "ap_owner p \<in> set (owner_names db)"
  using assms by (auto simp: insert_assignment_def Let_def list_ex_iff split: if_splits)

lemma insert_assignment_ok:
  assumes "insert_assignment p now db = Inr (a, db')" "ownership_ok db"
  shows "ownership_ok db'"
proof -
  note i = insert_assignment_Inr [OF assms(1)]
  have "assignments_ok (set (owner_names db)) (od_next_id db + 1) (od_assignments db @ [a])"
    by (rule assignments_ok_append) (use i assms(2) in \<open>simp_all add: ownership_ok_def assignment_row_def\<close>)
  then show ?thesis
    using assms(2) by (simp add: i(2) ownership_ok_def owner_names_def aliases_ok_next)
qed

lemma delete_assignment_ok: "delete_assignment i db = Inr db' \<Longrightarrow> ownership_ok db \<Longrightarrow> ownership_ok db'"
  by (auto simp: delete_assignment_def ownership_ok_def owner_names_def assignments_ok_delete split: if_splits)

lemma add_alias_ok:
  assumes "add_alias name ty v src now db = (db', b)" "ownership_ok db" "name \<in> set (owner_names db)" "alias_type_ok ty"
  shows "ownership_ok db'" and "owner_names db' = owner_names db" "od_assignments db' = od_assignments db"
    "od_owners db' = od_owners db" "od_audit db' = od_audit db" "set (od_aliases db) \<subseteq> set (od_aliases db')"
proof -
  let ?l = "alias_row (od_next_id db) name ty v src now"
  have "aliases_ok (set (owner_names db)) (od_next_id db + 1) (od_aliases db @ [?l])" if "b"
    by (rule aliases_ok_append)
       (use assms that in \<open>auto simp: add_alias_def ownership_ok_def alias_row_def alias_key_def split: if_splits\<close>)
  then show "ownership_ok db'"
    using assms(1,2)
    by (auto simp: add_alias_def ownership_ok_def owner_names_def assignments_ok_next split: if_splits)
qed (use assms(1) in \<open>auto simp: add_alias_def owner_names_def split: if_splits\<close>)

lemma insert_owner_alias_add:
  assumes "insert_owner_alias name ty v src now db = Inr (l, db')"
  shows "add_alias name ty v (if src = [] then source_manual else src) now db = (db', True)"
    "name \<in> set (owner_names db)" "alias_type_ok ty"
  using assms by (auto simp: insert_owner_alias_def add_alias_def Let_def split: if_splits)

lemma insert_owner_alias_ok:
  "insert_owner_alias name ty v src now db = Inr (l, db') \<Longrightarrow> ownership_ok db \<Longrightarrow> ownership_ok db'"
  by (rule add_alias_ok(1) [OF insert_owner_alias_add(1) _ insert_owner_alias_add(2,3)])

lemma delete_owner_alias_ok: "delete_owner_alias i db = Inr db' \<Longrightarrow> ownership_ok db \<Longrightarrow> ownership_ok db'"
  by (auto simp: delete_owner_alias_def ownership_ok_def owner_names_def aliases_ok_delete split: if_splits)

lemma seed_loop_ok:
  "seed_loop now rows db n = (db', m) \<Longrightarrow> ownership_ok db \<Longrightarrow> set (map ow_name rows) \<subseteq> set (owner_names db)
    \<Longrightarrow> ownership_ok db' \<and> owner_names db' = owner_names db \<and> od_assignments db' = od_assignments db"
proof (induction rows arbitrary: db n)
  case (Cons r rows)
  obtain d b where d: "add_alias (ow_name r) alias_email (ow_contact_email r) ''contact_email'' now db = (d, b)"
    by fastforce
  have "alias_type_ok alias_email" by (simp add: alias_type_ok_def alias_email_def)
  then show ?case
    using Cons.IH [of d] Cons.prems d add_alias_ok [OF d Cons.prems(2)] by auto
qed simp

lemma seed_aliases_ok:
  "ownership_ok db \<Longrightarrow> ownership_ok (fst (seed_aliases_from_contact_emails now db))"
  using seed_loop_ok [of now "filter (\<lambda>r. ow_contact_email r \<noteq> []) (od_owners db)" db 0]
  unfolding seed_aliases_from_contact_emails_def
  by (metis (mono_tags, lifting) filter_is_subset image_mono list.set_map owner_names_def prod.collapse)

lemma audit_ok [simp]: "ownership_ok (audit actor action name et key org details db) = ownership_ok db"
  "od_owners (audit actor action name et key org details db) = od_owners db"
  "od_assignments (audit actor action name et key org details db) = od_assignments db"
  "od_aliases (audit actor action name et key org details db) = od_aliases db"
  "owner_names (audit actor action name et key org details db) = owner_names db"
  by (simp_all add: audit_def ownership_ok_def owner_names_def)

section \<open>Lemmas on moving and merging\<close>

definition holds :: "assignment list \<Rightarrow> string \<Rightarrow> entity \<Rightarrow> bool" where
  "holds tbl name e = list_ex (\<lambda>b. as_owner b = name \<and> entity_of b = e) tbl"

lemma holds_iff: "holds tbl name e \<longleftrightarrow> (name, e) \<in> assignment_key ` set tbl"
  by (auto simp: holds_def list_ex_iff assignment_key_def image_iff)

lemma entity_of_reassigned [simp]: "entity_of (reassigned into now b) = entity_of b"
  and reassigned_fields [simp]: "as_owner (reassigned into now b) = into" "as_id (reassigned into now b) = as_id b"
    "as_entity_type (reassigned into now b) = as_entity_type b"
    "as_source (reassigned into now b) = source_manual" "as_confidence (reassigned into now b) = conf_definitive"
  by (simp_all add: reassigned_def entity_of_def)

text \<open>What one round of the loop does to the table, when the row it moves is in it.\<close>

definition moved_one :: "string \<Rightarrow> int \<Rightarrow> assignment \<Rightarrow> assignment list \<Rightarrow> assignment list" where
  "moved_one into now a tbl =
     (if holds tbl into (entity_of a) then delete_where (\<lambda>b. as_id b = as_id a) tbl
      else update_where (\<lambda>b. as_id b = as_id a) (reassigned into now) tbl)"

lemma reassign_loop_step:
  "reassign_loop into now (a # rest) tbl m k =
     (if holds tbl into (entity_of a) then reassign_loop into now rest (moved_one into now a tbl) m (k + 1)
      else reassign_loop into now rest (moved_one into now a tbl) (m + 1) k)"
  by (simp add: moved_one_def holds_def)

lemma only_row_with_id:
  "distinct (map as_id tbl) \<Longrightarrow> a \<in> set tbl \<Longrightarrow> b \<in> set tbl \<Longrightarrow> as_id b = as_id a \<longleftrightarrow> b = a"
  by (auto simp: distinct_map dest: inj_onD)

lemma moved_one_set:
  assumes "distinct (map as_id tbl)" "a \<in> set tbl"
  shows "set (moved_one into now a tbl) =
           (set tbl - {a}) \<union> (if holds tbl into (entity_of a) then {} else {reassigned into now a})"
  using only_row_with_id [OF assms] assms(2) by (auto simp: moved_one_def set_update_where)

lemma filter_delete_where:
  "(\<And>b. b \<in> set tbl \<Longrightarrow> Q b \<Longrightarrow> \<not> P b) \<Longrightarrow> filter Q (delete_where P tbl) = filter Q tbl"
  by (induction tbl) (auto simp: delete_where_def)

lemma filter_update_where:
  "(\<And>b. b \<in> set tbl \<Longrightarrow> P b \<Longrightarrow> \<not> Q b \<and> \<not> Q (f b)) \<Longrightarrow> filter Q (update_where P f tbl) = filter Q tbl"
  by (induction tbl) (auto simp: update_where_def)

lemma moved_one_others:
  assumes "distinct (map as_id tbl)" "a \<in> set tbl" "as_owner a = source" "other \<noteq> source" "other \<noteq> into"
  shows "filter (\<lambda>b. as_owner b = other) (moved_one into now a tbl) = filter (\<lambda>b. as_owner b = other) tbl"
proof -
  have "as_id b \<noteq> as_id a" if "b \<in> set tbl" "as_owner b = other" for b
    using only_row_with_id [OF assms(1,2)] that assms(3,4) by auto
  then show ?thesis
    using assms(5) by (auto simp: moved_one_def intro!: filter_delete_where filter_update_where)
qed

lemma moved_one_ok:
  assumes "assignments_ok N n tbl" "a \<in> set tbl" "as_owner a \<noteq> into" "into \<in> N"
  shows "assignments_ok N n (moved_one into now a tbl)"
proof (cases "holds tbl into (entity_of a)")
  case True
  then show ?thesis using assms(1) by (simp add: moved_one_def assignments_ok_delete)
next
  case False
  have d: "distinct (map as_id tbl)" "distinct (map assignment_key tbl)" "distinct tbl"
    using assms(1) by (auto simp: assignments_ok_def distinct_map)
  let ?f = "\<lambda>b. if as_id b = as_id a then reassigned into now b else b"
  have "inj_on (assignment_key \<circ> ?f) (set tbl)"
  proof (rule inj_onI)
    fix x y assume x: "x \<in> set tbl" and y: "y \<in> set tbl" and e: "(assignment_key \<circ> ?f) x = (assignment_key \<circ> ?f) y"
    have k: "assignment_key x = assignment_key y \<Longrightarrow> x = y"
      using d(2) x y by (auto simp: distinct_map dest: inj_onD)
    have n: "assignment_key z \<noteq> assignment_key (reassigned into now a)" if "z \<in> set tbl" for z
      using False that unfolding holds_iff by (metis assignment_key_def entity_of_reassigned image_eqI reassigned_fields(1))
    show "x = y"
      using e only_row_with_id [OF d(1) assms(2) x] only_row_with_id [OF d(1) assms(2) y] k n [OF x] n [OF y] n [OF assms(2)]
      by (auto split: if_splits)
  qed
  then have "distinct (map assignment_key (moved_one into now a tbl))"
    using False d(3) by (simp add: moved_one_def update_where_def distinct_map inj_on_def comp_def)
  moreover have "map as_id (moved_one into now a tbl) = map as_id tbl"
    using False by (simp add: moved_one_def map_update_where)
  moreover have "list_all (\<lambda>b. as_id b < n \<and> as_owner b \<in> N \<and> entity_type_ok (as_entity_type b)
                       \<and> source_ok (as_source b) \<and> confidence_ok (as_confidence b)) (moved_one into now a tbl)"
    using assms(1,2,4) d(1) moved_one_set [OF d(1) assms(2), of into now] False
    by (auto simp: assignments_ok_def list_all_iff source_ok_def confidence_ok_def)
  ultimately show ?thesis using d(1) by (simp add: assignments_ok_def)
qed

lemma reassign_loop_spec:
  assumes "reassign_loop into now moving tbl m k = (tbl', m', k')" and "assignments_ok N n tbl"
    and "distinct moving" and "set moving \<subseteq> set tbl" and "into \<in> N" and "source \<noteq> into"
    and "\<And>a. a \<in> set moving \<Longrightarrow> as_owner a = source"
  shows "assignments_ok N n tbl' \<and> m' + k' = m + k + length moving
    \<and> (\<forall>e. holds tbl' into e \<longleftrightarrow> holds tbl into e \<or> e \<in> entity_of ` set moving)
    \<and> {b \<in> set tbl'. as_owner b = source} = {b \<in> set tbl. as_owner b = source} - set moving
    \<and> (\<forall>other. other \<noteq> source \<and> other \<noteq> into
         \<longrightarrow> filter (\<lambda>b. as_owner b = other) tbl' = filter (\<lambda>b. as_owner b = other) tbl)"
  using assms
proof (induction moving arbitrary: tbl m k)
  case Nil
  then show ?case by simp
next
  case (Cons a moving)
  let ?t = "moved_one into now a tbl"
  have d: "distinct (map as_id tbl)" using Cons.prems(2) by (simp add: assignments_ok_def)
  have a: "a \<in> set tbl" "as_owner a = source" using Cons.prems(4,7) by auto
  have ok: "assignments_ok N n ?t"
    by (rule moved_one_ok [OF Cons.prems(2) a(1)]) (use a(2) Cons.prems(5,6) in simp_all)
  have s: "set ?t = (set tbl - {a}) \<union> (if holds tbl into (entity_of a) then {} else {reassigned into now a})"
    by (rule moved_one_set [OF d a(1)])
  have sub: "set moving \<subseteq> set ?t" using Cons.prems(3,4) s by auto
  obtain m1 k1 where r: "reassign_loop into now moving ?t m1 k1 = (tbl', m', k')" "m1 + k1 = m + k + 1"
    using Cons.prems(1) unfolding reassign_loop_step by (auto split: if_splits)
  have h: "holds ?t into e \<longleftrightarrow> holds tbl into e \<or> e = entity_of a" for e
    using s a(2) Cons.prems(6) unfolding holds_iff by (force simp: holds_iff assignment_key_def)
  have f: "{b \<in> set ?t. as_owner b = source} = {b \<in> set tbl. as_owner b = source} - {a}"
  proof -
    have "reassigned into now a \<noteq> a" using a(2) Cons.prems(6) by (metis reassigned_fields(1))
    then show ?thesis using s Cons.prems(6) by (auto split: if_splits)
  qed
  have o': "filter (\<lambda>b. as_owner b = other) ?t = filter (\<lambda>b. as_owner b = other) tbl"
    if "other \<noteq> source" "other \<noteq> into" for other
    by (rule moved_one_others [OF d a that])
  show ?case
    using Cons.IH [OF r(1) ok _ sub Cons.prems(5,6)] Cons.prems(3,7) r(2) h f o' by auto
qed


lemma reassign_ownership_spec:
  assumes "reassign_ownership source into et org now db = (db', m, k)" "ownership_ok db"
    and "into \<in> set (owner_names db)" "source \<noteq> into"
  shows "ownership_ok db'" "m + k = length (filter (to_move source et org) (od_assignments db))"
    "holds (od_assignments db') into e \<longleftrightarrow> holds (od_assignments db) into e
       \<or> (\<exists>a \<in> set (od_assignments db). to_move source et org a \<and> entity_of a = e)"
    "{b \<in> set (od_assignments db'). as_owner b = source} =
       {b \<in> set (od_assignments db). as_owner b = source \<and> \<not> to_move source et org b}"
    "other \<noteq> source \<Longrightarrow> other \<noteq> into \<Longrightarrow>
       filter (\<lambda>b. as_owner b = other) (od_assignments db') = filter (\<lambda>b. as_owner b = other) (od_assignments db)"
    "od_owners db' = od_owners db" "od_aliases db' = od_aliases db" "owner_names db' = owner_names db"
    "od_audit db' = od_audit db" "od_next_id db' = od_next_id db"
proof -
  let ?mv = "filter (to_move source et org) (od_assignments db)"
  obtain tbl' where t: "reassign_loop into now ?mv (od_assignments db) 0 0 = (tbl', m, k)"
    and db': "db' = db\<lparr>od_assignments := tbl'\<rparr>"
    using assms(1) by (auto simp: reassign_ownership_def split: prod.splits)
  have "distinct ?mv"
    using assms(2) by (auto simp: ownership_ok_def assignments_ok_def distinct_map)
  moreover have "as_owner a = source" if "a \<in> set ?mv" for a
    using that by (simp add: to_move_def)
  moreover have "assignments_ok (set (owner_names db)) (od_next_id db) (od_assignments db)"
    using assms(2) by (simp add: ownership_ok_def)
  moreover have "set ?mv \<subseteq> set (od_assignments db)" by auto
  ultimately have r: "assignments_ok (set (owner_names db)) (od_next_id db) tbl' \<and> m + k = 0 + 0 + length ?mv
    \<and> (\<forall>e. holds tbl' into e \<longleftrightarrow> holds (od_assignments db) into e \<or> e \<in> entity_of ` set ?mv)
    \<and> {b \<in> set tbl'. as_owner b = source} = {b \<in> set (od_assignments db). as_owner b = source} - set ?mv
    \<and> (\<forall>other. other \<noteq> source \<and> other \<noteq> into
         \<longrightarrow> filter (\<lambda>b. as_owner b = other) tbl' = filter (\<lambda>b. as_owner b = other) (od_assignments db))"
    using assms(3,4) by (intro reassign_loop_spec [OF t])
  note r1 = r [THEN conjunct1] and r2 = r [THEN conjunct2, THEN conjunct1]
    and r3 = r [THEN conjunct2, THEN conjunct2, THEN conjunct1, rule_format]
    and r4 = r [THEN conjunct2, THEN conjunct2, THEN conjunct2, THEN conjunct1]
    and r5 = r [THEN conjunct2, THEN conjunct2, THEN conjunct2, THEN conjunct2, rule_format]
  show "ownership_ok db'" using r1 assms(2) by (simp add: db' ownership_ok_def owner_names_def)
  show "m + k = length ?mv" using r2 by simp
  show "holds (od_assignments db') into e \<longleftrightarrow> holds (od_assignments db) into e
       \<or> (\<exists>a \<in> set (od_assignments db). to_move source et org a \<and> entity_of a = e)"
    unfolding db' using r3 [of e] by auto
  show "{b \<in> set (od_assignments db'). as_owner b = source} =
       {b \<in> set (od_assignments db). as_owner b = source \<and> \<not> to_move source et org b}"
    unfolding db' using r4 by auto
  show "filter (\<lambda>b. as_owner b = other) (od_assignments db') = filter (\<lambda>b. as_owner b = other) (od_assignments db)"
    if "other \<noteq> source" "other \<noteq> into"
    unfolding db' using r5 [of other] that by auto
qed (use assms(1) in \<open>auto simp: reassign_ownership_def owner_names_def split: prod.splits\<close>)

text \<open>Aliases are unique, so the target never holds one of the source's: all of them move.\<close>

lemma alias_moves_all:
  assumes "aliases_ok N n als" "source \<noteq> into" "l \<in> set als"
  shows "alias_moves source into als l \<longleftrightarrow> al_owner l = source"
  using assms by (auto simp: alias_moves_def aliases_ok_def list_ex_iff distinct_map dest: inj_onD)

lemma row_of_map_owner:
  assumes "\<And>l. alias_key (f l) = alias_key l"
  shows "row_of alias_key k (map f als) = map_option f (row_of alias_key k als)"
  by (induction als) (simp_all add: row_of_def assms)

definition folded :: "string \<Rightarrow> string \<Rightarrow> owner_alias \<Rightarrow> owner_alias" where
  "folded source into l = (if al_owner l = source then l\<lparr>al_owner := into\<rparr> else l)"

lemma folded_fields [simp]: "alias_key (folded source into l) = alias_key l" "al_id (folded source into l) = al_id l"
  "al_type (folded source into l) = al_type l"
  by (simp_all add: folded_def alias_key_def)

lemma folded_owner: "al_owner (folded source into l) = (if al_owner l = source then into else al_owner l)"
  by (simp add: folded_def)

lemma merge_owners_Inr:
  assumes "merge_owners source into now db = Inr (r, db')" "ownership_ok db"
  obtains db1 db4 where "source \<in> set (owner_names db)" "into \<in> set (owner_names db)" "source \<noteq> into" "source \<noteq> []"
    and "reassign_ownership source into [] [] now db = (db1, mr_reassigned r, mr_skipped r)"
    and "add_alias into alias_custom source ''merge'' now
           (db1\<lparr>od_aliases := map (folded source into) (od_aliases db)\<rparr>) = (db4, mr_name_aliased r)"
    and "mr_aliases_dropped r = 0"
    and "mr_aliases_moved r = length (filter (\<lambda>l. al_owner l = source) (od_aliases db))"
    and "db' = delete_owner_row source db4"
proof -
  obtain db1 mv sk where d1: "reassign_ownership source into [] [] now db = (db1, mv, sk)"
    by (metis prod_cases3)
  let ?als = "od_aliases db"
  have n: "source \<in> set (owner_names db)" "into \<in> set (owner_names db)" "source \<noteq> into" "source \<noteq> []"
    using assms(1) by (auto simp: merge_owners_def split: if_splits)
  have al: "od_aliases db1 = ?als"
    by (rule reassign_ownership_spec(7) [OF d1 assms(2) n(2,3)])
  have mv: "alias_moves source into ?als l \<longleftrightarrow> al_owner l = source" if "l \<in> set ?als" for l
    using assms(2) n(3) that by (auto simp: ownership_ok_def alias_moves_all)
  have als2: "update_where (alias_moves source into ?als) (\<lambda>l. l\<lparr>al_owner := into\<rparr>) ?als = map (folded source into) ?als"
    using mv by (simp add: update_where_def folded_def)
  have none: "al_owner l \<noteq> source" if "l \<in> set (map (folded source into) ?als)" for l
    using that n(3) by (auto simp: folded_def)
  have als3: "delete_where (\<lambda>l. al_owner l = source) (map (folded source into) ?als) = map (folded source into) ?als"
    using none by (simp add: delete_where_def)
  obtain db4 b where d4: "add_alias into alias_custom source ''merge'' now
       (db1\<lparr>od_aliases := map (folded source into) ?als\<rparr>) = (db4, b)" by fastforce
  have cnt: "length (filter (alias_moves source into ?als) ?als) = length (filter (\<lambda>l. al_owner l = source) ?als)"
    using mv by (metis (mono_tags, lifting) filter_cong)
  have zero: "filter (\<lambda>l. al_owner l = source) (map (folded source into) ?als) = []"
    using none by (simp add: filter_empty_conv)
  have into_n: "into \<noteq> []" using assms(1) by (auto simp: merge_owners_def split: if_splits)
  have r: "r = \<lparr>mr_reassigned = mv, mr_skipped = sk,
        mr_aliases_moved = length (filter (\<lambda>l. al_owner l = source) ?als), mr_aliases_dropped = 0,
        mr_name_aliased = b\<rparr> \<and> db' = delete_owner_row source db4"
    using assms(1) n into_n unfolding merge_owners_def
    by (simp add: d1 al als2 als3 d4 cnt zero Let_def del: set_map)
  show ?thesis by (rule that [of db1 db4]) (use n d1 d4 r in simp_all)
qed

lemma aliases_ok_folded:
  "aliases_ok N n als \<Longrightarrow> into \<in> N \<Longrightarrow> aliases_ok N n (map (folded source into) als)"
  by (simp add: aliases_ok_def comp_def list_all_iff folded_owner)

lemma merge_owners_ok:
  assumes "merge_owners source into now db = Inr (r, db')" "ownership_ok db"
  shows "ownership_ok db'"
proof -
  obtain db1 db4 where m: "into \<in> set (owner_names db)" "source \<noteq> into"
    "reassign_ownership source into [] [] now db = (db1, mr_reassigned r, mr_skipped r)"
    "add_alias into alias_custom source ''merge'' now
           (db1\<lparr>od_aliases := map (folded source into) (od_aliases db)\<rparr>) = (db4, mr_name_aliased r)"
    "db' = delete_owner_row source db4"
    using merge_owners_Inr [OF assms] by metis
  note s = reassign_ownership_spec [OF m(3) assms(2) m(1,2)]
  have "ownership_ok (db1\<lparr>od_aliases := map (folded source into) (od_aliases db)\<rparr>)"
    using s(1,7) m(1) by (auto simp: ownership_ok_def owner_names_def s(6) aliases_ok_folded)
  moreover have "alias_type_ok alias_custom" by (simp add: alias_type_ok_def alias_custom_def)
  ultimately have "ownership_ok db4"
    using add_alias_ok(1) [OF m(4)] m(1) s(6) by (simp add: owner_names_def)
  then show ?thesis unfolding m(5) by (rule delete_owner_row_ok)
qed

lemma merge_owners_resolution:
  assumes "merge_owners source into now db = Inr (r, db')" "ownership_ok db"
  shows "resolve_owner_by_alias ty v db' =
     (case resolve_owner_by_alias ty v db of
        Some name \<Rightarrow> Some (if name = source then into else name)
      | None \<Rightarrow> if (ty, v) = (alias_custom, source) then Some into else None)"
proof -
  obtain db1 db4 where m: "into \<in> set (owner_names db)" "source \<noteq> into"
    "add_alias into alias_custom source ''merge'' now
           (db1\<lparr>od_aliases := map (folded source into) (od_aliases db)\<rparr>) = (db4, mr_name_aliased r)"
    "db' = delete_owner_row source db4"
    using merge_owners_Inr [OF assms] by metis
  let ?als = "map (folded source into) (od_aliases db)"
  have als4: "od_aliases db4 = (if (alias_custom, source) \<in> set (map alias_key (od_aliases db)) then ?als
      else ?als @ [alias_row (od_next_id db1) into alias_custom source ''merge'' now])"
    using m(3) by (auto simp: add_alias_def comp_def split: if_splits)
  have "al_owner (folded source into x) \<noteq> source" "al_owner (alias_row i into t v s n) \<noteq> source" for x i t v s n
    using m(2) by (simp_all add: folded_owner alias_row_def)
  then have "\<forall>l \<in> set (od_aliases db4). al_owner l \<noteq> source"
    unfolding als4 by simp
  then have als': "od_aliases db' = od_aliases db4"
    by (simp add: m(4) delete_owner_row_def delete_where_def)
  have k: "alias_key (alias_row i into alias_custom source ''merge'' now) = (alias_custom, source)" for i
    by (simp add: alias_row_def alias_key_def)
  have o': "al_owner (alias_row i into t v s n) = into" for i t v s n
    by (simp add: alias_row_def)
  have some: "row_of alias_key (alias_custom, source) (od_aliases db) = None
      \<longleftrightarrow> (alias_custom, source) \<notin> set (map alias_key (od_aliases db))"
    by (simp add: row_of_None)
  show ?thesis
    unfolding resolve_owner_by_alias_def als' als4
    using some by (auto simp: row_of_append row_of_map_owner k o' folded_owner split: option.split)
qed

lemma merge_owners_assignments:
  assumes "merge_owners source into now db = Inr (r, db')" "ownership_ok db"
  shows "holds (od_assignments db') into e \<longleftrightarrow> holds (od_assignments db) into e \<or> holds (od_assignments db) source e"
    and "other \<noteq> source \<Longrightarrow> other \<noteq> into \<Longrightarrow>
       filter (\<lambda>b. as_owner b = other) (od_assignments db') = filter (\<lambda>b. as_owner b = other) (od_assignments db)"
    and "mr_reassigned r + mr_skipped r = length (filter (\<lambda>b. as_owner b = source) (od_assignments db))"
    and "set (owner_names db') = set (owner_names db) - {source}"
proof -
  obtain db1 db4 where m: "into \<in> set (owner_names db)" "source \<noteq> into"
    "reassign_ownership source into [] [] now db = (db1, mr_reassigned r, mr_skipped r)"
    "add_alias into alias_custom source ''merge'' now
           (db1\<lparr>od_aliases := map (folded source into) (od_aliases db)\<rparr>) = (db4, mr_name_aliased r)"
    "db' = delete_owner_row source db4"
    using merge_owners_Inr [OF assms] by metis
  note s = reassign_ownership_spec [OF m(3) assms(2) m(1,2)]
  have tm: "to_move source [] [] a \<longleftrightarrow> as_owner a = source" for a by (simp add: to_move_def)
  have as4: "od_assignments db4 = od_assignments db1" "owner_names db4 = owner_names db1"
    using m(4) by (auto simp: add_alias_def owner_names_def split: if_splits)
  have none: "as_owner b \<noteq> source" if "b \<in> set (od_assignments db1)" for b
    using s(4) that by (auto simp: tm)
  have as': "od_assignments db' = od_assignments db1"
    using none by (simp add: m(5) delete_owner_row_def delete_where_def as4)
  show "holds (od_assignments db') into e \<longleftrightarrow> holds (od_assignments db) into e \<or> holds (od_assignments db) source e"
    unfolding as' s(3) tm by (auto simp: holds_def list_ex_iff)
  show "filter (\<lambda>b. as_owner b = other) (od_assignments db') = filter (\<lambda>b. as_owner b = other) (od_assignments db)"
    if "other \<noteq> source" "other \<noteq> into"
    unfolding as' by (rule s(5) [OF that])
  show "mr_reassigned r + mr_skipped r = length (filter (\<lambda>b. as_owner b = source) (od_assignments db))"
    using s(2) by (simp add: tm [abs_def])
  show "set (owner_names db') = set (owner_names db) - {source}"
    by (simp add: m(5) as4 s(8))
qed

section \<open>Lemmas on clearing\<close>

lemma fold_delete_owner_row:
  "fold delete_owner_row names db =
     db\<lparr>od_owners := delete_where (\<lambda>r. ow_name r \<in> set names) (od_owners db),
        od_assignments := delete_where (\<lambda>a. as_owner a \<in> set names) (od_assignments db),
        od_aliases := delete_where (\<lambda>l. al_owner l \<in> set names) (od_aliases db)\<rparr>"
  by (induction names arbitrary: db)
     (auto simp: delete_owner_row_def delete_where_def intro!: filter_cong)

lemma fold_delete_owner_row_ok: "ownership_ok db \<Longrightarrow> ownership_ok (fold delete_owner_row names db)"
  by (induction names arbitrary: db) (simp_all add: delete_owner_row_ok)

lemma clear_imported_ok: "ownership_ok db \<Longrightarrow> ownership_ok (fst (clear_imported_ownership db))"
  unfolding clear_imported_ownership_def Let_def fst_conv
  by (rule fold_delete_owner_row_ok) (simp add: ownership_ok_def owner_names_def assignments_ok_delete)

section \<open>Insertions by key\<close>

text \<open>The rows a call with these parameters would add, and whether it can add one at all.\<close>

definition params_key :: "assignment_params \<Rightarrow> string \<times> entity" where
  "params_key p = (ap_owner p, ap_entity_type p, ap_entity_key p, org_key (null_string (ap_org p)))"

definition insertable :: "ownership_db \<Rightarrow> assignment_params \<Rightarrow> bool" where
  "insertable db p =
     (entity_type_ok (ap_entity_type p) \<and> source_ok (ap_source p) \<and> confidence_ok (ap_confidence p)
      \<and> ap_owner p \<in> set (owner_names db))"

lemma assignment_row_fields [simp]:
  "assignment_key (assignment_row p i now) = params_key p" "as_source (assignment_row p i now) = ap_source p"
  "as_rule (assignment_row p i now) = null_string (ap_rule p)" "as_entity_type (assignment_row p i now) = ap_entity_type p"
  "as_entity_key (assignment_row p i now) = ap_entity_key p" "as_org (assignment_row p i now) = null_string (ap_org p)"
  "as_owner (assignment_row p i now) = ap_owner p" "as_id (assignment_row p i now) = i"
  by (simp_all add: assignment_row_def assignment_key_def entity_of_def params_key_def)

definition keys_of :: "ownership_db \<Rightarrow> (string \<times> entity) set" where
  "keys_of db = assignment_key ` set (od_assignments db)"

lemma insert_assignment_cases:
  "insert_assignment p now db =
     (if \<not> entity_type_ok (ap_entity_type p) \<or> \<not> source_ok (ap_source p) \<or> \<not> confidence_ok (ap_confidence p)
      then Inl Own_failed
      else if params_key p \<in> keys_of db then Inl Own_exists
      else if ap_owner p \<notin> set (owner_names db) then Inl Own_failed
      else Inr (assignment_row p (od_next_id db) now,
                db\<lparr>od_assignments := od_assignments db @ [assignment_row p (od_next_id db) now],
                   od_next_id := od_next_id db + 1\<rparr>))"
proof -
  have "list_ex (\<lambda>b. assignment_key b = params_key p) (od_assignments db) \<longleftrightarrow> params_key p \<in> keys_of db"
    by (force simp: keys_of_def list_ex_iff)
  then show ?thesis by (simp add: insert_assignment_def Let_def)
qed

end
