(* ===== verification/Go_Fmt.thy ===== *)
theory Go_Fmt
  imports Prelude
begin

text \<open>
  What \<open>%q\<close> of \<open>fmt\<close> prints for a string in UTF-8 whose characters beyond ASCII are all printable:
  quotes around it, and escapes for the quote, the backslash and the control characters.
\<close>

definition hex_digit :: "nat \<Rightarrow> char" where
  "hex_digit n = char_of (if n < 10 then 48 + n else 87 + n)"

definition quoted_char :: "char \<Rightarrow> string" where
  "quoted_char c =
     (case map_of [(CHR 0x22, CHR 0x22), (CHR 0x5C, CHR 0x5C), (CHR 0x07, CHR ''a''), (CHR 0x08, CHR ''b''),
                   (CHR 0x0C, CHR ''f''), (CHR 0x0A, CHR ''n''), (CHR 0x0D, CHR ''r''), (CHR 0x09, CHR ''t''),
                   (CHR 0x0B, CHR ''v'')] c of
        Some e \<Rightarrow> [CHR 0x5C, e]
      | None \<Rightarrow>
          if (of_char c :: nat) < 32 \<or> of_char c = (127 :: nat)
          then [CHR 0x5C, CHR ''x'', hex_digit (of_char c div 16), hex_digit (of_char c mod 16)] else [c])"

definition quoted :: "string \<Rightarrow> string" where
  "quoted s = CHR 0x22 # concat (map quoted_char s) @ [CHR 0x22]"

end
