(* ===== verification/Ownership_Rules.thy ===== *)
theory Ownership_Rules
  imports Ownership_Store Go_Fmt "HOL-Library.Product_Lexorder"
begin

text \<open>
  Who owns an entity, and the rules that assign owners after a collection: the lookup with its
  inheritance (\<open>LookupOwnership\<close> in \<open>internal/datastore/ownership_assignments.go\<close>), the rules
  (\<open>internal/collector/ownership.go\<close>), their removal at start-up (\<open>startup_cleanup.go\<close>) and their
  validation (\<open>validateOwnership\<close> in \<open>internal/config/config.go\<close>). What collection has stored is
  the record \<open>estate\<close>. Two parts of the standard library are parameters: \<open>compile\<close> is what
  \<open>regexp.Compile\<close> gives, a predicate on strings or nothing, and \<open>show_other\<close> is how \<open>%v\<close> prints a
  number, a list or an object.
\<close>

section \<open>What collection has stored\<close>

record node_row =
  nd_name :: string
  nd_org :: string
  nd_policy :: string
  nd_attrs :: raw_json
  nd_collected :: int

record repo_row =
  rp_name :: string
  rp_url :: string
  rp_fetched :: "int option"

record estate =
  es_nodes :: "node_row list"
  es_server_cookbooks :: "(string \<times> string) list"
  es_repos :: "repo_row list"
  es_roles :: "(string \<times> string) list"

definition nodes_of :: "estate \<Rightarrow> string \<Rightarrow> node_row list" where
  "nodes_of est org = filter (\<lambda>n. nd_org n = org) (es_nodes est)"

section \<open>Lookup\<close>

text \<open>Comparison and disjunction of SQL: \<open>None\<close> is unknown, and a row is kept when the condition is true.\<close>

definition sql_eq :: "string option \<Rightarrow> string option \<Rightarrow> bool option" where
  "sql_eq x y = (case (x, y) of (Some a, Some b) \<Rightarrow> Some (a = b) | _ \<Rightarrow> None)"

definition sql_or :: "bool option \<Rightarrow> bool option \<Rightarrow> bool option" where
  "sql_or p q =
     (if p = Some True \<or> q = Some True then Some True
      else if p = None \<or> q = None then None else Some False)"

text \<open>\<open>organisation_name IS NULL OR organisation_name = $3 OR $3 = ''\<close>\<close>

definition org_condition :: "string option \<Rightarrow> string option \<Rightarrow> bool option" where
  "org_condition org param =
     sql_or (Some (org = None)) (sql_or (sql_eq org param) (sql_eq param (Some [])))"

record lookup_result =
  lr_owner :: string
  lr_display_name :: string
  lr_source :: string
  lr_confidence :: string
  lr_resolution :: string
  lr_inherited_from :: "(string \<times> string) option"

definition source_rank :: "string \<Rightarrow> nat" where
  "source_rank s =
     (if s = source_manual then 1 else if s = source_import then 2 else if s = source_auto_rule then 3 else 4)"

definition owners_of ::
  "string \<Rightarrow> string \<Rightarrow> string \<Rightarrow> string \<Rightarrow> (string \<times> string) option \<Rightarrow> ownership_db \<Rightarrow> lookup_result list" where
  "owners_of et key org resolution inherited db =
     List.map_filter
       (\<lambda>a. map_option
          (\<lambda>r. \<lparr>lr_owner = ow_name r, lr_display_name = ow_display_name r, lr_source = as_source a,
               lr_confidence = as_confidence a, lr_resolution = resolution, lr_inherited_from = inherited\<rparr>)
          (get_owner_by_name (as_owner a) db))
       (sort_key (\<lambda>a. source_rank (as_source a))
          (filter (\<lambda>a. as_entity_type a = et \<and> as_entity_key a = key
                       \<and> org_condition (as_org a) (null_string org) = Some True)
             (od_assignments db)))"

text \<open>The repository of a name fetched last, those never fetched coming after all others.\<close>

definition repo_url :: "estate \<Rightarrow> string \<Rightarrow> string option" where
  "repo_url est name =
     (case sort_key (\<lambda>r. case rp_fetched r of Some t \<Rightarrow> (0 :: int, - t) | None \<Rightarrow> (1, 0))
             (filter (\<lambda>r. rp_name r = name \<and> rp_url r \<noteq> []) (es_repos est)) of
        [] \<Rightarrow> None
      | r # _ \<Rightarrow> Some (rp_url r))"

definition lookup_git_repo_inherited :: "estate \<Rightarrow> string \<Rightarrow> string \<Rightarrow> ownership_db \<Rightarrow> lookup_result list" where
  "lookup_git_repo_inherited est cookbook org db =
     (case repo_url est cookbook of
        None \<Rightarrow> []
      | Some url \<Rightarrow>
          owners_of entity_git_repo cookbook org ''git_repo_inherited'' (Some (entity_git_repo, url)) db)"

definition node_policy :: "estate \<Rightarrow> string \<Rightarrow> string \<Rightarrow> string option" where
  "node_policy est node org =
     (case sort_key (\<lambda>n. - nd_collected n)
             (filter (\<lambda>n. nd_name n = node \<and> (org = [] \<or> nd_org n = org)) (es_nodes est)) of
        [] \<Rightarrow> None
      | n # _ \<Rightarrow> if nd_policy n = [] then None else Some (nd_policy n))"

definition lookup_policy_inherited :: "estate \<Rightarrow> string \<Rightarrow> string \<Rightarrow> ownership_db \<Rightarrow> lookup_result list" where
  "lookup_policy_inherited est node org db =
     (case node_policy est node org of
        None \<Rightarrow> []
      | Some policy \<Rightarrow>
          owners_of entity_policy policy org ''policy_inherited'' (Some (entity_policy, policy)) db)"

definition lookup_ownership ::
  "estate \<Rightarrow> string \<Rightarrow> string \<Rightarrow> string \<Rightarrow> ownership_db \<Rightarrow> lookup_result list" where
  "lookup_ownership est et key org db =
     (let direct = owners_of et key org ''direct'' None db;
          from_repo = (if et = entity_cookbook \<and> direct = []
                       then direct @ lookup_git_repo_inherited est key org db else direct)
      in if et = entity_node \<and> from_repo = []
         then from_repo @ lookup_policy_inherited est key org db else from_repo)"

section \<open>Rules\<close>

record auto_rule =
  ar_name :: string
  ar_owner :: string
  ar_type :: string
  ar_attribute_path :: string
  ar_match_value :: string
  ar_pattern :: string
  ar_policy_name :: string
  ar_organisation :: string
  ar_object_type :: string
  ar_owner_attribute :: string

definition rule_node_attribute :: string where "rule_node_attribute = ''node_attribute''"
definition rule_node_name_pattern :: string where "rule_node_name_pattern = ''node_name_pattern''"
definition rule_policy_match :: string where "rule_policy_match = ''policy_match''"
definition rule_cookbook_name_pattern :: string where "rule_cookbook_name_pattern = ''cookbook_name_pattern''"
definition rule_git_repo_url_pattern :: string where "rule_git_repo_url_pattern = ''git_repo_url_pattern''"
definition rule_role_match :: string where "rule_role_match = ''role_match''"
definition rule_cmdb_attribute :: string where "rule_cmdb_attribute = ''cmdb_attribute''"

lemmas rule_types =
  rule_node_attribute_def rule_node_name_pattern_def rule_policy_match_def rule_cookbook_name_pattern_def
  rule_git_repo_url_pattern_def rule_role_match_def rule_cmdb_attribute_def

text \<open>A value of the stored attributes, decoded into a Go map.\<close>

definition attr_of :: "raw_json \<Rightarrow> string \<Rightarrow> json option" where
  "attr_of raw key = (case raw of RDoc (JObj kvs) \<Rightarrow> map_of (rev kvs) key | _ \<Rightarrow> None)"

definition sprint_v :: "(json \<Rightarrow> string) \<Rightarrow> json \<Rightarrow> string" where
  "sprint_v show_other j =
     (case j of
        JStr s \<Rightarrow> s
      | JBool b \<Rightarrow> (if b then ''true'' else ''false'')
      | JNull \<Rightarrow> ''<nil>''
      | _ \<Rightarrow> show_other j)"

definition match_node_attribute :: "(json \<Rightarrow> string) \<Rightarrow> raw_json \<Rightarrow> string \<Rightarrow> string \<Rightarrow> bool" where
  "match_node_attribute show_other attrs path v =
     (case attr_of attrs path of None \<Rightarrow> False | Some j \<Rightarrow> sprint_v show_other j = v)"

definition extract_cmdb_owner :: "raw_json \<Rightarrow> string \<Rightarrow> string \<Rightarrow> string" where
  "extract_cmdb_owner attrs cmdb_key owner_attr =
     (case attr_of attrs cmdb_key of
        Some (JObj kvs) \<Rightarrow> (case map_of (rev kvs) owner_attr of Some (JStr s) \<Rightarrow> s | _ \<Rightarrow> [])
      | _ \<Rightarrow> [])"

type_synonym entity_match = "string \<times> string"

definition evaluate_node_attribute_rule ::
  "(json \<Rightarrow> string) \<Rightarrow> estate \<Rightarrow> string \<Rightarrow> auto_rule \<Rightarrow> entity_match list option" where
  "evaluate_node_attribute_rule show_other est org r =
     (if ar_attribute_path r = [] then None
      else if ar_match_value r = [] then None
      else Some (map (\<lambda>n. (entity_node, nd_name n))
             (filter (\<lambda>n. match_node_attribute show_other (nd_attrs n) (ar_attribute_path r) (ar_match_value r))
                (nodes_of est org))))"

definition evaluate_node_name_pattern_rule ::
  "(string \<Rightarrow> (string \<Rightarrow> bool) option) \<Rightarrow> estate \<Rightarrow> string \<Rightarrow> auto_rule \<Rightarrow> entity_match list option" where
  "evaluate_node_name_pattern_rule compile est org r =
     (if ar_pattern r = [] then None
      else case compile (ar_pattern r) of
             None \<Rightarrow> None
           | Some re \<Rightarrow> Some (map (\<lambda>n. (entity_node, nd_name n)) (filter (\<lambda>n. re (nd_name n)) (nodes_of est org))))"

text \<open>An exact name wins over a pattern, which then is not even compiled.\<close>

definition name_matcher ::
  "(string \<Rightarrow> (string \<Rightarrow> bool) option) \<Rightarrow> string \<Rightarrow> string \<Rightarrow> (string \<Rightarrow> bool) option" where
  "name_matcher compile exact pattern =
     (if exact = [] \<and> pattern = [] then None
      else if exact \<noteq> [] then Some (\<lambda>s. s = exact)
      else compile pattern)"

definition evaluate_policy_match_rule ::
  "(string \<Rightarrow> (string \<Rightarrow> bool) option) \<Rightarrow> estate \<Rightarrow> string \<Rightarrow> auto_rule \<Rightarrow> entity_match list option" where
  "evaluate_policy_match_rule compile est org r =
     (case name_matcher compile (ar_policy_name r) (ar_pattern r) of
        None \<Rightarrow> None
      | Some matches \<Rightarrow>
          Some (map (\<lambda>n. (entity_node, nd_name n))
            (filter (\<lambda>n. nd_policy n \<noteq> [] \<and> matches (nd_policy n)) (nodes_of est org))))"

text \<open>The first occurrence of each element, as the \<open>seen\<close> maps of the loops keep it.\<close>

definition keep_first :: "'a list \<Rightarrow> 'a list" where
  "keep_first xs = rev (remdups (rev xs))"

definition evaluate_cookbook_name_pattern_rule ::
  "(string \<Rightarrow> (string \<Rightarrow> bool) option) \<Rightarrow> estate \<Rightarrow> string \<Rightarrow> auto_rule \<Rightarrow> entity_match list option" where
  "evaluate_cookbook_name_pattern_rule compile est org r =
     (if ar_pattern r = [] then None
      else case compile (ar_pattern r) of
             None \<Rightarrow> None
           | Some re \<Rightarrow>
               Some (map (\<lambda>name. (entity_cookbook, name))
                 (keep_first (filter re (map snd (filter (\<lambda>c. fst c = org) (es_server_cookbooks est))
                                         @ map rp_name (es_repos est))))))"

definition evaluate_git_repo_url_pattern_rule ::
  "(string \<Rightarrow> (string \<Rightarrow> bool) option) \<Rightarrow> estate \<Rightarrow> auto_rule \<Rightarrow> entity_match list option" where
  "evaluate_git_repo_url_pattern_rule compile est r =
     (if ar_pattern r = [] then None
      else case compile (ar_pattern r) of
             None \<Rightarrow> None
           | Some re \<Rightarrow>
               Some (map (\<lambda>url. (entity_git_repo, url))
                 (filter re (keep_first (filter (\<lambda>url. url \<noteq> []) (map rp_url (es_repos est)))))))"

definition evaluate_role_match_rule ::
  "(string \<Rightarrow> (string \<Rightarrow> bool) option) \<Rightarrow> estate \<Rightarrow> string \<Rightarrow> auto_rule \<Rightarrow> entity_match list option" where
  "evaluate_role_match_rule compile est org r =
     (case name_matcher compile (ar_match_value r) (ar_pattern r) of
        None \<Rightarrow> None
      | Some matches \<Rightarrow>
          Some (map (\<lambda>name. (entity_role, name))
            (filter matches (keep_first (map snd (filter (\<lambda>d. fst d = org) (es_roles est)))))))"

definition evaluate_rule ::
  "(string \<Rightarrow> (string \<Rightarrow> bool) option) \<Rightarrow> (json \<Rightarrow> string) \<Rightarrow> estate \<Rightarrow> string \<Rightarrow> auto_rule \<Rightarrow> entity_match list option" where
  "evaluate_rule compile show_other est org r =
     (if ar_type r = rule_node_attribute then evaluate_node_attribute_rule show_other est org r
      else if ar_type r = rule_node_name_pattern then evaluate_node_name_pattern_rule compile est org r
      else if ar_type r = rule_policy_match then evaluate_policy_match_rule compile est org r
      else if ar_type r = rule_cookbook_name_pattern then evaluate_cookbook_name_pattern_rule compile est org r
      else if ar_type r = rule_git_repo_url_pattern then evaluate_git_repo_url_pattern_rule compile est r
      else if ar_type r = rule_role_match then evaluate_role_match_rule compile est org r
      else None)"

text \<open>A match of a CMDB rule carries the owner the node names.\<close>

definition evaluate_cmdb_attribute_rule :: "estate \<Rightarrow> string \<Rightarrow> auto_rule \<Rightarrow> (entity_match \<times> string) list option" where
  "evaluate_cmdb_attribute_rule est org r =
     (if ar_object_type r = [] then None
      else let owner_attr = (if ar_owner_attribute r = [] then ''owner'' else ar_owner_attribute r);
               owner_at = (\<lambda>n. extract_cmdb_owner (nd_attrs n) (''itil.cmdb.'' @ ar_object_type r) owner_attr)
           in Some (map (\<lambda>n. ((entity_node, nd_name n), owner_at n))
                (filter (\<lambda>n. owner_at n \<noteq> []) (nodes_of est org))))"

section \<open>Applying the rules\<close>

text \<open>The notes a rule leaves on the assignments it makes.\<close>

definition rule_notes :: "auto_rule \<Rightarrow> string" where
  "rule_notes r = ''Auto-assigned by rule '' @ quoted (ar_name r)"

definition cmdb_notes :: "auto_rule \<Rightarrow> string" where
  "cmdb_notes r =
     ''Auto-assigned by CMDB rule '' @ quoted (ar_name r) @ '' from itil.cmdb.'' @ ar_object_type r
     @ ''.'' @ ar_owner_attribute r"

definition rule_params :: "string \<Rightarrow> string \<Rightarrow> string \<Rightarrow> string \<Rightarrow> entity_match \<Rightarrow> assignment_params" where
  "rule_params rule_name org notes name m =
     \<lparr>ap_owner = name, ap_entity_type = fst m, ap_entity_key = snd m, ap_org = org,
      ap_source = source_auto_rule, ap_rule = rule_name, ap_confidence = conf_inferred, ap_notes = notes\<rparr>"

text \<open>The loops over the matches, with the numbers of assignments created and skipped.\<close>

fun create_loop :: "int \<Rightarrow> assignment_params list \<Rightarrow> ownership_db \<Rightarrow> nat \<Rightarrow> nat \<Rightarrow> ownership_db \<times> nat \<times> nat" where
  "create_loop now [] db created skipped = (db, created, skipped)"
| "create_loop now (p # ps) db created skipped =
     (case insert_assignment p now db of
        Inr (a, db') \<Rightarrow> create_loop now ps db' (created + 1) skipped
      | Inl e \<Rightarrow> create_loop now ps db created (if e = Own_exists then skipped + 1 else skipped))"

text \<open>The cache holds the owner a name was resolved to, or the empty string when there was none.\<close>

fun cmdb_loop ::
  "int \<Rightarrow> (string \<Rightarrow> entity_match \<Rightarrow> assignment_params) \<Rightarrow> (entity_match \<times> string) list \<Rightarrow> (string \<rightharpoonup> string)
   \<Rightarrow> ownership_db \<Rightarrow> nat \<Rightarrow> nat \<Rightarrow> ownership_db \<times> nat \<times> nat" where
  "cmdb_loop now params [] cache db created skipped = (db, created, skipped)"
| "cmdb_loop now params ((m, name) # ms) cache db created skipped =
     (let found = (case cache name of
                     Some i \<Rightarrow> i
                   | None \<Rightarrow> (case get_owner_by_name name db of None \<Rightarrow> [] | Some r \<Rightarrow> ow_name r));
          cache' = cache(name \<mapsto> found)
      in if found = [] then cmdb_loop now params ms cache' db created skipped
         else case insert_assignment (params found m) now db of
                Inr (a, db') \<Rightarrow> cmdb_loop now params ms cache' db' (created + 1) skipped
              | Inl e \<Rightarrow> cmdb_loop now params ms cache' db created (if e = Own_exists then skipped + 1 else skipped))"

record rule_totals =
  rt_created :: nat
  rt_removed :: nat
  rt_skipped :: nat

definition evaluate_cmdb_rule ::
  "estate \<Rightarrow> int \<Rightarrow> string \<Rightarrow> auto_rule \<Rightarrow> ownership_db \<Rightarrow> (ownership_db \<times> rule_totals) option" where
  "evaluate_cmdb_rule est now org r db =
     (case evaluate_cmdb_attribute_rule est org r of
        None \<Rightarrow> None
      | Some ms \<Rightarrow>
          (case cmdb_loop now (rule_params (ar_name r) org (cmdb_notes r)) ms Map.empty db 0 0 of
             (db1, created, skipped) \<Rightarrow>
               (case delete_stale_auto_rule_assignments (ar_name r) org
                       (map (\<lambda>(m, name). match_key (fst m) (snd m)) ms) db1 of
                  (db2, removed) \<Rightarrow> Some (db2, \<lparr>rt_created = created, rt_removed = removed, rt_skipped = skipped\<rparr>))))"

definition evaluate_fixed_rule ::
  "(string \<Rightarrow> (string \<Rightarrow> bool) option) \<Rightarrow> (json \<Rightarrow> string) \<Rightarrow> estate \<Rightarrow> int \<Rightarrow> string \<Rightarrow> auto_rule \<Rightarrow> ownership_db
   \<Rightarrow> (ownership_db \<times> rule_totals) option" where
  "evaluate_fixed_rule compile show_other est now org r db =
     (case get_owner_by_name (ar_owner r) db of
        None \<Rightarrow> None
      | Some ow \<Rightarrow>
          (case evaluate_rule compile show_other est org r of
             None \<Rightarrow> None
           | Some ms \<Rightarrow>
               (case create_loop now (map (rule_params (ar_name r) org (rule_notes r) (ow_name ow)) ms) db 0 0 of
                  (db1, created, skipped) \<Rightarrow>
                    (case delete_stale_auto_rule_assignments (ar_name r) org
                            (map (\<lambda>m. match_key (fst m) (snd m)) ms) db1 of
                       (db2, removed) \<Rightarrow>
                         Some (db2, \<lparr>rt_created = created, rt_removed = removed, rt_skipped = skipped\<rparr>)))))"

definition add_totals :: "rule_totals \<Rightarrow> rule_totals \<Rightarrow> rule_totals" where
  "add_totals t u =
     \<lparr>rt_created = rt_created t + rt_created u, rt_removed = rt_removed t + rt_removed u,
      rt_skipped = rt_skipped t + rt_skipped u\<rparr>"

definition evaluate_one_rule ::
  "(string \<Rightarrow> (string \<Rightarrow> bool) option) \<Rightarrow> (json \<Rightarrow> string) \<Rightarrow> estate \<Rightarrow> int \<Rightarrow> string \<Rightarrow> string \<Rightarrow> auto_rule
   \<Rightarrow> ownership_db \<times> rule_totals \<Rightarrow> ownership_db \<times> rule_totals" where
  "evaluate_one_rule compile show_other est now org_id org_name r acc =
     (if ar_organisation r \<noteq> [] \<and> ar_organisation r \<noteq> org_name then acc
      else case (if ar_type r = rule_cmdb_attribute then evaluate_cmdb_rule est now org_id r (fst acc)
                 else evaluate_fixed_rule compile show_other est now org_id r (fst acc)) of
             None \<Rightarrow> acc
           | Some (db', t) \<Rightarrow> (db', add_totals (snd acc) t))"

definition evaluate_after_collection ::
  "(string \<Rightarrow> (string \<Rightarrow> bool) option) \<Rightarrow> (json \<Rightarrow> string) \<Rightarrow> auto_rule list \<Rightarrow> estate \<Rightarrow> int \<Rightarrow> string \<Rightarrow> string
   \<Rightarrow> ownership_db \<Rightarrow> ownership_db \<times> rule_totals" where
  "evaluate_after_collection compile show_other rules est now org_id org_name db =
     fold (evaluate_one_rule compile show_other est now org_id org_name) rules
       (db, \<lparr>rt_created = 0, rt_removed = 0, rt_skipped = 0\<rparr>)"

section \<open>Start-up and configuration\<close>

definition cleanup_one :: "string list \<Rightarrow> string \<Rightarrow> ownership_db \<Rightarrow> ownership_db" where
  "cleanup_one configured name db =
     (if name \<in> set configured then db
      else case delete_auto_rule_assignments_by_name name db of
             (db', deleted) \<Rightarrow>
               if deleted > 0 then audit ''system'' ''assignment_deleted'' [] [] [] []
                      (JObj [(''auto_rule_name'', JStr name), (''count'', JNum (of_nat deleted)),
                             (''reason'', JStr ''rule_removed_from_config'')]) db' else db')"

definition cleanup_removed_auto_rules :: "auto_rule list \<Rightarrow> ownership_db \<Rightarrow> ownership_db" where
  "cleanup_removed_auto_rules rules db =
     fold (cleanup_one (map ar_name rules)) (list_distinct_auto_rule_names db) db"

datatype rule_fault =
  Name_required nat | Name_duplicated nat | Owner_required nat | Field_required nat string
  | Object_type_invalid nat | Owner_not_allowed nat | Type_required nat | Type_invalid nat

definition required :: "nat \<Rightarrow> string \<Rightarrow> string \<Rightarrow> rule_fault list" where
  "required i field v = (if v = [] then [Field_required i field] else [])"

definition type_faults :: "nat \<Rightarrow> auto_rule \<Rightarrow> rule_fault list" where
  "type_faults i r =
     (if ar_type r = rule_node_attribute
      then required i ''attribute_path'' (ar_attribute_path r) @ required i ''match_value'' (ar_match_value r)
      else if ar_type r = rule_node_name_pattern \<or> ar_type r = rule_cookbook_name_pattern
              \<or> ar_type r = rule_git_repo_url_pattern \<or> ar_type r = rule_role_match
      then required i ''pattern'' (ar_pattern r)
      else if ar_type r = rule_policy_match
      then (if ar_policy_name r = [] \<and> ar_pattern r = [] then [Field_required i ''policy_name''] else [])
      else if ar_type r = rule_cmdb_attribute
      then (if ar_object_type r = [] then [Field_required i ''object_type'']
            else if ar_object_type r \<notin> set [''node'', ''cookbook'', ''profile'', ''role'']
            then [Object_type_invalid i] else [])
           @ (if ar_owner r \<noteq> [] then [Owner_not_allowed i] else [])
      else if ar_type r = [] then [Type_required i] else [Type_invalid i])"

fun rule_faults :: "nat \<Rightarrow> string list \<Rightarrow> auto_rule list \<Rightarrow> rule_fault list" where
  "rule_faults i names [] = []"
| "rule_faults i names (r # rs) =
     (if ar_name r = [] then [Name_required i]
      else if ar_name r \<in> set names then [Name_duplicated i] else [])
     @ (if ar_type r \<noteq> rule_cmdb_attribute \<and> ar_owner r = [] then [Owner_required i] else [])
     @ type_faults i r
     @ rule_faults (i + 1) (if ar_name r = [] then names else ar_name r # names) rs"

definition validate_ownership :: "auto_rule list \<Rightarrow> rule_fault list" where
  "validate_ownership rules = rule_faults 0 [] rules"

section \<open>Lemmas on the loops\<close>

text \<open>What a run over the rules leaves alone: everything but the assignments.\<close>

definition same_frame :: "ownership_db \<Rightarrow> ownership_db \<Rightarrow> bool" where
  "same_frame db db' =
     (od_owners db' = od_owners db \<and> od_aliases db' = od_aliases db \<and> od_audit db' = od_audit db)"

lemma same_frame_refl [simp]: "same_frame db db"
  and same_frame_trans: "same_frame a b \<Longrightarrow> same_frame b c \<Longrightarrow> same_frame a c"
  and same_frame_owner: "same_frame db db' \<Longrightarrow> get_owner_by_name name db' = get_owner_by_name name db"
  and same_frame_names: "same_frame db db' \<Longrightarrow> owner_names db' = owner_names db"
  by (auto simp: same_frame_def get_owner_by_name_def owner_names_def)

text \<open>\<open>grown ps db db'\<close>: rows for some of the parameters \<open>ps\<close> have been added at the end of the table.\<close>

definition grown :: "assignment_params list \<Rightarrow> ownership_db \<Rightarrow> ownership_db \<Rightarrow> bool" where
  "grown ps db db' =
     (same_frame db db'
      \<and> (\<exists>new. od_assignments db' = od_assignments db @ new
               \<and> (\<forall>a \<in> set new. \<exists>p \<in> set ps. \<exists>i t. a = assignment_row p i t)))"

lemma grown_Cons: "grown ps db db' \<Longrightarrow> grown (p # ps) db db'"
  unfolding grown_def by (metis list.set_intros(2))

lemma create_loop_spec:
  assumes "create_loop now ps db c s = (db', c', s')" "ownership_ok db"
  shows "ownership_ok db' \<and> grown ps db db' \<and> keys_of db' = keys_of db \<union> params_key ` {p \<in> set ps. insertable db p}
    \<and> ({p \<in> set ps. insertable db p \<and> params_key p \<notin> keys_of db} = {} \<longrightarrow> db' = db \<and> c' = c)"
  using assms
proof (induction ps arbitrary: db c s)
  case Nil
  then show ?case by (simp add: grown_def)
next
  case (Cons p ps)
  show ?case
  proof (cases "insert_assignment p now db")
    case (Inl e)
    have "insertable db p \<Longrightarrow> params_key p \<in> keys_of db"
      using Inl by (auto simp: insert_assignment_cases insertable_def split: if_splits)
    moreover have "create_loop now ps db c (if e = Own_exists then s + 1 else s) = (db', c', s')"
      using Cons.prems(1) Inl by simp
    ultimately have ih: "ownership_ok db'" "grown ps db db'"
        "keys_of db' = keys_of db \<union> params_key ` {p \<in> set ps. insertable db p}"
        "{p \<in> set ps. insertable db p \<and> params_key p \<notin> keys_of db} = {} \<longrightarrow> db' = db \<and> c' = c"
        and p: "insertable db p \<Longrightarrow> params_key p \<in> keys_of db"
      using Cons.IH [of db c] Cons.prems(2) by blast+
    have "{q \<in> set (p # ps). insertable db q \<and> params_key q \<notin> keys_of db}
        = {q \<in> set ps. insertable db q \<and> params_key q \<notin> keys_of db}"
      using p by auto
    moreover have "keys_of db' = keys_of db \<union> params_key ` {q \<in> set (p # ps). insertable db q}"
      using ih(3) p by auto
    ultimately show ?thesis using ih grown_Cons by simp
  next
    case (Inr x)
    obtain a d where x: "x = (a, d)" by fastforce
    have a: "a = assignment_row p (od_next_id db) now" and k: "params_key p \<notin> keys_of db" "insertable db p"
      and d: "d = db\<lparr>od_assignments := od_assignments db @ [a], od_next_id := od_next_id db + 1\<rparr>"
      using Inr x by (auto simp: insert_assignment_cases insertable_def split: if_splits)
    have f: "same_frame db d" by (simp add: d same_frame_def)
    have kd: "keys_of d = insert (params_key p) (keys_of db)" by (simp add: d keys_of_def a)
    have ins: "insertable d q \<longleftrightarrow> insertable db q" for q by (simp add: insertable_def same_frame_names [OF f])
    have "ownership_ok d" using insert_assignment_ok Cons.prems(2) Inr x by blast
    moreover have "create_loop now ps d (c + 1) s = (db', c', s')"
      using Cons.prems(1) Inr x by simp
    ultimately have ih: "ownership_ok db'" "grown ps d db'"
        "keys_of db' = keys_of d \<union> params_key ` {p \<in> set ps. insertable db p}"
      using Cons.IH [of d] ins by blast+
    have "grown (p # ps) db db'"
      using ih(2) f same_frame_trans unfolding grown_def by (fastforce simp: d a)
    then show ?thesis using ih kd k by auto
  qed
qed

lemma delete_loop_spec:
  "ownership_ok db \<Longrightarrow> distinct (map as_id rows) \<Longrightarrow> set rows \<subseteq> set (od_assignments db)
    \<Longrightarrow> delete_loop rows db n =
          (db\<lparr>od_assignments := delete_where (\<lambda>a. a \<in> set rows) (od_assignments db)\<rparr>, n + length rows)"
proof (induction rows arbitrary: db n)
  case Nil
  then show ?case by (simp add: delete_where_def)
next
  case (Cons a rows)
  let ?t = "od_assignments db"
  have d: "distinct (map as_id ?t)" using Cons.prems(1) by (simp add: ownership_ok_def assignments_ok_def)
  have a: "a \<in> set ?t" using Cons.prems(3) by simp
  have one: "delete_where (\<lambda>b. as_id b = as_id a) ?t = delete_where (\<lambda>b. b = a) ?t"
    unfolding delete_where_def by (rule filter_cong) (use only_row_with_id [OF d a] in auto)
  let ?db = "db\<lparr>od_assignments := delete_where (\<lambda>b. b = a) ?t\<rparr>"
  have del: "delete_assignment (as_id a) db = Inr ?db"
    using a by (simp add: delete_assignment_def one)
  have "ownership_ok ?db" by (rule delete_assignment_ok [OF del Cons.prems(1)])
  moreover have "set rows \<subseteq> set (od_assignments ?db)"
    using Cons.prems(2,3) by auto
  ultimately show ?case
    using Cons.IH [of ?db "n + 1"] Cons.prems(2) del
    by (simp add: delete_where_def conj_commute)
qed

lemma is_stale_iff:
  "is_stale rule org keys a \<longleftrightarrow> a \<in> {x. as_source x = source_auto_rule \<and> as_rule x = Some rule
      \<and> (org = [] \<or> as_org x = Some org)} \<and> match_key (as_entity_type a) (as_entity_key a) \<notin> set keys"
  by (auto simp: is_stale_def)

lemma delete_stale_spec:
  assumes "ownership_ok db"
  shows "delete_stale_auto_rule_assignments rule org keys db =
     (db\<lparr>od_assignments := delete_where (is_stale rule org keys) (od_assignments db)\<rparr>,
      length (filter (is_stale rule org keys) (od_assignments db)))"
proof -
  let ?rows = "filter (is_stale rule org keys) (od_assignments db)"
  have rows: "filter (\<lambda>a. match_key (as_entity_type a) (as_entity_key a) \<notin> set keys)
      (list_auto_rule_assignments rule org db) = ?rows"
    unfolding list_auto_rule_assignments_def filter_filter by (rule filter_cong) (auto simp: is_stale_def)
  have "distinct (map as_id ?rows)"
    using assms by (simp add: ownership_ok_def assignments_ok_def distinct_map_filter)
  moreover have "delete_where (\<lambda>a. a \<in> set ?rows) (od_assignments db) = delete_where (is_stale rule org keys) (od_assignments db)"
    unfolding delete_where_def by (rule filter_cong) auto
  ultimately show ?thesis
    unfolding delete_stale_auto_rule_assignments_def rows
    using delete_loop_spec [OF assms, of ?rows 0] by auto
qed

text \<open>The loop of a CMDB rule is the common loop over the matches whose owner exists.\<close>

definition found_params ::
  "(string \<Rightarrow> entity_match \<Rightarrow> assignment_params) \<Rightarrow> ownership_db \<Rightarrow> (entity_match \<times> string) list \<Rightarrow> assignment_params list" where
  "found_params params db ms =
     map (\<lambda>(m, name). params name m) (filter (\<lambda>(m, name). name \<noteq> [] \<and> name \<in> set (owner_names db)) ms)"

definition cache_ok :: "ownership_db \<Rightarrow> (string \<rightharpoonup> string) \<Rightarrow> bool" where
  "cache_ok db cache =
     (\<forall>name i. cache name = Some i \<longrightarrow> i = (if name \<in> set (owner_names db) then name else []))"

lemma cache_okD: "cache_ok db cache \<Longrightarrow> cache name = Some i \<Longrightarrow> i = (if name \<in> set (owner_names db) then name else [])"
  unfolding cache_ok_def by blast

lemma get_owner_name: "(case get_owner_by_name name db of None \<Rightarrow> [] | Some r \<Rightarrow> ow_name r) =
    (if name \<in> set (owner_names db) then name else [])"
  using row_of_Some [of ow_name name "od_owners db"] row_of_None [of ow_name name "od_owners db"]
  by (auto simp: get_owner_by_name_def owner_names_def split: option.split)

lemma cmdb_loop_eq:
  "cache_ok db cache \<Longrightarrow> cmdb_loop now params ms cache db c s = create_loop now (found_params params db ms) db c s"
proof (induction ms arbitrary: cache db c s)
  case Nil
  then show ?case by (simp add: found_params_def)
next
  case (Cons x ms)
  obtain m name where x: "x = (m, name)" by fastforce
  let ?f = "if name \<in> set (owner_names db) then name else []"
  have f: "(case cache name of Some i \<Rightarrow> i
      | None \<Rightarrow> (case get_owner_by_name name db of None \<Rightarrow> [] | Some r \<Rightarrow> ow_name r)) = ?f"
    using cache_okD [OF Cons.prems] by (cases "cache name") (simp_all add: get_owner_name)
  have c': "cache_ok db (cache(name \<mapsto> ?f))"
    unfolding cache_ok_def
  proof (intro allI impI)
    fix n i assume "(cache(name \<mapsto> ?f)) n = Some i"
    then show "i = (if n \<in> set (owner_names db) then n else [])"
      using cache_okD [OF Cons.prems, of n i] by (cases "n = name"; cases "name \<in> set (owner_names db)") simp_all
  qed
  show ?case
  proof (cases "?f = []")
    case True
    then have "found_params params db (x # ms) = found_params params db ms"
      by (auto simp: found_params_def x split: if_splits)
    moreover have "cmdb_loop now params (x # ms) cache db c s = cmdb_loop now params ms (cache(name \<mapsto> ?f)) db c s"
      using True unfolding x cmdb_loop.simps Let_def f by simp
    ultimately show ?thesis using Cons.IH [OF c'] by simp
  next
    case False
    then have n: "name \<noteq> []" "name \<in> set (owner_names db)" by (auto split: if_splits)
    have fp: "found_params params db ((m, name) # ms) = params name m # found_params params db ms"
      using n by (simp add: found_params_def)
    have c'': "cache_ok db (cache(name \<mapsto> name))" using c' n(2) by simp
    show ?thesis
    proof (cases "insert_assignment (params name m) now db")
      case (Inl e)
      then show ?thesis
        using n unfolding x fp cmdb_loop.simps Let_def f by (simp add: Cons.IH [OF c''])
    next
      case (Inr y)
      obtain a d where y: "y = (a, d)" by fastforce
      have o': "owner_names d = owner_names db"
        using insert_assignment_Inr(2) [of "params name m" now db a d] Inr y by (simp add: owner_names_def)
      have cd: "cache_ok d (cache(name \<mapsto> name))" using c'' by (simp add: cache_ok_def o')
      have "found_params params d ms = found_params params db ms" by (simp add: found_params_def o')
      then show ?thesis
        using n Inr y unfolding x fp cmdb_loop.simps Let_def f by (simp add: Cons.IH [OF cd])
    qed
  qed
qed

section \<open>Runs that settle\<close>

text \<open>
  The contract between a run over rules and its store: a step leaves its own rule clean (nothing
  stale) and keeps the others clean, a step that has nothing to remove makes its rule full (all it
  wants is there) and keeps the others full, and a step with nothing to do does nothing.
\<close>

locale settling_run =
  fixes ok :: "'s \<Rightarrow> bool"
    and name :: "'r \<Rightarrow> 'n"
    and step :: "'r \<Rightarrow> 's \<Rightarrow> 's"
    and clean :: "'r \<Rightarrow> 's \<Rightarrow> bool"
    and full :: "'r \<Rightarrow> 's \<Rightarrow> bool"
  assumes ok_step: "ok s \<Longrightarrow> ok (step r s)"
    and clean_step: "ok s \<Longrightarrow> clean r (step r s)"
    and clean_other: "ok s \<Longrightarrow> name q \<noteq> name r \<Longrightarrow> clean q s \<Longrightarrow> clean q (step r s)"
    and full_step: "ok s \<Longrightarrow> clean r s \<Longrightarrow> full r (step r s)"
    and full_other: "ok s \<Longrightarrow> clean r s \<Longrightarrow> full q s \<Longrightarrow> full q (step r s)"
    and idle: "ok s \<Longrightarrow> clean r s \<Longrightarrow> full r s \<Longrightarrow> step r s = s"
begin

lemma ok_run: "ok s \<Longrightarrow> ok (fold step rs s)"
  by (induction rs arbitrary: s) (simp_all add: ok_step)

lemma clean_kept: "ok s \<Longrightarrow> name q \<notin> name ` set rs \<Longrightarrow> clean q s \<Longrightarrow> clean q (fold step rs s)"
  by (induction rs arbitrary: s) (auto simp: ok_step clean_other)

lemma clean_run: "ok s \<Longrightarrow> distinct (map name rs) \<Longrightarrow> q \<in> set rs \<Longrightarrow> clean q (fold step rs s)"
proof (induction rs arbitrary: s)
  case (Cons r rs)
  show ?case
  proof (cases "q = r")
    case True
    then show ?thesis
      using clean_kept [OF ok_step [OF Cons.prems(1)], of q rs r] clean_step [OF Cons.prems(1)] Cons.prems(2)
      by simp
  next
    case False
    then show ?thesis using Cons by (simp add: ok_step)
  qed
qed simp

definition all_clean :: "'r list \<Rightarrow> 's \<Rightarrow> bool" where
  "all_clean rs s = (ok s \<and> (\<forall>r \<in> set rs. clean r s))"

lemma all_clean_step:
  assumes "all_clean rs s" "distinct (map name rs)" "r \<in> set rs"
  shows "all_clean rs (step r s)"
proof -
  have "clean q (step r s)" if "q \<in> set rs" for q
    using assms that clean_step [of s r] clean_other [of s q r]
    by (cases "q = r") (auto simp: all_clean_def distinct_map dest: inj_onD)
  then show ?thesis using assms(1) by (simp add: all_clean_def ok_step)
qed

lemma full_run:
  "all_clean rs s \<Longrightarrow> distinct (map name rs) \<Longrightarrow> set as \<subseteq> set rs \<Longrightarrow>
     all_clean rs (fold step as s) \<and> (\<forall>q. q \<in> set as \<or> full q s \<longrightarrow> full q (fold step as s))"
proof (induction as arbitrary: s)
  case (Cons a as)
  then have "all_clean rs (step a s)" by (simp add: all_clean_step)
  moreover have "full a (step a s)" and "full q s \<Longrightarrow> full q (step a s)" for q
    using Cons.prems full_step [of s a] full_other [of s a q] by (auto simp: all_clean_def)
  ultimately show ?case using Cons.IH [of "step a s"] Cons.prems by auto
qed simp

lemma idle_run:
  "ok s \<Longrightarrow> (\<forall>r \<in> set rs. clean r s \<and> full r s) \<Longrightarrow> fold step rs s = s"
  by (induction rs) (simp_all add: idle)

theorem settles:
  assumes "ok s" "distinct (map name rs)"
  shows "fold step rs (fold step rs (fold step rs s)) = fold step rs (fold step rs s)"
proof -
  have "all_clean rs (fold step rs s)"
    using assms clean_run ok_run by (auto simp: all_clean_def)
  then have f: "all_clean rs (fold step rs (fold step rs s))" "\<forall>q \<in> set rs. full q (fold step rs (fold step rs s))"
    using full_run [of rs "fold step rs s" rs] assms(2) by auto
  then show ?thesis by (intro idle_run) (auto simp: all_clean_def)
qed

end

section \<open>A rule as a plan\<close>

text \<open>What a rule would insert and which keys it keeps; it depends on the owners alone.\<close>

definition rule_plan ::
  "(string \<Rightarrow> (string \<Rightarrow> bool) option) \<Rightarrow> (json \<Rightarrow> string) \<Rightarrow> estate \<Rightarrow> string \<Rightarrow> string \<Rightarrow> auto_rule \<Rightarrow> ownership_db
   \<Rightarrow> (assignment_params list \<times> string list) option" where
  "rule_plan compile show_other est org_id org_name r db =
     (if ar_organisation r \<noteq> [] \<and> ar_organisation r \<noteq> org_name then None
      else if ar_type r = rule_cmdb_attribute
      then map_option
             (\<lambda>ms. (found_params (rule_params (ar_name r) org_id (cmdb_notes r)) db ms,
                    map (\<lambda>(m, name). match_key (fst m) (snd m)) ms))
             (evaluate_cmdb_attribute_rule est org_id r)
      else case get_owner_by_name (ar_owner r) db of
             None \<Rightarrow> None
           | Some ow \<Rightarrow>
               map_option
                 (\<lambda>ms. (map (rule_params (ar_name r) org_id (rule_notes r) (ow_name ow)) ms,
                        map (\<lambda>m. match_key (fst m) (snd m)) ms))
                 (evaluate_rule compile show_other est org_id r))"

definition carry_out :: "int \<Rightarrow> string \<Rightarrow> auto_rule \<Rightarrow> assignment_params list \<times> string list \<Rightarrow> ownership_db \<Rightarrow> ownership_db" where
  "carry_out now org r plan db =
     (let db1 = fst (create_loop now (fst plan) db 0 0)
      in db1\<lparr>od_assignments := delete_where (is_stale (ar_name r) org (snd plan)) (od_assignments db1)\<rparr>)"

definition rule_step ::
  "(string \<Rightarrow> (string \<Rightarrow> bool) option) \<Rightarrow> (json \<Rightarrow> string) \<Rightarrow> estate \<Rightarrow> int \<Rightarrow> string \<Rightarrow> string \<Rightarrow> auto_rule
   \<Rightarrow> ownership_db \<Rightarrow> ownership_db" where
  "rule_step compile show_other est now org_id org_name r db =
     fst (evaluate_one_rule compile show_other est now org_id org_name r
            (db, \<lparr>rt_created = 0, rt_removed = 0, rt_skipped = 0\<rparr>))"

lemma create_loop_fst:
  "ownership_ok db \<Longrightarrow> ownership_ok (fst (create_loop now ps db 0 0))
     \<and> grown ps db (fst (create_loop now ps db 0 0))
     \<and> keys_of (fst (create_loop now ps db 0 0)) = keys_of db \<union> params_key ` {p \<in> set ps. insertable db p}
     \<and> ((\<forall>p \<in> set ps. insertable db p \<longrightarrow> params_key p \<in> keys_of db) \<longrightarrow> fst (create_loop now ps db 0 0) = db)"
  using create_loop_spec [of now ps db 0 0] by (cases "create_loop now ps db 0 0") auto

lemma carry_out_code:
  assumes "ownership_ok db"
  shows "\<exists>t. (case create_loop now ps db 0 0 of
                (db1, created, skipped) \<Rightarrow>
                  (case delete_stale_auto_rule_assignments (ar_name r) org keys db1 of
                     (db2, removed) \<Rightarrow>
                       Some (db2, \<lparr>rt_created = created, rt_removed = removed, rt_skipped = skipped\<rparr>)))
             = Some (carry_out now org r (ps, keys) db, t)"
proof -
  obtain d c k where d: "create_loop now ps db 0 0 = (d, c, k)" by (metis prod_cases3)
  then have "ownership_ok d" using create_loop_fst [OF assms, of now ps] by simp
  then show ?thesis using d by (simp add: delete_stale_spec carry_out_def Let_def)
qed

lemma cmdb_rule_effect:
  assumes "ownership_ok db"
  shows "(case evaluate_cmdb_rule est now org r db of None \<Rightarrow> db | Some (d, t) \<Rightarrow> d) =
     (case evaluate_cmdb_attribute_rule est org r of
        None \<Rightarrow> db
      | Some ms \<Rightarrow> carry_out now org r
          (found_params (rule_params (ar_name r) org (cmdb_notes r)) db ms,
           map (\<lambda>(m, name). match_key (fst m) (snd m)) ms) db)"
proof (cases "evaluate_cmdb_attribute_rule est org r")
  case (Some ms)
  have "cache_ok db Map.empty" by (simp add: cache_ok_def)
  moreover obtain t where "(case create_loop now
        (found_params (rule_params (ar_name r) org (cmdb_notes r)) db ms) db 0 0 of
      (db1, created, skipped) \<Rightarrow>
        (case delete_stale_auto_rule_assignments (ar_name r) org (map (\<lambda>(m, name). match_key (fst m) (snd m)) ms) db1 of
           (db2, removed) \<Rightarrow> Some (db2, \<lparr>rt_created = created, rt_removed = removed, rt_skipped = skipped\<rparr>)))
    = Some (carry_out now org r
        (found_params (rule_params (ar_name r) org (cmdb_notes r)) db ms,
         map (\<lambda>(m, name). match_key (fst m) (snd m)) ms) db, t)"
    using carry_out_code [OF assms] by blast
  ultimately show ?thesis by (simp add: evaluate_cmdb_rule_def Some cmdb_loop_eq)
qed (simp add: evaluate_cmdb_rule_def)

lemma fixed_rule_effect:
  assumes "ownership_ok db"
  shows "(case evaluate_fixed_rule compile show_other est now org r db of None \<Rightarrow> db | Some (d, t) \<Rightarrow> d) =
     (case get_owner_by_name (ar_owner r) db of
        None \<Rightarrow> db
      | Some ow \<Rightarrow>
          (case evaluate_rule compile show_other est org r of
             None \<Rightarrow> db
           | Some ms \<Rightarrow> carry_out now org r
               (map (rule_params (ar_name r) org (rule_notes r) (ow_name ow)) ms,
                map (\<lambda>m. match_key (fst m) (snd m)) ms) db))"
proof (cases "get_owner_by_name (ar_owner r) db")
  case (Some ow)
  show ?thesis
  proof (cases "evaluate_rule compile show_other est org r")
    case (Some ms)
    obtain t where "(case create_loop now (map (rule_params (ar_name r) org (rule_notes r) (ow_name ow)) ms) db 0 0 of
        (db1, created, skipped) \<Rightarrow>
          (case delete_stale_auto_rule_assignments (ar_name r) org (map (\<lambda>m. match_key (fst m) (snd m)) ms) db1 of
             (db2, removed) \<Rightarrow> Some (db2, \<lparr>rt_created = created, rt_removed = removed, rt_skipped = skipped\<rparr>)))
      = Some (carry_out now org r
          (map (rule_params (ar_name r) org (rule_notes r) (ow_name ow)) ms,
           map (\<lambda>m. match_key (fst m) (snd m)) ms) db, t)"
      using carry_out_code [OF assms] by blast
    then show ?thesis using \<open>get_owner_by_name (ar_owner r) db = Some ow\<close> Some
      by (simp add: evaluate_fixed_rule_def)
  qed (simp add: evaluate_fixed_rule_def Some)
qed (simp add: evaluate_fixed_rule_def)

lemma rule_step_plan:
  assumes "ownership_ok db"
  shows "rule_step compile show_other est now org_id org_name r db =
     (case rule_plan compile show_other est org_id org_name r db of
        None \<Rightarrow> db | Some plan \<Rightarrow> carry_out now org_id r plan db)"
proof -
  have s: "rule_step compile show_other est now org_id org_name r db =
     (if ar_organisation r \<noteq> [] \<and> ar_organisation r \<noteq> org_name then db
      else if ar_type r = rule_cmdb_attribute
      then (case evaluate_cmdb_rule est now org_id r db of None \<Rightarrow> db | Some (d, t) \<Rightarrow> d)
      else (case evaluate_fixed_rule compile show_other est now org_id r db of None \<Rightarrow> db | Some (d, t) \<Rightarrow> d))"
    by (simp add: rule_step_def evaluate_one_rule_def split: option.split)
  show ?thesis
    unfolding s cmdb_rule_effect [OF assms] fixed_rule_effect [OF assms]
    by (simp add: rule_plan_def split: option.split)
qed

lemma evaluate_after_collection_fold:
  "fst (fold (evaluate_one_rule compile show_other est now org_id org_name) rules acc)
     = fold (rule_step compile show_other est now org_id org_name) rules (fst acc)"
proof (induction rules arbitrary: acc)
  case (Cons r rules)
  have "fst (evaluate_one_rule compile show_other est now org_id org_name r acc)
      = rule_step compile show_other est now org_id org_name r (fst acc)"
    by (auto simp: rule_step_def evaluate_one_rule_def split: option.split)
  then show ?case using Cons.IH by simp
qed simp

lemma rule_plan_frame:
  "same_frame db db' \<Longrightarrow> rule_plan compile show_other est org_id org_name r db'
     = rule_plan compile show_other est org_id org_name r db"
  by (simp add: rule_plan_def same_frame_owner found_params_def same_frame_names)

lemma rule_plan_params:
  assumes "rule_plan compile show_other est org_id org_name r db = Some (ps, keys)" "p \<in> set ps"
  shows "ap_rule p = ar_name r" "ap_source p = source_auto_rule" "ap_org p = org_id"
    "match_key (ap_entity_type p) (ap_entity_key p) \<in> set keys"
  using assms
  by (force simp: rule_plan_def found_params_def rule_params_def split: if_splits option.splits)+

section \<open>The rules settle\<close>

definition rule_clean ::
  "(string \<Rightarrow> (string \<Rightarrow> bool) option) \<Rightarrow> (json \<Rightarrow> string) \<Rightarrow> estate \<Rightarrow> string \<Rightarrow> string \<Rightarrow> auto_rule \<Rightarrow> ownership_db \<Rightarrow> bool" where
  "rule_clean compile show_other est org_id org_name r db =
     (case rule_plan compile show_other est org_id org_name r db of
        None \<Rightarrow> True
      | Some plan \<Rightarrow> \<not> list_ex (is_stale (ar_name r) org_id (snd plan)) (od_assignments db))"

definition rule_full ::
  "(string \<Rightarrow> (string \<Rightarrow> bool) option) \<Rightarrow> (json \<Rightarrow> string) \<Rightarrow> estate \<Rightarrow> string \<Rightarrow> string \<Rightarrow> auto_rule \<Rightarrow> ownership_db \<Rightarrow> bool" where
  "rule_full compile show_other est org_id org_name r db =
     (case rule_plan compile show_other est org_id org_name r db of
        None \<Rightarrow> True
      | Some plan \<Rightarrow> \<forall>p \<in> set (fst plan). insertable db p \<longrightarrow> params_key p \<in> keys_of db)"

lemma carry_out_frame: "ownership_ok db \<Longrightarrow> same_frame db (carry_out now org r plan db)"
  using create_loop_fst [of db now "fst plan"] by (simp add: carry_out_def Let_def grown_def same_frame_def)

lemma carry_out_ok: "ownership_ok db \<Longrightarrow> ownership_ok (carry_out now org r plan db)"
  using create_loop_fst [of db now "fst plan"]
  by (simp add: carry_out_def Let_def ownership_ok_def owner_names_def assignments_ok_delete)

lemma carry_out_rows:
  assumes "ownership_ok db" "a \<in> set (od_assignments (carry_out now org r plan db))"
  shows "\<not> is_stale (ar_name r) org (snd plan) a"
    "a \<in> set (od_assignments db) \<or> (\<exists>p \<in> set (fst plan). \<exists>i t. a = assignment_row p i t)"
proof -
  show "\<not> is_stale (ar_name r) org (snd plan) a"
    using assms(2) by (simp add: carry_out_def Let_def)
  obtain new where "od_assignments (fst (create_loop now (fst plan) db 0 0)) = od_assignments db @ new"
    "\<forall>a \<in> set new. \<exists>p \<in> set (fst plan). \<exists>i t. a = assignment_row p i t"
    using create_loop_fst [OF assms(1), of now "fst plan"] unfolding grown_def by blast
  then show "a \<in> set (od_assignments db) \<or> (\<exists>p \<in> set (fst plan). \<exists>i t. a = assignment_row p i t)"
    using assms(2) by (auto simp: carry_out_def Let_def)
qed

text \<open>A rule with nothing stale removes nothing: the rows it has just added match.\<close>

lemma carry_out_clean:
  assumes "ownership_ok db" "rule_plan compile show_other est org_id org_name r db = Some plan"
    and "rule_clean compile show_other est org_id org_name r db"
  shows "carry_out now org_id r plan db = fst (create_loop now (fst plan) db 0 0)"
proof -
  let ?d = "fst (create_loop now (fst plan) db 0 0)"
  obtain new where n: "od_assignments ?d = od_assignments db @ new"
    "\<forall>a \<in> set new. \<exists>p \<in> set (fst plan). \<exists>i t. a = assignment_row p i t"
    using create_loop_fst [OF assms(1), of now "fst plan"] unfolding grown_def by blast
  have "\<not> is_stale (ar_name r) org_id (snd plan) a" if "a \<in> set (od_assignments db)" for a
    using assms(2,3) that by (auto simp: rule_clean_def list_ex_iff)
  moreover have "\<not> is_stale (ar_name r) org_id (snd plan) a" if new_row: "a \<in> set new" for a
  proof -
    obtain p i t where "p \<in> set (fst plan)" "a = assignment_row p i t" using n(2) new_row by blast
    then show ?thesis
      using rule_plan_params(4) [of compile show_other est org_id org_name r db "fst plan" "snd plan" p] assms(2)
      by (simp add: is_stale_def)
  qed
  ultimately have "delete_where (is_stale (ar_name r) org_id (snd plan)) (od_assignments ?d) = od_assignments ?d"
    unfolding delete_where_def n(1) by (intro filter_True) auto
  then show ?thesis by (simp add: carry_out_def Let_def)
qed

lemma insertable_frame: "same_frame db db' \<Longrightarrow> insertable db' p = insertable db p"
  by (simp add: insertable_def same_frame_names)

interpretation evaluation: settling_run
  ownership_ok ar_name "rule_step compile show_other est now org_id org_name"
  "rule_clean compile show_other est org_id org_name" "rule_full compile show_other est org_id org_name"
  for compile show_other est now org_id org_name
proof
  fix db r q
  let ?plan = "\<lambda>r. rule_plan compile show_other est org_id org_name r"
  let ?step = "rule_step compile show_other est now org_id org_name"
  let ?clean = "rule_clean compile show_other est org_id org_name"
  let ?full = "rule_full compile show_other est org_id org_name"
  assume ok: "ownership_ok db"
  note st = rule_step_plan [OF ok, of compile show_other est now org_id org_name]
  have fr: "?plan q (carry_out now org_id r plan db) = ?plan q db" for q plan
    by (rule rule_plan_frame [OF carry_out_frame [OF ok]])
  have keys: "keys_of (?step r db) = keys_of db \<union>
      (case ?plan r db of None \<Rightarrow> {} | Some plan \<Rightarrow> params_key ` {p \<in> set (fst plan). insertable db p})"
    if "?clean r db"
    using create_loop_fst [OF ok] carry_out_clean [OF ok _ that] by (simp add: st split: option.split)
  show "ownership_ok (?step r db)"
    using ok carry_out_ok [OF ok] by (simp add: st split: option.split)
  show "?clean r (?step r db)"
    using carry_out_rows(1) [OF ok] by (auto simp: st rule_clean_def fr list_ex_iff split: option.split)
  show "?clean q (?step r db)" if "ar_name q \<noteq> ar_name r" "?clean q db"
  proof (cases "?plan r db")
    case None
    then show ?thesis using that(2) by (simp add: st)
  next
    case (Some plan)
    show ?thesis
    proof (cases "?plan q db")
      case None
      then show ?thesis by (simp add: st rule_clean_def fr Some)
    next
      case plan_q: (Some plan')
      have "\<not> is_stale (ar_name q) org_id (snd plan') a" if "a \<in> set (od_assignments (carry_out now org_id r plan db))" for a
        using carry_out_rows(2) [OF ok that]
      proof
        assume "a \<in> set (od_assignments db)"
        then show ?thesis using \<open>?clean q db\<close> plan_q by (auto simp: rule_clean_def list_ex_iff)
      next
        assume "\<exists>p \<in> set (fst plan). \<exists>i t. a = assignment_row p i t"
        then have "as_rule a = null_string (ar_name r)"
          using rule_plan_params(1) [of compile show_other est org_id org_name r db "fst plan" "snd plan"] Some by auto
        then show ?thesis using \<open>ar_name q \<noteq> ar_name r\<close> by (auto simp: is_stale_def null_string_def split: if_splits)
      qed
      then show ?thesis by (auto simp: st rule_clean_def fr Some plan_q list_ex_iff)
    qed
  qed
  have step_plan: "?plan q (?step r db) = ?plan q db" and step_ins: "insertable (?step r db) p = insertable db p" for q p
    using fr insertable_frame [OF carry_out_frame [OF ok]] by (simp_all add: st split: option.split)
  show "?full r (?step r db)" if "?clean r db"
    using keys [OF that] by (auto simp: rule_full_def step_plan step_ins split: option.split)
  show "?full q (?step r db)" if "?clean r db" "?full q db"
    using keys [OF that(1)] that(2) by (fastforce simp: rule_full_def step_plan step_ins split: option.splits)
  show "?step r db = db" if "?clean r db" "?full r db"
  proof (cases "?plan r db")
    case None
    then show ?thesis by (simp add: st)
  next
    case (Some plan)
    then show ?thesis
      using that create_loop_fst [OF ok, of now "fst plan"] carry_out_clean [OF ok Some that(1), of now]
      by (simp add: st rule_full_def)
  qed
qed

lemma rule_faults_distinct:
  "rule_faults i names rules = [] \<Longrightarrow> distinct (map ar_name rules) \<and> set (map ar_name rules) \<inter> set names = {}"
proof (induction rules arbitrary: i names)
  case (Cons r rules)
  then show ?case
    using Cons.IH [of "i + 1" "ar_name r # names"] by (auto split: if_splits)
qed simp

end
