(* ===== verification/Ownership_Import.thy ===== *)
theory Ownership_Import
  imports Ownership_Store
begin

text \<open>
  The import of ownership from a source of rows: owner names (\<open>internal/ownershipimport/slug.go\<close>),
  transforms (\<open>transform.go\<close>), the mapping document and its validation (\<open>mapping.go\<close>), its
  application to a row (\<open>mapper.go\<close>), and the match report, its commit and the runs in
  \<open>internal/webapi/handle_ownership_intake.go\<close> and \<open>ownership_import_run.go\<close>. Parameters: \<open>is_ip\<close>
  says whether \<open>net.ParseIP\<close> accepts a string, \<open>captures\<close> is \<open>regexp.Compile\<close> followed by
  \<open>FindStringSubmatch\<close> (nothing when the pattern does not compile, the empty list when it does not
  match), \<open>similar\<close> stands for the trigram queries behind suggestions, \<open>collected\<close> says which
  entities collection has seen. The source is what it yields: its columns, its rows, and whether
  reading failed.
\<close>

section \<open>Owner names\<close>

definition hyphen :: char where "hyphen = CHR ''-''"

definition slug_byte :: "char \<Rightarrow> char" where
  "slug_byte c = (if slug_char c then c else hyphen)"

text \<open>\<open>collapseHyphens\<close>, with the flag \<open>prevHyphen\<close>.\<close>

fun collapse_from :: "bool \<Rightarrow> string \<Rightarrow> string" where
  "collapse_from prev [] = []"
| "collapse_from prev (c # s) =
     (if c = hyphen \<and> prev then collapse_from prev s else c # collapse_from (c = hyphen) s)"

definition collapse_hyphens :: "string \<Rightarrow> string" where
  "collapse_hyphens s = collapse_from False s"

text \<open>
  The loop ranges over runes; here every byte of a rune outside ASCII becomes a hyphen and
  collapsing makes them one.
\<close>

definition slugify_owner_name :: "string \<Rightarrow> string option" where
  "slugify_owner_name raw =
     (let slug = trim_right_by (\<lambda>c. c = hyphen)
                   (dropWhile leading_punctuation (collapse_hyphens (map slug_byte (to_lower raw))))
      in if slug = [] then None else if \<not> owner_name_ok slug then None else Some slug)"

section \<open>Transforms\<close>

record transform =
  tf_kind :: string
  tf_value :: string
  tf_from :: string
  tf_to :: string
  tf_pattern :: string

text \<open>\<open>strings.ReplaceAll\<close> for a non-empty \<open>old\<close>; the compiler refuses an empty one.\<close>

function replace_all :: "string \<Rightarrow> string \<Rightarrow> string \<Rightarrow> string" where
  "replace_all old new s =
     (if old = [] \<or> s = [] then s
      else if prefix old s then new @ replace_all old new (drop (length old) s)
      else hd s # replace_all old new (tl s))"
  by pat_completeness auto
termination
  by (relation "measure (\<lambda>(old, new, s). length s)") auto

declare replace_all.simps [simp del]

definition strip_domain :: "(string \<Rightarrow> bool) \<Rightarrow> string \<Rightarrow> string" where
  "strip_domain is_ip s = (if is_ip s then s else before_first ''@'' s)"

definition first_capture_group :: "(string \<Rightarrow> string list) \<Rightarrow> string \<Rightarrow> string" where
  "first_capture_group submatches s = (case submatches s of _ # g # _ \<Rightarrow> g | _ \<Rightarrow> [])"

definition compile_transform ::
  "(string \<Rightarrow> bool) \<Rightarrow> (string \<Rightarrow> (string \<Rightarrow> string list) option) \<Rightarrow> transform \<Rightarrow> (string \<Rightarrow> string) option" where
  "compile_transform is_ip captures t =
     (if tf_kind t = ''trim'' then Some trim_space
      else if tf_kind t = ''lowercase'' then Some to_lower
      else if tf_kind t = ''uppercase'' then Some to_upper
      else if tf_kind t = ''strip_domain'' then Some (strip_domain is_ip)
      else if tf_kind t = ''prefix'' then Some (\<lambda>s. tf_value t @ s)
      else if tf_kind t = ''suffix'' then Some (\<lambda>s. s @ tf_value t)
      else if tf_kind t = ''replace'' then
        (if tf_from t = [] then None else Some (replace_all (tf_from t) (tf_to t)))
      else if tf_kind t = ''regex_extract'' then
        (if tf_pattern t = [] then None
         else case captures (tf_pattern t) of None \<Rightarrow> None | Some submatches \<Rightarrow> Some (first_capture_group submatches))
      else if tf_kind t = ''default'' then Some (\<lambda>s. if s = [] then tf_value t else s)
      else None)"

fun compile_transforms ::
  "(string \<Rightarrow> bool) \<Rightarrow> (string \<Rightarrow> (string \<Rightarrow> string list) option) \<Rightarrow> transform list \<Rightarrow> (string \<Rightarrow> string) list option" where
  "compile_transforms is_ip captures [] = Some []"
| "compile_transforms is_ip captures (t # ts) =
     (case compile_transform is_ip captures t of
        None \<Rightarrow> None
      | Some f \<Rightarrow> map_option ((#) f) (compile_transforms is_ip captures ts))"

definition apply_chain :: "(string \<Rightarrow> string) list \<Rightarrow> string \<Rightarrow> string" where
  "apply_chain chain s = fold (\<lambda>f. f) chain s"

section \<open>The mapping document\<close>

definition field_owner :: string where "field_owner = ''owner''"
definition field_entity_type :: string where "field_entity_type = ''entity_type''"
definition field_entity_key :: string where "field_entity_key = ''entity_key''"
definition field_organisation :: string where "field_organisation = ''organisation''"
definition field_notes :: string where "field_notes = ''notes''"
definition field_display_name :: string where "field_display_name = ''display_name''"

definition target_fields :: "string list" where
  "target_fields = [field_owner, field_entity_type, field_entity_key, field_organisation, field_notes, field_display_name]"

definition required_fields :: "string list" where
  "required_fields = [field_owner, field_entity_type, field_entity_key]"

record field_source =
  fs_kind :: string
  fs_column :: string
  fs_value :: string
  fs_columns :: "string list"
  fs_separator :: string

record field_mapping =
  fm_source :: field_source
  fm_transforms :: "transform list"

type_synonym field_map = "(string \<times> field_mapping) list"

datatype mapping_fault =
  Field_missing | Field_unknown | Column_unnamed | Column_unknown string | Constant_empty | Concat_empty
| Kind_missing | Kind_unknown | Entity_type_not_constant | Entity_type_unknown | Transforms_invalid

definition source_faults :: "string list \<Rightarrow> field_source \<Rightarrow> mapping_fault list" where
  "source_faults columns src =
     (if fs_kind src = ''column'' then
        (if fs_column src = [] then [Column_unnamed]
         else if fs_column src \<notin> set columns then [Column_unknown (fs_column src)] else [])
      else if fs_kind src = ''constant'' then (if fs_value src = [] then [Constant_empty] else [])
      else if fs_kind src = ''concat'' then
        (if fs_columns src = [] then [Concat_empty]
         else concat (map (\<lambda>c. if c = [] then [Column_unnamed]
                               else if c \<notin> set columns then [Column_unknown c] else []) (fs_columns src)))
      else if fs_kind src = [] then [Kind_missing] else [Kind_unknown])"

definition entity_type_faults :: "field_source \<Rightarrow> mapping_fault list" where
  "entity_type_faults src =
     (if fs_kind src \<noteq> [] \<and> fs_kind src \<noteq> ''constant'' then [Entity_type_not_constant]
      else if fs_value src = [] then []
      else if \<not> entity_type_ok (fs_value src) then [Entity_type_unknown] else [])"

definition field_faults ::
  "(string \<Rightarrow> bool) \<Rightarrow> (string \<Rightarrow> (string \<Rightarrow> string list) option) \<Rightarrow> string list \<Rightarrow> string \<times> field_mapping
   \<Rightarrow> (string \<times> mapping_fault) list" where
  "field_faults is_ip captures columns fm =
     map (Pair (fst fm))
       (if fst fm \<notin> set target_fields then [Field_unknown]
        else source_faults columns (fm_source (snd fm))
             @ (if fst fm = field_entity_type then entity_type_faults (fm_source (snd fm)) else [])
             @ (if compile_transforms is_ip captures (fm_transforms (snd fm)) = None then [Transforms_invalid] else []))"

text \<open>\<open>Validate\<close>, before the faults are put in order.\<close>

definition mapping_faults ::
  "(string \<Rightarrow> bool) \<Rightarrow> (string \<Rightarrow> (string \<Rightarrow> string list) option) \<Rightarrow> string list \<Rightarrow> field_map
   \<Rightarrow> (string \<times> mapping_fault) list" where
  "mapping_faults is_ip captures columns fm =
     map (\<lambda>f. (f, Field_missing)) (filter (\<lambda>f. f \<notin> set (map fst fm)) required_fields)
     @ concat (map (field_faults is_ip captures columns) fm)"

section \<open>Rows\<close>

record source_row =
  sr_number :: int
  sr_malformed :: bool
  sr_values :: "(string \<times> string) list"

datatype reject_reason =
  Unknown_owner | Invalid_entity_type | Missing_required_field | Malformed_row | Invalid_owner_name

record mapped_row =
  mw_source_row :: int
  mw_malformed :: bool
  mw_raw :: "(string \<times> string) list"
  mw_owner :: string
  mw_owner_raw :: string
  mw_entity_type :: string
  mw_entity_key :: string
  mw_organisation :: string
  mw_notes :: string
  mw_display_name :: string
  mw_rejected :: "reject_reason option"

text \<open>Reading a missing key of a Go map gives the empty string.\<close>

definition lookup_or_empty :: "(string \<times> string) list \<Rightarrow> string \<Rightarrow> string" where
  "lookup_or_empty kvs k = (case map_of kvs k of None \<Rightarrow> [] | Some v \<Rightarrow> v)"

fun join_with :: "string \<Rightarrow> string list \<Rightarrow> string" where
  "join_with sep [] = []"
| "join_with sep [s] = s"
| "join_with sep (s # t # ss) = s @ sep @ join_with sep (t # ss)"

definition evaluate_source :: "field_source \<Rightarrow> (string \<times> string) list \<Rightarrow> string" where
  "evaluate_source src cells =
     (if fs_kind src = ''column'' then lookup_or_empty cells (fs_column src)
      else if fs_kind src = ''constant'' then fs_value src
      else if fs_kind src = ''concat'' then join_with (fs_separator src) (map (lookup_or_empty cells) (fs_columns src))
      else [])"

type_synonym row_mapper = "(string \<times> field_source \<times> (string \<Rightarrow> string) list) list"

fun compile_fields ::
  "(string \<Rightarrow> bool) \<Rightarrow> (string \<Rightarrow> (string \<Rightarrow> string list) option) \<Rightarrow> field_map \<Rightarrow> row_mapper option" where
  "compile_fields is_ip captures [] = Some []"
| "compile_fields is_ip captures ((name, m) # fm) =
     (case compile_transforms is_ip captures (fm_transforms m) of
        None \<Rightarrow> None
      | Some chain \<Rightarrow> map_option ((#) (name, fm_source m, chain)) (compile_fields is_ip captures fm))"

definition new_mapper ::
  "(string \<Rightarrow> bool) \<Rightarrow> (string \<Rightarrow> (string \<Rightarrow> string list) option) \<Rightarrow> field_map \<Rightarrow> string list \<Rightarrow> row_mapper option" where
  "new_mapper is_ip captures fm columns =
     (if mapping_faults is_ip captures columns fm \<noteq> [] then None else compile_fields is_ip captures fm)"

definition map_row :: "row_mapper \<Rightarrow> source_row \<Rightarrow> mapped_row" where
  "map_row mapper row =
     (let raw = map (\<lambda>(name, src, chain). (name, evaluate_source src (sr_values row))) mapper;
          mapped = map (\<lambda>(name, src, chain). (name, apply_chain chain (evaluate_source src (sr_values row)))) mapper;
          owner_raw = lookup_or_empty mapped field_owner;
          key = lookup_or_empty mapped field_entity_key;
          explicit = lookup_or_empty mapped field_display_name;
          missing = (if sr_malformed row then Malformed_row else Missing_required_field);
          out = \<lparr>mw_source_row = sr_number row, mw_malformed = sr_malformed row, mw_raw = raw, mw_owner = [],
                 mw_owner_raw = owner_raw, mw_entity_type = lookup_or_empty mapped field_entity_type,
                 mw_entity_key = key, mw_organisation = lookup_or_empty mapped field_organisation,
                 mw_notes = lookup_or_empty mapped field_notes,
                 mw_display_name = (if explicit \<noteq> [] then explicit else owner_raw), mw_rejected = None\<rparr>
      in if trim_space owner_raw = [] \<or> trim_space key = [] then out\<lparr>mw_rejected := Some missing\<rparr>
         else case slugify_owner_name owner_raw of
                None \<Rightarrow> out\<lparr>mw_rejected := Some Invalid_owner_name\<rparr>
              | Some slug \<Rightarrow> out\<lparr>mw_owner := slug\<rparr>)"

section \<open>The match report\<close>

datatype owner_match = Match_exact | Match_alias | Match_fuzzy | Match_unknown

datatype row_outcome = Would_create | Duplicate_exists | Owned_by_other | Rejected

record report_row =
  rr_row :: mapped_row
  rr_owner_match :: owner_match
  rr_entity_found :: bool
  rr_outcome :: row_outcome
  rr_creates_owner :: bool
  rr_existing_owners :: "string list"
  rr_alias_conflict :: "string option"
  rr_suggestions :: "string list"

definition rr_owner :: "report_row \<Rightarrow> string" where
  "rr_owner r = mw_owner (rr_row r)"

definition set_owner :: "string \<Rightarrow> report_row \<Rightarrow> report_row" where
  "set_owner name r = r\<lparr>rr_row := (rr_row r)\<lparr>mw_owner := name\<rparr>\<rparr>"

definition set_rejected :: "reject_reason \<Rightarrow> report_row \<Rightarrow> report_row" where
  "set_rejected reason r = r\<lparr>rr_row := (rr_row r)\<lparr>mw_rejected := Some reason\<rparr>, rr_outcome := Rejected\<rparr>"

record new_owner =
  no_name :: string
  no_display_name :: string
  no_source_value :: string
  no_row_count :: nat
  no_suggestions :: "string list"

record report =
  rp_rows :: "report_row list"
  rp_new_owners :: "new_owner list"
  rp_counts :: "row_outcome \<rightharpoonup> nat"
  rp_alias_conflicts :: nat
  rp_row_count :: nat
  rp_unmatched :: "(string \<times> nat) list"
  rp_filtered_out :: nat
  rp_truncated :: bool
  rp_committed :: bool
  rp_created :: nat

definition max_owner_suggestions :: nat where "max_owner_suggestions = 3"
definition max_unmatched_owners :: nat where "max_unmatched_owners = 20"

section \<open>Resolving the owner of a row\<close>

definition alias_resolution_order :: "string list" where
  "alias_resolution_order = [alias_custom, alias_email, ''username'', ''git_name'', ''git_email'']"

record owner_resolution =
  re_owner :: string
  re_match :: owner_match
  re_suggestions :: "string list"
  re_conflict :: "string option"

text \<open>
  The trigram queries: owners by the local part of an address, and owners by the similarity of an
  alias. They read the database too, but only to suggest.
\<close>

record similarity =
  sm_localpart :: "string \<Rightarrow> string list"
  sm_alias :: "string \<Rightarrow> string list"

fun add_suggestions :: "string list \<Rightarrow> string list \<Rightarrow> string list" where
  "add_suggestions out [] = out"
| "add_suggestions out (s # ss) =
     add_suggestions (if s \<in> set out \<or> length out \<ge> max_owner_suggestions then out else out @ [s]) ss"

definition suggest_import_owners :: "similarity \<Rightarrow> string \<Rightarrow> string list" where
  "suggest_import_owners similar raw =
     (let local_part = before_first ''@'' raw;
          out = (if CHR ''@'' \<in> set raw \<and> local_part \<noteq> [] then add_suggestions [] (sm_localpart similar local_part) else [])
      in add_suggestions out (sm_alias similar raw))"

text \<open>The first alias that resolves: the types in their order, each with the raw string and its lower case.\<close>

definition raw_candidates :: "string \<Rightarrow> string list" where
  "raw_candidates raw = (if to_lower raw = raw then [raw] else [raw, to_lower raw])"

definition alias_lookups :: "string \<Rightarrow> (string \<times> string) list" where
  "alias_lookups raw = concat (map (\<lambda>ty. map (Pair ty) (raw_candidates raw)) alias_resolution_order)"

fun first_alias :: "(string \<times> string) list \<Rightarrow> ownership_db \<Rightarrow> string option" where
  "first_alias [] db = None"
| "first_alias ((ty, v) # ks) db =
     (case resolve_owner_by_alias ty v db of
        Some name \<Rightarrow> if name \<noteq> [] then Some name else first_alias ks db
      | None \<Rightarrow> first_alias ks db)"

definition resolve_import_owner :: "similarity \<Rightarrow> ownership_db \<Rightarrow> mapped_row \<Rightarrow> owner_resolution" where
  "resolve_import_owner similar db m =
     (let exact = (case get_owner_by_name (mw_owner m) db of Some r \<Rightarrow> ow_name r | None \<Rightarrow> [])
      in if exact \<noteq> []
         then \<lparr>re_owner = exact, re_match = Match_exact, re_suggestions = [], re_conflict = None\<rparr>
         else case first_alias (alias_lookups (mw_owner_raw m)) db of
                Some name \<Rightarrow> \<lparr>re_owner = name, re_match = Match_alias, re_suggestions = [], re_conflict = None\<rparr>
              | None \<Rightarrow>
                  (let suggestions = suggest_import_owners similar (mw_owner_raw m)
                   in \<lparr>re_owner = [], re_match = (if suggestions \<noteq> [] then Match_fuzzy else Match_unknown),
                       re_suggestions = suggestions,
                       re_conflict = (case resolve_owner_by_alias alias_custom (mw_owner_raw m) db of
                                        Some h \<Rightarrow> if h \<noteq> [] \<and> h \<noteq> mw_owner m then Some h else None
                                      | None \<Rightarrow> None)\<rparr>))"

section \<open>Classifying the rows\<close>

text \<open>
  The outcome of an assignment against what the entity holds, with the other owners it names.
  \<open>held\<close> are pairs of an owner and an organisation.
\<close>

fun classify_held :: "string \<Rightarrow> string \<Rightarrow> (string \<times> string) list \<Rightarrow> string list \<Rightarrow> row_outcome \<times> string list" where
  "classify_held owner org [] others =
     (if others \<noteq> [] then (Owned_by_other, sort others) else (Would_create, []))"
| "classify_held owner org ((o', g) # held) others =
     (if o' = owner \<and> g = org then (Duplicate_exists, [])
      else classify_held owner org held (if o' \<noteq> owner then others @ [o'] else others))"

text \<open>The lookups by entity are made for rows with a type and a key.\<close>

definition held_by :: "ownership_db \<Rightarrow> mapped_row \<Rightarrow> (string \<times> string) list" where
  "held_by db m =
     (if mw_entity_type m = [] \<or> mw_entity_key m = [] then []
      else assignment_owners (mw_entity_type m) (mw_entity_key m) db)"

definition accumulate_new_owner :: "report_row \<Rightarrow> owner_resolution \<Rightarrow> new_owner list \<Rightarrow> new_owner list" where
  "accumulate_new_owner row res entries =
     (let merged = (\<lambda>old. \<lparr>no_name = rr_owner row, no_display_name = mw_display_name (rr_row row),
              no_source_value = mw_owner_raw (rr_row row),
              no_row_count = (case old of None \<Rightarrow> 1 | Some e \<Rightarrow> no_row_count e + 1),
              no_suggestions = (case old of None \<Rightarrow> re_suggestions res
                                | Some e \<Rightarrow> if no_suggestions e = [] then re_suggestions res else no_suggestions e)\<rparr>)
      in case row_of no_name (rr_owner row) entries of
           None \<Rightarrow> entries @ [merged None]
         | Some e \<Rightarrow> update_where (\<lambda>x. no_name x = rr_owner row) (\<lambda>x. merged (Some e)) entries)"

record classify_state =
  cs_rows :: "report_row list"
  cs_counts :: "row_outcome \<rightharpoonup> nat"
  cs_conflicts :: nat
  cs_resolved :: "string \<rightharpoonup> owner_resolution"
  cs_unmatched :: "string list"
  cs_new_owners :: "new_owner list"

definition add_row :: "report_row \<Rightarrow> classify_state \<Rightarrow> classify_state" where
  "add_row row s = s\<lparr>cs_rows := cs_rows s @ [row], cs_counts := increment (rr_outcome row) (cs_counts s)\<rparr>"

definition new_row :: "(string \<Rightarrow> string \<Rightarrow> bool) \<Rightarrow> mapped_row \<Rightarrow> report_row" where
  "new_row collected m =
     \<lparr>rr_row = m, rr_owner_match = Match_unknown,
      rr_entity_found = (mw_entity_key m \<noteq> [] \<and> mw_entity_type m \<noteq> [] \<and> collected (mw_entity_type m) (mw_entity_key m)),
      rr_outcome = Rejected, rr_creates_owner = False, rr_existing_owners = [], rr_alias_conflict = None,
      rr_suggestions = []\<rparr>"

text \<open>The row of a mapped row that was not rejected, given the resolution of its owner.\<close>

definition resolved_row ::
  "ownership_db \<Rightarrow> (string \<Rightarrow> string \<Rightarrow> bool) \<Rightarrow> bool \<Rightarrow> owner_resolution \<Rightarrow> mapped_row \<Rightarrow> report_row" where
  "resolved_row db collected create_owners res m =
     (let row = (new_row collected m)\<lparr>rr_owner_match := re_match res, rr_suggestions := re_suggestions res,
                  rr_alias_conflict := re_conflict res\<rparr>;
          known = (re_match res = Match_exact \<or> re_match res = Match_alias)
      in if \<not> known \<and> \<not> create_owners then set_rejected Unknown_owner (set_owner [] row)
         else let named = (if known then set_owner (re_owner res) row else row\<lparr>rr_creates_owner := True\<rparr>)
              in case classify_held (rr_owner named) (mw_organisation m) (held_by db m) [] of
                   (out, others) \<Rightarrow> named\<lparr>rr_outcome := out, rr_existing_owners := others\<rparr>)"

definition classify_row ::
  "similarity \<Rightarrow> ownership_db \<Rightarrow> (string \<Rightarrow> string \<Rightarrow> bool) \<Rightarrow> bool \<Rightarrow> mapped_row \<Rightarrow> classify_state \<Rightarrow> classify_state" where
  "classify_row similar db collected create_owners m s =
     (if mw_rejected m \<noteq> None then add_row (new_row collected m) s
      else let res = (case cs_resolved s (mw_owner_raw m) of
                        Some r \<Rightarrow> r | None \<Rightarrow> resolve_import_owner similar db m);
               s1 = s\<lparr>cs_resolved := (cs_resolved s)(mw_owner_raw m \<mapsto> res)\<rparr>;
               row = resolved_row db collected create_owners res m
           in if rr_outcome row = Rejected
              then add_row row (s1\<lparr>cs_unmatched := cs_unmatched s1 @ [mw_owner_raw m]\<rparr>)
              else let s2 = (if rr_creates_owner row
                             then s1\<lparr>cs_new_owners := accumulate_new_owner row res (cs_new_owners s1)\<rparr> else s1);
                       s3 = add_row row s2
                   in if rr_alias_conflict row \<noteq> None then s3\<lparr>cs_conflicts := cs_conflicts s3 + 1\<rparr> else s3)"

definition sorted_new_owners :: "new_owner list \<Rightarrow> new_owner list" where
  "sorted_new_owners es = sort_key (\<lambda>e. - int (no_row_count e)) (sort_key no_name es)"

definition top_unmatched_owners :: "string list \<Rightarrow> (string \<times> nat) list" where
  "top_unmatched_owners raws =
     take max_unmatched_owners
       (sort_key (\<lambda>(v, n). - int n)
         (map (\<lambda>v. (v, length (filter (\<lambda>x. x = v) raws))) (sort (remdups raws))))"

definition classify_intake_rows ::
  "similarity \<Rightarrow> ownership_db \<Rightarrow> (string \<Rightarrow> string \<Rightarrow> bool) \<Rightarrow> bool \<Rightarrow> mapped_row list \<Rightarrow> report" where
  "classify_intake_rows similar db collected create_owners mapped =
     (let s = fold (classify_row similar db collected create_owners) mapped
                \<lparr>cs_rows = [], cs_counts = Map.empty, cs_conflicts = 0, cs_resolved = Map.empty,
                 cs_unmatched = [], cs_new_owners = []\<rparr>
      in \<lparr>rp_rows = cs_rows s, rp_new_owners = sorted_new_owners (cs_new_owners s), rp_counts = cs_counts s,
          rp_alias_conflicts = cs_conflicts s, rp_row_count = length mapped,
          rp_unmatched = top_unmatched_owners (cs_unmatched s), rp_filtered_out = 0, rp_truncated = False,
          rp_committed = False, rp_created = 0\<rparr>)"

section \<open>Committing\<close>

text \<open>
  The owner a row names is inserted unless it exists by now, and the raw string seeded as a custom
  alias; \<open>Inl\<close> is the row that could not have its owner.
\<close>

definition seed_raw_alias :: "int \<Rightarrow> report_row \<Rightarrow> ownership_db \<Rightarrow> ownership_db" where
  "seed_raw_alias now row db =
     (if rr_alias_conflict row \<noteq> None then db
      else case insert_owner_alias (rr_owner row) alias_custom (mw_owner_raw (rr_row row)) source_import now db of
             Inl e \<Rightarrow> db | Inr (l, db') \<Rightarrow> db')"

definition create_intake_owner ::
  "string \<Rightarrow> int \<Rightarrow> report_row \<Rightarrow> ownership_db \<Rightarrow> report_row + report_row \<times> ownership_db" where
  "create_intake_owner actor now row db =
     (let m = rr_row row;
          created = insert_owner
            \<lparr>op_name = mw_owner m, op_display_name = mw_display_name m, op_contact_email = [],
             op_contact_channel = [], op_type = ''individual'', op_metadata = None\<rparr> now db
      in case created of
           Inr (r, db1) \<Rightarrow>
             Inr (row, seed_raw_alias now row (audit actor action_owner_created (ow_name r) [] [] []
               (JObj [(''display_name'', JStr (mw_display_name m)), (''source'', JStr source_import)]) db1))
         | Inl e \<Rightarrow>
             if e = Own_exists then Inr (row\<lparr>rr_creates_owner := False\<rparr>, seed_raw_alias now row db)
             else Inl (set_rejected Unknown_owner row))"

definition import_params :: "mapped_row \<Rightarrow> assignment_params" where
  "import_params m =
     \<lparr>ap_owner = mw_owner m, ap_entity_type = mw_entity_type m, ap_entity_key = mw_entity_key m,
      ap_org = mw_organisation m, ap_source = source_import, ap_rule = [], ap_confidence = conf_definitive,
      ap_notes = mw_notes m\<rparr>"

definition assign_row :: "string \<Rightarrow> int \<Rightarrow> report_row \<Rightarrow> ownership_db \<Rightarrow> report_row \<times> ownership_db \<times> nat" where
  "assign_row actor now row db =
     (let m = rr_row row
      in case insert_assignment (import_params m) now db of
           Inl e \<Rightarrow> (if e = Own_exists then row\<lparr>rr_outcome := Duplicate_exists\<rparr> else set_rejected Malformed_row row, db, 0)
         | Inr (a, db') \<Rightarrow>
             (row, audit actor ''assignment_created'' (mw_owner m) (mw_entity_type m) (mw_entity_key m)
                     (mw_organisation m)
                     (JObj [(''assignment_source'', JStr source_import), (''confidence'', JStr conf_definitive),
                            (''source_row'', JNum (of_int (mw_source_row m)))]) db', 1))"

text \<open>One row, with the set of owners this commit has created or found.\<close>

definition commit_row ::
  "string \<Rightarrow> int \<Rightarrow> report_row \<Rightarrow> string set \<Rightarrow> ownership_db \<Rightarrow> report_row \<times> string set \<times> ownership_db \<times> nat" where
  "commit_row actor now row made db =
     (if rr_outcome row = Rejected \<or> rr_outcome row = Duplicate_exists then (row, made, db, 0)
      else if rr_creates_owner row \<and> rr_owner row \<notin> made
      then (case create_intake_owner actor now row db of
              Inl row' \<Rightarrow> (row', made, db, 0)
            | Inr (row', db') \<Rightarrow>
                (case assign_row actor now row' db' of
                   (row'', db'', n) \<Rightarrow> (row'', insert (rr_owner row) made, db'', n)))
      else (case assign_row actor now row db of (row', db', n) \<Rightarrow> (row', made, db', n)))"

fun commit_loop ::
  "string \<Rightarrow> int \<Rightarrow> report_row list \<Rightarrow> string set \<Rightarrow> ownership_db \<Rightarrow> report_row list \<times> ownership_db \<times> nat" where
  "commit_loop actor now [] made db = ([], db, 0)"
| "commit_loop actor now (row # rows) made db =
     (case commit_row actor now row made db of
        (row', made', db', n) \<Rightarrow>
          (case commit_loop actor now rows made' db' of
             (rows', db'', k) \<Rightarrow> (row' # rows', db'', n + k)))"

definition count_outcomes :: "report_row list \<Rightarrow> (row_outcome \<rightharpoonup> nat)" where
  "count_outcomes rows = fold (\<lambda>r. increment (rr_outcome r)) rows Map.empty"

definition commit_intake_rows :: "string \<Rightarrow> int \<Rightarrow> report \<Rightarrow> ownership_db \<Rightarrow> report \<times> ownership_db" where
  "commit_intake_rows actor now rep db =
     (case commit_loop actor now (rp_rows rep) {} db of
        (rows, db', n) \<Rightarrow>
          (rep\<lparr>rp_rows := rows, rp_counts := count_outcomes rows, rp_committed := True,
               rp_created := rp_created rep + n\<rparr>, db'))"

section \<open>A run over a source\<close>

record row_source =
  ro_columns :: "string list"
  ro_rows :: "source_row list"
  ro_failed :: bool

definition intake_max_rows :: int where "intake_max_rows = 250000"
definition intake_max_report_rows :: nat where "intake_max_report_rows = 2000"

definition equal_fold :: "string \<Rightarrow> string \<Rightarrow> bool" where
  "equal_fold s t = (to_lower s = to_lower t)"

definition filtered_away :: "string \<Rightarrow> string \<Rightarrow> source_row \<Rightarrow> bool" where
  "filtered_away column v row =
     (column \<noteq> [] \<and> \<not> equal_fold (trim_space (lookup_or_empty (sr_values row) column)) v)"

text \<open>The rows mapped and the number left out by the filter, or nothing past the limit.\<close>

fun read_rows ::
  "row_mapper \<Rightarrow> string \<Rightarrow> string \<Rightarrow> source_row list \<Rightarrow> mapped_row list \<Rightarrow> nat \<Rightarrow> (mapped_row list \<times> nat) option" where
  "read_rows mapper column v [] mapped filtered = Some (mapped, filtered)"
| "read_rows mapper column v (row # rows) mapped filtered =
     (if filtered_away column v row then read_rows mapper column v rows mapped (filtered + 1)
      else if int (length mapped) \<ge> intake_max_rows then None
      else read_rows mapper column v rows (mapped @ [map_row mapper row]) filtered)"

text \<open>The rows kept for display: the rejected ones, and others while there is room.\<close>

fun trim_loop :: "nat \<Rightarrow> report_row list \<Rightarrow> nat \<Rightarrow> nat \<Rightarrow> report_row list" where
  "trim_loop budget [] rejected_kept others_kept = []"
| "trim_loop budget (r # rows) rejected_kept others_kept =
     (if rr_outcome r = Rejected
      then if rejected_kept \<ge> intake_max_report_rows then trim_loop budget rows rejected_kept others_kept
           else r # trim_loop budget rows (rejected_kept + 1) others_kept
      else if others_kept < budget then r # trim_loop budget rows rejected_kept (others_kept + 1)
      else trim_loop budget rows rejected_kept others_kept)"

definition trim_report_rows :: "report_row list \<Rightarrow> report_row list \<times> bool" where
  "trim_report_rows rows =
     (if length rows \<le> intake_max_report_rows then (rows, False)
      else (trim_loop (intake_max_report_rows - length (filter (\<lambda>r. rr_outcome r = Rejected) rows)) rows 0 0, True))"

definition shown_report :: "report \<Rightarrow> report" where
  "shown_report rep =
     (case trim_report_rows (rp_rows rep) of
        (rows, truncated) \<Rightarrow> rep\<lparr>rp_rows := rows, rp_truncated := truncated\<rparr>)"

section \<open>Rejected rows\<close>

record rejection =
  rj_label :: string
  rj_mapping :: "int option"
  rj_source_row :: int
  rj_reason :: "reject_reason option"
  rj_owner_raw :: string
  rj_entity_type :: string
  rj_entity_key :: string

definition max_stored_rejections :: nat where "max_stored_rejections = 1000"

definition replace_import_rejections ::
  "string \<Rightarrow> int option \<Rightarrow> rejection list \<Rightarrow> rejection list \<Rightarrow> (rejection list \<times> nat) option" where
  "replace_import_rejections label mapping_id rejections tbl =
     (if label = [] then None
      else let stored = take max_stored_rejections rejections
           in Some (delete_where (\<lambda>r. rj_label r = label) tbl @ map (\<lambda>r. r\<lparr>rj_label := label, rj_mapping := mapping_id\<rparr>) stored,
                    length stored))"

definition rejection_of :: "report_row \<Rightarrow> rejection" where
  "rejection_of r =
     \<lparr>rj_label = [], rj_mapping = None, rj_source_row = mw_source_row (rr_row r), rj_reason = mw_rejected (rr_row r),
      rj_owner_raw = mw_owner_raw (rr_row r), rj_entity_type = mw_entity_type (rr_row r),
      rj_entity_key = mw_entity_key (rr_row r)\<rparr>"

definition store_import_rejections :: "string \<Rightarrow> int option \<Rightarrow> report \<Rightarrow> rejection list \<Rightarrow> rejection list" where
  "store_import_rejections label mapping_id rep tbl =
     (case replace_import_rejections label mapping_id
             (map rejection_of (filter (\<lambda>r. rr_outcome r = Rejected) (rp_rows rep))) tbl of
        None \<Rightarrow> tbl
      | Some (tbl', n) \<Rightarrow> tbl')"

section \<open>Preview and commit\<close>

text \<open>What the request settles before its rows are read: the document fits the source, and so does the filter.\<close>

record intake_request =
  iq_label :: string
  iq_mapping_id :: "int option"
  iq_source :: row_source
  iq_field_map :: field_map
  iq_filter_column :: string
  iq_filter_value :: string
  iq_create_owners :: string

record import_env =
  ie_is_ip :: "string \<Rightarrow> bool"
  ie_captures :: "string \<Rightarrow> (string \<Rightarrow> string list) option"
  ie_similar :: similarity
  ie_collected :: "string \<Rightarrow> string \<Rightarrow> bool"

definition handle_intake_run ::
  "import_env \<Rightarrow> string \<Rightarrow> int \<Rightarrow> intake_request \<Rightarrow> bool \<Rightarrow> ownership_db \<Rightarrow> rejection list
   \<Rightarrow> report option \<times> ownership_db \<times> rejection list" where
  "handle_intake_run env actor now q commit db rejs =
     (case new_mapper (ie_is_ip env) (ie_captures env) (iq_field_map q) (ro_columns (iq_source q)) of
        None \<Rightarrow> (None, db, rejs)
      | Some mapper \<Rightarrow>
          let column = trim_space (iq_filter_column q); v = trim_space (iq_filter_value q)
          in if column \<noteq> [] \<and> column \<notin> set (ro_columns (iq_source q)) then (None, db, rejs)
             else case read_rows mapper column v (ro_rows (iq_source q)) [] 0 of
                    None \<Rightarrow> (None, db, rejs)
                  | Some (mapped, filtered) \<Rightarrow>
                      if ro_failed (iq_source q) then (None, db, rejs)
                      else let rep = (classify_intake_rows (ie_similar env) db (ie_collected env)
                                       (iq_create_owners q \<noteq> ''false'') mapped)\<lparr>rp_filtered_out := filtered\<rparr>
                           in if commit
                              then case commit_intake_rows actor now rep db of
                                     (rep', db') \<Rightarrow>
                                       (Some (shown_report rep'), db', store_import_rejections (iq_label q) (iq_mapping_id q) rep' rejs)
                              else (Some (shown_report rep), db, rejs))"

section \<open>Saved imports\<close>

record import_mapping =
  im_id :: int
  im_name :: string
  im_source_kind :: string
  im_delimiter :: string
  im_field_map :: field_map
  im_created_by :: "string option"
  im_created_at :: int
  im_updated_at :: int
  im_connection :: string
  im_query :: string
  im_filter_column :: string
  im_filter_value :: string
  im_create_owners :: bool
  im_schedule :: string
  im_schedule_enabled :: bool
  im_last_run_at :: "int option"
  im_last_run_status :: string

definition run_import_from_source ::
  "import_env \<Rightarrow> int \<Rightarrow> row_source \<Rightarrow> import_mapping \<Rightarrow> ownership_db \<Rightarrow> rejection list
   \<Rightarrow> report option \<times> ownership_db \<times> rejection list" where
  "run_import_from_source env now src m db rejs =
     (case new_mapper (ie_is_ip env) (ie_captures env) (im_field_map m) (ro_columns src) of
        None \<Rightarrow> (None, db, rejs)
      | Some mapper \<Rightarrow>
          if im_filter_column m \<noteq> [] \<and> im_filter_column m \<notin> set (ro_columns src) then (None, db, rejs)
          else case read_rows mapper (im_filter_column m) (im_filter_value m) (ro_rows src) [] 0 of
                 None \<Rightarrow> (None, db, rejs)
               | Some (mapped, filtered) \<Rightarrow>
                   if ro_failed src then (None, db, rejs)
                   else case commit_intake_rows (''scheduled import: '' @ im_name m) now
                               ((classify_intake_rows (ie_similar env) db (ie_collected env) (im_create_owners m) mapped)
                                  \<lparr>rp_filtered_out := filtered\<rparr>) db of
                          (rep, db') \<Rightarrow> (Some rep, db', store_import_rejections (im_name m) (Some (im_id m)) rep rejs))"

text \<open>\<open>open_source\<close> stands for the database a connection and a query reach; \<open>None\<close> when it cannot be read.\<close>

definition run_saved_import ::
  "import_env \<Rightarrow> (string \<Rightarrow> string \<Rightarrow> row_source option) \<Rightarrow> int \<Rightarrow> import_mapping \<Rightarrow> ownership_db \<Rightarrow> rejection list
   \<Rightarrow> report option \<times> ownership_db \<times> rejection list" where
  "run_saved_import env open_source now m db rejs =
     (if im_source_kind m \<noteq> ''database'' then (None, db, rejs)
      else if trim_space (im_query m) = [] then (None, db, rejs)
      else case open_source (im_connection m) (im_query m) of
             None \<Rightarrow> (None, db, rejs)
           | Some src \<Rightarrow> run_import_from_source env now src m db rejs)"

definition record_import_run :: "int \<Rightarrow> string \<Rightarrow> int \<Rightarrow> import_mapping list \<Rightarrow> import_mapping list" where
  "record_import_run i status now tbl =
     update_where (\<lambda>m. im_id m = i) (\<lambda>m. m\<lparr>im_last_run_at := Some now, im_last_run_status := status\<rparr>) tbl"

section \<open>Lemmas on names\<close>

definition alnum :: "char \<Rightarrow> bool" where
  "alnum c = (is_digit (go_lower_char c) \<or> (97 \<le> (of_char (go_lower_char c) :: nat) \<and> (of_char (go_lower_char c) :: nat) \<le> 122))"

lemma go_lower_idem [simp]: "go_lower_char (go_lower_char c) = go_lower_char c"
proof -
  have "(of_char (char_of (n + 32) :: char) :: nat) = n + 32" if "n \<le> 90" for n :: nat
    using that by simp
  then show ?thesis by (auto simp: go_lower_char_def Let_def)
qed

lemma to_lower_idem [simp]: "to_lower (to_lower s) = to_lower s"
  by (simp add: to_lower_def comp_def)

lemma slugify_lower: "slugify_owner_name (to_lower s) = slugify_owner_name s"
  by (simp add: slugify_owner_name_def)

lemma slug_char_hyphen [simp]: "slug_char hyphen" and punctuation_hyphen [simp]: "leading_punctuation hyphen"
  by (simp_all add: slug_char_def leading_punctuation_def hyphen_def)

lemma slug_char_byte [simp]: "slug_char (slug_byte c)" and slug_byte_id [simp]: "slug_char c \<Longrightarrow> slug_byte c = c"
  by (simp_all add: slug_byte_def)

lemma slug_char_lower [simp]: "slug_char c \<Longrightarrow> go_lower_char c = c"
  by (auto simp: slug_char_def go_lower_char_def is_digit_def Let_def)

lemma punctuation_slug: "leading_punctuation c \<Longrightarrow> slug_char c"
  by (auto simp: slug_char_def leading_punctuation_def)

lemma byte_of_alnum: "alnum c \<Longrightarrow> \<not> leading_punctuation (slug_byte (go_lower_char c))"
  by (auto simp: alnum_def slug_byte_def slug_char_def leading_punctuation_def is_digit_def)

lemma byte_of_other: "\<not> alnum c \<Longrightarrow> leading_punctuation (slug_byte (go_lower_char c))"
  by (auto simp: alnum_def slug_byte_def slug_char_def leading_punctuation_def is_digit_def hyphen_def)

text \<open>Strings with no two hyphens in a row, and none at the start after a hyphen.\<close>

fun collapsed :: "bool \<Rightarrow> string \<Rightarrow> bool" where
  "collapsed prev [] = True"
| "collapsed prev (c # s) = (\<not> (c = hyphen \<and> prev) \<and> collapsed (c = hyphen) s)"

lemma collapse_id: "collapsed prev s \<Longrightarrow> collapse_from prev s = s"
  by (induction s arbitrary: prev) auto

lemma collapsed_collapse: "collapsed prev (collapse_from prev s)"
  by (induction s arbitrary: prev) auto

lemma collapsed_weaken: "collapsed prev s \<Longrightarrow> collapsed False s"
  by (cases s) auto

lemma collapsed_dropWhile: "collapsed prev s \<Longrightarrow> collapsed False (dropWhile P s)"
  by (induction s arbitrary: prev) (auto dest: collapsed_weaken)

lemma collapsed_prefix: "collapsed prev (s @ t) \<Longrightarrow> collapsed prev s"
  by (induction s arbitrary: prev) auto

lemma set_collapse: "set (collapse_from prev s) \<subseteq> set s"
  by (induction s arbitrary: prev) auto

lemma collapse_keeps: "c \<noteq> hyphen \<Longrightarrow> c \<in> set (collapse_from prev s) \<longleftrightarrow> c \<in> set s"
  by (induction s arbitrary: prev) auto

lemma trim_right_prefix: "\<exists>t. s = trim_right_by P s @ t \<and> list_all P t"
proof -
  have "rev s = takeWhile P (rev s) @ dropWhile P (rev s)" by simp
  then have "s = trim_right_by P s @ rev (takeWhile P (rev s))"
    by (metis rev_append rev_rev_ident trim_right_by_def)
  moreover have "list_all P (rev (takeWhile P (rev s)))"
    by (auto simp: list_all_iff dest: set_takeWhileD)
  ultimately show ?thesis by blast
qed

lemma trim_right_idem [simp]: "trim_right_by P (trim_right_by P s) = trim_right_by P s"
  by (simp add: trim_right_by_def)

definition slug_body :: "string \<Rightarrow> string" where
  "slug_body raw = dropWhile leading_punctuation (collapse_hyphens (map slug_byte (to_lower raw)))"

lemma slug_body_head: "slug_body raw = c # s \<Longrightarrow> \<not> leading_punctuation c"
  by (simp add: slug_body_def dropWhile_eq_Cons_conv)

lemma slug_body_chars: "c \<in> set (slug_body raw) \<Longrightarrow> slug_char c"
  using set_collapse [of False "map slug_byte (to_lower raw)"]
  by (auto simp: slug_body_def collapse_hyphens_def dest!: set_dropWhileD)

lemma slug_body_empty: "slug_body raw = [] \<longleftrightarrow> \<not> list_ex alnum raw"
proof -
  let ?s = "collapse_hyphens (map slug_byte (to_lower raw))"
  have "slug_body raw = [] \<longleftrightarrow> (\<forall>c \<in> set ?s. leading_punctuation c)"
    by (simp add: slug_body_def dropWhile_eq_Nil_conv)
  also have "\<dots> \<longleftrightarrow> (\<forall>c \<in> set (map slug_byte (to_lower raw)). leading_punctuation c)"
  proof -
    have "leading_punctuation c" if "\<forall>c \<in> set ?s. leading_punctuation c" "c \<in> set (map slug_byte (to_lower raw))" for c
      using that collapse_keeps [of c False "map slug_byte (to_lower raw)"]
      by (cases "c = hyphen") (simp_all add: collapse_hyphens_def)
    moreover have "set ?s \<subseteq> set (map slug_byte (to_lower raw))"
      unfolding collapse_hyphens_def by (rule set_collapse)
    ultimately show ?thesis by blast
  qed
  also have "\<dots> \<longleftrightarrow> (\<forall>c \<in> set raw. \<not> alnum c)"
    using byte_of_alnum byte_of_other by (auto simp: to_lower_def)
  finally show ?thesis by (simp add: list_ex_iff)
qed

lemma slugify_eq:
  "slugify_owner_name raw =
     (if list_ex alnum raw then Some (trim_right_by (\<lambda>c. c = hyphen) (slug_body raw)) else None)"
  and slugify_ok: "list_ex alnum raw \<Longrightarrow> owner_name_ok (trim_right_by (\<lambda>c. c = hyphen) (slug_body raw))"
proof -
  let ?t = "trim_right_by (\<lambda>c. c = hyphen) (slug_body raw)"
  have ok: "owner_name_ok ?t" if ne: "slug_body raw \<noteq> []"
  proof -
    obtain c s where cs: "slug_body raw = c # s" using ne by (cases "slug_body raw") auto
    obtain t where t: "c # s = ?t @ t" "list_all (\<lambda>c. c = hyphen) t"
      using trim_right_prefix [of "slug_body raw" "\<lambda>c. c = hyphen"] cs by auto
    have "?t \<noteq> []"
    proof
      assume "?t = []"
      then have "c = hyphen" using t by (auto simp: list_all_iff)
      then show False using slug_body_head [OF cs] by simp
    qed
    then have "hd ?t = c" using t(1) by (metis hd_append2 list.sel(1))
    moreover have "set ?t \<subseteq> set (slug_body raw)" using t(1) cs by (metis Un_upper1 set_append)
    ultimately show ?thesis
      using \<open>?t \<noteq> []\<close> slug_body_head [OF cs] slug_body_chars by (auto simp: owner_name_ok_def list_all_iff)
  qed
  show "slugify_owner_name raw = (if list_ex alnum raw then Some ?t else None)"
  proof (cases "slug_body raw = []")
    case True
    then show ?thesis
      by (simp add: slugify_owner_name_def slug_body_def [symmetric] slug_body_empty [symmetric] trim_right_by_def)
  next
    case False
    have "?t \<noteq> []" using ok [OF False] by (auto simp: owner_name_ok_def)
    then show ?thesis
      using False ok [OF False] by (simp add: slugify_owner_name_def slug_body_def [symmetric] slug_body_empty [symmetric])
  qed
  show "list_ex alnum raw \<Longrightarrow> owner_name_ok ?t" using ok slug_body_empty by simp
qed

lemma slugify_owner_name_ok: "slugify_owner_name raw = Some s \<Longrightarrow> owner_name_ok s"
  by (auto simp: slugify_eq slugify_ok split: if_splits)

text \<open>What a name must be like to be its own slug.\<close>

lemma slugify_fixed:
  assumes "owner_name_ok s" "collapsed False s" "trim_right_by (\<lambda>c. c = hyphen) s = s"
  shows "slugify_owner_name s = Some s"
proof -
  have c: "list_all slug_char s" "s \<noteq> []" "\<not> leading_punctuation (hd s)" using assms(1) by (auto simp: owner_name_ok_def)
  then have l: "to_lower s = s" "map slug_byte s = s"
    by (auto simp: to_lower_def list_all_iff intro!: map_idI)
  have b: "slug_body s = s"
    unfolding slug_body_def l collapse_hyphens_def collapse_id [OF assms(2)] using c(2,3) by (cases s) simp_all
  then show ?thesis using assms(3) c(2) by (metis slug_body_empty slugify_eq)
qed

lemma slugify_idem:
  assumes "slugify_owner_name raw = Some s"
  shows "slugify_owner_name s = Some s"
proof (rule slugify_fixed)
  show "owner_name_ok s" by (rule slugify_owner_name_ok [OF assms])
  have s: "s = trim_right_by (\<lambda>c. c = hyphen) (slug_body raw)"
    using assms by (auto simp: slugify_eq split: if_splits)
  show "trim_right_by (\<lambda>c. c = hyphen) s = s" by (simp add: s)
  have "collapsed False (slug_body raw)"
    unfolding slug_body_def collapse_hyphens_def by (rule collapsed_dropWhile [OF collapsed_collapse])
  then show "collapsed False s"
    using trim_right_prefix [of "slug_body raw" "\<lambda>c. c = hyphen"] collapsed_prefix unfolding s by metis
qed

section \<open>Lemmas on committing\<close>

text \<open>
  \<open>extended db db'\<close>: rows have been added to the tables and none changed. The assignments added
  are those of an import.
\<close>

definition extended :: "ownership_db \<Rightarrow> ownership_db \<Rightarrow> bool" where
  "extended db db' =
     (ownership_ok db' \<and> prefix (od_owners db) (od_owners db') \<and> prefix (od_assignments db) (od_assignments db')
      \<and> prefix (od_aliases db) (od_aliases db') \<and> prefix (od_audit db) (od_audit db'))"

lemma extended_refl [simp]: "ownership_ok db \<Longrightarrow> extended db db"
  and extended_ok: "extended db db' \<Longrightarrow> ownership_ok db'"
  and extended_trans: "extended a b \<Longrightarrow> extended b c \<Longrightarrow> extended a c"
  by (auto simp: extended_def intro: prefix_order.trans)

lemma extended_names: "extended db db' \<Longrightarrow> set (owner_names db) \<subseteq> set (owner_names db')"
  and extended_keys: "extended db db' \<Longrightarrow> keys_of db \<subseteq> keys_of db'"
  by (auto simp: extended_def owner_names_def keys_of_def dest: set_mono_prefix)

lemma audit_prefix [simp]: "prefix (od_audit db) (od_audit (audit actor action name et key org details db))"
  by (simp add: audit_def)

lemma extended_audit_trans: "extended db db' \<Longrightarrow> extended db (audit actor action name et key org details db')"
  by (simp add: extended_def) (simp add: audit_def)

lemma insert_assignment_extended:
  assumes "insert_assignment p now db = Inr (a, db')" "ownership_ok db"
  shows "extended db db'" "od_assignments db' = od_assignments db @ [a]" "assignment_key a = params_key p"
    "as_source a = ap_source p" "od_owners db' = od_owners db" "od_aliases db' = od_aliases db" "od_audit db' = od_audit db"
  using insert_assignment_ok [OF assms] insert_assignment_Inr(1,2) [OF assms(1)]
  by (auto simp: extended_def)

lemma insert_owner_extended:
  assumes "insert_owner p now db = Inr (r, db')" "ownership_ok db"
  shows "extended db db'" "od_assignments db' = od_assignments db" "od_aliases db' = od_aliases db"
    "owner_names db' = owner_names db @ [op_name p]"
  using insert_owner_ok [OF assms] insert_owner_Inr [OF assms(1)] by (auto simp: extended_def)

lemma insert_owner_alias_extended:
  assumes "insert_owner_alias name ty v src now db = Inr (l, db')" "ownership_ok db"
  shows "extended db db'" "od_assignments db' = od_assignments db" "od_owners db' = od_owners db"
    "od_aliases db' = od_aliases db @ [l]" "alias_key l = (ty, v)"
  using insert_owner_alias_ok [OF assms] assms(1)
  by (auto simp: extended_def insert_owner_alias_def Let_def alias_row_def alias_key_def split: if_splits)

text \<open>What a step of the commit does not touch in a row: everything but outcome, reason and one flag.\<close>

lemma set_rejected_fields [simp]:
  "rr_outcome (set_rejected reason r) = Rejected" "rr_owner (set_rejected reason r) = rr_owner r"
  "mw_owner (rr_row (set_rejected reason r)) = mw_owner (rr_row r)"
  "import_params (rr_row (set_rejected reason r)) = import_params (rr_row r)"
  by (simp_all add: set_rejected_def rr_owner_def import_params_def)

definition written :: "report_row \<Rightarrow> bool" where
  "written r = (rr_outcome r \<noteq> Rejected \<and> rr_outcome r \<noteq> Duplicate_exists)"

definition row_key :: "report_row \<Rightarrow> string \<times> entity" where
  "row_key r = params_key (import_params (rr_row r))"

lemma seed_raw_alias_spec:
  assumes "ownership_ok db"
  shows "extended db (seed_raw_alias now row db)" "od_assignments (seed_raw_alias now row db) = od_assignments db"
    "od_owners (seed_raw_alias now row db) = od_owners db" "owner_names (seed_raw_alias now row db) = owner_names db"
    "l \<in> set (od_aliases (seed_raw_alias now row db)) \<Longrightarrow>
       l \<in> set (od_aliases db) \<or> alias_key l = (alias_custom, mw_owner_raw (rr_row row))"
proof -
  consider "seed_raw_alias now row db = db"
    | l' where "insert_owner_alias (rr_owner row) alias_custom (mw_owner_raw (rr_row row)) source_import now db
        = Inr (l', seed_raw_alias now row db)"
    unfolding seed_raw_alias_def
    by (cases "rr_alias_conflict row";
        cases "insert_owner_alias (rr_owner row) alias_custom (mw_owner_raw (rr_row row)) source_import now db") auto
  then have "extended db (seed_raw_alias now row db) \<and> od_assignments (seed_raw_alias now row db) = od_assignments db
    \<and> od_owners (seed_raw_alias now row db) = od_owners db
    \<and> (l \<in> set (od_aliases (seed_raw_alias now row db)) \<longrightarrow>
       l \<in> set (od_aliases db) \<or> alias_key l = (alias_custom, mw_owner_raw (rr_row row)))"
  proof cases
    case 1
    then show ?thesis using assms by simp
  next
    case (2 l')
    show ?thesis using insert_owner_alias_extended [OF 2 assms] by auto
  qed
  then show "extended db (seed_raw_alias now row db)" "od_assignments (seed_raw_alias now row db) = od_assignments db"
    "od_owners (seed_raw_alias now row db) = od_owners db" "owner_names (seed_raw_alias now row db) = owner_names db"
    "l \<in> set (od_aliases (seed_raw_alias now row db)) \<Longrightarrow>
       l \<in> set (od_aliases db) \<or> alias_key l = (alias_custom, mw_owner_raw (rr_row row))"
    by (simp_all add: owner_names_def)
qed

definition owner_params_of :: "mapped_row \<Rightarrow> owner_params" where
  "owner_params_of m =
     \<lparr>op_name = mw_owner m, op_display_name = mw_display_name m, op_contact_email = [],
      op_contact_channel = [], op_type = ''individual'', op_metadata = None\<rparr>"

lemma create_intake_owner_exists:
  assumes "insert_owner (owner_params_of (rr_row row)) now db = Inl e"
  shows "create_intake_owner actor now row db =
     (if e = Own_exists then Inr (row\<lparr>rr_creates_owner := False\<rparr>, seed_raw_alias now row db)
      else Inl (set_rejected Unknown_owner row))"
  using assms by (simp add: create_intake_owner_def Let_def owner_params_of_def)

lemma create_intake_owner_new:
  assumes "insert_owner (owner_params_of (rr_row row)) now db = Inr (r, db1)"
  shows "\<exists>j. create_intake_owner actor now row db =
     Inr (row, seed_raw_alias now row (audit actor action_owner_created (ow_name r) [] [] [] j db1))"
  using assms by (auto simp: create_intake_owner_def Let_def owner_params_of_def)

lemma create_intake_owner_spec:
  assumes "ownership_ok db" "create_intake_owner actor now row db = Inr (row', db')"
  shows "extended db db'" "od_assignments db' = od_assignments db"
    "set (owner_names db') = insert (rr_owner row) (set (owner_names db))"
    "rr_row row' = rr_row row" "rr_outcome row' = rr_outcome row"
    "l \<in> set (od_aliases db') \<Longrightarrow> l \<in> set (od_aliases db) \<or> alias_key l = (alias_custom, mw_owner_raw (rr_row row))"
proof -
  have "extended db db' \<and> od_assignments db' = od_assignments db
    \<and> set (owner_names db') = insert (rr_owner row) (set (owner_names db))
    \<and> rr_row row' = rr_row row \<and> rr_outcome row' = rr_outcome row
    \<and> (l \<in> set (od_aliases db') \<longrightarrow> l \<in> set (od_aliases db) \<or> alias_key l = (alias_custom, mw_owner_raw (rr_row row)))"
  proof (cases "insert_owner (owner_params_of (rr_row row)) now db")
    case (Inl e)
    have e: "e = Own_exists" "row' = row\<lparr>rr_creates_owner := False\<rparr>" "db' = seed_raw_alias now row db"
      using assms(2) unfolding create_intake_owner_exists [OF Inl] by (auto split: if_splits)
    then have "rr_owner row \<in> set (owner_names db)"
      using Inl by (auto simp: insert_owner_def rr_owner_def owner_params_of_def Let_def split: if_splits)
    then show ?thesis using seed_raw_alias_spec [OF assms(1)] by (auto simp: e)
  next
    case (Inr x)
    obtain r db1 where x: "x = (r, db1)" by fastforce
    obtain j where c: "create_intake_owner actor now row db =
       Inr (row, seed_raw_alias now row (audit actor action_owner_created (ow_name r) [] [] [] j db1))"
      using create_intake_owner_new [OF Inr [unfolded x]] by blast
    let ?d = "audit actor action_owner_created (ow_name r) [] [] [] j db1"
    note e = insert_owner_extended [OF Inr [unfolded x] assms(1)]
    have d: "extended db ?d" using e(1) by (rule extended_audit_trans)
    note s = seed_raw_alias_spec [OF extended_ok [OF d], where now = now and row = row]
    have "row' = row" "db' = seed_raw_alias now row ?d" using assms(2) c by auto
    then show ?thesis
      using s e(2,3,4) extended_trans [OF d s(1)] by (auto simp: rr_owner_def owner_params_of_def)
  qed
  then show "extended db db'" "od_assignments db' = od_assignments db"
    "set (owner_names db') = insert (rr_owner row) (set (owner_names db))"
    "rr_row row' = rr_row row" "rr_outcome row' = rr_outcome row"
    "l \<in> set (od_aliases db') \<Longrightarrow> l \<in> set (od_aliases db) \<or> alias_key l = (alias_custom, mw_owner_raw (rr_row row))"
    by blast+
qed

lemma create_intake_owner_refused:
  "create_intake_owner actor now row db = Inl row' \<Longrightarrow> row' = set_rejected Unknown_owner row"
proof (cases "insert_owner (owner_params_of (rr_row row)) now db")
  case (Inl e)
  assume "create_intake_owner actor now row db = Inl row'"
  then show ?thesis unfolding create_intake_owner_exists [OF Inl] by (simp split: if_splits)
next
  case (Inr x)
  assume "create_intake_owner actor now row db = Inl row'"
  then show ?thesis using create_intake_owner_new [of row now db "fst x" "snd x" actor] Inr by auto
qed

lemma assign_row_spec:
  assumes "ownership_ok db" "assign_row actor now row db = (row', db', n)"
    and w: "written row"
  shows "extended db db' \<and> owner_names db' = owner_names db \<and> od_aliases db' = od_aliases db
    \<and> rr_owner row' = rr_owner row \<and> import_params (rr_row row') = import_params (rr_row row)
    \<and> (\<exists>new. od_assignments db' = od_assignments db @ new \<and> length new = n
         \<and> (\<forall>a \<in> set new. as_source a = source_import)
         \<and> map assignment_key new = map row_key (if n = 0 then [] else [row'])
         \<and> (n = 0 \<longleftrightarrow> \<not> written row') \<and> n \<le> 1)
    \<and> (entity_type_ok (mw_entity_type (rr_row row)) \<and> rr_owner row \<in> set (owner_names db) \<longrightarrow> row_key row \<in> keys_of db')"
proof (cases "insert_assignment (import_params (rr_row row)) now db")
  case (Inl e)
  then have "e = Own_exists \<Longrightarrow> row_key row \<in> keys_of db"
    and "entity_type_ok (mw_entity_type (rr_row row)) \<and> rr_owner row \<in> set (owner_names db) \<Longrightarrow> e = Own_exists"
    by (auto simp: insert_assignment_cases row_key_def import_params_def rr_owner_def source_ok_def confidence_ok_def
             split: if_splits)
  then show ?thesis
    using assms Inl by (auto simp: assign_row_def written_def row_key_def rr_owner_def)
next
  case (Inr x)
  obtain a d where x: "x = (a, d)" by fastforce
  note e = insert_assignment_extended [OF Inr [unfolded x] assms(1)]
  have r: "row' = row" "n = 1" and db': "\<exists>act nm et k o' j. db' = audit actor act nm et k o' j d"
    using assms(2) Inr x by (simp_all add: assign_row_def Let_def) metis
  have s: "as_source a = source_import" using e(4) by (simp add: import_params_def)
  have k: "assignment_key a = row_key row" using e(3) by (simp add: row_key_def)
  show ?thesis
    using db' e(1,2,5,6) w s k extended_audit_trans [OF e(1)] unfolding r
    by (auto simp: owner_names_def keys_of_def)
qed

text \<open>What the rows of a commit have added: one assignment for each row reported as written, in their order.\<close>

definition added_for :: "report_row list \<Rightarrow> nat \<Rightarrow> ownership_db \<Rightarrow> ownership_db \<Rightarrow> bool" where
  "added_for rows n db db' =
     (extended db db'
      \<and> (\<exists>new. od_assignments db' = od_assignments db @ new \<and> length new = n
               \<and> (\<forall>a \<in> set new. as_source a = source_import)
               \<and> map assignment_key new = map row_key (filter written rows)))"

lemma added_for_Nil: "ownership_ok db \<Longrightarrow> added_for [] 0 db db"
  by (simp add: added_for_def)

lemma added_for_trans:
  assumes "added_for r1 n db d" "added_for r2 k d db'"
  shows "added_for (r1 @ r2) (n + k) db db'"
proof -
  obtain a b where "od_assignments d = od_assignments db @ a" "length a = n" "\<forall>x \<in> set a. as_source x = source_import"
      "map assignment_key a = map row_key (filter written r1)"
    and "od_assignments db' = od_assignments d @ b" "length b = k" "\<forall>x \<in> set b. as_source x = source_import"
      "map assignment_key b = map row_key (filter written r2)" and "extended db d" "extended d db'"
    using assms unfolding added_for_def by blast
  then have "od_assignments db' = od_assignments db @ a @ b \<and> length (a @ b) = n + k
      \<and> (\<forall>x \<in> set (a @ b). as_source x = source_import)
      \<and> map assignment_key (a @ b) = map row_key (filter written (r1 @ r2))" by auto
  then show ?thesis using extended_trans [OF \<open>extended db d\<close> \<open>extended d db'\<close>] unfolding added_for_def by blast
qed

definition same_request :: "report_row \<Rightarrow> report_row \<Rightarrow> bool" where
  "same_request r r' = (rr_owner r' = rr_owner r \<and> import_params (rr_row r') = import_params (rr_row r))"

lemma row_request_key: "same_request r r' \<Longrightarrow> row_key r' = row_key r"
  by (simp add: same_request_def row_key_def)

lemma assign_row_added:
  assumes "ownership_ok db" "assign_row actor now row db = (row', db', n)" "written row"
  shows "added_for [row'] n db db'" "same_request row row'"
proof -
  note s = assign_row_spec [OF assms]
  obtain new where n: "od_assignments db' = od_assignments db @ new" "length new = n"
    "\<forall>a \<in> set new. as_source a = source_import" "map assignment_key new = map row_key (if n = 0 then [] else [row'])"
    "n = 0 \<longleftrightarrow> \<not> written row'"
    using s by blast
  then have "map assignment_key new = map row_key (filter written [row'])" by (cases "n = 0") auto
  then show "added_for [row'] n db db'" using n s unfolding added_for_def by blast
  show "same_request row row'" using s by (simp add: same_request_def)
qed

lemma create_intake_owner_added:
  assumes "ownership_ok db" "create_intake_owner actor now row db = Inr (row', db')"
  shows "added_for [] 0 db db'" "same_request row row'" "written row' = written row"
  using create_intake_owner_spec [OF assms]
  by (simp_all add: added_for_def same_request_def rr_owner_def written_def)

lemma same_request_trans: "same_request a b \<Longrightarrow> same_request b c \<Longrightarrow> same_request a c"
  and same_request_refl [simp]: "same_request a a"
  and same_request_rejected [simp]: "same_request a (set_rejected reason a)"
  by (simp_all add: same_request_def)

lemma commit_row_added:
  assumes "ownership_ok db" "commit_row actor now row made db = (row', made', db', n)"
  shows "added_for [row'] n db db' \<and> same_request row row'"
proof (cases "written row")
  case False
  then have "row' = row" "db' = db" "n = 0"
    using assms(2) by (auto simp: commit_row_def written_def)
  then show ?thesis using False assms(1) by (simp add: added_for_def)
next
  case w: True
  then have nw: "\<not> (rr_outcome row = Rejected \<or> rr_outcome row = Duplicate_exists)" by (simp add: written_def)
  show ?thesis
  proof (cases "rr_creates_owner row \<and> rr_owner row \<notin> made")
    case False
    then have "assign_row actor now row db = (row', db', n)"
      using assms(2) nw by (auto simp: commit_row_def split: prod.splits)
    then show ?thesis using assign_row_added [OF assms(1) _ w] by simp
  next
    case True
    show ?thesis
    proof (cases "create_intake_owner actor now row db")
      case (Inl r)
      then have "row' = set_rejected Unknown_owner row" "db' = db" "n = 0"
        using assms(2) nw True create_intake_owner_refused by (auto simp: commit_row_def)
      then show ?thesis using assms(1) by (simp add: added_for_def written_def)
    next
      case (Inr x)
      obtain r d where x: "x = (r, d)" by fastforce
      note c = create_intake_owner_added [OF assms(1) Inr [unfolded x]]
      have ok: "ownership_ok d" using c(1) by (auto simp: added_for_def intro: extended_ok)
      have "assign_row actor now r d = (row', db', n)"
        using assms(2) nw True Inr x by (auto simp: commit_row_def split: prod.splits)
      then have "added_for [row'] n d db'" "same_request r row'"
        using assign_row_added [OF ok] w c(3) by blast+
      then show ?thesis
        using added_for_trans [OF c(1)] same_request_trans [OF c(2)] by fastforce
    qed
  qed
qed

lemma commit_loop_added:
  "ownership_ok db \<Longrightarrow> commit_loop actor now rows made db = (rows', db', n)
    \<Longrightarrow> added_for rows' n db db' \<and> list_all2 same_request rows rows'"
proof (induction rows arbitrary: made db rows' db' n)
  case Nil
  then show ?case by (simp add: added_for_Nil)
next
  case (Cons row rows)
  obtain r m d k where r: "commit_row actor now row made db = (r, m, d, k)" by (metis prod_cases4)
  obtain rs d2 j where rs: "commit_loop actor now rows m d = (rs, d2, j)" by (metis prod_cases3)
  have e: "rows' = r # rs" "db' = d2" "n = k + j" using Cons.prems(2) r rs by simp_all
  have a: "added_for [r] k db d" "same_request row r" using commit_row_added [OF Cons.prems(1) r] by simp_all
  then have "ownership_ok d" by (auto simp: added_for_def intro: extended_ok)
  then have "added_for rs j d d2" "list_all2 same_request rows rs" using Cons.IH [OF _ rs] by simp_all
  then show ?case using added_for_trans [OF a(1)] a(2) e by fastforce
qed

lemma fold_increment: "count_of (fold (\<lambda>r. increment (f r)) xs m) k = count_of m k + length (filter (\<lambda>r. f r = k) xs)"
  by (induction xs arbitrary: m) (auto simp: count_of_increment)

lemma count_outcomes: "count_of (count_outcomes rows) o' = length (filter (\<lambda>r. rr_outcome r = o') rows)"
  by (simp add: count_outcomes_def fold_increment)

lemma commit_intake_rows_added:
  assumes "ownership_ok db" "commit_intake_rows actor now rep db = (rep', db')"
  shows "added_for (rp_rows rep') (rp_created rep' - rp_created rep) db db'"
    "list_all2 same_request (rp_rows rep) (rp_rows rep')"
    "rp_created rep \<le> rp_created rep'" "rp_counts rep' = count_outcomes (rp_rows rep')"
proof -
  obtain rows n where c: "commit_loop actor now (rp_rows rep) {} db = (rows, db', n)"
    and r: "rep' = rep\<lparr>rp_rows := rows, rp_counts := count_outcomes rows, rp_committed := True,
               rp_created := rp_created rep + n\<rparr>"
    using assms(2) by (auto simp: commit_intake_rows_def split: prod.splits)
  show "added_for (rp_rows rep') (rp_created rep' - rp_created rep) db db'"
    "list_all2 same_request (rp_rows rep) (rp_rows rep')"
    using commit_loop_added [OF assms(1) c] by (simp_all add: r)
  show "rp_created rep \<le> rp_created rep'" "rp_counts rep' = count_outcomes (rp_rows rep')"
    by (simp_all add: r)
qed

section \<open>Lemmas on trimming\<close>

definition rejected_rows :: "report_row list \<Rightarrow> nat" where
  "rejected_rows rows = length (filter (\<lambda>r. rr_outcome r = Rejected) rows)"

lemma trim_loop_bounds:
  "k \<le> intake_max_report_rows \<Longrightarrow> j \<le> budget \<Longrightarrow>
   subseq (trim_loop budget rows k j) rows
    \<and> rejected_rows (trim_loop budget rows k j) = min (rejected_rows rows) (intake_max_report_rows - k)
    \<and> length (trim_loop budget rows k j) =
        min (rejected_rows rows) (intake_max_report_rows - k) + min (length rows - rejected_rows rows) (budget - j)"
proof (induction rows arbitrary: k j)
  case Nil
  then show ?case by (simp add: rejected_rows_def)
next
  case (Cons r rows)
  have le: "rejected_rows rows \<le> length rows" by (simp add: rejected_rows_def)
  show ?case
  proof (cases "rr_outcome r = Rejected")
    case True
    then have s: "rejected_rows (r # rows) = Suc (rejected_rows rows)" by (simp add: rejected_rows_def)
    show ?thesis
    proof (cases "k \<ge> intake_max_report_rows")
      case k: True
      then show ?thesis using Cons.IH [of k j] Cons.prems True s
        by (auto simp: list_emb_Cons)
    next
      case k: False
      have "rejected_rows (r # trim_loop budget rows (k + 1) j) = Suc (rejected_rows (trim_loop budget rows (k + 1) j))"
        using True by (simp add: rejected_rows_def)
      then show ?thesis using Cons.IH [of "k + 1" j] Cons.prems True s k by auto
    qed
  next
    case False
    then have s: "rejected_rows (r # rows) = rejected_rows rows" "rejected_rows (r # xs) = rejected_rows xs" for xs
      by (simp_all add: rejected_rows_def)
    show ?thesis
    proof (cases "j < budget")
      case True
      have "Suc (min (length rows - rejected_rows rows) (budget - (j + 1))) = min (Suc (length rows) - rejected_rows rows) (budget - j)"
        using True le by arith
      then show ?thesis using Cons.IH [of k "j + 1"] Cons.prems False s True by simp
    next
      case j: False
      then have "budget - j = 0" by simp
      then show ?thesis using Cons.IH [of k j] Cons.prems False s j by (simp add: list_emb_Cons)
    qed
  qed
qed

lemma trim_report_rows_bounds:
  assumes "trim_report_rows rows = (kept, truncated)"
  shows "subseq kept rows" "length kept = min (length rows) intake_max_report_rows"
    "rejected_rows kept = min (rejected_rows rows) intake_max_report_rows" "truncated \<longleftrightarrow> kept \<noteq> rows"
proof -
  let ?M = intake_max_report_rows
  have le: "rejected_rows rows \<le> length rows" by (simp add: rejected_rows_def)
  have "subseq kept rows \<and> length kept = min (length rows) ?M \<and> rejected_rows kept = min (rejected_rows rows) ?M
     \<and> (truncated \<longleftrightarrow> length rows > ?M)"
  proof (cases "length rows \<le> ?M")
    case True
    then show ?thesis using assms le by (auto simp: trim_report_rows_def)
  next
    case False
    then have k: "kept = trim_loop (?M - rejected_rows rows) rows 0 0" "truncated = True"
      using assms by (auto simp: trim_report_rows_def rejected_rows_def)
    show ?thesis
      using trim_loop_bounds [of 0 0 "?M - rejected_rows rows" rows] False le unfolding k by auto
  qed
  then show "subseq kept rows" "length kept = min (length rows) ?M" "rejected_rows kept = min (rejected_rows rows) ?M"
    "truncated \<longleftrightarrow> kept \<noteq> rows"
  proof -
    assume f: "subseq kept rows \<and> length kept = min (length rows) ?M \<and> rejected_rows kept = min (rejected_rows rows) ?M
       \<and> (truncated \<longleftrightarrow> length rows > ?M)"
    then have "length kept = length rows" if "\<not> truncated" using that by simp
    then show "truncated \<longleftrightarrow> kept \<noteq> rows" using f by (metis less_irrefl min.strict_order_iff min.commute subseq_same_length)
  qed auto
qed

section \<open>Lemmas on classifying\<close>

definition slugged :: "mapped_row list \<Rightarrow> bool" where
  "slugged mapped =
     list_all (\<lambda>m. mw_rejected m = None \<longrightarrow> slugify_owner_name (mw_owner_raw m) = Some (mw_owner m)) mapped"

lemma map_row_slugged: "slugged (map (map_row mapper) rows)"
proof -
  have "mw_rejected (map_row mapper row) = None \<longrightarrow>
      slugify_owner_name (mw_owner_raw (map_row mapper row)) = Some (mw_owner (map_row mapper row))" for row
    by (simp add: map_row_def Let_def split: option.split)
  then show ?thesis by (simp add: slugged_def list_all_iff)
qed

lemma read_rows_slugged:
  "read_rows mapper column v rows mapped k = Some (mapped', k') \<Longrightarrow> slugged mapped \<Longrightarrow> slugged mapped'"
proof (induction rows arbitrary: mapped k)
  case (Cons row rows)
  have "slugged (mapped @ [map_row mapper row])"
    using Cons.prems(2) map_row_slugged [of mapper "[row]"] by (simp add: slugged_def)
  then show ?case using Cons by (simp split: if_splits)
qed simp

definition known :: "owner_resolution \<Rightarrow> bool" where
  "known res = (re_match res = Match_exact \<or> re_match res = Match_alias)"

definition report_of ::
  "similarity \<Rightarrow> ownership_db \<Rightarrow> (string \<Rightarrow> string \<Rightarrow> bool) \<Rightarrow> bool \<Rightarrow> mapped_row \<Rightarrow> report_row" where
  "report_of similar db collected create_owners m =
     (if mw_rejected m \<noteq> None then new_row collected m
      else resolved_row db collected create_owners (resolve_import_owner similar db m) m)"

text \<open>The cache of resolutions changes nothing: equal raw strings have equal slugs.\<close>

definition cache_true :: "similarity \<Rightarrow> ownership_db \<Rightarrow> (string \<rightharpoonup> owner_resolution) \<Rightarrow> bool" where
  "cache_true similar db cache =
     (\<forall>raw res (m :: mapped_row). cache raw = Some res \<longrightarrow> mw_owner_raw m = raw
        \<longrightarrow> slugify_owner_name raw = Some (mw_owner m) \<longrightarrow> res = resolve_import_owner similar db m)"

lemma cache_trueD:
  "cache_true similar db cache \<Longrightarrow> cache (mw_owner_raw m) = Some res
    \<Longrightarrow> slugify_owner_name (mw_owner_raw m) = Some (mw_owner m) \<Longrightarrow> res = resolve_import_owner similar db m"
  unfolding cache_true_def by blast

lemma resolve_cong:
  "mw_owner m = mw_owner m' \<Longrightarrow> mw_owner_raw m = mw_owner_raw m'
    \<Longrightarrow> resolve_import_owner similar db m = resolve_import_owner similar db m'"
  unfolding resolve_import_owner_def by (simp only:)

lemma cache_true_update:
  assumes "cache_true similar db cache" "slugify_owner_name (mw_owner_raw m) = Some (mw_owner m)"
  shows "cache_true similar db (cache(mw_owner_raw m \<mapsto> resolve_import_owner similar db m))"
  unfolding cache_true_def
proof (intro allI impI)
  fix raw res and m' :: mapped_row
  assume u: "(cache(mw_owner_raw m \<mapsto> resolve_import_owner similar db m)) raw = Some res"
    and m': "mw_owner_raw m' = raw" "slugify_owner_name raw = Some (mw_owner m')"
  show "res = resolve_import_owner similar db m'"
  proof (cases "raw = mw_owner_raw m")
    case True
    then have "mw_owner m = mw_owner m'" "mw_owner_raw m = mw_owner_raw m'" using assms(2) m' by simp_all
    then have "resolve_import_owner similar db m = resolve_import_owner similar db m'" by (rule resolve_cong)
    then show ?thesis using u True by simp
  next
    case False
    then show ?thesis using u m' cache_trueD [OF assms(1)] by auto
  qed
qed

lemma classify_row_step:
  assumes "mw_rejected m = None \<longrightarrow> slugify_owner_name (mw_owner_raw m) = Some (mw_owner m)"
    and "cache_true similar db (cs_resolved s)"
  shows "cs_rows (classify_row similar db collected create m s) = cs_rows s @ [report_of similar db collected create m]"
    and "cs_counts (classify_row similar db collected create m s)
      = increment (rr_outcome (report_of similar db collected create m)) (cs_counts s)"
    and "cache_true similar db (cs_resolved (classify_row similar db collected create m s))"
proof -
  let ?s = "classify_row similar db collected create m s" and ?r = "report_of similar db collected create m"
  have "cs_rows ?s = cs_rows s @ [?r] \<and> cs_counts ?s = increment (rr_outcome ?r) (cs_counts s)
      \<and> cache_true similar db (cs_resolved ?s)"
  proof (cases "mw_rejected m = None")
    case False
    then show ?thesis using assms(2) by (auto simp: classify_row_def report_of_def add_row_def)
  next
    case True
    then have sl: "slugify_owner_name (mw_owner_raw m) = Some (mw_owner m)" using assms(1) by simp
    let ?res = "resolve_import_owner similar db m"
    have res: "(case cs_resolved s (mw_owner_raw m) of Some r \<Rightarrow> r | None \<Rightarrow> ?res) = ?res"
      using cache_trueD [OF assms(2) _ sl] by (auto split: option.split)
    have r: "?r = resolved_row db collected create ?res m" using True by (simp add: report_of_def)
    show ?thesis
      using cache_true_update [OF assms(2) sl] True unfolding classify_row_def res r
      by (simp add: Let_def add_row_def)
  qed
  then show "cs_rows ?s = cs_rows s @ [?r]" "cs_counts ?s = increment (rr_outcome ?r) (cs_counts s)"
    "cache_true similar db (cs_resolved ?s)" by simp_all
qed

lemma classify_fold:
  "slugged mapped \<Longrightarrow> cache_true similar db (cs_resolved s) \<Longrightarrow>
     cs_rows (fold (classify_row similar db collected create) mapped s)
       = cs_rows s @ map (report_of similar db collected create) mapped
     \<and> cs_counts (fold (classify_row similar db collected create) mapped s)
       = fold (\<lambda>r. increment (rr_outcome r)) (map (report_of similar db collected create) mapped) (cs_counts s)"
proof (induction mapped arbitrary: s)
  case (Cons m mapped)
  have p: "mw_rejected m = None \<longrightarrow> slugify_owner_name (mw_owner_raw m) = Some (mw_owner m)" "slugged mapped"
    using Cons.prems(1) by (simp_all add: slugged_def)
  note st = classify_row_step [OF p(1) Cons.prems(2), of collected create]
  show ?case using Cons.IH [OF p(2) st(3)] st(1,2) by simp
qed simp

lemma classify_rows:
  assumes "slugged mapped"
  shows "rp_rows (classify_intake_rows similar db collected create mapped)
       = map (report_of similar db collected create) mapped"
    "rp_counts (classify_intake_rows similar db collected create mapped)
       = count_outcomes (map (report_of similar db collected create) mapped)"
    "rp_created (classify_intake_rows similar db collected create mapped) = 0"
  using classify_fold [OF assms, of similar db] unfolding count_outcomes_def
  by (simp_all add: classify_intake_rows_def Let_def cache_true_def)

lemma classify_held_duplicate:
  "fst (classify_held owner org held others) = Duplicate_exists \<longleftrightarrow> (owner, org) \<in> set held"
proof (induction held arbitrary: others)
  case (Cons h held)
  then show ?case by (cases h) auto
qed simp

lemma classify_held_not_rejected: "fst (classify_held owner org held others) \<noteq> Rejected"
proof (induction held arbitrary: others)
  case (Cons h held)
  then show ?case by (cases h) auto
qed simp

lemma held_by_mono:
  "extended db db' \<Longrightarrow> set (held_by db m) \<subseteq> set (held_by db' m)"
  by (auto simp: held_by_def assignment_owners_def extended_def dest: set_mono_prefix)

lemma held_by_owner: "(owner, org) \<in> set (held_by db m) \<Longrightarrow> ownership_ok db \<Longrightarrow> owner \<in> set (owner_names db)"
  by (auto simp: held_by_def assignment_owners_def ownership_ok_def assignments_ok_def list_all_iff split: if_splits)

text \<open>The row of a resolved owner in full.\<close>

definition owner_for :: "owner_resolution \<Rightarrow> mapped_row \<Rightarrow> string" where
  "owner_for res m = (if known res then re_owner res else mw_owner m)"

lemma resolved_row_fields:
  assumes "known res \<or> create"
  shows "rr_owner (resolved_row db collected create res m) = owner_for res m"
    "rr_creates_owner (resolved_row db collected create res m) = (\<not> known res)"
    "import_params (rr_row (resolved_row db collected create res m)) = import_params (m\<lparr>mw_owner := owner_for res m\<rparr>)"
    "mw_owner_raw (rr_row (resolved_row db collected create res m)) = mw_owner_raw m"
    "written (resolved_row db collected create res m) \<longleftrightarrow> (owner_for res m, mw_organisation m) \<notin> set (held_by db m)"
  using assms classify_held_duplicate [of "owner_for res m" "mw_organisation m" "held_by db m" "[]"]
    classify_held_not_rejected [of "owner_for res m" "mw_organisation m" "held_by db m" "[]"]
  by (auto simp: resolved_row_def Let_def known_def [symmetric] rr_owner_def set_owner_def new_row_def owner_for_def
       import_params_def written_def split: prod.splits)

lemma resolved_row_strict:
  "\<not> known res \<Longrightarrow> \<not> create \<Longrightarrow> rr_outcome (resolved_row db collected create res m) = Rejected"
  by (simp add: resolved_row_def Let_def known_def [symmetric])

section \<open>A second run\<close>

definition creating :: "report_row \<Rightarrow> bool" where
  "creating r = (rr_creates_owner r \<and> written r)"

text \<open>Where the owners and the aliases after a commit come from, and what is there.\<close>

definition commit_effect :: "report_row list \<Rightarrow> ownership_db \<Rightarrow> ownership_db \<Rightarrow> bool" where
  "commit_effect rows db db' =
     (extended db db'
      \<and> (\<forall>name \<in> set (owner_names db'). name \<in> set (owner_names db) \<or> (\<exists>r \<in> set rows. creating r \<and> rr_owner r = name))
      \<and> (\<forall>l \<in> set (od_aliases db'). l \<in> set (od_aliases db)
            \<or> (\<exists>r \<in> set rows. creating r \<and> alias_key l = (alias_custom, mw_owner_raw (rr_row r))))
      \<and> (\<forall>r \<in> set rows. creating r \<longrightarrow> rr_owner r \<in> set (owner_names db'))
      \<and> (\<forall>r \<in> set rows. written r \<and> entity_type_ok (mw_entity_type (rr_row r))
            \<and> (creating r \<or> rr_owner r \<in> set (owner_names db)) \<longrightarrow> row_key r \<in> keys_of db'))"

lemma commit_effect_Nil: "ownership_ok db \<Longrightarrow> commit_effect [] db db"
  by (simp add: commit_effect_def)

lemma commit_effect_Cons:
  assumes "commit_effect [r] db d" "commit_effect rows d db'"
  shows "commit_effect (r # rows) db db'"
proof -
  have e: "extended db d" "extended d db'" using assms by (simp_all add: commit_effect_def)
  have sub: "set (owner_names db) \<subseteq> set (owner_names d)" "set (owner_names d) \<subseteq> set (owner_names db')"
    "keys_of d \<subseteq> keys_of db'" using e extended_names extended_keys by blast+
  have "extended db db'" by (rule extended_trans [OF e])
  moreover have "name \<in> set (owner_names db) \<or> (\<exists>x \<in> set (r # rows). creating x \<and> rr_owner x = name)"
    if "name \<in> set (owner_names db')" for name
    using assms that unfolding commit_effect_def by fastforce
  moreover have "l \<in> set (od_aliases db)
      \<or> (\<exists>x \<in> set (r # rows). creating x \<and> alias_key l = (alias_custom, mw_owner_raw (rr_row x)))"
    if "l \<in> set (od_aliases db')" for l
  proof -
    have "l \<in> set (od_aliases d) \<or> (\<exists>x \<in> set rows. creating x \<and> alias_key l = (alias_custom, mw_owner_raw (rr_row x)))"
      using assms(2) that unfolding commit_effect_def by blast
    moreover have "l \<in> set (od_aliases d) \<Longrightarrow> l \<in> set (od_aliases db)
        \<or> (creating r \<and> alias_key l = (alias_custom, mw_owner_raw (rr_row r)))"
      using assms(1) unfolding commit_effect_def by auto
    ultimately show ?thesis by auto
  qed
  moreover have "rr_owner x \<in> set (owner_names db')" if "x \<in> set (r # rows)" "creating x" for x
    using assms that sub unfolding commit_effect_def by auto
  moreover have "row_key x \<in> keys_of db'" if "x \<in> set (r # rows)" "written x" "entity_type_ok (mw_entity_type (rr_row x))"
      "creating x \<or> rr_owner x \<in> set (owner_names db)" for x
  proof (cases "x = r")
    case True
    then show ?thesis using assms(1) that sub(3) unfolding commit_effect_def by auto
  next
    case False
    then show ?thesis using assms(2) that sub(1) unfolding commit_effect_def by auto
  qed
  ultimately show ?thesis unfolding commit_effect_def by blast
qed

lemma create_intake_owner_succeeds:
  assumes "owner_name_ok (rr_owner row)"
  shows "\<exists>row' db'. create_intake_owner actor now row db = Inr (row', db')"
proof (cases "insert_owner (owner_params_of (rr_row row)) now db")
  case (Inl e)
  then have "e = Own_exists"
    using assms by (auto simp: insert_owner_def owner_params_of_def rr_owner_def owner_type_ok_def owner_name_ok_def
        Let_def split: if_splits)
  then show ?thesis by (simp add: create_intake_owner_exists [OF Inl])
next
  case (Inr x)
  then show ?thesis using create_intake_owner_new [of row now db "fst x" "snd x" actor] by fastforce
qed

lemma commit_row_effect:
  assumes "ownership_ok db" "commit_row actor now row made db = (row', made', db', n)"
    and "made \<subseteq> set (owner_names db)" "rr_creates_owner row \<longrightarrow> owner_name_ok (rr_owner row)"
  shows "commit_effect [row] db db' \<and> made' \<subseteq> set (owner_names db')"
proof (cases "written row")
  case False
  then have "made' = made" "db' = db" using assms(2) by (auto simp: commit_row_def written_def)
  then show ?thesis using False assms(1,3) by (simp add: commit_effect_def creating_def)
next
  case w: True
  then have nw: "\<not> (rr_outcome row = Rejected \<or> rr_outcome row = Duplicate_exists)" by (simp add: written_def)
  show ?thesis
  proof (cases "rr_creates_owner row \<and> rr_owner row \<notin> made")
    case False
    then have a: "assign_row actor now row db = (row', db', n)" "made' = made"
      using assms(2) nw by (auto simp: commit_row_def split: prod.splits)
    note s = assign_row_spec [OF assms(1) a(1) w]
    have "creating row \<Longrightarrow> rr_owner row \<in> set (owner_names db)"
      using False assms(3) by (auto simp: creating_def)
    then have "commit_effect [row] db db'"
      using s by (auto simp: commit_effect_def)
    then show ?thesis using s a(2) assms(3) by simp
  next
    case True
    obtain r d where c: "create_intake_owner actor now row db = Inr (r, d)"
      using create_intake_owner_succeeds assms(4) True by blast
    note cs = create_intake_owner_spec [OF assms(1) c]
    have a: "assign_row actor now r d = (row', db', n)" "made' = insert (rr_owner row) made"
      using assms(2) nw True c by (auto simp: commit_row_def split: prod.splits)
    have wr: "written r" using w cs(5) by (simp add: written_def)
    note s = assign_row_spec [OF extended_ok [OF cs(1)] a(1) wr]
    have cr: "creating row" using True w by (simp add: creating_def)
    have ro: "rr_owner r = rr_owner row" "row_key r = row_key row" using cs(4) by (simp_all add: rr_owner_def row_key_def)
    have n: "set (owner_names db') = insert (rr_owner row) (set (owner_names db))" using s cs(3) by simp
    have al: "l \<in> set (od_aliases db') \<Longrightarrow> l \<in> set (od_aliases db) \<or> alias_key l = (alias_custom, mw_owner_raw (rr_row row))" for l
      using s cs(6) by simp
    have k: "entity_type_ok (mw_entity_type (rr_row row)) \<Longrightarrow> row_key row \<in> keys_of db'"
      using s cs(3,4) ro by auto
    have "extended db db'" using s cs(1) extended_trans by blast
    then have "commit_effect [row] db db'" using cr n al k by (auto simp: commit_effect_def)
    then show ?thesis using n a(2) assms(3) by auto
  qed
qed

lemma commit_loop_effect:
  "ownership_ok db \<Longrightarrow> commit_loop actor now rows made db = (rows', db', n) \<Longrightarrow> made \<subseteq> set (owner_names db)
    \<Longrightarrow> \<forall>r \<in> set rows. rr_creates_owner r \<longrightarrow> owner_name_ok (rr_owner r) \<Longrightarrow> commit_effect rows db db'"
proof (induction rows arbitrary: made db rows' db' n)
  case Nil
  then show ?case by (simp add: commit_effect_Nil)
next
  case (Cons row rows)
  obtain r m d k where r: "commit_row actor now row made db = (r, m, d, k)" by (metis prod_cases4)
  obtain rs d2 j where rs: "commit_loop actor now rows m d = (rs, d2, j)" by (metis prod_cases3)
  have e: "db' = d2" using Cons.prems(2) r rs by simp
  have a: "commit_effect [row] db d" "m \<subseteq> set (owner_names d)"
    using commit_row_effect [OF Cons.prems(1) r Cons.prems(3)] Cons.prems(4) by simp_all
  then have "ownership_ok d" by (auto simp: commit_effect_def intro: extended_ok)
  then show ?case using Cons.IH [OF _ rs a(2)] Cons.prems(4) commit_effect_Cons [OF a(1)] e by simp
qed

text \<open>A commit in which no row can be written changes nothing.\<close>

definition idle_row :: "ownership_db \<Rightarrow> report_row \<Rightarrow> bool" where
  "idle_row db r =
     (written r \<longrightarrow> \<not> rr_creates_owner r \<and> (row_key r \<in> keys_of db \<or> \<not> entity_type_ok (mw_entity_type (rr_row r))))"

lemma idle_commit_row:
  assumes "idle_row db r"
  shows "\<exists>r'. commit_row actor now r made db = (r', made, db, 0)"
proof (cases "written r")
  case True
  then have "\<exists>e. insert_assignment (import_params (rr_row r)) now db = Inl e"
    using assms by (auto simp: idle_row_def insert_assignment_cases row_key_def import_params_def)
  then show ?thesis using True assms by (auto simp: commit_row_def idle_row_def written_def assign_row_def Let_def)
qed (auto simp: commit_row_def written_def)

lemma idle_commit:
  "\<forall>r \<in> set rows. idle_row db r \<Longrightarrow> \<exists>rows'. commit_loop actor now rows made db = (rows', db, 0)"
proof (induction rows)
  case (Cons r rows)
  obtain r' where "commit_row actor now r made db = (r', made, db, 0)"
    using idle_commit_row Cons.prems by (metis list.set_intros(1))
  then show ?case using Cons by fastforce
qed simp

text \<open>
  A raw string resolved by alias keeps its owner as long as no unresolved row of the same import has
  the same slug: that row would create an owner the string then names exactly.
\<close>

definition alias_stable :: "similarity \<Rightarrow> ownership_db \<Rightarrow> mapped_row list \<Rightarrow> bool" where
  "alias_stable similar db mapped =
     list_all (\<lambda>m. mw_rejected m = None \<and> re_match (resolve_import_owner similar db m) = Match_alias \<longrightarrow>
        list_all (\<lambda>m'. mw_rejected m' = None \<and> \<not> known (resolve_import_owner similar db m')
                         \<longrightarrow> mw_owner m' \<noteq> mw_owner m) mapped) mapped"

lemma get_owner_exact:
  assumes "owner_name_ok name"
  shows "(case get_owner_by_name name db of Some r \<Rightarrow> ow_name r | None \<Rightarrow> []) =
    (if name \<in> set (owner_names db) then name else [])"
  using row_of_Some [of ow_name name "od_owners db"] row_of_None [of ow_name name "od_owners db"]
  by (auto simp: get_owner_by_name_def owner_names_def split: option.split)

lemma resolve_exact:
  assumes "owner_name_ok (mw_owner m)"
  shows "mw_owner m \<in> set (owner_names db) \<Longrightarrow>
      resolve_import_owner similar db m =
        \<lparr>re_owner = mw_owner m, re_match = Match_exact, re_suggestions = [], re_conflict = None\<rparr>"
    and "mw_owner m \<notin> set (owner_names db) \<Longrightarrow> first_alias (alias_lookups (mw_owner_raw m)) db = Some name \<Longrightarrow>
      resolve_import_owner similar db m =
        \<lparr>re_owner = name, re_match = Match_alias, re_suggestions = [], re_conflict = None\<rparr>"
    and "mw_owner m \<notin> set (owner_names db) \<Longrightarrow> first_alias (alias_lookups (mw_owner_raw m)) db = None \<Longrightarrow>
      \<not> known (resolve_import_owner similar db m) \<and> re_match (resolve_import_owner similar db m) \<noteq> Match_alias"
  using assms
  by (auto simp: resolve_import_owner_def get_owner_exact Let_def known_def owner_name_ok_def)

lemma first_alias_owner:
  "first_alias ks db = Some name \<Longrightarrow> ownership_ok db \<Longrightarrow> name \<in> set (owner_names db)"
proof (induction ks)
  case (Cons k ks)
  obtain ty v where k: "k = (ty, v)" by fastforce
  show ?case
  proof (cases "resolve_owner_by_alias ty v db")
    case None
    then show ?thesis using Cons k by simp
  next
    case (Some nm)
    then have "nm \<in> set (owner_names db)"
      using Cons.prems(2) row_of_Some [of alias_key "(ty, v)" "od_aliases db"]
      by (auto simp: resolve_owner_by_alias_def ownership_ok_def aliases_ok_def list_all_iff)
    then show ?thesis using Cons k Some by (auto split: if_splits)
  qed
qed simp

lemma row_of_append_list:
  "row_of key k (tbl @ rows) = (case row_of key k tbl of Some x \<Rightarrow> Some x | None \<Rightarrow> row_of key k rows)"
  unfolding row_of_def by (induction tbl) auto

lemma first_alias_mono:
  assumes "prefix (od_aliases db) (od_aliases db')"
    and "\<And>l. l \<in> set (od_aliases db') \<Longrightarrow> l \<in> set (od_aliases db) \<or> alias_key l \<notin> set ks"
  shows "first_alias ks db' = first_alias ks db"
proof -
  obtain new where new: "od_aliases db' = od_aliases db @ new" using assms(1) by (auto simp: prefix_def)
  have "resolve_owner_by_alias ty v db' = resolve_owner_by_alias ty v db" if "(ty, v) \<in> set ks" for ty v
  proof (cases "(ty, v) \<in> alias_key ` set (od_aliases db)")
    case True
    then have "row_of alias_key (ty, v) (od_aliases db) \<noteq> None" by (simp add: row_of_None)
    then show ?thesis unfolding resolve_owner_by_alias_def new by (auto simp: row_of_append_list split: option.split)
  next
    case False
    then have "(ty, v) \<notin> alias_key ` set (od_aliases db')"
      using assms(2) that by fastforce
    then have "row_of alias_key (ty, v) (od_aliases db') = None" "row_of alias_key (ty, v) (od_aliases db) = None"
      using False row_of_None [of alias_key "(ty, v)" "od_aliases db'"] row_of_None [of alias_key "(ty, v)" "od_aliases db"]
      by simp_all
    then show ?thesis by (simp add: resolve_owner_by_alias_def)
  qed
  then show ?thesis by (induction ks) (auto split: option.split)
qed

lemma alias_lookup_custom:
  assumes "(alias_custom, v) \<in> set (alias_lookups raw)"
  shows "slugify_owner_name v = slugify_owner_name raw"
proof -
  have "v = raw \<or> v = to_lower raw"
    using assms by (auto simp: alias_lookups_def raw_candidates_def split: if_splits)
  then show ?thesis by (auto simp: slugify_lower)
qed

text \<open>Every row of the second run is idle.\<close>

lemma second_run_idle:
  assumes ok: "ownership_ok db" and sl: "slugged mapped" and st: "alias_stable similar db mapped"
    and eff: "commit_effect (map (report_of similar db collected create) mapped) db db'" and m: "m \<in> set mapped"
  shows "idle_row db' (report_of similar db' collected create m)"
proof (cases "mw_rejected m = None")
  case False
  then show ?thesis by (simp add: report_of_def idle_row_def written_def new_row_def)
next
  case True
  let ?res = "\<lambda>d m. resolve_import_owner similar d m" and ?row = "report_of similar db collected create"
  have slug: "slugify_owner_name (mw_owner_raw x) = Some (mw_owner x)" if "x \<in> set mapped" "mw_rejected x = None" for x
    using sl that by (simp add: slugged_def list_all_iff)
  have nm: "owner_name_ok (mw_owner m)" using slugify_owner_name_ok slug [OF m True] by blast
  have e: "extended db db'" using eff by (simp add: commit_effect_def)
  have names: "set (owner_names db) \<subseteq> set (owner_names db')" by (rule extended_names [OF e])
  have r: "?row m = resolved_row db collected create (?res db m) m"
      "report_of similar db' collected create m = resolved_row db' collected create (?res db' m) m"
    using True by (simp_all add: report_of_def)
  have cr: "\<exists>x \<in> set mapped. mw_rejected x = None \<and> \<not> known (?res db x) \<and> create \<and> rr_owner (?row x) = mw_owner x
      \<and> mw_owner_raw (rr_row (?row x)) = mw_owner_raw x \<and> ?row x = y"
    if y: "y \<in> set (map ?row mapped)" "creating y" for y
  proof -
    obtain x where x: "x \<in> set mapped" "y = ?row x" using y(1) by auto
    have rej: "mw_rejected x = None"
      using x y(2) by (auto simp: creating_def written_def report_of_def new_row_def split: if_splits)
    have k: "known (?res db x) \<or> create"
    proof (rule ccontr)
      assume "\<not> (known (?res db x) \<or> create)"
      then show False
        using resolved_row_strict [of "?res db x" create db collected x] x y(2) rej
        by (simp add: creating_def written_def report_of_def)
    qed
    have "\<not> known (?res db x)"
      using resolved_row_fields(2) [OF k, of db collected x] x y(2) rej by (auto simp: creating_def report_of_def)
    then show ?thesis
      using x rej k resolved_row_fields(1,4) [OF k, of db collected x] by (auto simp: report_of_def owner_for_def)
  qed
  have idle: ?thesis
    if k: "known (?res db' m)" "owner_for (?res db' m) m = owner_for (?res db m) m" "known (?res db m) \<or> create"
      and ow: "known (?res db m) \<Longrightarrow> re_owner (?res db m) \<in> set (owner_names db)"
  proof -
    have k1: "known (?res db' m) \<or> create" using k(1) by simp
    note f = resolved_row_fields [OF k(3), of db collected m] and f' = resolved_row_fields [OF k1, of db' collected m]
    have key: "row_key (report_of similar db' collected create m) = row_key (?row m)"
      unfolding row_key_def r f(3) f'(3) k(2) by (rule refl)
    have et: "mw_entity_type (rr_row (resolved_row d collected create res m)) = mw_entity_type m" for d res
      by (auto simp: resolved_row_def Let_def set_owner_def new_row_def set_rejected_def split: prod.splits)
    show ?thesis
    proof (cases "written (?row m)")
      case True
      have "creating (?row m) \<or> rr_owner (?row m) \<in> set (owner_names db)"
        using True ow f(1,2) by (auto simp: creating_def r owner_for_def)
      then have "entity_type_ok (mw_entity_type m) \<Longrightarrow> row_key (?row m) \<in> keys_of db'"
        using eff m True et by (auto simp: commit_effect_def r)
      then show ?thesis
        using f'(2) k(1) unfolding idle_row_def key unfolding r et by blast
    next
      case False
      then have "(owner_for (?res db m) m, mw_organisation m) \<in> set (held_by db m)" using f(5) by (simp add: r)
      then have "(owner_for (?res db' m) m, mw_organisation m) \<in> set (held_by db' m)"
        unfolding k(2) using held_by_mono [OF e] by blast
      then show ?thesis using f'(5) by (simp add: idle_row_def r)
    qed
  qed
  show ?thesis
  proof (cases "mw_owner m \<in> set (owner_names db)")
    case ex: True
    have "?res db m = \<lparr>re_owner = mw_owner m, re_match = Match_exact, re_suggestions = [], re_conflict = None\<rparr>"
      "?res db' m = \<lparr>re_owner = mw_owner m, re_match = Match_exact, re_suggestions = [], re_conflict = None\<rparr>"
      using ex names by (auto intro: resolve_exact(1) [OF nm])
    then show ?thesis by (intro idle) (use ex in \<open>auto simp: known_def\<close>)
  next
    case nex: False
    have fresh: "first_alias (alias_lookups (mw_owner_raw m)) db' = first_alias (alias_lookups (mw_owner_raw m)) db"
      if no: "\<And>x. x \<in> set mapped \<Longrightarrow> mw_rejected x = None \<Longrightarrow> \<not> known (?res db x) \<Longrightarrow> create \<Longrightarrow> mw_owner x \<noteq> mw_owner m"
    proof (rule first_alias_mono)
      show "prefix (od_aliases db) (od_aliases db')" using e by (simp add: extended_def)
      fix l assume "l \<in> set (od_aliases db')"
      then consider "l \<in> set (od_aliases db)"
        | y where "y \<in> set (map ?row mapped)" "creating y" "alias_key l = (alias_custom, mw_owner_raw (rr_row y))"
        using eff unfolding commit_effect_def by blast
      then show "l \<in> set (od_aliases db) \<or> alias_key l \<notin> set (alias_lookups (mw_owner_raw m))"
      proof cases
        case (2 y)
        obtain x where x: "x \<in> set mapped" "mw_rejected x = None" "\<not> known (?res db x)" "create"
          "mw_owner_raw (rr_row y) = mw_owner_raw x" using cr [OF 2(1,2)] by auto
        then have "slugify_owner_name (mw_owner_raw x) \<noteq> slugify_owner_name (mw_owner_raw m)"
          using no slug [OF x(1,2)] slug [OF m True] by auto
        then show ?thesis using alias_lookup_custom 2(3) x(5) by metis
      qed simp
    qed
    have stays: "mw_owner m \<notin> set (owner_names db')"
      if no: "\<And>x. x \<in> set mapped \<Longrightarrow> mw_rejected x = None \<Longrightarrow> \<not> known (?res db x) \<Longrightarrow> create \<Longrightarrow> mw_owner x \<noteq> mw_owner m"
    proof
      assume "mw_owner m \<in> set (owner_names db')"
      then obtain y where "y \<in> set (map ?row mapped)" "creating y" "rr_owner y = mw_owner m"
        using eff nex unfolding commit_effect_def by blast
      then show False using cr no by force
    qed
    show ?thesis
    proof (cases "first_alias (alias_lookups (mw_owner_raw m)) db")
      case (Some name)
      have res: "?res db m = \<lparr>re_owner = name, re_match = Match_alias, re_suggestions = [], re_conflict = None\<rparr>"
        by (rule resolve_exact(2) [OF nm nex Some])
      have no: "mw_owner x \<noteq> mw_owner m" if "x \<in> set mapped" "mw_rejected x = None" "\<not> known (?res db x)" for x
        using st m True that res by (auto simp: alias_stable_def list_all_iff)
      have res': "?res db' m = ?res db m"
        unfolding res by (rule resolve_exact(2) [OF nm]) (use stays fresh no Some in auto)
      show ?thesis
        by (rule idle) (use res res' first_alias_owner [OF Some ok] in \<open>simp_all add: known_def\<close>)
    next
      case None
      note un = resolve_exact(3) [OF nm nex None, of similar]
      show ?thesis
      proof (cases create)
        case c: True
        have "known (?res db m) \<or> create" using c by simp
        note f = resolved_row_fields [OF this, of db collected m]
        have w: "written (?row m)"
          using f(5) held_by_owner [of "mw_owner m" _ db m] nex ok un by (auto simp: r owner_for_def)
        have "creating (?row m)" using w f(2) un by (simp add: creating_def r)
        then have "mw_owner m \<in> set (owner_names db')"
          using eff m f(1) un unfolding commit_effect_def by (auto simp: r owner_for_def)
        then have "?res db' m = \<lparr>re_owner = mw_owner m, re_match = Match_exact, re_suggestions = [], re_conflict = None\<rparr>"
          by (rule resolve_exact(1) [OF nm])
        then show ?thesis by (intro idle) (use c un in \<open>auto simp: known_def owner_for_def\<close>)
      next
        case nc: False
        have "first_alias (alias_lookups (mw_owner_raw m)) db' = None" "mw_owner m \<notin> set (owner_names db')"
          using fresh stays None nc by auto
        then have "\<not> known (?res db' m)" using resolve_exact(3) [OF nm] by blast
        then show ?thesis
          using nc resolved_row_strict [of "?res db' m" create db' collected m] unfolding idle_row_def written_def r by blast
      qed
    qed
  qed
qed

lemma rerun_lemma:
  assumes "ownership_ok db" "slugged mapped" "alias_stable similar db mapped"
    and "commit_intake_rows actor now (classify_intake_rows similar db collected create mapped) db = (rep, db')"
  shows "snd (commit_intake_rows actor' now' (classify_intake_rows similar db' collected create mapped) db') = db'"
proof -
  let ?rows = "map (report_of similar db collected create) mapped"
  obtain rows' n where c: "commit_loop actor now ?rows {} db = (rows', db', n)"
    using assms(4) classify_rows(1) [OF assms(2)] by (auto simp: commit_intake_rows_def split: prod.splits)
  have "owner_name_ok (rr_owner r)" if "r \<in> set ?rows" "rr_creates_owner r" for r
  proof -
    obtain m where m: "m \<in> set mapped" "r = report_of similar db collected create m" using \<open>r \<in> set ?rows\<close> by auto
    have rej: "mw_rejected m = None"
      using m that(2) by (auto simp: report_of_def new_row_def split: if_splits)
    then have r: "r = resolved_row db collected create (resolve_import_owner similar db m) m"
      using m(2) by (simp add: report_of_def)
    have k: "known (resolve_import_owner similar db m) \<or> create"
      using that(2) unfolding r by (auto simp: resolved_row_def Let_def known_def [symmetric] set_rejected_def set_owner_def
          new_row_def split: if_splits)
    have "\<not> known (resolve_import_owner similar db m)" using resolved_row_fields(2) [OF k] that(2) r by simp
    then have "rr_owner r = mw_owner m" using resolved_row_fields(1) [OF k] r by (simp add: owner_for_def)
    then show ?thesis
      using assms(2) m(1) rej slugify_owner_name_ok by (auto simp: slugged_def list_all_iff)
  qed
  then have eff: "commit_effect ?rows db db'"
    by (intro commit_loop_effect [OF assms(1) c]) auto
  have "\<forall>r \<in> set (map (report_of similar db' collected create) mapped). idle_row db' r"
    using second_run_idle [OF assms(1-3) eff] by auto
  then obtain rows2 where "commit_loop actor' now' (map (report_of similar db' collected create) mapped) {} db' = (rows2, db', 0)"
    using idle_commit by blast
  then show ?thesis by (simp add: commit_intake_rows_def classify_rows(1) [OF assms(2)])
qed

end
