(* ===== verification/Ownership_Handlers.thy ===== *)
theory Ownership_Handlers
  imports Ownership_Rules Ownership_Import Auth Go_Strconv
begin

text \<open>
  The requests that change ownership (\<open>internal/webapi/handle_ownership.go\<close>,
  \<open>handle_ownership_identity.go\<close>, \<open>handle_ownership_aliases.go\<close> and the clear-down in
  \<open>ownership_import_run.go\<close>) and the views of it (\<open>resolveOwnershipFilter\<close>,
  \<open>ownersForEntities\<close>). A handler takes the session of the request, which is absent when
  authentication is not configured, and the decoded body; it returns the status code and the
  database. \<open>orgs\<close> are the names of the organisations there are.
\<close>

section \<open>Who may\<close>

definition require_operator_or_admin :: "session_info option \<Rightarrow> bool" where
  "require_operator_or_admin sess = (case sess of None \<Rightarrow> True | Some i \<Rightarrow> si_role i = role_admin \<or> si_role i = role_operator)"

definition require_admin_role :: "session_info option \<Rightarrow> bool" where
  "require_admin_role sess = (case sess of None \<Rightarrow> True | Some i \<Rightarrow> si_role i = role_admin)"

definition admin_username :: "session_info option \<Rightarrow> string" where
  "admin_username sess = (case sess of None \<Rightarrow> ''unknown'' | Some i \<Rightarrow> si_username i)"

definition audit_ownership ::
  "session_info option \<Rightarrow> string \<Rightarrow> string \<Rightarrow> string \<Rightarrow> string \<Rightarrow> string \<Rightarrow> json \<Rightarrow> ownership_db \<Rightarrow> ownership_db" where
  "audit_ownership sess action name et key org details db =
     audit (admin_username sess) action name et key org details db"

section \<open>Owners\<close>

definition handle_create_owner :: "session_info option \<Rightarrow> owner_params \<Rightarrow> int \<Rightarrow> ownership_db \<Rightarrow> nat \<times> ownership_db" where
  "handle_create_owner sess p now db =
     (if \<not> require_operator_or_admin sess then (403, db)
      else if op_name p = [] then (400, db)
      else if \<not> owner_name_ok (op_name p) then (422, db)
      else if op_type p = [] then (400, db)
      else if \<not> owner_type_ok (op_type p) then (422, db)
      else case insert_owner p now db of
             Inl e \<Rightarrow> (if e = Own_exists then 409 else 500, db)
           | Inr (r, db') \<Rightarrow>
               (201, audit_ownership sess action_owner_created (ow_name r) [] [] []
                       (JObj [(''owner_type'', JStr (ow_type r))]) db'))"

definition changed_fields :: "owner_update \<Rightarrow> string list" where
  "changed_fields u =
     (if ou_display_name u \<noteq> None then [''display_name''] else [])
     @ (if ou_contact_email u \<noteq> None then [''contact_email''] else [])
     @ (if ou_contact_channel u \<noteq> None then [''contact_channel''] else [])
     @ (if ou_type u \<noteq> None then [''owner_type''] else [])
     @ (if ou_metadata u \<noteq> None then [''metadata''] else [])"

definition handle_update_owner ::
  "session_info option \<Rightarrow> string \<Rightarrow> owner_update \<Rightarrow> int \<Rightarrow> ownership_db \<Rightarrow> nat \<times> ownership_db" where
  "handle_update_owner sess name u now db =
     (if \<not> require_operator_or_admin sess then (403, db)
      else if (case ou_type u of None \<Rightarrow> False | Some t \<Rightarrow> \<not> owner_type_ok t) then (422, db)
      else case update_owner name u now db of
             Inl e \<Rightarrow> (if e = Own_missing then 404 else 500, db)
           | Inr (r, db') \<Rightarrow>
               (200, audit_ownership sess ''owner_updated'' name [] [] []
                       (JObj [(''changed_fields'', JArr (map JStr (changed_fields u)))]) db'))"

definition handle_delete_owner :: "session_info option \<Rightarrow> string \<Rightarrow> ownership_db \<Rightarrow> nat \<times> ownership_db" where
  "handle_delete_owner sess name db =
     (if \<not> require_admin_role sess then (403, db)
      else case delete_owner name db of
             Inl e \<Rightarrow> (if e = Own_missing then 404 else 500, db)
           | Inr (n, db') \<Rightarrow>
               (204, audit_ownership sess ''owner_deleted'' name [] [] []
                       (JObj [(''assignments_cascaded'', JNum (of_nat n))]) db'))"

section \<open>Assignments\<close>

record assignment_request =
  aq_entity_type :: string
  aq_entity_key :: string
  aq_organisation :: string
  aq_notes :: string

definition manual_params :: "string \<Rightarrow> assignment_request \<Rightarrow> assignment_params" where
  "manual_params owner a =
     \<lparr>ap_owner = owner, ap_entity_type = aq_entity_type a, ap_entity_key = aq_entity_key a,
      ap_org = aq_organisation a, ap_source = source_manual, ap_rule = [], ap_confidence = conf_definitive,
      ap_notes = aq_notes a\<rparr>"

text \<open>The assignments are made one by one; the first that is refused ends the request, those before it stay.\<close>

fun create_assignments_loop ::
  "session_info option \<Rightarrow> string list \<Rightarrow> string \<Rightarrow> int \<Rightarrow> assignment_request list \<Rightarrow> ownership_db \<Rightarrow> nat \<times> ownership_db" where
  "create_assignments_loop sess orgs owner now [] db = (201, db)"
| "create_assignments_loop sess orgs owner now (a # as) db =
     (if \<not> entity_type_ok (aq_entity_type a) then (422, db)
      else if aq_entity_key a = [] then (422, db)
      else if aq_organisation a \<noteq> [] \<and> aq_organisation a \<notin> set orgs then (422, db)
      else case insert_assignment (manual_params owner a) now db of
             Inl e \<Rightarrow> (if e = Own_exists then 409 else 500, db)
           | Inr (r, db') \<Rightarrow>
               create_assignments_loop sess orgs owner now as
                 (audit_ownership sess ''assignment_created'' owner (aq_entity_type a) (aq_entity_key a) (aq_organisation a)
                   (JObj [(''assignment_source'', JStr source_manual), (''confidence'', JStr conf_definitive)]) db'))"

definition handle_create_assignments ::
  "session_info option \<Rightarrow> string list \<Rightarrow> string \<Rightarrow> assignment_request list \<Rightarrow> int \<Rightarrow> ownership_db \<Rightarrow> nat \<times> ownership_db" where
  "handle_create_assignments sess orgs name as now db =
     (if \<not> require_operator_or_admin sess then (403, db)
      else case get_owner_by_name name db of
             None \<Rightarrow> (404, db)
           | Some r \<Rightarrow> if as = [] then (400, db) else create_assignments_loop sess orgs (ow_name r) now as db)"

definition handle_delete_assignment :: "session_info option \<Rightarrow> string \<Rightarrow> string \<Rightarrow> ownership_db \<Rightarrow> nat \<times> ownership_db" where
  "handle_delete_assignment sess name id_text db =
     (if \<not> require_operator_or_admin sess then (403, db)
      else case parse_int64 id_text of
             None \<Rightarrow> (400, db)
           | Some i \<Rightarrow>
               (case get_assignment i db of
                  None \<Rightarrow> (404, db)
                | Some a \<Rightarrow>
                    (case delete_assignment i db of
                       Inl e \<Rightarrow> (if e = Own_missing then 404 else 500, db)
                     | Inr db' \<Rightarrow>
                         (204, audit_ownership sess ''assignment_deleted'' name (as_entity_type a) (as_entity_key a) []
                           (JObj [(''assignment_source'', JStr (as_source a)), (''confidence'', JStr (as_confidence a))])
                           db'))))"

record reassign_request =
  rq_from :: string
  rq_to :: string
  rq_entity_type :: string
  rq_organisation :: string
  rq_delete_source :: bool

definition handle_ownership_reassign ::
  "session_info option \<Rightarrow> string list \<Rightarrow> reassign_request \<Rightarrow> int \<Rightarrow> ownership_db \<Rightarrow> nat \<times> ownership_db" where
  "handle_ownership_reassign sess orgs q now db =
     (if \<not> require_operator_or_admin sess then (403, db)
      else if rq_from q = [] \<or> rq_to q = [] then (400, db)
      else if rq_from q = rq_to q then (400, db)
      else if rq_delete_source q \<and> \<not> require_admin_role sess then (403, db)
      else if get_owner_by_name (rq_from q) db = None then (404, db)
      else if get_owner_by_name (rq_to q) db = None then (404, db)
      else if rq_organisation q \<noteq> [] \<and> rq_organisation q \<notin> set orgs then (404, db)
      else case reassign_ownership (rq_from q) (rq_to q) (rq_entity_type q) (rq_organisation q) now db of
             (db1, moved, skipped) \<Rightarrow>
               let emptied = (rq_delete_source q \<and> moved + skipped > 0
                              \<and> sum_list (map snd (count_assignments_by_owner (rq_from q) db1)) = 0);
                   db2 = (if emptied then (case delete_owner (rq_from q) db1 of Inl e \<Rightarrow> db1 | Inr (n, d) \<Rightarrow> d) else db1)
               in (200, audit_ownership sess ''assignment_reassigned'' (rq_to q) [] [] []
                     (JObj [(''from_owner'', JStr (rq_from q)), (''to_owner'', JStr (rq_to q)),
                            (''reassigned'', JNum (of_nat moved)), (''skipped'', JNum (of_nat skipped)),
                            (''source_owner_deleted'', JBool emptied)]) db2))"

section \<open>Identity\<close>

definition handle_ownership_merge ::
  "session_info option \<Rightarrow> string \<Rightarrow> string \<Rightarrow> int \<Rightarrow> ownership_db \<Rightarrow> nat \<times> ownership_db" where
  "handle_ownership_merge sess source into now db =
     (if \<not> require_admin_role sess then (403, db)
      else if source = [] \<or> into = [] then (400, db)
      else if source = into then (400, db)
      else case merge_owners source into now db of
             Inl e \<Rightarrow> (if e = Own_missing then 404 else 500, db)
           | Inr (r, db') \<Rightarrow>
               (200, audit_ownership sess ''owner_merged'' into [] [] []
                       (JObj [(''from_owner'', JStr source), (''into_owner'', JStr into),
                              (''reassigned'', JNum (of_nat (mr_reassigned r))), (''skipped'', JNum (of_nat (mr_skipped r))),
                              (''aliases_moved'', JNum (of_nat (mr_aliases_moved r))),
                              (''aliases_dropped'', JNum (of_nat (mr_aliases_dropped r))),
                              (''source_name_aliased'', JBool (mr_name_aliased r))]) db'))"

record alias_request =
  lq_owner :: string
  lq_type :: string
  lq_value :: string
  lq_source :: string

definition handle_create_owner_alias :: "session_info option \<Rightarrow> alias_request \<Rightarrow> int \<Rightarrow> ownership_db \<Rightarrow> nat \<times> ownership_db" where
  "handle_create_owner_alias sess q now db =
     (if \<not> require_operator_or_admin sess then (403, db)
      else case insert_owner_alias (lq_owner q) (lq_type q) (lq_value q)
                   (if lq_source q = [] then source_manual else lq_source q) now db of
             Inl e \<Rightarrow> (if e = Own_exists then 409 else if e = Own_invalid then 400 else 500, db)
           | Inr (l, db') \<Rightarrow> (201, db'))"

text \<open>\<open>id\<close> is the identifier as the database reads it from the path.\<close>

definition handle_delete_owner_alias :: "session_info option \<Rightarrow> int option \<Rightarrow> ownership_db \<Rightarrow> nat \<times> ownership_db" where
  "handle_delete_owner_alias sess i db =
     (if \<not> require_operator_or_admin sess then (403, db)
      else case i of
             None \<Rightarrow> (400, db)
           | Some i \<Rightarrow> (case delete_owner_alias i db of Inl e \<Rightarrow> (if e = Own_missing then 404 else 500, db) | Inr db' \<Rightarrow> (204, db')))"

record alias_import =
  ai_imported :: nat
  ai_skipped :: nat
  ai_errors :: "(nat \<times> own_error) list"

fun alias_import_loop :: "int \<Rightarrow> nat \<Rightarrow> alias_request list \<Rightarrow> ownership_db \<Rightarrow> alias_import \<Rightarrow> alias_import \<times> ownership_db" where
  "alias_import_loop now line [] db acc = (acc, db)"
| "alias_import_loop now line (q # qs) db acc =
     (case insert_owner_alias (lq_owner q) (lq_type q) (lq_value q)
             (if lq_source q = [] then source_import else lq_source q) now db of
        Inr (l, db') \<Rightarrow> alias_import_loop now (line + 1) qs db' (acc\<lparr>ai_imported := ai_imported acc + 1\<rparr>)
      | Inl e \<Rightarrow>
          alias_import_loop now (line + 1) qs db
            (if e = Own_exists then acc\<lparr>ai_skipped := ai_skipped acc + 1\<rparr>
             else acc\<lparr>ai_errors := ai_errors acc @ [(line, e)]\<rparr>))"

text \<open>The rows of the file come parsed; the first data line of a CSV file is line 2.\<close>

definition handle_ownership_aliases_import ::
  "session_info option \<Rightarrow> bool \<Rightarrow> alias_request list \<Rightarrow> int \<Rightarrow> ownership_db \<Rightarrow> nat \<times> alias_import option \<times> ownership_db" where
  "handle_ownership_aliases_import sess csv rows now db =
     (if \<not> require_operator_or_admin sess then (403, None, db)
      else if rows = [] then (400, None, db)
      else if length rows > 10000 then (400, None, db)
      else case alias_import_loop now (if csv then 2 else 1) rows db \<lparr>ai_imported = 0, ai_skipped = 0, ai_errors = []\<rparr> of
             (res, db') \<Rightarrow> (200, Some res, db'))"

section \<open>Clearing what imports brought in\<close>

text \<open>\<open>handleOwnershipIntake\<close> admits administrators only; the counts are those of the preview or of the removal.\<close>

definition handle_clear_imported_ownership ::
  "session_info option \<Rightarrow> bool \<Rightarrow> ownership_db \<Rightarrow> nat \<times> (nat \<times> nat) option \<times> ownership_db" where
  "handle_clear_imported_ownership sess post db =
     (if \<not> require_admin_role sess then (403, None, db)
      else if \<not> post then (200, Some (count_imported_ownership db), db)
      else case clear_imported_ownership db of
             (db', n, k) \<Rightarrow>
               (200, Some (n, k),
                audit_ownership sess ''imported_ownership_cleared'' [] [] [] []
                  (JObj [(''assignments'', JNum (of_nat n)), (''owners'', JNum (of_nat k))]) db'))"

section \<open>Views\<close>

record owner_filter =
  of_owners :: "string list"
  of_unowned :: bool

definition filter_active :: "owner_filter \<Rightarrow> bool" where
  "filter_active f = (of_owners f \<noteq> [] \<or> of_unowned f)"

definition resolve_owned_entity_keys :: "string list \<Rightarrow> string \<Rightarrow> ownership_db \<Rightarrow> string set" where
  "resolve_owned_entity_keys names et db =
     (\<Union>name \<in> set names. as_entity_key ` set (fst (list_assignments_by_owner
        \<lparr>af_owner = name, af_entity_type = et, af_org = [], af_source = [], af_limit = 10000, af_offset = 0\<rparr> db)))"

definition resolve_filter_of_type :: "owner_filter \<Rightarrow> string \<Rightarrow> ownership_db \<Rightarrow> string set option" where
  "resolve_filter_of_type f et db =
     (if \<not> filter_active f then None
      else Some (if of_unowned f then set (list_owned_entity_keys et db)
                 else resolve_owned_entity_keys (of_owners f) et db))"

text \<open>For cookbooks the keys of the repositories are added.\<close>

definition resolve_ownership_filter :: "owner_filter \<Rightarrow> string \<Rightarrow> ownership_db \<Rightarrow> string set option" where
  "resolve_ownership_filter f et db =
     (case resolve_filter_of_type f et db of
        None \<Rightarrow> None
      | Some keys \<Rightarrow>
          Some (if et = entity_cookbook
                then keys \<union> (case resolve_filter_of_type f entity_git_repo db of None \<Rightarrow> {} | Some ks \<Rightarrow> ks)
                else keys))"

definition ownership_include :: "string \<Rightarrow> string set option \<Rightarrow> owner_filter \<Rightarrow> bool" where
  "ownership_include key owned f =
     (case owned of None \<Rightarrow> True | Some keys \<Rightarrow> if of_unowned f then key \<notin> keys else key \<in> keys)"

text \<open>\<open>ownersForEntities\<close> for one key: the owners, and whether they are those of the repository.\<close>

definition owners_for_entity :: "string \<Rightarrow> string \<Rightarrow> ownership_db \<Rightarrow> string list \<times> bool" where
  "owners_for_entity et key db =
     (let direct = map fst (assignment_owners et key db)
      in if et = entity_cookbook \<and> direct = []
         then (let repo = map fst (assignment_owners entity_git_repo key db) in (repo, repo \<noteq> []))
         else (direct, False))"

end
