(* ===== verification/Ownership.thy ===== *)
theory Ownership
  imports Ownership_Handlers
begin

text \<open>
  Ownership as a whole: everything that changes it as one event type, the constraints of the tables
  as its invariant, the relation of owners and entities as the specification the store refines, and
  the properties of rules, imports, merges and views.
\<close>

section \<open>Events\<close>

datatype own_event =
  Ev_create_owner "session_info option" owner_params
| Ev_update_owner "session_info option" string owner_update
| Ev_delete_owner "session_info option" string
| Ev_assign "session_info option" "string list" string "assignment_request list"
| Ev_unassign "session_info option" string string
| Ev_reassign "session_info option" "string list" reassign_request
| Ev_merge "session_info option" string string
| Ev_alias "session_info option" alias_request
| Ev_unalias "session_info option" "int option"
| Ev_aliases "session_info option" bool "alias_request list"
| Ev_clear "session_info option" bool
| Ev_import import_env string intake_request bool
| Ev_saved_import import_env "string \<Rightarrow> string \<Rightarrow> row_source option" import_mapping
| Ev_collected "string \<Rightarrow> (string \<Rightarrow> bool) option" "json \<Rightarrow> string" "auto_rule list" estate string string
| Ev_started "auto_rule list"
| Ev_seed

fun own_step :: "int \<Rightarrow> own_event \<Rightarrow> ownership_db \<Rightarrow> ownership_db" where
  "own_step now (Ev_create_owner sess p) db = snd (handle_create_owner sess p now db)"
| "own_step now (Ev_update_owner sess name u) db = snd (handle_update_owner sess name u now db)"
| "own_step now (Ev_delete_owner sess name) db = snd (handle_delete_owner sess name db)"
| "own_step now (Ev_assign sess orgs name as) db = snd (handle_create_assignments sess orgs name as now db)"
| "own_step now (Ev_unassign sess name i) db = snd (handle_delete_assignment sess name i db)"
| "own_step now (Ev_reassign sess orgs q) db = snd (handle_ownership_reassign sess orgs q now db)"
| "own_step now (Ev_merge sess source into) db = snd (handle_ownership_merge sess source into now db)"
| "own_step now (Ev_alias sess q) db = snd (handle_create_owner_alias sess q now db)"
| "own_step now (Ev_unalias sess i) db = snd (handle_delete_owner_alias sess i db)"
| "own_step now (Ev_aliases sess csv rows) db = snd (snd (handle_ownership_aliases_import sess csv rows now db))"
| "own_step now (Ev_clear sess post) db = snd (snd (handle_clear_imported_ownership sess post db))"
| "own_step now (Ev_import env actor q commit) db = fst (snd (handle_intake_run env actor now q commit db []))"
| "own_step now (Ev_saved_import env opn m) db = fst (snd (run_saved_import env opn now m db []))"
| "own_step now (Ev_collected compile show_other rules est org_id org_name) db =
     fst (evaluate_after_collection compile show_other rules est now org_id org_name db)"
| "own_step now (Ev_started rules) db = cleanup_removed_auto_rules rules db"
| "own_step now Ev_seed db = fst (seed_aliases_from_contact_emails now db)"

fun own_run :: "(int \<times> own_event) list \<Rightarrow> ownership_db \<Rightarrow> ownership_db" where
  "own_run [] db = db"
| "own_run ((now, e) # es) db = own_run es (own_step now e db)"

section \<open>Lemmas on the invariant\<close>

lemma audit_ownership_ok [simp]:
  "ownership_ok (audit_ownership sess action name et key org details db) = ownership_ok db"
  by (simp add: audit_ownership_def)

lemma create_assignments_loop_ok:
  "ownership_ok db \<Longrightarrow> ownership_ok (snd (create_assignments_loop sess orgs owner now as db))"
proof (induction as arbitrary: db)
  case (Cons a as)
  then show ?case
    using insert_assignment_ok [OF _ Cons.prems, of "manual_params owner a" now]
    by (cases "insert_assignment (manual_params owner a) now db") auto
qed simp

lemma delete_owner_ok: "delete_owner name db = Inr (n, db') \<Longrightarrow> ownership_ok db \<Longrightarrow> ownership_ok db'"
  by (auto simp: delete_owner_def delete_owner_row_ok split: if_splits)

lemma alias_import_loop_ok:
  "ownership_ok db \<Longrightarrow> ownership_ok (snd (alias_import_loop now line qs db acc))"
proof (induction qs arbitrary: line db acc)
  case (Cons q qs)
  then show ?case using insert_owner_alias_ok
    by (cases "insert_owner_alias (lq_owner q) (lq_type q) (lq_value q)
             (if lq_source q = [] then source_import else lq_source q) now db") fastforce+
qed simp

lemma handle_ownership_reassign_ok:
  assumes "ownership_ok db"
  shows "ownership_ok (snd (handle_ownership_reassign sess orgs q now db))"
proof -
  obtain db1 m k where r: "reassign_ownership (rq_from q) (rq_to q) (rq_entity_type q) (rq_organisation q) now db = (db1, m, k)"
    by (metis prod_cases3)
  have ok: "ownership_ok db1" if "get_owner_by_name (rq_to q) db \<noteq> None" "rq_from q \<noteq> rq_to q"
  proof -
    have "rq_to q \<in> set (owner_names db)"
      using that(1) by (simp add: get_owner_by_name_def row_of_None owner_names_def)
    then show ?thesis by (rule reassign_ownership_spec(1) [OF r assms _ that(2)])
  qed
  have d: "ownership_ok (case delete_owner (rq_from q) db1 of Inl e \<Rightarrow> db1 | Inr (n, d) \<Rightarrow> d)" if "ownership_ok db1"
    using that delete_owner_ok by (auto split: sum.split)
  show ?thesis
    using assms ok d by (auto simp: handle_ownership_reassign_def r Let_def)
qed

lemma commit_intake_rows_ok: "ownership_ok db \<Longrightarrow> ownership_ok (snd (commit_intake_rows actor now rep db))"
  using commit_intake_rows_added(1) [of db actor now rep] extended_ok
  by (cases "commit_intake_rows actor now rep db") (auto simp: added_for_def)

lemma handle_intake_run_ok:
  "ownership_ok db \<Longrightarrow> ownership_ok (fst (snd (handle_intake_run env actor now q commit db rejs)))"
  using commit_intake_rows_ok
  by (auto simp: handle_intake_run_def Let_def split: option.split prod.split) (metis snd_conv)+

lemma run_saved_import_ok:
  "ownership_ok db \<Longrightarrow> ownership_ok (fst (snd (run_saved_import env opn now m db rejs)))"
  using commit_intake_rows_ok
  by (auto simp: run_saved_import_def run_import_from_source_def Let_def split: option.split prod.split) (metis snd_conv)+

lemma cleanup_one_ok: "ownership_ok db \<Longrightarrow> ownership_ok (cleanup_one configured name db)"
proof -
  assume "ownership_ok db"
  then have "ownership_ok (db\<lparr>od_assignments := delete_where (\<lambda>a. as_rule a = Some name) (od_assignments db)\<rparr>)"
    by (simp add: ownership_ok_def owner_names_def assignments_ok_delete)
  then show ?thesis
    using \<open>ownership_ok db\<close> by (simp add: cleanup_one_def delete_auto_rule_assignments_by_name_def)
qed

lemma cleanup_fold_ok: "ownership_ok db \<Longrightarrow> ownership_ok (fold (cleanup_one configured) names db)"
  by (induction names arbitrary: db) (simp_all add: cleanup_one_ok)

lemma own_step_ok: "ownership_ok db \<Longrightarrow> ownership_ok (own_step now e db)"
proof (cases e)
  case (Ev_create_owner sess p)
  then show "ownership_ok db \<Longrightarrow> ?thesis"
    using insert_owner_ok by (auto simp: handle_create_owner_def split: sum.split)
next
  case (Ev_update_owner sess name u)
  then show "ownership_ok db \<Longrightarrow> ?thesis"
    using update_owner_ok by (auto simp: handle_update_owner_def split: sum.split)
next
  case (Ev_delete_owner sess name)
  then show "ownership_ok db \<Longrightarrow> ?thesis"
    using delete_owner_ok by (auto simp: handle_delete_owner_def split: sum.split)
next
  case (Ev_assign sess orgs name as)
  then show "ownership_ok db \<Longrightarrow> ?thesis"
    by (simp add: handle_create_assignments_def create_assignments_loop_ok split: option.split)
next
  case (Ev_unassign sess name i)
  then show "ownership_ok db \<Longrightarrow> ?thesis"
    using delete_assignment_ok by (auto simp: handle_delete_assignment_def split: sum.split option.split)
next
  case (Ev_merge sess source into)
  then show "ownership_ok db \<Longrightarrow> ?thesis"
    using merge_owners_ok by (auto simp: handle_ownership_merge_def split: sum.split)
next
  case (Ev_alias sess q)
  then show "ownership_ok db \<Longrightarrow> ?thesis"
    using insert_owner_alias_ok by (auto simp: handle_create_owner_alias_def split: sum.split)
next
  case (Ev_unalias sess i)
  then show "ownership_ok db \<Longrightarrow> ?thesis"
    using delete_owner_alias_ok by (auto simp: handle_delete_owner_alias_def split: sum.split option.split)
next
  case (Ev_aliases sess csv rows)
  then show "ownership_ok db \<Longrightarrow> ?thesis"
    using alias_import_loop_ok [of db now "if csv then 2 else 1" rows]
    by (auto simp: handle_ownership_aliases_import_def split: prod.split) (metis snd_conv)+
next
  case (Ev_clear sess post)
  then show "ownership_ok db \<Longrightarrow> ?thesis"
    using clear_imported_ok [of db] by (auto simp: handle_clear_imported_ownership_def split: prod.split)
next
  case (Ev_collected compile show_other rules est org_id org_name)
  then show "ownership_ok db \<Longrightarrow> ?thesis"
    by (simp add: evaluate_after_collection_def evaluate_after_collection_fold evaluation.ok_run)
qed (simp_all add: handle_ownership_reassign_ok handle_intake_run_ok run_saved_import_ok cleanup_removed_auto_rules_def
    cleanup_fold_ok seed_aliases_ok)

text \<open>C13: the constraints of the tables of owners, assignments and aliases (unique names, unique
  assignments of an owner to an entity in an organisation, unique aliases, no assignment or alias
  without its owner, legal names, types, sources and confidences) hold after every sequence of
  requests, imports, collections with their rules, start-ups and clear-downs.\<close>

theorem ownership_constraints_hold:
  assumes "ownership_ok db"
  shows "ownership_ok (own_run events db)"
  using assms by (induction events db rule: own_run.induct) (simp_all add: own_step_ok)

definition empty_ownership :: ownership_db where
  "empty_ownership = \<lparr>od_owners = [], od_assignments = [], od_aliases = [], od_audit = [], od_next_id = 1\<rparr>"

lemma empty_ownership_ok [simp]: "ownership_ok empty_ownership"
  by (simp add: empty_ownership_def ownership_ok_def owners_ok_def assignments_ok_def aliases_ok_def)

definition plain_owner :: "string \<Rightarrow> owner_params" where
  "plain_owner name =
     \<lparr>op_name = name, op_display_name = [], op_contact_email = [], op_contact_channel = [],
      op_type = ''team'', op_metadata = None\<rparr>"

definition plain_request :: "string \<Rightarrow> string \<Rightarrow> assignment_request" where
  "plain_request et key = \<lparr>aq_entity_type = et, aq_entity_key = key, aq_organisation = [], aq_notes = []\<rparr>"

theorem ownership_constraints_hold_witness:
  "ownership_ok (own_run [(1, Ev_create_owner None (plain_owner ''web'')),
     (2, Ev_assign None [] ''web'' [plain_request entity_node ''n1'', plain_request entity_node ''n1'']),
     (3, Ev_delete_owner None ''web'')] empty_ownership)"
  by (rule ownership_constraints_hold) simp

section \<open>The relation the store keeps\<close>

text \<open>
  What ownership is about: the owners there are, which of them owns which entity, and whom an alias
  names. Identifiers, times, notes and the order of rows are not part of it.
\<close>

record ownership_view =
  vw_names :: "string set"
  vw_owns :: "(string \<times> entity) set"
  vw_alias :: "string \<times> string \<rightharpoonup> string"

definition view :: "ownership_db \<Rightarrow> ownership_view" where
  "view db = \<lparr>vw_names = set (owner_names db), vw_owns = keys_of db,
              vw_alias = (\<lambda>(ty, v). resolve_owner_by_alias ty v db)\<rparr>"

datatype own_op =
  Op_create string string
| Op_delete string
| Op_assign string string string string
| Op_reassign string string string string
| Op_merge string string
| Op_alias string string string

text \<open>The operations as the store has them; a refusal leaves the tables alone.\<close>

fun op_code :: "int \<Rightarrow> own_op \<Rightarrow> ownership_db \<Rightarrow> ownership_db option" where
  "op_code now (Op_create name ty) db =
     (case insert_owner ((plain_owner name)\<lparr>op_type := ty\<rparr>) now db of Inl e \<Rightarrow> None | Inr (r, d) \<Rightarrow> Some d)"
| "op_code now (Op_delete name) db = (case delete_owner name db of Inl e \<Rightarrow> None | Inr (n, d) \<Rightarrow> Some d)"
| "op_code now (Op_assign name et key org) db =
     (case insert_assignment (manual_params name \<lparr>aq_entity_type = et, aq_entity_key = key, aq_organisation = org, aq_notes = []\<rparr>)
             now db of Inl e \<Rightarrow> None | Inr (a, d) \<Rightarrow> Some d)"
| "op_code now (Op_reassign source into et org) db =
     (if source = into \<or> source \<notin> set (owner_names db) \<or> into \<notin> set (owner_names db) then None
      else Some (fst (reassign_ownership source into et org now db)))"
| "op_code now (Op_merge source into) db = (case merge_owners source into now db of Inl e \<Rightarrow> None | Inr (r, d) \<Rightarrow> Some d)"
| "op_code now (Op_alias name ty v) db =
     (case insert_owner_alias name ty v [] now db of Inl e \<Rightarrow> None | Inr (l, d) \<Rightarrow> Some d)"

text \<open>The same on the relation.\<close>

definition in_scope :: "string \<Rightarrow> string \<Rightarrow> entity \<Rightarrow> bool" where
  "in_scope et org e = ((et = [] \<or> fst e = et) \<and> (org = [] \<or> snd (snd e) = org))"

definition relabel :: "string \<Rightarrow> string \<Rightarrow> (entity \<Rightarrow> bool) \<Rightarrow> (string \<times> entity) set \<Rightarrow> (string \<times> entity) set" where
  "relabel source into P R = (\<lambda>(n, e). if n = source \<and> P e then (into, e) else (n, e)) ` R"

fun op_spec :: "own_op \<Rightarrow> ownership_view \<Rightarrow> ownership_view option" where
  "op_spec (Op_create name ty) V =
     (if owner_name_ok name \<and> owner_type_ok ty \<and> name \<notin> vw_names V
      then Some (V\<lparr>vw_names := insert name (vw_names V)\<rparr>) else None)"
| "op_spec (Op_delete name) V =
     (if name \<in> vw_names V
      then Some \<lparr>vw_names = vw_names V - {name}, vw_owns = {(n, e) \<in> vw_owns V. n \<noteq> name},
                 vw_alias = (\<lambda>k. if vw_alias V k = Some name then None else vw_alias V k)\<rparr> else None)"
| "op_spec (Op_assign name et key org) V =
     (if entity_type_ok et \<and> name \<in> vw_names V \<and> (name, et, key, org_key (null_string org)) \<notin> vw_owns V
      then Some (V\<lparr>vw_owns := insert (name, et, key, org_key (null_string org)) (vw_owns V)\<rparr>) else None)"
| "op_spec (Op_reassign source into et org) V =
     (if source \<noteq> into \<and> source \<in> vw_names V \<and> into \<in> vw_names V
      then Some (V\<lparr>vw_owns := relabel source into (in_scope et org) (vw_owns V)\<rparr>) else None)"
| "op_spec (Op_merge source into) V =
     (if source \<noteq> into \<and> source \<in> vw_names V \<and> into \<in> vw_names V
      then Some \<lparr>vw_names = vw_names V - {source}, vw_owns = relabel source into (\<lambda>e. True) (vw_owns V),
                 vw_alias = (\<lambda>k. case vw_alias V k of
                     Some n \<Rightarrow> Some (if n = source then into else n)
                   | None \<Rightarrow> if k = (alias_custom, source) then Some into else None)\<rparr> else None)"
| "op_spec (Op_alias name ty v) V =
     (if v \<noteq> [] \<and> alias_type_ok ty \<and> name \<in> vw_names V \<and> vw_alias V (ty, v) = None
      then Some (V\<lparr>vw_alias := (vw_alias V)((ty, v) \<mapsto> name)\<rparr>) else None)"

text \<open>No organisation has the name the index gives to the absence of one.\<close>

fun op_sane :: "own_op \<Rightarrow> bool" where
  "op_sane (Op_reassign source into et org) = (org \<noteq> ''__none__'')"
| "op_sane op = True"

lemma view_simps [simp]: "vw_names (view db) = set (owner_names db)" "vw_owns (view db) = keys_of db"
  "vw_alias (view db) (ty, v) = resolve_owner_by_alias ty v db"
  by (simp_all add: view_def)

lemma owner_not_empty: "ownership_ok db \<Longrightarrow> name \<in> set (owner_names db) \<Longrightarrow> name \<noteq> []"
  by (auto simp: ownership_ok_def owners_ok_def owner_names_def list_all_iff owner_name_ok_def)

lemma resolve_None: "resolve_owner_by_alias ty v db = None \<longleftrightarrow> (ty, v) \<notin> alias_key ` set (od_aliases db)"
  by (simp add: resolve_owner_by_alias_def row_of_None)

lemma resolve_Some:
  "ownership_ok db \<Longrightarrow> resolve_owner_by_alias ty v db = Some name \<longleftrightarrow>
     (\<exists>l \<in> set (od_aliases db). alias_key l = (ty, v) \<and> al_owner l = name)"
  by (auto simp: resolve_owner_by_alias_def ownership_ok_def aliases_ok_def row_of_iff)

lemma option_eqI: "(\<And>n. x = Some n \<longleftrightarrow> y = Some n) \<Longrightarrow> x = y"
  by (metis not_Some_eq)

lemma refines_create: "map_option view (op_code now (Op_create name ty) db) = op_spec (Op_create name ty) (view db)"
  by (auto simp: insert_owner_def plain_owner_def owner_names_def view_def keys_of_def resolve_owner_by_alias_def
      owner_name_ok_def owner_type_ok_def Let_def)

lemma refines_assign: "map_option view (op_code now (Op_assign name et key org) db) = op_spec (Op_assign name et key org) (view db)"
  by (auto simp: insert_assignment_cases manual_params_def params_key_def source_ok_def confidence_ok_def view_def
      keys_of_def owner_names_def resolve_owner_by_alias_def)

lemma refines_delete:
  assumes "ownership_ok db"
  shows "map_option view (op_code now (Op_delete name) db) = op_spec (Op_delete name) (view db)"
proof (cases "name \<in> set (owner_names db)")
  case True
  let ?d = "delete_owner_row name db"
  have "keys_of ?d = {(n, e) \<in> keys_of db. n \<noteq> name}"
    by (auto simp: keys_of_def delete_owner_row_def assignment_key_def)
  moreover have "resolve_owner_by_alias ty v ?d =
      (if resolve_owner_by_alias ty v db = Some name then None else resolve_owner_by_alias ty v db)" for ty v
  proof -
    have ok: "ownership_ok ?d" by (rule delete_owner_row_ok [OF assms])
    have "resolve_owner_by_alias ty v ?d = Some n \<longleftrightarrow> resolve_owner_by_alias ty v db = Some n \<and> n \<noteq> name" for n
      unfolding resolve_Some [OF ok] resolve_Some [OF assms] by (auto simp: delete_owner_row_def)
    then show ?thesis by (intro option_eqI) auto
  qed
  ultimately have "view ?d = \<lparr>vw_names = set (owner_names db) - {name}, vw_owns = {(n, e) \<in> keys_of db. n \<noteq> name},
                 vw_alias = (\<lambda>k. if vw_alias (view db) k = Some name then None else vw_alias (view db) k)\<rparr>"
    by (auto simp: view_def)
  then show ?thesis using True by (simp add: delete_owner_def)
qed (simp add: delete_owner_def)

lemma refines_alias:
  assumes "ownership_ok db"
  shows "map_option view (op_code now (Op_alias name ty v) db) = op_spec (Op_alias name ty v) (view db)"
proof (cases "v \<noteq> [] \<and> alias_type_ok ty \<and> name \<in> set (owner_names db) \<and> resolve_owner_by_alias ty v db = None")
  case True
  let ?l = "alias_row (od_next_id db) name ty v source_manual now"
  let ?d = "db\<lparr>od_aliases := od_aliases db @ [?l], od_next_id := od_next_id db + 1\<rparr>"
  have n: "(ty, v) \<notin> alias_key ` set (od_aliases db)" "name \<noteq> []" "ty \<noteq> []"
    using True owner_not_empty [OF assms] by (auto simp: resolve_None alias_type_ok_def)
  then have i: "insert_owner_alias name ty v [] now db = Inr (?l, ?d)"
    using True by (simp add: insert_owner_alias_def Let_def)
  have "resolve_owner_by_alias ty' v' ?d =
      (if (ty', v') = (ty, v) then Some name else resolve_owner_by_alias ty' v' db)" for ty' v'
    using n(1) row_of_None [of alias_key "(ty, v)" "od_aliases db"]
    by (auto simp: resolve_owner_by_alias_def row_of_append alias_row_def alias_key_def split: option.split)
  then have "view ?d = (view db)\<lparr>vw_alias := (vw_alias (view db))((ty, v) \<mapsto> name)\<rparr>"
    by (auto simp: view_def owner_names_def keys_of_def)
  then show ?thesis using True i by simp
next
  case False
  then have "\<exists>e. insert_owner_alias name ty v [] now db = Inl e"
    by (auto simp: insert_owner_alias_def resolve_None Let_def)
  then show ?thesis using False by auto
qed

lemma relabel_iff:
  "(n, e) \<in> relabel source into P R \<longleftrightarrow>
     (n, e) \<in> R \<and> \<not> (n = source \<and> P e) \<or> (n = into \<and> (source, e) \<in> R \<and> P e)"
proof
  show "(n, e) \<in> relabel source into P R \<Longrightarrow> (n, e) \<in> R \<and> \<not> (n = source \<and> P e) \<or> (n = into \<and> (source, e) \<in> R \<and> P e)"
    unfolding relabel_def by (elim imageE) (auto split: if_splits)
  assume "(n, e) \<in> R \<and> \<not> (n = source \<and> P e) \<or> (n = into \<and> (source, e) \<in> R \<and> P e)"
  then consider "(n, e) \<in> R" "\<not> (n = source \<and> P e)" | "n = into" "(source, e) \<in> R" "P e" by blast
  then show "(n, e) \<in> relabel source into P R"
  proof cases
    case 1
    then show ?thesis unfolding relabel_def by (intro image_eqI [of _ _ "(n, e)"]) auto
  next
    case 2
    then show ?thesis unfolding relabel_def by (intro image_eqI [of _ _ "(source, e)"]) auto
  qed
qed

lemma keys_of_iff: "(n, e) \<in> keys_of db \<longleftrightarrow> (\<exists>a \<in> set (od_assignments db). as_owner a = n \<and> entity_of a = e)"
  by (auto simp: keys_of_def assignment_key_def)

lemma holds_keys: "holds (od_assignments db) n e \<longleftrightarrow> (n, e) \<in> keys_of db"
  by (simp add: holds_iff keys_of_def)

lemma to_move_scope:
  "org \<noteq> ''__none__'' \<Longrightarrow> to_move source et org a \<longleftrightarrow> as_owner a = source \<and> in_scope et org (entity_of a)"
  by (auto simp: to_move_def in_scope_def entity_of_def org_key_def split: option.splits)

lemma keys_reassigned:
  assumes r: "reassign_ownership source into et org now db = (db', m, k)" and ok: "ownership_ok db"
    and n: "into \<in> set (owner_names db)" "source \<noteq> into" and org: "org \<noteq> ''__none__''"
  shows "keys_of db' = relabel source into (in_scope et org) (keys_of db)"
proof (intro set_eqI)
  note s = reassign_ownership_spec [OF r ok n]
  fix x :: "string \<times> entity"
  obtain nm e where x: "x = (nm, e)" by (rule prod.exhaust)
  have i: "(into, e) \<in> keys_of db' \<longleftrightarrow> (into, e) \<in> keys_of db \<or> (source, e) \<in> keys_of db \<and> in_scope et org e"
    using s(3) [of e] unfolding holds_keys keys_of_iff to_move_scope [OF org] by auto
  have src: "(source, e) \<in> keys_of db' \<longleftrightarrow> (source, e) \<in> keys_of db \<and> \<not> in_scope et org e"
  proof -
    have "(source, e) \<in> keys_of db' \<longleftrightarrow> (\<exists>b \<in> {b \<in> set (od_assignments db'). as_owner b = source}. entity_of b = e)"
      unfolding keys_of_iff by (simp add: conj_assoc Bex_def)
    also have "\<dots> \<longleftrightarrow> (source, e) \<in> keys_of db \<and> \<not> in_scope et org e"
      unfolding s(4) keys_of_iff to_move_scope [OF org] by blast
    finally show ?thesis .
  qed
  have oth: "(nm, e) \<in> keys_of db' \<longleftrightarrow> (nm, e) \<in> keys_of db" if "nm \<noteq> source" "nm \<noteq> into"
  proof -
    have "(nm, e) \<in> keys_of d \<longleftrightarrow> (\<exists>b \<in> set (filter (\<lambda>b. as_owner b = nm) (od_assignments d)). entity_of b = e)" for d
      unfolding keys_of_iff by (simp add: conj_assoc Bex_def)
    from this [of db'] this [of db] show ?thesis by (simp only: s(5) [OF that])
  qed
  show "x \<in> keys_of db' \<longleftrightarrow> x \<in> relabel source into (in_scope et org) (keys_of db)"
    unfolding x relabel_iff using i src oth n(2) by auto
qed

lemma refines_reassign:
  assumes "ownership_ok db" "org \<noteq> ''__none__''"
  shows "map_option view (op_code now (Op_reassign source into et org) db) = op_spec (Op_reassign source into et org) (view db)"
proof (cases "source \<noteq> into \<and> source \<in> set (owner_names db) \<and> into \<in> set (owner_names db)")
  case True
  obtain db' m k where r: "reassign_ownership source into et org now db = (db', m, k)" by (metis prod_cases3)
  have "into \<in> set (owner_names db)" "source \<noteq> into" using True by simp_all
  note s = reassign_ownership_spec [OF r assms(1) this] and keys = keys_reassigned [OF r assms(1) this assms(2)]
  have "view db' = (view db)\<lparr>vw_owns := relabel source into (in_scope et org) (keys_of db)\<rparr>"
    by (auto simp: view_def keys s(8) resolve_owner_by_alias_def s(7))
  then show ?thesis using True by (simp add: r)
qed auto

lemma in_scope_all: "in_scope [] [] = (\<lambda>e. True)"
  by (simp add: in_scope_def fun_eq_iff)

lemma merged_keys:
  assumes "merge_owners source into now db = Inr (r, db')" "ownership_ok db"
  shows "keys_of db' = relabel source into (\<lambda>e. True) (keys_of db)"
proof -
  obtain db1 db4 where m: "into \<in> set (owner_names db)" "source \<noteq> into"
    "reassign_ownership source into [] [] now db = (db1, mr_reassigned r, mr_skipped r)"
    "add_alias into alias_custom source ''merge'' now
           (db1\<lparr>od_aliases := map (folded source into) (od_aliases db)\<rparr>) = (db4, mr_name_aliased r)"
    "db' = delete_owner_row source db4"
    using merge_owners_Inr [OF assms] by metis
  have k1: "keys_of db1 = relabel source into (\<lambda>e. True) (keys_of db)"
    using keys_reassigned [OF m(3) assms(2) m(1,2)] by (simp add: in_scope_all)
  have "od_assignments db4 = od_assignments db1" using m(4) by (auto simp: add_alias_def split: if_splits)
  then have "keys_of db' = {(n, e) \<in> keys_of db1. n \<noteq> source}"
    unfolding m(5) by (auto simp: keys_of_def delete_owner_row_def assignment_key_def)
  then show ?thesis using m(2) by (auto simp: k1 relabel_iff)
qed

lemma refines_merge:
  assumes "ownership_ok db"
  shows "map_option view (op_code now (Op_merge source into) db) = op_spec (Op_merge source into) (view db)"
proof (cases "merge_owners source into now db")
  case (Inl e)
  have "\<not> (source \<noteq> into \<and> source \<in> set (owner_names db) \<and> into \<in> set (owner_names db))"
  proof
    assume n: "source \<noteq> into \<and> source \<in> set (owner_names db) \<and> into \<in> set (owner_names db)"
    then have "source \<noteq> []" "into \<noteq> []" using owner_not_empty [OF assms] by blast+
    then show False using Inl n by (auto simp: merge_owners_def Let_def split: if_splits prod.splits)
  qed
  then show ?thesis using Inl by auto
next
  case (Inr x)
  obtain r db' where x: "x = (r, db')" by fastforce
  note m = Inr [unfolded x]
  have n: "source \<noteq> into" "source \<in> set (owner_names db)" "into \<in> set (owner_names db)"
    using merge_owners_Inr [OF m assms] by metis+
  have "view db' = \<lparr>vw_names = set (owner_names db) - {source}, vw_owns = relabel source into (\<lambda>e. True) (keys_of db),
      vw_alias = (\<lambda>k. case vw_alias (view db) k of
                     Some n \<Rightarrow> Some (if n = source then into else n)
                   | None \<Rightarrow> if k = (alias_custom, source) then Some into else None)\<rparr>"
    by (auto simp: view_def merge_owners_resolution [OF m assms] merge_owners_assignments(4) [OF m assms]
        merged_keys [OF m assms])
  then show ?thesis using n by (simp add: m)
qed

lemma op_code_ok: "op_code now op db = Some db' \<Longrightarrow> ownership_ok db \<Longrightarrow> ownership_ok db'"
proof (cases op)
  case (Op_reassign source into et org)
  assume o': "op_code now op db = Some db'" "ownership_ok db"
  obtain d m k where r: "reassign_ownership source into et org now db = (d, m, k)" by (metis prod_cases3)
  show ?thesis
    using o' Op_reassign reassign_ownership_spec(1) [OF r] by (auto simp: r split: if_splits)
qed (auto split: sum.splits dest: insert_owner_ok delete_owner_ok insert_assignment_ok merge_owners_ok insert_owner_alias_ok)

text \<open>A sequence of operations, refused ones skipped.\<close>

fun ops_code :: "(int \<times> own_op) list \<Rightarrow> ownership_db \<Rightarrow> ownership_db" where
  "ops_code [] db = db"
| "ops_code ((now, op) # ops) db = ops_code ops (case op_code now op db of None \<Rightarrow> db | Some d \<Rightarrow> d)"

fun ops_spec :: "own_op list \<Rightarrow> ownership_view \<Rightarrow> ownership_view" where
  "ops_spec [] V = V"
| "ops_spec (op # ops) V = ops_spec ops (case op_spec op V of None \<Rightarrow> V | Some W \<Rightarrow> W)"

lemma op_refines:
  "ownership_ok db \<Longrightarrow> op_sane op \<Longrightarrow> map_option view (op_code now op db) = op_spec op (view db)"
proof (cases op)
  case (Op_reassign source into et org)
  then show "ownership_ok db \<Longrightarrow> op_sane op \<Longrightarrow> ?thesis" using refines_reassign by (simp only: op_sane.simps)
qed (simp_all only: refines_create refines_assign refines_delete refines_alias refines_merge)

text \<open>C12: the store of owners, assignments and aliases refines the relation between owners and
  entities: through any sequence of creations, deletions, assignments, reassignments (of a type or an
  organisation, or of everything), merges and aliases, refused exactly when the relation refuses them,
  the tables stay an image of the relation, on which a reassignment renames the owner of the pairs in
  scope and a merge renames the owner everywhere, in aliases too.\<close>

theorem store_refines_relation:
  assumes "ownership_ok db" "list_all (\<lambda>(now, op). op_sane op) ops"
  shows "view (ops_code ops db) = ops_spec (map snd ops) (view db)"
  using assms
proof (induction ops arbitrary: db)
  case (Cons x ops)
  obtain now op where x: "x = (now, op)" by fastforce
  have r: "map_option view (op_code now op db) = op_spec op (view db)"
    using Cons.prems x by (intro op_refines) simp_all
  show ?case
  proof (cases "op_code now op db")
    case None
    then show ?thesis using Cons x r by simp
  next
    case (Some d)
    then have s: "op_spec op (view db) = Some (view d)" using r by simp
    show ?thesis using Cons.IH [OF op_code_ok [OF Some Cons.prems(1)]] Cons.prems(2) x Some s by simp
  qed
qed simp

theorem store_refines_relation_witness:
  "view (ops_code [(1, Op_create ''web'' ''team''), (2, Op_create ''db'' ''team''),
       (3, Op_assign ''web'' ''node'' ''n1'' []), (4, Op_assign ''db'' ''node'' ''n1'' []),
       (5, Op_merge ''web'' ''db'')] empty_ownership) =
     ops_spec [Op_create ''web'' ''team'', Op_create ''db'' ''team'', Op_assign ''web'' ''node'' ''n1'' [],
       Op_assign ''db'' ''node'' ''n1'' [], Op_merge ''web'' ''db''] (view empty_ownership)"
  using store_refines_relation [of empty_ownership "[(1, Op_create ''web'' ''team''), (2, Op_create ''db'' ''team''),
       (3, Op_assign ''web'' ''node'' ''n1'' []), (4, Op_assign ''db'' ''node'' ''n1'' []),
       (5, Op_merge ''web'' ''db'')]"]
  by (simp only: list.map snd_conv list.pred_inject prod.case op_sane.simps simp_thms empty_ownership_ok)

section \<open>Rules\<close>

text \<open>C14: the rules settle. With a configuration that passes validation, the third run over the same
  collected data changes nothing any more, at whatever times the runs take place: the first removes
  what each rule no longer matches, the second adds what that had hidden.\<close>

theorem rules_settle:
  assumes "validate_ownership rules = []" "ownership_ok db"
  shows "fst (evaluate_after_collection compile show_other rules est t3 org_id org_name
           (fst (evaluate_after_collection compile show_other rules est t2 org_id org_name
             (fst (evaluate_after_collection compile show_other rules est t1 org_id org_name db)))))
       = fst (evaluate_after_collection compile show_other rules est t2 org_id org_name
             (fst (evaluate_after_collection compile show_other rules est t1 org_id org_name db)))"
proof -
  have d: "distinct (map ar_name rules)"
    using rule_faults_distinct [of 0 "[]" rules] assms(1) by (simp add: validate_ownership_def)
  let ?step = "\<lambda>t. rule_step compile show_other est t org_id org_name"
  have "evaluation.all_clean compile show_other est org_id org_name rules (fold (?step t1) rules db)"
    using evaluation.clean_run [OF assms(2) d] evaluation.ok_run [OF assms(2)] by (auto simp: evaluation.all_clean_def)
  then have f: "evaluation.all_clean compile show_other est org_id org_name rules (fold (?step t2) rules (fold (?step t1) rules db))"
    and g: "\<forall>q \<in> set rules. rule_full compile show_other est org_id org_name q (fold (?step t2) rules (fold (?step t1) rules db))"
    using evaluation.full_run [where now = t2 and as = rules and rs = rules and s = "fold (?step t1) rules db"] d by auto
  have "fold (?step t3) rules (fold (?step t2) rules (fold (?step t1) rules db))
      = fold (?step t2) rules (fold (?step t1) rules db)"
    by (intro evaluation.idle_run) (use f g in \<open>auto simp: evaluation.all_clean_def\<close>)
  then show ?thesis by (simp add: evaluate_after_collection_def evaluate_after_collection_fold)
qed


text \<open>A matcher for patterns without special characters, and small data to run the rules on.\<close>

definition literal_compile :: "string \<Rightarrow> (string \<Rightarrow> bool) option" where
  "literal_compile p = Some (\<lambda>s. index_of p s \<noteq> None)"

definition no_other :: "json \<Rightarrow> string" where "no_other j = []"

definition pattern_rule :: "string \<Rightarrow> string \<Rightarrow> string \<Rightarrow> string \<Rightarrow> auto_rule" where
  "pattern_rule name owner ty pattern =
     \<lparr>ar_name = name, ar_owner = owner, ar_type = ty, ar_attribute_path = [], ar_match_value = [],
      ar_pattern = pattern, ar_policy_name = [], ar_organisation = [], ar_object_type = [], ar_owner_attribute = []\<rparr>"

definition plain_node :: "string \<Rightarrow> raw_json \<Rightarrow> node_row" where
  "plain_node name attrs = \<lparr>nd_name = name, nd_org = ''acme'', nd_policy = [], nd_attrs = attrs, nd_collected = 1\<rparr>"

definition sample_estate :: "node_row list \<Rightarrow> repo_row list \<Rightarrow> estate" where
  "sample_estate nodes repos = \<lparr>es_nodes = nodes, es_server_cookbooks = [], es_repos = repos, es_roles = []\<rparr>"

definition two_owners :: ownership_db where
  "two_owners = snd (handle_create_owner None (plain_owner ''bob'') 1
                 (snd (handle_create_owner None (plain_owner ''alice'') 1 empty_ownership)))"

definition collected_once :: "auto_rule list \<Rightarrow> estate \<Rightarrow> int \<Rightarrow> ownership_db \<Rightarrow> ownership_db" where
  "collected_once rules est now db =
     fst (evaluate_after_collection literal_compile no_other rules est now ''acme'' ''acme'' db)"

definition owners_found :: "estate \<Rightarrow> string \<Rightarrow> string \<Rightarrow> string \<Rightarrow> ownership_db \<Rightarrow> string list" where
  "owners_found est et key org db = map lr_owner (lookup_ownership est et key org db)"

text \<open>A node a rule matches can lose its owner in the very run that matches it. When the pattern of a
  later rule with the same owner no longer covers the node, the earlier rule finds the later one's
  assignment in its way, and the later one then removes it as stale; the node is owned again only after
  the next collection.\<close>

theorem moved_match_is_dropped_for_a_run:
  "let est = sample_estate [plain_node ''web1'' RAbsent] [];
       broad = pattern_rule ''broad'' ''alice'' rule_node_name_pattern ''web'';
       narrow = pattern_rule ''broad'' ''alice'' rule_node_name_pattern ''web2'';
       other = pattern_rule ''any'' ''alice'' rule_node_name_pattern ''1'';
       before = collected_once [broad] est 2 two_owners;
       first = collected_once [other, narrow] est 3 before;
       second = collected_once [other, narrow] est 4 first
   in validate_ownership [other, narrow] = [] \<and> owners_found est entity_node ''web1'' ''acme'' before = [''alice'']
      \<and> owners_found est entity_node ''web1'' ''acme'' first = []
      \<and> owners_found est entity_node ''web1'' ''acme'' second = [''alice'']"
  by code_simp


theorem rules_settle_witness:
  "fst (evaluate_after_collection literal_compile no_other [pattern_rule ''r'' ''alice'' rule_node_name_pattern ''web'']
        (sample_estate [plain_node ''web1'' RAbsent] []) 4 ''acme'' ''acme''
      (fst (evaluate_after_collection literal_compile no_other [pattern_rule ''r'' ''alice'' rule_node_name_pattern ''web'']
        (sample_estate [plain_node ''web1'' RAbsent] []) 3 ''acme'' ''acme''
      (fst (evaluate_after_collection literal_compile no_other [pattern_rule ''r'' ''alice'' rule_node_name_pattern ''web'']
        (sample_estate [plain_node ''web1'' RAbsent] []) 2 ''acme'' ''acme'' empty_ownership)))))
   = fst (evaluate_after_collection literal_compile no_other [pattern_rule ''r'' ''alice'' rule_node_name_pattern ''web'']
        (sample_estate [plain_node ''web1'' RAbsent] []) 3 ''acme'' ''acme''
      (fst (evaluate_after_collection literal_compile no_other [pattern_rule ''r'' ''alice'' rule_node_name_pattern ''web'']
        (sample_estate [plain_node ''web1'' RAbsent] []) 2 ''acme'' ''acme'' empty_ownership)))"
proof (rule rules_settle)
  show "validate_ownership [pattern_rule ''r'' ''alice'' rule_node_name_pattern ''web''] = []" by code_simp
qed simp

definition cmdb_rule :: auto_rule where
  "cmdb_rule = (pattern_rule ''cmdb'' [] rule_cmdb_attribute [])\<lparr>ar_object_type := ''node''\<rparr>"

definition cmdb_node :: "string \<Rightarrow> string \<Rightarrow> node_row" where
  "cmdb_node name owner = plain_node name (RDoc (JObj [(''itil.cmdb.node'', JObj [(''owner'', JStr owner)])]))"

text \<open>When the owner a node names in the CMDB changes, the assignment of the old owner stays, however
  often the rules run: what is stale is decided by the entity alone, and the entity still matches.\<close>

theorem cmdb_change_keeps_old_owner:
  "let before = collected_once [cmdb_rule] (sample_estate [cmdb_node ''web1'' ''alice''] []) 2 two_owners;
       est = sample_estate [cmdb_node ''web1'' ''bob''] [];
       after = collected_once [cmdb_rule] est 4 (collected_once [cmdb_rule] est 3 before)
   in validate_ownership [cmdb_rule] = [] \<and> owners_found est entity_node ''web1'' ''acme'' before = [''alice'']
      \<and> owners_found est entity_node ''web1'' ''acme'' after = [''alice'', ''bob'']"
  by code_simp

text \<open>A rule on the URL of a repository assigns its owner to the URL, while every view and lookup asks
  for the repository by name: the repository, and the cookbook built from it, stay without an owner.\<close>

theorem url_rule_is_never_found:
  "let est = sample_estate [] [\<lparr>rp_name = ''web'', rp_url = ''https://git/web'', rp_fetched = Some 1\<rparr>];
       r = pattern_rule ''git'' ''alice'' rule_git_repo_url_pattern ''git/web'';
       after = collected_once [r] est 2 two_owners
   in validate_ownership [r] = [] \<and> count_assignments_by_owner ''alice'' after = [(entity_git_repo, 1)]
      \<and> owners_found est entity_git_repo ''web'' ''acme'' after = []
      \<and> owners_found est entity_cookbook ''web'' ''acme'' after = []
      \<and> owners_for_entity entity_git_repo ''web'' after = ([], False)"
  by code_simp

section \<open>Lookups and views\<close>

lemma org_condition_None: "org_condition org None = Some True \<longleftrightarrow> org = None"
  by (auto simp: org_condition_def sql_or_def sql_eq_def split: option.splits)

lemma owners_of_unscoped:
  "owners_of et key [] res inh db =
     owners_of et key [] res inh (db\<lparr>od_assignments := filter (\<lambda>a. as_org a = None) (od_assignments db)\<rparr>)"
proof -
  have "filter (\<lambda>a. as_entity_type a = et \<and> as_entity_key a = key \<and> as_org a = None) (od_assignments db)
      = filter (\<lambda>a. as_entity_type a = et \<and> as_entity_key a = key \<and> as_org a = None)
          (filter (\<lambda>a. as_org a = None) (od_assignments db))"
    unfolding filter_filter by (rule filter_cong) auto
  then show ?thesis
    by (simp add: owners_of_def null_string_def org_condition_None get_owner_by_name_def)
qed

text \<open>A lookup that names no organisation sees the assignments without an organisation only. The
  parameter is sent as NULL, against which the query's test for the empty string is unknown, so an
  assignment made in an organisation, such as every one a rule makes, is not found without naming it.\<close>

theorem lookup_without_organisation:
  "lookup_ownership est et key [] db =
     lookup_ownership est et key [] (db\<lparr>od_assignments := filter (\<lambda>a. as_org a = None) (od_assignments db)\<rparr>)"
proof -
  let ?d = "db\<lparr>od_assignments := filter (\<lambda>a. as_org a = None) (od_assignments db)\<rparr>"
  have e: "owners_of et key [] res inh ?d = owners_of et key [] res inh db" for et key res inh
    by (rule owners_of_unscoped [symmetric])
  show ?thesis unfolding lookup_ownership_def lookup_git_repo_inherited_def lookup_policy_inherited_def e by (rule refl)
qed

text \<open>The filter of a list and the view of an entity disagree on a cookbook with an owner of its own: the
  filter adds the owners of its repository, the view shows them only when nobody owns the cookbook. A
  cookbook of bob whose repository is alice's is in the list of alice's cookbooks, where the view of it
  names bob alone.\<close>

theorem filter_and_view_disagree:
  "let db = snd (handle_create_assignments None [] ''alice'' [plain_request entity_git_repo ''web''] 2
             (snd (handle_create_assignments None [] ''bob'' [plain_request entity_cookbook ''web''] 2 two_owners)));
       f = \<lparr>of_owners = [''alice''], of_unowned = False\<rparr>
   in ownership_include ''web'' (resolve_ownership_filter f entity_cookbook db) f
      \<and> owners_for_entity entity_cookbook ''web'' db = ([''bob''], False)"
  by code_simp

section \<open>Clearing\<close>

lemma delete_gone_rows:
  "delete_where (\<lambda>r. f r \<in> f ` {r \<in> set tbl. P (f r)}) tbl = filter (\<lambda>r. \<not> P (f r)) tbl"
  unfolding delete_where_def by (rule filter_cong) auto

text \<open>Clearing what imports brought in removes exactly what the preview counts: every assignment of
  an import and no other, and the owners an import created that nobody else has given anything; after it
  the preview counts nothing.\<close>

theorem clear_removes_what_it_counts:
  "case clear_imported_ownership db of
     (db', n, k) \<Rightarrow>
       (n, k) = count_imported_ownership db
       \<and> od_assignments db' = filter (\<lambda>a. as_source a \<noteq> source_import) (od_assignments db)
       \<and> n = length (od_assignments db) - length (od_assignments db')
       \<and> k = length (od_owners db) - length (od_owners db')
       \<and> count_imported_ownership db' = (0, 0)"
proof -
  let ?kept = "filter (\<lambda>a. as_source a \<noteq> source_import) (od_assignments db)"
  define P where "P = (\<lambda>name. created_by_import (od_audit db) name \<and> \<not> list_ex (\<lambda>a. as_owner a = name) ?kept)"
  have kept: "delete_where (\<lambda>a. as_source a = source_import) (od_assignments db) = ?kept"
    by (simp add: delete_where_def)
  have P': "P name \<longleftrightarrow> created_by_import (od_audit db) name
      \<and> \<not> list_ex (\<lambda>a. as_owner a = name \<and> as_source a \<noteq> source_import) (od_assignments db)" for name
    by (auto simp: P_def list_ex_iff)
  obtain db' n k where c: "clear_imported_ownership db = (db', n, k)" by (metis prod_cases3)
  have n: "n = length (filter (\<lambda>a. as_source a = source_import) (od_assignments db))"
    and k: "k = length (filter (\<lambda>r. P (ow_name r)) (od_owners db))"
    and d: "db' = fold delete_owner_row (map ow_name (filter (\<lambda>r. P (ow_name r)) (od_owners db))) (db\<lparr>od_assignments := ?kept\<rparr>)"
    using c by (simp_all add: clear_imported_ownership_def kept P_def Let_def)
  have as': "od_assignments db' = ?kept"
  proof -
    have "as_owner a \<notin> set (map ow_name (filter (\<lambda>r. P (ow_name r)) (od_owners db)))" if "a \<in> set ?kept" for a
      using that by (auto simp: P_def list_ex_iff)
    then show ?thesis unfolding d fold_delete_owner_row delete_where_def by (simp add: filter_id_conv del: filter_filter set_map)
  qed
  have ow': "od_owners db' = filter (\<lambda>r. \<not> P (ow_name r)) (od_owners db)"
    unfolding d fold_delete_owner_row using delete_gone_rows [of ow_name "od_owners db" P] by simp
  have au': "od_audit db' = od_audit db" unfolding d fold_delete_owner_row by simp
  have "n = length (od_assignments db) - length (od_assignments db')"
    using sum_length_filter_compl [of "\<lambda>a. as_source a = source_import" "od_assignments db"] by (simp add: n as')
  moreover have "k = length (od_owners db) - length (od_owners db')"
    using sum_length_filter_compl [of "\<lambda>r. P (ow_name r)" "od_owners db"] by (simp add: k ow')
  moreover have "(n, k) = count_imported_ownership db"
    by (simp add: n k count_imported_ownership_def P' [abs_def])
  moreover have "count_imported_ownership db' = (0, 0)"
    by (auto simp: count_imported_ownership_def as' ow' au' P_def list_ex_iff filter_empty_conv)
  ultimately show ?thesis unfolding c prod.case using as' by blast
qed


section \<open>Imports\<close>

definition sample_env :: import_env where
  "sample_env = \<lparr>ie_is_ip = (\<lambda>s. False), ie_captures = (\<lambda>p. None),
     ie_similar = \<lparr>sm_localpart = (\<lambda>s. []), sm_alias = (\<lambda>s. [])\<rparr>, ie_collected = (\<lambda>et key. False)\<rparr>"

definition column_source :: "string \<Rightarrow> field_source" where
  "column_source c = \<lparr>fs_kind = ''column'', fs_column = c, fs_value = [], fs_columns = [], fs_separator = []\<rparr>"

definition constant_source :: "string \<Rightarrow> field_source" where
  "constant_source v = \<lparr>fs_kind = ''constant'', fs_column = [], fs_value = v, fs_columns = [], fs_separator = []\<rparr>"

definition sample_map :: "transform list \<Rightarrow> field_map" where
  "sample_map type_transforms =
     [(field_owner, \<lparr>fm_source = column_source ''who'', fm_transforms = []\<rparr>),
      (field_entity_type, \<lparr>fm_source = constant_source ''node'', fm_transforms = type_transforms\<rparr>),
      (field_entity_key, \<lparr>fm_source = column_source ''what'', fm_transforms = []\<rparr>)]"

definition sample_rows :: "(string \<times> string) list \<Rightarrow> row_source" where
  "sample_rows cells =
     \<lparr>ro_columns = [''who'', ''what''],
      ro_rows = map (\<lambda>(w, k). \<lparr>sr_number = 1, sr_malformed = False, sr_values = [(''who'', w), (''what'', k)]\<rparr>) cells,
      ro_failed = False\<rparr>"

definition sample_import :: "transform list \<Rightarrow> (string \<times> string) list \<Rightarrow> intake_request" where
  "sample_import type_transforms cells =
     \<lparr>iq_label = ''file'', iq_mapping_id = None, iq_source = sample_rows cells, iq_field_map = sample_map type_transforms,
      iq_filter_column = [], iq_filter_value = [], iq_create_owners = []\<rparr>"

text \<open>An owner made by hand is removed by a clear-down when an import once created an owner of the same
  name, since the audit entry that marks imported owners outlives the owner it was written for.\<close>

theorem clear_removes_recreated_owner:
  "let db = own_run [(1, Ev_import sample_env ''admin'' (sample_import [] [(''bob'', ''web1'')]) True),
                     (2, Ev_delete_owner None ''bob''),
                     (3, Ev_create_owner None (plain_owner ''bob''))] empty_ownership
   in owner_names db = [''bob''] \<and> owner_names (own_step 4 (Ev_clear None True) db) = []"
  by code_simp

definition sample_mapped :: "mapped_row list" where
  "sample_mapped =
     map (\<lambda>(w, k). \<lparr>mw_source_row = 1, mw_malformed = False, mw_raw = [], mw_owner = w, mw_owner_raw = w,
        mw_entity_type = entity_node, mw_entity_key = k, mw_organisation = [], mw_notes = [], mw_display_name = w,
        mw_rejected = None\<rparr>) [(''alice'', ''web1''), (''carol'', ''web1''), (''carol'', ''web2'')]"

lemma sample_mapped_ok: "slugged sample_mapped" "alias_stable (ie_similar sample_env) two_owners sample_mapped"
  "ownership_ok two_owners"
proof -
  show "slugged sample_mapped" "alias_stable (ie_similar sample_env) two_owners sample_mapped" by code_simp+
  have "two_owners = own_step 1 (Ev_create_owner None (plain_owner ''bob''))
      (own_step 1 (Ev_create_owner None (plain_owner ''alice'')) empty_ownership)"
    by (simp add: two_owners_def)
  then show "ownership_ok two_owners" by (metis own_step_ok empty_ownership_ok)
qed

text \<open>C15: the report of a commit is true. The assignments the commit has added are those of the rows it
  reports as created or as also owned by somebody else, in their order, each marked as an import; the
  number it reports as created is their number; every other assignment, owner and alias stays as it was;
  and the counts are those of the rows.\<close>

theorem commit_report_is_true:
  assumes "ownership_ok db" "slugged mapped"
    and "commit_intake_rows actor now (classify_intake_rows similar db collected create_owners mapped) db = (rep, db')"
  shows "extended db db' \<and> length (rp_rows rep) = length mapped
    \<and> (\<exists>new. od_assignments db' = od_assignments db @ new \<and> length new = rp_created rep
         \<and> list_all (\<lambda>a. as_source a = source_import) new
         \<and> map assignment_key new = map row_key (filter written (rp_rows rep)))
    \<and> count_of (rp_counts rep) Would_create + count_of (rp_counts rep) Owned_by_other = rp_created rep"
proof -
  note a = commit_intake_rows_added [OF assms(1,3)] and c = classify_rows [OF assms(2), of similar db collected create_owners]
  obtain new where new: "od_assignments db' = od_assignments db @ new" "length new = rp_created rep"
    "list_all (\<lambda>a. as_source a = source_import) new" "map assignment_key new = map row_key (filter written (rp_rows rep))"
    and e: "extended db db'"
    using a(1) c(3) unfolding added_for_def list_all_iff by auto
  have l: "length (rp_rows rep) = length mapped"
    using list_all2_lengthD [OF a(2)] c(1) by simp
  have "written r \<longleftrightarrow> rr_outcome r = Would_create \<or> rr_outcome r = Owned_by_other" for r
    by (cases "rr_outcome r") (simp_all add: written_def)
  then have "length (filter written rows) = length (filter (\<lambda>r. rr_outcome r = Would_create) rows)
      + length (filter (\<lambda>r. rr_outcome r = Owned_by_other) rows)" for rows
    by (induction rows) auto
  moreover have "length (filter written (rp_rows rep)) = rp_created rep"
    using new(2,4) by (metis length_map)
  ultimately show ?thesis using new e l by (auto simp: a(4) count_outcomes)
qed

theorem commit_report_is_true_witness:
  "rp_created (fst (commit_intake_rows ''admin'' 2
      (classify_intake_rows (ie_similar sample_env) two_owners (ie_collected sample_env) True sample_mapped) two_owners)) = 3
   \<and> (case commit_intake_rows ''admin'' 2
         (classify_intake_rows (ie_similar sample_env) two_owners (ie_collected sample_env) True sample_mapped) two_owners of
        (rep, db') \<Rightarrow> extended two_owners db' \<and> length (rp_rows rep) = length sample_mapped)"
proof
  show "rp_created (fst (commit_intake_rows ''admin'' 2
      (classify_intake_rows (ie_similar sample_env) two_owners (ie_collected sample_env) True sample_mapped) two_owners)) = 3"
    by code_simp
  show "case commit_intake_rows ''admin'' 2
         (classify_intake_rows (ie_similar sample_env) two_owners (ie_collected sample_env) True sample_mapped) two_owners of
        (rep, db') \<Rightarrow> extended two_owners db' \<and> length (rp_rows rep) = length sample_mapped"
    using commit_report_is_true [OF sample_mapped_ok(3,1), of "''admin''" 2 "ie_similar sample_env" "ie_collected sample_env" True]
    by (auto split: prod.split)
qed

text \<open>C16: importing the same rows again changes nothing, owners, assignments, aliases and audit log included,
  provided that no row was matched by an alias whose slug another row of the import turned into an owner.\<close>

theorem reimport_changes_nothing:
  assumes "ownership_ok db" "slugged mapped" "alias_stable similar db mapped"
    and "commit_intake_rows actor now (classify_intake_rows similar db collected create_owners mapped) db = (rep, db')"
  shows "snd (commit_intake_rows actor2 later (classify_intake_rows similar db' collected create_owners mapped) db') = db'"
  using assms by (rule rerun_lemma)

theorem reimport_changes_nothing_witness:
  "let import = (\<lambda>db. snd (commit_intake_rows ''admin'' 2
      (classify_intake_rows (ie_similar sample_env) db (ie_collected sample_env) True sample_mapped) db))
   in import (import two_owners) = import two_owners"
  unfolding Let_def
  by (rule reimport_changes_nothing [OF sample_mapped_ok(3,1,2)]) (rule surjective_pairing)

definition with_alias :: ownership_db where
  "with_alias = snd (handle_create_owner_alias None
     \<lparr>lq_owner = ''alice'', lq_type = alias_custom, lq_value = ''Ally'', lq_source = []\<rparr> 2 two_owners)"

text \<open>Without that proviso a second import of the same file can move an assignment to somebody else. A
  row of Ally, an alias of alice, and a row of ALLY, which no alias has, share a slug: the second creates
  the owner ally, and from then on the first is taken for ally as well.\<close>

theorem reimport_can_reassign:
  "let q = sample_import [] [(''Ally'', ''web1''), (''ALLY'', ''web2'')];
       est = sample_estate [] [];
       first = own_step 3 (Ev_import sample_env ''admin'' q True) with_alias;
       second = own_step 4 (Ev_import sample_env ''admin'' q True) first
   in owners_found est entity_node ''web1'' [] first = [''alice'']
      \<and> owners_found est entity_node ''web1'' [] second = [''alice'', ''ally'']"
  by code_simp

text \<open>The entity type of a mapping is checked before its transforms are applied. With a constant that is
  valid and a transform that spoils it the mapping is accepted, the preview promises every row, and the
  commit rejects each as malformed, after it has created the owners.\<close>

theorem transformed_type_rejects_every_row:
  "let up = \<lparr>tf_kind = ''uppercase'', tf_value = [], tf_from = [], tf_to = [], tf_pattern = []\<rparr>;
       q = sample_import [up] [(''bob'', ''web1'')];
       outcome = (\<lambda>commit. map_option (\<lambda>rep. map (\<lambda>r. (rr_outcome r, mw_rejected (rr_row r))) (rp_rows rep))
                    (fst (handle_intake_run sample_env ''admin'' 1 q commit empty_ownership [])))
   in outcome False = Some [(Would_create, None)] \<and> outcome True = Some [(Rejected, Some Malformed_row)]
      \<and> owner_names (own_step 1 (Ev_import sample_env ''admin'' q True) empty_ownership) = [''bob'']"
  by code_simp

text \<open>C20: a string becomes an owner name unless it has no letter and no digit; the name satisfies the
  constraint of the table, is its own slug and does not depend on the case of the string.\<close>

theorem slug_is_canonical:
  "case slugify_owner_name raw of
     None \<Rightarrow> \<not> list_ex alnum raw
   | Some s \<Rightarrow> list_ex alnum raw \<and> owner_name_ok s \<and> slugify_owner_name s = Some s
              \<and> slugify_owner_name (to_lower raw) = Some s"
proof (cases "slugify_owner_name raw")
  case None
  then show ?thesis by (simp add: slugify_eq split: if_splits)
next
  case (Some s)
  moreover have "list_ex alnum raw" using Some by (simp add: slugify_eq split: if_splits)
  ultimately show ?thesis by (simp add: slugify_owner_name_ok slugify_idem slugify_lower)
qed

text \<open>The rows shown of a report are rows of it in their order, at most two thousand and as many as fit;
  rejected rows are shown in preference to others; and the report says that rows are missing exactly when
  they are.\<close>

theorem report_is_trimmed_to_bounds:
  "case trim_report_rows rows of
     (kept, truncated) \<Rightarrow>
       subseq kept rows \<and> length kept = min (length rows) intake_max_report_rows
       \<and> rejected_rows kept = min (rejected_rows rows) intake_max_report_rows
       \<and> (truncated \<longleftrightarrow> kept \<noteq> rows)"
  using trim_report_rows_bounds [of rows] by (cases "trim_report_rows rows") blast


section \<open>What rules leave alone\<close>

lemma carry_out_others:
  assumes "ownership_ok db" "\<And>p. p \<in> set (fst plan) \<Longrightarrow> ap_source p = source_auto_rule"
  shows "filter (\<lambda>a. as_source a \<noteq> source_auto_rule) (od_assignments (carry_out now org r plan db))
       = filter (\<lambda>a. as_source a \<noteq> source_auto_rule) (od_assignments db)"
proof -
  obtain new where n: "od_assignments (fst (create_loop now (fst plan) db 0 0)) = od_assignments db @ new"
    "\<forall>a \<in> set new. \<exists>p \<in> set (fst plan). \<exists>i t. a = assignment_row p i t"
    using create_loop_fst [OF assms(1), of now "fst plan"] unfolding grown_def by blast
  have "as_source a = source_auto_rule" if "a \<in> set new" for a
    using n(2) that assms(2) by auto
  then have "filter (\<lambda>a. as_source a \<noteq> source_auto_rule) new = []" by (simp add: filter_empty_conv)
  moreover have "filter (\<lambda>a. as_source a \<noteq> source_auto_rule) (delete_where (is_stale (ar_name r) org (snd plan)) tbl)
      = filter (\<lambda>a. as_source a \<noteq> source_auto_rule) tbl" for tbl
    by (rule filter_delete_where) (auto simp: is_stale_def)
  ultimately show ?thesis by (simp add: carry_out_def Let_def n(1))
qed

lemma rule_step_others:
  assumes "ownership_ok db"
  shows "same_frame db (rule_step compile show_other est now org_id org_name r db)
    \<and> filter (\<lambda>a. as_source a \<noteq> source_auto_rule) (od_assignments (rule_step compile show_other est now org_id org_name r db))
      = filter (\<lambda>a. as_source a \<noteq> source_auto_rule) (od_assignments db)"
proof (cases "rule_plan compile show_other est org_id org_name r db")
  case None
  then show ?thesis by (simp add: rule_step_plan [OF assms])
next
  case (Some plan)
  have "ap_source p = source_auto_rule" if "p \<in> set (fst plan)" for p
    using rule_plan_params(2) [of compile show_other est org_id org_name r db "fst plan" "snd plan"] Some that by simp
  then show ?thesis
    using carry_out_others [OF assms] carry_out_frame [OF assms] by (simp add: rule_step_plan [OF assms] Some)
qed

text \<open>C17: rules touch what rules have made and nothing else: after a collection, whatever the rules, the owners, the
  aliases, the audit log and every assignment made by hand or by an import are as they were before it.\<close>

theorem rules_spare_other_assignments:
  assumes "ownership_ok db"
    and "(db', totals) = evaluate_after_collection compile show_other rules est now org_id org_name db"
  shows "od_owners db' = od_owners db \<and> od_aliases db' = od_aliases db \<and> od_audit db' = od_audit db
    \<and> filter (\<lambda>a. as_source a \<noteq> source_auto_rule) (od_assignments db')
      = filter (\<lambda>a. as_source a \<noteq> source_auto_rule) (od_assignments db)"
proof -
  have d: "db' = fold (rule_step compile show_other est now org_id org_name) rules db"
    using evaluate_after_collection_fold [of compile show_other est now org_id org_name rules
        "(db, \<lparr>rt_created = 0, rt_removed = 0, rt_skipped = 0\<rparr>)"] assms(2)
    by (metis evaluate_after_collection_def fst_conv)
  have "same_frame db (fold (rule_step compile show_other est now org_id org_name) rules db)
    \<and> filter (\<lambda>a. as_source a \<noteq> source_auto_rule) (od_assignments (fold (rule_step compile show_other est now org_id org_name) rules db))
      = filter (\<lambda>a. as_source a \<noteq> source_auto_rule) (od_assignments db)"
    using assms(1)
  proof (induction rules arbitrary: db)
    case (Cons r rules)
    note o' = rule_step_others [OF Cons.prems, of compile show_other est now org_id org_name r]
    show ?case
      using Cons.IH [OF evaluation.ok_step [OF Cons.prems]] o' same_frame_trans by fastforce
  qed simp
  then show ?thesis by (simp add: d same_frame_def)
qed

theorem rules_spare_other_assignments_witness:
  "case evaluate_after_collection literal_compile no_other [pattern_rule ''r'' ''alice'' rule_node_name_pattern ''web'']
        (sample_estate [plain_node ''web1'' RAbsent] []) 2 ''acme'' ''acme'' two_owners of
     (db', totals) \<Rightarrow> od_owners db' = od_owners two_owners \<and> rt_created totals = 1"
proof -
  obtain db' totals where e: "(db', totals) = evaluate_after_collection literal_compile no_other
      [pattern_rule ''r'' ''alice'' rule_node_name_pattern ''web'']
      (sample_estate [plain_node ''web1'' RAbsent] []) 2 ''acme'' ''acme'' two_owners"
    by (metis surj_pair)
  have "rt_created (snd (evaluate_after_collection literal_compile no_other
      [pattern_rule ''r'' ''alice'' rule_node_name_pattern ''web'']
      (sample_estate [plain_node ''web1'' RAbsent] []) 2 ''acme'' ''acme'' two_owners)) = 1"
    by code_simp
  then show ?thesis
    using rules_spare_other_assignments [OF sample_mapped_ok(3) e] unfolding e [symmetric] by simp
qed

end
