(* ===== verification/Ownership_Schedule.thy ===== *)
theory Ownership_Schedule
  imports Ownership Cron_Schedule
begin

text \<open>
  Saved imports and their schedule: the table of saved imports
  (\<open>internal/datastore/ownership_import_mappings.go\<close>, migrations 0056, 0064, 0065 and 0069), the
  requests that change it (\<open>internal/webapi/handle_ownership_intake.go\<close>,
  \<open>runSavedImportNow\<close>) and the scheduler (\<open>internal/ownershipschedule/scheduler.go\<close>), which on
  every tick runs each enabled import whose expression came round since the tick before. Times are
  nanoseconds in UTC, as in \<open>Cron_Schedule\<close>. A request and a tick take effect at once.
\<close>

section \<open>The table of saved imports\<close>

record mapping_params =
  mp_name :: string
  mp_source_kind :: string
  mp_delimiter :: string
  mp_field_map :: field_map
  mp_connection :: string
  mp_query :: string
  mp_filter_column :: string
  mp_filter_value :: string
  mp_create_owners :: bool
  mp_schedule :: string
  mp_schedule_enabled :: bool

record import_store =
  st_mappings :: "import_mapping list"
  st_next_id :: int
  st_own :: ownership_db
  st_rejections :: "rejection list"

definition kind_csv :: string where "kind_csv = ''csv''"
definition kind_database :: string where "kind_database = ''database''"

lemma kinds_distinct [simp]: "kind_csv \<noteq> kind_database" "kind_database \<noteq> kind_csv"
  by (simp_all add: kind_csv_def kind_database_def)

text \<open>The two \<open>CHECK\<close> constraints.\<close>

definition source_kind_ok :: "string \<Rightarrow> bool" where
  "source_kind_ok k = (k = kind_csv \<or> k = kind_database)"

definition schedulable :: "import_mapping \<Rightarrow> bool" where
  "schedulable m =
     (\<not> im_schedule_enabled m
      \<or> im_source_kind m = kind_database \<and> im_connection m \<noteq> [] \<and> im_query m \<noteq> [] \<and> im_schedule m \<noteq> [])"

definition or_default :: "string \<Rightarrow> string \<Rightarrow> string" where
  "or_default s d = (if s = [] then d else s)"

definition mapping_row :: "mapping_params \<Rightarrow> string \<Rightarrow> int \<Rightarrow> int \<Rightarrow> import_mapping" where
  "mapping_row p by_user i now =
     \<lparr>im_id = i, im_name = mp_name p, im_source_kind = or_default (mp_source_kind p) kind_csv,
      im_delimiter = or_default (mp_delimiter p) '','', im_field_map = mp_field_map p,
      im_created_by = null_string by_user, im_created_at = now, im_updated_at = now,
      im_connection = mp_connection p, im_query = mp_query p, im_filter_column = mp_filter_column p,
      im_filter_value = mp_filter_value p, im_create_owners = mp_create_owners p,
      im_schedule = mp_schedule p, im_schedule_enabled = mp_schedule_enabled p,
      im_last_run_at = None, im_last_run_status = []\<rparr>"

definition insert_import_mapping ::
  "mapping_params \<Rightarrow> string \<Rightarrow> int \<Rightarrow> import_store \<Rightarrow> own_error + import_mapping \<times> import_store" where
  "insert_import_mapping p by_user now st =
     (if mp_name p = [] then Inl Own_invalid
      else let m = mapping_row p by_user (st_next_id st) now
           in if \<not> source_kind_ok (im_source_kind m) \<or> \<not> schedulable m then Inl Own_failed
              else if im_name m \<in> set (map im_name (st_mappings st)) then Inl Own_exists
              else Inr (m, st\<lparr>st_mappings := st_mappings st @ [m], st_next_id := st_next_id st + 1\<rparr>))"

definition get_import_mapping :: "int \<Rightarrow> import_store \<Rightarrow> import_mapping option" where
  "get_import_mapping i st = row_of im_id i (st_mappings st)"

definition updated_mapping :: "mapping_params \<Rightarrow> int \<Rightarrow> import_mapping \<Rightarrow> import_mapping" where
  "updated_mapping p now m =
     m\<lparr>im_name := mp_name p, im_delimiter := or_default (mp_delimiter p) '','', im_field_map := mp_field_map p,
       im_connection := mp_connection p, im_query := mp_query p, im_filter_column := mp_filter_column p,
       im_filter_value := mp_filter_value p, im_create_owners := mp_create_owners p,
       im_schedule := mp_schedule p, im_schedule_enabled := mp_schedule_enabled p, im_updated_at := now\<rparr>"

definition update_import_mapping ::
  "int \<Rightarrow> mapping_params \<Rightarrow> int \<Rightarrow> import_store \<Rightarrow> own_error + import_mapping \<times> import_store" where
  "update_import_mapping i p now st =
     (if mp_name p = [] then Inl Own_invalid
      else case get_import_mapping i st of
             None \<Rightarrow> Inl Own_missing
           | Some m \<Rightarrow>
               let m' = updated_mapping p now m
               in if \<not> schedulable m' then Inl Own_failed
                  else if list_ex (\<lambda>o'. im_name o' = im_name m' \<and> im_id o' \<noteq> i) (st_mappings st) then Inl Own_exists
                  else Inr (m', st\<lparr>st_mappings :=
                                     update_where (\<lambda>o'. im_id o' = i) (updated_mapping p now) (st_mappings st)\<rparr>))"

text \<open>The rejections of a saved import go with it.\<close>

definition delete_import_mapping :: "int \<Rightarrow> import_store \<Rightarrow> own_error + import_store" where
  "delete_import_mapping i st =
     (if i \<notin> set (map im_id (st_mappings st)) then Inl Own_missing
      else Inr (st\<lparr>st_mappings := delete_where (\<lambda>m. im_id m = i) (st_mappings st),
                   st_rejections := delete_where (\<lambda>r. rj_mapping r = Some i) (st_rejections st)\<rparr>))"

definition list_scheduled_imports :: "import_store \<Rightarrow> import_mapping list" where
  "list_scheduled_imports st = sort_key im_id (filter im_schedule_enabled (st_mappings st))"

section \<open>Requests\<close>

text \<open>The body of a request; the document is \<open>None\<close> when it is absent or does not decode.\<close>

record mapping_body =
  mb_name :: string
  mb_source_kind :: string
  mb_delimiter :: string
  mb_field_map :: "field_map option"
  mb_connection :: string
  mb_query :: string
  mb_filter_column :: string
  mb_filter_value :: string
  mb_create_owners :: "bool option"
  mb_schedule :: string
  mb_schedule_enabled :: bool

definition document_columns :: "field_map \<Rightarrow> string list" where
  "document_columns fm =
     concat (map (\<lambda>(f, fd). if fs_kind (fm_source fd) = ''column'' then [fs_column (fm_source fd)]
                            else if fs_kind (fm_source fd) = ''concat'' then fs_columns (fm_source fd) else []) fm)"

definition validate_mapping_without_columns ::
  "import_env \<Rightarrow> field_map \<Rightarrow> (string \<times> mapping_fault) list" where
  "validate_mapping_without_columns env fm = mapping_faults (ie_is_ip env) (ie_captures env) (document_columns fm) fm"

definition validate_import_schedule :: "mapping_params \<Rightarrow> bool" where
  "validate_import_schedule p =
     (if mp_schedule p \<noteq> [] \<and> (case parse_schedule (mp_schedule p) of Inl e \<Rightarrow> True | Inr cs \<Rightarrow> False) then False
      else if \<not> mp_schedule_enabled p then True
      else if mp_source_kind p \<noteq> kind_database then False
      else if mp_connection p = [] then False
      else if mp_query p = [] then False
      else mp_schedule p \<noteq> [])"

definition decode_mapping_body :: "import_env \<Rightarrow> mapping_body \<Rightarrow> mapping_params option" where
  "decode_mapping_body env b =
     (if trim_space (mb_name b) = [] then None
      else case mb_field_map b of
             None \<Rightarrow> None
           | Some fm \<Rightarrow>
               if validate_mapping_without_columns env fm \<noteq> [] then None
               else let p = \<lparr>mp_name = trim_space (mb_name b), mp_source_kind = mb_source_kind b,
                             mp_delimiter = mb_delimiter b, mp_field_map = fm,
                             mp_connection = trim_space (mb_connection b), mp_query = trim_space (mb_query b),
                             mp_filter_column = trim_space (mb_filter_column b),
                             mp_filter_value = trim_space (mb_filter_value b),
                             mp_create_owners = (mb_create_owners b \<noteq> Some False),
                             mp_schedule = trim_space (mb_schedule b), mp_schedule_enabled = mb_schedule_enabled b\<rparr>
                    in if validate_import_schedule p then Some p else None)"

definition create_intake_mapping ::
  "import_env \<Rightarrow> session_info option \<Rightarrow> mapping_body \<Rightarrow> int \<Rightarrow> import_store \<Rightarrow> nat \<times> import_store" where
  "create_intake_mapping env sess b now st =
     (case decode_mapping_body env b of
        None \<Rightarrow> (400, st)
      | Some p \<Rightarrow>
          (case insert_import_mapping p (admin_username sess) now st of
             Inl e \<Rightarrow> (if e = Own_exists then 409 else 500, st)
           | Inr (m, st') \<Rightarrow> (201, st')))"

definition update_intake_mapping ::
  "import_env \<Rightarrow> int \<Rightarrow> mapping_body \<Rightarrow> int \<Rightarrow> import_store \<Rightarrow> nat \<times> import_store" where
  "update_intake_mapping env i b now st =
     (case decode_mapping_body env b of
        None \<Rightarrow> (400, st)
      | Some p \<Rightarrow>
          (case update_import_mapping i p now st of
             Inl e \<Rightarrow> (if e = Own_missing then 404 else if e = Own_exists then 409 else 500, st)
           | Inr (m, st') \<Rightarrow> (200, st')))"

definition delete_intake_mapping :: "int \<Rightarrow> import_store \<Rightarrow> nat \<times> import_store" where
  "delete_intake_mapping i st =
     (case delete_import_mapping i st of
        Inl e \<Rightarrow> (if e = Own_missing then 404 else 500, st)
      | Inr st' \<Rightarrow> (204, st'))"

definition get_intake_mapping :: "int \<Rightarrow> import_store \<Rightarrow> nat" where
  "get_intake_mapping i st = (case get_import_mapping i st of None \<Rightarrow> 404 | Some m \<Rightarrow> 200)"

section \<open>Running a saved import\<close>

type_synonym opener = "string \<Rightarrow> string \<Rightarrow> row_source option"

definition status_succeeded :: string where "status_succeeded = ''succeeded''"
definition status_failed :: string where "status_failed = ''failed''"

text \<open>A run and the record of its outcome, as the scheduler and the request do it.\<close>

definition run_one :: "import_env \<Rightarrow> opener \<Rightarrow> int \<Rightarrow> import_mapping \<Rightarrow> import_store \<Rightarrow> import_store" where
  "run_one env opn now m st =
     (case run_saved_import env opn now m (st_own st) (st_rejections st) of
        (rep, own, rejs) \<Rightarrow>
          st\<lparr>st_own := own, st_rejections := rejs,
             st_mappings := record_import_run (im_id m)
               (if rep = None then status_failed else status_succeeded) now (st_mappings st)\<rparr>)"

definition run_saved_import_now ::
  "import_env \<Rightarrow> opener \<Rightarrow> int \<Rightarrow> int \<Rightarrow> import_store \<Rightarrow> nat \<times> import_store" where
  "run_saved_import_now env opn i now st =
     (case get_import_mapping i st of
        None \<Rightarrow> (404, st)
      | Some m \<Rightarrow>
          (if fst (run_saved_import env opn now m (st_own st) (st_rejections st)) = None then 400 else 200,
           run_one env opn now m st))"

section \<open>Interactive imports\<close>

text \<open>
  An upload with the document in the request (\<open>Some None\<close> when it does not decode) or the saved
  import that holds it.
\<close>

record upload =
  up_source :: row_source
  up_document :: "field_map option option"
  up_mapping_id :: "int option"
  up_file :: string
  up_connection :: string
  up_filter_column :: string
  up_filter_value :: string
  up_create_owners :: string

definition resolve_field_map :: "upload \<Rightarrow> import_store \<Rightarrow> nat + field_map" where
  "resolve_field_map up st =
     (case (up_document up, up_mapping_id up) of
        (Some d, Some i) \<Rightarrow> Inl 400
      | (None, None) \<Rightarrow> Inl 400
      | (None, Some i) \<Rightarrow> (case get_import_mapping i st of None \<Rightarrow> Inl 404 | Some m \<Rightarrow> Inr (im_field_map m))
      | (Some d, None) \<Rightarrow> (case d of None \<Rightarrow> Inl 400 | Some fm \<Rightarrow> Inr fm))"

definition intake_run_label :: "upload \<Rightarrow> import_store \<Rightarrow> string \<times> int option" where
  "intake_run_label up st =
     (case Option.bind (up_mapping_id up) (\<lambda>i. get_import_mapping i st) of
        Some m \<Rightarrow> (im_name m, Some (im_id m))
      | None \<Rightarrow>
          if up_file up \<noteq> [] then (up_file up, None)
          else if up_connection up \<noteq> [] then (up_connection up, None)
          else (''manual import'', None))"

definition handle_upload ::
  "import_env \<Rightarrow> session_info option \<Rightarrow> upload \<Rightarrow> bool \<Rightarrow> int \<Rightarrow> import_store \<Rightarrow> nat \<times> import_store" where
  "handle_upload env sess up commit now st =
     (case resolve_field_map up st of
        Inl code \<Rightarrow> (code, st)
      | Inr fm \<Rightarrow>
          (case handle_intake_run env (admin_username sess) now
                  \<lparr>iq_label = fst (intake_run_label up st), iq_mapping_id = snd (intake_run_label up st),
                   iq_source = up_source up, iq_field_map = fm, iq_filter_column = up_filter_column up,
                   iq_filter_value = up_filter_value up, iq_create_owners = up_create_owners up\<rparr>
                  commit (st_own st) (st_rejections st) of
             (rep, own, rejs) \<Rightarrow>
               (if rep = None then 400 else 200, st\<lparr>st_own := own, st_rejections := rejs\<rparr>)))"

section \<open>The scheduler\<close>

definition run_due_import ::
  "import_env \<Rightarrow> opener \<Rightarrow> int \<Rightarrow> int \<Rightarrow> import_mapping \<Rightarrow> import_store \<Rightarrow> import_store" where
  "run_due_import env opn since now m st =
     (case parse_schedule (im_schedule m) of
        Inl e \<Rightarrow> st\<lparr>st_mappings := record_import_run (im_id m) status_failed now (st_mappings st)\<rparr>
      | Inr cs \<Rightarrow>
          (case cron_next cs since of
             None \<Rightarrow> st
           | Some next \<Rightarrow> if now < next then st else run_one env opn now m st))"

text \<open>\<open>listed\<close> says whether the query for the scheduled imports succeeds.\<close>

definition run_due :: "import_env \<Rightarrow> opener \<Rightarrow> bool \<Rightarrow> int \<Rightarrow> int \<Rightarrow> import_store \<Rightarrow> import_store" where
  "run_due env opn listed since now st =
     (if \<not> listed then st else fold (run_due_import env opn since now) (list_scheduled_imports st) st)"

record scheduler =
  sd_since :: int
  sd_store :: import_store

datatype mapping_request =
  Mq_create mapping_body | Mq_get int | Mq_update int mapping_body | Mq_delete int | Mq_run int
| Mq_upload upload bool

text \<open>What happens to saved imports: a request, a tick of the scheduler's loop, or a restart of the program.\<close>

datatype schedule_event =
  Ev_request "session_info option" mapping_request
| Ev_tick bool
| Ev_restart

definition handle_mapping_request ::
  "import_env \<Rightarrow> opener \<Rightarrow> session_info option \<Rightarrow> mapping_request \<Rightarrow> int \<Rightarrow> import_store \<Rightarrow> nat \<times> import_store" where
  "handle_mapping_request env opn sess q now st =
     (if \<not> require_admin_role sess then (403, st)
      else case q of
             Mq_create b \<Rightarrow> create_intake_mapping env sess b now st
           | Mq_get i \<Rightarrow> (get_intake_mapping i st, st)
           | Mq_update i b \<Rightarrow> update_intake_mapping env i b now st
           | Mq_delete i \<Rightarrow> delete_intake_mapping i st
           | Mq_run i \<Rightarrow> run_saved_import_now env opn i now st
           | Mq_upload up commit \<Rightarrow> handle_upload env sess up commit now st)"

definition scheduler_step :: "import_env \<Rightarrow> opener \<Rightarrow> int \<Rightarrow> schedule_event \<Rightarrow> scheduler \<Rightarrow> scheduler" where
  "scheduler_step env opn now e sd =
     (case e of
        Ev_request sess q \<Rightarrow> sd\<lparr>sd_store := snd (handle_mapping_request env opn sess q now (sd_store sd))\<rparr>
      | Ev_tick listed \<Rightarrow> \<lparr>sd_since = now, sd_store = run_due env opn listed (sd_since sd) now (sd_store sd)\<rparr>
      | Ev_restart \<Rightarrow> sd\<lparr>sd_since := now\<rparr>)"

text \<open>Each event comes with its time and the databases that can be reached then.\<close>

fun scheduler_run :: "import_env \<Rightarrow> (int \<times> opener \<times> schedule_event) list \<Rightarrow> scheduler \<Rightarrow> scheduler" where
  "scheduler_run env [] sd = sd"
| "scheduler_run env ((now, opn, e) # es) sd = scheduler_run env es (scheduler_step env opn now e sd)"

section \<open>Lemmas on the table\<close>

text \<open>A saved import without the outcome of its last run, which is all a run changes of it.\<close>

definition plan_of :: "import_mapping \<Rightarrow> import_mapping" where
  "plan_of m = m\<lparr>im_last_run_at := None, im_last_run_status := []\<rparr>"

definition schedule_ok :: "import_mapping \<Rightarrow> bool" where
  "schedule_ok m = (im_schedule m = [] \<or> (\<exists>cs. parse_schedule (im_schedule m) = Inr cs))"

definition mapping_ok :: "import_store \<Rightarrow> import_mapping \<Rightarrow> bool" where
  "mapping_ok st m =
     (im_id m < st_next_id st \<and> im_name m \<noteq> [] \<and> source_kind_ok (im_source_kind m) \<and> schedulable m \<and> schedule_ok m)"

definition mappings_ok :: "import_store \<Rightarrow> bool" where
  "mappings_ok st =
     (distinct (map im_id (st_mappings st)) \<and> distinct (map im_name (st_mappings st))
      \<and> list_all (mapping_ok st) (st_mappings st))"

definition rejections_ok :: "import_mapping list \<Rightarrow> rejection list \<Rightarrow> bool" where
  "rejections_ok ms rejs =
     (list_all (\<lambda>r. case rj_mapping r of None \<Rightarrow> True | Some i \<Rightarrow> i \<in> im_id ` set ms) rejs
      \<and> (\<forall>l. length (filter (\<lambda>r. rj_label r = l) rejs) \<le> max_stored_rejections))"

definition store_ok :: "import_store \<Rightarrow> bool" where
  "store_ok st = (mappings_ok st \<and> rejections_ok (st_mappings st) (st_rejections st) \<and> ownership_ok (st_own st))"

lemma plan_of_fields [simp]:
  "im_id (plan_of m) = im_id m" "im_name (plan_of m) = im_name m" "schedulable (plan_of m) = schedulable m"
  "im_source_kind (plan_of m) = im_source_kind m" "im_schedule (plan_of m) = im_schedule m"
  "im_schedule_enabled (plan_of m) = im_schedule_enabled m" "schedule_ok (plan_of m) = schedule_ok m"
  by (simp_all add: plan_of_def schedulable_def schedule_ok_def)

lemma record_import_run_plans [simp]: "map plan_of (record_import_run i status now ms) = map plan_of ms"
  by (simp add: record_import_run_def update_where_def plan_of_def)

lemma same_plans:
  assumes "map plan_of ms' = map plan_of ms"
  shows "map im_id ms' = map im_id ms" "map im_name ms' = map im_name ms"
  using arg_cong [OF assms, of "map im_id"] arg_cong [OF assms, of "map im_name"] by (simp_all add: comp_def)

lemma same_plans_ids: "map plan_of ms' = map plan_of ms \<Longrightarrow> im_id ` set ms' = im_id ` set ms"
  using same_plans(1) by (metis list.set_map)

lemma mappings_ok_plans:
  assumes "map plan_of (st_mappings st') = map plan_of (st_mappings st)" "st_next_id st' = st_next_id st"
  shows "mappings_ok st' = mappings_ok st"
proof -
  have k: "mapping_ok s (plan_of m) = mapping_ok s m" for s m by (simp add: mapping_ok_def)
  have "mapping_ok st' = mapping_ok st" using assms(2) by (intro ext) (simp add: mapping_ok_def)
  then have "list_all (mapping_ok st') (st_mappings st') = list_all (mapping_ok st) (map plan_of (st_mappings st'))"
    by (simp add: list.pred_map comp_def k)
  also have "\<dots> = list_all (mapping_ok st) (st_mappings st)"
    using assms(1) by (simp add: list.pred_map comp_def k)
  finally show ?thesis using same_plans [OF assms(1)] by (simp add: mappings_ok_def)
qed

lemma get_import_mapping_iff:
  "mappings_ok st \<Longrightarrow> get_import_mapping i st = Some m \<longleftrightarrow> m \<in> set (st_mappings st) \<and> im_id m = i"
  by (simp add: mappings_ok_def get_import_mapping_def row_of_iff)

lemma get_import_mapping_ok: "mappings_ok st \<Longrightarrow> get_import_mapping i st = Some m \<Longrightarrow> mapping_ok st m"
  by (metis get_import_mapping_iff list_all_iff mappings_ok_def)

section \<open>What the store accepts\<close>

lemma insert_import_mapping_ok:
  assumes "insert_import_mapping p u now st = Inr (m, st')" "mappings_ok st"
    and "mp_schedule p = [] \<or> (\<exists>cs. parse_schedule (mp_schedule p) = Inr cs)"
  shows "mappings_ok st'" "set (st_mappings st) \<subseteq> set (st_mappings st')"
    "st_rejections st' = st_rejections st" "st_own st' = st_own st"
proof -
  have m: "m = mapping_row p u (st_next_id st) now" and p: "mp_name p \<noteq> []"
    and k: "source_kind_ok (im_source_kind m)" "schedulable m" and n: "im_name m \<notin> im_name ` set (st_mappings st)"
    and st': "st' = st\<lparr>st_mappings := st_mappings st @ [m], st_next_id := st_next_id st + 1\<rparr>"
    using assms(1) by (auto simp: insert_import_mapping_def Let_def split: if_splits)
  have f: "im_id m = st_next_id st" "im_name m = mp_name p" "im_schedule m = mp_schedule p"
    by (simp_all add: m mapping_row_def)
  have old: "mapping_ok st x" if "x \<in> set (st_mappings st)" for x
    using assms(2) that by (simp add: mappings_ok_def list_all_iff)
  have "im_id m \<notin> im_id ` set (st_mappings st)" using old f(1) by (force simp: mapping_ok_def)
  moreover have "mapping_ok st' x" if "x \<in> set (st_mappings st)" for x
    using old [OF that] by (auto simp: mapping_ok_def st')
  moreover have "mapping_ok st' m" using p f k assms(3) by (simp add: mapping_ok_def schedule_ok_def st')
  ultimately show "mappings_ok st'" using assms(2) n by (simp add: mappings_ok_def st' list_all_iff)
  show "set (st_mappings st) \<subseteq> set (st_mappings st')" "st_rejections st' = st_rejections st" "st_own st' = st_own st"
    by (auto simp: st')
qed

lemma update_import_mapping_ok:
  assumes "update_import_mapping i p now st = Inr (m, st')" "mappings_ok st"
    and "mp_schedule p = [] \<or> (\<exists>cs. parse_schedule (mp_schedule p) = Inr cs)"
  shows "mappings_ok st'" "map im_id (st_mappings st') = map im_id (st_mappings st)"
    "st_rejections st' = st_rejections st" "st_own st' = st_own st"
proof -
  obtain o' where o': "get_import_mapping i st = Some o'" and m: "m = updated_mapping p now o'"
    and p: "mp_name p \<noteq> []" and k: "schedulable m"
    and n: "\<And>x. x \<in> set (st_mappings st) \<Longrightarrow> im_name x = mp_name p \<Longrightarrow> im_id x = i"
    and st': "st' = st\<lparr>st_mappings := update_where (\<lambda>x. im_id x = i) (updated_mapping p now) (st_mappings st)\<rparr>"
    using assms(1)
    by (auto simp: update_import_mapping_def Let_def list_ex_iff updated_mapping_def split: if_splits option.splits)
  let ?f = "\<lambda>x. if im_id x = i then updated_mapping p now x else x"
  have f: "im_id (updated_mapping p now x) = im_id x" "im_name (updated_mapping p now x) = mp_name p"
    "im_source_kind (updated_mapping p now x) = im_source_kind x" "im_schedule (updated_mapping p now x) = mp_schedule p" for x
    by (simp_all add: updated_mapping_def)
  have ids: "distinct (map im_id (st_mappings st))" and names: "distinct (map im_name (st_mappings st))"
    and old: "\<And>x. x \<in> set (st_mappings st) \<Longrightarrow> mapping_ok st x"
    using assms(2) by (simp_all add: mappings_ok_def list_all_iff)
  have only: "x = o'" if "x \<in> set (st_mappings st)" "im_id x = i" for x
    using o' that get_import_mapping_iff [OF assms(2)] by (metis option.inject)
  show e: "map im_id (st_mappings st') = map im_id (st_mappings st)"
    by (simp add: st' map_update_where f)
  have "inj_on (\<lambda>x. im_name (?f x)) (set (st_mappings st))"
    using names n f only unfolding distinct_map inj_on_def by (metis (mono_tags))
  moreover have "distinct (st_mappings st)" using ids distinct_map by blast
  ultimately have d: "distinct (map im_name (st_mappings st'))"
    by (simp add: st' update_where_def distinct_map inj_on_def comp_def)
  have "mapping_ok st' (?f x)" if "x \<in> set (st_mappings st)" for x
    using old [OF that] only [OF that] k m p f assms(3) by (auto simp: mapping_ok_def schedule_ok_def st')
  then have "\<forall>y \<in> ?f ` set (st_mappings st). mapping_ok st' y" by blast
  moreover have "set (st_mappings st') = ?f ` set (st_mappings st)" by (simp add: st' set_update_where)
  ultimately have "list_all (mapping_ok st') (st_mappings st')" unfolding list_all_iff by (simp only:)
  then show "mappings_ok st'" using e d ids by (simp add: mappings_ok_def)
  show "st_rejections st' = st_rejections st" "st_own st' = st_own st" by (simp_all add: st')
qed


section \<open>What a run keeps\<close>

lemma store_import_rejections_ok:
  assumes "rejections_ok ms tbl" "case mapping_id of None \<Rightarrow> True | Some i \<Rightarrow> i \<in> im_id ` set ms"
  shows "rejections_ok ms (store_import_rejections label mapping_id rep tbl)"
proof (cases "label = []")
  case False
  let ?new = "map (\<lambda>r. r\<lparr>rj_label := label, rj_mapping := mapping_id\<rparr>) (take max_stored_rejections
      (map rejection_of (filter (\<lambda>r. rr_outcome r = Rejected) (rp_rows rep))))"
  have e: "store_import_rejections label mapping_id rep tbl = delete_where (\<lambda>r. rj_label r = label) tbl @ ?new"
    using False by (simp add: store_import_rejections_def replace_import_rejections_def Let_def)
  have new: "rj_label r = label \<and> rj_mapping r = mapping_id" if "r \<in> set ?new" for r using that by auto
  have "length (filter (\<lambda>r. rj_label r = l) (delete_where (\<lambda>r. rj_label r = label) tbl @ ?new)) \<le> max_stored_rejections" for l
  proof (cases "l = label")
    case True
    have "length (filter (\<lambda>r. rj_label r = l) (delete_where (\<lambda>r. rj_label r = label) tbl)) = 0"
      using True by (simp add: delete_where_def filter_empty_conv)
    moreover have "length (filter (\<lambda>r. rj_label r = l) ?new) \<le> max_stored_rejections"
      by (rule order_trans [OF length_filter_le]) simp
    ultimately show ?thesis by simp
  next
    case l: False
    have "filter (\<lambda>r. rj_label r = l) ?new = []" unfolding filter_empty_conv using l new by blast
    moreover have "length (filter (\<lambda>r. rj_label r = l) (delete_where (\<lambda>r. rj_label r = label) tbl))
        \<le> length (filter (\<lambda>r. rj_label r = l) tbl)"
      unfolding delete_where_def by (induction tbl) auto
    moreover have "length (filter (\<lambda>r. rj_label r = l) tbl) \<le> max_stored_rejections"
      using assms(1) by (simp add: rejections_ok_def)
    ultimately show ?thesis by simp
  qed
  moreover have "list_all (\<lambda>r. case rj_mapping r of None \<Rightarrow> True | Some i \<Rightarrow> i \<in> im_id ` set ms) ?new"
    unfolding list_all_iff
  proof
    fix r assume "r \<in> set ?new"
    then have "rj_mapping r = mapping_id" using new by blast
    then show "case rj_mapping r of None \<Rightarrow> True | Some i \<Rightarrow> i \<in> im_id ` set ms" using assms(2) by (simp only:)
  qed
  moreover have "list_all (\<lambda>r. case rj_mapping r of None \<Rightarrow> True | Some i \<Rightarrow> i \<in> im_id ` set ms)
      (delete_where (\<lambda>r. rj_label r = label) tbl)"
    using assms(1) by (simp add: rejections_ok_def list_all_iff)
  ultimately show ?thesis unfolding e rejections_ok_def by (simp only: list_all_append simp_thms)
qed (use assms in \<open>simp add: store_import_rejections_def replace_import_rejections_def\<close>)

lemma run_saved_import_rejections:
  assumes "rejections_ok ms rejs" "im_id m \<in> im_id ` set ms"
  shows "rejections_ok ms (snd (snd (run_saved_import env opn now m db rejs)))"
  using assms store_import_rejections_ok [OF assms(1), of "Some (im_id m)"]
  by (auto simp: run_saved_import_def run_import_from_source_def Let_def split: option.split prod.split)

lemma handle_intake_run_rejections:
  assumes "rejections_ok ms rejs" "case iq_mapping_id q of None \<Rightarrow> True | Some i \<Rightarrow> i \<in> im_id ` set ms"
  shows "rejections_ok ms (snd (snd (handle_intake_run env actor now q commit db rejs)))"
  using assms store_import_rejections_ok [OF assms]
  by (auto simp: handle_intake_run_def Let_def split: option.split prod.split)

lemma rejections_ok_ids: "im_id ` set ms' = im_id ` set ms \<Longrightarrow> rejections_ok ms' rejs = rejections_ok ms rejs"
  unfolding rejections_ok_def by (simp only:)

lemma rejections_ok_mono:
  assumes "im_id ` set ms \<subseteq> im_id ` set ms'" "rejections_ok ms rejs"
  shows "rejections_ok ms' rejs"
proof -
  have "case rj_mapping r of None \<Rightarrow> True | Some i \<Rightarrow> i \<in> im_id ` set ms'" if "r \<in> set rejs" for r
    using assms that by (cases "rj_mapping r") (fastforce simp: rejections_ok_def list_all_iff)+
  then show ?thesis using assms(2) unfolding rejections_ok_def list_all_iff by blast
qed

text \<open>What a step that changes no plan leaves of a store.\<close>

definition same_store :: "import_store \<Rightarrow> import_store \<Rightarrow> bool" where
  "same_store st st' =
     (map plan_of (st_mappings st') = map plan_of (st_mappings st) \<and> st_next_id st' = st_next_id st)"

lemma same_store_refl [simp]: "same_store st st"
  and same_store_trans: "same_store a b \<Longrightarrow> same_store b c \<Longrightarrow> same_store a c"
  by (auto simp: same_store_def)

lemma same_store_ids: "same_store st st' \<Longrightarrow> im_id ` set (st_mappings st') = im_id ` set (st_mappings st)"
  unfolding same_store_def using same_plans_ids by blast

lemma run_one_same: "same_store st (run_one env opn now m st)"
  by (simp add: same_store_def run_one_def split: prod.split)

lemma run_due_import_same: "same_store st (run_due_import env opn since now m st)"
  by (simp add: run_due_import_def run_one_same split: sum.split option.split) (simp add: same_store_def)

lemma store_ok_same:
  assumes "store_ok st" "same_store st st'" "rejections_ok (st_mappings st) (st_rejections st')" "ownership_ok (st_own st')"
  shows "store_ok st'"
  using assms mappings_ok_plans [of st' st] rejections_ok_ids [OF same_store_ids [OF assms(2)]]
  by (simp add: store_ok_def same_store_def)

lemma run_one_ok:
  assumes "store_ok st" "im_id m \<in> im_id ` set (st_mappings st)"
  shows "store_ok (run_one env opn now m st)"
proof (rule store_ok_same [OF assms(1) run_one_same])
  show "rejections_ok (st_mappings st) (st_rejections (run_one env opn now m st))"
    using run_saved_import_rejections [of "st_mappings st" "st_rejections st" m env opn now "st_own st"] assms
    by (auto simp: run_one_def store_ok_def split: prod.split)
  show "ownership_ok (st_own (run_one env opn now m st))"
    using run_saved_import_ok [of "st_own st" env opn now m "st_rejections st"] assms(1)
    by (auto simp: run_one_def store_ok_def split: prod.split)
qed

lemma run_due_import_ok:
  assumes "store_ok st" "im_id m \<in> im_id ` set (st_mappings st)"
  shows "store_ok (run_due_import env opn since now m st)"
proof (cases "parse_schedule (im_schedule m)")
  case (Inl e)
  let ?st = "run_due_import env opn since now m st"
  have "st_rejections ?st = st_rejections st" "st_own ?st = st_own st" using Inl by (simp_all add: run_due_import_def)
  then show ?thesis
    using store_ok_same [OF assms(1) run_due_import_same, of env opn since now m] assms(1) by (simp add: store_ok_def)
next
  case (Inr cs)
  then show ?thesis using assms run_one_ok [OF assms] by (simp add: run_due_import_def split: option.split)
qed

lemma run_due_ok:
  assumes "store_ok st"
  shows "store_ok (run_due env opn listed since now st)"
proof -
  have "store_ok (fold (run_due_import env opn since now) ms s)"
    if "store_ok s" "im_id ` set ms \<subseteq> im_id ` set (st_mappings s)" for ms s
    using that
  proof (induction ms arbitrary: s)
    case (Cons m ms)
    have "store_ok (run_due_import env opn since now m s)" using Cons.prems by (intro run_due_import_ok) auto
    moreover have "im_id ` set ms \<subseteq> im_id ` set (st_mappings (run_due_import env opn since now m s))"
      using Cons.prems(2) same_store_ids [OF run_due_import_same] by simp
    ultimately show ?case using Cons.IH by simp
  qed simp
  from this [of st "list_scheduled_imports st"] assms show ?thesis
    by (auto simp: run_due_def list_scheduled_imports_def)
qed


lemma validated_schedule:
  "decode_mapping_body env b = Some p \<Longrightarrow> mp_schedule p = [] \<or> (\<exists>cs. parse_schedule (mp_schedule p) = Inr cs)"
  by (auto simp: decode_mapping_body_def validate_import_schedule_def Let_def split: if_splits option.splits sum.splits)

lemma intake_run_label_ok:
  "mappings_ok st \<Longrightarrow> case snd (intake_run_label up st) of None \<Rightarrow> True | Some i \<Rightarrow> i \<in> im_id ` set (st_mappings st)"
proof (cases "Option.bind (up_mapping_id up) (\<lambda>i. get_import_mapping i st)")
  case (Some m)
  assume "mappings_ok st"
  then have "m \<in> set (st_mappings st)" using Some get_import_mapping_iff by (auto simp: bind_eq_Some_conv)
  then show ?thesis by (simp add: intake_run_label_def Some)
qed (simp add: intake_run_label_def)

lemma delete_import_mapping_ok:
  assumes "delete_import_mapping i st = Inr st'" "store_ok st"
  shows "store_ok st'"
proof -
  have st': "st' = st\<lparr>st_mappings := delete_where (\<lambda>m. im_id m = i) (st_mappings st),
                   st_rejections := delete_where (\<lambda>r. rj_mapping r = Some i) (st_rejections st)\<rparr>"
    using assms(1) by (simp add: delete_import_mapping_def split: if_splits)
  have m: "mappings_ok st'"
    using assms(2) by (auto simp: store_ok_def mappings_ok_def st' mapping_ok_def list_all_iff distinct_delete_where)
  have "length (filter (\<lambda>r. rj_label r = l) (delete_where (\<lambda>r. rj_mapping r = Some i) tbl))
      \<le> length (filter (\<lambda>r. rj_label r = l) tbl)" for l and tbl :: "rejection list"
    unfolding delete_where_def by (induction tbl) auto
  then have "length (filter (\<lambda>r. rj_label r = l) (st_rejections st')) \<le> max_stored_rejections" for l
    using assms(2) by (simp add: store_ok_def rejections_ok_def st') (meson le_trans)
  moreover have "case rj_mapping r of None \<Rightarrow> True | Some j \<Rightarrow> j \<in> im_id ` set (st_mappings st')"
    if "r \<in> set (st_rejections st')" for r
  proof (cases "rj_mapping r")
    case (Some j)
    then have "j \<noteq> i" "j \<in> im_id ` set (st_mappings st)"
      using that assms(2) by (force simp: store_ok_def rejections_ok_def list_all_iff st')+
    then show ?thesis using Some by (auto simp: st')
  qed simp
  ultimately have "rejections_ok (st_mappings st') (st_rejections st')"
    unfolding rejections_ok_def list_all_iff by blast
  then show ?thesis using m assms(2) by (simp add: store_ok_def st')
qed

lemma handle_upload_ok:
  assumes "store_ok st"
  shows "store_ok (snd (handle_upload env sess up commit now st))"
proof (cases "resolve_field_map up st")
  case (Inr fm)
  let ?q = "\<lparr>iq_label = fst (intake_run_label up st), iq_mapping_id = snd (intake_run_label up st),
                   iq_source = up_source up, iq_field_map = fm, iq_filter_column = up_filter_column up,
                   iq_filter_value = up_filter_value up, iq_create_owners = up_create_owners up\<rparr>"
  let ?run = "handle_intake_run env (admin_username sess) now ?q commit (st_own st) (st_rejections st)"
  have e: "snd (handle_upload env sess up commit now st) = st\<lparr>st_own := fst (snd ?run), st_rejections := snd (snd ?run)\<rparr>"
    using Inr by (simp add: handle_upload_def split: prod.split)
  have r: "rejections_ok (st_mappings st) (snd (snd ?run))"
    by (rule handle_intake_run_rejections) (use assms intake_run_label_ok [of st up] in \<open>simp_all add: store_ok_def\<close>)
  have o: "ownership_ok (fst (snd ?run))" using assms by (intro handle_intake_run_ok) (simp add: store_ok_def)
  show ?thesis unfolding e
    by (rule store_ok_same [OF assms]) (use r o in \<open>simp_all add: same_store_def\<close>)
qed (simp add: handle_upload_def assms)

lemma handle_mapping_request_ok:
  assumes "store_ok st"
  shows "store_ok (snd (handle_mapping_request env opn sess q now st))"
proof (cases q)
  case (Mq_create b)
  have "store_ok st'" if "decode_mapping_body env b = Some p" "insert_import_mapping p u now st = Inr (m, st')" for p u m st'
    using insert_import_mapping_ok [OF that(2) _ validated_schedule [OF that(1)]] assms
      rejections_ok_mono [of "st_mappings st" "st_mappings st'" "st_rejections st"] image_mono [of "set (st_mappings st)" "set (st_mappings st')" im_id]
    by (simp add: store_ok_def)
  then show ?thesis
    using Mq_create assms by (auto simp: handle_mapping_request_def create_intake_mapping_def split: option.split sum.split)
next
  case (Mq_update i b)
  have "store_ok st'" if "decode_mapping_body env b = Some p" "update_import_mapping i p now st = Inr (m, st')" for p m st'
  proof -
    note u = update_import_mapping_ok [OF that(2) _ validated_schedule [OF that(1)]]
    have "im_id ` set (st_mappings st') = im_id ` set (st_mappings st)"
      using u(2) assms by (metis list.set_map store_ok_def)
    then show ?thesis
      using u assms rejections_ok_ids [of "st_mappings st'" "st_mappings st"] by (simp add: store_ok_def)
  qed
  then show ?thesis
    using Mq_update assms by (auto simp: handle_mapping_request_def update_intake_mapping_def split: option.split sum.split)
next
  case (Mq_delete i)
  then show ?thesis
    using delete_import_mapping_ok [OF _ assms] assms
    by (auto simp: handle_mapping_request_def delete_intake_mapping_def split: sum.split)
next
  case (Mq_run i)
  have "store_ok (run_one env opn now m st)" if "get_import_mapping i st = Some m" for m
    using that assms get_import_mapping_iff [of st i m] by (intro run_one_ok) (auto simp: store_ok_def)
  then show ?thesis
    using Mq_run assms by (auto simp: handle_mapping_request_def run_saved_import_now_def split: option.split)
next
  case (Mq_upload up commit)
  then show ?thesis by (simp add: handle_mapping_request_def assms handle_upload_ok)
qed (simp_all add: handle_mapping_request_def assms)

text \<open>C18: whatever requests, ticks of the scheduler and restarts happen, names and ids of saved imports stay
  unique, every stored schedule can be parsed, every enabled import reads a database, with a connection,
  a query and a schedule, every stored rejection of a saved import belongs to one there is, no label has
  more than a thousand of them, and the constraints of the ownership tables hold.\<close>

theorem saved_imports_stay_runnable:
  assumes "store_ok (sd_store sd)"
  shows "store_ok (sd_store (scheduler_run env events sd))"
  using assms
proof (induction events sd rule: scheduler_run.induct)
  case (2 env now opn e es sd)
  have "store_ok (sd_store (scheduler_step env opn now e sd))"
    using 2(2) by (cases e) (simp_all add: scheduler_step_def handle_mapping_request_ok run_due_ok)
  then show ?case using 2(1) by simp
qed simp


section \<open>What a tick does\<close>

text \<open>The schedule of a saved import comes round in a window.\<close>

definition fires_in :: "import_mapping \<Rightarrow> int \<Rightarrow> int \<Rightarrow> bool" where
  "fires_in m since now \<longleftrightarrow>
     (\<exists>cs u. parse_schedule (im_schedule m) = Inr cs \<and> since < u \<and> u \<le> now \<and> minute_ns dvd u \<and> fires_at cs u)"

abbreviation four_years :: int where "four_years \<equiv> 4 * 365 * 24 * hour_ns"

lemma cron_next_window:
  assumes "now - since < four_years"
  shows "(\<exists>u. cron_next cs since = Some u \<and> u \<le> now)
       \<longleftrightarrow> (\<exists>u. since < u \<and> u \<le> now \<and> minute_ns dvd u \<and> fires_at cs u)"
proof
  assume "\<exists>u. since < u \<and> u \<le> now \<and> minute_ns dvd u \<and> fires_at cs u"
  then obtain u where u: "since < u" "u \<le> now" "minute_ns dvd u" "fires_at cs u" by blast
  let ?P = "\<lambda>n. minute_ns dvd (since + 1 + int n) \<and> fires_at cs (since + 1 + int n)"
  have "?P (nat (u - since - 1))" using u by simp
  then have l: "?P (LEAST n. ?P n)" by (rule LeastI)
  have least: "\<not> ?P n" if "n < (LEAST n. ?P n)" for n by (rule not_less_Least [OF that])
  define v where "v = since + 1 + int (LEAST n. ?P n)"
  have "(LEAST n. ?P n) \<le> nat (u - since - 1)" by (rule Least_le) (use u in simp)
  then have "v \<le> u" using u(1) by (simp add: v_def)
  moreover have "cron_next cs since = Some v"
    unfolding cron_next_spec
  proof (intro conjI allI impI)
    show "since < v" by (simp add: v_def)
    show "minute_ns dvd v" "fires_at cs v" using l by (simp_all only: v_def)
    show "v < since + four_years" using \<open>v \<le> u\<close> u(2) assms by linarith
    show "\<not> fires_at cs w" if "since < w \<and> w < v \<and> minute_ns dvd w" for w
      using least [of "nat (w - since - 1)"] that by (simp add: v_def) linarith
  qed
  ultimately show "\<exists>u. cron_next cs since = Some u \<and> u \<le> now" using u(2) by auto
qed (auto simp: cron_next_spec)

text \<open>The rows the fold goes through are those of the listing, which a run may since have marked as run.\<close>

lemma last_run_record:
  "get_import_mapping i (st\<lparr>st_mappings := record_import_run j status now (st_mappings st)\<rparr>)
   = map_option (\<lambda>m. if i = j then m\<lparr>im_last_run_at := Some now, im_last_run_status := status\<rparr> else m)
       (get_import_mapping i st)"
  unfolding get_import_mapping_def record_import_run_def
  by (auto simp: row_of_update_where intro: option.map_cong dest: row_of_Some)

definition last_run_of :: "int \<Rightarrow> import_store \<Rightarrow> int option" where
  "last_run_of i st = Option.bind (get_import_mapping i st) im_last_run_at"

lemma last_run_of_due:
  assumes "now - since < four_years" "schedule_ok m" "im_schedule m \<noteq> []" "get_import_mapping i st \<noteq> None"
  shows "last_run_of i (run_due_import env opn since now m st)
       = (if i = im_id m \<and> fires_in m since now then Some now else last_run_of i st)"
proof -
  obtain cs where cs: "parse_schedule (im_schedule m) = Inr cs" using assms(2,3) by (auto simp: schedule_ok_def)
  obtain x where x: "get_import_mapping i st = Some x" using assms(4) by blast
  have f: "fires_in m since now \<longleftrightarrow> (\<exists>u. cron_next cs since = Some u \<and> u \<le> now)"
    using cron_next_window [OF assms(1)] cs by (simp add: fires_in_def)
  have same: "get_import_mapping i (st\<lparr>st_own := a, st_rejections := b, st_mappings := c\<rparr>)
      = get_import_mapping i (st\<lparr>st_mappings := c\<rparr>)" for a b c
    by (simp add: get_import_mapping_def)
  have one: "last_run_of i (run_one env opn now m st) = (if i = im_id m then Some now else last_run_of i st)"
  proof -
    obtain rep own rejs where run: "run_saved_import env opn now m (st_own st) (st_rejections st) = (rep, own, rejs)"
      by (metis prod_cases3)
    show ?thesis unfolding run_one_def run prod.case last_run_of_def same last_run_record x by simp
  qed
  show ?thesis
    using one f by (auto simp: run_due_import_def cs split: option.split)
qed

lemma get_import_mapping_same:
  "same_store st st' \<Longrightarrow> map_option plan_of (get_import_mapping i st') = map_option plan_of (get_import_mapping i st)"
proof -
  have "map_option plan_of (row_of im_id i ms) = row_of im_id i (map plan_of ms)" for ms
    unfolding row_of_def by (induction ms) auto
  then show "same_store st st' \<Longrightarrow> ?thesis" by (simp add: get_import_mapping_def same_store_def)
qed

lemma fires_in_plan [simp]: "fires_in (plan_of m) since now = fires_in m since now"
  by (simp add: fires_in_def)

lemma last_run_of_tick:
  assumes "store_ok st" "now - since < four_years" "get_import_mapping i st = Some m"
  shows "last_run_of i (run_due env opn listed since now st)
       = (if listed \<and> im_schedule_enabled m \<and> fires_in m since now then Some now else im_last_run_at m)"
proof -
  have fold: "last_run_of i (fold (run_due_import env opn since now) ms s)
      = (if \<exists>x \<in> set ms. im_id x = i \<and> fires_in x since now then Some now else last_run_of i s)"
    if "\<And>x. x \<in> set ms \<Longrightarrow> schedule_ok x \<and> im_schedule x \<noteq> []" "get_import_mapping i s \<noteq> None" for ms s
    using that
  proof (induction ms arbitrary: s)
    case (Cons x ms)
    have "get_import_mapping i (run_due_import env opn since now x s) \<noteq> None"
      using get_import_mapping_same [OF run_due_import_same, of i env opn since now x s] Cons.prems(2) by force
    then show ?case
      using Cons.IH [of "run_due_import env opn since now x s"] Cons.prems last_run_of_due [OF assms(2), of x i s env opn]
      by auto
  qed simp
  have "schedule_ok x \<and> im_schedule x \<noteq> []" if "x \<in> set (list_scheduled_imports st)" for x
    using that assms(1)
    by (auto simp: list_scheduled_imports_def store_ok_def mappings_ok_def list_all_iff mapping_ok_def schedulable_def)
  moreover have "(\<exists>x \<in> set (list_scheduled_imports st). im_id x = i \<and> fires_in x since now)
      \<longleftrightarrow> im_schedule_enabled m \<and> fires_in m since now"
    using assms(1,3) get_import_mapping_iff [of st i]
    by (auto simp: list_scheduled_imports_def store_ok_def) (metis option.inject)+
  ultimately show ?thesis
    using fold [of "list_scheduled_imports st" st] assms(3) by (simp add: run_due_def last_run_of_def)
qed

text \<open>Ticks one after the other, with the databases that can be reached and whether the listing succeeds.\<close>

definition ticks_of :: "(int \<times> opener \<times> bool) list \<Rightarrow> (int \<times> opener \<times> schedule_event) list" where
  "ticks_of ts = map (\<lambda>(now, opn, listed). (now, opn, Ev_tick listed)) ts"

text \<open>The windows of the ticks at which the listing succeeds.\<close>

fun windows :: "int \<Rightarrow> (int \<times> opener \<times> bool) list \<Rightarrow> (int \<times> int) list" where
  "windows since [] = []"
| "windows since ((now, opn, listed) # ts) = (if listed then [(since, now)] else []) @ windows now ts"

fun ticks_close :: "int \<Rightarrow> (int \<times> opener \<times> bool) list \<Rightarrow> bool" where
  "ticks_close since [] = True"
| "ticks_close since ((now, opn, listed) # ts) = (now - since < four_years \<and> ticks_close now ts)"

lemma scheduler_ticks:
  assumes "store_ok (sd_store sd)" "get_import_mapping i (sd_store sd) = Some m" "ticks_close (sd_since sd) ts"
  shows "last_run_of i (sd_store (scheduler_run env (ticks_of ts) sd))
       = (case filter (\<lambda>(s, t). im_schedule_enabled m \<and> fires_in m s t) (windows (sd_since sd) ts) of
            [] \<Rightarrow> im_last_run_at m
          | ws \<Rightarrow> Some (snd (last ws)))"
  using assms
proof (induction ts arbitrary: sd m)
  case Nil
  then show ?case by (simp add: ticks_of_def last_run_of_def)
next
  case (Cons x ts)
  obtain now opn listed where x: "x = (now, opn, listed)" by (rule prod_cases3)
  let ?st = "sd_store sd"
  let ?st' = "run_due env opn listed (sd_since sd) now ?st"
  have same: "same_store ?st ?st'"
  proof -
    have "same_store s (fold (run_due_import env opn (sd_since sd) now) ms s)" for ms s
      by (induction ms arbitrary: s) (auto intro: same_store_trans [OF run_due_import_same])
    then show ?thesis by (simp add: run_due_def)
  qed
  obtain m' where m': "get_import_mapping i ?st' = Some m'" "plan_of m' = plan_of m"
    using get_import_mapping_same [OF same, of i] Cons.prems(2) by auto
  then have e: "im_schedule_enabled m' = im_schedule_enabled m" "fires_in m' s t = fires_in m s t" for s t
    using plan_of_fields(6) fires_in_plan by metis+
  have "im_last_run_at m' = last_run_of i ?st'" by (simp add: last_run_of_def m'(1))
  also have "\<dots> = (if listed \<and> im_schedule_enabled m \<and> fires_in m (sd_since sd) now then Some now else im_last_run_at m)"
    using Cons.prems by (intro last_run_of_tick) (simp_all add: x)
  finally have l: "im_last_run_at m' = (if listed \<and> im_schedule_enabled m \<and> fires_in m (sd_since sd) now
      then Some now else im_last_run_at m)" .
  have "last_run_of i (sd_store (scheduler_run env (ticks_of ts) \<lparr>sd_since = now, sd_store = ?st'\<rparr>))
      = (case filter (\<lambda>(s, t). im_schedule_enabled m \<and> fires_in m s t) (windows now ts) of
            [] \<Rightarrow> im_last_run_at m' | ws \<Rightarrow> Some (snd (last ws)))"
    using Cons.IH [of "\<lparr>sd_since = now, sd_store = ?st'\<rparr>" m'] Cons.prems run_due_ok m'(1) by (simp add: x e)
  then show ?case
    by (simp add: x ticks_of_def scheduler_step_def l split: list.split)
qed

text \<open>C19: a saved import that stays enabled is run at the tick that ends a window in which its schedule comes
  round, and at no other: its last run after any sequence of ticks is the last tick of such a window,
  however many occurrences the window holds, and the windows of consecutive ticks follow on one another.
  A window whose listing of the imports fails is lost: what came round in it is not made up for later.\<close>

theorem scheduled_import_runs_when_due:
  assumes "store_ok (sd_store sd)" "get_import_mapping i (sd_store sd) = Some m" "ticks_close (sd_since sd) ts"
  shows "last_run_of i (sd_store (scheduler_run env (ticks_of ts) sd))
       = (case filter (\<lambda>(s, t). im_schedule_enabled m \<and> fires_in m s t) (windows (sd_since sd) ts) of
            [] \<Rightarrow> im_last_run_at m
          | ws \<Rightarrow> Some (snd (last ws)))"
  using assms by (rule scheduler_ticks)

text \<open>A store with one scheduled import, to run things on.\<close>

definition daily_body :: mapping_body where
  "daily_body =
     \<lparr>mb_name = ''cmdb'', mb_source_kind = kind_database, mb_delimiter = [], mb_field_map = Some (sample_map []),
      mb_connection = ''prod'', mb_query = ''select'', mb_filter_column = [], mb_filter_value = [],
      mb_create_owners = None, mb_schedule = ''0 2 * * *'', mb_schedule_enabled = True\<rparr>"

definition empty_store :: import_store where
  "empty_store = \<lparr>st_mappings = [], st_next_id = 1, st_own = empty_ownership, st_rejections = []\<rparr>"

definition unreachable :: opener where "unreachable c q = None"

definition daily_store :: import_store where
  "daily_store = snd (handle_mapping_request sample_env unreachable None (Mq_create daily_body) 0 empty_store)"

lemma empty_store_ok [simp]: "store_ok empty_store"
  by (simp add: empty_store_def store_ok_def mappings_ok_def rejections_ok_def)

lemma daily_store_ok: "store_ok daily_store"
  unfolding daily_store_def by (rule handle_mapping_request_ok) simp

theorem saved_imports_stay_runnable_witness:
  "store_ok (sd_store (scheduler_run sample_env [(1, unreachable, Ev_request None (Mq_create daily_body)),
     (3 * hour_ns, unreachable, Ev_tick True)] \<lparr>sd_since = 0, sd_store = empty_store\<rparr>))"
  by (rule saved_imports_stay_runnable) simp

lemma daily_store_row: "get_import_mapping 1 daily_store \<noteq> None"
  by code_simp

definition two_ticks :: "(int \<times> opener \<times> bool) list" where
  "two_ticks = [(3 * hour_ns, unreachable, True), (27 * hour_ns, unreachable, False)]"

theorem scheduled_import_runs_when_due_witness:
  "\<exists>m. get_import_mapping 1 daily_store = Some m
     \<and> last_run_of 1 (sd_store (scheduler_run sample_env (ticks_of two_ticks) \<lparr>sd_since = hour_ns, sd_store = daily_store\<rparr>))
       = (case filter (\<lambda>(s, t). im_schedule_enabled m \<and> fires_in m s t) (windows hour_ns two_ticks) of
            [] \<Rightarrow> im_last_run_at m
          | ws \<Rightarrow> Some (snd (last ws)))"
proof -
  obtain m where m: "get_import_mapping 1 daily_store = Some m" using daily_store_row by blast
  have "ticks_close hour_ns two_ticks" by (simp add: two_ticks_def duration_defs)
  then show ?thesis
    using scheduled_import_runs_when_due [of "\<lparr>sd_since = hour_ns, sd_store = daily_store\<rparr>" 1 m two_ticks sample_env]
      daily_store_ok m by simp
qed

text \<open>The run at two o'clock takes place an hour late, at three; the one of the next day is lost.\<close>

lemma lost_window:
  "last_run_of 1 (sd_store (scheduler_run sample_env (ticks_of two_ticks) \<lparr>sd_since = hour_ns, sd_store = daily_store\<rparr>))
   = Some (3 * hour_ns)"
  by code_simp

text \<open>
  An import of a file that a request says reads a database passes the validation, which looks at the
  kind in the request, and is refused by the constraint, which looks at the row: an internal error.
\<close>

lemma update_trusts_source_kind:
  assumes "get_import_mapping i st = Some m" "im_source_kind m = kind_csv"
    and "decode_mapping_body env b = Some p" "mp_schedule_enabled p"
  shows "update_intake_mapping env i b now st = (500, st)"
proof -
  have "mp_name p \<noteq> []"
    using assms(3) by (auto simp: decode_mapping_body_def Let_def split: if_splits option.splits)
  moreover have "\<not> schedulable (updated_mapping p now m)"
    using assms(2,4) by (simp add: schedulable_def updated_mapping_def)
  ultimately show ?thesis using assms by (simp add: update_intake_mapping_def update_import_mapping_def)
qed

text \<open>A run replaces the rejections under its own name only: those under a name the import had before stay.\<close>

lemma other_labels_stay:
  assumes "im_name m \<noteq> l"
  shows "filter (\<lambda>r. rj_label r = l) (st_rejections (run_one env opn now m st))
       = filter (\<lambda>r. rj_label r = l) (st_rejections st)"
proof -
  have store: "filter (\<lambda>r. rj_label r = l) (store_import_rejections (im_name m) x rep tbl)
      = filter (\<lambda>r. rj_label r = l) tbl" for x rep tbl
  proof (cases "im_name m = []")
    case False
    have "filter (\<lambda>r. rj_label r = l) (map (\<lambda>r. r\<lparr>rj_label := im_name m, rj_mapping := x\<rparr>) rs) = []" for rs
      using assms by (induction rs) auto
    moreover have "filter (\<lambda>r. rj_label r = l) (delete_where (\<lambda>r. rj_label r = im_name m) tbl)
        = filter (\<lambda>r. rj_label r = l) tbl"
      using assms unfolding delete_where_def filter_filter by (intro filter_cong) auto
    ultimately show ?thesis
      using False by (simp add: store_import_rejections_def replace_import_rejections_def Let_def)
  qed (simp add: store_import_rejections_def replace_import_rejections_def)
  obtain rep own rejs where run: "run_saved_import env opn now m (st_own st) (st_rejections st) = (rep, own, rejs)"
    by (metis prod_cases3)
  have "rejs = st_rejections st \<or> (\<exists>x r. rejs = store_import_rejections (im_name m) x r (st_rejections st))"
    using run by (auto simp: run_saved_import_def run_import_from_source_def Let_def split: if_splits option.splits prod.splits)
  then show ?thesis using store by (auto simp: run_one_def run)
qed

end
