(* ===== verification/Kitchen_Planner.thy ===== *)
theory Kitchen_Planner
  imports Go_Path Go_Fmt Status Kitchen_Queue
begin

text \<open>
  Which Test Kitchen instances of a cookbook repository run, and on which image: the match of a
  platform against the platform map (\<open>internal/config/platform_match.go\<close>), the plan of a repository
  (\<open>internal/gitkitchen/planner.go\<close>), the repositories a batch selects and its estimate
  (\<open>internal/batch/resolver.go\<close>, \<open>planner.go\<close>), and the two requests that queue instances of one
  repository (\<open>internal/webapi/handle_git_kitchen.go\<close>). Analysis results, exclusions and earlier
  results are what the store returns for a repository, or \<open>None\<close> when it fails.
\<close>

section \<open>The platform map\<close>

record platform_entry =
  pe_kitchen_name :: string
  pe_image :: string
  pe_is_pattern :: bool
  pe_skip :: bool

definition pattern_matches :: "string \<Rightarrow> string \<Rightarrow> bool" where
  "pattern_matches pattern name = (path_match pattern name = Some True)"

definition match_platform :: "string \<Rightarrow> platform_entry list \<Rightarrow> platform_entry option" where
  "match_platform name entries =
     (if name = [] \<or> entries = [] then None
      else case find (\<lambda>e. \<not> pe_is_pattern e \<and> pe_kitchen_name e = name) entries of
             Some e \<Rightarrow> Some e
           | None \<Rightarrow> find (\<lambda>e. pe_is_pattern e \<and> pattern_matches (pe_kitchen_name e) name) entries)"

section \<open>The plan of a repository\<close>

record kitchen_suite =
  su_name :: string
  su_includes :: "string list"
  su_excludes :: "string list"

text \<open>The names of the platforms and the suites are \<open>None\<close> when the stored document does not decode.\<close>

record analysis_result =
  ar_repo_name :: string
  ar_repo_url :: string
  ar_commit_sha :: string
  ar_platforms :: "string list option"
  ar_suites :: "kitchen_suite list option"

record instance_exclusion =
  ex_suite :: string
  ex_platform :: string
  ex_reason :: string

datatype instance_status = Mapped | Unmapped | Skipped_platform | Excluded | User_excluded

record planned_instance =
  pi_name :: string
  pi_suite :: string
  pi_platform :: string
  pi_status :: instance_status
  pi_reason :: string
  pi_image :: string

record plan_result =
  pl_repo_name :: string
  pl_repo_url :: string
  pl_commit_sha :: string
  pl_instances :: "planned_instance list"
  pl_total :: nat
  pl_mapped :: nat
  pl_unmapped :: nat
  pl_skipped :: nat
  pl_excluded :: nat
  pl_user_excluded :: nat

text \<open>\<open>formatInstanceName\<close>: dots are dropped and underscores become hyphens.\<close>

definition format_part :: "string \<Rightarrow> string" where
  "format_part s = map (\<lambda>c. if c = CHR ''_'' then CHR ''-'' else c) (filter (\<lambda>c. c \<noteq> CHR ''.'') s)"

definition format_instance_name :: "string \<Rightarrow> string \<Rightarrow> string" where
  "format_instance_name suite platform = format_part suite @ ''-'' @ format_part platform"

definition exclusion_key :: "string \<Rightarrow> string \<Rightarrow> string" where
  "exclusion_key suite platform = suite @ [CHR 0x00] @ platform"

definition exclusion_map :: "instance_exclusion list \<Rightarrow> (string \<rightharpoonup> string)" where
  "exclusion_map exs = map_of (rev (map (\<lambda>x. (exclusion_key (ex_suite x) (ex_platform x), ex_reason x)) exs))"

definition is_excluded :: "string \<Rightarrow> kitchen_suite \<Rightarrow> bool" where
  "is_excluded name s = ((su_includes s \<noteq> [] \<and> name \<notin> set (su_includes s)) \<or> name \<in> set (su_excludes s))"

definition status_reason :: "kitchen_suite \<Rightarrow> string \<Rightarrow> instance_status \<Rightarrow> string" where
  "status_reason s plat st =
     (case st of
        Excluded \<Rightarrow> ''platform '' @ quoted plat @ '' excluded by suite '' @ quoted (su_name s)
      | Unmapped \<Rightarrow> ''no mapping for platform '' @ quoted plat
      | Skipped_platform \<Rightarrow> ''platform '' @ quoted plat @ '' mapping has skip=true''
      | Mapped \<Rightarrow> [] | User_excluded \<Rightarrow> [])"

definition plain_instance :: "kitchen_suite \<Rightarrow> string \<Rightarrow> instance_status \<Rightarrow> planned_instance" where
  "plain_instance s plat st =
     \<lparr>pi_name = format_instance_name (su_name s) plat, pi_suite = su_name s, pi_platform = plat,
      pi_status = st, pi_reason = status_reason s plat st, pi_image = []\<rparr>"

text \<open>One turn of the inner loop: the instance and the counters.\<close>

definition plan_step ::
  "platform_entry list \<Rightarrow> (string \<rightharpoonup> string) \<Rightarrow> kitchen_suite \<Rightarrow> string \<Rightarrow> plan_result \<Rightarrow> plan_result" where
  "plan_step entries excl s plat res =
     (if is_excluded plat s
      then res\<lparr>pl_instances := pl_instances res @ [plain_instance s plat Excluded], pl_excluded := pl_excluded res + 1\<rparr>
      else case match_platform plat entries of
             None \<Rightarrow> res\<lparr>pl_unmapped := pl_unmapped res + 1,
                         pl_instances := pl_instances res @ [plain_instance s plat Unmapped]\<rparr>
           | Some e \<Rightarrow>
               if pe_skip e
               then res\<lparr>pl_skipped := pl_skipped res + 1,
                        pl_instances := pl_instances res @ [plain_instance s plat Skipped_platform]\<rparr>
               else case excl (exclusion_key (su_name s) plat) of
                      Some reason \<Rightarrow>
                        res\<lparr>pl_user_excluded := pl_user_excluded res + 1,
                            pl_instances := pl_instances res @ [(plain_instance s plat User_excluded)\<lparr>pi_reason := reason\<rparr>]\<rparr>
                    | None \<Rightarrow>
                        res\<lparr>pl_mapped := pl_mapped res + 1,
                            pl_instances := pl_instances res @ [(plain_instance s plat Mapped)\<lparr>pi_image := pe_image e\<rparr>]\<rparr>)"

fun plan_platforms ::
  "platform_entry list \<Rightarrow> (string \<rightharpoonup> string) \<Rightarrow> kitchen_suite \<Rightarrow> string list \<Rightarrow> plan_result \<Rightarrow> plan_result" where
  "plan_platforms entries excl s [] res = res"
| "plan_platforms entries excl s (p # ps) res = plan_platforms entries excl s ps (plan_step entries excl s p res)"

fun plan_suites ::
  "platform_entry list \<Rightarrow> (string \<rightharpoonup> string) \<Rightarrow> string list \<Rightarrow> kitchen_suite list \<Rightarrow> plan_result \<Rightarrow> plan_result" where
  "plan_suites entries excl ps [] res = res"
| "plan_suites entries excl ps (s # ss) res = plan_suites entries excl ps ss (plan_platforms entries excl s ps res)"

definition empty_plan :: "analysis_result \<Rightarrow> plan_result" where
  "empty_plan ar =
     \<lparr>pl_repo_name = ar_repo_name ar, pl_repo_url = ar_repo_url ar, pl_commit_sha = ar_commit_sha ar,
      pl_instances = [], pl_total = 0, pl_mapped = 0, pl_unmapped = 0, pl_skipped = 0, pl_excluded = 0,
      pl_user_excluded = 0\<rparr>"

definition plan_repo ::
  "analysis_result \<Rightarrow> platform_entry list \<Rightarrow> instance_exclusion list \<Rightarrow> plan_result option" where
  "plan_repo ar entries exs =
     (case ar_platforms ar of
        None \<Rightarrow> None
      | Some platforms \<Rightarrow>
          (case ar_suites ar of
             None \<Rightarrow> None
           | Some suites \<Rightarrow>
               if suites = [] \<or> platforms = [] then Some (empty_plan ar)
               else let res = plan_suites entries (exclusion_map exs) platforms suites (empty_plan ar)
                    in Some (res\<lparr>pl_total := length (pl_instances res)\<rparr>)))"

section \<open>The repositories of a batch\<close>

record git_repo =
  gr_name :: string
  gr_url :: string
  gr_has_test_suite :: bool
  gr_kitchen_excluded :: bool

record batch_filters =
  bf_cookbook_names :: "string list"
  bf_platforms :: "string list"
  bf_exclude_cookbooks :: "string list"
  bf_has_test_suite :: "bool option"
  bf_previous_status :: string
  bf_target_chef_versions :: "string list"
  bf_include_excluded :: bool

text \<open>The platforms of a resolved cookbook are listed in no particular order.\<close>

record resolved_cookbook =
  rk_name :: string
  rk_url :: string
  rk_platforms :: "string set"
  rk_suites :: "string set"
  rk_estimated_vms :: nat
  rk_status :: string
  rk_total_instances :: nat
  rk_unmapped :: nat
  rk_skipped :: nat
  rk_excluded :: nat
  rk_user_excluded :: nat

record batch_estimate =
  be_total_cookbooks :: nat
  be_total_vms :: nat
  be_skipped_cookbooks :: nat
  be_per_platform :: "string \<Rightarrow> nat"
  be_cookbooks :: "resolved_cookbook list"

definition match_glob :: "string \<Rightarrow> string \<Rightarrow> bool" where
  "match_glob pattern name =
     (if pattern = [] then False else if pattern = ''*'' then True else path_match pattern name = Some True)"

definition match_any_glob :: "string list \<Rightarrow> string \<Rightarrow> bool" where
  "match_any_glob patterns name = list_ex (\<lambda>p. match_glob p name) patterns"

definition status_untested :: string where "status_untested = ''untested''"

text \<open>\<open>GetLatestTestKitchenStatus\<close> from the outcomes and the time-out flags of a repository's results.\<close>

definition latest_tk_status :: "(bool option \<times> bool) list \<Rightarrow> string" where
  "latest_tk_status results =
     (let passed = length (filter (\<lambda>(p, t). p = Some True) results);
          failed = length (filter (\<lambda>(p, t). p \<noteq> Some True \<and> (p = Some False \<or> t)) results)
      in if passed > 0 \<or> failed > 0 then compute_tk_status (int passed) (int failed) else status_untested)"

text \<open>\<open>GetKitchenAnalysisPlatforms\<close>: no analysis is no platforms, and not an error.\<close>

definition analysis_platforms :: "analysis_result option option \<Rightarrow> string list option" where
  "analysis_platforms found =
     (case found of None \<Rightarrow> None | Some None \<Rightarrow> Some [] | Some (Some ar) \<Rightarrow> ar_platforms ar)"

definition resolve_repos ::
  "(string \<Rightarrow> analysis_result option option) \<Rightarrow> (string \<Rightarrow> (bool option \<times> bool) list option) \<Rightarrow> batch_filters
   \<Rightarrow> git_repo list \<Rightarrow> git_repo list" where
  "resolve_repos analysis results f repos =
     (let r1 = (if bf_include_excluded f then repos else filter (\<lambda>r. \<not> gr_kitchen_excluded r) repos);
          r2 = (case bf_has_test_suite f of None \<Rightarrow> r1 | Some want \<Rightarrow> filter (\<lambda>r. gr_has_test_suite r = want) r1);
          r3 = (if bf_cookbook_names f = [] then r2 else filter (\<lambda>r. match_any_glob (bf_cookbook_names f) (gr_name r)) r2);
          r4 = (if bf_exclude_cookbooks f = [] then r3
                else filter (\<lambda>r. \<not> match_any_glob (bf_exclude_cookbooks f) (gr_name r)) r3);
          r5 = (if bf_platforms f = [] then r4
                else filter (\<lambda>r. case analysis_platforms (analysis (gr_name r)) of
                                   None \<Rightarrow> False | Some ps \<Rightarrow> list_ex (match_any_glob (bf_platforms f)) ps) r4);
          r6 = (if bf_previous_status f = [] then r5
                else filter (\<lambda>r. case results (gr_name r) of
                                   None \<Rightarrow> False | Some rs \<Rightarrow> latest_tk_status rs = bf_previous_status f) r5)
      in r6)"

definition capped :: "int option \<Rightarrow> 'a list \<Rightarrow> 'a list" where
  "capped max_count xs =
     (case max_count of Some n \<Rightarrow> if 0 < n \<and> n < int (length xs) then take (nat n) xs else xs | None \<Rightarrow> xs)"

definition resolved :: "(string \<Rightarrow> analysis_result option option) \<Rightarrow> git_repo \<Rightarrow> resolved_cookbook" where
  "resolved analysis r =
     (let ps = (case analysis_platforms (analysis (gr_name r)) of None \<Rightarrow> [] | Some ps \<Rightarrow> ps)
      in \<lparr>rk_name = gr_name r, rk_url = gr_url r, rk_platforms = set ps, rk_suites = {},
          rk_estimated_vms = length ps, rk_status = [], rk_total_instances = 0, rk_unmapped = 0, rk_skipped = 0,
          rk_excluded = 0, rk_user_excluded = 0\<rparr>)"

text \<open>\<open>ResolveBatch\<close> with both providers; \<open>None\<close> when the repositories cannot be listed.\<close>

definition resolve_batch ::
  "(string \<Rightarrow> analysis_result option option) \<Rightarrow> (string \<Rightarrow> (bool option \<times> bool) list option)
   \<Rightarrow> git_repo list option \<Rightarrow> batch_filters \<Rightarrow> int option \<Rightarrow> resolved_cookbook list option" where
  "resolve_batch analysis results repos f max_count =
     map_option (\<lambda>rs. map (resolved analysis) (capped max_count (resolve_repos analysis results f rs))) repos"

section \<open>The estimate\<close>

definition planned :: string where "planned = ''planned''"
definition no_analysis :: string where "no_analysis = ''no_analysis''"
definition exclusion_error :: string where "exclusion_error = ''exclusion_error''"
definition plan_error :: string where "plan_error = ''plan_error''"

lemma planning_statuses_distinct [simp]:
  "no_analysis \<noteq> planned" "exclusion_error \<noteq> planned" "plan_error \<noteq> planned"
  by (simp_all add: planned_def no_analysis_def exclusion_error_def plan_error_def)

definition plan_cookbook ::
  "platform_entry list \<Rightarrow> (string \<Rightarrow> analysis_result option option) \<Rightarrow> (string \<Rightarrow> instance_exclusion list option)
   \<Rightarrow> resolved_cookbook \<Rightarrow> (string \<Rightarrow> nat) \<Rightarrow> resolved_cookbook \<times> (string \<Rightarrow> nat)" where
  "plan_cookbook entries analysis exclusions cb per_platform =
     (case Option.bind (analysis (rk_name cb)) id of
        None \<Rightarrow> (cb\<lparr>rk_status := no_analysis\<rparr>, per_platform)
      | Some ar \<Rightarrow>
          (case exclusions (rk_name cb) of
             None \<Rightarrow> (cb\<lparr>rk_status := exclusion_error\<rparr>, per_platform)
           | Some exs \<Rightarrow>
               (case plan_repo ar entries exs of
                  None \<Rightarrow> (cb\<lparr>rk_status := plan_error\<rparr>, per_platform)
                | Some plan \<Rightarrow>
                    (cb\<lparr>rk_status := planned, rk_total_instances := pl_total plan, rk_estimated_vms := pl_mapped plan,
                        rk_unmapped := pl_unmapped plan, rk_skipped := pl_skipped plan, rk_excluded := pl_excluded plan,
                        rk_user_excluded := pl_user_excluded plan,
                        rk_platforms := pi_platform ` set (pl_instances plan),
                        rk_suites := pi_suite ` set (pl_instances plan)\<rparr>,
                     fold (\<lambda>i pp. if pi_status i = Mapped then pp(pi_platform i := pp (pi_platform i) + 1) else pp)
                       (pl_instances plan) per_platform))))"

fun plan_loop ::
  "platform_entry list \<Rightarrow> (string \<Rightarrow> analysis_result option option) \<Rightarrow> (string \<Rightarrow> instance_exclusion list option)
   \<Rightarrow> resolved_cookbook list \<Rightarrow> (string \<Rightarrow> nat) \<Rightarrow> resolved_cookbook list \<times> (string \<Rightarrow> nat)" where
  "plan_loop entries analysis exclusions [] pp = ([], pp)"
| "plan_loop entries analysis exclusions (cb # cbs) pp =
     (case plan_cookbook entries analysis exclusions cb pp of
        (cb', pp') \<Rightarrow> (case plan_loop entries analysis exclusions cbs pp' of (cbs', pp'') \<Rightarrow> (cb' # cbs', pp'')))"

definition plan_batch ::
  "platform_entry list \<Rightarrow> (string \<Rightarrow> analysis_result option option) \<Rightarrow> (string \<Rightarrow> instance_exclusion list option)
   \<Rightarrow> resolved_cookbook list \<Rightarrow> batch_estimate" where
  "plan_batch entries analysis exclusions cookbooks =
     (case plan_loop entries analysis exclusions cookbooks (\<lambda>p. 0) of
        (cbs, pp) \<Rightarrow>
          \<lparr>be_total_cookbooks = length cookbooks, be_total_vms = sum_list (map rk_estimated_vms cbs),
           be_skipped_cookbooks = length (filter (\<lambda>cb. rk_status cb \<noteq> planned) cbs),
           be_per_platform = pp, be_cookbooks = cbs\<rparr>)"

section \<open>Queueing one repository\<close>

definition git_run :: "plan_result \<Rightarrow> planned_instance \<Rightarrow> string \<Rightarrow> string \<Rightarrow> int \<Rightarrow> run_params" where
  "git_run plan inst target batch priority =
     \<lparr>rp_run_type = ''git'', rp_git_repo_name = pl_repo_name plan, rp_git_repo_url = pl_repo_url plan,
      rp_suite_name = pi_suite inst, rp_platform_name = pi_platform inst, rp_instance_name = pi_name inst,
      rp_target_chef_version = target, rp_head_commit_sha = pl_commit_sha plan, rp_node_name = [],
      rp_organisation_name = [], rp_cookbook_source = [], rp_batch_id = batch, rp_priority = priority,
      rp_retry_of = []\<rparr>"

definition mapped_instances :: "plan_result \<Rightarrow> planned_instance list" where
  "mapped_instances plan = filter (\<lambda>i. pi_status i = Mapped) (pl_instances plan)"

text \<open>What both requests check before they have a plan; the number is the status code of the refusal.\<close>

definition plan_for_request ::
  "bool \<Rightarrow> platform_entry list \<Rightarrow> (string \<Rightarrow> analysis_result option option) \<Rightarrow> (string \<Rightarrow> instance_exclusion list option)
   \<Rightarrow> string \<Rightarrow> nat + plan_result" where
  "plan_for_request enabled entries analysis exclusions repo =
     (if \<not> enabled then Inl 409
      else case analysis repo of
             None \<Rightarrow> Inl 500
           | Some None \<Rightarrow> Inl 404
           | Some (Some ar) \<Rightarrow>
               (case exclusions repo of
                  None \<Rightarrow> Inl 500
                | Some exs \<Rightarrow> (case plan_repo ar entries exs of None \<Rightarrow> Inl 500 | Some plan \<Rightarrow> Inr plan)))"

definition handle_git_kitchen_run ::
  "bool \<Rightarrow> bool \<Rightarrow> platform_entry list \<Rightarrow> (string \<Rightarrow> analysis_result option option) \<Rightarrow> (string \<Rightarrow> instance_exclusion list option)
   \<Rightarrow> string \<Rightarrow> string \<Rightarrow> string \<Rightarrow> string \<Rightarrow> int \<Rightarrow> queue_table \<Rightarrow> nat \<times> queue_table" where
  "handle_git_kitchen_run queue enabled entries analysis exclusions repo instance_name target new_id now tbl =
     (if \<not> queue then (503, tbl)
      else if repo = [] \<or> instance_name = [] \<or> target = [] then (400, tbl)
      else case plan_for_request enabled entries analysis exclusions repo of
             Inl code \<Rightarrow> (code, tbl)
           | Inr plan \<Rightarrow>
               (case find (\<lambda>i. pi_name i = instance_name) (pl_instances plan) of
                  None \<Rightarrow> (404, tbl)
                | Some inst \<Rightarrow>
                    if pi_status inst \<noteq> Mapped then (400, tbl)
                    else case enqueue_kitchen_run new_id now (git_run plan inst target [] 20) tbl of
                           Inl e \<Rightarrow> (if e = Already_exists then 409 else 500, tbl)
                         | Inr (row, tbl') \<Rightarrow> (202, tbl')))"

text \<open>The ids of the new rows come from the database; \<open>id_of n\<close> is that of the n-th attempt.\<close>

fun enqueue_all ::
  "(nat \<Rightarrow> string) \<Rightarrow> int \<Rightarrow> nat \<Rightarrow> run_params list \<Rightarrow> queue_table \<Rightarrow> nat \<Rightarrow> nat \<Rightarrow> queue_table \<times> nat \<times> nat" where
  "enqueue_all id_of now n [] tbl queued skipped = (tbl, queued, skipped)"
| "enqueue_all id_of now n (p # ps) tbl queued skipped =
     (case enqueue_kitchen_run (id_of n) now p tbl of
        Inl e \<Rightarrow> enqueue_all id_of now (n + 1) ps tbl queued (if e = Already_exists then skipped + 1 else skipped)
      | Inr (row, tbl') \<Rightarrow> enqueue_all id_of now (n + 1) ps tbl' (queued + 1) skipped)"

definition handle_git_kitchen_run_all ::
  "bool \<Rightarrow> bool \<Rightarrow> platform_entry list \<Rightarrow> (string \<Rightarrow> analysis_result option option) \<Rightarrow> (string \<Rightarrow> instance_exclusion list option)
   \<Rightarrow> string \<Rightarrow> string \<Rightarrow> (nat \<Rightarrow> string) \<Rightarrow> int \<Rightarrow> queue_table \<Rightarrow> nat \<times> nat \<times> nat \<times> queue_table" where
  "handle_git_kitchen_run_all queue enabled entries analysis exclusions repo target id_of now tbl =
     (if \<not> queue then (503, 0, 0, tbl)
      else if repo = [] \<or> target = [] then (400, 0, 0, tbl)
      else case plan_for_request enabled entries analysis exclusions repo of
             Inl code \<Rightarrow> (code, 0, 0, tbl)
           | Inr plan \<Rightarrow>
               if mapped_instances plan = [] then (400, 0, 0, tbl)
               else case enqueue_all id_of now 0 (map (\<lambda>i. git_run plan i target [] 10) (mapped_instances plan)) tbl 0 0 of
                      (tbl', queued, skipped) \<Rightarrow> (202, queued, skipped, tbl'))"

section \<open>Plans\<close>

text \<open>The instance the loop makes of a suite and a platform.\<close>

definition instance_for :: "platform_entry list \<Rightarrow> (string \<rightharpoonup> string) \<Rightarrow> kitchen_suite \<Rightarrow> string \<Rightarrow> planned_instance" where
  "instance_for entries excl s plat = last (pl_instances (plan_step entries excl s plat
     \<lparr>pl_repo_name = [], pl_repo_url = [], pl_commit_sha = [], pl_instances = [], pl_total = 0, pl_mapped = 0,
      pl_unmapped = 0, pl_skipped = 0, pl_excluded = 0, pl_user_excluded = 0\<rparr>))"

definition with_state :: "instance_status \<Rightarrow> planned_instance list \<Rightarrow> nat" where
  "with_state st is = length (filter (\<lambda>i. pi_status i = st) is)"

definition counted :: "plan_result \<Rightarrow> bool" where
  "counted res =
     (pl_mapped res = with_state Mapped (pl_instances res) \<and> pl_unmapped res = with_state Unmapped (pl_instances res)
      \<and> pl_skipped res = with_state Skipped_platform (pl_instances res)
      \<and> pl_excluded res = with_state Excluded (pl_instances res)
      \<and> pl_user_excluded res = with_state User_excluded (pl_instances res))"

lemma plan_step_instances:
  "pl_instances (plan_step entries excl s p res) = pl_instances res @ [instance_for entries excl s p]"
  "counted res \<Longrightarrow> counted (plan_step entries excl s p res)"
  by (simp_all add: plan_step_def instance_for_def counted_def with_state_def plain_instance_def split: option.split)

lemma plan_platforms_instances:
  "pl_instances (plan_platforms entries excl s ps res) = pl_instances res @ map (instance_for entries excl s) ps"
  "counted res \<Longrightarrow> counted (plan_platforms entries excl s ps res)"
  by (induction ps arbitrary: res) (simp_all add: plan_step_instances)

lemma plan_suites_instances:
  "pl_instances (plan_suites entries excl ps ss res)
   = pl_instances res @ concat (map (\<lambda>s. map (instance_for entries excl s) ps) ss)"
  "counted res \<Longrightarrow> counted (plan_suites entries excl ps ss res)"
  by (induction ss arbitrary: res) (simp_all add: plan_platforms_instances)

lemma plan_repo_instances:
  assumes "plan_repo ar entries exs = Some plan" "ar_platforms ar = Some ps" "ar_suites ar = Some ss"
  shows "pl_instances plan = concat (map (\<lambda>s. map (instance_for entries (exclusion_map exs) s) ps) ss)"
    "counted plan" "pl_total plan = length (pl_instances plan)"
  using assms plan_suites_instances [where entries = entries and excl = "exclusion_map exs" and ps = ps and ss = ss and res = "empty_plan ar"]
  by (auto simp: plan_repo_def empty_plan_def counted_def with_state_def Let_def split: if_splits)

lemma plan_repo_None: "plan_repo ar entries exs = None \<longleftrightarrow> ar_platforms ar = None \<or> ar_suites ar = None"
  by (auto simp: plan_repo_def Let_def split: option.splits if_splits)

text \<open>A zero byte separates the parts of the key of an exclusion; the names of suites have none.\<close>

lemma exclusion_key_inj:
  assumes "exclusion_key a b = exclusion_key c d" "CHR 0x00 \<notin> set a" "CHR 0x00 \<notin> set c"
  shows "a = c \<and> b = d"
proof -
  have f: "takeWhile (\<lambda>x. x \<noteq> CHR 0x00) (exclusion_key u v) = u" if "CHR 0x00 \<notin> set u" for u v
    unfolding exclusion_key_def using that by (subst takeWhile_append2) (auto simp: in_set_conv_nth)
  have "a = c" using f [OF assms(2), of b] f [OF assms(3), of d] assms(1) by simp
  then show ?thesis using assms(1) by (simp add: exclusion_key_def)
qed

lemma exclusion_map_iff:
  assumes "CHR 0x00 \<notin> set (su_name s)" "\<And>x. x \<in> set exs \<Longrightarrow> CHR 0x00 \<notin> set (ex_suite x)"
  shows "exclusion_map exs (exclusion_key (su_name s) p) \<noteq> None
       \<longleftrightarrow> (\<exists>x \<in> set exs. ex_suite x = su_name s \<and> ex_platform x = p)"
proof -
  have "exclusion_map exs k \<noteq> None \<longleftrightarrow> k \<in> (\<lambda>x. exclusion_key (ex_suite x) (ex_platform x)) ` set exs" for k
    by (simp add: exclusion_map_def map_of_eq_None_iff image_image)
  moreover have "exclusion_key (su_name s) p = exclusion_key (ex_suite x) (ex_platform x)
      \<longleftrightarrow> ex_suite x = su_name s \<and> ex_platform x = p" if "x \<in> set exs" for x
    using exclusion_key_inj [OF _ assms(1) assms(2) [OF that], of p "ex_platform x"] by auto
  ultimately show ?thesis unfolding image_iff by blast
qed

definition runnable :: "platform_entry list \<Rightarrow> instance_exclusion list \<Rightarrow> kitchen_suite \<Rightarrow> string \<Rightarrow> platform_entry \<Rightarrow> bool" where
  "runnable entries exs s p e =
     (\<not> is_excluded p s \<and> match_platform p entries = Some e \<and> \<not> pe_skip e
      \<and> \<not> (\<exists>x \<in> set exs. ex_suite x = su_name s \<and> ex_platform x = p))"

text \<open>C34: the plan of a repository has one instance for each suite and platform, in this order; it is mapped
  to the image of a platform entry exactly when the suite admits the platform, the entry is the one the
  platform matches, it is not skipped and no user has excluded the instance; and the counts of the plan
  are those of its instances and add up to the total.\<close>

theorem plan_covers_every_pair:
  assumes "plan_repo ar entries exs = Some plan" "ar_platforms ar = Some ps" "ar_suites ar = Some ss"
    and "list_all (\<lambda>s. CHR 0x00 \<notin> set (su_name s)) ss" "list_all (\<lambda>x. CHR 0x00 \<notin> set (ex_suite x)) exs"
  shows "list_all2 (\<lambda>(s, p) i. pi_suite i = su_name s \<and> pi_platform i = p \<and> pi_name i = format_instance_name (su_name s) p
           \<and> (\<forall>e. runnable entries exs s p e \<longrightarrow> pi_status i = Mapped \<and> pi_image i = pe_image e)
           \<and> ((\<nexists>e. runnable entries exs s p e) \<longrightarrow> pi_status i \<noteq> Mapped))
         (List.product ss ps) (pl_instances plan)
    \<and> counted plan
    \<and> pl_total plan = pl_mapped plan + pl_unmapped plan + pl_skipped plan + pl_excluded plan + pl_user_excluded plan"
proof (intro conjI)
  note r = plan_repo_instances [OF assms(1,2,3)]
  show "counted plan" by (rule r(2))
  have one: "pi_suite (instance_for entries (exclusion_map exs) s p) = su_name s
      \<and> pi_platform (instance_for entries (exclusion_map exs) s p) = p
      \<and> pi_name (instance_for entries (exclusion_map exs) s p) = format_instance_name (su_name s) p
      \<and> (\<forall>e. runnable entries exs s p e \<longrightarrow> pi_status (instance_for entries (exclusion_map exs) s p) = Mapped
             \<and> pi_image (instance_for entries (exclusion_map exs) s p) = pe_image e)
      \<and> ((\<nexists>e. runnable entries exs s p e) \<longrightarrow> pi_status (instance_for entries (exclusion_map exs) s p) \<noteq> Mapped)"
    if "s \<in> set ss" for s p
  proof -
    have x: "exclusion_map exs (exclusion_key (su_name s) p) \<noteq> None
       \<longleftrightarrow> (\<exists>x \<in> set exs. ex_suite x = su_name s \<and> ex_platform x = p)"
      by (rule exclusion_map_iff) (use assms(4,5) that in \<open>auto simp: list_all_iff\<close>)
    show ?thesis
      using x unfolding runnable_def instance_for_def plan_step_def
      by (cases "exclusion_map exs (exclusion_key (su_name s) p)")
         (auto simp: plain_instance_def split: option.splits)
  qed
  have p: "pl_instances plan = map (\<lambda>(s, p). instance_for entries (exclusion_map exs) s p) (List.product ss ps)"
    unfolding r(1) by (simp add: product_concat_map map_concat comp_def)
  show "list_all2 (\<lambda>(s, p) i. pi_suite i = su_name s \<and> pi_platform i = p \<and> pi_name i = format_instance_name (su_name s) p
           \<and> (\<forall>e. runnable entries exs s p e \<longrightarrow> pi_status i = Mapped \<and> pi_image i = pe_image e)
           \<and> ((\<nexists>e. runnable entries exs s p e) \<longrightarrow> pi_status i \<noteq> Mapped))
         (List.product ss ps) (pl_instances plan)"
    unfolding p list_all2_conv_all_nth using one nth_mem [of _ "List.product ss ps"] by (fastforce simp: case_prod_beta)
  have "length is = with_state Mapped is + with_state Unmapped is + with_state Skipped_platform is
      + with_state Excluded is + with_state User_excluded is" for "is"
  proof (induction "is")
    case (Cons i "is")
    then show ?case by (cases "pi_status i") (simp_all add: with_state_def)
  qed (simp add: with_state_def)
  then show "pl_total plan = pl_mapped plan + pl_unmapped plan + pl_skipped plan + pl_excluded plan + pl_user_excluded plan"
    using r(2,3) by (simp add: counted_def)
qed

definition sample_entry :: platform_entry where
  "sample_entry = \<lparr>pe_kitchen_name = ''ubuntu'', pe_image = ''img'', pe_is_pattern = False, pe_skip = False\<rparr>"

definition sample_analysis :: analysis_result where
  "sample_analysis =
     \<lparr>ar_repo_name = ''apt'', ar_repo_url = ''u'', ar_commit_sha = ''c'', ar_platforms = Some [''ubuntu'', ''plan9''],
      ar_suites = Some [\<lparr>su_name = ''default'', su_includes = [], su_excludes = []\<rparr>]\<rparr>"

theorem plan_covers_every_pair_witness:
  "\<exists>plan. plan_repo sample_analysis [sample_entry] [] = Some plan \<and> map pi_status (pl_instances plan) = [Mapped, Unmapped]
     \<and> counted plan"
proof -
  obtain plan where p: "plan_repo sample_analysis [sample_entry] [] = Some plan"
    "map pi_status (pl_instances plan) = [Mapped, Unmapped]"
  proof -
    have "map_option (\<lambda>p. map pi_status (pl_instances p)) (plan_repo sample_analysis [sample_entry] []) = Some [Mapped, Unmapped]"
      by (simp add: plan_repo_def sample_analysis_def sample_entry_def empty_plan_def plan_step_def is_excluded_def
          match_platform_def exclusion_map_def plain_instance_def Let_def)
    then show thesis using that by (cases "plan_repo sample_analysis [sample_entry] []") simp_all
  qed
  have "counted plan"
    using plan_covers_every_pair [OF p(1), where ps = "[''ubuntu'', ''plan9'']"
        and ss = "[\<lparr>su_name = ''default'', su_includes = [], su_excludes = []\<rparr>]"]
    by (simp add: sample_analysis_def)
  then show ?thesis using p by (intro exI [where x = plan] conjI)
qed

end
