(* ===== verification/Kitchen_Batches.thy ===== *)
theory Kitchen_Batches
  imports Kitchen_Planner Ownership_Handlers
begin

text \<open>
  Batches of Test Kitchen runs: the tables of batches and their instances
  (\<open>internal/datastore/kitchen_batches.go\<close>, \<open>kitchen_batch_instances.go\<close>, migrations 0015, 0019 and
  0020) and the requests and background work of \<open>internal/webapi/handle_kitchen_batches.go\<close>. A batch
  that is run has a goroutine of its own, here a job that takes one step at a time, between which other
  requests, workers of the queue and other jobs take theirs. A request is one step, but for the request
  that runs a batch, whose check for a running batch and whose start are apart in the code and two steps
  here. A database call with a cancelled context fails without running its statement, as
  \<open>database/sql\<close> documents. Ids of new rows are those the event supplies.
\<close>

section \<open>Tables\<close>

datatype batch_status =
  Draft | Preparing | Previewing | Batch_running | Batch_completed | Batch_cancelled | Batch_failed

datatype instance_state =
  Pending | Inst_running | Inst_passed | Inst_failed | Inst_errored | Inst_timed_out | Inst_network_timeout | Inst_cancelled

record kitchen_batch =
  kb_id :: string
  kb_name :: string
  kb_filters :: batch_filters
  kb_max_count :: "int option"
  kb_dry_run :: bool
  kb_status :: batch_status
  kb_created_at :: int
  kb_started_at :: "int option"
  kb_completed_at :: "int option"

record batch_params =
  bp_name :: string
  bp_filters :: batch_filters
  bp_max_count :: "int option"
  bp_dry_run :: bool

record batch_instance =
  bi_id :: string
  bi_batch :: string
  bi_repo :: string
  bi_url :: string
  bi_name :: string
  bi_platform :: string
  bi_suite :: string
  bi_target :: string
  bi_status :: instance_state
  bi_error :: string
  bi_started_at :: "int option"
  bi_completed_at :: "int option"
  bi_created_at :: int

text \<open>
  A job: the batch as it was when it was started, whether its context is cancelled, and what it does
  next. \<open>bw_running\<close> is the map of running batches, by id, to the job whose context a cancellation
  reaches; \<open>bw_admitted\<close> holds the run requests that are past the guard and have not started.
\<close>

datatype phase =
  Prepare "resolved_cookbook list option"
| Ready "plan_result list" "string \<rightharpoonup> string"
| Enqueue_next "(plan_result \<times> planned_instance) list" string "string \<rightharpoonup> string" nat
| Poll "string \<rightharpoonup> string"
| Done

record job =
  jb_no :: nat
  jb_batch :: kitchen_batch
  jb_cancelled :: bool
  jb_phase :: phase

record batch_world =
  bw_batches :: "kitchen_batch list"
  bw_instances :: "batch_instance list"
  bw_queue :: queue_table
  bw_running :: "(string \<times> nat) list"
  bw_admitted :: "kitchen_batch list"
  bw_jobs :: "job list"
  bw_next_job :: nat

definition batch_row :: "string \<Rightarrow> batch_params \<Rightarrow> int \<Rightarrow> kitchen_batch" where
  "batch_row i p now =
     \<lparr>kb_id = i, kb_name = bp_name p, kb_filters = bp_filters p, kb_max_count = bp_max_count p,
      kb_dry_run = bp_dry_run p, kb_status = Draft, kb_created_at = now, kb_started_at = None, kb_completed_at = None\<rparr>"

definition create_kitchen_batch :: "string \<Rightarrow> batch_params \<Rightarrow> int \<Rightarrow> batch_world \<Rightarrow> batch_world option" where
  "create_kitchen_batch i p now w =
     (if bp_name p = [] \<or> i \<in> set (map kb_id (bw_batches w)) then None
      else Some (w\<lparr>bw_batches := bw_batches w @ [batch_row i p now]\<rparr>))"

definition get_kitchen_batch :: "string \<Rightarrow> batch_world \<Rightarrow> kitchen_batch option" where
  "get_kitchen_batch i w = row_of kb_id i (bw_batches w)"

definition edit_batch :: "batch_params \<Rightarrow> kitchen_batch \<Rightarrow> kitchen_batch" where
  "edit_batch p b =
     b\<lparr>kb_name := bp_name p, kb_filters := bp_filters p, kb_max_count := bp_max_count p, kb_dry_run := bp_dry_run p\<rparr>"

text \<open>An update of the rows that satisfy a condition; \<open>None\<close> when there is none.\<close>

definition update_batches ::
  "(kitchen_batch \<Rightarrow> bool) \<Rightarrow> (kitchen_batch \<Rightarrow> kitchen_batch) \<Rightarrow> batch_world \<Rightarrow> batch_world option" where
  "update_batches P f w =
     (if list_ex P (bw_batches w) then Some (w\<lparr>bw_batches := update_where P f (bw_batches w)\<rparr>) else None)"

definition update_kitchen_batch :: "string \<Rightarrow> batch_params \<Rightarrow> batch_world \<Rightarrow> batch_world option" where
  "update_kitchen_batch i p w =
     (if bp_name p = [] then None
      else update_batches (\<lambda>b. kb_id b = i \<and> kb_status b = Draft) (edit_batch p) w)"

definition with_status :: "batch_status \<Rightarrow> int \<Rightarrow> kitchen_batch \<Rightarrow> kitchen_batch" where
  "with_status s now b =
     b\<lparr>kb_status := s,
       kb_started_at := (if s \<in> {Batch_running, Previewing} then Some now else kb_started_at b),
       kb_completed_at := (if s \<in> {Batch_completed, Batch_cancelled} then Some now else kb_completed_at b)\<rparr>"

definition update_kitchen_batch_status :: "string \<Rightarrow> batch_status \<Rightarrow> int \<Rightarrow> batch_world \<Rightarrow> batch_world option" where
  "update_kitchen_batch_status i s now w = update_batches (\<lambda>b. kb_id b = i) (with_status s now) w"

definition update_kitchen_batch_status_if_current ::
  "string \<Rightarrow> batch_status \<Rightarrow> batch_status \<Rightarrow> int \<Rightarrow> batch_world \<Rightarrow> batch_world option" where
  "update_kitchen_batch_status_if_current i old s now w =
     update_batches (\<lambda>b. kb_id b = i \<and> kb_status b = old) (with_status s now) w"

definition deletable :: "batch_status \<Rightarrow> bool" where
  "deletable s = (s \<in> {Draft, Batch_completed, Batch_cancelled, Batch_failed})"

text \<open>The instances go with the batch, the runs in the queue lose their reference to it.\<close>

definition forget_batch :: "string \<Rightarrow> queue_item \<Rightarrow> queue_item" where
  "forget_batch i r =
     (if rp_batch_id (qi_params r) = i then r\<lparr>qi_params := (qi_params r)\<lparr>rp_batch_id := []\<rparr>\<rparr> else r)"

definition delete_kitchen_batch :: "string \<Rightarrow> batch_world \<Rightarrow> batch_world option" where
  "delete_kitchen_batch i w =
     (if list_ex (\<lambda>b. kb_id b = i \<and> deletable (kb_status b)) (bw_batches w)
      then Some (w\<lparr>bw_batches := delete_where (\<lambda>b. kb_id b = i \<and> deletable (kb_status b)) (bw_batches w),
                   bw_instances := delete_where (\<lambda>b. bi_batch b = i) (bw_instances w),
                   bw_queue := map (forget_batch i) (bw_queue w)\<rparr>)
      else None)"

definition cancel_stale_batches :: "int \<Rightarrow> batch_world \<Rightarrow> batch_world" where
  "cancel_stale_batches now w =
     w\<lparr>bw_batches := update_where (\<lambda>b. kb_status b \<in> {Batch_running, Preparing})
          (\<lambda>b. b\<lparr>kb_status := Batch_cancelled, kb_completed_at := Some now\<rparr>) (bw_batches w)\<rparr>"

definition terminal_state :: "instance_state \<Rightarrow> bool" where
  "terminal_state s = (s \<notin> {Pending, Inst_running})"

definition update_batch_instance_status ::
  "string \<Rightarrow> instance_state \<Rightarrow> string \<Rightarrow> int \<Rightarrow> batch_world \<Rightarrow> batch_world" where
  "update_batch_instance_status i s err now w =
     w\<lparr>bw_instances := update_where (\<lambda>x. bi_id x = i)
          (\<lambda>x. x\<lparr>bi_status := s, bi_error := err,
                 bi_started_at := (if s = Inst_running then Some now else bi_started_at x),
                 bi_completed_at := (if terminal_state s then Some now else bi_completed_at x)\<rparr>) (bw_instances w)\<rparr>"

definition cancel_pending_batch_instances :: "string \<Rightarrow> int \<Rightarrow> batch_world \<Rightarrow> batch_world" where
  "cancel_pending_batch_instances i now w =
     w\<lparr>bw_instances := update_where (\<lambda>x. bi_batch x = i \<and> bi_status x = Pending)
          (\<lambda>x. x\<lparr>bi_status := Inst_cancelled, bi_completed_at := Some now\<rparr>) (bw_instances w)\<rparr>"

definition count_batch_instances :: "string \<Rightarrow> instance_state \<Rightarrow> batch_world \<Rightarrow> nat" where
  "count_batch_instances i s w = length (filter (\<lambda>x. bi_batch x = i \<and> bi_status x = s) (bw_instances w))"

definition list_batch_instances :: "string \<Rightarrow> batch_world \<Rightarrow> batch_instance list" where
  "list_batch_instances i w = filter (\<lambda>x. bi_batch x = i) (bw_instances w)"

definition instance_row :: "string \<Rightarrow> string \<Rightarrow> string \<Rightarrow> int \<Rightarrow> plan_result \<times> planned_instance \<Rightarrow> batch_instance" where
  "instance_row i batch target now p =
     \<lparr>bi_id = i, bi_batch = batch, bi_repo = pl_repo_name (fst p), bi_url = pl_repo_url (fst p),
      bi_name = pi_name (snd p), bi_platform = pi_platform (snd p), bi_suite = pi_suite (snd p), bi_target = target,
      bi_status = Pending, bi_error = [], bi_started_at = None, bi_completed_at = None, bi_created_at = now\<rparr>"

text \<open>One transaction; the reference to the batch must hold.\<close>

definition create_batch_instances ::
  "(nat \<Rightarrow> string) \<Rightarrow> string \<Rightarrow> string \<Rightarrow> int \<Rightarrow> (plan_result \<times> planned_instance) list \<Rightarrow> batch_world
   \<Rightarrow> (batch_instance list \<times> batch_world) option" where
  "create_batch_instances id_of batch target now ps w =
     (if batch \<notin> set (map kb_id (bw_batches w)) then None
      else let rows = map (\<lambda>(n, p). instance_row (id_of n) batch target now p) (enumerate 0 ps)
           in Some (rows, w\<lparr>bw_instances := bw_instances w @ rows\<rparr>))"

section \<open>The queue as a batch sees it\<close>

text \<open>\<open>ORDER BY started_at DESC NULLS LAST, enqueued_at DESC\<close>\<close>

definition newest_first :: "queue_table \<Rightarrow> queue_table" where
  "newest_first tbl =
     (let rows = sort_key (\<lambda>r. - qi_enqueued_at r) tbl
      in sort_key (\<lambda>r. - the (qi_started_at r)) (filter (\<lambda>r. qi_started_at r \<noteq> None) rows)
         @ filter (\<lambda>r. qi_started_at r = None) rows)"

definition list_kitchen_queue :: "string \<Rightarrow> nat \<Rightarrow> queue_table \<Rightarrow> queue_table" where
  "list_kitchen_queue batch limit tbl =
     take limit (newest_first (filter (\<lambda>r. rp_batch_id (qi_params r) = batch) tbl))"

definition poll_limit :: nat where "poll_limit = 500"

definition instance_key :: "string \<Rightarrow> string \<Rightarrow> string" where
  "instance_key repo name = repo @ ''/'' @ name"

fun queue_status_to_batch_status :: "queue_item \<Rightarrow> instance_state" where
  "queue_status_to_batch_status r =
     (case qi_status r of
        Completed \<Rightarrow> Inst_passed
      | Failed_run \<Rightarrow> if qi_error_message r \<noteq> [] then Inst_errored else Inst_failed
      | Cancelled \<Rightarrow> Inst_cancelled
      | Interrupted \<Rightarrow> Inst_cancelled
      | _ \<Rightarrow> Inst_failed)"

text \<open>The loop over the rows listed: whether all were final, the map of instances still open, the tables.\<close>

fun sync_loop ::
  "int \<Rightarrow> queue_item list \<Rightarrow> (string \<rightharpoonup> string) \<Rightarrow> batch_world \<Rightarrow> bool \<times> (string \<rightharpoonup> string) \<times> batch_world" where
  "sync_loop now [] imap w = (True, imap, w)"
| "sync_loop now (r # rs) imap w =
     (if active (qi_status r)
      then (case sync_loop now rs imap w of (done, res) \<Rightarrow> (False, res))
      else let key = instance_key (rp_git_repo_name (qi_params r)) (rp_instance_name (qi_params r))
           in case imap key of
                None \<Rightarrow> sync_loop now rs imap w
              | Some i \<Rightarrow>
                  sync_loop now rs (imap(key := None))
                    (update_batch_instance_status i (queue_status_to_batch_status r) (qi_error_message r) now w))"

definition sync_batch_progress ::
  "int \<Rightarrow> string \<Rightarrow> (string \<rightharpoonup> string) \<Rightarrow> batch_world \<Rightarrow> bool \<times> (string \<rightharpoonup> string) \<times> batch_world" where
  "sync_batch_progress now batch imap w =
     sync_loop now (list_kitchen_queue batch poll_limit (bw_queue w)) imap w"

section \<open>What the store and the configuration hold at a moment\<close>

record kitchen_env =
  ke_enabled :: bool
  ke_queue_configured :: bool
  ke_entries :: "platform_entry list"
  ke_target :: string
  ke_repos :: "git_repo list option"
  ke_analysis :: "string \<Rightarrow> analysis_result option option"
  ke_exclusions :: "string \<Rightarrow> instance_exclusion list option"
  ke_results :: "string \<Rightarrow> (bool option \<times> bool) list option"

definition resolve_kitchen_batch :: "kitchen_env \<Rightarrow> kitchen_batch \<Rightarrow> batch_estimate option" where
  "resolve_kitchen_batch env b =
     map_option (plan_batch (ke_entries env) (ke_analysis env) (ke_exclusions env))
       (resolve_batch (ke_analysis env) (ke_results env) (ke_repos env) (kb_filters b) (kb_max_count b))"

definition batch_target_version :: "kitchen_env \<Rightarrow> kitchen_batch \<Rightarrow> string" where
  "batch_target_version env b =
     (case bf_target_chef_versions (kb_filters b) of v # vs \<Rightarrow> v | [] \<Rightarrow> ke_target env)"

section \<open>The steps of a job\<close>

text \<open>A statement under the context of a job.\<close>

definition under :: "job \<Rightarrow> (batch_world \<Rightarrow> batch_world) \<Rightarrow> batch_world \<Rightarrow> batch_world" where
  "under j f w = (if jb_cancelled j then w else f w)"

definition try_status :: "string \<Rightarrow> batch_status \<Rightarrow> batch_status \<Rightarrow> int \<Rightarrow> batch_world \<Rightarrow> batch_world" where
  "try_status i old s now w =
     (case update_kitchen_batch_status_if_current i old s now w of None \<Rightarrow> w | Some w' \<Rightarrow> w')"

definition set_job :: "nat \<Rightarrow> (job \<Rightarrow> job) \<Rightarrow> batch_world \<Rightarrow> batch_world" where
  "set_job n f w = w\<lparr>bw_jobs := update_where (\<lambda>j. jb_no j = n) f (bw_jobs w)\<rparr>"

definition goto_phase :: "job \<Rightarrow> phase \<Rightarrow> batch_world \<Rightarrow> batch_world" where
  "goto_phase j ph w = set_job (jb_no j) (\<lambda>x. x\<lparr>jb_phase := ph\<rparr>) w"

definition not_running :: "string \<Rightarrow> (string \<times> nat) list \<Rightarrow> (string \<times> nat) list" where
  "not_running i running = filter (\<lambda>x. fst x \<noteq> i) running"

text \<open>The deferred removal from the map of running batches, which is by the id of the batch.\<close>

definition end_job :: "job \<Rightarrow> batch_world \<Rightarrow> batch_world" where
  "end_job j w =
     goto_phase j Done (w\<lparr>bw_running := not_running (kb_id (jb_batch j)) (bw_running w)\<rparr>)"

definition fail_batch :: "job \<Rightarrow> batch_status \<Rightarrow> int \<Rightarrow> batch_world \<Rightarrow> batch_world" where
  "fail_batch j old now w =
     under j (\<lambda>w. cancel_pending_batch_instances (kb_id (jb_batch j)) now
                    (try_status (kb_id (jb_batch j)) old Batch_failed now w)) w"

definition finalize_batch :: "job \<Rightarrow> int \<Rightarrow> batch_world \<Rightarrow> batch_world" where
  "finalize_batch j now w =
     under j (\<lambda>w. try_status (kb_id (jb_batch j)) Batch_running
                    (if jb_cancelled j then Batch_cancelled else Batch_completed) now
                    (cancel_pending_batch_instances (kb_id (jb_batch j)) now w)) w"

text \<open>The plans of the cookbooks that have a mapped instance; a failing look-up leaves a cookbook out.\<close>

definition plan_of_cookbook :: "kitchen_env \<Rightarrow> resolved_cookbook \<Rightarrow> plan_result option" where
  "plan_of_cookbook env cb =
     (case Option.bind (ke_analysis env (rk_name cb)) id of
        None \<Rightarrow> None
      | Some ar \<Rightarrow>
          (case ke_exclusions env (rk_name cb) of
             None \<Rightarrow> None
           | Some exs \<Rightarrow> plan_repo ar (ke_entries env) exs))"

definition batch_plans :: "kitchen_env \<Rightarrow> resolved_cookbook list \<Rightarrow> plan_result list" where
  "batch_plans env cbs =
     filter (\<lambda>p. mapped_instances p \<noteq> []) (List.map_filter (plan_of_cookbook env) cbs)"

definition runs_of :: "plan_result list \<Rightarrow> (plan_result \<times> planned_instance) list" where
  "runs_of plans = concat (map (\<lambda>p. map (Pair p) (mapped_instances p)) plans)"

definition instance_map :: "batch_instance list \<Rightarrow> (string \<rightharpoonup> string)" where
  "instance_map rows = map_of (rev (map (\<lambda>x. (instance_key (bi_repo x) (bi_name x), bi_id x)) rows))"

definition prepare_batch_instances ::
  "kitchen_env \<Rightarrow> (nat \<Rightarrow> string) \<Rightarrow> int \<Rightarrow> job \<Rightarrow> resolved_cookbook list option \<Rightarrow> batch_world
   \<Rightarrow> (plan_result list \<times> (string \<rightharpoonup> string) \<times> batch_world) option" where
  "prepare_batch_instances env id_of now j estimate w =
     (case estimate of
        None \<Rightarrow> None
      | Some cbs \<Rightarrow>
          if jb_cancelled j then None
          else let plans = batch_plans env cbs
               in if runs_of plans = [] then None
                  else case create_batch_instances id_of (kb_id (jb_batch j))
                              (batch_target_version env (jb_batch j)) now (runs_of plans) w of
                         None \<Rightarrow> None
                       | Some (rows, w') \<Rightarrow> Some (plans, instance_map rows, w'))"

definition enqueue_instance ::
  "string \<Rightarrow> int \<Rightarrow> job \<Rightarrow> plan_result \<times> planned_instance \<Rightarrow> string \<Rightarrow> batch_world \<Rightarrow> queue_error + batch_world" where
  "enqueue_instance new_id now j p target w =
     (if jb_cancelled j \<or> kb_id (jb_batch j) \<notin> set (map kb_id (bw_batches w)) then Inl Constraint_violation
      else case enqueue_kitchen_run new_id now (git_run (fst p) (snd p) target (kb_id (jb_batch j)) 5) (bw_queue w) of
             Inl e \<Rightarrow> Inl e
           | Inr (row, tbl) \<Rightarrow> Inr (w\<lparr>bw_queue := tbl\<rparr>))"

text \<open>One step of \<open>executeBatch\<close>. The text of an error is its constructor's, written \<open>''error''\<close>.\<close>

definition job_step :: "kitchen_env \<Rightarrow> int \<Rightarrow> (nat \<Rightarrow> string) \<Rightarrow> job \<Rightarrow> batch_world \<Rightarrow> batch_world" where
  "job_step env now id_of j w =
     (case jb_phase j of
        Prepare estimate \<Rightarrow>
          (case prepare_batch_instances env id_of now j estimate w of
             None \<Rightarrow> end_job j (fail_batch j Preparing now w)
           | Some (plans, imap, w') \<Rightarrow> goto_phase j (Ready plans imap) w')
      | Ready plans imap \<Rightarrow>
          (case (if jb_cancelled j then None
                 else update_kitchen_batch_status_if_current (kb_id (jb_batch j)) Preparing Batch_running now w) of
             None \<Rightarrow> end_job j w
           | Some w' \<Rightarrow>
               let target = batch_target_version env (jb_batch j)
               in if target = [] then end_job j (fail_batch j Batch_running now w')
                  else goto_phase j (Enqueue_next (runs_of plans) target imap 0) w')
      | Enqueue_next [] target imap n \<Rightarrow>
          if n = 0 then end_job j (finalize_batch j now w) else goto_phase j (Poll imap) w
      | Enqueue_next (p # ps) target imap n \<Rightarrow>
          (case enqueue_instance (id_of 0) now j p target w of
             Inr w' \<Rightarrow> goto_phase j (Enqueue_next ps target imap (n + 1)) w'
           | Inl e \<Rightarrow>
               goto_phase j (Enqueue_next ps target imap n)
                 (case imap (instance_key (pl_repo_name (fst p)) (pi_name (snd p))) of
                    None \<Rightarrow> w
                  | Some i \<Rightarrow> under j (update_batch_instance_status i Inst_errored ''error'' now) w))
      | Poll imap \<Rightarrow>
          if jb_cancelled j
          then end_job j (finalize_batch j now
                 (under j (\<lambda>w. w\<lparr>bw_queue := snd (cancel_kitchen_runs_by_batch (kb_id (jb_batch j)) now (bw_queue w))\<rparr>) w))
          else (case sync_batch_progress now (kb_id (jb_batch j)) imap w of
                  (done, imap', w') \<Rightarrow>
                    if done then end_job j (finalize_batch j now w') else goto_phase j (Poll imap') w')
      | Done \<Rightarrow> w)"

section \<open>Requests\<close>

definition handle_create_kitchen_batch :: "string \<Rightarrow> batch_params \<Rightarrow> int \<Rightarrow> batch_world \<Rightarrow> nat \<times> batch_world" where
  "handle_create_kitchen_batch i p now w =
     (if bp_name p = [] then (400, w)
      else case create_kitchen_batch i p now w of None \<Rightarrow> (500, w) | Some w' \<Rightarrow> (201, w'))"

definition handle_update_kitchen_batch ::
  "session_info option \<Rightarrow> string \<Rightarrow> batch_params \<Rightarrow> batch_world \<Rightarrow> nat \<times> batch_world" where
  "handle_update_kitchen_batch sess i p w =
     (if \<not> require_operator_or_admin sess then (403, w)
      else if bp_name p = [] then (400, w)
      else case update_kitchen_batch i p w of None \<Rightarrow> (404, w) | Some w' \<Rightarrow> (200, w'))"

definition handle_delete_kitchen_batch :: "session_info option \<Rightarrow> string \<Rightarrow> batch_world \<Rightarrow> nat \<times> batch_world" where
  "handle_delete_kitchen_batch sess i w =
     (if \<not> require_operator_or_admin sess then (403, w)
      else case delete_kitchen_batch i w of None \<Rightarrow> (404, w) | Some w' \<Rightarrow> (204, w'))"

definition handle_run_dry_run_batch :: "kitchen_batch \<Rightarrow> int \<Rightarrow> batch_world \<Rightarrow> nat \<times> batch_world" where
  "handle_run_dry_run_batch b now w =
     (case update_kitchen_batch_status (kb_id b) Previewing now w of
        None \<Rightarrow> (500, w)
      | Some w' \<Rightarrow>
          (case update_kitchen_batch_status (kb_id b) Batch_completed now w' of
             None \<Rightarrow> (500, w')
           | Some w'' \<Rightarrow> (200, w'')))"

text \<open>The checks of a run request; 202 stands for a batch let past the guard, which is started by a step of its own.\<close>

definition handle_run_kitchen_batch ::
  "kitchen_env \<Rightarrow> session_info option \<Rightarrow> string \<Rightarrow> int \<Rightarrow> batch_world \<Rightarrow> nat \<times> batch_world" where
  "handle_run_kitchen_batch env sess i now w =
     (if \<not> require_operator_or_admin sess then (403, w)
      else case get_kitchen_batch i w of
             None \<Rightarrow> (404, w)
           | Some b \<Rightarrow>
               if kb_status b \<noteq> Draft then (409, w)
               else if \<not> ke_enabled env then (409, w)
               else if kb_dry_run b then handle_run_dry_run_batch b now w
               else if \<not> ke_queue_configured env then (503, w)
               else if bw_running w \<noteq> [] then (409, w)
               else (202, w\<lparr>bw_admitted := bw_admitted w @ [b]\<rparr>))"

definition start_batch :: "kitchen_env \<Rightarrow> int \<Rightarrow> kitchen_batch \<Rightarrow> batch_world \<Rightarrow> nat \<times> batch_world" where
  "start_batch env now b w =
     (case update_kitchen_batch_status (kb_id b) Preparing now w of
        None \<Rightarrow> (500, w)
      | Some w' \<Rightarrow>
          (case get_kitchen_batch (kb_id b) w' of
             None \<Rightarrow> (500, w')
           | Some b' \<Rightarrow>
               (202, w'\<lparr>bw_running := (kb_id b, bw_next_job w') # not_running (kb_id b) (bw_running w'),
                        bw_jobs := bw_jobs w' @
                          [\<lparr>jb_no = bw_next_job w', jb_batch = b', jb_cancelled = False,
                            jb_phase = Prepare (map_option be_cookbooks (resolve_kitchen_batch env b'))\<rparr>],
                        bw_next_job := bw_next_job w' + 1\<rparr>)))"

definition handle_cancel_kitchen_batch ::
  "session_info option \<Rightarrow> string \<Rightarrow> int \<Rightarrow> batch_world \<Rightarrow> nat \<times> batch_world" where
  "handle_cancel_kitchen_batch sess i now w =
     (if \<not> require_operator_or_admin sess then (403, w)
      else case get_kitchen_batch i w of
             None \<Rightarrow> (404, w)
           | Some b \<Rightarrow>
               if kb_status b \<notin> {Batch_running, Previewing, Preparing} then (409, w)
               else case update_kitchen_batch_status i Batch_cancelled now w of
                      None \<Rightarrow> (500, w)
                    | Some w' \<Rightarrow>
                        (200, cancel_pending_batch_instances i now
                                (case map_of (bw_running w') i of
                                   None \<Rightarrow> w'
                                 | Some n \<Rightarrow> set_job n (\<lambda>j. j\<lparr>jb_cancelled := True\<rparr>) w')))"

text \<open>Progress as reported: the number of instances, and of those in each state.\<close>

definition handle_batch_progress :: "string \<Rightarrow> batch_world \<Rightarrow> nat \<times> (instance_state \<Rightarrow> nat)" where
  "handle_batch_progress i w =
     (length (list_batch_instances i w), \<lambda>s. count_batch_instances i s w)"

section \<open>Events\<close>

datatype batch_event =
  Be_create string batch_params
| Be_update "session_info option" string batch_params
| Be_delete "session_info option" string
| Be_run "session_info option" string
| Be_start
| Be_cancel "session_info option" string
| Be_job nat "nat \<Rightarrow> string"
| Be_queue queue_op
| Be_restart

text \<open>A restart ends every job and every request under way, and cancels what they were running.\<close>

definition restart :: "int \<Rightarrow> batch_world \<Rightarrow> batch_world" where
  "restart now w =
     cancel_stale_batches now
       (w\<lparr>bw_running := [], bw_admitted := [], bw_jobs := [],
          bw_queue := snd (mark_interrupted_kitchen_runs now (bw_queue w))\<rparr>)"

definition batch_step :: "kitchen_env \<Rightarrow> int \<Rightarrow> batch_event \<Rightarrow> batch_world \<Rightarrow> batch_world" where
  "batch_step env now e w =
     (case e of
        Be_create i p \<Rightarrow> snd (handle_create_kitchen_batch i p now w)
      | Be_update sess i p \<Rightarrow> snd (handle_update_kitchen_batch sess i p w)
      | Be_delete sess i \<Rightarrow> snd (handle_delete_kitchen_batch sess i w)
      | Be_run sess i \<Rightarrow> snd (handle_run_kitchen_batch env sess i now w)
      | Be_start \<Rightarrow>
          (case bw_admitted w of [] \<Rightarrow> w | b # bs \<Rightarrow> snd (start_batch env now b (w\<lparr>bw_admitted := bs\<rparr>)))
      | Be_cancel sess i \<Rightarrow> snd (handle_cancel_kitchen_batch sess i now w)
      | Be_job n id_of \<Rightarrow> (case row_of jb_no n (bw_jobs w) of None \<Rightarrow> w | Some j \<Rightarrow> job_step env now id_of j w)
      | Be_queue op \<Rightarrow> w\<lparr>bw_queue := apply_op op (bw_queue w)\<rparr>
      | Be_restart \<Rightarrow> restart now w)"

fun batch_run :: "(kitchen_env \<times> int \<times> batch_event) list \<Rightarrow> batch_world \<Rightarrow> batch_world" where
  "batch_run [] w = w"
| "batch_run ((env, now, e) # es) w = batch_run es (batch_step env now e w)"

section \<open>Estimates\<close>

lemma plan_cookbook_effect:
  assumes "plan_cookbook (ke_entries env) (ke_analysis env) (ke_exclusions env) cb pp = (cb', pp')"
  shows "rk_name cb' = rk_name cb"
    "plan_of_cookbook env cb' = plan_of_cookbook env cb"
    "case plan_of_cookbook env cb of
       None \<Rightarrow> rk_status cb' \<noteq> planned
     | Some p \<Rightarrow> rk_status cb' = planned \<and> rk_estimated_vms cb' = pl_mapped p"
proof -
  show n: "rk_name cb' = rk_name cb"
    using assms by (auto simp: plan_cookbook_def split: option.splits)
  show "plan_of_cookbook env cb' = plan_of_cookbook env cb" unfolding plan_of_cookbook_def n by (rule refl)
  show "case plan_of_cookbook env cb of
       None \<Rightarrow> rk_status cb' \<noteq> planned
     | Some p \<Rightarrow> rk_status cb' = planned \<and> rk_estimated_vms cb' = pl_mapped p"
    using assms by (auto simp: plan_cookbook_def plan_of_cookbook_def split: option.splits)
qed

lemma plan_of_cookbook_mapped:
  "plan_of_cookbook env cb = Some p \<Longrightarrow> pl_mapped p = length (mapped_instances p)"
proof -
  assume a: "plan_of_cookbook env cb = Some p"
  then obtain ar exs where r: "plan_repo ar (ke_entries env) exs = Some p"
    by (auto simp: plan_of_cookbook_def split: option.splits)
  then obtain ps ss where "ar_platforms ar = Some ps" "ar_suites ar = Some ss"
    using plan_repo_None [of ar "ke_entries env" exs] by force
  then show ?thesis
    using plan_repo_instances(2) [OF r] by (simp add: counted_def with_state_def mapped_instances_def)
qed

lemma length_runs_of: "length (runs_of plans) = sum_list (map (\<lambda>p. length (mapped_instances p)) plans)"
  by (simp add: runs_of_def length_concat comp_def)

text \<open>The estimate of a batch is the number of runs it prepares from the same data, plus the numbers of
  platforms of the cookbooks it reports as skipped: a cookbook whose exclusions cannot be loaded or whose
  analysis cannot be planned keeps the number the resolver gave it, and none of it is ever run.\<close>

theorem estimate_counts_skipped:
  "let est = plan_batch (ke_entries env) (ke_analysis env) (ke_exclusions env) cbs
   in be_total_vms est =
        length (runs_of (batch_plans env (be_cookbooks est)))
        + sum_list (map rk_estimated_vms (filter (\<lambda>cb. rk_status cb \<noteq> planned) (be_cookbooks est)))"
proof -
  have "sum_list (map rk_estimated_vms cbs') =
      length (runs_of (batch_plans env cbs'))
      + sum_list (map rk_estimated_vms (filter (\<lambda>cb. rk_status cb \<noteq> planned) cbs'))"
    if "plan_loop (ke_entries env) (ke_analysis env) (ke_exclusions env) cbs pp = (cbs', pp')" for cbs pp cbs' pp'
    using that
  proof (induction cbs arbitrary: pp cbs' pp')
    case Nil
    then show ?case by (simp add: batch_plans_def runs_of_def List.map_filter_def)
  next
    case (Cons cb cbs)
    obtain cb' pp1 where c: "plan_cookbook (ke_entries env) (ke_analysis env) (ke_exclusions env) cb pp = (cb', pp1)"
      by fastforce
    obtain rest pp2 where l: "plan_loop (ke_entries env) (ke_analysis env) (ke_exclusions env) cbs pp1 = (rest, pp2)"
      by fastforce
    have e: "cbs' = cb' # rest" using Cons.prems by (simp add: c l)
    note f = plan_cookbook_effect [OF c] and IH = Cons.IH [OF l]
    show ?case
    proof (cases "plan_of_cookbook env cb")
      case None
      then have "batch_plans env (cb' # rest) = batch_plans env rest"
        using f(2) by (simp add: batch_plans_def List.map_filter_simps)
      then show ?thesis using IH None f(3) by (simp add: e)
    next
      case (Some p)
      then have b: "batch_plans env (cb' # rest) =
          (if mapped_instances p = [] then batch_plans env rest else p # batch_plans env rest)"
        using f(2) by (simp add: batch_plans_def List.map_filter_simps)
      have "rk_estimated_vms cb' = length (mapped_instances p)" "rk_status cb' = planned"
        using f(3) Some plan_of_cookbook_mapped [OF Some] by simp_all
      then show ?thesis using IH b by (simp add: e length_runs_of)
    qed
  qed
  then show ?thesis by (simp add: plan_batch_def Let_def split: prod.split)
qed

section \<open>Tables and jobs\<close>

lemma update_batches_cases:
  "update_batches P f w = Some w' \<longleftrightarrow> list_ex P (bw_batches w) \<and> w' = w\<lparr>bw_batches := update_where P f (bw_batches w)\<rparr>"
  by (auto simp: update_batches_def)

lemma set_job_fields [simp]:
  "bw_batches (set_job n f w) = bw_batches w" "bw_instances (set_job n f w) = bw_instances w"
  "bw_queue (set_job n f w) = bw_queue w" "bw_running (set_job n f w) = bw_running w"
  "bw_admitted (set_job n f w) = bw_admitted w" "bw_next_job (set_job n f w) = bw_next_job w"
  "bw_jobs (set_job n f w) = update_where (\<lambda>j. jb_no j = n) f (bw_jobs w)"
  by (simp_all add: set_job_def)

lemma goto_phase_fields [simp]:
  "bw_batches (goto_phase j ph w) = bw_batches w" "bw_instances (goto_phase j ph w) = bw_instances w"
  "bw_queue (goto_phase j ph w) = bw_queue w" "bw_running (goto_phase j ph w) = bw_running w"
  "bw_admitted (goto_phase j ph w) = bw_admitted w" "bw_next_job (goto_phase j ph w) = bw_next_job w"
  "bw_jobs (goto_phase j ph w) = update_where (\<lambda>x. jb_no x = jb_no j) (\<lambda>x. x\<lparr>jb_phase := ph\<rparr>) (bw_jobs w)"
  by (simp_all add: goto_phase_def)

lemma end_job_fields [simp]:
  "bw_batches (end_job j w) = bw_batches w" "bw_instances (end_job j w) = bw_instances w"
  "bw_queue (end_job j w) = bw_queue w" "bw_admitted (end_job j w) = bw_admitted w"
  "bw_next_job (end_job j w) = bw_next_job w"
  "bw_running (end_job j w) = not_running (kb_id (jb_batch j)) (bw_running w)"
  "bw_jobs (end_job j w) = update_where (\<lambda>x. jb_no x = jb_no j) (\<lambda>x. x\<lparr>jb_phase := Done\<rparr>) (bw_jobs w)"
  by (simp_all add: end_job_def)

text \<open>What the statements of a job leave alone.\<close>

definition same_jobs :: "batch_world \<Rightarrow> batch_world \<Rightarrow> bool" where
  "same_jobs w w' =
     (bw_jobs w' = bw_jobs w \<and> bw_running w' = bw_running w \<and> bw_admitted w' = bw_admitted w
      \<and> bw_next_job w' = bw_next_job w)"

lemma same_jobs_refl [simp]: "same_jobs w w"
  and same_jobs_trans: "same_jobs a b \<Longrightarrow> same_jobs b c \<Longrightarrow> same_jobs a c"
  by (auto simp: same_jobs_def)

lemma statements_same_jobs:
  "same_jobs w (update_batch_instance_status i s err now w)"
  "same_jobs w (cancel_pending_batch_instances b now w)"
  "same_jobs w (try_status b old st now w)"
  "same_jobs w (fail_batch j old now w)"
  "same_jobs w (finalize_batch j now w)"
  "update_kitchen_batch_status_if_current b old st now w = Some w' \<Longrightarrow> same_jobs w w'"
  "update_kitchen_batch_status b st now w = Some w' \<Longrightarrow> same_jobs w w'"
  "create_batch_instances id_of b target now ps w = Some (rows, w') \<Longrightarrow> same_jobs w w'"
  "enqueue_instance new_id now j p target w = Inr w' \<Longrightarrow> same_jobs w w'"
  "prepare_batch_instances env id_of now j est w = Some (plans, imap, w') \<Longrightarrow> same_jobs w w'"
proof -
  show t: "same_jobs w (try_status b old st now w)" for w b old st now
    by (auto simp: same_jobs_def try_status_def update_kitchen_batch_status_if_current_def update_batches_def)
  show c: "same_jobs w (cancel_pending_batch_instances b now w)" for w b
    by (simp add: same_jobs_def cancel_pending_batch_instances_def)
  show "same_jobs w (update_batch_instance_status i s err now w)"
    by (simp add: same_jobs_def update_batch_instance_status_def)
  show "same_jobs w (fail_batch j old now w)"
    using same_jobs_trans [OF t c] by (simp add: fail_batch_def under_def)
  show "same_jobs w (finalize_batch j now w)"
    using same_jobs_trans [OF c t] by (simp add: finalize_batch_def under_def)
  show "update_kitchen_batch_status_if_current b old st now w = Some w' \<Longrightarrow> same_jobs w w'"
    by (auto simp: update_kitchen_batch_status_if_current_def update_batches_cases same_jobs_def)
  show "update_kitchen_batch_status b st now w = Some w' \<Longrightarrow> same_jobs w w'"
    by (auto simp: update_kitchen_batch_status_def update_batches_cases same_jobs_def)
  show i: "create_batch_instances id_of b target now ps w = Some (rows, w') \<Longrightarrow> same_jobs w w'" for b target rows w' ps
    by (auto simp: create_batch_instances_def same_jobs_def Let_def split: if_splits)
  show "enqueue_instance new_id now j p target w = Inr w' \<Longrightarrow> same_jobs w w'"
    by (auto simp: enqueue_instance_def same_jobs_def split: if_splits sum.splits)
  show "prepare_batch_instances env id_of now j est w = Some (plans, imap, w') \<Longrightarrow> same_jobs w w'"
    using i by (auto simp: prepare_batch_instances_def Let_def split: option.splits if_splits)
qed

lemma sync_loop_same_jobs: "sync_loop now rs imap w = (d, imap', w') \<Longrightarrow> same_jobs w w' \<and> bw_batches w' = bw_batches w \<and> bw_queue w' = bw_queue w"
proof (induction now rs imap w arbitrary: d imap' w' rule: sync_loop.induct)
  case (2 now r rs imap w)
  let ?key = "instance_key (rp_git_repo_name (qi_params r)) (rp_instance_name (qi_params r))"
  show ?case
  proof (cases "active (qi_status r)")
    case True
    then show ?thesis using 2(1) 2(4) by (auto split: prod.splits)
  next
    case False
    show ?thesis
    proof (cases "imap ?key")
      case None
      then show ?thesis using 2(2) 2(4) False by simp
    next
      case (Some i)
      let ?w = "update_batch_instance_status i (queue_status_to_batch_status r) (qi_error_message r) now w"
      have "bw_batches ?w = bw_batches w" "bw_queue ?w = bw_queue w" by (simp_all add: update_batch_instance_status_def)
      moreover have "sync_loop now rs (imap(?key := None)) ?w = (d, imap', w')" using 2(4) False Some by simp
      then have "same_jobs ?w w' \<and> bw_batches w' = bw_batches ?w \<and> bw_queue w' = bw_queue ?w"
        by (rule 2(3) [OF False refl Some])
      ultimately have "same_jobs ?w w' \<and> bw_batches w' = bw_batches w \<and> bw_queue w' = bw_queue w" by simp
      then show ?thesis using same_jobs_trans statements_same_jobs(1) by blast
    qed
  qed
qed simp

section \<open>Cancelling\<close>

lemma cancelled_job_step:
  assumes "jb_cancelled j"
  shows "bw_queue (job_step env now id_of j w) = bw_queue w
    \<and> bw_batches (job_step env now id_of j w) = bw_batches w
    \<and> bw_instances (job_step env now id_of j w) = bw_instances w
    \<and> (\<exists>ph. bw_jobs (job_step env now id_of j w) = update_where (\<lambda>x. jb_no x = jb_no j) (\<lambda>x. x\<lparr>jb_phase := ph\<rparr>) (bw_jobs w)
           \<or> bw_jobs (job_step env now id_of j w) = bw_jobs w)"
proof (cases "jb_phase j")
  case (Prepare est)
  have "prepare_batch_instances env id_of now j est w = None"
    using assms by (simp add: prepare_batch_instances_def split: option.split)
  then show ?thesis using Prepare assms by (auto simp: job_step_def fail_batch_def under_def)
next
  case (Enqueue_next ps target imap n)
  then show ?thesis
    using assms
    by (cases ps) (auto simp: job_step_def finalize_batch_def under_def enqueue_instance_def split: option.split)
qed (use assms in \<open>auto simp: job_step_def fail_batch_def finalize_batch_def under_def\<close>)

fun own_step_of :: "nat \<Rightarrow> batch_event \<Rightarrow> bool" where
  "own_step_of n (Be_job k id_of) = (k = n)"
| "own_step_of n e = False"

lemma cancelled_job_run:
  assumes "\<And>j. j \<in> set (bw_jobs w) \<Longrightarrow> jb_no j = n \<Longrightarrow> jb_cancelled j" "list_all (\<lambda>(env, t, e). own_step_of n e) es"
  shows "bw_queue (batch_run es w) = bw_queue w \<and> bw_batches (batch_run es w) = bw_batches w
    \<and> bw_instances (batch_run es w) = bw_instances w"
  using assms
proof (induction es arbitrary: w)
  case (Cons x es)
  obtain env t e where x: "x = (env, t, e)" by (rule prod_cases3)
  then obtain id_of where e: "e = Be_job n id_of" using Cons.prems(2) by (cases e) auto
  show ?case
  proof (cases "row_of jb_no n (bw_jobs w)")
    case None
    then show ?thesis using Cons by (simp add: x e batch_step_def)
  next
    case (Some j)
    then have j: "jb_cancelled j" "jb_no j = n" using row_of_Some [OF Some] Cons.prems(1) by auto
    let ?w = "job_step env t id_of j w"
    note s = cancelled_job_step [OF j(1), of env t id_of w]
    have "jb_cancelled x" if "x \<in> set (bw_jobs ?w)" "jb_no x = n" for x
      using s that Cons.prems(1) by (auto simp: set_update_where split: if_splits)
    then have "bw_queue (batch_run es ?w) = bw_queue ?w \<and> bw_batches (batch_run es ?w) = bw_batches ?w
        \<and> bw_instances (batch_run es ?w) = bw_instances ?w"
      using Cons.IH [of ?w] Cons.prems(2) by simp
    then show ?thesis using s Some by (simp add: x e batch_step_def)
  qed
qed simp

text \<open>Cancelling a batch takes nothing out of the queue. The request only cancels the context of the
  batch's work, and the statements that were to cancel its queued and running runs are then given that
  context: they fail, and no step of that work changes the queue, the batch or its instances again.\<close>

theorem cancel_leaves_the_queue:
  assumes "handle_cancel_kitchen_batch sess i now w = (200, w')" "map_of (bw_running w) i = Some n"
    and "list_all (\<lambda>(env, t, e). own_step_of n e) es"
  shows "bw_queue (batch_run es w') = bw_queue w \<and> bw_batches (batch_run es w') = bw_batches w'
    \<and> bw_instances (batch_run es w') = bw_instances w'"
proof -
  obtain w1 where w1: "update_kitchen_batch_status i Batch_cancelled now w = Some w1"
    "w' = cancel_pending_batch_instances i now
            (case map_of (bw_running w1) i of None \<Rightarrow> w1 | Some n \<Rightarrow> set_job n (\<lambda>j. j\<lparr>jb_cancelled := True\<rparr>) w1)"
    using assms(1) by (auto simp: handle_cancel_kitchen_batch_def split: if_splits option.splits)
  have "bw_running w1 = bw_running w" "bw_queue w1 = bw_queue w"
    using w1(1) by (auto simp: update_kitchen_batch_status_def update_batches_cases)
  then have w': "w' = cancel_pending_batch_instances i now (set_job n (\<lambda>j. j\<lparr>jb_cancelled := True\<rparr>) w1)"
    and q: "bw_queue w' = bw_queue w"
    using w1(2) assms(2) by (simp_all add: cancel_pending_batch_instances_def)
  have "jb_cancelled j" if "j \<in> set (bw_jobs w')" "jb_no j = n" for j
  proof -
    have "bw_jobs w' = map (\<lambda>x. if jb_no x = n then x\<lparr>jb_cancelled := True\<rparr> else x) (bw_jobs w1)"
      by (simp add: w' cancel_pending_batch_instances_def update_where_def)
    with that(1) have "j \<in> (\<lambda>x. if jb_no x = n then x\<lparr>jb_cancelled := True\<rparr> else x) ` set (bw_jobs w1)" by simp
    then obtain x where "j = (if jb_no x = n then x\<lparr>jb_cancelled := True\<rparr> else x)" by (rule imageE)
    with that(2) show ?thesis by (cases "jb_no x = n") simp_all
  qed
  then show ?thesis using cancelled_job_run [OF _ assms(3), of w'] q by simp
qed

section \<open>One batch at a time\<close>

definition live :: "batch_world \<Rightarrow> job list" where
  "live w = filter (\<lambda>j. jb_phase j \<noteq> Done) (bw_jobs w)"

lemma live_code [code]: "live w = filter (\<lambda>j. case jb_phase j of Done \<Rightarrow> False | _ \<Rightarrow> True) (bw_jobs w)"
  unfolding live_def by (rule filter_cong) (auto split: phase.split)

text \<open>Run requests do not overlap: none is checked while another is between its check and its start.\<close>

fun serial :: "(kitchen_env \<times> int \<times> batch_event) list \<Rightarrow> batch_world \<Rightarrow> bool" where
  "serial [] w = True"
| "serial ((env, now, e) # es) w =
     ((case e of Be_run sess i \<Rightarrow> bw_admitted w = [] | _ \<Rightarrow> True) \<and> serial es (batch_step env now e w))"

text \<open>
  What holds then: numbers of jobs are unique, a job that is not done is in the map of running batches
  under its batch, there is at most one, and none while a request is past the guard.
\<close>

definition jobs_ok :: "batch_world \<Rightarrow> bool" where
  "jobs_ok w =
     (distinct (map jb_no (bw_jobs w)) \<and> list_all (\<lambda>n. n < bw_next_job w) (map jb_no (bw_jobs w))
      \<and> list_all (\<lambda>j. (kb_id (jb_batch j), jb_no j) \<in> set (bw_running w)) (live w)
      \<and> distinct (map fst (bw_running w))
      \<and> length (live w) + length (bw_admitted w) \<le> 1)"

lemma jobs_ok_same: "same_jobs w w' \<Longrightarrow> jobs_ok w' = jobs_ok w"
  by (simp add: jobs_ok_def same_jobs_def live_def)

lemma live_update:
  assumes "distinct (map jb_no js)" "j \<in> set js"
  shows "filter (\<lambda>x. jb_phase x \<noteq> Done) (update_where (\<lambda>x. jb_no x = jb_no j) (\<lambda>x. x\<lparr>jb_phase := Done\<rparr>) js)
       = filter (\<lambda>x. jb_phase x \<noteq> Done \<and> jb_no x \<noteq> jb_no j) js"
  by (induction js) (auto simp: update_where_def)

lemma jobs_ok_goto:
  assumes "jobs_ok w" "j \<in> set (bw_jobs w)" "jb_phase j \<noteq> Done"
  shows "jobs_ok (goto_phase j ph w)"
proof (cases "ph = Done")
  case True
  then have "live (goto_phase j ph w) = filter (\<lambda>x. jb_phase x \<noteq> Done \<and> jb_no x \<noteq> jb_no j) (bw_jobs w)"
    using assms live_update [of "bw_jobs w" j] by (simp add: live_def jobs_ok_def)
  also have "\<dots> = filter (\<lambda>x. jb_no x \<noteq> jb_no j) (live w)" by (simp add: live_def conj_commute)
  finally have l: "live (goto_phase j ph w) = filter (\<lambda>x. jb_no x \<noteq> jb_no j) (live w)" .
  have "length (filter (\<lambda>x. jb_no x \<noteq> jb_no j) (live w)) \<le> length (live w)" by (rule length_filter_le)
  then have n: "length (live (goto_phase j ph w)) + length (bw_admitted w) \<le> 1"
    using assms(1) unfolding l jobs_ok_def by linarith
  have m: "list_all (\<lambda>j. (kb_id (jb_batch j), jb_no j) \<in> set (bw_running w)) (live (goto_phase j ph w))"
    using assms(1) unfolding l jobs_ok_def by (simp add: list_all_iff)
  show ?thesis
    using assms n m by (simp add: jobs_ok_def list_all_iff set_update_where map_update_where)
next
  case False
  have l: "live (goto_phase j ph w) = update_where (\<lambda>x. jb_no x = jb_no j) (\<lambda>x. x\<lparr>jb_phase := ph\<rparr>) (live w)"
  proof -
    have "inj_on jb_no (set (bw_jobs w))" using assms(1) by (simp add: jobs_ok_def distinct_map)
    then have u: "x = j" if "x \<in> set (bw_jobs w)" "jb_no x = jb_no j" for x
      using inj_onD [OF _ that(2) that(1) assms(2)] by blast
    have "filter (\<lambda>x. jb_phase x \<noteq> Done) (update_where (\<lambda>x. jb_no x = jb_no j) (\<lambda>x. x\<lparr>jb_phase := ph\<rparr>) js)
        = update_where (\<lambda>x. jb_no x = jb_no j) (\<lambda>x. x\<lparr>jb_phase := ph\<rparr>) (filter (\<lambda>x. jb_phase x \<noteq> Done) js)"
      if "set js \<subseteq> set (bw_jobs w)" for js
      using that
    proof (induction js)
      case (Cons x js)
      then show ?case using u [of x] assms(3) False by (auto simp: update_where_def)
    qed (simp add: update_where_def)
    from this [of "bw_jobs w"] show ?thesis by (simp add: live_def)
  qed
  then have n: "length (live (goto_phase j ph w)) + length (bw_admitted w) \<le> 1"
    using assms(1) by (simp add: jobs_ok_def update_where_def)
  have m: "list_all (\<lambda>j. (kb_id (jb_batch j), jb_no j) \<in> set (bw_running w)) (live (goto_phase j ph w))"
    using assms(1) unfolding l jobs_ok_def by (auto simp: list_all_iff set_update_where)
  show ?thesis
    using assms n m by (simp add: jobs_ok_def list_all_iff set_update_where map_update_where)
qed

lemma jobs_ok_end:
  assumes "jobs_ok w" "j \<in> set (bw_jobs w)" "jb_phase j \<noteq> Done"
  shows "jobs_ok (end_job j w)"
proof -
  have "j \<in> set (live w)" using assms by (simp add: live_def)
  then have o: "live w = [j]" and a: "bw_admitted w = []"
    using assms(1) by (auto simp: jobs_ok_def length_Suc_conv le_Suc_eq split: list.splits) (cases "live w"; auto)+
  have "live (end_job j w) = filter (\<lambda>x. jb_phase x \<noteq> Done \<and> jb_no x \<noteq> jb_no j) (bw_jobs w)"
    using assms live_update [of "bw_jobs w" j] by (simp add: live_def jobs_ok_def)
  also have "\<dots> = filter (\<lambda>x. jb_no x \<noteq> jb_no j) (live w)" by (simp add: live_def conj_commute)
  finally have l: "live (end_job j w) = []" by (simp add: o)
  show ?thesis
    using assms(1) a
    by (simp add: jobs_ok_def l list_all_iff set_update_where map_update_where not_running_def distinct_map_filter)
qed


lemma jobs_ok_flag: "jobs_ok w \<Longrightarrow> jobs_ok (set_job n (\<lambda>j. j\<lparr>jb_cancelled := True\<rparr>) w)"
proof -
  assume a: "jobs_ok w"
  have l: "live (set_job n (\<lambda>j. j\<lparr>jb_cancelled := True\<rparr>) w)
      = update_where (\<lambda>j. jb_no j = n) (\<lambda>j. j\<lparr>jb_cancelled := True\<rparr>) (live w)"
    unfolding live_def set_job_fields by (induction "bw_jobs w" arbitrary: w) (auto simp: update_where_def filter_map comp_def)
  show ?thesis
    using a unfolding jobs_ok_def l
    by (simp add: map_update_where) (auto simp: list_all_iff update_where_def)
qed

lemma jobs_ok_job_step:
  assumes "jobs_ok w" "j \<in> set (bw_jobs w)"
  shows "jobs_ok (job_step env now id_of j w)"
proof (cases "jb_phase j = Done")
  case True
  then show ?thesis using assms by (simp add: job_step_def)
next
  case False
  have g: "jobs_ok (goto_phase j ph w')" "jobs_ok (end_job j w')" if "same_jobs w w'" for ph w'
    using jobs_ok_goto [of w' j ph] jobs_ok_end [of w' j] jobs_ok_same [OF that] assms False that
    by (simp_all add: same_jobs_def)
  have u: "same_jobs w (under j f w)" if "\<And>w. same_jobs w (f w)" for f w using that by (simp add: under_def)
  have q: "same_jobs w (w\<lparr>bw_queue := t\<rparr>)" for w t by (simp add: same_jobs_def)
  have s: "same_jobs w w2 \<Longrightarrow> same_jobs w (fail_batch j st now w2)" "same_jobs w w2 \<Longrightarrow> same_jobs w (finalize_batch j now w2)" for w2 st
    using same_jobs_trans statements_same_jobs(4,5) by blast+
  show ?thesis
  proof (cases "jb_phase j")
    case (Prepare est)
    then show ?thesis
      using g s same_jobs_refl statements_same_jobs(10)
      by (auto simp: job_step_def split: option.split)
  next
    case (Ready plans imap)
    then show ?thesis
      using g s same_jobs_refl statements_same_jobs(6)
      by (auto simp: job_step_def Let_def split: option.split if_splits)
  next
    case (Enqueue_next ps target imap n)
    show ?thesis
    proof (cases ps)
      case Nil
      then show ?thesis using Enqueue_next g s same_jobs_refl by (simp add: job_step_def)
    next
      case (Cons p ps')
      have i: "same_jobs w (under j (update_batch_instance_status i st e now) w)" for i st e
        by (rule u) (rule statements_same_jobs(1))
      show ?thesis
      proof (cases "enqueue_instance (id_of 0) now j p target w")
        case (Inl e)
        then show ?thesis using Enqueue_next Cons g(1) [OF i] g(1) [OF same_jobs_refl]
          by (simp add: job_step_def split: option.split)
      next
        case (Inr w')
        then show ?thesis using Enqueue_next Cons g(1) [OF statements_same_jobs(9) [OF Inr]] by (simp add: job_step_def)
      qed
    qed
  next
    case (Poll imap)
    show ?thesis
    proof (cases "jb_cancelled j")
      case True
      then show ?thesis using Poll g(2) [OF s(2) [OF u [OF q]]] by (simp add: job_step_def)
    next
      case False
      obtain d imap' w' where y: "sync_batch_progress now (kb_id (jb_batch j)) imap w = (d, imap', w')" by (rule prod_cases3)
      then have y': "same_jobs w w'" using sync_loop_same_jobs unfolding sync_batch_progress_def by blast
      then show ?thesis using Poll False y g(1) [OF y'] g(2) [OF s(2) [OF y']] by (simp add: job_step_def)
    qed
  qed (use assms in \<open>simp add: job_step_def\<close>)
qed

lemma jobs_ok_start:
  assumes "jobs_ok w" "bw_admitted w = b # bs"
  shows "jobs_ok (snd (start_batch env now b (w\<lparr>bw_admitted := bs\<rparr>)))"
proof -
  have e: "live w = []" "bs = []" using assms by (auto simp: jobs_ok_def)
  let ?w = "w\<lparr>bw_admitted := bs\<rparr>"
  have k: "jobs_ok ?w" using assms by (auto simp: jobs_ok_def live_def)
  show ?thesis
  proof (cases "update_kitchen_batch_status (kb_id b) Preparing now ?w")
    case None
    then show ?thesis using k by (simp add: start_batch_def)
  next
    case (Some w')
    then have s: "same_jobs ?w w'" by (rule statements_same_jobs(7))
    then have l': "live w' = []" "bw_admitted w' = []" and k': "jobs_ok w'"
      using e k jobs_ok_same [OF s] by (simp_all add: same_jobs_def live_def)
    show ?thesis
    proof (cases "get_kitchen_batch (kb_id b) w'")
      case None
      then show ?thesis using Some k' by (simp add: start_batch_def)
    next
      case b': (Some b')
      then have i: "kb_id b' = kb_id b" using row_of_Some unfolding get_kitchen_batch_def by metis
      let ?s = "snd (start_batch env now b ?w)"
      have j: "bw_jobs ?s = bw_jobs w' @ [\<lparr>jb_no = bw_next_job w', jb_batch = b', jb_cancelled = False,
                            jb_phase = Prepare (map_option be_cookbooks (resolve_kitchen_batch env b'))\<rparr>]"
        "bw_running ?s = (kb_id b, bw_next_job w') # not_running (kb_id b) (bw_running w')"
        "bw_next_job ?s = bw_next_job w' + 1" "bw_admitted ?s = bw_admitted w'"
        by (simp_all add: start_batch_def Some b')
      have "live ?s = [\<lparr>jb_no = bw_next_job w', jb_batch = b', jb_cancelled = False,
                            jb_phase = Prepare (map_option be_cookbooks (resolve_kitchen_batch env b'))\<rparr>]"
        using l'(1) by (simp add: live_def j)
      moreover have "list_all (\<lambda>n. n < bw_next_job w') (map jb_no (bw_jobs w'))" "distinct (map jb_no (bw_jobs w'))"
        "distinct (map fst (bw_running w'))"
        using k' by (simp_all add: jobs_ok_def)
      ultimately show ?thesis
        using i l'(2)
        by (auto simp: jobs_ok_def j list_all_iff not_running_def distinct_map_filter)
    qed
  qed
qed

lemma jobs_ok_batch_step:
  assumes "jobs_ok w" "case e of Be_run sess i \<Rightarrow> bw_admitted w = [] | _ \<Rightarrow> True"
  shows "jobs_ok (batch_step env now e w)"
proof (cases e)
  case (Be_create i p)
  have "same_jobs w (snd (handle_create_kitchen_batch i p now w))"
    by (simp add: handle_create_kitchen_batch_def create_kitchen_batch_def same_jobs_def)
  then show ?thesis using assms(1) jobs_ok_same by (simp add: Be_create batch_step_def)
next
  case (Be_update sess i p)
  have "same_jobs w (snd (handle_update_kitchen_batch sess i p w))"
    by (simp add: handle_update_kitchen_batch_def update_kitchen_batch_def update_batches_def same_jobs_def)
  then show ?thesis using assms(1) jobs_ok_same by (simp add: Be_update batch_step_def)
next
  case (Be_delete sess i)
  have "same_jobs w (snd (handle_delete_kitchen_batch sess i w))"
    by (simp add: handle_delete_kitchen_batch_def delete_kitchen_batch_def same_jobs_def)
  then show ?thesis using assms(1) jobs_ok_same by (simp add: Be_delete batch_step_def)
next
  case (Be_run sess i)
  have dry: "same_jobs w (snd (handle_run_dry_run_batch b now w))" for b
  proof (cases "update_kitchen_batch_status (kb_id b) Previewing now w")
    case None
    then show ?thesis by (simp add: handle_run_dry_run_batch_def)
  next
    case (Some w1)
    note s = statements_same_jobs(7) [OF Some]
    then show ?thesis
      using same_jobs_trans [OF s] statements_same_jobs(7) by (auto simp: handle_run_dry_run_batch_def Some split: option.split)
  qed
  then have dry: "jobs_ok (snd (handle_run_dry_run_batch b now w))" for b
    using jobs_ok_same assms(1) by blast
  have "live w = []" if "bw_running w = []"
    using assms(1) that by (cases "live w") (auto simp: jobs_ok_def)
  then have ad: "jobs_ok (w\<lparr>bw_admitted := [b]\<rparr>)" if "bw_running w = []" for b
    using assms(1) that by (simp add: jobs_ok_def live_def)
  show ?thesis
    using assms dry ad
    by (simp add: Be_run batch_step_def handle_run_kitchen_batch_def split: option.split)
next
  case Be_start
  then show ?thesis using assms(1) jobs_ok_start by (simp add: batch_step_def split: list.split)
next
  case (Be_cancel sess i)
  have "jobs_ok (snd (handle_cancel_kitchen_batch sess i now w))"
  proof (cases "update_kitchen_batch_status i Batch_cancelled now w")
    case None
    then show ?thesis using assms(1) by (simp add: handle_cancel_kitchen_batch_def split: option.split)
  next
    case (Some w1)
    have "jobs_ok w1" using statements_same_jobs(7) [OF Some] assms(1) jobs_ok_same by blast
    moreover have "jobs_ok (cancel_pending_batch_instances i now w2) = jobs_ok w2" for w2
      by (rule jobs_ok_same) (rule statements_same_jobs(2))
    ultimately show ?thesis using assms(1) jobs_ok_flag
      by (simp add: handle_cancel_kitchen_batch_def Some split: option.split)
  qed
  then show ?thesis by (simp add: Be_cancel batch_step_def)
next
  case (Be_job n id_of)
  show ?thesis
  proof (cases "row_of jb_no n (bw_jobs w)")
    case None
    then show ?thesis using assms(1) by (simp add: Be_job batch_step_def)
  next
    case (Some j)
    then have "j \<in> set (bw_jobs w)" using row_of_Some by metis
    then show ?thesis using assms(1) jobs_ok_job_step Some by (simp add: Be_job batch_step_def)
  qed
next
  case (Be_queue op)
  have "same_jobs w (batch_step env now e w)" by (simp add: Be_queue batch_step_def same_jobs_def)
  then show ?thesis using assms(1) jobs_ok_same by blast
next
  case Be_restart
  then show ?thesis by (simp add: batch_step_def restart_def cancel_stale_batches_def jobs_ok_def live_def)
qed

text \<open>C35: at most one batch is being worked on as long as no request to run a batch is checked while another
  is between its check and its start: whatever else happens, in any order, at most one job is not done, and
  none is while a request is past the guard. The server does not make requests take turns like this.\<close>

theorem one_batch_at_a_time:
  assumes "serial es w" "jobs_ok w"
  shows "length (live (batch_run es w)) + length (bw_admitted (batch_run es w)) \<le> 1"
proof -
  have "jobs_ok (batch_run es w)"
    using assms
  proof (induction es arbitrary: w)
    case (Cons x es)
    obtain env t e where x: "x = (env, t, e)" by (rule prod_cases3)
    then show ?case using Cons jobs_ok_batch_step [of w e env t] by simp
  qed simp
  then show ?thesis by (simp add: jobs_ok_def)
qed

section \<open>Requests that overlap\<close>

lemma start_batch_known:
  assumes "kb_id b \<in> set (map kb_id (bw_batches w))"
  shows "\<exists>j. live (snd (start_batch env now b w)) = live w @ [j]
    \<and> map kb_id (bw_batches (snd (start_batch env now b w))) = map kb_id (bw_batches w)
    \<and> bw_admitted (snd (start_batch env now b w)) = bw_admitted w"
proof -
  let ?t = "update_where (\<lambda>x. kb_id x = kb_id b) (with_status Preparing now) (bw_batches w)"
  have k: "map kb_id ?t = map kb_id (bw_batches w)" by (rule map_update_where) (simp add: with_status_def)
  have "list_ex (\<lambda>x. kb_id x = kb_id b) (bw_batches w)" using assms by (force simp: list_ex_iff)
  then have u: "update_kitchen_batch_status (kb_id b) Preparing now w = Some (w\<lparr>bw_batches := ?t\<rparr>)"
    by (simp add: update_kitchen_batch_status_def update_batches_def)
  have "kb_id b \<in> kb_id ` set ?t" using assms k by (metis set_map)
  then obtain b' where "get_kitchen_batch (kb_id b) (w\<lparr>bw_batches := ?t\<rparr>) = Some b'"
    using row_of_None [of kb_id "kb_id b" ?t] by (cases "row_of kb_id (kb_id b) ?t") (auto simp: get_kitchen_batch_def)
  then show ?thesis using u k by (simp add: start_batch_def live_def)
qed

lemma run_request_admits:
  assumes "require_operator_or_admin sess" "get_kitchen_batch i w = Some b" "kb_status b = Draft" "\<not> kb_dry_run b"
    and "ke_enabled env" "ke_queue_configured env" "bw_running w = []"
  shows "batch_step env now (Be_run sess i) w = w\<lparr>bw_admitted := bw_admitted w @ [b]\<rparr>"
  using assms by (simp add: batch_step_def handle_run_kitchen_batch_def)

text \<open>C40: two requests whose checks are made before either starts both succeed, whether they are for two
  batches or twice for the same one: two jobs then run at a time, although the guard says that only one
  batch may execute.\<close>

theorem overlapping_requests_both_run:
  assumes "require_operator_or_admin sess" "get_kitchen_batch a w = Some ba" "get_kitchen_batch b w = Some bb"
    and "kb_status ba = Draft" "kb_status bb = Draft" "\<not> kb_dry_run ba" "\<not> kb_dry_run bb"
    and "ke_enabled env" "ke_queue_configured env" "bw_running w = []" "bw_admitted w = []"
  shows "length (live (batch_run [(env, t, Be_run sess a), (env, t, Be_run sess b), (env, t, Be_start), (env, t, Be_start)] w))
    = length (live w) + 2"
proof -
  let ?w = "w\<lparr>bw_admitted := [bb]\<rparr>"
  have i: "kb_id ba \<in> set (map kb_id (bw_batches w))" "kb_id bb \<in> set (map kb_id (bw_batches w))"
    using assms(2,3) row_of_Some by (fastforce simp: get_kitchen_batch_def)+
  have r1: "batch_step env t (Be_run sess a) w = w\<lparr>bw_admitted := [ba]\<rparr>"
    using run_request_admits [OF assms(1,2,4,6,8,9,10)] assms(11) by simp
  have "get_kitchen_batch b (w\<lparr>bw_admitted := [ba]\<rparr>) = Some bb" using assms(3) by (simp add: get_kitchen_batch_def)
  from run_request_admits [OF assms(1) this assms(5,7,8,9)]
  have r2: "batch_step env t (Be_run sess b) (w\<lparr>bw_admitted := [ba]\<rparr>) = w\<lparr>bw_admitted := [ba, bb]\<rparr>"
    using assms(10) by simp
  obtain j1 where s1: "live (snd (start_batch env t ba ?w)) = live ?w @ [j1]"
    "map kb_id (bw_batches (snd (start_batch env t ba ?w))) = map kb_id (bw_batches ?w)"
    "bw_admitted (snd (start_batch env t ba ?w)) = [bb]"
    using start_batch_known [of ba ?w env t] i(1) by auto
  let ?w1 = "(snd (start_batch env t ba ?w))\<lparr>bw_admitted := []\<rparr>"
  have "kb_id bb \<in> set (map kb_id (bw_batches ?w1))" using i(2) s1(2) by simp
  from start_batch_known [OF this, of env t] obtain j2 where "live (snd (start_batch env t bb ?w1)) = live ?w1 @ [j2]" by blast
  then show ?thesis using r1 r2 s1 by (simp add: batch_step_def live_def)
qed

section \<open>Witnesses\<close>

definition sample_env :: kitchen_env where
  "sample_env =
     \<lparr>ke_enabled = True, ke_queue_configured = True, ke_entries = [sample_entry], ke_target = ''18'',
      ke_repos = Some [\<lparr>gr_name = ''apt'', gr_url = ''u'', gr_has_test_suite = True, gr_kitchen_excluded = False\<rparr>],
      ke_analysis = (\<lambda>r. Some (Some sample_analysis)), ke_exclusions = (\<lambda>r. Some []), ke_results = (\<lambda>r. Some [])\<rparr>"

definition sample_batch :: "string \<Rightarrow> batch_params" where
  "sample_batch n =
     \<lparr>bp_name = n,
      bp_filters = \<lparr>bf_cookbook_names = [], bf_platforms = [], bf_exclude_cookbooks = [], bf_has_test_suite = None,
                    bf_previous_status = [], bf_target_chef_versions = [], bf_include_excluded = False\<rparr>,
      bp_max_count = None, bp_dry_run = False\<rparr>"

definition no_batches :: batch_world where
  "no_batches =
     \<lparr>bw_batches = [], bw_instances = [], bw_queue = [], bw_running = [], bw_admitted = [], bw_jobs = [], bw_next_job = 0\<rparr>"

definition sample_admin :: "session_info option" where
  "sample_admin = Some \<lparr>si_session_id = ''s'', si_username = ''u'', si_auth_provider = ''local'', si_role = ''admin'',
     si_expires_at = None, si_access_method = ''ui'', si_credential_id = [], si_credential_name = [], si_can_write = True\<rparr>"

definition drafts :: "(kitchen_env \<times> int \<times> batch_event) list" where
  "drafts = [(sample_env, 1, Be_create ''a'' (sample_batch ''A'')), (sample_env, 2, Be_create ''b'' (sample_batch ''B''))]"

definition one_run :: "(kitchen_env \<times> int \<times> batch_event) list" where
  "one_run = drafts @
     [(sample_env, 3, Be_run sample_admin ''a''), (sample_env, 4, Be_start), (sample_env, 5, Be_job 0 (\<lambda>n. ''i'')),
      (sample_env, 6, Be_job 0 (\<lambda>n. ''r'')), (sample_env, 7, Be_job 0 (\<lambda>n. ''q'')), (sample_env, 8, Be_run sample_admin ''b'')]"

theorem one_batch_at_a_time_witness:
  "length (live (batch_run one_run no_batches)) = 1 \<and> bw_admitted (batch_run one_run no_batches) = []"
proof -
  have "serial one_run no_batches" by code_simp
  moreover have "jobs_ok no_batches" by code_simp
  ultimately have "length (live (batch_run one_run no_batches)) + length (bw_admitted (batch_run one_run no_batches)) \<le> 1"
    by (rule one_batch_at_a_time)
  moreover have "length (live (batch_run one_run no_batches)) = 1" by code_simp
  ultimately show ?thesis by simp
qed

theorem cancel_leaves_the_queue_witness:
  "\<exists>w'. handle_cancel_kitchen_batch sample_admin ''a'' 9 (batch_run one_run no_batches) = (200, w')
     \<and> length (bw_queue (batch_run [(sample_env, 10, Be_job 0 (\<lambda>n. ''x'')), (sample_env, 11, Be_job 0 (\<lambda>n. ''x''))] w')) = 1"
proof -
  let ?w = "batch_run one_run no_batches"
  obtain w' where w': "handle_cancel_kitchen_batch sample_admin ''a'' 9 ?w = (200, w')"
  proof -
    have "fst (handle_cancel_kitchen_batch sample_admin ''a'' 9 ?w) = 200" by code_simp
    then show thesis using that prod.collapse by metis
  qed
  moreover have "map_of (bw_running ?w) ''a'' = Some 0" by code_simp
  moreover have "length (bw_queue ?w) = 1" by code_simp
  ultimately show ?thesis
    using cancel_leaves_the_queue [where es = "[(sample_env, 10, Be_job 0 (\<lambda>n. ''x'')), (sample_env, 11, Be_job 0 (\<lambda>n. ''x''))]"]
    by fastforce
qed

theorem overlapping_requests_both_run_witness:
  "length (live (batch_run [(sample_env, 3, Be_run sample_admin ''a''), (sample_env, 3, Be_run sample_admin ''b''),
     (sample_env, 3, Be_start), (sample_env, 3, Be_start)] (batch_run drafts no_batches))) = 2"
proof -
  let ?w = "batch_run drafts no_batches"
  have "map_option (\<lambda>b. kb_status b = Draft \<and> \<not> kb_dry_run b) (get_kitchen_batch ''a'' ?w) = Some True"
    "map_option (\<lambda>b. kb_status b = Draft \<and> \<not> kb_dry_run b) (get_kitchen_batch ''b'' ?w) = Some True" by code_simp+
  then obtain ba bb where g: "get_kitchen_batch ''a'' ?w = Some ba" "get_kitchen_batch ''b'' ?w = Some bb"
    "kb_status ba = Draft" "\<not> kb_dry_run ba" "kb_status bb = Draft" "\<not> kb_dry_run bb" by auto
  have "require_operator_or_admin sample_admin" "bw_running ?w = []" "bw_admitted ?w = []" "live ?w = []"
    "ke_enabled sample_env" "ke_queue_configured sample_env" by code_simp+
  then show ?thesis using overlapping_requests_both_run [OF _ g(1,2,3,5,4,6)] by simp
qed

end
