(* ===== verification/Event_Hub.thy ===== *)
theory Event_Hub
  imports Prelude
begin

text \<open>
  The hub that fans events out to WebSocket clients (\<open>internal/webapi/eventhub.go\<close>) and the
  goroutine of a connection (\<open>internal/webapi/websocket.go\<close>). One action is what a goroutine does
  between two points others can observe: a send to or a receive from a channel, one turn of the loop
  over the clients, a call of \<open>Subscribe\<close>. Which action comes next is free, as the scheduler and
  \<open>select\<close> are; an action that cannot happen in a state has no result there. A send on or a close
  of a closed channel sets \<open>hb_panicked\<close>, and nothing happens afterwards. The map of clients is a
  set, from which the loop takes its elements in any order.
\<close>

section \<open>Events and subscriptions\<close>

definition event_log_entry :: string where "event_log_entry = ''log_entry''"
definition event_connected :: string where "event_connected = ''connected''"

lemma event_types_distinct [simp]: "event_connected \<noteq> event_log_entry" "event_log_entry \<noteq> event_connected"
  by (simp_all add: event_log_entry_def event_connected_def)

text \<open>The severity is the string in the data under that name, if the data is a map with one.\<close>

record hub_event =
  he_type :: string
  he_severity :: "string option"
  he_data :: string

definition is_subscription_gated :: "string \<Rightarrow> bool" where
  "is_subscription_gated t = (t = event_log_entry)"

definition severity_value :: "string \<Rightarrow> int" where
  "severity_value s =
     (let u = to_upper s
      in if u = ''DEBUG'' then 0 else if u = ''INFO'' then 1 else if u = ''WARN'' then 2
         else if u = ''ERROR'' then 3 else 0)"

definition is_valid_severity :: "string \<Rightarrow> bool" where
  "is_valid_severity s = (to_upper s \<in> {''DEBUG'', ''INFO'', ''WARN'', ''ERROR''})"

text \<open>
  Where the goroutine of a connection is: in \<open>Register\<close> before its send, between the send and the
  second look at \<open>done\<close>, back from it, in the write pump, about to call \<open>Unregister\<close>, finished.
  \<open>wc_from\<close>, \<open>wc_taken\<close> and \<open>wc_written\<close> are history: how many events the hub had taken up when it
  registered the client, what was received from the channel and what was written as frames.
\<close>

datatype connection = Registering | Registered | Returned_client | Pumping | Leaving | Left

record ws_client =
  wc_open :: bool
  wc_cap :: nat
  wc_queue :: "hub_event list"
  wc_subs :: "string \<rightharpoonup> string"
  wc_at :: connection
  wc_from :: nat
  wc_taken :: "hub_event list"
  wc_written :: "hub_event list"

definition should_receive :: "ws_client \<Rightarrow> hub_event \<Rightarrow> bool" where
  "should_receive c e =
     (if \<not> is_subscription_gated (he_type e) then True
      else case wc_subs c (he_type e) of
             None \<Rightarrow> False
           | Some least \<Rightarrow>
               if he_type e = event_log_entry \<and> least \<noteq> []
               then (case he_severity e of
                       None \<Rightarrow> True | Some s \<Rightarrow> \<not> severity_value s < severity_value least)
               else True)"

text \<open>\<open>handleSubscribe\<close>, with the empty string for filters left out, and \<open>handleUnsubscribe\<close>.\<close>

definition handle_subscribe :: "string \<Rightarrow> string \<Rightarrow> ws_client \<Rightarrow> ws_client" where
  "handle_subscribe t least c =
     (if \<not> is_subscription_gated t then c
      else if least \<noteq> [] \<and> \<not> is_valid_severity least then c
      else c\<lparr>wc_subs := (wc_subs c)(t \<mapsto> least)\<rparr>)"

definition handle_unsubscribe :: "string \<Rightarrow> ws_client \<Rightarrow> ws_client" where
  "handle_unsubscribe t c = c\<lparr>wc_subs := (wc_subs c)(t := None)\<rparr>"

section \<open>The hub\<close>

text \<open>The run loop waits in \<open>select\<close>, has clients left to offer an event to, or has returned.\<close>

datatype run_loop = Selecting | Fanning hub_event "nat set" | Exited

record hub =
  hb_max :: int
  hb_buffer :: int
  hb_register :: "nat list"
  hb_unregister :: "nat list"
  hb_broadcast :: "hub_event list"
  hb_clients :: "nat set"
  hb_count :: int
  hb_done :: bool
  hb_run :: run_loop
  hb_store :: "nat \<rightharpoonup> ws_client"
  hb_next :: nat
  hb_sent :: "hub_event list"
  hb_panicked :: bool

definition control_cap :: nat where "control_cap = 16"
definition broadcast_cap :: nat where "broadcast_cap = 256"

text \<open>\<open>Reconfigure\<close>; the options of \<open>NewEventHub\<close> treat their numbers in the same way.\<close>

definition reconfigure :: "int \<Rightarrow> int \<Rightarrow> hub \<Rightarrow> hub" where
  "reconfigure max_connections buffer h =
     h\<lparr>hb_max := (if 0 < max_connections then max_connections else hb_max h),
       hb_buffer := (if 0 < buffer then buffer else hb_buffer h)\<rparr>"

definition new_event_hub :: "int \<Rightarrow> int \<Rightarrow> hub" where
  "new_event_hub max_connections buffer =
     reconfigure max_connections buffer
       \<lparr>hb_max = 100, hb_buffer = 64, hb_register = [], hb_unregister = [], hb_broadcast = [], hb_clients = {},
        hb_count = 0, hb_done = False, hb_run = Selecting, hb_store = Map.empty, hb_next = 0, hb_sent = [],
        hb_panicked = False\<rparr>"

definition on_client :: "nat \<Rightarrow> (ws_client \<Rightarrow> ws_client) \<Rightarrow> hub \<Rightarrow> hub" where
  "on_client i f h = h\<lparr>hb_store := (hb_store h)(i := map_option f (hb_store h i))\<rparr>"

definition is_open :: "nat \<Rightarrow> hub \<Rightarrow> bool" where
  "is_open i h = (case hb_store h i of None \<Rightarrow> False | Some c \<Rightarrow> wc_open c)"

definition close_send :: "nat \<Rightarrow> hub \<Rightarrow> hub" where
  "close_send i h =
     (if is_open i h then on_client i (\<lambda>c. c\<lparr>wc_open := False\<rparr>) h else h\<lparr>hb_panicked := True\<rparr>)"

definition close_all :: "hub \<Rightarrow> hub" where
  "close_all h =
     h\<lparr>hb_store := (\<lambda>i. if i \<in> hb_clients h then map_option (\<lambda>c. c\<lparr>wc_open := False\<rparr>) (hb_store h i) else hb_store h i),
       hb_panicked := (\<exists>i \<in> hb_clients h. \<not> is_open i h)\<rparr>"

definition count_clients :: "hub \<Rightarrow> hub" where
  "count_clients h = h\<lparr>hb_count := int (card (hb_clients h))\<rparr>"

definition new_client :: "hub \<Rightarrow> ws_client" where
  "new_client h =
     \<lparr>wc_open = True, wc_cap = nat (hb_buffer h), wc_queue = [], wc_subs = Map.empty, wc_at = Registering,
      wc_from = 0, wc_taken = [], wc_written = []\<rparr>"

definition connected_event :: hub_event where
  "connected_event = \<lparr>he_type = event_connected, he_severity = None, he_data = []\<rparr>"

section \<open>The run loop\<close>

definition run_done :: "hub \<Rightarrow> hub option" where
  "run_done h =
     (if hb_run h = Selecting \<and> hb_done h
      then Some ((close_all h)\<lparr>hb_clients := {}, hb_count := 0, hb_run := Exited\<rparr>) else None)"

definition run_register :: "hub \<Rightarrow> hub option" where
  "run_register h =
     (if hb_run h \<noteq> Selecting then None
      else case hb_register h of
             [] \<Rightarrow> None
           | i # is \<Rightarrow>
               let h1 = h\<lparr>hb_register := is\<rparr>
               in if int (card (hb_clients h)) \<ge> hb_max h then Some (close_send i h1)
                  else Some (on_client i (\<lambda>c. c\<lparr>wc_from := length (hb_sent h)\<rparr>)
                               (count_clients (h1\<lparr>hb_clients := insert i (hb_clients h)\<rparr>))))"

definition run_unregister :: "hub \<Rightarrow> hub option" where
  "run_unregister h =
     (if hb_run h \<noteq> Selecting then None
      else case hb_unregister h of
             [] \<Rightarrow> None
           | i # is \<Rightarrow>
               let h1 = h\<lparr>hb_unregister := is\<rparr>
               in if i \<in> hb_clients h then Some (count_clients ((close_send i h1)\<lparr>hb_clients := hb_clients h - {i}\<rparr>))
                  else Some h1)"

definition run_broadcast :: "hub \<Rightarrow> hub option" where
  "run_broadcast h =
     (if hb_run h \<noteq> Selecting then None
      else case hb_broadcast h of
             [] \<Rightarrow> None
           | e # es \<Rightarrow> Some (h\<lparr>hb_broadcast := es, hb_run := Fanning e (hb_clients h), hb_sent := hb_sent h @ [e]\<rparr>))"

text \<open>One client of the loop over the clients, and the end of the loop.\<close>

definition offer :: "nat \<Rightarrow> hub_event \<Rightarrow> hub \<Rightarrow> hub" where
  "offer i e h =
     (case hb_store h i of
        None \<Rightarrow> h
      | Some c \<Rightarrow>
          if \<not> should_receive c e then h
          else if \<not> wc_open c then h\<lparr>hb_panicked := True\<rparr>
          else if length (wc_queue c) < wc_cap c then on_client i (\<lambda>c. c\<lparr>wc_queue := wc_queue c @ [e]\<rparr>) h
          else (close_send i h)\<lparr>hb_clients := hb_clients h - {i}\<rparr>)"

definition run_offer :: "nat \<Rightarrow> hub \<Rightarrow> hub option" where
  "run_offer i h =
     (case hb_run h of
        Fanning e todo \<Rightarrow> if i \<in> todo then Some ((offer i e h)\<lparr>hb_run := Fanning e (todo - {i})\<rparr>) else None
      | _ \<Rightarrow> None)"

definition run_offered :: "hub \<Rightarrow> hub option" where
  "run_offered h =
     (case hb_run h of
        Fanning e todo \<Rightarrow> if todo = {} then Some ((count_clients h)\<lparr>hb_run := Selecting\<rparr>) else None
      | _ \<Rightarrow> None)"

section \<open>Callers\<close>

definition broadcast :: "hub_event \<Rightarrow> hub \<Rightarrow> hub" where
  "broadcast e h = (if length (hb_broadcast h) < broadcast_cap then h\<lparr>hb_broadcast := hb_broadcast h @ [e]\<rparr> else h)"

definition connect :: "hub \<Rightarrow> hub" where
  "connect h = h\<lparr>hb_store := (hb_store h)(hb_next h \<mapsto> new_client h), hb_next := hb_next h + 1\<rparr>"

definition move :: "nat \<Rightarrow> connection \<Rightarrow> hub \<Rightarrow> hub" where
  "move i p = on_client i (\<lambda>c. c\<lparr>wc_at := p\<rparr>)"

definition at :: "nat \<Rightarrow> connection \<Rightarrow> hub \<Rightarrow> bool" where
  "at i p h = (case hb_store h i of None \<Rightarrow> False | Some c \<Rightarrow> wc_at c = p)"

text \<open>\<open>Register\<close>: the send, the second look at \<open>done\<close>, and the other case of the \<open>select\<close>.\<close>

definition register_send :: "nat \<Rightarrow> hub \<Rightarrow> hub option" where
  "register_send i h =
     (if at i Registering h \<and> length (hb_register h) < control_cap
      then Some (move i Registered (h\<lparr>hb_register := hb_register h @ [i]\<rparr>)) else None)"

definition register_check :: "nat \<Rightarrow> hub \<Rightarrow> hub option" where
  "register_check i h =
     (if at i Registered h then Some (move i Returned_client (if hb_done h then close_send i h else h)) else None)"

definition register_stopped :: "nat \<Rightarrow> hub \<Rightarrow> hub option" where
  "register_stopped i h =
     (if at i Registering h \<and> hb_done h then Some (move i Returned_client (close_send i h)) else None)"

text \<open>\<open>Unregister\<close>, which a connection calls once, when it ends.\<close>

definition unregister_send :: "nat \<Rightarrow> hub \<Rightarrow> hub option" where
  "unregister_send i h =
     (if at i Leaving h \<and> length (hb_unregister h) < control_cap
      then Some (move i Left (h\<lparr>hb_unregister := hb_unregister h @ [i]\<rparr>)) else None)"

definition unregister_stopped :: "nat \<Rightarrow> hub \<Rightarrow> hub option" where
  "unregister_stopped i h = (if at i Leaving h \<and> hb_done h then Some (move i Left h) else None)"

text \<open>
  The connection: the look at the channel after registering, an event from the channel to the
  client, and the end of the connection for any other reason.
\<close>

definition first_look :: "nat \<Rightarrow> hub \<Rightarrow> hub option" where
  "first_look i h =
     (if \<not> at i Returned_client h then None
      else Some (on_client i (\<lambda>c.
             case wc_queue c of
               e # es \<Rightarrow> c\<lparr>wc_queue := es, wc_taken := wc_taken c @ [e], wc_written := [connected_event], wc_at := Pumping\<rparr>
             | [] \<Rightarrow> if wc_open c then c\<lparr>wc_written := [connected_event], wc_at := Pumping\<rparr> else c\<lparr>wc_at := Leaving\<rparr>) h))"

definition pump :: "nat \<Rightarrow> hub \<Rightarrow> hub option" where
  "pump i h =
     (case hb_store h i of
        None \<Rightarrow> None
      | Some c \<Rightarrow>
          if wc_at c \<noteq> Pumping then None
          else case wc_queue c of
                 e # es \<Rightarrow> Some (on_client i (\<lambda>c. c\<lparr>wc_queue := es, wc_taken := wc_taken c @ [e], wc_written := wc_written c @ [e]\<rparr>) h)
               | [] \<Rightarrow> if wc_open c then None else Some (move i Leaving h))"

definition disconnect :: "nat \<Rightarrow> hub \<Rightarrow> hub option" where
  "disconnect i h = (if at i Pumping h then Some (move i Leaving h) else None)"

section \<open>Actions\<close>

datatype hub_action =
  Connect | Register_send nat | Register_check nat | Register_stopped nat | First_look nat | Pump nat | Disconnect nat
| Unregister_send nat | Unregister_stopped nat | Subscribe nat string string | Unsubscribe nat string
| Broadcast hub_event | Reconfigure int int | Stop_hub | Run_done | Run_register | Run_unregister | Run_broadcast
| Run_offer nat | Run_offered

fun hub_do :: "hub_action \<Rightarrow> hub \<Rightarrow> hub option" where
  "hub_do Connect h = Some (connect h)"
| "hub_do (Register_send i) h = register_send i h"
| "hub_do (Register_check i) h = register_check i h"
| "hub_do (Register_stopped i) h = register_stopped i h"
| "hub_do (First_look i) h = first_look i h"
| "hub_do (Pump i) h = pump i h"
| "hub_do (Disconnect i) h = disconnect i h"
| "hub_do (Unregister_send i) h = unregister_send i h"
| "hub_do (Unregister_stopped i) h = unregister_stopped i h"
| "hub_do (Subscribe i t least) h = Some (on_client i (handle_subscribe t least) h)"
| "hub_do (Unsubscribe i t) h = Some (on_client i (handle_unsubscribe t) h)"
| "hub_do (Broadcast e) h = Some (broadcast e h)"
| "hub_do (Reconfigure m b) h = Some (reconfigure m b h)"
| "hub_do Stop_hub h = Some (h\<lparr>hb_done := True\<rparr>)"
| "hub_do Run_done h = run_done h"
| "hub_do Run_register h = run_register h"
| "hub_do Run_unregister h = run_unregister h"
| "hub_do Run_broadcast h = run_broadcast h"
| "hub_do (Run_offer i) h = run_offer i h"
| "hub_do Run_offered h = run_offered h"

text \<open>The states a hub can get to by a list of actions.\<close>

inductive hub_run :: "hub \<Rightarrow> hub_action list \<Rightarrow> hub \<Rightarrow> bool" where
  hub_rest: "hub_run h [] h"
| hub_act: "\<not> hb_panicked h \<Longrightarrow> hub_do a h = Some h1 \<Longrightarrow> hub_run h1 as h2 \<Longrightarrow> hub_run h (a # as) h2"

inductive_cases hub_run_cases: "hub_run h (a # as) h'"

inductive_simps hub_run_simps:
  "hub_run h [] h'"
  "hub_run h (a # as) h'"

section \<open>What a hub keeps while it is not stopped\<close>

text \<open>
  Clients and registrations waiting are open, apart from each other and from connections that have not
  sent theirs; the clients left to offer an event to are clients.
\<close>

definition todo_of :: "hub \<Rightarrow> nat set" where
  "todo_of h = (case hb_run h of Fanning e todo \<Rightarrow> todo | _ \<Rightarrow> {})"

definition hub_ok :: "hub \<Rightarrow> bool" where
  "hub_ok h =
     (\<not> hb_panicked h \<and> \<not> hb_done h \<and> hb_run h \<noteq> Exited
      \<and> finite (hb_clients h) \<and> todo_of h \<subseteq> hb_clients h
      \<and> (\<forall>i \<in> hb_clients h. is_open i h \<and> \<not> at i Registering h)
      \<and> (\<forall>i \<in> set (hb_register h). is_open i h \<and> \<not> at i Registering h \<and> i \<notin> hb_clients h)
      \<and> distinct (hb_register h)
      \<and> (\<forall>i. at i Registering h \<longrightarrow> is_open i h)
      \<and> (\<forall>i. hb_store h i \<noteq> None \<longrightarrow> i < hb_next h))"

lemma on_client_fields [simp]:
  "hb_max (on_client i f h) = hb_max h" "hb_buffer (on_client i f h) = hb_buffer h"
  "hb_register (on_client i f h) = hb_register h" "hb_unregister (on_client i f h) = hb_unregister h"
  "hb_broadcast (on_client i f h) = hb_broadcast h" "hb_clients (on_client i f h) = hb_clients h"
  "hb_count (on_client i f h) = hb_count h" "hb_done (on_client i f h) = hb_done h"
  "hb_run (on_client i f h) = hb_run h" "hb_next (on_client i f h) = hb_next h"
  "hb_sent (on_client i f h) = hb_sent h" "hb_panicked (on_client i f h) = hb_panicked h"
  "hb_store (on_client i f h) j = (if j = i then map_option f (hb_store h i) else hb_store h j)"
  by (simp_all add: on_client_def)

lemma move_fields [simp]:
  "hb_max (move i p h) = hb_max h" "hb_buffer (move i p h) = hb_buffer h"
  "hb_register (move i p h) = hb_register h" "hb_unregister (move i p h) = hb_unregister h"
  "hb_broadcast (move i p h) = hb_broadcast h" "hb_clients (move i p h) = hb_clients h"
  "hb_count (move i p h) = hb_count h" "hb_done (move i p h) = hb_done h"
  "hb_run (move i p h) = hb_run h" "hb_next (move i p h) = hb_next h"
  "hb_sent (move i p h) = hb_sent h" "hb_panicked (move i p h) = hb_panicked h"
  "hb_store (move i p h) j = (if j = i then map_option (\<lambda>c. c\<lparr>wc_at := p\<rparr>) (hb_store h i) else hb_store h j)"
  by (simp_all add: move_def)

lemma close_send_fields [simp]:
  "hb_max (close_send i h) = hb_max h" "hb_buffer (close_send i h) = hb_buffer h"
  "hb_register (close_send i h) = hb_register h" "hb_unregister (close_send i h) = hb_unregister h"
  "hb_broadcast (close_send i h) = hb_broadcast h" "hb_clients (close_send i h) = hb_clients h"
  "hb_count (close_send i h) = hb_count h" "hb_done (close_send i h) = hb_done h"
  "hb_run (close_send i h) = hb_run h" "hb_next (close_send i h) = hb_next h"
  "hb_sent (close_send i h) = hb_sent h"
  "hb_panicked (close_send i h) = (hb_panicked h \<or> \<not> is_open i h)"
  "hb_store (close_send i h) j =
     (if j = i \<and> is_open i h then map_option (\<lambda>c. c\<lparr>wc_open := False\<rparr>) (hb_store h i) else hb_store h j)"
  by (simp_all add: close_send_def)

lemma count_clients_fields [simp]:
  "hb_max (count_clients h) = hb_max h" "hb_buffer (count_clients h) = hb_buffer h"
  "hb_register (count_clients h) = hb_register h" "hb_unregister (count_clients h) = hb_unregister h"
  "hb_broadcast (count_clients h) = hb_broadcast h" "hb_clients (count_clients h) = hb_clients h"
  "hb_done (count_clients h) = hb_done h" "hb_run (count_clients h) = hb_run h"
  "hb_next (count_clients h) = hb_next h" "hb_sent (count_clients h) = hb_sent h"
  "hb_panicked (count_clients h) = hb_panicked h" "hb_store (count_clients h) = hb_store h"
  "hb_count (count_clients h) = int (card (hb_clients h))"
  by (simp_all add: count_clients_def)

text \<open>Both tests depend on the map of connections alone.\<close>

lemma test_store_cong:
  "hb_store h i = hb_store h' i \<Longrightarrow> is_open i h = is_open i h'"
  "hb_store h i = hb_store h' i \<Longrightarrow> at i p h = at i p h'"
  by (simp_all add: is_open_def at_def)

text \<open>A change of one connection that leaves its channel open and keeps it out of \<open>Register\<close>.\<close>

lemma hub_ok_client:
  assumes "hub_ok h" "\<And>c. hb_store h i = Some c \<Longrightarrow> wc_open (f c) = wc_open c"
    and "\<And>c. hb_store h i = Some c \<Longrightarrow> wc_at (f c) = Registering \<longleftrightarrow> wc_at c = Registering"
  shows "hub_ok (on_client i f h)"
proof -
  have t: "is_open j (on_client i f h) = is_open j h" "at j Registering (on_client i f h) = at j Registering h" for j
    using assms(2,3) by (auto simp: is_open_def at_def split: option.split)
  show ?thesis
    using assms(1) unfolding hub_ok_def t by (auto simp: todo_of_def split: if_splits)
qed

lemma hub_ok_move: "hub_ok h \<Longrightarrow> at i q h \<Longrightarrow> q \<noteq> Registering \<Longrightarrow> p \<noteq> Registering \<Longrightarrow> hub_ok (move i p h)"
  unfolding move_def by (rule hub_ok_client) (auto simp: at_def)

lemma hub_ok_calls:
  assumes "hub_ok h" "a \<noteq> Stop_hub" "hub_do a h = Some h'"
    and "a \<notin> {Run_done, Run_register, Run_unregister, Run_broadcast, Run_offered} \<and> (\<nexists>i. a = Run_offer i)"
  shows "hub_ok h'"
proof -
  have nd: "\<not> hb_done h" using assms(1) by (simp add: hub_ok_def)
  show ?thesis
  proof (cases a)
    case Connect
    have n: "hb_store h (hb_next h) = None" using assms(1) by (auto simp: hub_ok_def)
    then have "hb_next h \<notin> hb_clients h" "hb_next h \<notin> set (hb_register h)"
      using assms(1) by (auto simp: hub_ok_def is_open_def)
    moreover have "is_open j (connect h) = (j = hb_next h \<or> is_open j h)"
      "at j Registering (connect h) = (j = hb_next h \<or> at j Registering h)" for j
      using n by (auto simp: connect_def is_open_def at_def new_client_def)
    ultimately have "hub_ok (connect h)"
      using assms(1) by (auto simp: hub_ok_def connect_def todo_of_def less_Suc_eq)
    then show ?thesis using assms(3) Connect by simp
  next
    case (Register_send i)
    then have a: "at i Registering h" "h' = move i Registered (h\<lparr>hb_register := hb_register h @ [i]\<rparr>)"
      using assms(3) by (auto simp: register_send_def split: if_splits)
    have t: "is_open j h' = is_open j h" "at j Registering h' = (j \<noteq> i \<and> at j Registering h)" for j
      by (auto simp: a(2) is_open_def at_def split: option.split)
    show ?thesis using assms(1) a(1) unfolding hub_ok_def t by (auto simp: a(2) todo_of_def split: if_splits)
  next
    case (Register_check i)
    then show ?thesis using assms(1,3) nd hub_ok_move by (auto simp: register_check_def split: if_splits)
  next
    case (First_look i)
    then have a: "at i Returned_client h" using assms(3) by (auto simp: first_look_def split: if_splits)
    have "hub_ok (on_client i (\<lambda>c.
             case wc_queue c of
               e # es \<Rightarrow> c\<lparr>wc_queue := es, wc_taken := wc_taken c @ [e], wc_written := [connected_event], wc_at := Pumping\<rparr>
             | [] \<Rightarrow> if wc_open c then c\<lparr>wc_written := [connected_event], wc_at := Pumping\<rparr> else c\<lparr>wc_at := Leaving\<rparr>) h)"
      by (rule hub_ok_client [OF assms(1)]) (use a in \<open>auto simp: at_def split: list.split\<close>)
    then show ?thesis using assms(3) First_look a by (simp add: first_look_def)
  next
    case (Pump i)
    then obtain c where c: "hb_store h i = Some c" "wc_at c = Pumping"
      using assms(3) by (auto simp: pump_def split: option.splits if_splits)
    have "hub_ok (on_client i (\<lambda>c. c\<lparr>wc_queue := es, wc_taken := wc_taken c @ [e], wc_written := wc_written c @ [e]\<rparr>) h)"
      for e es by (rule hub_ok_client [OF assms(1)]) simp_all
    moreover have "hub_ok (move i Leaving h)" using hub_ok_move [OF assms(1), of i Pumping] c by (simp add: at_def)
    ultimately show ?thesis using assms(3) Pump c by (auto simp: pump_def split: list.splits if_splits)
  next
    case (Disconnect i)
    then show ?thesis using assms(1,3) hub_ok_move by (auto simp: disconnect_def split: if_splits)
  next
    case (Unregister_send i)
    then have a: "at i Leaving h" "h' = move i Left (h\<lparr>hb_unregister := hb_unregister h @ [i]\<rparr>)"
      using assms(3) by (auto simp: unregister_send_def split: if_splits)
    have "hub_ok (h\<lparr>hb_unregister := hb_unregister h @ [i]\<rparr>)"
      using assms(1) by (simp add: hub_ok_def todo_of_def is_open_def at_def)
    then show ?thesis unfolding a(2) by (rule hub_ok_move [where q = Leaving]) (use a(1) in \<open>simp_all add: at_def\<close>)
  next
    case (Subscribe i t least)
    have "hub_ok (on_client i (handle_subscribe t least) h)"
      by (rule hub_ok_client [OF assms(1)]) (simp_all add: handle_subscribe_def)
    then show ?thesis using assms(3) Subscribe by simp
  next
    case (Unsubscribe i t)
    have "hub_ok (on_client i (handle_unsubscribe t) h)"
      by (rule hub_ok_client [OF assms(1)]) (simp_all add: handle_unsubscribe_def)
    then show ?thesis using assms(3) Unsubscribe by simp
  next
    case (Broadcast e)
    then show ?thesis using assms(1,3) by (auto simp: broadcast_def hub_ok_def todo_of_def is_open_def at_def split: if_splits)
  next
    case (Reconfigure m b)
    then show ?thesis using assms(1,3) by (auto simp: reconfigure_def hub_ok_def todo_of_def is_open_def at_def)
  qed (use assms nd in \<open>auto simp: register_stopped_def unregister_stopped_def split: if_splits\<close>)
qed

lemma close_send_tests:
  assumes "is_open i h"
  shows "is_open j (close_send i h) = (j \<noteq> i \<and> is_open j h)" "at j p (close_send i h) = at j p h"
  using assms by (auto simp: is_open_def at_def close_send_def split: option.splits)

lemma hub_ok_cong:
  assumes "hub_ok h" "hb_store h' = hb_store h" "hb_clients h' = hb_clients h" "hb_register h' = hb_register h"
    and "hb_run h' = hb_run h" "hb_done h' = hb_done h" "hb_panicked h' = hb_panicked h" "hb_next h' = hb_next h"
  shows "hub_ok h'"
  using assms by (simp add: hub_ok_def todo_of_def is_open_def at_def)

text \<open>A client that is closed when it leaves the hub.\<close>

lemma hub_ok_close:
  assumes "hub_ok h" "is_open i h" "\<not> at i Registering h"
  shows "hub_ok ((close_send i h)\<lparr>hb_clients := hb_clients h - {i}, hb_register := filter (\<lambda>j. j \<noteq> i) (hb_register h),
                   hb_run := (case hb_run h of Fanning e todo \<Rightarrow> Fanning e (todo - {i}) | r \<Rightarrow> r)\<rparr>)"
    (is "hub_ok ?h")
proof -
  have t: "is_open j ?h = (j \<noteq> i \<and> is_open j h)" "at j p ?h = at j p h" for j p
    using close_send_tests(1) [OF assms(2), of j] close_send_tests(2) [OF assms(2), of j p] by (simp_all add: is_open_def at_def)
  have d: "todo_of ?h = todo_of h - {i}" by (auto simp: todo_of_def split: run_loop.splits)
  have r: "hb_run ?h \<noteq> Exited" using assms(1) by (auto simp: hub_ok_def split: run_loop.splits)
  show ?thesis
    using assms r unfolding hub_ok_def t d by (auto split: if_splits)
qed

lemma hub_ok_take_register:
  assumes "hub_ok h" "hb_register h = i # is"
  shows "hub_ok (h\<lparr>hb_register := is\<rparr>)" "is_open i h" "\<not> at i Registering h" "i \<notin> hb_clients h" "i \<notin> set is"
  using assms by (auto simp: hub_ok_def todo_of_def is_open_def at_def)

lemma hub_ok_loop:
  assumes "hub_ok h" "hub_do a h = Some h'"
    and "a \<in> {Run_done, Run_register, Run_unregister, Run_broadcast, Run_offered} \<or> (\<exists>i. a = Run_offer i)"
  shows "hub_ok h'"
proof -
  consider "a = Run_done" | "a = Run_register" | "a = Run_unregister" | "a = Run_broadcast" | "a = Run_offered"
    | (offer) i where "a = Run_offer i" using assms(3) by auto
  then show ?thesis
  proof cases
    case 1
    then show ?thesis using assms by (auto simp: run_done_def hub_ok_def split: if_splits)
  next
    case 2
    then obtain i "is" where r: "hb_register h = i # is" "hb_run h = Selecting"
      using assms(2) by (auto simp: run_register_def split: if_splits list.splits)
    note k = hub_ok_take_register [OF assms(1) r(1)]
    let ?h = "h\<lparr>hb_register := is\<rparr>"
    show ?thesis
    proof (cases "int (card (hb_clients h)) \<ge> hb_max h")
      case True
      have "(close_send i ?h)\<lparr>hb_clients := hb_clients ?h - {i}, hb_register := filter (\<lambda>j. j \<noteq> i) (hb_register ?h),
                   hb_run := (case hb_run ?h of Fanning e todo \<Rightarrow> Fanning e (todo - {i}) | r \<Rightarrow> r)\<rparr> = close_send i ?h"
        using k(4,5) r(2) by (auto intro!: hub.equality simp: filter_id_conv fun_eq_iff)
      moreover have "is_open i ?h" "\<not> at i Registering ?h" using k(2,3) by (simp_all add: is_open_def at_def)
      ultimately have "hub_ok (close_send i ?h)" using hub_ok_close [OF k(1), of i] by simp
      then show ?thesis using assms(2) 2 r True by (simp add: run_register_def Let_def)
    next
      case False
      let ?g = "count_clients (?h\<lparr>hb_clients := insert i (hb_clients h)\<rparr>)"
      have "hub_ok ?g"
        using k assms(1) r unfolding hub_ok_def by (auto simp: todo_of_def is_open_def at_def)
      then have "hub_ok (on_client i (\<lambda>c. c\<lparr>wc_from := length (hb_sent h)\<rparr>) ?g)"
        by (rule hub_ok_client) simp_all
      then show ?thesis using assms(2) 2 r False by (simp add: run_register_def Let_def)
    qed
  next
    case 3
    then obtain i "is" where r: "hb_unregister h = i # is" "hb_run h = Selecting"
      using assms(2) by (auto simp: run_unregister_def split: if_splits list.splits)
    let ?h = "h\<lparr>hb_unregister := is\<rparr>"
    have k: "hub_ok ?h" using assms(1) by (simp add: hub_ok_def todo_of_def is_open_def at_def)
    show ?thesis
    proof (cases "i \<in> hb_clients h")
      case True
      then have o: "is_open i ?h" "\<not> at i Registering ?h" "i \<notin> set (hb_register ?h)"
        using k by (auto simp: hub_ok_def)
      then have "(close_send i ?h)\<lparr>hb_clients := hb_clients ?h - {i}, hb_register := filter (\<lambda>j. j \<noteq> i) (hb_register ?h),
                   hb_run := (case hb_run ?h of Fanning e todo \<Rightarrow> Fanning e (todo - {i}) | r \<Rightarrow> r)\<rparr>
          = (close_send i ?h)\<lparr>hb_clients := hb_clients h - {i}\<rparr>"
        using r(2) by (auto intro!: hub.equality simp: filter_id_conv fun_eq_iff)
      then have "hub_ok ((close_send i ?h)\<lparr>hb_clients := hb_clients h - {i}\<rparr>)" using hub_ok_close [OF k o(1,2)] by simp
      then have "hub_ok (count_clients ((close_send i ?h)\<lparr>hb_clients := hb_clients h - {i}\<rparr>))"
        by (rule hub_ok_cong) simp_all
      then show ?thesis using assms(2) 3 r True by (simp add: run_unregister_def Let_def)
    next
      case False
      then show ?thesis using assms(2) 3 r k by (simp add: run_unregister_def Let_def)
    qed
  next
    case 4
    then show ?thesis using assms
      by (auto simp: run_broadcast_def hub_ok_def todo_of_def is_open_def at_def split: if_splits list.splits)
  next
    case 5
    then show ?thesis using assms
      by (auto simp: run_offered_def hub_ok_def todo_of_def is_open_def at_def split: if_splits run_loop.splits)
  next
    case (offer i)
    then obtain e todo where r: "hb_run h = Fanning e todo" "i \<in> todo"
        "h' = (Event_Hub.offer i e h)\<lparr>hb_run := Fanning e (todo - {i})\<rparr>"
      using assms(2) by (auto simp: run_offer_def split: if_splits run_loop.splits)
    then have m: "i \<in> hb_clients h" using assms(1) by (auto simp: hub_ok_def todo_of_def)
    then have o: "is_open i h" "\<not> at i Registering h" "i \<notin> set (hb_register h)" using assms(1) by (auto simp: hub_ok_def)
    then obtain c where c: "hb_store h i = Some c" "wc_open c" by (auto simp: is_open_def split: option.splits)
    have drop: "hub_ok (g\<lparr>hb_run := Fanning e (todo - {i})\<rparr>)" if "hub_ok g" "hb_run g = hb_run h" for g
      using that r by (auto simp: hub_ok_def todo_of_def is_open_def at_def)
    have q: "hub_ok (on_client i (\<lambda>c. c\<lparr>wc_queue := wc_queue c @ [e]\<rparr>) h)"
      by (rule hub_ok_client [OF assms(1)]) simp_all
    have "(close_send i h)\<lparr>hb_clients := hb_clients h - {i}, hb_register := filter (\<lambda>j. j \<noteq> i) (hb_register h),
                   hb_run := (case hb_run h of Fanning e todo \<Rightarrow> Fanning e (todo - {i}) | r \<Rightarrow> r)\<rparr>
          = (close_send i h)\<lparr>hb_clients := hb_clients h - {i}, hb_run := Fanning e (todo - {i})\<rparr>"
      using r(1) o(3) by (auto intro!: hub.equality simp: filter_id_conv fun_eq_iff)
    then have x: "hub_ok ((close_send i h)\<lparr>hb_clients := hb_clients h - {i}, hb_run := Fanning e (todo - {i})\<rparr>)"
      using hub_ok_close [OF assms(1) o(1,2)] by simp
    show ?thesis unfolding r(3) using drop [OF assms(1)] drop [OF q] x c by (auto simp: offer_def)
  qed
qed

lemma hub_ok_new: "hub_ok (new_event_hub m b)"
  by (simp add: new_event_hub_def reconfigure_def hub_ok_def todo_of_def is_open_def at_def)

lemma hub_ok_do: "hub_ok h \<Longrightarrow> a \<noteq> Stop_hub \<Longrightarrow> hub_do a h = Some h' \<Longrightarrow> hub_ok h'"
  using hub_ok_calls hub_ok_loop by blast

lemma hub_ok_run: "hub_run h as h' \<Longrightarrow> hub_ok h \<Longrightarrow> Stop_hub \<notin> set as \<Longrightarrow> hub_ok h'"
  by (induction rule: hub_run.induct) (auto intro: hub_ok_do [OF _ not_sym])

section \<open>What clients are sent\<close>

definition ungated :: "hub_event list \<Rightarrow> hub_event list" where
  "ungated es = filter (\<lambda>e. \<not> is_subscription_gated (he_type e)) es"

definition received :: "ws_client \<Rightarrow> hub_event list" where
  "received c = wc_taken c @ wc_queue c"

definition due :: "ws_client \<Rightarrow> hub_event list \<Rightarrow> hub_event list" where
  "due c sent = drop (wc_from c) sent"

definition waiting :: "nat \<Rightarrow> hub \<Rightarrow> bool" where
  "waiting i h = (at i Registering h \<or> i \<in> set (hb_register h))"

definition client_served :: "nat \<Rightarrow> hub \<Rightarrow> ws_client \<Rightarrow> bool" where
  "client_served i h c =
     (wc_from c \<le> length (hb_sent h)
      \<and> (waiting i h \<longrightarrow> received c = [])
      \<and> subseq (received c) (due c (hb_sent h))
      \<and> prefix (ungated (received c)) (ungated (due c (hb_sent h)))
      \<and> (i \<in> hb_clients h \<longrightarrow> i \<notin> todo_of h \<longrightarrow> ungated (received c) = ungated (due c (hb_sent h)))
      \<and> (i \<in> todo_of h \<longrightarrow> wc_from c < length (hb_sent h)
           \<and> subseq (received c) (due c (butlast (hb_sent h)))
           \<and> ungated (received c) = ungated (due c (butlast (hb_sent h)))))"

definition hub_serves :: "hub \<Rightarrow> bool" where
  "hub_serves h =
     ((\<forall>i c. hb_store h i = Some c \<longrightarrow> client_served i h c)
      \<and> (\<forall>e todo. hb_run h = Fanning e todo \<longrightarrow> hb_sent h \<noteq> [] \<and> last (hb_sent h) = e))"

lemma ungated_simps [simp]:
  "ungated [] = []" "ungated (xs @ ys) = ungated xs @ ungated ys"
  "is_subscription_gated (he_type e) \<Longrightarrow> ungated [e] = []"
  by (simp_all add: ungated_def)

lemma hub_serves_cong:
  assumes "hub_serves h" "hb_sent h' = hb_sent h" "hb_run h' = hb_run h"
    and "\<And>i c'. hb_store h' i = Some c' \<Longrightarrow>
          \<exists>c. hb_store h i = Some c \<and> received c' = received c \<and> wc_from c' = wc_from c"
    and "\<And>i. waiting i h' \<Longrightarrow> waiting i h" "hb_clients h' \<subseteq> hb_clients h" "todo_of h' \<subseteq> todo_of h"
    and "\<And>i. i \<in> hb_clients h' \<Longrightarrow> i \<notin> todo_of h' \<Longrightarrow> i \<notin> todo_of h"
  shows "hub_serves h'"
proof -
  have "client_served i h' c'" if s: "hb_store h' i = Some c'" for i c'
  proof -
    obtain c where c: "hb_store h i = Some c" "received c' = received c" "wc_from c' = wc_from c"
      using assms(4) [OF s] by blast
    then have "client_served i h c" using assms(1) by (simp add: hub_serves_def)
    then show ?thesis
      using assms(2,6,7) assms(5) [of i] assms(8) [of i] c(2,3) unfolding client_served_def due_def by auto
  qed
  then show ?thesis using assms(1,2,3) by (simp add: hub_serves_def)
qed

lemma received_client:
  assumes "\<And>c. hb_store h i = Some c \<Longrightarrow> received (f c) = received c \<and> wc_from (f c) = wc_from c"
    and "\<And>c. hb_store h i = Some c \<Longrightarrow> wc_at (f c) = Registering \<Longrightarrow> wc_at c = Registering" and "hub_serves h"
  shows "hub_serves (on_client i f h)"
proof (rule hub_serves_cong [OF assms(3)])
  show "\<exists>c. hb_store h j = Some c \<and> received c' = received c \<and> wc_from c' = wc_from c"
    if "hb_store (on_client i f h) j = Some c'" for j c'
    using that assms(1) by (cases "j = i") auto
  show "waiting j h" if "waiting j (on_client i f h)" for j
    using that assms(2) by (auto simp: waiting_def at_def split: option.splits if_splits)
qed (simp_all add: todo_of_def)

lemma received_simps [simp]:
  "received (c\<lparr>wc_at := p\<rparr>) = received c" "received (c\<lparr>wc_open := b\<rparr>) = received c"
  "received (c\<lparr>wc_subs := m\<rparr>) = received c" "received (c\<lparr>wc_written := es\<rparr>) = received c"
  "received (c\<lparr>wc_from := n\<rparr>) = received c"
  by (simp_all add: received_def)

lemma serves_move: "hub_serves h \<Longrightarrow> p \<noteq> Registering \<Longrightarrow> hub_serves (move i p h)"
  unfolding move_def by (rule received_client) simp_all

lemma serves_close: "hub_serves h \<Longrightarrow> hub_serves (close_send i h)"
  unfolding close_send_def
  by (auto intro: received_client hub_serves_cong [of h "h\<lparr>hb_panicked := True\<rparr>"] simp: waiting_def at_def todo_of_def)

lemma hub_serves_calls:
  assumes "hub_ok h" "hub_serves h" "hub_do a h = Some h'"
    and "a \<notin> {Run_done, Run_register, Run_unregister, Run_broadcast, Run_offered} \<and> (\<nexists>i. a = Run_offer i)"
  shows "hub_serves h'"
proof (cases a)
  case Connect
  have n: "hb_store h (hb_next h) = None" using assms(1) by (auto simp: hub_ok_def)
  then have "hb_next h \<notin> hb_clients h" using assms(1) by (auto simp: hub_ok_def is_open_def)
  moreover have "todo_of h \<subseteq> hb_clients h" using assms(1) by (simp add: hub_ok_def)
  ultimately have u: "hb_next h \<notin> hb_clients h" "hb_next h \<notin> todo_of h" by auto
  have "client_served i (connect h) c" if "hb_store (connect h) i = Some c" for i c
  proof (cases "i = hb_next h")
    case True
    then show ?thesis using that u
      by (auto simp: client_served_def connect_def new_client_def received_def due_def todo_of_def)
  next
    case False
    then have "hb_store h i = Some c" "waiting i (connect h) = waiting i h"
      using that by (simp_all add: connect_def waiting_def at_def)
    then show ?thesis using assms(2) by (auto simp: hub_serves_def client_served_def connect_def todo_of_def)
  qed
  then have "hub_serves (connect h)" using assms(2) by (simp add: hub_serves_def connect_def)
  then show ?thesis using assms(3) Connect by simp
next
  case (Register_send i)
  then have a: "at i Registering h" "h' = move i Registered (h\<lparr>hb_register := hb_register h @ [i]\<rparr>)"
    using assms(3) by (auto simp: register_send_def split: if_splits)
  have "hub_serves (h\<lparr>hb_register := hb_register h @ [i]\<rparr>)"
    by (rule hub_serves_cong [OF assms(2)]) (use a(1) in \<open>auto simp: waiting_def at_def todo_of_def split: option.splits\<close>)
  then show ?thesis unfolding a(2) by (rule serves_move) simp
next
  case (Register_check i)
  then show ?thesis using assms(2,3) by (auto simp: register_check_def intro: serves_move serves_close split: if_splits)
next
  case (Register_stopped i)
  then show ?thesis using assms(2,3) by (auto simp: register_stopped_def intro: serves_move serves_close split: if_splits)
next
  case (First_look i)
  then have a: "at i Returned_client h" using assms(3) by (auto simp: first_look_def split: if_splits)
  have "hub_serves (on_client i (\<lambda>c.
           case wc_queue c of
             e # es \<Rightarrow> c\<lparr>wc_queue := es, wc_taken := wc_taken c @ [e], wc_written := [connected_event], wc_at := Pumping\<rparr>
           | [] \<Rightarrow> if wc_open c then c\<lparr>wc_written := [connected_event], wc_at := Pumping\<rparr> else c\<lparr>wc_at := Leaving\<rparr>) h)"
    by (rule received_client [OF _ _ assms(2)]) (auto simp: received_def split: list.splits if_splits)
  then show ?thesis using assms(3) First_look a by (simp add: first_look_def)
next
  case (Pump i)
  then obtain c where c: "hb_store h i = Some c" "wc_at c = Pumping"
    using assms(3) by (auto simp: pump_def split: option.splits if_splits)
  have "hub_serves (on_client i (\<lambda>c. c\<lparr>wc_queue := es, wc_taken := wc_taken c @ [e], wc_written := wc_written c @ [e]\<rparr>) h)"
    if "wc_queue c = e # es" for e es
    by (rule received_client [OF _ _ assms(2)]) (use that c in \<open>auto simp: received_def\<close>)
  moreover have "hub_serves (move i Leaving h)" using assms(2) serves_move by blast
  ultimately show ?thesis using assms(3) Pump c by (auto simp: pump_def split: list.splits if_splits)
next
  case (Disconnect i)
  then show ?thesis using assms(2,3) serves_move by (auto simp: disconnect_def split: if_splits)
next
  case (Unregister_send i)
  have "hub_serves (h\<lparr>hb_unregister := hb_unregister h @ [i]\<rparr>)"
    by (rule hub_serves_cong [OF assms(2)]) (auto simp: waiting_def at_def todo_of_def)
  then show ?thesis using assms(3) Unregister_send serves_move by (auto simp: unregister_send_def split: if_splits)
next
  case (Unregister_stopped i)
  then show ?thesis using assms(2,3) serves_move by (auto simp: unregister_stopped_def split: if_splits)
next
  case (Subscribe i t least)
  have "hub_serves (on_client i (handle_subscribe t least) h)"
    by (rule received_client [OF _ _ assms(2)]) (auto simp: handle_subscribe_def split: if_splits)
  then show ?thesis using assms(3) Subscribe by simp
next
  case (Unsubscribe i t)
  have "hub_serves (on_client i (handle_unsubscribe t) h)"
    by (rule received_client [OF _ _ assms(2)]) (auto simp: handle_unsubscribe_def)
  then show ?thesis using assms(3) Unsubscribe by simp
next
  case (Broadcast e)
  have "hub_serves (h\<lparr>hb_broadcast := hb_broadcast h @ [e]\<rparr>)"
    by (rule hub_serves_cong [OF assms(2)]) (auto simp: waiting_def at_def todo_of_def)
  then have "hub_serves (broadcast e h)" using assms(2) by (simp add: broadcast_def)
  then show ?thesis using assms(3) Broadcast by simp
next
  case (Reconfigure m b)
  have "hub_serves (reconfigure m b h)"
    by (rule hub_serves_cong [OF assms(2)]) (auto simp: reconfigure_def waiting_def at_def todo_of_def)
  then show ?thesis using assms(3) Reconfigure by simp
next
  case Stop_hub
  have "hub_serves (h\<lparr>hb_done := True\<rparr>)"
    by (rule hub_serves_cong [OF assms(2)]) (auto simp: waiting_def at_def todo_of_def)
  then show ?thesis using assms(3) Stop_hub by simp
qed (use assms in auto)

lemma hub_serves_loop:
  assumes "hub_ok h" "hub_serves h" "hub_do a h = Some h'"
    and "a \<in> {Run_register, Run_unregister, Run_broadcast, Run_offered} \<or> (\<exists>i. a = Run_offer i)"
  shows "hub_serves h'"
proof -
  have cl: "client_served i h c" if "hb_store h i = Some c" for i c using assms(2) that by (simp add: hub_serves_def)
  consider "a = Run_register" | "a = Run_unregister" | "a = Run_broadcast" | "a = Run_offered"
    | (offer) i where "a = Run_offer i" using assms(4) by auto
  then show ?thesis
  proof cases
    case 1
    then obtain i "is" where r: "hb_register h = i # is" "hb_run h = Selecting"
      using assms(3) by (auto simp: run_register_def split: if_splits list.splits)
    let ?h = "h\<lparr>hb_register := is\<rparr>"
    have k: "hub_serves ?h"
      by (rule hub_serves_cong [OF assms(2)]) (use r in \<open>auto simp: waiting_def at_def todo_of_def\<close>)
    show ?thesis
    proof (cases "int (card (hb_clients h)) \<ge> hb_max h")
      case True
      then have "h' = close_send i ?h" using assms(3) 1 r by (simp add: run_register_def Let_def)
      then show ?thesis using serves_close [OF k, of i] by simp
    next
      case False
      let ?g = "on_client i (\<lambda>c. c\<lparr>wc_from := length (hb_sent h)\<rparr>) (count_clients (?h\<lparr>hb_clients := insert i (hb_clients h)\<rparr>))"
      have "client_served j ?g c" if s: "hb_store ?g j = Some c" for j c
      proof (cases "j = i")
        case True
        then obtain d where d: "hb_store h i = Some d" "c = d\<lparr>wc_from := length (hb_sent h)\<rparr>" using s by auto
        then have "received c = []" using cl [OF d(1)] r(1) by (simp add: client_served_def waiting_def)
        then show ?thesis using d r(2) by (simp add: client_served_def due_def todo_of_def)
      next
        case False
        then have d: "hb_store h j = Some c" using s by simp
        have "waiting j ?g \<Longrightarrow> waiting j h" using False r(1) by (auto simp: waiting_def at_def)
        then show ?thesis using cl [OF d] False r(2) by (auto simp: client_served_def todo_of_def)
      qed
      then have "hub_serves ?g" using r(2) by (simp add: hub_serves_def)
      then show ?thesis using assms(3) 1 r False by (simp add: run_register_def Let_def)
    qed
  next
    case 2
    then obtain i "is" where r: "hb_unregister h = i # is" "hb_run h = Selecting"
      using assms(3) by (auto simp: run_unregister_def split: if_splits list.splits)
    let ?h = "h\<lparr>hb_unregister := is\<rparr>"
    have k: "hub_serves ?h"
      by (rule hub_serves_cong [OF assms(2)]) (auto simp: waiting_def at_def todo_of_def)
    have "hub_serves (count_clients ((close_send i ?h)\<lparr>hb_clients := hb_clients h - {i}\<rparr>))"
      by (rule hub_serves_cong [OF serves_close [OF k, of i]]) (auto simp: waiting_def at_def todo_of_def r(2))
    then show ?thesis using assms(3) 2 r k by (simp add: run_unregister_def Let_def split: if_splits)
  next
    case 3
    then obtain e es where r: "hb_broadcast h = e # es" "hb_run h = Selecting"
      "h' = h\<lparr>hb_broadcast := es, hb_run := Fanning e (hb_clients h), hb_sent := hb_sent h @ [e]\<rparr>"
      using assms(3) by (auto simp: run_broadcast_def split: if_splits list.splits)
    have "client_served j h' c" if s: "hb_store h' j = Some c" for j c
    proof -
      have d: "hb_store h j = Some c" using s r(3) by simp
      have w: "waiting j h' = waiting j h" by (simp add: r(3) waiting_def at_def)
      have "due c (hb_sent h @ [e]) = due c (hb_sent h) @ [e]" using cl [OF d] by (simp add: client_served_def due_def)
      then show ?thesis using cl [OF d] r(2) w
        by (auto simp: client_served_def r(3) todo_of_def intro: prefix_order.trans [OF _ prefixI [OF refl]] subseq_order.trans [OF _ subseq_rev_drop_many [OF subseq_order.refl]])
    qed
    then show ?thesis using r(3) by (simp add: hub_serves_def)
  next
    case 4
    have "hub_serves ((count_clients h)\<lparr>hb_run := Selecting\<rparr>)" if "hb_run h = Fanning e {}" for e
    proof -
      have "client_served j ((count_clients h)\<lparr>hb_run := Selecting\<rparr>) c" if s: "hb_store h j = Some c" for j c
        using cl [OF s] \<open>hb_run h = Fanning e {}\<close> by (simp add: client_served_def waiting_def at_def todo_of_def)
      then show ?thesis by (simp add: hub_serves_def)
    qed
    then show ?thesis using assms(3) 4 by (auto simp: run_offered_def split: run_loop.splits if_splits)
  next
    case (offer i)
    then obtain e todo where r: "hb_run h = Fanning e todo" "i \<in> todo"
        "h' = (Event_Hub.offer i e h)\<lparr>hb_run := Fanning e (todo - {i})\<rparr>"
      using assms(3) by (auto simp: run_offer_def split: if_splits run_loop.splits)
    then have m: "i \<in> hb_clients h" using assms(1) by (auto simp: hub_ok_def todo_of_def)
    then have "is_open i h" using assms(1) by (auto simp: hub_ok_def)
    then obtain c where c: "hb_store h i = Some c" "wc_open c" by (auto simp: is_open_def split: option.splits)
    have t: "todo_of h = todo" by (simp add: todo_of_def r(1))
    have sent: "hb_sent h = butlast (hb_sent h) @ [e]"
      using assms(2) r(1) by (metis append_butlast_last_id hub_serves_def)
    have i: "wc_from c < length (hb_sent h)" "ungated (received c) = ungated (due c (butlast (hb_sent h)))"
      "waiting i h \<Longrightarrow> received c = []" "subseq (received c) (due c (butlast (hb_sent h)))"
      using cl [OF c(1)] r(2) t by (auto simp: client_served_def)
    have full: "due c (hb_sent h) = due c (butlast (hb_sent h)) @ [e]"
      using i(1) by (subst sent) (simp add: due_def)
    have part: "subseq (received c) (due c (hb_sent h))" "subseq (received c @ [e]) (due c (hb_sent h))"
      unfolding full using i(4) by (simp_all add: subseq_rev_drop_many)
    have s': "hb_sent h' = hb_sent h" "todo_of h' = todo - {i}" "hb_run h' = Fanning e (todo - {i})"
      using c by (simp_all add: r(3) todo_of_def offer_def)
    have others: "client_served j h' d" if "hb_store h' j = Some d" "j \<noteq> i" for j d
    proof -
      have "hb_store h j = Some d" "waiting j h' = waiting j h" "j \<in> hb_clients h' \<longleftrightarrow> j \<in> hb_clients h"
        using that c by (auto simp: r(3) offer_def waiting_def at_def split: if_splits)
      then show ?thesis using cl [of j d] t that(2) by (simp add: client_served_def s')
    qed
    have nw: "\<not> waiting i h" using assms(1) m by (auto simp: hub_ok_def waiting_def)
    have own: "client_served i h' d" if s: "hb_store h' i = Some d" for d
    proof -
      have w: "\<not> waiting i h'"
        using nw c by (auto simp: r(3) offer_def waiting_def at_def split: if_splits)
      show ?thesis
      proof (cases "should_receive c e")
        case False
        then have "ungated [e] = []" by (simp add: should_receive_def ungated_def split: if_splits)
        moreover have "d = c" "hb_clients h' = hb_clients h" using s c False by (simp_all add: r(3) offer_def)
        ultimately show ?thesis using i(1,2) part full w by (simp add: client_served_def s')
      next
        case True
        show ?thesis
        proof (cases "length (wc_queue c) < wc_cap c")
          case room: True
          then have "d = c\<lparr>wc_queue := wc_queue c @ [e]\<rparr>" using s c True by (simp add: r(3) offer_def)
          then have "received d = received c @ [e]" "wc_from d = wc_from c" "due d = due c"
            by (simp_all add: received_def due_def fun_eq_iff)
          then show ?thesis using i(1,2) part full w by (simp add: client_served_def s')
        next
          case False
          then have "d = c\<lparr>wc_open := False\<rparr>" "hb_clients h' = hb_clients h - {i}"
            using s c True by (auto simp: r(3) offer_def is_open_def)
          moreover then have "due d = due c" by (simp add: due_def fun_eq_iff)
          ultimately show ?thesis using i(1,2) part full w by (simp add: client_served_def s')
        qed
      qed
    qed
    have "client_served j h' d" if "hb_store h' j = Some d" for j d
      using others own that by (cases "j = i") simp_all
    then show ?thesis using sent by (simp add: hub_serves_def s') (metis snoc_eq_iff_butlast)
  qed
qed

lemma hub_serves_run:
  "hub_run h as h' \<Longrightarrow> hub_ok h \<Longrightarrow> hub_serves h \<Longrightarrow> Stop_hub \<notin> set as \<Longrightarrow> hub_serves h'"
proof (induction rule: hub_run.induct)
  case (hub_act h a h1 "as" h2)
  have "hub_ok h1" using hub_ok_do [OF hub_act.prems(1) _ hub_act.hyps(2)] hub_act.prems(3) by auto
  moreover have "a \<noteq> Run_done" using hub_act.hyps(2) hub_act.prems(1) by (auto simp: run_done_def hub_ok_def)
  then have "hub_serves h1"
    using hub_serves_calls [OF hub_act.prems(1,2) hub_act.hyps(2)] hub_serves_loop [OF hub_act.prems(1,2) hub_act.hyps(2)]
    by blast
  ultimately show ?case using hub_act by simp
qed simp

lemma hub_serves_new: "hub_serves (new_event_hub m b)"
  by (simp add: new_event_hub_def reconfigure_def hub_serves_def)

section \<open>Properties of the hub\<close>

text \<open>C37: as long as the hub is not stopped nothing it does panics, whatever the order of connections, events,
  subscriptions and reconfigurations: no channel is closed twice or sent on after it is closed, and the
  channel of every client the hub knows is open.\<close>

theorem hub_never_panics:
  assumes "hub_run (new_event_hub m b) as h" "Stop_hub \<notin> set as"
  shows "\<not> hb_panicked h \<and> (\<forall>i \<in> hb_clients h. is_open i h)"
  using hub_ok_run [OF assms(1) hub_ok_new assms(2)] by (simp add: hub_ok_def)

text \<open>C36: as long as the hub is not stopped, what has gone into a client's channel are events the hub has taken
  up since it registered the client, in their order and none twice. Of those that need no subscription it is a
  beginning without a gap, and all of them while the client is registered and the hub is between two events: a
  client misses such an event only by being dropped. What its goroutine writes to the connection is another
  matter: it discards an event that the channel holds when it first looks.\<close>

theorem clients_get_events_in_order:
  assumes "hub_run (new_event_hub m b) as h" "Stop_hub \<notin> set as" "hb_store h i = Some c"
  shows "subseq (wc_taken c @ wc_queue c) (drop (wc_from c) (hb_sent h))
    \<and> prefix (ungated (wc_taken c @ wc_queue c)) (ungated (drop (wc_from c) (hb_sent h)))
    \<and> (i \<in> hb_clients h \<and> hb_run h = Selecting \<longrightarrow>
         ungated (wc_taken c @ wc_queue c) = ungated (drop (wc_from c) (hb_sent h)))"
proof -
  have "client_served i h c"
    using hub_serves_run [OF assms(1) hub_ok_new hub_serves_new assms(2)] assms(3) by (simp add: hub_serves_def)
  then show ?thesis by (auto simp: client_served_def received_def due_def todo_of_def)
qed

definition within :: "int \<Rightarrow> hub \<Rightarrow> bool" where
  "within n h =
     (hb_max h \<le> n \<and> finite (hb_clients h) \<and> int (card (hb_clients h)) \<le> n
      \<and> ((\<forall>e todo. hb_run h \<noteq> Fanning e todo) \<longrightarrow> hb_count h = int (card (hb_clients h))))"

lemma within_cong:
  "within n h \<Longrightarrow> hb_max h' = hb_max h \<Longrightarrow> hb_clients h' = hb_clients h \<Longrightarrow> hb_run h' = hb_run h
   \<Longrightarrow> hb_count h' = hb_count h \<Longrightarrow> within n h'"
  by (simp add: within_def)

lemma within_do:
  assumes "within n h" "hub_do a h = Some h'" "0 \<le> n"
    and "case a of Reconfigure m b \<Rightarrow> m \<le> n | _ \<Rightarrow> True"
  shows "within n h'"
proof (cases a)
  case Run_register
  then obtain i "is" where r: "hb_register h = i # is" "hb_run h = Selecting"
    using assms(2) by (auto simp: run_register_def split: if_splits list.splits)
  have "int (card (insert i (hb_clients h))) \<le> n" if "int (card (hb_clients h)) < hb_max h"
    using that assms(1) by (simp add: within_def card_insert_if)
  then show ?thesis using assms(1,2) Run_register r
    by (auto simp: run_register_def within_def Let_def split: if_splits)
next
  case Run_unregister
  have "int (card (hb_clients h - {i})) \<le> n" for i
    using assms(1) card_mono [of "hb_clients h" "hb_clients h - {i}"] by (auto simp: within_def)
  then show ?thesis using assms(1,2) Run_unregister
    by (auto simp: run_unregister_def within_def Let_def split: if_splits list.splits)
next
  case (Run_offer i)
  have "int (card (hb_clients h - {i})) \<le> n"
    using assms(1) card_mono [of "hb_clients h" "hb_clients h - {i}"] by (auto simp: within_def)
  then show ?thesis using assms(1,2) Run_offer
    by (auto simp: run_offer_def offer_def within_def split: if_splits run_loop.splits option.splits)
next
  case Run_done
  then show ?thesis using assms by (auto simp: run_done_def close_all_def within_def split: if_splits)
next
  case Run_broadcast
  then show ?thesis using assms by (auto simp: run_broadcast_def within_def split: if_splits list.splits)
next
  case Run_offered
  then show ?thesis using assms by (auto simp: run_offered_def within_def split: if_splits run_loop.splits)
next
  case (Reconfigure m b)
  then show ?thesis using assms by (auto simp: reconfigure_def within_def)
qed (use assms(1,2) in \<open>auto simp: connect_def register_send_def register_check_def register_stopped_def
    unregister_send_def unregister_stopped_def first_look_def pump_def disconnect_def broadcast_def
    split: if_splits list.splits option.splits intro: within_cong [OF assms(1)]\<close>)

text \<open>The hub never holds more clients than the largest limit it has been given, however clients come and go
  and limits change, and between two events its count of clients is exact.\<close>

theorem hub_keeps_limit:
  assumes "hub_run (new_event_hub m b) as h" "(if 0 < m then m else 100) \<le> n"
    and "list_all (\<lambda>a. case a of Reconfigure m' b' \<Rightarrow> m' \<le> n | _ \<Rightarrow> True) as"
  shows "int (card (hb_clients h)) \<le> n \<and> (hb_run h = Selecting \<longrightarrow> hb_count h = int (card (hb_clients h)))"
proof -
  have "within n h'" if "hub_run h0 as' h'" "within n h0" "0 \<le> n"
    "list_all (\<lambda>a. case a of Reconfigure m' b' \<Rightarrow> m' \<le> n | _ \<Rightarrow> True) as'" for h0 as' h'
    using that by (induction rule: hub_run.induct) (auto intro: within_do)
  moreover have "within n (new_event_hub m b)" "0 \<le> n"
    using assms(2) by (auto simp: within_def new_event_hub_def reconfigure_def split: if_splits)
  ultimately show ?thesis using assms(1,3) by (auto simp: within_def)
qed

section \<open>What the order of the goroutines can do\<close>

lemma hub_run_append: "hub_run h as h1 \<Longrightarrow> hub_run h1 bs h2 \<Longrightarrow> hub_run h (as @ bs) h2"
  by (induction rule: hub_run.induct) (auto intro: hub_act)

text \<open>A hub at rest between two requests.\<close>

definition idle :: "hub \<Rightarrow> bool" where
  "idle h = (hb_run h = Selecting \<and> hb_register h = [] \<and> hb_unregister h = [] \<and> \<not> hb_done h \<and> \<not> hb_panicked h
     \<and> int (card (hb_clients h)) < hb_max h \<and> hb_next h \<notin> hb_clients h)"

definition gone :: "nat \<Rightarrow> nat \<Rightarrow> hub \<Rightarrow> bool" where
  "gone k i h =
     (i \<in> hb_clients h \<and> i \<notin> set (hb_unregister h)
      \<and> (case hb_store h i of None \<Rightarrow> False | Some c \<Rightarrow> wc_at c = Left \<and> wc_open c \<and> length (wc_queue c) + k \<le> wc_cap c))"

lemma gone_do:
  assumes "gone k i h" "hub_do a h = Some h'" "hub_ok h" "a = Run_offer i \<Longrightarrow> 0 < k"
  shows "gone (if a = Run_offer i then k - 1 else k) i h'"
proof -
  obtain c where c: "hb_store h i = Some c" "wc_at c = Left" "wc_open c" "length (wc_queue c) + k \<le> wc_cap c"
    "i \<in> hb_clients h" "i \<notin> set (hb_unregister h)"
    using assms(1) by (auto simp: gone_def split: option.splits)
  have ok: "\<not> hb_done h" "i < hb_next h" "i \<notin> set (hb_register h)"
    using assms(3) c(1,5) by (auto simp: hub_ok_def)
  show ?thesis
  proof (cases a)
    case Connect
    then show ?thesis using c assms ok by (auto simp: connect_def gone_def)
  next
    case (Register_send j)
    then show ?thesis using c assms ok by (auto simp: register_send_def at_def gone_def split: if_splits)
  next
    case (Register_check j)
    then show ?thesis using c assms ok by (auto simp: register_check_def at_def gone_def split: if_splits)
  next
    case (Register_stopped j)
    then show ?thesis using c assms ok by (auto simp: register_stopped_def split: if_splits)
  next
    case (First_look j)
    then have "at j Returned_client h" using assms(2) by (auto simp: first_look_def split: if_splits)
    then have "j \<noteq> i" using c by (auto simp: at_def)
    then show ?thesis using First_look c assms(2) by (auto simp: first_look_def gone_def split: if_splits)
  next
    case (Pump j)
    then have "j \<noteq> i" using c assms(2) by (auto simp: pump_def)
    then show ?thesis using Pump c assms(2)
      by (auto simp: pump_def gone_def split: option.splits if_splits list.splits)
  next
    case (Disconnect j)
    then show ?thesis using c assms ok by (auto simp: disconnect_def at_def gone_def split: if_splits)
  next
    case (Unregister_send j)
    then show ?thesis using c assms ok by (auto simp: unregister_send_def at_def gone_def split: if_splits)
  next
    case (Unregister_stopped j)
    then show ?thesis using c assms ok by (auto simp: unregister_stopped_def split: if_splits)
  next
    case (Run_register)
    then obtain j "is" where r: "hb_register h = j # is" "hb_run h = Selecting"
      using assms(2) by (auto simp: run_register_def split: if_splits list.splits)
    show ?thesis
    proof (cases "int (card (hb_clients h)) \<ge> hb_max h")
      case True
      then have h': "h' = close_send j (h\<lparr>hb_register := is\<rparr>)" using assms(2) Run_register r by (simp add: run_register_def Let_def)
      have "j \<noteq> i" using ok(3) r(1) by auto
      then show ?thesis using c Run_register by (simp add: h' gone_def)
    next
      case False
      then show ?thesis using c assms Run_register r by (auto simp: run_register_def Let_def gone_def)
    qed
  next
    case Run_unregister
    then show ?thesis using c assms
      by (auto simp: run_unregister_def Let_def gone_def split: if_splits list.splits)
  next
    case (Run_offer j)
    then obtain e todo where r: "hb_run h = Fanning e todo" "j \<in> todo"
        "h' = (offer j e h)\<lparr>hb_run := Fanning e (todo - {j})\<rparr>"
      using assms(2) by (auto simp: run_offer_def split: if_splits run_loop.splits)
    show ?thesis
    proof (cases "j = i")
      case True
      then have "0 < k" using assms(4) Run_offer by simp
      then show ?thesis using True Run_offer c r by (auto simp: offer_def gone_def)
    next
      case False
      then show ?thesis using Run_offer c r by (auto simp: offer_def gone_def split: option.splits)
    qed
  qed (use c assms ok in \<open>auto simp: gone_def handle_subscribe_def handle_unsubscribe_def broadcast_def reconfigure_def
        run_done_def run_broadcast_def run_offered_def split: if_splits list.splits run_loop.splits\<close>)
qed


lemma gone_run:
  "hub_run h as h' \<Longrightarrow> gone k i h \<Longrightarrow> hub_ok h \<Longrightarrow> Stop_hub \<notin> set as
   \<Longrightarrow> length (filter (\<lambda>a. a = Run_offer i) as) \<le> k \<Longrightarrow> i \<in> hb_clients h'"
proof (induction arbitrary: k rule: hub_run.induct)
  case (hub_act h a h1 "as" h2)
  have "hub_ok h1" using hub_ok_do [OF hub_act.prems(2) _ hub_act.hyps(2)] hub_act.prems(3) by auto
  moreover have "gone (if a = Run_offer i then k - 1 else k) i h1"
    by (rule gone_do [OF hub_act.prems(1) hub_act.hyps(2) hub_act.prems(2)]) (use hub_act.prems(4) in simp)
  ultimately show ?case
    using hub_act.IH [of "if a = Run_offer i then k - 1 else k"] hub_act.prems(3,4) by (cases "a = Run_offer i") auto
qed (simp add: gone_def)

definition leaves_early :: "nat \<Rightarrow> hub_action list" where
  "leaves_early i = [Connect, Register_send i, Register_check i, First_look i, Disconnect i, Unregister_send i, Run_unregister, Run_register]"

lemma leaves_early_run:
  assumes "idle h" "hub_ok h"
  shows "\<exists>h'. hub_run h (leaves_early (hb_next h)) h' \<and> gone (nat (hb_buffer h)) (hb_next h) h'"
proof -
  have n: "hb_store h (hb_next h) = None" using assms(2) by (auto simp: hub_ok_def)
  show ?thesis
    using assms(1) n unfolding leaves_early_def
    by (simp add: hub_run_simps idle_def connect_def new_client_def register_send_def register_check_def first_look_def disconnect_def
        unregister_send_def run_unregister_def run_register_def at_def control_cap_def gone_def Let_def)
qed

text \<open>C38: a connection that ends before the hub has taken its registration can stay a client for good. The two
  requests wait in channels of their own and the hub takes them in either order; taken second, the
  registration puts a client nobody reads into the hub, where it counts against the limit, whatever
  happens next, until as many events have been offered to it as its channel holds.\<close>

theorem departed_client_stays:
  assumes "hub_run (new_event_hub m b) as h" "Stop_hub \<notin> set as" "idle h"
  shows "\<exists>h'. hub_run h (leaves_early (hb_next h)) h'
    \<and> (\<forall>bs h''. hub_run h' bs h'' \<longrightarrow> Stop_hub \<notin> set bs
          \<longrightarrow> length (filter (\<lambda>a. a = Run_offer (hb_next h)) bs) \<le> nat (hb_buffer h)
          \<longrightarrow> hb_next h \<in> hb_clients h'')"
proof -
  have ok: "hub_ok h" by (rule hub_ok_run [OF assms(1) hub_ok_new assms(2)])
  obtain h' where h': "hub_run h (leaves_early (hb_next h)) h'" "gone (nat (hb_buffer h)) (hb_next h) h'"
    using leaves_early_run [OF assms(3) ok] by blast
  have "hub_ok h'" by (rule hub_ok_run [OF h'(1) ok]) (simp add: leaves_early_def)
  then show ?thesis using h' gone_run by blast
qed

text \<open>C39: stopping the hub while a connection is between registering and its second look at the stop signal makes
  the process panic: the run loop closes the channel of the new client and Register closes it again.\<close>

theorem stopping_can_panic:
  assumes "hub_run (new_event_hub m b) as h" "Stop_hub \<notin> set as" "idle h"
  shows "\<exists>h'. hub_run h [Connect, Register_send (hb_next h), Run_register, Stop_hub, Run_done, Register_check (hb_next h)] h'
    \<and> hb_panicked h'"
proof -
  have ok: "hub_ok h" by (rule hub_ok_run [OF assms(1) hub_ok_new assms(2)])
  then have n: "hb_store h (hb_next h) = None" "\<forall>i \<in> hb_clients h. is_open i h" by (auto simp: hub_ok_def)
  show ?thesis
    using assms(3) n
    by (simp add: hub_run_simps idle_def connect_def new_client_def register_send_def register_check_def
        run_done_def run_register_def close_all_def at_def is_open_def control_cap_def Let_def)
qed

text \<open>After the hub has returned a registration still in its channel is never answered, and an event taken up after
  the stop is still delivered.\<close>

lemma stopped_hub_forgets:
  assumes "idle h" "hub_ok h"
  shows "\<exists>h'. hub_run h [Connect, Register_send (hb_next h), Register_check (hb_next h), Stop_hub, Run_done] h'
    \<and> hb_run h' = Exited \<and> is_open (hb_next h) h'"
proof -
  have n: "hb_store h (hb_next h) = None" "\<forall>i \<in> hb_clients h. is_open i h"
    using assms(2) by (auto simp: hub_ok_def)
  then show ?thesis
    using assms(1)
    by (simp add: hub_run_simps idle_def connect_def new_client_def register_send_def register_check_def
        run_done_def close_all_def at_def is_open_def control_cap_def)
qed

text \<open>An event that arrives before the connection first looks at its channel is taken and never written.\<close>

lemma first_event_lost:
  assumes "hb_store h i = Some c" "wc_at c = Returned_client" "wc_queue c = e # es" "first_look i h = Some h'"
  shows "\<exists>c'. hb_store h' i = Some c' \<and> wc_queue c' = es \<and> wc_written c' = [connected_event]"
  using assms by (auto simp: first_look_def at_def)

section \<open>Witnesses\<close>

definition log_line :: hub_event where
  "log_line = \<lparr>he_type = event_log_entry, he_severity = Some ''INFO'', he_data = []\<rparr>"

definition run_started :: hub_event where
  "run_started = \<lparr>he_type = ''collection_started'', he_severity = None, he_data = []\<rparr>"

definition one_client :: "hub_action list" where
  "one_client = [Connect, Register_send 0, Run_register, Register_check 0, First_look 0, Broadcast log_line, Broadcast run_started,
     Run_broadcast, Run_offer 0, Run_offered, Run_broadcast, Run_offer 0, Run_offered, Pump 0]"

lemma one_client_run:
  "\<exists>h c. hub_run (new_event_hub 2 1) one_client h \<and> hb_store h 0 = Some c \<and> wc_taken c = [run_started]
     \<and> hb_clients h = {0} \<and> hb_run h = Selecting \<and> idle h \<and> hb_sent h = [log_line, run_started] \<and> wc_from c = 0"
  by (simp add: one_client_def hub_run_simps new_event_hub_def reconfigure_def connect_def new_client_def register_send_def
      run_register_def register_check_def first_look_def broadcast_def broadcast_cap_def run_broadcast_def run_offer_def
      offer_def run_offered_def pump_def at_def should_receive_def is_subscription_gated_def log_line_def run_started_def
      event_log_entry_def connected_event_def control_cap_def idle_def Let_def)

theorem hub_never_panics_witness:
  "\<exists>h. hub_run (new_event_hub 2 1) one_client h \<and> \<not> hb_panicked h \<and> is_open 0 h"
proof -
  obtain h where "hub_run (new_event_hub 2 1) one_client h" "hb_clients h = {0}" using one_client_run by blast
  then show ?thesis using hub_never_panics [of 2 1 one_client h] by (auto simp: one_client_def)
qed

theorem clients_get_events_in_order_witness:
  "\<exists>h c. hub_run (new_event_hub 2 1) one_client h \<and> hb_store h 0 = Some c
     \<and> ungated (wc_taken c @ wc_queue c) = [run_started]"
proof -
  obtain h c where h: "hub_run (new_event_hub 2 1) one_client h" "hb_store h 0 = Some c" "hb_clients h = {0}"
    "hb_run h = Selecting" "hb_sent h = [log_line, run_started]" "wc_from c = 0" using one_client_run by blast
  have "ungated (wc_taken c @ wc_queue c) = ungated (drop (wc_from c) (hb_sent h))"
    using clients_get_events_in_order [OF h(1) _ h(2)] h(3,4) by (simp add: one_client_def)
  then show ?thesis using h
    by (auto simp: ungated_def log_line_def run_started_def is_subscription_gated_def event_log_entry_def)
qed

theorem hub_keeps_limit_witness:
  "\<exists>h. hub_run (new_event_hub 2 1) one_client h \<and> int (card (hb_clients h)) \<le> 2 \<and> hb_count h = 1"
proof -
  obtain h where h: "hub_run (new_event_hub 2 1) one_client h" "hb_clients h = {0}" "hb_run h = Selecting"
    using one_client_run by blast
  then show ?thesis using hub_keeps_limit [OF h(1), of 2] by (auto simp: one_client_def)
qed

theorem departed_client_stays_witness:
  "\<exists>h h'. hub_run (new_event_hub 2 1) one_client h \<and> hub_run h (leaves_early (hb_next h)) h' \<and> hb_next h \<in> hb_clients h'"
proof -
  obtain h where h: "hub_run (new_event_hub 2 1) one_client h" "idle h" using one_client_run by blast
  then obtain h' where h': "hub_run h (leaves_early (hb_next h)) h'"
    "\<forall>bs h''. hub_run h' bs h'' \<longrightarrow> Stop_hub \<notin> set bs
          \<longrightarrow> length (filter (\<lambda>a. a = Run_offer (hb_next h)) bs) \<le> nat (hb_buffer h)
          \<longrightarrow> hb_next h \<in> hb_clients h''"
    using departed_client_stays [OF h(1) _ h(2)] by (auto simp: one_client_def)
  have "hub_run h' [] h'" by (rule hub_rest)
  then have "hb_next h \<in> hb_clients h'" using h'(2) by force
  then show ?thesis using h(1) h'(1) by blast
qed

theorem stopping_can_panic_witness:
  "\<exists>h h'. hub_run (new_event_hub 2 1) one_client h
     \<and> hub_run h [Connect, Register_send (hb_next h), Run_register, Stop_hub, Run_done, Register_check (hb_next h)] h'
     \<and> hb_panicked h'"
proof -
  obtain h where h: "hub_run (new_event_hub 2 1) one_client h" "idle h" using one_client_run by blast
  then show ?thesis using stopping_can_panic [OF h(1) _ h(2)] by (auto simp: one_client_def)
qed

end
