(* ===== verification/Run_Lists.thy ===== *)
theory Run_Lists
  imports Prelude
begin

text \<open>
  Run lists of nodes and roles. The collector's parser and the dependencies of roles it builds
  (\<open>internal/collector/runlist.go\<close>), the collapse of duplicate snapshots (\<open>dedup.go\<close>), and the
  run list of a node that is tested: its parser, the expansion of its roles and the cookbooks it
  needs (\<open>internal/nodekitchen/runlist.go\<close>). The two packages have a parser each. Fetching a role
  and the dependencies of a cookbook are parameters, \<open>None\<close> when the call fails; a context that is
  cancelled ends an expansion or a resolution with an error of its own, so the model is that of a
  context that is not.
\<close>

section \<open>The collector's parser\<close>

definition s_recipe :: string where "s_recipe = ''recipe''"
definition s_role :: string where "s_role = ''role''"

lemma entry_types_distinct [simp]: "s_recipe \<noteq> s_role" "s_role \<noteq> s_recipe"
  by (simp_all add: s_recipe_def s_role_def)

record parsed_entry =
  pe_type :: string
  pe_name :: string

text \<open>\<open>^type\[([^\]]+)\]$\<close> for one type: the captured content.\<close>

definition bracketed :: "string \<Rightarrow> string \<Rightarrow> string option" where
  "bracketed t s =
     (let content = butlast (drop (length t + 1) s)
      in if prefix (t @ ''['') s \<and> s = t @ ''['' @ content @ '']'' \<and> content \<noteq> [] \<and> CHR '']'' \<notin> set content
         then Some content else None)"

definition collector_parse_entry :: "string \<Rightarrow> parsed_entry option" where
  "collector_parse_entry raw =
     (let s = trim_space raw
      in case bracketed s_recipe s of
           Some content \<Rightarrow>
             Some \<lparr>pe_type = s_recipe, pe_name = before_first ''::'' (before_first ''@'' content)\<rparr>
         | None \<Rightarrow>
             (case bracketed s_role s of
                Some content \<Rightarrow> Some \<lparr>pe_type = s_role, pe_name = content\<rparr>
              | None \<Rightarrow> None))"

definition collector_parse_run_list :: "string list \<Rightarrow> parsed_entry list" where
  "collector_parse_run_list run_list = List.map_filter collector_parse_entry run_list"

section \<open>Dependencies of roles\<close>

text \<open>The run lists by environment are in the order the code's map is ranged over; a role may be nil.\<close>

record role_detail =
  rd_name :: string
  rd_run_list :: "string list"
  rd_env_run_lists :: "(string \<times> string list) list"

record role_dependency =
  dp_org :: string
  dp_role :: string
  dp_type :: string
  dp_name :: string

definition dependency_of :: "string \<Rightarrow> string \<Rightarrow> parsed_entry \<Rightarrow> role_dependency" where
  "dependency_of org role e =
     \<lparr>dp_org = org, dp_role = role, dp_type = (if pe_type e = s_role then s_role else ''cookbook''), dp_name = pe_name e\<rparr>"

definition dependency_key :: "role_dependency \<Rightarrow> string" where
  "dependency_key d = dp_type d @ '':'' @ dp_name d"

fun add_deps ::
  "string \<Rightarrow> string \<Rightarrow> parsed_entry list \<Rightarrow> string set \<Rightarrow> role_dependency list \<Rightarrow> string set \<times> role_dependency list" where
  "add_deps org role [] seen params = (seen, params)"
| "add_deps org role (e # es) seen params =
     (let d = dependency_of org role e
      in if dependency_key d \<in> seen then add_deps org role es seen params
         else add_deps org role es (insert (dependency_key d) seen) (params @ [d]))"

definition role_run_lists :: "role_detail \<Rightarrow> string list list" where
  "role_run_lists r = rd_run_list r # map snd (rd_env_run_lists r)"

definition deps_of_role :: "string \<Rightarrow> role_detail \<Rightarrow> role_dependency list \<Rightarrow> role_dependency list" where
  "deps_of_role org r params =
     snd (fold (\<lambda>rl (seen, ps). add_deps org (rd_name r) (collector_parse_run_list rl) seen ps) (role_run_lists r) ({}, params))"

definition build_role_dependencies :: "string \<Rightarrow> role_detail option list \<Rightarrow> role_dependency list" where
  "build_role_dependencies org roles =
     fold (\<lambda>r params. case r of None \<Rightarrow> params | Some d \<Rightarrow> deps_of_role org d params) roles []"

section \<open>Duplicate snapshots\<close>

text \<open>
  \<open>deduplicateSnapshotParams\<close> over rows with a key: the walk from the end, which keeps the first row
  it sees of each key, and the reversal. The quick way out when no key repeats returns the rows.
\<close>

fun keep_unseen :: "('p \<Rightarrow> 'k) \<Rightarrow> 'k set \<Rightarrow> 'p list \<Rightarrow> 'p list" where
  "keep_unseen key seen [] = []"
| "keep_unseen key seen (p # ps) =
     (if key p \<in> seen then keep_unseen key seen ps else p # keep_unseen key (insert (key p) seen) ps)"

definition deduplicate_snapshot_params :: "('p \<Rightarrow> 'k) \<Rightarrow> 'p list \<Rightarrow> 'p list \<times> nat" where
  "deduplicate_snapshot_params key params =
     (if params = [] \<or> card (key ` set params) = length params then (params, 0)
      else let result = rev (keep_unseen key {} (rev params)) in (result, length params - length result))"

section \<open>The parser of a tested node\<close>

record run_list_entry =
  re_type :: string
  re_name :: string
  re_recipe :: string

datatype run_list_error =
  Empty_entry | Missing_bracket string | Empty_value string | Unknown_type string | Stray_bracket string
| Fetching_role string | Role_cycle string | Too_deep
| Not_on_node string | Resolving string

definition parse_recipe_value :: "string \<Rightarrow> string \<Rightarrow> run_list_error + run_list_entry" where
  "parse_recipe_value value original =
     (if value = [] then Inl (Empty_value original)
      else Inr (case index_of ''::'' value of
                  None \<Rightarrow> \<lparr>re_type = s_recipe, re_name = value, re_recipe = ''default''\<rparr>
                | Some i \<Rightarrow> \<lparr>re_type = s_recipe, re_name = take i value, re_recipe = drop (i + 2) value\<rparr>))"

definition parse_run_list_entry :: "string \<Rightarrow> run_list_error + run_list_entry" where
  "parse_run_list_entry entry =
     (if entry = [] then Inl Empty_entry
      else case index_of ''['' entry of
             Some i \<Rightarrow>
               if \<not> suffix '']'' entry then Inl (Missing_bracket entry)
               else let typ = take i entry; value = drop (i + 1) (butlast entry)
                    in if value = [] then Inl (Empty_value entry)
                       else if typ = s_role then Inr \<lparr>re_type = s_role, re_name = value, re_recipe = []\<rparr>
                       else if typ = s_recipe then parse_recipe_value value entry
                       else Inl (Unknown_type typ)
           | None \<Rightarrow>
               if CHR '']'' \<in> set entry then Inl (Stray_bracket entry) else parse_recipe_value entry entry)"

fun parse_entries :: "string list \<Rightarrow> run_list_error + run_list_entry list" where
  "parse_entries [] = Inr []"
| "parse_entries (s # ss) =
     (case parse_run_list_entry s of
        Inl e \<Rightarrow> Inl e
      | Inr x \<Rightarrow> (case parse_entries ss of Inl e \<Rightarrow> Inl e | Inr xs \<Rightarrow> Inr (x # xs)))"

section \<open>Expanding roles\<close>

definition max_expansion_depth :: nat where "max_expansion_depth = 50"

text \<open>
  One call of \<open>expandRunListRecursive\<close> at a depth that passed its check; the set of roles visited is
  the map all the calls share.
\<close>

function expand_entries ::
  "(string \<Rightarrow> string list option) \<Rightarrow> nat \<Rightarrow> run_list_entry list \<Rightarrow> string set
   \<Rightarrow> run_list_error + run_list_entry list \<times> string set" where
  "expand_entries fetch depth [] visited = Inr ([], visited)"
| "expand_entries fetch depth (e # es) visited =
     (if re_type e = s_recipe
      then (case expand_entries fetch depth es visited of
              Inl err \<Rightarrow> Inl err | Inr (xs, v) \<Rightarrow> Inr (e # xs, v))
      else if re_name e \<in> visited then Inl (Role_cycle (re_name e))
      else case fetch (re_name e) of
             None \<Rightarrow> Inl (Fetching_role (re_name e))
           | Some run_list \<Rightarrow>
               (case parse_entries run_list of
                  Inl err \<Rightarrow> Inl err
                | Inr sub \<Rightarrow>
                    if max_expansion_depth < depth + 1 then Inl Too_deep
                    else case expand_entries fetch (depth + 1) sub (insert (re_name e) visited) of
                           Inl err \<Rightarrow> Inl err
                         | Inr (xs, v) \<Rightarrow>
                             (case expand_entries fetch depth es v of
                                Inl err \<Rightarrow> Inl err | Inr (ys, w) \<Rightarrow> Inr (xs @ ys, w))))"
  by pat_completeness auto
termination
  by (relation "measures [\<lambda>(fetch, depth, es, visited). Suc max_expansion_depth - depth, \<lambda>(fetch, depth, es, visited). length es]")
     (auto simp: max_expansion_depth_def)

definition expand_run_list ::
  "(string \<Rightarrow> string list option) \<Rightarrow> run_list_entry list \<Rightarrow> run_list_error + run_list_entry list" where
  "expand_run_list fetch entries = map_sum id fst (expand_entries fetch 0 entries {})"

section \<open>The cookbooks a node needs\<close>

text \<open>The loop over the dependencies of one cookbook, in the order of the code's map.\<close>

fun add_needed ::
  "(string \<rightharpoonup> string) \<Rightarrow> string list \<Rightarrow> string list \<Rightarrow> (string \<rightharpoonup> string)
   \<Rightarrow> run_list_error + string list \<times> (string \<rightharpoonup> string)" where
  "add_needed node [] queue result = Inr (queue, result)"
| "add_needed node (d # ds) queue result =
     (if result d \<noteq> None then add_needed node ds queue result
      else case node d of
             None \<Rightarrow> Inl (Not_on_node d)
           | Some v \<Rightarrow> add_needed node ds (queue @ [d]) (result(d \<mapsto> v)))"

lemma add_needed_grows:
  "add_needed node ds queue result = Inr (queue', result') \<Longrightarrow>
     dom result \<subseteq> dom result' \<and> dom result' \<subseteq> dom result \<union> dom node
     \<and> (finite (dom node) \<longrightarrow>
          length queue' + card (dom node - dom result') \<le> length queue + card (dom node - dom result))"
proof (induction node ds queue result arbitrary: queue' result' rule: add_needed.induct)
  case (2 node d ds queue result)
  show ?case
  proof (cases "result d")
    case (Some v)
    then show ?thesis using 2 by simp
  next
    case None
    then obtain v where v: "node d = Some v" using 2(3) by (auto split: option.splits)
    have eq: "add_needed node ds (queue @ [d]) (result(d \<mapsto> v)) = Inr (queue', result')"
      using 2(3) None v by simp
    have "dom (result(d \<mapsto> v)) \<subseteq> dom result' \<and> dom result' \<subseteq> dom (result(d \<mapsto> v)) \<union> dom node
      \<and> (finite (dom node) \<longrightarrow> length queue' + card (dom node - dom result')
           \<le> length (queue @ [d]) + card (dom node - dom (result(d \<mapsto> v))))"
      by (rule 2(2) [OF _ v eq]) (simp add: None)
    moreover have "Suc (card (dom node - dom (result(d \<mapsto> v)))) = card (dom node - dom result)" if "finite (dom node)"
    proof -
      have "dom node - dom (result(d \<mapsto> v)) = (dom node - dom result) - {d}" by auto
      moreover have "d \<in> dom node - dom result" using v None by auto
      ultimately show ?thesis using that card_Suc_Diff1 [of "dom node - dom result" d] by simp
    qed
    ultimately show ?thesis using v by auto
  qed
qed simp

text \<open>\<open>deps\<close> is \<open>GetCookbookDependencies\<close>: the names a cookbook of a version depends on.\<close>

function resolve_loop ::
  "(string \<Rightarrow> string \<Rightarrow> string list option) \<Rightarrow> (string \<times> string) list \<Rightarrow> string list \<Rightarrow> (string \<rightharpoonup> string)
   \<Rightarrow> run_list_error + (string \<rightharpoonup> string)" where
  "resolve_loop deps node [] result = Inr result"
| "resolve_loop deps node (c # queue) result =
     (case deps c (case result c of None \<Rightarrow> [] | Some v \<Rightarrow> v) of
        None \<Rightarrow> Inl (Resolving c)
      | Some ds \<Rightarrow>
          (case add_needed (map_of node) ds queue result of
             Inl e \<Rightarrow> Inl e
           | Inr (queue', result') \<Rightarrow> resolve_loop deps node queue' result'))"
  by pat_completeness auto
termination
  by (relation "measure (\<lambda>(deps, node, queue, result). length queue + card (dom (map_of node) - dom result))")
     (auto dest!: add_needed_grows simp: finite_dom_map_of)

definition resolve_cookbook_set ::
  "(string \<Rightarrow> string \<Rightarrow> string list option) \<Rightarrow> (string \<times> string) list \<Rightarrow> run_list_entry list
   \<Rightarrow> run_list_error + (string \<rightharpoonup> string)" where
  "resolve_cookbook_set deps node recipes =
     (case add_needed (map_of node) (map re_name recipes) [] Map.empty of
        Inl e \<Rightarrow> Inl e
      | Inr (queue, result) \<Rightarrow> resolve_loop deps node queue result)"

section \<open>Snapshots and dependencies\<close>

text \<open>The rows none of the later rows has the key of.\<close>

fun last_of_key :: "('p \<Rightarrow> 'k) \<Rightarrow> 'p list \<Rightarrow> 'p list" where
  "last_of_key key [] = []"
| "last_of_key key (p # ps) = (if key p \<in> key ` set ps then last_of_key key ps else p # last_of_key key ps)"

lemma keep_unseen_snoc:
  "keep_unseen key seen (ps @ [p]) =
     (if key p \<in> seen \<or> key p \<in> key ` set ps then keep_unseen key seen ps else keep_unseen key seen ps @ [p])"
  by (induction ps arbitrary: seen) auto

lemma rev_keep_unseen: "rev (keep_unseen key {} (rev ps)) = last_of_key key ps"
  by (induction ps) (simp_all add: keep_unseen_snoc)

lemma last_of_key_keys [simp]: "key ` set (last_of_key key ps) = key ` set ps"
  by (induction ps) auto

lemma last_of_key_distinct: "distinct (map key (last_of_key key ps))"
  by (induction ps) (simp_all add: flip: set_map, metis image_set last_of_key_keys list.set_map)

lemma length_last_of_key: "length (last_of_key key ps) = card (key ` set ps)"
  using distinct_card [OF last_of_key_distinct, of key ps] by simp

lemma last_of_key_full: "length (last_of_key key ps) = length ps \<Longrightarrow> last_of_key key ps = ps"
proof (induction ps)
  case (Cons p ps)
  have "length (last_of_key key ps) \<le> length ps" by (simp add: length_last_of_key) (metis card_image_le card_length finite_set le_trans)
  then show ?case using Cons by (auto split: if_splits)
qed simp

text \<open>A batch of snapshots is reduced to the rows that no later row has the key of, in their order, and the
  number of rows dropped is reported: no key is left twice, none is lost, and of each the last row stays.\<close>

theorem last_snapshot_wins:
  "deduplicate_snapshot_params key ps = (last_of_key key ps, length ps - length (last_of_key key ps))
   \<and> distinct (map key (last_of_key key ps)) \<and> key ` set (last_of_key key ps) = key ` set ps"
proof -
  have "deduplicate_snapshot_params key ps = (last_of_key key ps, length ps - length (last_of_key key ps))"
  proof (cases "ps = [] \<or> card (key ` set ps) = length ps")
    case True
    then have "last_of_key key ps = ps" by (auto simp: last_of_key_full length_last_of_key)
    then show ?thesis using True by (simp add: deduplicate_snapshot_params_def)
  next
    case False
    then show ?thesis by (simp add: deduplicate_snapshot_params_def rev_keep_unseen Let_def)
  qed
  then show ?thesis by (simp add: last_of_key_distinct)
qed

text \<open>The order is that of the last occurrences, not of the first.\<close>

lemma order_of_last_occurrences:
  "fst (deduplicate_snapshot_params fst [(''a'', 1 :: nat), (''b'', 1), (''a'', 2)]) = [(''b'', 1), (''a'', 2)]"
  by code_simp

lemma add_deps_append:
  "add_deps org role (es @ fs) seen ps = (case add_deps org role es seen ps of (s, q) \<Rightarrow> add_deps org role fs s q)"
  by (induction es arbitrary: seen ps) (simp_all add: Let_def)

lemma dependency_key_inj:
  "dependency_key (dependency_of org role e) = dependency_key (dependency_of org role f)
   \<longleftrightarrow> dependency_of org role e = dependency_of org role f"
  by (auto simp: dependency_key_def dependency_of_def s_role_def split: if_splits)

lemma add_deps_result:
  assumes "seen = dependency_key ` S" "S \<subseteq> range (dependency_of org role)"
  shows "\<exists>q. add_deps org role es seen ps = (dependency_key ` (S \<union> dependency_of org role ` set es), ps @ q)
    \<and> set q = dependency_of org role ` set es - S \<and> distinct q"
  using assms
proof (induction es arbitrary: seen ps S)
  case (Cons e es)
  let ?d = "dependency_of org role e"
  have k: "dependency_key ?d \<in> seen \<longleftrightarrow> ?d \<in> S"
    using Cons.prems dependency_key_inj by auto
  show ?case
  proof (cases "?d \<in> S")
    case True
    obtain q where "add_deps org role es seen ps = (dependency_key ` (S \<union> dependency_of org role ` set es), ps @ q)"
      "set q = dependency_of org role ` set es - S" "distinct q"
      using Cons.IH [OF Cons.prems, of ps] by blast
    then show ?thesis using True k by (auto simp: Let_def insert_absorb)
  next
    case False
    obtain q where q: "add_deps org role es (insert (dependency_key ?d) seen) (ps @ [?d])
        = (dependency_key ` (insert ?d S \<union> dependency_of org role ` set es), (ps @ [?d]) @ q)"
      "set q = dependency_of org role ` set es - insert ?d S" "distinct q"
      using Cons.IH [of "insert (dependency_key ?d) seen" "insert ?d S" "ps @ [?d]"] Cons.prems by auto
    have "add_deps org role (e # es) seen ps = (dependency_key ` (S \<union> dependency_of org role ` set (e # es)), ps @ ?d # q)"
      using q(1) False k by (simp add: Let_def)
    moreover have "set (?d # q) = dependency_of org role ` set (e # es) - S" "distinct (?d # q)"
      using q(2,3) False by auto
    ultimately show ?thesis by blast
  qed
qed simp

text \<open>What a role depends on, by any of its run lists.\<close>

definition depends :: "string \<Rightarrow> role_detail \<Rightarrow> role_dependency set" where
  "depends org r =
     dependency_of org (rd_name r) ` (\<Union>rl \<in> set (role_run_lists r). set (collector_parse_run_list rl))"

lemma fold_add_deps:
  "fold (\<lambda>rl (seen, ps). add_deps org role (collector_parse_run_list rl) seen ps) rls (seen, ps)
   = add_deps org role (concat (map collector_parse_run_list rls)) seen ps"
  by (induction rls arbitrary: seen ps) (simp_all add: add_deps_append split: prod.split)

lemma deps_of_role_result:
  "\<exists>q. deps_of_role org r ps = ps @ q \<and> set q = depends org r \<and> distinct q"
proof -
  obtain q where "add_deps org (rd_name r) (concat (map collector_parse_run_list (role_run_lists r))) {} ps
      = (dependency_key ` ({} \<union> dependency_of org (rd_name r) ` set (concat (map collector_parse_run_list (role_run_lists r)))), ps @ q)"
    "set q = dependency_of org (rd_name r) ` set (concat (map collector_parse_run_list (role_run_lists r))) - {}" "distinct q"
    using add_deps_result [of "{}" "{}" org "rd_name r" "concat (map collector_parse_run_list (role_run_lists r))" ps] by auto
  then show ?thesis by (auto simp: deps_of_role_def fold_add_deps depends_def)
qed

text \<open>The dependencies built from roles are those of their run lists, default and by environment, whatever
  the order of the environments, and no row comes twice when no role does.\<close>

theorem role_dependencies_are_those_of_run_lists:
  assumes "distinct (map rd_name (List.map_filter (\<lambda>r. r) roles))"
  shows "set (build_role_dependencies org roles) = (\<Union>r \<in> set (List.map_filter (\<lambda>r. r) roles). depends org r)
    \<and> distinct (build_role_dependencies org roles)"
proof -
  have "\<exists>q. fold (\<lambda>r params. case r of None \<Rightarrow> params | Some d \<Rightarrow> deps_of_role org d params) roles ps = ps @ q
      \<and> set q = (\<Union>r \<in> set (List.map_filter (\<lambda>r. r) roles). depends org r) \<and> distinct q" for ps
    using assms
  proof (induction roles arbitrary: ps)
    case Nil
    then show ?case by (simp add: List.map_filter_def)
  next
    case (Cons r roles)
    show ?case
    proof (cases r)
      case None
      then show ?thesis using Cons by (simp add: List.map_filter_simps)
    next
      case (Some d)
      obtain q1 where q1: "deps_of_role org d ps = ps @ q1" "set q1 = depends org d" "distinct q1"
        using deps_of_role_result by blast
      have ds: "distinct (map rd_name (List.map_filter (\<lambda>r. r) roles))" "rd_name d \<notin> rd_name ` set (List.map_filter (\<lambda>r. r) roles)"
        using Cons.prems Some by (simp_all add: List.map_filter_simps)
      obtain q2 where q2: "fold (\<lambda>r params. case r of None \<Rightarrow> params | Some d \<Rightarrow> deps_of_role org d params) roles (ps @ q1) = (ps @ q1) @ q2"
        "set q2 = (\<Union>r \<in> set (List.map_filter (\<lambda>r. r) roles). depends org r)" "distinct q2"
        using Cons.IH [OF ds(1), of "ps @ q1"] by blast
      have n: "dp_role x = rd_name r'" if "x \<in> depends org r'" for x r' using that by (auto simp: depends_def dependency_of_def)
      have "x \<notin> set q2" if "x \<in> set q1" for x
      proof
        assume "x \<in> set q2"
        then obtain r' where "r' \<in> set (List.map_filter (\<lambda>r. r) roles)" "x \<in> depends org r'" unfolding q2(2) by (rule UN_E)
        moreover have "dp_role x = rd_name d" using that n unfolding q1(2) by simp
        ultimately show False using ds(2) n by (metis imageI)
      qed
      then have "set q1 \<inter> set q2 = {}" by blast
      then show ?thesis using q1 q2 Some by (simp add: List.map_filter_simps)
    qed
  qed
  from this [of "[]"] show ?thesis by (auto simp: build_role_dependencies_def)
qed

section \<open>Expansion\<close>

text \<open>
  What a run list stands for: recipes as they are, a role its own run list in its place. The third
  argument is the recipes, the last the roles passed on the way; roles nest at most 50 deep.
\<close>

inductive expansion ::
  "(string \<Rightarrow> string list option) \<Rightarrow> nat \<Rightarrow> run_list_entry list \<Rightarrow> run_list_entry list \<Rightarrow> string list \<Rightarrow> bool" for fetch where
  nothing: "expansion fetch depth [] [] []"
| recipe: "re_type e = s_recipe \<Longrightarrow> expansion fetch depth es rs names \<Longrightarrow> expansion fetch depth (e # es) (e # rs) names"
| role: "re_type e \<noteq> s_recipe \<Longrightarrow> fetch (re_name e) = Some run_list \<Longrightarrow> parse_entries run_list = Inr sub
    \<Longrightarrow> depth < max_expansion_depth \<Longrightarrow> expansion fetch (depth + 1) sub rs names \<Longrightarrow> expansion fetch depth es rs' names'
    \<Longrightarrow> expansion fetch depth (e # es) (rs @ rs') (re_name e # names @ names')"

lemma expansion_run:
  "expansion fetch depth es rs names \<Longrightarrow>
     (if distinct names \<and> set names \<inter> visited = {}
      then expand_entries fetch depth es visited = Inr (rs, visited \<union> set names)
      else \<exists>r \<in> set names. expand_entries fetch depth es visited = Inl (Role_cycle r))"
proof (induction arbitrary: visited rule: expansion.induct)
  case (recipe e depth es rs names)
  have step: "expand_entries fetch depth (e # es) visited =
      (case expand_entries fetch depth es visited of Inl err \<Rightarrow> Inl err | Inr (xs, v) \<Rightarrow> Inr (e # xs, v))"
    using recipe(1) by simp
  show ?case
  proof (cases "distinct names \<and> set names \<inter> visited = {}")
    case True
    then show ?thesis using recipe(3) [of visited] step by simp
  next
    case False
    then obtain r where "r \<in> set names" "expand_entries fetch depth es visited = Inl (Role_cycle r)"
      using recipe(3) [of visited] unfolding if_not_P [OF False] by blast
    then show ?thesis using False step by auto
  qed
next
  case (role e run_list sub depth rs names es rs' names')
  let ?r = "re_name e"
  have d: "\<not> max_expansion_depth < depth + 1" using role(4) by simp
  show ?case
  proof (cases "?r \<in> visited")
    case True
    then show ?thesis using role(1) by simp
  next
    case new: False
    have step: "expand_entries fetch depth (e # es) visited =
        (case expand_entries fetch (depth + 1) sub (insert ?r visited) of
           Inl err \<Rightarrow> Inl err
         | Inr (xs, v) \<Rightarrow> (case expand_entries fetch depth es v of Inl err \<Rightarrow> Inl err | Inr (ys, w) \<Rightarrow> Inr (xs @ ys, w)))"
      using role(1,2,3) new d by simp
    show ?thesis
    proof (cases "distinct names \<and> set names \<inter> insert ?r visited = {}")
      case False
      then obtain r where "r \<in> set names" "expand_entries fetch (depth + 1) sub (insert ?r visited) = Inl (Role_cycle r)"
        using role(7) [of "insert ?r visited"] unfolding if_not_P [OF False] by blast
      then show ?thesis using False step new by auto
    next
      case True
      then have s: "expand_entries fetch (depth + 1) sub (insert ?r visited) = Inr (rs, insert ?r visited \<union> set names)"
        using role(7) [of "insert ?r visited"] by simp
      show ?thesis
      proof (cases "distinct names' \<and> set names' \<inter> (insert ?r visited \<union> set names) = {}")
        case False
        then obtain r where "r \<in> set names'" "expand_entries fetch depth es (insert ?r visited \<union> set names) = Inl (Role_cycle r)"
          using role(8) [of "insert ?r visited \<union> set names"] unfolding if_not_P [OF False] by blast
        then show ?thesis using False step s by auto
      next
        case rest: True
        then have "expand_entries fetch depth es (insert ?r visited \<union> set names)
            = Inr (rs', insert ?r visited \<union> set names \<union> set names')"
          using role(8) [of "insert ?r visited \<union> set names"] by simp
        then show ?thesis using step s True rest new by auto
      qed
    qed
  qed
qed simp

lemma run_expansion:
  "expand_entries fetch depth es visited = Inr (rs, w)
   \<Longrightarrow> \<exists>names. expansion fetch depth es rs names \<and> distinct names \<and> set names \<inter> visited = {} \<and> w = visited \<union> set names"
proof (induction fetch depth es visited arbitrary: rs w rule: expand_entries.induct)
  case (1 fetch depth visited)
  then show ?case by (auto intro: expansion.nothing)
next
  case (2 fetch depth e es visited)
  show ?case
  proof (cases "re_type e = s_recipe")
    case True
    then obtain xs where x: "expand_entries fetch depth es visited = Inr (xs, w)" "rs = e # xs"
      using 2(4) by (auto split: sum.splits prod.splits)
    then show ?thesis using 2(1) [OF True x(1)] True by (auto intro: expansion.recipe)
  next
    case False
    obtain run_list sub xs v ys where r: "re_name e \<notin> visited" "fetch (re_name e) = Some run_list"
      "parse_entries run_list = Inr sub" "\<not> max_expansion_depth < depth + 1"
      "expand_entries fetch (depth + 1) sub (insert (re_name e) visited) = Inr (xs, v)"
      "expand_entries fetch depth es v = Inr (ys, w)" "rs = xs @ ys"
      using 2(4) False by (auto split: if_splits option.splits sum.splits prod.splits)
    obtain n1 where n1: "expansion fetch (depth + 1) sub xs n1" "distinct n1"
      "set n1 \<inter> insert (re_name e) visited = {}" "v = insert (re_name e) visited \<union> set n1"
      using 2(2) [OF False r(1,2,3,4,5)] by blast
    obtain n2 where n2: "expansion fetch depth es ys n2" "distinct n2" "set n2 \<inter> v = {}" "w = v \<union> set n2"
      using 2(3) [OF False r(1,2,3,4,5) refl r(6)] by blast
    have "expansion fetch depth (e # es) rs (re_name e # n1 @ n2)"
      unfolding r(7) by (rule expansion.role [OF False r(2,3) _ n1(1) n2(1)]) (use r(4) in simp)
    moreover have "distinct (re_name e # n1 @ n2)" "set (re_name e # n1 @ n2) \<inter> visited = {}"
      "w = visited \<union> set (re_name e # n1 @ n2)"
      using n1 n2 r(1) by auto
    ultimately show ?thesis by blast
  qed
qed

text \<open>C26: the run list of a node expands to recipes exactly when it has an expansion in which no role comes twice,
  and then to that expansion: every role is replaced in its place by the recipes of its run list.\<close>

theorem expansion_exact:
  "expand_run_list fetch es = Inr rs \<longleftrightarrow> (\<exists>names. expansion fetch 0 es rs names \<and> distinct names)"
proof
  assume "expand_run_list fetch es = Inr rs"
  then obtain w where "expand_entries fetch 0 es {} = Inr (rs, w)"
    by (auto simp: expand_run_list_def map_sum_def split: sum.splits prod.splits)
  then show "\<exists>names. expansion fetch 0 es rs names \<and> distinct names" using run_expansion by blast
next
  assume "\<exists>names. expansion fetch 0 es rs names \<and> distinct names"
  then obtain names where n: "expansion fetch 0 es rs names" "distinct names" by blast
  then show "expand_run_list fetch es = Inr rs" using expansion_run [OF n(1), of "{}"] by (simp add: expand_run_list_def)
qed

text \<open>A role that is reached twice is reported as a cycle although there is none: whenever a run list has a
  finite expansion that passes some role more than once, expanding it fails with that error.\<close>

theorem shared_role_is_called_a_cycle:
  assumes "expansion fetch 0 es rs names" "\<not> distinct names"
  shows "\<exists>r \<in> set names. expand_run_list fetch es = Inl (Role_cycle r)"
  using expansion_run [OF assms(1), of "{}"] assms(2) by (auto simp: expand_run_list_def)

definition base_roles :: "string \<Rightarrow> string list option" where
  "base_roles r =
     (if r = ''web'' then Some [''role[base]'', ''recipe[nginx]''] else if r = ''db'' then Some [''role[base]'']
      else if r = ''base'' then Some [''recipe[ntp]''] else None)"

definition entry_role :: "string \<Rightarrow> run_list_entry" where
  "entry_role r = \<lparr>re_type = s_role, re_name = r, re_recipe = []\<rparr>"

definition entry_recipe :: "string \<Rightarrow> run_list_entry" where
  "entry_recipe c = \<lparr>re_type = s_recipe, re_name = c, re_recipe = ''default''\<rparr>"

lemma base_roles_parse:
  "parse_entries [''role[base]'', ''recipe[nginx]''] = Inr [entry_role ''base'', entry_recipe ''nginx'']"
  "parse_entries [''role[base]''] = Inr [entry_role ''base'']"
  "parse_entries [''recipe[ntp]''] = Inr [entry_recipe ''ntp'']"
  by code_simp+

lemma base_roles_expansion:
  "expansion base_roles 0 [entry_role ''web'', entry_role ''db''] [entry_recipe ''ntp'', entry_recipe ''nginx'', entry_recipe ''ntp'']
     [''web'', ''base'', ''db'', ''base'']"
proof -
  have b: "expansion base_roles d [entry_recipe c] [entry_recipe c] []" for d c
    by (intro expansion.recipe expansion.nothing) (simp add: entry_recipe_def)
  have base: "expansion base_roles 1 (entry_role ''base'' # es) (entry_recipe ''ntp'' # rs) [''base'']"
    if "expansion base_roles 1 es rs []" for es rs
    using expansion.role [OF _ _ base_roles_parse(3) _ b that, of "entry_role ''base''"]
    by (simp add: entry_role_def base_roles_def max_expansion_depth_def)
  have db: "expansion base_roles 0 [entry_role ''db''] [entry_recipe ''ntp''] [''db'', ''base'']"
    using expansion.role [OF _ _ base_roles_parse(2) _ _ expansion.nothing, of "entry_role ''db''" base_roles 0]
      base [OF expansion.nothing] by (simp add: entry_role_def base_roles_def max_expansion_depth_def)
  have "expansion base_roles 0 (entry_role ''web'' # [entry_role ''db''])
     ([entry_recipe ''ntp'', entry_recipe ''nginx''] @ [entry_recipe ''ntp''])
     (re_name (entry_role ''web'') # [''base''] @ [''db'', ''base''])"
    by (rule expansion.role [OF _ _ base_roles_parse(1) _ _ db])
      (use base [OF b] in \<open>simp_all add: entry_role_def base_roles_def max_expansion_depth_def\<close>)
  then show ?thesis by (simp add: entry_role_def)
qed

theorem shared_role_is_called_a_cycle_witness:
  "\<exists>r \<in> {''web'', ''base'', ''db''}. expand_run_list base_roles [entry_role ''web'', entry_role ''db''] = Inl (Role_cycle r)"
  using shared_role_is_called_a_cycle [OF base_roles_expansion] by auto

section \<open>Cookbooks\<close>

definition needs :: "(string \<Rightarrow> string \<Rightarrow> string list option) \<Rightarrow> (string \<rightharpoonup> string) \<Rightarrow> (string \<times> string) set" where
  "needs deps node = {(c, d). \<exists>v ds. node c = Some v \<and> deps c v = Some ds \<and> d \<in> set ds}"

definition needed :: "(string \<Rightarrow> string \<Rightarrow> string list option) \<Rightarrow> (string \<rightharpoonup> string) \<Rightarrow> string set \<Rightarrow> string set" where
  "needed deps node roots = (needs deps node)\<^sup>* `` roots"

lemma add_needed_result:
  "add_needed node ds queue result = Inr (queue', result') \<Longrightarrow>
     dom result' = dom result \<union> set ds \<and> set queue' = set queue \<union> (set ds - dom result)
     \<and> (\<forall>d. result' d = (if d \<in> dom result then result d else if d \<in> set ds then node d else None))"
proof (induction node ds queue result arbitrary: queue' result' rule: add_needed.induct)
  case (2 node d ds queue result)
  show ?case
  proof (cases "result d")
    case (Some v)
    then have n: "result d \<noteq> None" and dd: "d \<in> dom result" by auto
    have eq: "add_needed node ds queue result = Inr (queue', result')" using 2(3) Some by simp
    note IH = 2(1) [OF n eq]
    have "dom result' = dom result \<union> set (d # ds)" using IH dd by auto
    moreover have "set queue' = set queue \<union> (set (d # ds) - dom result)" using IH dd by auto
    moreover have "result' x = (if x \<in> dom result then result x else if x \<in> set (d # ds) then node x else None)" for x
      using IH dd by (cases "x = d") simp_all
    ultimately show ?thesis by blast
  next
    case None
    then obtain v where v: "node d = Some v" using 2(3) by (auto split: option.splits)
    have eq: "add_needed node ds (queue @ [d]) (result(d \<mapsto> v)) = Inr (queue', result')" using 2(3) None v by simp
    have n: "\<not> result d \<noteq> None" using None by simp
    note IH = 2(2) [OF n v eq]
    have "dom result' = dom result \<union> set (d # ds)" using IH by auto
    moreover have "set queue' = set queue \<union> (set (d # ds) - dom result)" using IH None by auto
    moreover have "\<forall>x. result' x = (if x \<in> dom result then result x else if x \<in> set (d # ds) then node x else None)"
      using IH None v by (auto simp: dom_def)
    ultimately show ?thesis by blast
  qed
qed auto

lemma add_needed_fails: "add_needed node ds queue result = Inl e \<Longrightarrow> \<exists>d \<in> set ds. e = Not_on_node d \<and> node d = None"
  by (induction node ds queue result rule: add_needed.induct) (auto split: if_splits option.splits)

lemma resolve_loop_result:
  assumes "set queue \<subseteq> dom result" "\<And>d. d \<in> dom result \<Longrightarrow> result d = map_of node d"
    and "dom result \<subseteq> needed deps (map_of node) roots" "roots \<subseteq> dom result"
    and "\<And>c. c \<in> dom result - set queue \<Longrightarrow> (\<exists>ds. deps c (the (result c)) = Some ds \<and> set ds \<subseteq> dom result)"
  shows "case resolve_loop deps node queue result of
           Inr res \<Rightarrow> dom res = needed deps (map_of node) roots \<and> (\<forall>d \<in> dom res. res d = map_of node d)
         | Inl e \<Rightarrow> (\<exists>d \<in> needed deps (map_of node) roots. e = Not_on_node d \<and> map_of node d = None
                      \<or> (\<exists>v. e = Resolving d \<and> map_of node d = Some v \<and> deps d v = None))"
  using assms
proof (induction deps node queue result rule: resolve_loop.induct)
  case (1 deps node result)
  have "needed deps (map_of node) roots \<subseteq> dom result"
  proof
    fix d assume "d \<in> needed deps (map_of node) roots"
    then obtain r where "(r, d) \<in> (needs deps (map_of node))\<^sup>*" "r \<in> roots" by (auto simp: needed_def)
    then show "d \<in> dom result"
    proof (induction rule: rtrancl_induct)
      case base
      then show ?case using 1(4) by blast
    next
      case (step y z)
      then have y: "y \<in> dom result" by simp
      then obtain ds where "deps y (the (result y)) = Some ds" "set ds \<subseteq> dom result" using 1(5) [of y] by auto
      moreover have "result y = map_of node y" using 1(2) y by blast
      ultimately show ?case using step(2) y by (auto simp: needs_def)
    qed
  qed
  then show ?case using 1 by auto
next
  case (2 deps node c queue result)
  have c: "c \<in> dom result" using 2(2) by simp
  then obtain v where v: "result c = Some v" "map_of node c = Some v" using 2(3) [OF c] by (metis domD)
  have cn: "c \<in> needed deps (map_of node) roots" using c 2(4) by blast
  show ?case
  proof (cases "deps c v")
    case None
    then show ?thesis using v cn by auto
  next
    case (Some ds)
    have dn: "d \<in> needed deps (map_of node) roots" if "d \<in> set ds" for d
    proof -
      have "(c, d) \<in> needs deps (map_of node)" using that Some v(2) by (auto simp: needs_def)
      then show ?thesis using cn by (auto simp: needed_def intro: rtrancl_into_rtrancl)
    qed
    show ?thesis
    proof (cases "add_needed (map_of node) ds queue result")
      case (Inl e)
      then show ?thesis using add_needed_fails [OF Inl] dn Some v by auto
    next
      case (Inr p)
      obtain queue' result' where p: "p = (queue', result')" by fastforce
      note a = add_needed_result [OF Inr [unfolded p]]
      have step: "resolve_loop deps node (c # queue) result = resolve_loop deps node queue' result'"
        using Some v Inr p by simp
      have r: "result' d = map_of node d" if "d \<in> dom result'" for d
        using a 2(3) that by (metis (mono_tags, lifting) Un_iff)
      show ?thesis unfolding step
      proof (rule 2(1) [OF _ Inr p [symmetric]])
        show "deps c (case result c of None \<Rightarrow> [] | Some v \<Rightarrow> v) = Some ds" using Some v by simp
        show "set queue' \<subseteq> dom result'" using a 2(2) by auto
        show "result' d = map_of node d" if "d \<in> dom result'" for d using r that .
        show "dom result' \<subseteq> needed deps (map_of node) roots" using a 2(4) dn by auto
        show "roots \<subseteq> dom result'" using a 2(5) by auto
        show "\<exists>ds. deps x (the (result' x)) = Some ds \<and> set ds \<subseteq> dom result'" if "x \<in> dom result' - set queue'" for x
        proof (cases "x = c")
          case True
          have "result' c = Some v" using a v(1) by (metis domI)
          then show ?thesis using True Some a by auto
        next
          case False
          then have x: "x \<in> dom result" "x \<notin> set queue" using that a by auto
          then obtain es where "deps x (the (result x)) = Some es" "set es \<subseteq> dom result"
            using 2(6) [of x] False by auto
          moreover have "result' x = result x" using a x(1) by simp
          ultimately show ?thesis using a by auto
        qed
      qed
    qed
  qed
qed

text \<open>C27: the cookbooks resolved for a node are the least set that holds those of its recipes and, with a cookbook,
  what it depends on at the version the node has, each with that version, whatever order dependencies come
  in; and when it fails the reason is a cookbook of this set the node does not have or whose dependencies
  cannot be read. It always ends.\<close>

theorem resolved_cookbooks_are_the_closure:
  "case resolve_cookbook_set deps node recipes of
     Inr res \<Rightarrow> dom res = needed deps (map_of node) (re_name ` set recipes) \<and> (\<forall>d \<in> dom res. res d = map_of node d)
   | Inl e \<Rightarrow> (\<exists>d \<in> needed deps (map_of node) (re_name ` set recipes).
                  e = Not_on_node d \<and> map_of node d = None
                  \<or> (\<exists>v. e = Resolving d \<and> map_of node d = Some v \<and> deps d v = None))"
proof -
  have roots: "re_name ` set recipes \<subseteq> needed deps (map_of node) (re_name ` set recipes)" by (auto simp: needed_def)
  show ?thesis
  proof (cases "add_needed (map_of node) (map re_name recipes) [] Map.empty")
    case (Inl e)
    then show ?thesis using add_needed_fails [OF Inl] roots by (auto simp: resolve_cookbook_set_def)
  next
    case (Inr p)
    obtain queue result where p: "p = (queue, result)" by fastforce
    note a = add_needed_result [OF Inr [unfolded p]]
    have "case resolve_loop deps node queue result of
           Inr res \<Rightarrow> dom res = needed deps (map_of node) (re_name ` set recipes) \<and> (\<forall>d \<in> dom res. res d = map_of node d)
         | Inl e \<Rightarrow> (\<exists>d \<in> needed deps (map_of node) (re_name ` set recipes). e = Not_on_node d \<and> map_of node d = None
                      \<or> (\<exists>v. e = Resolving d \<and> map_of node d = Some v \<and> deps d v = None))"
    proof (rule resolve_loop_result)
      show "result d = map_of node d" if "d \<in> dom result" for d
        using a that by (metis Un_iff dom_empty empty_iff)
    qed (use a roots in auto)
    then show ?thesis by (simp add: resolve_cookbook_set_def Inr p)
  qed
qed

theorem resolved_cookbooks_are_the_closure_witness:
  "resolve_cookbook_set (\<lambda>c v. Some (if c = ''web'' then [''ntp''] else [])) [(''web'', ''1.0''), (''ntp'', ''2.0''), (''apt'', ''3.0'')]
     [\<lparr>re_type = s_recipe, re_name = ''web'', re_recipe = ''default''\<rparr>] = Inr [''web'' \<mapsto> ''1.0'', ''ntp'' \<mapsto> ''2.0'']
   \<and> needed (\<lambda>c v. Some (if c = ''web'' then [''ntp''] else [])) (map_of [(''web'', ''1.0''), (''ntp'', ''2.0''), (''apt'', ''3.0'')])
       {''web''} = {''web'', ''ntp''}"
proof -
  let ?deps = "\<lambda>c (v :: string). Some (if c = ''web'' then [''ntp''] else [])"
  let ?node = "[(''web'', ''1.0''), (''ntp'', ''2.0''), (''apt'', ''3.0'')]"
  let ?es = "[\<lparr>re_type = s_recipe, re_name = ''web'', re_recipe = ''default''\<rparr>]"
  have r: "resolve_cookbook_set ?deps ?node ?es = Inr [''web'' \<mapsto> ''1.0'', ''ntp'' \<mapsto> ''2.0'']"
    by (simp add: resolve_cookbook_set_def)
  then show ?thesis using resolved_cookbooks_are_the_closure [of ?deps ?node ?es] by auto
qed

section \<open>Version pins\<close>

definition plain_name :: "string \<Rightarrow> bool" where
  "plain_name s = (s \<noteq> [] \<and> list_all (\<lambda>c. c \<notin> set ''[]:@'' \<and> \<not> is_space c) s)"

lemma index_of_absent: "c \<notin> set s \<Longrightarrow> index_of (c # p) s = None"
  by (simp add: index_of_None_iff) (metis set_mono_sublist list.set_intros(1) subsetD)

lemma index_of_head: "c \<notin> set s \<Longrightarrow> index_of [c] (s @ c # t) = Some (length s)"
  by (induction s) auto

definition pinned_entry :: "string \<Rightarrow> string \<Rightarrow> string" where
  "pinned_entry c v = s_recipe @ ''['' @ c @ ''@'' @ v @ '']''"

lemma bracketed_some:
  "content \<noteq> [] \<Longrightarrow> CHR '']'' \<notin> set content \<Longrightarrow> bracketed t (t @ ''['' @ content @ '']'') = Some content"
  by (simp add: bracketed_def Let_def)

lemma collector_reads_pinned:
  assumes "plain_name c" "plain_name v"
  shows "collector_parse_entry (pinned_entry c v) = Some \<lparr>pe_type = s_recipe, pe_name = c\<rparr>"
proof -
  have ch: "CHR ''@'' \<notin> set c" "CHR '':'' \<notin> set c" "CHR '']'' \<notin> set c" "CHR '']'' \<notin> set v"
    using assms by (auto simp: plain_name_def list_all_iff)
  have t: "trim_space (pinned_entry c v) = pinned_entry c v"
    by (rule trim_space_plain) (simp_all add: pinned_entry_def s_recipe_def is_space_def)
  have b: "bracketed s_recipe (pinned_entry c v) = Some (c @ ''@'' @ v)"
    using bracketed_some [of "c @ ''@'' @ v" s_recipe] ch by (simp add: pinned_entry_def)
  have "before_first ''@'' (c @ ''@'' @ v) = c" using ch(1) by (simp add: before_first_def index_of_head)
  moreover have "before_first ''::'' c = c" using index_of_absent [OF ch(2)] by (simp add: before_first_def)
  ultimately show ?thesis by (simp add: collector_parse_entry_def t b)
qed

lemma tester_reads_pinned:
  assumes "plain_name c" "plain_name v"
  shows "parse_run_list_entry (pinned_entry c v) = Inr \<lparr>re_type = s_recipe, re_name = c @ ''@'' @ v, re_recipe = ''default''\<rparr>"
proof -
  have ch: "CHR '':'' \<notin> set (c @ ''@'' @ v)" using assms by (auto simp: plain_name_def list_all_iff)
  have "index_of ''['' (pinned_entry c v) = Some (length s_recipe)"
    unfolding pinned_entry_def using index_of_head [of "CHR ''[''" s_recipe] by (simp add: s_recipe_def)
  moreover have "index_of ''::'' (c @ ''@'' @ v) = None" using index_of_absent [OF ch] by simp
  moreover have "butlast (pinned_entry c v) = s_recipe @ ''['' @ c @ ''@'' @ v" by (simp add: pinned_entry_def butlast_append)
  moreover have "suffix '']'' (pinned_entry c v)" "pinned_entry c v \<noteq> []" by (simp_all add: pinned_entry_def suffix_def)
  moreover have "take (length s_recipe) (pinned_entry c v) = s_recipe" by (simp add: pinned_entry_def)
  ultimately show ?thesis by (simp add: parse_run_list_entry_def parse_recipe_value_def Let_def)
qed

text \<open>C28: a recipe that pins its version is one cookbook to the collector and another to the test of a node: the
  collector drops the version, the parser of the test keeps it in the name, and resolving the cookbooks of
  the node then fails, although the node has the cookbook.\<close>

theorem pinned_recipe_is_not_found:
  assumes "plain_name c" "plain_name v" "map_of node (c @ ''@'' @ v) = None"
  shows "collector_parse_entry (pinned_entry c v) = Some \<lparr>pe_type = s_recipe, pe_name = c\<rparr>
    \<and> (\<exists>e. parse_run_list_entry (pinned_entry c v) = Inr e
           \<and> resolve_cookbook_set deps node (before @ e # after)
             \<in> {Inl (Not_on_node d) |d. d \<in> insert (c @ ''@'' @ v) (re_name ` set before)})"
proof -
  let ?e = "\<lparr>re_type = s_recipe, re_name = c @ ''@'' @ v, re_recipe = ''default''\<rparr>"
  have "\<exists>d. add_needed (map_of node) (map re_name (before @ ?e # after)) queue result = Inl (Not_on_node d)
      \<and> d \<in> insert (c @ ''@'' @ v) (re_name ` set before)" if "result (c @ ''@'' @ v) = None" for queue result
    using that
  proof (induction before arbitrary: queue result)
    case (Cons b bs)
    show ?case
    proof (cases "result (re_name b)")
      case (Some w)
      then show ?thesis using Cons.IH [where queue = queue and result = result] Cons.prems by auto
    next
      case None
      show ?thesis
      proof (cases "map_of node (re_name b)")
        case found: (Some w)
        then have "re_name b \<noteq> c @ ''@'' @ v" using assms(3) by auto
        then have "(result(re_name b \<mapsto> w)) (c @ ''@'' @ v) = None" using Cons.prems by simp
        then obtain d where d: "add_needed (map_of node) (map re_name (bs @ ?e # after)) (queue @ [re_name b]) (result(re_name b \<mapsto> w))
            = Inl (Not_on_node d)" "d \<in> insert (c @ ''@'' @ v) (re_name ` set bs)"
          using Cons.IH [where queue = "queue @ [re_name b]" and result = "result(re_name b \<mapsto> w)"] by blast
        have "add_needed (map_of node) (map re_name ((b # bs) @ ?e # after)) queue result = Inl (Not_on_node d)"
          using d(1) None found by (simp del: fun_upd_apply)
        then show ?thesis using d(2) by auto
      qed (simp add: None)
    qed
  qed (use assms(3) in simp)
  from this [of Map.empty "[]"] show ?thesis
    using collector_reads_pinned [OF assms(1,2)] tester_reads_pinned [OF assms(1,2)]
    by (auto simp: resolve_cookbook_set_def)
qed

theorem pinned_recipe_is_not_found_witness:
  "\<exists>e. parse_run_list_entry ''recipe[nginx@1.2]'' = Inr e
     \<and> (\<exists>d. resolve_cookbook_set (\<lambda>c v. Some []) [(''nginx'', ''1.2'')] [e] = Inl (Not_on_node d))"
proof -
  have "plain_name ''nginx''" "plain_name ''1.2''" by code_simp+
  moreover have "map_of [(''nginx'', ''1.2'')] (''nginx'' @ ''@'' @ ''1.2'') = None" by simp
  ultimately show ?thesis
    using pinned_recipe_is_not_found [of "''nginx''" "''1.2''" "[(''nginx'', ''1.2'')]" "\<lambda>c v. Some []" "[]" "[]"]
    by (auto simp: pinned_entry_def s_recipe_def)
qed

theorem role_dependencies_are_those_of_run_lists_witness:
  "set (build_role_dependencies ''org''
      [Some \<lparr>rd_name = ''web'', rd_run_list = [''recipe[nginx::ssl]'', ''junk''], rd_env_run_lists = [(''prod'', [''role[base]'', ''recipe[nginx]''])]\<rparr>])
   = {\<lparr>dp_org = ''org'', dp_role = ''web'', dp_type = ''cookbook'', dp_name = ''nginx''\<rparr>,
      \<lparr>dp_org = ''org'', dp_role = ''web'', dp_type = ''role'', dp_name = ''base''\<rparr>}"
proof -
  let ?r = "\<lparr>rd_name = ''web'', rd_run_list = [''recipe[nginx::ssl]'', ''junk''], rd_env_run_lists = [(''prod'', [''role[base]'', ''recipe[nginx]''])]\<rparr>"
  have p: "collector_parse_run_list [''recipe[nginx::ssl]'', ''junk''] = [\<lparr>pe_type = s_recipe, pe_name = ''nginx''\<rparr>]"
    "collector_parse_run_list [''role[base]'', ''recipe[nginx]''] =
       [\<lparr>pe_type = s_role, pe_name = ''base''\<rparr>, \<lparr>pe_type = s_recipe, pe_name = ''nginx''\<rparr>]"
    by code_simp+
  show ?thesis
    using role_dependencies_are_those_of_run_lists [of "[Some ?r]" "''org''"] p
    by (simp add: List.map_filter_simps depends_def role_run_lists_def dependency_of_def s_role_def s_recipe_def insert_commute)
qed

end
