(* ===== verification/Coverage.thy ===== *)
theory Coverage
  imports Disk
begin

text \<open>
  How much of production the test platforms of a cookbook cover
  (\<open>internal/analysis/coverage.go\<close>): the line scanner that finds the platforms of a
  \<open>.kitchen.yml\<close>, the match of a platform with one in production, and the report. Reading the file
  and storing the report are the caller's.
\<close>

section \<open>Matching\<close>

record production_platform =
  pp_platform :: string
  pp_version :: string
  pp_family :: string
  pp_count :: int

text \<open>\<open>strings.LastIndex(name, "-")\<close> and the two parts.\<close>

definition parse_kitchen_platform_name :: "string \<Rightarrow> (string \<times> string) option" where
  "parse_kitchen_platform_name name =
     (if CHR ''-'' \<notin> set name then None
      else let version = rev (takeWhile (\<lambda>c. c \<noteq> CHR ''-'') (rev name));
               os = take (length name - length version - 1) name
           in if os = [] \<or> version = [] then None else Some (os, version))"

definition major_version_match :: "string \<Rightarrow> string \<Rightarrow> bool" where
  "major_version_match kitchen production =
     (if kitchen = [] \<or> production = [] then False
      else if CHR ''.'' \<in> set kitchen
      then production = kitchen
           \<or> (prefix kitchen production \<and> production ! length kitchen = CHR ''.'')
      else kitchen = (case index_of ''.'' production of
                        Some i \<Rightarrow> if 0 < i then take i production else production
                      | None \<Rightarrow> production))"

definition platform_matches :: "string \<Rightarrow> production_platform \<Rightarrow> bool" where
  "platform_matches name pp =
     (case parse_kitchen_platform_name name of
        None \<Rightarrow> False
      | Some (os, version) \<Rightarrow>
          let os = to_lower os; platform = to_lower (pp_platform pp); family = to_lower (pp_family pp)
          in (os = platform \<and> version = pp_version pp)
             \<or> (os = platform \<and> major_version_match version (pp_version pp))
             \<or> os = family)"

section \<open>The report\<close>

record tested_match =
  tm_kitchen :: string
  tm_platform :: string
  tm_version :: string
  tm_count :: int

record coverage_report =
  cr_kitchen :: "string list"
  cr_production :: "production_platform list"
  cr_tested :: "tested_match list"
  cr_tested_not_in_prod :: "string list"
  cr_in_prod_not_tested :: "production_platform list"
  cr_gap_count :: nat
  cr_total_nodes :: int
  cr_covered_nodes :: int
  cr_percentage :: rat

definition tested_match_of :: "string \<Rightarrow> production_platform \<Rightarrow> tested_match" where
  "tested_match_of name pp =
     \<lparr>tm_kitchen = name, tm_platform = pp_platform pp, tm_version = pp_version pp, tm_count = pp_count pp\<rparr>"

text \<open>The inner loop: the production platforms, each with whether it is covered yet.\<close>

fun cover_production ::
  "string \<Rightarrow> (production_platform \<times> bool) list \<Rightarrow> (production_platform \<times> bool) list \<times> tested_match list" where
  "cover_production name [] = ([], [])"
| "cover_production name ((pp, covered) # ps) =
     (case cover_production name ps of
        (ps', ms) \<Rightarrow>
          if \<not> covered \<and> platform_matches name pp then ((pp, True) # ps', tested_match_of name pp # ms)
          else ((pp, covered) # ps', ms))"

text \<open>The outer loop: also which kitchen platforms matched something.\<close>

fun cover_kitchen ::
  "string list \<Rightarrow> (production_platform \<times> bool) list
   \<Rightarrow> (production_platform \<times> bool) list \<times> tested_match list \<times> (string \<times> bool) list" where
  "cover_kitchen [] ps = (ps, [], [])"
| "cover_kitchen (k # ks) ps =
     (case cover_production k ps of
        (ps', ms) \<Rightarrow>
          (case cover_kitchen ks ps' of
             (ps'', ms', flags) \<Rightarrow> (ps'', ms @ ms', (k, ms \<noteq> []) # flags)))"

text \<open>\<open>math.Round\<close>: to the nearest integer, halves away from zero.\<close>

definition go_round :: "rat \<Rightarrow> int" where
  "go_round x = (if x < 0 then - \<lfloor>- x + 1 / 2\<rfloor> else \<lfloor>x + 1 / 2\<rfloor>)"

definition coverage_percentage :: "int \<Rightarrow> int \<Rightarrow> rat" where
  "coverage_percentage covered total_nodes =
     (if total_nodes \<le> 0 then 0
      else let ratio = float64 (float64 (of_int covered) / float64 (of_int total_nodes)); pct = float64 (ratio * 100)
           in float64 (of_int (go_round (float64 (pct * 10))) / 10))"

definition compute_coverage :: "string list \<Rightarrow> production_platform list \<Rightarrow> coverage_report" where
  "compute_coverage ks ps =
     (case cover_kitchen ks (map (\<lambda>p. (p, False)) ps) of
        (flagged, ms, flags) \<Rightarrow>
          let gaps = map fst (filter (\<lambda>x. \<not> snd x) flagged);
              total_nodes = sum_list (map pp_count ps);
              covered = sum_list (map tm_count ms)
          in \<lparr>cr_kitchen = ks, cr_production = ps, cr_tested = ms,
              cr_tested_not_in_prod = map fst (filter (\<lambda>x. \<not> snd x) flags), cr_in_prod_not_tested = gaps,
              cr_gap_count = length gaps, cr_total_nodes = total_nodes, cr_covered_nodes = covered,
              cr_percentage = coverage_percentage covered total_nodes\<rparr>)"

section \<open>The scanner\<close>

fun split_newlines :: "string \<Rightarrow> string list" where
  "split_newlines [] = [[]]"
| "split_newlines (c # s) =
     (if c = CHR 0x0A then [] # split_newlines s
      else case split_newlines s of l # ls \<Rightarrow> (c # l) # ls | [] \<Rightarrow> [[c]])"

definition is_quote :: "char \<Rightarrow> bool" where "is_quote c = (c = CHR 0x22 \<or> c = CHR 0x27)"

definition trim_quotes :: "string \<Rightarrow> string" where
  "trim_quotes s = trim_right_by is_quote (dropWhile is_quote s)"

text \<open>The value after \<open>- name:\<close>, without a comment and without quotes.\<close>

definition name_value :: "string \<Rightarrow> string" where
  "name_value trimmed =
     (let v = trim_space (drop (length ''- name:'') trimmed);
          v = (case index_of '' #'' v of Some i \<Rightarrow> trim_space (take i v) | None \<Rightarrow> v)
      in trim_quotes v)"

fun scan_lines :: "string list \<Rightarrow> bool \<Rightarrow> string list" where
  "scan_lines [] inside = []"
| "scan_lines (l # ls) inside =
     (let trimmed = trim_space l
      in if trimmed = [] \<or> prefix ''#'' trimmed then scan_lines ls inside
         else if \<not> prefix '' '' l \<and> \<not> prefix [CHR 0x09] l
         then scan_lines ls (prefix ''platforms:'' trimmed)
         else if inside \<and> prefix ''- name:'' trimmed
         then (if name_value trimmed \<noteq> [] then name_value trimmed # scan_lines ls inside else scan_lines ls inside)
         else scan_lines ls inside)"

definition parse_kitchen_yml_platforms :: "string \<Rightarrow> string list" where
  "parse_kitchen_yml_platforms text = scan_lines (split_newlines text) False"

section \<open>What the report says\<close>

lemma cover_production_result:
  "cover_production name ps = (ps', ms) \<Longrightarrow>
     ps' = map (\<lambda>(p, c). (p, c \<or> platform_matches name p)) ps
     \<and> ms = map (tested_match_of name) (map fst (filter (\<lambda>(p, c). \<not> c \<and> platform_matches name p) ps))"
  by (induction name ps arbitrary: ps' ms rule: cover_production.induct) (auto split: prod.splits if_splits)

text \<open>The kitchen platform that covers a production platform: the first that matches it.\<close>

definition covers :: "string list \<Rightarrow> production_platform \<Rightarrow> bool" where
  "covers ks p = list_ex (\<lambda>k. platform_matches k p) ks"

definition first_match :: "string list \<Rightarrow> production_platform \<Rightarrow> tested_match" where
  "first_match ks p = (case find (\<lambda>k. platform_matches k p) ks of None \<Rightarrow> tested_match_of [] p | Some k \<Rightarrow> tested_match_of k p)"

lemma mset_split: "mset (filter P xs) + mset (filter (\<lambda>x. \<not> P x) xs) = mset xs"
  by (metis multiset_partition mset_filter)

lemma cover_kitchen_result:
  "cover_kitchen ks ps = (ps', ms, flags) \<Longrightarrow>
     ps' = map (\<lambda>(p, c). (p, c \<or> covers ks p)) ps
     \<and> mset ms = image_mset (first_match ks) (mset (map fst (filter (\<lambda>(p, c). \<not> c \<and> covers ks p) ps)))"
proof (induction ks arbitrary: ps ps' ms flags)
  case Nil
  then show ?case by (simp add: covers_def)
next
  case (Cons k ks)
  obtain ps1 ms1 where c: "cover_production k ps = (ps1, ms1)" by fastforce
  obtain ms2 fl where r: "cover_kitchen ks ps1 = (ps', ms2, fl)" "ms = ms1 @ ms2"
    using Cons.prems c by (auto split: prod.splits)
  note c' = cover_production_result [OF c] and IH = Cons.IH [OF r(1)]
  let ?now = "filter (\<lambda>(p, c). \<not> c \<and> platform_matches k p) ps"
  let ?later = "filter (\<lambda>(p, c). \<not> c \<and> \<not> platform_matches k p \<and> covers ks p) ps"
  have "ms1 = map (first_match (k # ks)) (map fst ?now)"
    using c' by (auto simp: first_match_def)
  then have m1: "mset ms1 = image_mset (first_match (k # ks)) (mset (map fst ?now))" by (metis mset_map)
  have "map fst (filter (\<lambda>(p, c). \<not> c \<and> covers ks p) ps1) = map fst ?later"
    using c' by (simp add: filter_map comp_def case_prod_unfold conj_assoc)
  then have "mset ms2 = mset (map (first_match ks) (map fst ?later))" using IH by (metis mset_map)
  moreover have "map (first_match ks) (map fst ?later) = map (first_match (k # ks)) (map fst ?later)"
    by (auto simp: first_match_def)
  ultimately have m2: "mset ms2 = image_mset (first_match (k # ks)) (mset (map fst ?later))" by (metis mset_map)
  have "mset (map fst (filter (\<lambda>(p, c). \<not> c \<and> covers (k # ks) p) ps)) = mset (map fst ?now) + mset (map fst ?later)"
    by (induction ps) (auto simp: covers_def)
  then have "mset ms = image_mset (first_match (k # ks)) (mset (map fst (filter (\<lambda>(p, c). \<not> c \<and> covers (k # ks) p) ps)))"
    by (simp only: r(2) mset_append m1 m2 image_mset_union)
  then show ?case using c' IH by (auto simp: covers_def)
qed

lemma cover_kitchen_flag:
  "cover_kitchen (before @ k # after) ps = (ps', ms, flags) \<Longrightarrow>
     \<exists>f1 f2. flags = f1 @ (k, list_ex (\<lambda>(p, c). \<not> c \<and> \<not> covers before p \<and> platform_matches k p) ps) # f2"
proof (induction before arbitrary: ps ps' ms flags)
  case Nil
  obtain ps1 ms1 where c: "cover_production k ps = (ps1, ms1)" by fastforce
  have "ms1 \<noteq> [] \<longleftrightarrow> list_ex (\<lambda>(p, c). \<not> c \<and> platform_matches k p) ps"
    using cover_production_result [OF c] by (auto simp: list_ex_iff filter_empty_conv)
  moreover have "(\<lambda>(p, c). \<not> c \<and> \<not> covers [] p \<and> platform_matches k p) = (\<lambda>(p, c). \<not> c \<and> platform_matches k p)"
    by (simp add: covers_def fun_eq_iff)
  moreover obtain fl where "flags = (k, ms1 \<noteq> []) # fl" using Nil c by (auto split: prod.splits)
  ultimately show ?case by (intro exI [where x = "[]"] exI [where x = fl]) simp
next
  case (Cons b before)
  obtain ps1 ms1 where c: "cover_production b ps = (ps1, ms1)" by fastforce
  obtain ps2 ms2 fl where r: "cover_kitchen (before @ k # after) ps1 = (ps2, ms2, fl)" "flags = (b, ms1 \<noteq> []) # fl"
    using Cons.prems c by (auto split: prod.splits)
  have e: "list_ex (\<lambda>(p, c). \<not> c \<and> \<not> covers before p \<and> platform_matches k p) ps1
      = list_ex (\<lambda>(p, c). \<not> c \<and> \<not> covers (b # before) p \<and> platform_matches k p) ps"
    unfolding conjunct1 [OF cover_production_result [OF c]] by (induction ps) (auto simp: covers_def)
  obtain f1 f2 where "fl = f1 @ (k, list_ex (\<lambda>(p, c). \<not> c \<and> \<not> covers (b # before) p \<and> platform_matches k p) ps) # f2"
    using Cons.IH [OF r(1)] unfolding e by blast
  then show ?case unfolding r(2) by (intro exI [where x = "(b, ms1 \<noteq> []) # f1"] exI [where x = f2]) simp
qed

text \<open>C30: a production platform is tested exactly when some kitchen platform matches it, whatever the order of
  the two lists: the tested ones are listed once each, with the first kitchen platform that matches, the
  others are the gaps, in order, and the nodes of both add up to all nodes.\<close>

theorem coverage_partitions_production:
  "mset (cr_tested (compute_coverage ks ps)) = image_mset (first_match ks) (filter_mset (covers ks) (mset ps))
   \<and> cr_in_prod_not_tested (compute_coverage ks ps) = filter (\<lambda>p. \<not> covers ks p) ps
   \<and> cr_gap_count (compute_coverage ks ps) = length (filter (\<lambda>p. \<not> covers ks p) ps)
   \<and> cr_covered_nodes (compute_coverage ks ps) = sum_list (map pp_count (filter (covers ks) ps))
   \<and> cr_total_nodes (compute_coverage ks ps)
       = cr_covered_nodes (compute_coverage ks ps) + sum_list (map pp_count (cr_in_prod_not_tested (compute_coverage ks ps)))"
proof -
  obtain ps' ms flags where c: "cover_kitchen ks (map (\<lambda>p. (p, False)) ps) = (ps', ms, flags)" by (rule prod_cases3)
  note r = cover_kitchen_result [OF c]
  have g: "map fst (filter (\<lambda>x. \<not> snd x) ps') = filter (\<lambda>p. \<not> covers ks p) ps"
    using r by (simp add: filter_map comp_def)
  have l: "length (filter (\<lambda>x. \<not> snd x) ps') = length (filter (\<lambda>p. \<not> covers ks p) ps)"
    using arg_cong [OF g, of length] by simp
  have m: "mset ms = image_mset (first_match ks) (mset (filter (covers ks) ps))"
    using r by (simp add: filter_map comp_def)
  have "tm_count (first_match ks p) = pp_count p" for p
    by (simp add: first_match_def tested_match_of_def split: option.split)
  then have n: "sum_list (map tm_count ms) = sum_list (map pp_count (filter (covers ks) ps))"
    using arg_cong [OF m, of "\<lambda>M. sum_mset (image_mset tm_count M)"]
    by (simp add: image_mset.compositionality comp_def flip: sum_mset_sum_list)
  have "sum_list (map pp_count ps) = sum_list (map pp_count (filter (covers ks) ps))
      + sum_list (map pp_count (filter (\<lambda>p. \<not> covers ks p) ps))"
    by (induction ps) simp_all
  then show ?thesis using g l m n by (simp add: compute_coverage_def c Let_def)
qed

text \<open>A kitchen platform is reported as tested but not in production, although it is, when earlier platforms
  of the list have covered everything it matches: each production platform counts for the first that
  matches it, and the test by family ignores the version.\<close>

theorem shadowed_platform_is_reported_missing:
  assumes "platform_matches k p" "p \<in> set ps" "list_all (\<lambda>q. platform_matches k q \<longrightarrow> covers before q) ps"
  shows "k \<in> set (cr_tested_not_in_prod (compute_coverage (before @ k # after) ps)) \<and> covers [k] p"
proof -
  obtain ps' ms flags where c: "cover_kitchen (before @ k # after) (map (\<lambda>p. (p, False)) ps) = (ps', ms, flags)"
    by (rule prod_cases3)
  obtain f1 f2 where "flags = f1 @ (k, list_ex (\<lambda>(p, c). \<not> c \<and> \<not> covers before p \<and> platform_matches k p) (map (\<lambda>p. (p, False)) ps)) # f2"
    using cover_kitchen_flag [OF c] by blast
  moreover have "\<not> list_ex (\<lambda>(p, c). \<not> c \<and> \<not> covers before p \<and> platform_matches k p) (map (\<lambda>p. (p, False)) ps)"
    using assms(3) by (auto simp: list_ex_iff list_all_iff)
  ultimately show ?thesis using assms(1) by (simp add: compute_coverage_def c Let_def covers_def)
qed

definition centos :: production_platform where
  "centos = \<lparr>pp_platform = ''centos'', pp_version = ''8.4'', pp_family = ''rhel'', pp_count = 12\<rparr>"

theorem shadowed_platform_is_reported_missing_witness:
  "''centos-8'' \<in> set (cr_tested_not_in_prod (compute_coverage [''rhel-9'', ''centos-8''] [centos]))
   \<and> covers [''centos-8''] centos"
proof -
  have m: "platform_matches ''centos-8'' centos" "covers [''rhel-9''] centos" by code_simp+
  then show ?thesis
    using shadowed_platform_is_reported_missing [of "''centos-8''" centos "[centos]" "[''rhel-9'']" "[]"] m by simp
qed

section \<open>What the scanner sees\<close>

text \<open>A file with a list of platforms, each item indented by a number of spaces.\<close>

definition kitchen_yml :: "nat \<Rightarrow> string list \<Rightarrow> string" where
  "kitchen_yml indent names =
     ''platforms:'' @ concat (map (\<lambda>n. CHR 0x0A # replicate indent CHR '' '' @ ''- name: '' @ n) names)"

definition plain_platform :: "string \<Rightarrow> bool" where
  "plain_platform n = (n \<noteq> [] \<and> list_all (\<lambda>c. \<not> is_space c \<and> \<not> is_quote c) n)"

lemma split_newlines_line: "CHR 0x0A \<notin> set l \<Longrightarrow> split_newlines l = [l]"
  by (induction l) auto

lemma split_newlines_append: "CHR 0x0A \<notin> set l \<Longrightarrow> split_newlines (l @ CHR 0x0A # s) = l # split_newlines s"
  by (induction l) auto

definition item_line :: "nat \<Rightarrow> string \<Rightarrow> string" where
  "item_line indent n = replicate indent CHR '' '' @ ''- name: '' @ n"

lemma newline_is_space: "plain_platform n \<Longrightarrow> CHR 0x0A \<notin> set n"
  by (auto simp: plain_platform_def list_all_iff is_space_def)

lemma split_kitchen_yml:
  assumes "list_all plain_platform names"
  shows "split_newlines (kitchen_yml indent names) = ''platforms:'' # map (item_line indent) names"
proof -
  have i: "CHR 0x0A \<notin> set (item_line indent n)" if "plain_platform n" for n
    using newline_is_space [OF that] by (auto simp: item_line_def)
  have "split_newlines (l @ concat (map (\<lambda>n. CHR 0x0A # item_line indent n) names)) = l # map (item_line indent) names"
    if "CHR 0x0A \<notin> set l" for l
    using that assms
  proof (induction names arbitrary: l)
    case (Cons n names)
    then show ?case using i by (simp add: split_newlines_append)
  qed (simp add: split_newlines_line)
  from this [of "''platforms:''"] show ?thesis unfolding kitchen_yml_def item_line_def by simp
qed

lemma trim_item_line:
  assumes "plain_platform n"
  shows "trim_space (item_line indent n) = ''- name: '' @ n"
proof -
  have "n \<noteq> []" "\<not> is_space (last n)" using assms by (auto simp: plain_platform_def list_all_iff)
  then have "trim_space (''- name: '' @ n) = ''- name: '' @ n"
    by (intro trim_space_plain) (simp_all add: is_space_def)
  moreover have "dropWhile is_space (replicate i CHR '' '' @ s) = dropWhile is_space s" for i s
    by (induction i) (simp_all add: is_space_def)
  ultimately show ?thesis by (simp add: trim_space_def item_line_def)
qed

lemma name_of_item:
  assumes "plain_platform n"
  shows "name_value (''- name: '' @ n) = n"
proof -
  have n: "n \<noteq> []" "\<not> is_space (hd n)" "\<not> is_space (last n)" "\<not> is_quote (hd n)" "\<not> is_quote (last n)" "CHR '' '' \<notin> set n"
    using assms by (auto simp: plain_platform_def list_all_iff is_space_def hd_in_set)
  have t: "trim_space (CHR '' '' # n) = n"
    using trim_space_plain [OF n(1,2,3)] by (simp add: trim_space_def is_space_def)
  have "index_of '' #'' n = None" using n(6) by (simp add: index_of_None_iff) (metis list.set_intros(1) set_mono_sublist subsetD)
  moreover have "trim_quotes n = n"
  proof -
    have "rev n = last n # rev (butlast n)" using n(1) by (metis append_butlast_last_id rev_eq_Cons_iff rev_rev_ident)
    then have "dropWhile is_quote (rev n) = rev n" using n(5) by (metis dropWhile.simps(2))
    moreover have "dropWhile is_quote n = n" using n(1,4) by (cases n) simp_all
    ultimately show ?thesis by (simp add: trim_quotes_def trim_right_by_def)
  qed
  ultimately show ?thesis by (simp add: name_value_def t)
qed

text \<open>The scanner finds the platforms of a list that is indented, in order, and none of a list that is not,
  although YAML takes both for the same list.\<close>

theorem unindented_platforms_are_missed:
  assumes "list_all plain_platform names"
  shows "parse_kitchen_yml_platforms (kitchen_yml indent names) = (if indent = 0 then [] else names)"
proof -
  have item: "trim_space (item_line indent n) = ''- name: '' @ n" "name_value (''- name: '' @ n) = n" "n \<noteq> []"
    if "n \<in> set names" for n
    using assms that trim_item_line name_of_item by (auto simp: list_all_iff plain_platform_def)
  have start: "prefix '' '' (item_line indent n) \<longleftrightarrow> indent \<noteq> 0" "\<not> prefix [CHR 0x09] (item_line indent n)" for n
    by (cases indent; simp add: item_line_def)+
  have out: "scan_lines (map (item_line 0) ns) inside = []" if "set ns \<subseteq> set names" "indent = 0" for ns inside
    using that item start by (induction ns arbitrary: inside) (auto simp: Let_def)
  have ins: "scan_lines (map (item_line indent) ns) True = ns" if "set ns \<subseteq> set names" "indent \<noteq> 0" for ns
    using that item start by (induction ns) (auto simp: Let_def)
  have "trim_space ''platforms:'' = ''platforms:''" by code_simp
  then show ?thesis
    using out [of names] ins [of names] by (simp add: parse_kitchen_yml_platforms_def split_kitchen_yml [OF assms])
qed

theorem unindented_platforms_are_missed_witness:
  "parse_kitchen_yml_platforms (kitchen_yml 2 [''ubuntu-22.04'', ''centos-8'']) = [''ubuntu-22.04'', ''centos-8'']
   \<and> parse_kitchen_yml_platforms (kitchen_yml 0 [''ubuntu-22.04'', ''centos-8'']) = []"
proof -
  have "list_all plain_platform [''ubuntu-22.04'', ''centos-8'']" by code_simp
  then show ?thesis using unindented_platforms_are_missed [of "[''ubuntu-22.04'', ''centos-8'']"] by simp
qed

end
