(* ===== verification/Usage.thy ===== *)
theory Usage
  imports Prelude "HOL-Library.Product_Lexorder"
begin

text \<open>
  Which cookbook versions are in use (\<open>internal/analysis/usage.go\<close>): what a node contributes, the
  aggregation by version, the comparison with what the Chef server holds, and the rows an
  organisation's analysis leaves. The goroutines of the first phase each send what their node gives in
  one message; \<open>order\<close> is the nodes in the order the messages arrive, any order of the nodes. A
  cancelled context ends the run in its transaction, which then stores nothing. \<open>fails\<close> says that a
  statement of the transaction fails.
\<close>

section \<open>Nodes and tuples\<close>

text \<open>The cookbooks of a node are a map, in the order the code ranges over it.\<close>

record node_record =
  nd_name :: string
  nd_platform :: string
  nd_platform_version :: string
  nd_platform_family :: string
  nd_roles :: "string list"
  nd_policy_name :: string
  nd_policy_group :: string
  nd_cookbooks :: "(string \<times> string) list"

type_synonym version_key = "string \<times> string"

record extracted_tuple =
  et_key :: version_key
  et_node :: node_record

definition extract_node_tuples :: "node_record \<Rightarrow> extracted_tuple list" where
  "extract_node_tuples n = map (\<lambda>k. \<lparr>et_key = k, et_node = n\<rparr>) (nd_cookbooks n)"

definition extract_tuples :: "node_record list \<Rightarrow> extracted_tuple list" where
  "extract_tuples order = concat (map extract_node_tuples order)"

section \<open>Aggregation\<close>

record aggregated_usage =
  au_count :: nat
  au_seen :: "string set"
  au_roles :: "string set"
  au_policy_names :: "string set"
  au_policy_groups :: "string set"
  au_platforms :: "string \<rightharpoonup> nat"
  au_families :: "string \<rightharpoonup> nat"

definition no_usage :: aggregated_usage where
  "no_usage = \<lparr>au_count = 0, au_seen = {}, au_roles = {}, au_policy_names = {}, au_policy_groups = {},
     au_platforms = Map.empty, au_families = Map.empty\<rparr>"

definition platform_key :: "node_record \<Rightarrow> string" where
  "platform_key n =
     (if nd_platform_version n = [] then nd_platform n else nd_platform n @ ''/'' @ nd_platform_version n)"

definition add_if :: "string \<Rightarrow> string set \<Rightarrow> string set" where
  "add_if s S = (if s = [] then S else insert s S)"

definition use_node :: "node_record \<Rightarrow> aggregated_usage \<Rightarrow> aggregated_usage" where
  "use_node n u =
     \<lparr>au_count = (if nd_name n \<in> au_seen u then au_count u else au_count u + 1),
      au_seen = insert (nd_name n) (au_seen u),
      au_roles = au_roles u \<union> set (nd_roles n),
      au_policy_names = add_if (nd_policy_name n) (au_policy_names u),
      au_policy_groups = add_if (nd_policy_group n) (au_policy_groups u),
      au_platforms = (if nd_platform n = [] then au_platforms u else increment (platform_key n) (au_platforms u)),
      au_families = (if nd_platform_family n = [] then au_families u else increment (nd_platform_family n) (au_families u))\<rparr>"

definition aggregate_tuple ::
  "extracted_tuple \<Rightarrow> (version_key \<rightharpoonup> aggregated_usage) \<Rightarrow> (version_key \<rightharpoonup> aggregated_usage)" where
  "aggregate_tuple t agg =
     agg(et_key t \<mapsto> use_node (et_node t) (case agg (et_key t) of None \<Rightarrow> no_usage | Some u \<Rightarrow> u))"

definition aggregate_tuples :: "extracted_tuple list \<Rightarrow> (version_key \<rightharpoonup> aggregated_usage)" where
  "aggregate_tuples ts = fold aggregate_tuple ts Map.empty"

section \<open>Rows\<close>

text \<open>A set is stored as its sorted list, and as nothing when it is empty, here the empty list.\<close>

record usage_detail =
  ud_org :: string
  ud_name :: string
  ud_version :: string
  ud_active :: bool
  ud_count :: nat
  ud_roles :: "string list"
  ud_policy_names :: "string list"
  ud_policy_groups :: "string list"
  ud_platforms :: "string \<rightharpoonup> nat"
  ud_families :: "string \<rightharpoonup> nat"

record usage_header =
  uh_org :: string
  uh_total :: nat
  uh_active :: nat
  uh_unused :: nat
  uh_nodes :: nat

definition build_active_set :: "(version_key \<rightharpoonup> aggregated_usage) \<Rightarrow> version_key set" where
  "build_active_set agg = {k. \<exists>u. agg k = Some u \<and> 0 < au_count u}"

definition detail_row :: "string \<Rightarrow> (version_key \<rightharpoonup> aggregated_usage) \<Rightarrow> version_key \<Rightarrow> usage_detail" where
  "detail_row org agg k =
     (let u = (case agg k of None \<Rightarrow> no_usage | Some u \<Rightarrow> u)
      in \<lparr>ud_org = org, ud_name = fst k, ud_version = snd k, ud_active = (k \<in> build_active_set agg),
          ud_count = au_count u, ud_roles = sorted_list_of_set (au_roles u),
          ud_policy_names = sorted_list_of_set (au_policy_names u),
          ud_policy_groups = sorted_list_of_set (au_policy_groups u),
          ud_platforms = au_platforms u, ud_families = au_families u\<rparr>)"

definition build_detail_params ::
  "string \<Rightarrow> (version_key \<rightharpoonup> aggregated_usage) \<Rightarrow> version_key set \<Rightarrow> usage_detail list" where
  "build_detail_params org agg inventory = map (detail_row org agg) (sorted_list_of_set (inventory \<union> dom agg))"

section \<open>A run\<close>

text \<open>The analysis of an organisation, with its details, which go when it does.\<close>

type_synonym usage_store = "string \<rightharpoonup> usage_header \<times> usage_detail list"

definition run_usage_analysis ::
  "bool \<Rightarrow> string \<Rightarrow> node_record list \<Rightarrow> version_key list \<Rightarrow> usage_store \<Rightarrow> usage_header option \<times> usage_store" where
  "run_usage_analysis fails org order inventory store =
     (let agg = aggregate_tuples (extract_tuples order);
          known = set inventory;
          active = {k \<in> known. k \<in> build_active_set agg};
          header = \<lparr>uh_org = org, uh_total = card known, uh_active = card active, uh_unused = card (known - active),
                    uh_nodes = length order\<rparr>
      in if fails then (None, store)
         else (Some header, store(org \<mapsto> (header, build_detail_params org agg known))))"

section \<open>What the rows say\<close>

text \<open>The nodes that run a cookbook version.\<close>

definition runs_version :: "version_key \<Rightarrow> node_record \<Rightarrow> bool" where
  "runs_version k n = (k \<in> set (nd_cookbooks n))"

definition users :: "version_key \<Rightarrow> node_record list \<Rightarrow> node_record list" where
  "users k nodes = filter (runs_version k) nodes"

definition nonempty :: "string set \<Rightarrow> string set" where "nonempty S = S - {[]}"

definition count_map :: "string list \<Rightarrow> string \<rightharpoonup> nat" where
  "count_map ss s = (if s = [] \<or> s \<notin> set ss then None else Some (count_list ss s))"

text \<open>The row of a version as it should be.\<close>

definition detail_spec :: "string \<Rightarrow> node_record list \<Rightarrow> version_key \<Rightarrow> usage_detail" where
  "detail_spec org nodes k =
     (let ns = users k nodes
      in \<lparr>ud_org = org, ud_name = fst k, ud_version = snd k, ud_active = (ns \<noteq> []),
          ud_count = card (nd_name ` set ns), ud_roles = sorted_list_of_set (\<Union>n \<in> set ns. set (nd_roles n)),
          ud_policy_names = sorted_list_of_set (nonempty (nd_policy_name ` set ns)),
          ud_policy_groups = sorted_list_of_set (nonempty (nd_policy_group ` set ns)),
          ud_platforms = count_map (map platform_key (filter (\<lambda>n. nd_platform n \<noteq> []) ns)),
          ud_families = count_map (map nd_platform_family ns)\<rparr>)"

definition usage_of :: "node_record list \<Rightarrow> aggregated_usage" where
  "usage_of ns = fold use_node ns no_usage"

lemma fold_aggregate:
  "fold aggregate_tuple ts agg k =
     (if k \<in> et_key ` set ts
      then Some (fold use_node (map et_node (filter (\<lambda>t. et_key t = k) ts)) (case agg k of None \<Rightarrow> no_usage | Some u \<Rightarrow> u))
      else agg k)"
proof (induction ts arbitrary: agg)
  case (Cons t ts)
  let ?agg = "aggregate_tuple t agg"
  let ?old = "case agg k of None \<Rightarrow> no_usage | Some u \<Rightarrow> u"
  have none: "filter (\<lambda>t. et_key t = k) ts = []" if "k \<notin> et_key ` set ts" using that by (auto simp: filter_empty_conv)
  have at: "?agg k = (if et_key t = k then Some (use_node (et_node t) ?old) else agg k)"
    by (simp add: aggregate_tuple_def)
  show ?case
  proof (cases "et_key t = k")
    case True
    then show ?thesis using Cons.IH [of ?agg] at none by (cases "k \<in> et_key ` set ts") simp_all
  next
    case False
    then have "k \<in> et_key ` set (t # ts) \<longleftrightarrow> k \<in> et_key ` set ts" by auto
    then show ?thesis using Cons.IH [of ?agg] at False by simp
  qed
qed simp

lemma filter_eq_distinct: "distinct xs \<Longrightarrow> filter (\<lambda>x. x = k) xs = (if k \<in> set xs then [k] else [])"
  by (induction xs) auto

lemma extract_filter:
  assumes "\<And>n. n \<in> set order \<Longrightarrow> distinct (map fst (nd_cookbooks n))"
  shows "map et_node (filter (\<lambda>t. et_key t = k) (extract_tuples order)) = users k order"
  using assms
proof (induction order)
  case (Cons n order)
  have "distinct (nd_cookbooks n)" using Cons.prems [of n] by (simp add: distinct_map)
  then have "filter (\<lambda>x. x = k) (nd_cookbooks n) = (if k \<in> set (nd_cookbooks n) then [k] else [])"
    by (rule filter_eq_distinct)
  then have "map et_node (filter (\<lambda>t. et_key t = k) (extract_node_tuples n)) = (if runs_version k n then [n] else [])"
    by (simp add: extract_node_tuples_def filter_map comp_def runs_version_def)
  then show ?case using Cons by (simp add: extract_tuples_def users_def)
qed (simp add: extract_tuples_def users_def)

lemma aggregate_result:
  assumes "\<And>n. n \<in> set order \<Longrightarrow> distinct (map fst (nd_cookbooks n))"
  shows "aggregate_tuples (extract_tuples order) k = (if users k order = [] then None else Some (usage_of (users k order)))"
proof -
  have "k \<in> et_key ` set (extract_tuples order) \<longleftrightarrow> users k order \<noteq> []"
    by (force simp: extract_tuples_def extract_node_tuples_def users_def runs_version_def filter_empty_conv image_iff)
  then show ?thesis
    unfolding aggregate_tuples_def fold_aggregate by (simp add: usage_of_def extract_filter [where order = order, OF assms])
qed

definition counts_ok :: "string list \<Rightarrow> (string \<rightharpoonup> nat) \<Rightarrow> bool" where
  "counts_ok ss m = (m = count_map ss)"

lemma increment_count_map: "s \<noteq> [] \<Longrightarrow> increment s (count_map ss) = count_map (ss @ [s])"
  by (auto simp: increment_def count_map_def count_of_def fun_eq_iff count_notin)

lemma count_map_empty_name: "count_map (ss @ [[]]) = count_map ss"
  by (auto simp: count_map_def fun_eq_iff)

lemma usage_of_snoc: "usage_of (ns @ [n]) = use_node n (usage_of ns)"
  by (simp add: usage_of_def)

lemma usage_of_result:
  "au_seen (usage_of ns) = nd_name ` set ns \<and> au_count (usage_of ns) = card (nd_name ` set ns)
   \<and> au_roles (usage_of ns) = (\<Union>n \<in> set ns. set (nd_roles n))
   \<and> au_policy_names (usage_of ns) = nonempty (nd_policy_name ` set ns)
   \<and> au_policy_groups (usage_of ns) = nonempty (nd_policy_group ` set ns)
   \<and> au_platforms (usage_of ns) = count_map (map platform_key (filter (\<lambda>n. nd_platform n \<noteq> []) ns))
   \<and> au_families (usage_of ns) = count_map (map nd_platform_family ns)"
proof (induction ns rule: rev_induct)
  case Nil
  then show ?case by (simp add: usage_of_def no_usage_def nonempty_def count_map_def fun_eq_iff)
next
  case (snoc n ns)
  have "platform_key n \<noteq> []" if "nd_platform n \<noteq> []" using that by (simp add: platform_key_def)
  then show ?case
    using snoc
    by (auto simp: usage_of_snoc use_node_def add_if_def nonempty_def insert_absorb increment_count_map count_map_empty_name)
qed

lemma detail_row_result:
  assumes "\<And>n. n \<in> set order \<Longrightarrow> distinct (map fst (nd_cookbooks n))"
  shows "detail_row org (aggregate_tuples (extract_tuples order)) k = detail_spec org order k"
proof (cases "users k order = []")
  case True
  then show ?thesis
    by (simp add: detail_row_def detail_spec_def aggregate_result [OF assms] build_active_set_def no_usage_def nonempty_def
        count_map_def fun_eq_iff)
next
  case False
  then have "0 < card (nd_name ` set (users k order))" by (simp add: card_gt_0_iff)
  then show ?thesis
    using False usage_of_result [of "users k order"]
    by (simp add: detail_row_def detail_spec_def aggregate_result [OF assms] build_active_set_def Let_def)
qed

lemma users_perm: "mset order = mset nodes \<Longrightarrow> mset (users k order) = mset (users k nodes)"
  by (simp add: users_def)

lemma detail_spec_perm:
  assumes "mset order = mset nodes"
  shows "detail_spec org order k = detail_spec org nodes k"
proof -
  have m: "mset (users k order) = mset (users k nodes)" using assms by (rule users_perm)
  then have s: "set (users k order) = set (users k nodes)" "users k order = [] \<longleftrightarrow> users k nodes = []"
    by (metis set_mset_mset, metis mset_zero_iff)
  have c: "count_map xs = count_map ys" if "mset xs = mset ys" for xs ys
    using that by (metis (no_types, lifting) count_map_def count_mset ext set_mset_mset)
  have "mset (map f (filter P (users k order))) = mset (map f (filter P (users k nodes)))" for f :: "node_record \<Rightarrow> string" and P
    using m by simp
  then show ?thesis
    using s c [of "map platform_key (filter (\<lambda>n. nd_platform n \<noteq> []) (users k order))"] c [of "map nd_platform_family (users k order)"] m
    by (simp add: detail_spec_def Let_def)
qed

lemma used_keys:
  assumes "\<And>n. n \<in> set order \<Longrightarrow> distinct (map fst (nd_cookbooks n))"
  shows "dom (aggregate_tuples (extract_tuples order)) = (\<Union>n \<in> set order. set (nd_cookbooks n))"
    "build_active_set (aggregate_tuples (extract_tuples order)) = (\<Union>n \<in> set order. set (nd_cookbooks n))"
proof -
  have u: "users k order \<noteq> [] \<longleftrightarrow> k \<in> (\<Union>n \<in> set order. set (nd_cookbooks n))" for k
    by (auto simp: users_def runs_version_def filter_empty_conv)
  show "dom (aggregate_tuples (extract_tuples order)) = (\<Union>n \<in> set order. set (nd_cookbooks n))"
    using u by (auto simp: dom_def aggregate_result [OF assms] split: if_splits)
  have "0 < au_count (usage_of (users k order)) \<longleftrightarrow> users k order \<noteq> []" for k
    using usage_of_result [of "users k order"] by (simp add: card_gt_0_iff)
  then show "build_active_set (aggregate_tuples (extract_tuples order)) = (\<Union>n \<in> set order. set (nd_cookbooks n))"
    using u by (auto simp: build_active_set_def aggregate_result [OF assms] split: if_splits)
qed

text \<open>C29: whatever order the nodes' contributions arrive in, a run leaves one row for each cookbook version the
  server holds or a node runs, sorted by name and version, and each row says what the nodes that run the
  version are: how many distinct ones, their roles, policies, platforms and families. The header counts
  the versions on the server, those of them in use and the rest, and nothing else is stored.\<close>

theorem usage_rows_are_exact:
  assumes "mset order = mset nodes" "list_all (\<lambda>n. distinct (map fst (nd_cookbooks n))) nodes"
  shows "run_usage_analysis False org order inventory store =
    (let used = (\<Union>n \<in> set nodes. set (nd_cookbooks n));
         header = \<lparr>uh_org = org, uh_total = card (set inventory), uh_active = card (set inventory \<inter> used),
                   uh_unused = card (set inventory - used), uh_nodes = length nodes\<rparr>
     in (Some header, store(org \<mapsto> (header, map (detail_spec org nodes) (sorted_list_of_set (set inventory \<union> used))))))"
proof -
  have s: "set order = set nodes" "length order = length nodes" using assms(1) by (metis set_mset_mset, metis size_mset)
  have d: "\<And>n. n \<in> set order \<Longrightarrow> distinct (map fst (nd_cookbooks n))" using assms(2) s(1) by (simp add: list_all_iff)
  let ?used = "\<Union>n \<in> set nodes. set (nd_cookbooks n)"
  let ?agg = "aggregate_tuples (extract_tuples order)"
  have k: "dom ?agg = ?used" "build_active_set ?agg = ?used" using used_keys [where order = order, OF d] s(1) by simp_all
  have r: "build_detail_params org ?agg (set inventory) = map (detail_spec org nodes) (sorted_list_of_set (set inventory \<union> ?used))"
    using detail_row_result [where order = order, OF d] detail_spec_perm [OF assms(1)] by (simp add: build_detail_params_def k(1))
  have a: "{x \<in> set inventory. x \<in> ?used} = set inventory \<inter> ?used" by blast
  have "set inventory - (set inventory \<inter> ?used) = set inventory - ?used" by blast
  then show ?thesis unfolding run_usage_analysis_def Let_def k(2) a by (simp add: r s(2))
qed

definition two_nodes :: "node_record list" where
  "two_nodes =
     [\<lparr>nd_name = ''n1'', nd_platform = ''ubuntu'', nd_platform_version = ''22.04'', nd_platform_family = ''debian'',
       nd_roles = [''web''], nd_policy_name = [], nd_policy_group = [], nd_cookbooks = [(''nginx'', ''1.0'')]\<rparr>,
      \<lparr>nd_name = ''n2'', nd_platform = ''ubuntu'', nd_platform_version = ''22.04'', nd_platform_family = ''debian'',
       nd_roles = [], nd_policy_name = [], nd_policy_group = [], nd_cookbooks = [(''nginx'', ''1.0''), (''ntp'', ''2.0'')]\<rparr>]"

theorem usage_rows_are_exact_witness:
  "map_option (\<lambda>h. (uh_total h, uh_active h, uh_unused h))
     (fst (run_usage_analysis False ''org'' (rev two_nodes) [(''nginx'', ''1.0''), (''apt'', ''3.0'')] Map.empty)) = Some (2, 1, 1)"
proof -
  have "mset (rev two_nodes) = mset two_nodes" by simp
  moreover have "list_all (\<lambda>n. distinct (map fst (nd_cookbooks n))) two_nodes" by (simp add: two_nodes_def)
  ultimately have "run_usage_analysis False ''org'' (rev two_nodes) [(''nginx'', ''1.0''), (''apt'', ''3.0'')] Map.empty =
    (let used = (\<Union>n \<in> set two_nodes. set (nd_cookbooks n));
         header = \<lparr>uh_org = ''org'', uh_total = card (set [(''nginx'', ''1.0''), (''apt'', ''3.0'')]),
                   uh_active = card (set [(''nginx'', ''1.0''), (''apt'', ''3.0'')] \<inter> used),
                   uh_unused = card (set [(''nginx'', ''1.0''), (''apt'', ''3.0'')] - used), uh_nodes = length two_nodes\<rparr>
     in (Some header, Map.empty(''org'' \<mapsto> (header, map (detail_spec ''org'' two_nodes)
            (sorted_list_of_set (set [(''nginx'', ''1.0''), (''apt'', ''3.0'')] \<union> used))))))"
    by (rule usage_rows_are_exact)
  moreover have "(\<Union>n \<in> set two_nodes. set (nd_cookbooks n)) = {(''nginx'', ''1.0''), (''ntp'', ''2.0'')}"
    by (auto simp: two_nodes_def)
  moreover have "set [(''nginx'', ''1.0''), (''apt'', ''3.0'')] \<inter> {(''nginx'', ''1.0''), (''ntp'', ''2.0'')} = {(''nginx'', ''1.0'')}"
    "set [(''nginx'', ''1.0''), (''apt'', ''3.0'')] - {(''nginx'', ''1.0''), (''ntp'', ''2.0'')} = {(''apt'', ''3.0'')}"
    by auto
  ultimately show ?thesis by (simp add: Let_def)
qed

end
