(* ===== verification/Secrets.thy ===== *)
theory Secrets
  imports Go_Fmt Go_Json
begin

text \<open>
  The encryption of stored secrets and the checks on them (\<open>internal/secrets/encryption.go\<close>,
  \<open>validation.go\<close>). AES-256-GCM, HKDF, base64 and the parsing of RSA keys are parameters: the record
  \<open>aead\<close> is what \<open>Seal\<close> and \<open>Open\<close> of \<open>crypto/cipher\<close> do under a key and a nonce, and \<open>aead_ok\<close> is
  what their documentation promises, that \<open>Open\<close> gives back what was sealed and fails when the key,
  the nonce or the additional data differ. A nonce drawn from \<open>rand.Reader\<close> is an argument, \<open>None\<close>
  when drawing it fails.
\<close>

section \<open>Authenticated encryption\<close>

record ('p, 'c) aead =
  seal :: "string \<Rightarrow> string \<Rightarrow> 'p \<Rightarrow> string \<Rightarrow> 'c"
  open_sealed :: "string \<Rightarrow> string \<Rightarrow> 'c \<Rightarrow> string \<Rightarrow> 'p option"

text \<open>The key lengths \<open>aes.NewCipher\<close> accepts, and the nonce length \<open>Open\<close> insists on.\<close>

definition aes_key :: "string \<Rightarrow> bool" where
  "aes_key k = (length k = 16 \<or> length k = 24 \<or> length k = 32)"

definition nonce_size :: nat where "nonce_size = 12"

definition aead_ok :: "('p, 'c) aead \<Rightarrow> bool" where
  "aead_ok a =
     ((\<forall>k n p d. aes_key k \<longrightarrow> length n = nonce_size \<longrightarrow> open_sealed a k n (seal a k n p d) d = Some p)
      \<and> (\<forall>k n p d k' n' d'. aes_key k \<longrightarrow> length n = nonce_size \<longrightarrow> aes_key k' \<longrightarrow> length n' = nonce_size
           \<longrightarrow> (k', n', d') \<noteq> (k, n, d) \<longrightarrow> open_sealed a k' n' (seal a k n p d) d' = None))"

lemma open_same:
  "aead_ok a \<Longrightarrow> aes_key k \<Longrightarrow> length n = nonce_size \<Longrightarrow> open_sealed a k n (seal a k n p d) d = Some p"
  by (simp add: aead_ok_def)

lemma open_other:
  "aead_ok a \<Longrightarrow> aes_key k \<Longrightarrow> length n = nonce_size \<Longrightarrow> aes_key k' \<Longrightarrow> length n' = nonce_size
   \<Longrightarrow> (k', n', d') \<noteq> (k, n, d) \<Longrightarrow> open_sealed a k' n' (seal a k n p d) d' = None"
  by (simp add: aead_ok_def)

section \<open>Hexadecimal\<close>

definition hex_encode :: "string \<Rightarrow> string" where
  "hex_encode s = concat (map (\<lambda>c. [hex_digit (of_char c div 16), hex_digit (of_char c mod 16)]) s)"

definition from_hex :: "char \<Rightarrow> nat option" where
  "from_hex c =
     (let n = of_char c :: nat
      in if 48 \<le> n \<and> n \<le> 57 then Some (n - 48)
         else if 97 \<le> n \<and> n \<le> 102 then Some (n - 87)
         else if 65 \<le> n \<and> n \<le> 70 then Some (n - 55) else None)"

fun hex_decode :: "string \<Rightarrow> string option" where
  "hex_decode [] = Some []"
| "hex_decode [c] = None"
| "hex_decode (c # d # s) =
     (case (from_hex c, from_hex d) of
        (Some h, Some l) \<Rightarrow> map_option ((#) (char_of (16 * h + l))) (hex_decode s)
      | _ \<Rightarrow> None)"

lemma of_hex_digit: "n < 16 \<Longrightarrow> (of_char (hex_digit n) :: nat) = (if n < 10 then 48 + n else 87 + n)"
  by (simp add: hex_digit_def)

lemma from_hex_digit [simp]: "n < 16 \<Longrightarrow> from_hex (hex_digit n) = Some n"
  by (simp add: from_hex_def of_hex_digit Let_def)

lemma hex_digit_not_colon: "n < 16 \<Longrightarrow> hex_digit n \<noteq> CHR '':''"
proof
  assume "n < 16" "hex_digit n = CHR '':''"
  then have "(of_char (hex_digit n) :: nat) = 58" by simp
  then show False using \<open>n < 16\<close> by (simp add: of_hex_digit split: if_splits)
qed

lemma char_halves: "(of_char c :: nat) div 16 < 16" "(of_char c :: nat) mod 16 < 16"
proof -
  have "(of_char c :: nat) = of_char (char_of (of_char c :: nat) :: char)" by simp
  also have "\<dots> < 256" unfolding of_char_of by simp
  finally show "(of_char c :: nat) div 16 < 16" "(of_char c :: nat) mod 16 < 16"
    by (simp_all add: div_less_iff_less_mult)
qed

lemma hex_decode_encode: "hex_decode (hex_encode s) = Some s"
  by (induction s) (simp_all add: hex_encode_def char_halves)

lemma colon_not_in_hex: "CHR '':'' \<notin> set (hex_encode s)"
proof -
  have "CHR '':'' \<noteq> hex_digit (of_char c div 16)" "CHR '':'' \<noteq> hex_digit (of_char c mod 16)" for c
    using hex_digit_not_colon char_halves by metis+
  then show ?thesis by (auto simp: hex_encode_def)
qed

section \<open>The encryptor\<close>

datatype secret_error =
  Master_key_required | Master_key_too_short | Master_key_invalid | Invalid_ciphertext | Open_failed
| Cipher_failed | Nonce_failed

text \<open>\<open>std\<close> and \<open>raw\<close> are the two base64 decodings tried in turn, \<open>derive\<close> is HKDF with the fixed context.\<close>

definition master_key_min_bytes :: nat where "master_key_min_bytes = 32"

definition decode_master_key ::
  "(string \<Rightarrow> string option) \<Rightarrow> (string \<Rightarrow> string option) \<Rightarrow> string \<Rightarrow> secret_error + string" where
  "decode_master_key std raw s =
     (if s = [] then Inl Master_key_required
      else case (case std s of Some k \<Rightarrow> Some k | None \<Rightarrow> raw s) of
             None \<Rightarrow> Inl Master_key_invalid
           | Some k \<Rightarrow> if length k < master_key_min_bytes then Inl Master_key_too_short else Inr k)"

definition new_encryptor ::
  "(string \<Rightarrow> string option) \<Rightarrow> (string \<Rightarrow> string option) \<Rightarrow> (string \<Rightarrow> string) \<Rightarrow> string \<Rightarrow> secret_error + string" where
  "new_encryptor std raw derive s =
     (if s = [] then Inl Master_key_required
      else case (case std s of Some k \<Rightarrow> Some k | None \<Rightarrow> raw s) of
             None \<Rightarrow> Inl Master_key_invalid
           | Some k \<Rightarrow> if length k < master_key_min_bytes then Inl Master_key_too_short else Inr (derive k))"

lemma new_encryptor_eq:
  "new_encryptor std raw derive s =
     (case decode_master_key std raw s of Inl e \<Rightarrow> Inl e | Inr k \<Rightarrow> Inr (derive k))"
  by (simp add: new_encryptor_def decode_master_key_def split: option.split)

definition build_aad :: "string \<Rightarrow> string \<Rightarrow> string option" where
  "build_aad ty name = (if ty = [] \<or> name = [] then None else Some (ty @ '':'' @ name))"

text \<open>The at-rest format: the nonce and the ciphertext in hexadecimal, a colon between them. \<open>dk\<close> is the derived key.\<close>

definition at_rest_separator :: string where "at_rest_separator = '':''"

definition encryptor_encrypt ::
  "(string, string) aead \<Rightarrow> string option \<Rightarrow> string option \<Rightarrow> string \<Rightarrow> string \<Rightarrow> secret_error + string" where
  "encryptor_encrypt a dk random plaintext aad =
     (case dk of
        None \<Rightarrow> Inl Master_key_required
      | Some k \<Rightarrow>
          if \<not> aes_key k then Inl Cipher_failed
          else case random of
                 None \<Rightarrow> Inl Nonce_failed
               | Some n \<Rightarrow> Inr (hex_encode n @ at_rest_separator @ hex_encode (seal a k n plaintext aad)))"

text \<open>\<open>strings.SplitN(encoded, sep, 2)\<close>: the two parts, or one when there is no separator.\<close>

definition split_at :: "string \<Rightarrow> string \<Rightarrow> (string \<times> string) option" where
  "split_at sep s =
     (case index_of sep s of None \<Rightarrow> None | Some i \<Rightarrow> Some (take i s, drop (i + length sep) s))"

definition encryptor_decrypt ::
  "(string, string) aead \<Rightarrow> string option \<Rightarrow> string \<Rightarrow> string \<Rightarrow> secret_error + string" where
  "encryptor_decrypt a dk encoded aad =
     (case dk of
        None \<Rightarrow> Inl Master_key_required
      | Some k \<Rightarrow>
          (case split_at at_rest_separator encoded of
             None \<Rightarrow> Inl Invalid_ciphertext
           | Some (nonce_hex, cipher_hex) \<Rightarrow>
               (case hex_decode nonce_hex of
                  None \<Rightarrow> Inl Invalid_ciphertext
                | Some n \<Rightarrow>
                    if length n \<noteq> nonce_size then Inl Invalid_ciphertext
                    else case hex_decode cipher_hex of
                           None \<Rightarrow> Inl Invalid_ciphertext
                         | Some c \<Rightarrow>
                             if \<not> aes_key k then Inl Cipher_failed
                             else case open_sealed a k n c aad of None \<Rightarrow> Inl Open_failed | Some p \<Rightarrow> Inr p)))"

lemma index_of_colon: "CHR '':'' \<notin> set s \<Longrightarrow> index_of '':'' (s @ '':'' @ t) = Some (length s)"
  by (induction s) auto

lemma split_at_rest: "split_at at_rest_separator (hex_encode n @ at_rest_separator @ t) = Some (hex_encode n, t)"
  using index_of_colon [OF colon_not_in_hex, of n t] by (simp add: split_at_def at_rest_separator_def)

section \<open>What a credential may be\<close>

definition type_chef_client_key :: string where "type_chef_client_key = ''chef_client_key''"
definition type_generic :: string where "type_generic = ''generic''"

definition is_valid_credential_type :: "string \<Rightarrow> bool" where
  "is_valid_credential_type t = (t = type_chef_client_key \<or> t = type_generic)"

datatype validation_error = Invalid_credential_type | Empty_value | Invalid_pem_key

text \<open>
  The metadata of a valid value, or why it is none. \<open>rsa_key\<close> is what decoding the PEM block and parsing and
  checking the key gives: its format and size. A map is written with its keys in order, as \<open>json.Marshal\<close> does.
\<close>

type_synonym cred_fields = "(string \<times> json) list"

definition validate_chef_client_key :: "(string \<Rightarrow> (string \<times> int) option) \<Rightarrow> string \<Rightarrow> validation_error + cred_fields" where
  "validate_chef_client_key rsa_key v =
     (case rsa_key v of
        None \<Rightarrow> Inl Invalid_pem_key
      | Some (fmt, bits) \<Rightarrow> Inr [(''bits'', JNum (of_int bits)), (''key_format'', JStr fmt)])"

definition validate_credential_value ::
  "(string \<Rightarrow> (string \<times> int) option) \<Rightarrow> string \<Rightarrow> string \<Rightarrow> validation_error + cred_fields" where
  "validate_credential_value rsa_key t v =
     (if \<not> is_valid_credential_type t then Inl Invalid_credential_type
      else if v = [] then Inl Empty_value
      else if t = type_chef_client_key then validate_chef_client_key rsa_key v
      else Inr [])"

lemma validated_distinct: "validate_credential_value rsa_key t v = Inr m \<Longrightarrow> distinct (map fst m)"
  by (auto simp: validate_credential_value_def validate_chef_client_key_def split: if_splits option.splits prod.splits)

lemma validated_nonempty: "validate_credential_value rsa_key t v = Inr m \<Longrightarrow> v \<noteq> [] \<and> is_valid_credential_type t"
  by (auto simp: validate_credential_value_def split: if_splits)

lemma build_aad_binds:
  assumes "is_valid_credential_type t" "is_valid_credential_type t'"
    and "build_aad t name = Some d" "build_aad t' name' = Some d"
  shows "t = t' \<and> name = name'"
  using assms
  by (auto simp: build_aad_def is_valid_credential_type_def type_chef_client_key_def type_generic_def split: if_splits)

section \<open>What is encrypted is read back, and only for its own credential\<close>

text \<open>What is encrypted for one credential is decrypted to the same plaintext with the additional data
  of that credential, and fails with the additional data of every other type or name and under every other
  key.\<close>

theorem sealed_for_one_credential:
  assumes lib: "aead_ok a" and key: "aes_key k" and nonce: "length n = nonce_size"
    and types: "is_valid_credential_type t" "is_valid_credential_type t'"
    and aads: "build_aad t name = Some d" "build_aad t' name' = Some d'"
    and enc: "encryptor_encrypt a (Some k) (Some n) p d = Inr s"
  shows "encryptor_decrypt a (Some k) s d' = (if t' = t \<and> name' = name then Inr p else Inl Open_failed)
         \<and> (aes_key k' \<and> k' \<noteq> k \<longrightarrow> encryptor_decrypt a (Some k') s d' = Inl Open_failed)"
proof -
  have s: "s = hex_encode n @ at_rest_separator @ hex_encode (seal a k n p d)"
    using enc key by (simp add: encryptor_encrypt_def)
  have dec: "encryptor_decrypt a (Some j) s x =
      (case open_sealed a j n (seal a k n p d) x of None \<Rightarrow> Inl Open_failed | Some q \<Rightarrow> Inr q)" if "aes_key j" for j x
    using that nonce by (simp add: encryptor_decrypt_def s split_at_rest hex_decode_encode)
  have same: "d' = d \<longleftrightarrow> t' = t \<and> name' = name"
    using build_aad_binds [OF types(2,1)] aads by auto
  have "encryptor_decrypt a (Some k) s d' = (if d' = d then Inr p else Inl Open_failed)"
    using dec [OF key, of d'] open_same [OF lib key nonce, of p d] open_other [OF lib key nonce key nonce, of d' d p]
    by simp
  moreover have "encryptor_decrypt a (Some k') s d' = Inl Open_failed" if "aes_key k'" "k' \<noteq> k"
    using dec [OF that(1), of d'] open_other [OF lib key nonce that(1) nonce, of d' d p] that(2) by simp
  ultimately show ?thesis by (simp add: same)
qed

text \<open>An instance of the documented behaviour that no cipher has but every one stands for: the sealed text
  spells out its key, nonce and additional data.\<close>

definition spelled :: "string \<Rightarrow> string" where
  "spelled s = concat (map (\<lambda>c. [CHR ''x'', c]) s) @ [CHR ''.'']"

definition spelled_all :: "string \<Rightarrow> string \<Rightarrow> string \<Rightarrow> string" where
  "spelled_all k n d = spelled k @ spelled n @ spelled d"

definition plain_aead :: "(string, string) aead" where
  "plain_aead = \<lparr>seal = (\<lambda>k n p d. spelled_all k n d @ p),
     open_sealed = (\<lambda>k n c d. if take (length (spelled_all k n d)) c = spelled_all k n d
                               then Some (drop (length (spelled_all k n d)) c) else None)\<rparr>"

lemma spelled_prefix_free: "spelled s @ u = spelled t @ v \<longleftrightarrow> s = t \<and> u = v"
proof (induction s arbitrary: t)
  case Nil
  then show ?case by (cases t) (auto simp: spelled_def)
next
  case (Cons c s)
  then show ?case by (cases t) (auto simp: spelled_def)
qed

lemma spelled_all_binds:
  assumes "take (length (spelled_all k' n' d')) (spelled_all k n d @ p) = spelled_all k' n' d'"
  shows "(k', n', d') = (k, n, d)"
proof -
  have "spelled_all k' n' d' @ drop (length (spelled_all k' n' d')) (spelled_all k n d @ p) = spelled_all k n d @ p"
    using assms by (metis append_take_drop_id)
  then show ?thesis by (simp add: spelled_all_def spelled_prefix_free)
qed

lemma plain_aead_ok: "aead_ok plain_aead"
  unfolding aead_ok_def
proof (intro conjI allI impI)
  show "open_sealed plain_aead k n (seal plain_aead k n p d) d = Some p" for k n p d
    by (simp add: plain_aead_def)
  show "open_sealed plain_aead k' n' (seal plain_aead k n p d) d' = None" if "(k', n', d') \<noteq> (k, n, d)" for k n p d k' n' d'
    using spelled_all_binds [of k' n' d' k n d p] that by (simp only: plain_aead_def aead.simps) metis
qed

text \<open>A witness: the client key of one server, asked for under another name.\<close>

theorem sealed_for_one_credential_witness:
  "encryptor_decrypt plain_aead (Some (replicate 32 CHR ''k''))
     (hex_encode (replicate 12 CHR ''n'') @ '':'' @
      hex_encode (spelled_all (replicate 32 CHR ''k'') (replicate 12 CHR ''n'') ''generic:prod'' @ ''secret''))
     ''generic:test'' = Inl Open_failed"
proof -
  let ?k = "replicate 32 CHR ''k''" and ?n = "replicate 12 CHR ''n''"
  have enc: "encryptor_encrypt plain_aead (Some ?k) (Some ?n) ''secret'' ''generic:prod''
        = Inr (hex_encode ?n @ '':'' @ hex_encode (spelled_all ?k ?n ''generic:prod'' @ ''secret''))"
    by (simp add: encryptor_encrypt_def aes_key_def plain_aead_def at_rest_separator_def)
  have ty: "is_valid_credential_type type_generic" by (simp add: is_valid_credential_type_def)
  have aads: "build_aad type_generic ''prod'' = Some ''generic:prod''" "build_aad type_generic ''test'' = Some ''generic:test''"
    by (simp_all add: build_aad_def type_generic_def)
  have key: "aes_key ?k" and nonce: "length ?n = nonce_size" by (simp_all add: aes_key_def nonce_size_def)
  have other: "(type_generic = type_generic \<and> ''test'' = ''prod'') = False" by simp
  show ?thesis
    by (rule sealed_for_one_credential [OF plain_aead_ok key nonce ty ty aads enc, THEN conjunct1, unfolded other if_False])
qed

end
