(* ===== verification/Config_Store.thy ===== *)
theory Config_Store
  imports Secrets Go_Time
begin

text \<open>
  The encrypted configuration store (\<open>internal/configstore/configstore.go\<close>, \<open>testkitchen_split.go\<close>,
  \<open>migrate.go\<close>) over the table of \<open>migrations/0011\<close> (\<open>datastore/config_store.go\<close>). A stored value is the
  JSON document its bytes spell. Every call to the database has a flag that says whether it succeeds; a
  refused one changes nothing. The store's key is \<open>None\<close> when it was built without an encryptor.
\<close>

section \<open>The table\<close>

record 'c config_entry =
  ce_key :: string
  ce_value :: 'c
  ce_nonce :: string
  ce_secret :: bool
  ce_updated_at :: int
  ce_updated_by :: string

type_synonym 'c config_table = "'c config_entry list"

definition get_config_entry :: "string \<Rightarrow> 'c config_table \<Rightarrow> 'c config_entry option" where
  "get_config_entry key rows = row_of ce_key key rows"

text \<open>\<open>INSERT ... ON CONFLICT (key) DO UPDATE\<close>; the time is the database's.\<close>

definition set_config_entry :: "int \<Rightarrow> 'c config_entry \<Rightarrow> 'c config_table \<Rightarrow> 'c config_table" where
  "set_config_entry now e rows =
     (case get_config_entry (ce_key e) rows of
        None \<Rightarrow> rows @ [e\<lparr>ce_updated_at := now\<rparr>]
      | Some _ \<Rightarrow>
          update_where (\<lambda>r. ce_key r = ce_key e)
            (\<lambda>r. r\<lparr>ce_value := ce_value e, ce_nonce := ce_nonce e, ce_secret := ce_secret e,
                   ce_updated_at := now, ce_updated_by := ce_updated_by e\<rparr>) rows)"

definition delete_config_entry :: "string \<Rightarrow> 'c config_table \<Rightarrow> 'c config_table" where
  "delete_config_entry key rows = delete_where (\<lambda>r. ce_key r = key) rows"

text \<open>\<open>ORDER BY key\<close>: \<open>collation\<close> maps a text to what the database compares.\<close>

definition list_config_entries :: "(string \<Rightarrow> 'o::linorder) \<Rightarrow> 'c config_table \<Rightarrow> 'c config_entry list" where
  "list_config_entries collation rows = sort_key (\<lambda>r. collation (ce_key r)) rows"

text \<open>\<open>LIKE\<close>: an underscore stands for any character, a percent sign for any text, a backslash escapes.\<close>

fun sql_like :: "string \<Rightarrow> string \<Rightarrow> bool" where
  "sql_like [] s = (s = [])"
| "sql_like (p # ps) [] = (p = CHR ''%'' \<and> sql_like ps [])"
| "sql_like (p # ps) (c # s) =
     (if p = CHR ''%'' then sql_like ps (c # s) \<or> sql_like (p # ps) s
      else if p = CHR ''_'' then sql_like ps s
      else if p = CHR 0x5C then (case ps of [] \<Rightarrow> False | q # qs \<Rightarrow> q = c \<and> sql_like qs s)
      else p = c \<and> sql_like ps s)"

definition list_config_entries_by_prefix ::
  "(string \<Rightarrow> 'o::linorder) \<Rightarrow> string \<Rightarrow> 'c config_table \<Rightarrow> 'c config_entry list" where
  "list_config_entries_by_prefix collation pfx rows =
     sort_key (\<lambda>r. collation (ce_key r)) (filter (\<lambda>r. sql_like (pfx @ ''%'') (ce_key r)) rows)"

definition count_config_entries :: "'c config_table \<Rightarrow> nat" where "count_config_entries rows = length rows"
definition config_store_is_empty :: "'c config_table \<Rightarrow> bool" where "config_store_is_empty rows = (rows = [])"

section \<open>The store\<close>

text \<open>
  \<open>Nonce_panic\<close> is the panic of \<open>Open\<close> on a nonce that is not 12 bytes long; the others are errors returned.
\<close>

datatype store_error =
  Db_failed | Entry_not_found | Entry_not_secret | Store_key_required | Store_cipher_failed | Store_nonce_failed
| Store_decryption_failed | Nonce_panic

definition store_encrypt ::
  "('p, 'c) aead \<Rightarrow> string option \<Rightarrow> string option \<Rightarrow> 'p \<Rightarrow> string \<Rightarrow> store_error + 'c \<times> string" where
  "store_encrypt a dk random plaintext key =
     (case dk of
        None \<Rightarrow> Inl Store_key_required
      | Some k \<Rightarrow>
          if \<not> aes_key k then Inl Store_cipher_failed
          else case random of
                 None \<Rightarrow> Inl Store_nonce_failed
               | Some n \<Rightarrow> Inr (seal a k n plaintext key, n))"

definition store_decrypt ::
  "('p, 'c) aead \<Rightarrow> string option \<Rightarrow> 'c \<Rightarrow> string \<Rightarrow> string \<Rightarrow> store_error + 'p" where
  "store_decrypt a dk ciphertext nonce key =
     (case dk of
        None \<Rightarrow> Inl Store_key_required
      | Some k \<Rightarrow>
          if \<not> aes_key k then Inl Store_cipher_failed
          else if length nonce \<noteq> nonce_size then Inl Nonce_panic
          else case open_sealed a k nonce ciphertext key of
                 None \<Rightarrow> Inl Store_decryption_failed
               | Some p \<Rightarrow> Inr p)"

definition store_get ::
  "('p, 'c) aead \<Rightarrow> string option \<Rightarrow> bool \<Rightarrow> string \<Rightarrow> 'c config_table \<Rightarrow> store_error + 'p" where
  "store_get a dk up key rows =
     (if \<not> up then Inl Db_failed
      else case get_config_entry key rows of
             None \<Rightarrow> Inl Entry_not_found
           | Some e \<Rightarrow> store_decrypt a dk (ce_value e) (ce_nonce e) key)"

definition store_get_secret ::
  "('p, 'c) aead \<Rightarrow> string option \<Rightarrow> bool \<Rightarrow> string \<Rightarrow> 'c config_table \<Rightarrow> store_error + 'p" where
  "store_get_secret a dk up key rows =
     (if \<not> up then Inl Db_failed
      else case get_config_entry key rows of
             None \<Rightarrow> Inl Entry_not_found
           | Some e \<Rightarrow> if \<not> ce_secret e then Inl Entry_not_secret
                       else store_decrypt a dk (ce_value e) (ce_nonce e) key)"

text \<open>The caller of \<open>Set\<close>: the value, whether it is secret, and who sets it.\<close>

definition store_set ::
  "('p, 'c) aead \<Rightarrow> string option \<Rightarrow> bool \<Rightarrow> string option \<Rightarrow> int \<Rightarrow> string \<Rightarrow> 'p \<Rightarrow> bool \<Rightarrow> string
   \<Rightarrow> 'c config_table \<Rightarrow> (store_error + unit) \<times> 'c config_table" where
  "store_set a dk up random now key value secret by rows =
     (case store_encrypt a dk random value key of
        Inl e \<Rightarrow> (Inl e, rows)
      | Inr (c, n) \<Rightarrow>
          if \<not> up then (Inl Db_failed, rows)
          else (Inr (), set_config_entry now
                  \<lparr>ce_key = key, ce_value = c, ce_nonce = n, ce_secret = secret, ce_updated_at = now, ce_updated_by = by\<rparr>
                  rows))"

definition store_delete :: "bool \<Rightarrow> string \<Rightarrow> 'c config_table \<Rightarrow> (store_error + unit) \<times> 'c config_table" where
  "store_delete up key rows = (if up then (Inr (), delete_config_entry key rows) else (Inl Db_failed, rows))"

record entry_metadata =
  em_key :: string
  em_secret :: bool
  em_updated_at :: int
  em_updated_by :: string

definition to_metadata :: "'c config_entry list \<Rightarrow> entry_metadata list" where
  "to_metadata es =
     map (\<lambda>e. \<lparr>em_key = ce_key e, em_secret = ce_secret e, em_updated_at = ce_updated_at e, em_updated_by = ce_updated_by e\<rparr>) es"

definition store_list :: "(string \<Rightarrow> 'o::linorder) \<Rightarrow> bool \<Rightarrow> 'c config_table \<Rightarrow> store_error + entry_metadata list" where
  "store_list collation up rows = (if up then Inr (to_metadata (list_config_entries collation rows)) else Inl Db_failed)"

definition store_list_by_prefix ::
  "(string \<Rightarrow> 'o::linorder) \<Rightarrow> bool \<Rightarrow> string \<Rightarrow> 'c config_table \<Rightarrow> store_error + entry_metadata list" where
  "store_list_by_prefix collation up pfx rows =
     (if up then Inr (to_metadata (list_config_entries_by_prefix collation pfx rows)) else Inl Db_failed)"

text \<open>\<open>GetAll\<close>: the loop over the rows, and the call.\<close>

fun decrypt_visible ::
  "('p, 'c) aead \<Rightarrow> string option \<Rightarrow> 'c config_entry list \<Rightarrow> (string \<rightharpoonup> 'p) \<Rightarrow> store_error + (string \<rightharpoonup> 'p)" where
  "decrypt_visible a dk [] result = Inr result"
| "decrypt_visible a dk (e # es) result =
     (if ce_secret e then decrypt_visible a dk es result
      else case store_decrypt a dk (ce_value e) (ce_nonce e) (ce_key e) of
             Inl err \<Rightarrow> Inl err
           | Inr p \<Rightarrow> decrypt_visible a dk es (result(ce_key e \<mapsto> p)))"

definition store_get_all ::
  "(string \<Rightarrow> 'o::linorder) \<Rightarrow> ('p, 'c) aead \<Rightarrow> string option \<Rightarrow> bool \<Rightarrow> 'c config_table \<Rightarrow> store_error + (string \<rightharpoonup> 'p)" where
  "store_get_all collation a dk up rows =
     (if \<not> up then Inl Db_failed else decrypt_visible a dk (list_config_entries collation rows) Map.empty)"

definition store_get_entry :: "bool \<Rightarrow> string \<Rightarrow> 'c config_table \<Rightarrow> store_error + 'c config_entry option" where
  "store_get_entry up key rows = (if up then Inr (get_config_entry key rows) else Inl Db_failed)"

definition store_is_empty :: "bool \<Rightarrow> 'c config_table \<Rightarrow> store_error + bool" where
  "store_is_empty up rows = (if up then Inr (config_store_is_empty rows) else Inl Db_failed)"

definition store_count :: "bool \<Rightarrow> 'c config_table \<Rightarrow> store_error + nat" where
  "store_count up rows = (if up then Inr (count_config_entries rows) else Inl Db_failed)"

section \<open>Moving what older versions stored\<close>

definition key_analysis_tools :: string where "key_analysis_tools = ''analysis_tools''"
definition key_test_kitchen :: string where "key_test_kitchen = ''analysis_tools.test_kitchen''"

datatype split_error = Section_unreadable | Split_write_failed store_error

text \<open>\<open>up\<close> and \<open>random\<close> say how the calls go, numbered from 0. Keys of an object are kept as they are.\<close>

definition move_test_kitchen ::
  "(json, 'c) aead \<Rightarrow> string option \<Rightarrow> (nat \<Rightarrow> bool) \<Rightarrow> (nat \<Rightarrow> string option) \<Rightarrow> int
   \<Rightarrow> 'c config_table \<Rightarrow> (split_error + bool) \<times> 'c config_table" where
  "move_test_kitchen a dk up random now rows =
     (case store_get a dk (up 0) key_test_kitchen rows of
        Inr _ \<Rightarrow> (Inr False, rows)
      | Inl _ \<Rightarrow>
          (case store_get a dk (up 1) key_analysis_tools rows of
             Inl _ \<Rightarrow> (Inr False, rows)
           | Inr raw \<Rightarrow>
               (case decode_map Some raw of
                  None \<Rightarrow> (Inl Section_unreadable, rows)
                | Some section \<Rightarrow>
                    (case map_of section ''test_kitchen'' of
                       None \<Rightarrow> (Inr False, rows)
                     | Some JNull \<Rightarrow> (Inr False, rows)
                     | Some nested \<Rightarrow>
                         (case store_set a dk (up 2) (random 2) now key_test_kitchen nested False ''config split'' rows of
                            (Inl e, rows') \<Rightarrow> (Inl (Split_write_failed e), rows')
                          | (Inr _, rows') \<Rightarrow>
                              (case store_set a dk (up 3) (random 3) now key_analysis_tools
                                      (JObj (filter (\<lambda>kv. fst kv \<noteq> ''test_kitchen'') section)) False ''config split'' rows' of
                                 (Inl e, rows'') \<Rightarrow> (Inl (Split_write_failed e), rows'')
                               | (Inr _, rows'') \<Rightarrow> (Inr True, rows'')))))))"

text \<open>
  A row of the old table of runtime settings is its key, value and user; \<open>None\<close> is a query that failed for
  another reason than a missing table, which counts as one without rows. Sets are numbered from 0.
\<close>

fun migrate_rows ::
  "('p, 'c) aead \<Rightarrow> string option \<Rightarrow> (nat \<Rightarrow> bool) \<Rightarrow> (nat \<Rightarrow> string option) \<Rightarrow> int \<Rightarrow> nat \<Rightarrow> (string \<times> 'p \<times> string) list
   \<Rightarrow> 'c config_table \<Rightarrow> (store_error + nat) \<times> 'c config_table" where
  "migrate_rows a dk up random now i [] tbl = (Inr i, tbl)"
| "migrate_rows a dk up random now i ((key, value, by) # rows) tbl =
     (case store_set a dk (up i) (random i) now key value False by tbl of
        (Inl e, tbl') \<Rightarrow> (Inl e, tbl')
      | (Inr _, tbl') \<Rightarrow> migrate_rows a dk up random now (Suc i) rows tbl')"

datatype migrate_outcome = Migration_skipped | Migrated nat | Migration_failed store_error

definition migrate_from_legacy ::
  "('p, 'c) aead \<Rightarrow> string option \<Rightarrow> bool \<Rightarrow> (nat \<Rightarrow> bool) \<Rightarrow> (nat \<Rightarrow> string option) \<Rightarrow> int
   \<Rightarrow> (string \<times> 'p \<times> string) list option \<Rightarrow> 'c config_table \<Rightarrow> migrate_outcome \<times> 'c config_table" where
  "migrate_from_legacy a dk check up random now legacy tbl =
     (case store_is_empty check tbl of
        Inl e \<Rightarrow> (Migration_failed e, tbl)
      | Inr False \<Rightarrow> (Migration_skipped, tbl)
      | Inr True \<Rightarrow>
          (case legacy of
             None \<Rightarrow> (Migration_failed Db_failed, tbl)
           | Some rows \<Rightarrow>
               (case migrate_rows a dk up random now 0 rows tbl of
                  (Inl e, tbl') \<Rightarrow> (Migration_failed e, tbl')
                | (Inr n, tbl') \<Rightarrow> (Migrated n, tbl'))))"

section \<open>The contract of a key-value store\<close>

text \<open>What the users of the store rely on: reading gives what was last written under a key. \<open>how\<close> is what a
  write is given beside the key and the value.\<close>

locale key_value =
  fixes lookup :: "'k \<Rightarrow> 'm \<Rightarrow> 'v option"
    and update :: "'how \<Rightarrow> 'k \<Rightarrow> 'v \<Rightarrow> 'm \<Rightarrow> 'm"
    and remove :: "'k \<Rightarrow> 'm \<Rightarrow> 'm"
    and invar :: "'m \<Rightarrow> bool"
    and good :: "'how \<Rightarrow> bool"
  assumes lookup_update: "invar m \<Longrightarrow> good h \<Longrightarrow> lookup j (update h k v m) = (if j = k then Some v else lookup j m)"
    and lookup_remove: "invar m \<Longrightarrow> lookup j (remove k m) = (if j = k then None else lookup j m)"
    and invar_update: "invar m \<Longrightarrow> good h \<Longrightarrow> invar (update h k v m)"
    and invar_remove: "invar m \<Longrightarrow> invar (remove k m)"
begin

text \<open>A change writes a value or, with \<open>None\<close>, removes the key.\<close>

definition change :: "'how \<times> 'k \<times> 'v option \<Rightarrow> 'm \<Rightarrow> 'm" where
  "change c m = (case c of (h, k, Some v) \<Rightarrow> update h k v m | (h, k, None) \<Rightarrow> remove k m)"

definition changed :: "'how \<times> 'k \<times> 'v option \<Rightarrow> ('k \<rightharpoonup> 'v) \<Rightarrow> 'k \<rightharpoonup> 'v" where
  "changed c f = f(fst (snd c) := snd (snd c))"

lemma change_step:
  "invar m \<Longrightarrow> good (fst c) \<Longrightarrow>
     invar (change c m) \<and> (\<lambda>j. lookup j (change c m)) = changed c (\<lambda>j. lookup j m)"
  by (cases c; cases "snd (snd c)")
     (auto simp: change_def changed_def lookup_update lookup_remove invar_update invar_remove)

lemma changes_refine:
  "invar m \<Longrightarrow> (\<And>c. c \<in> set cs \<Longrightarrow> good (fst c)) \<Longrightarrow>
     invar (fold change cs m)
     \<and> (\<lambda>j. lookup j (fold change cs m)) = fold changed cs (\<lambda>j. lookup j m)"
proof (induction cs arbitrary: m)
  case (Cons c cs)
  then have "invar (change c m)" "(\<lambda>j. lookup j (change c m)) = changed c (\<lambda>j. lookup j m)"
    using change_step by (metis list.set_intros(1))+
  then show ?case using Cons.IH [of "change c m"] Cons.prems(2) by simp
qed simp

end

section \<open>The table as a key-value store\<close>

text \<open>What a table holds under a key for a store with the encryption key \<open>k\<close>: value, secrecy, time and user.\<close>

type_synonym 'p stored = "'p \<times> bool \<times> int \<times> string"

definition entry_contents :: "('p, 'c) aead \<Rightarrow> string \<Rightarrow> 'c config_entry \<Rightarrow> 'p stored option" where
  "entry_contents a k e =
     map_option (\<lambda>p. (p, ce_secret e, ce_updated_at e, ce_updated_by e)) (open_sealed a k (ce_nonce e) (ce_value e) (ce_key e))"

definition contents :: "('p, 'c) aead \<Rightarrow> string \<Rightarrow> string \<Rightarrow> 'c config_table \<Rightarrow> 'p stored option" where
  "contents a k key rows = Option.bind (get_config_entry key rows) (entry_contents a k)"

definition put_entry :: "('p, 'c) aead \<Rightarrow> string \<Rightarrow> string \<Rightarrow> string \<Rightarrow> 'p stored \<Rightarrow> 'c config_table \<Rightarrow> 'c config_table" where
  "put_entry a k n key v rows =
     (case v of (p, secret, now, by) \<Rightarrow> snd (store_set a (Some k) True (Some n) now key p secret by rows))"

definition sealed_entry :: "('p, 'c) aead \<Rightarrow> string \<Rightarrow> 'c config_entry \<Rightarrow> bool" where
  "sealed_entry a k e =
     (length (ce_nonce e) = nonce_size \<and> (\<exists>p. ce_value e = seal a k (ce_nonce e) p (ce_key e)))"

definition sealed_table :: "('p, 'c) aead \<Rightarrow> string \<Rightarrow> 'c config_table \<Rightarrow> bool" where
  "sealed_table a k rows =
     (aead_ok a \<and> aes_key k \<and> distinct (map ce_key rows) \<and> (\<forall>e\<in>set rows. sealed_entry a k e))"

definition nonce_fits :: "string \<Rightarrow> bool" where "nonce_fits n = (length n = nonce_size)"

lemma get_config_entry_delete:
  "get_config_entry j (delete_config_entry key rows) = (if j = key then None else get_config_entry j rows)"
  unfolding get_config_entry_def delete_config_entry_def delete_where_def row_of_def
  by (induction rows) auto

lemma get_config_entry_set:
  "get_config_entry j (set_config_entry now e rows)
   = (if j = ce_key e then Some (e\<lparr>ce_updated_at := now\<rparr>) else get_config_entry j rows)"
proof (cases "get_config_entry (ce_key e) rows")
  case None
  then show ?thesis
    by (auto simp: set_config_entry_def get_config_entry_def row_of_append split: option.split)
next
  case (Some r)
  then have key: "ce_key r = ce_key e" using row_of_Some by (fastforce simp: get_config_entry_def)
  have eq: "r\<lparr>ce_value := ce_value e, ce_nonce := ce_nonce e, ce_secret := ce_secret e,
             ce_updated_at := now, ce_updated_by := ce_updated_by e\<rparr> = e\<lparr>ce_updated_at := now\<rparr>"
    using key by (simp add: config_entry.equality)
  show ?thesis using Some key eq
    by (cases "row_of ce_key j rows")
       (auto simp: set_config_entry_def get_config_entry_def row_of_update_where dest: row_of_Some)
qed

lemma keys_set_config_entry:
  "map ce_key (set_config_entry now e rows)
   = (if ce_key e \<in> ce_key ` set rows then map ce_key rows else map ce_key rows @ [ce_key e])"
  by (auto simp: set_config_entry_def get_config_entry_def row_of_None [symmetric] map_update_where split: option.split
      dest: row_of_Some)

lemma set_set_config_entry:
  "set (set_config_entry now e rows) \<subseteq> insert (e\<lparr>ce_updated_at := now\<rparr>) (set rows)"
  by (auto simp: set_config_entry_def get_config_entry_def set_update_where config_entry.equality split: option.split
      intro!: config_entry.equality)

lemma sealed_opens:
  assumes "sealed_table a k rows" "e \<in> set rows"
  obtains p where "ce_value e = seal a k (ce_nonce e) p (ce_key e)" "length (ce_nonce e) = nonce_size"
    "open_sealed a k (ce_nonce e) (ce_value e) (ce_key e) = Some p"
  using assms open_same unfolding sealed_table_def sealed_entry_def by metis

interpretation config_kv: key_value "contents a k" "put_entry a k" delete_config_entry "sealed_table a k" nonce_fits
  for a :: "('p, 'c) aead" and k
proof unfold_locales
  show "contents a k j (put_entry a k n key v rows) = (if j = key then Some v else contents a k j rows)"
    if "sealed_table a k rows" "nonce_fits n" for rows n j key v
    using that
    by (cases v) (auto simp: contents_def put_entry_def store_set_def store_encrypt_def entry_contents_def
        get_config_entry_set sealed_table_def nonce_fits_def open_same)
  show "contents a k j (delete_config_entry key rows) = (if j = key then None else contents a k j rows)" for rows j key
    by (simp add: contents_def get_config_entry_delete)
  show "sealed_table a k (put_entry a k n key v rows)" if "sealed_table a k rows" "nonce_fits n" for rows n key v
  proof -
    obtain p s now who where v: "v = (p, s, now, who)" by (cases v) auto
    let ?e = "\<lparr>ce_key = key, ce_value = seal a k n p key, ce_nonce = n, ce_secret = s, ce_updated_at = now, ce_updated_by = who\<rparr>"
    have put: "put_entry a k n key v rows = set_config_entry now ?e rows"
      using that(1) by (simp add: v put_entry_def store_set_def store_encrypt_def sealed_table_def)
    have "sealed_entry a k ?e" using that(2) by (auto simp: sealed_entry_def nonce_fits_def)
    then have "\<forall>e\<in>set (set_config_entry now ?e rows). sealed_entry a k e"
      using that(1) set_set_config_entry [of now ?e rows] by (fastforce simp: sealed_table_def)
    moreover have "distinct (map ce_key (set_config_entry now ?e rows))"
      using that(1) by (auto simp: keys_set_config_entry sealed_table_def)
    ultimately show ?thesis using that(1) by (simp add: put sealed_table_def)
  qed
  show "sealed_table a k (delete_config_entry key rows)" if "sealed_table a k rows" for rows key
    using that by (auto simp: sealed_table_def delete_config_entry_def distinct_delete_where)
qed

section \<open>Runs of the store\<close>

datatype 'p store_op = Set_value string 'p bool string | Delete_value string

text \<open>How a call goes: the database, the random bytes drawn for the nonce, the time.\<close>

record store_call =
  sc_up :: bool
  sc_random :: "string option"
  sc_now :: int

definition store_step ::
  "('p, 'c) aead \<Rightarrow> string option \<Rightarrow> store_call \<times> 'p store_op \<Rightarrow> 'c config_table \<Rightarrow> 'c config_table" where
  "store_step a dk step rows =
     (case step of
        (call, Set_value key p secret by) \<Rightarrow>
          snd (store_set a dk (sc_up call) (sc_random call) (sc_now call) key p secret by rows)
      | (call, Delete_value key) \<Rightarrow> snd (store_delete (sc_up call) key rows))"

text \<open>The same run on a map.\<close>

definition stored_step :: "store_call \<times> 'p store_op \<Rightarrow> (string \<rightharpoonup> 'p stored) \<Rightarrow> string \<rightharpoonup> 'p stored" where
  "stored_step step m =
     (case step of
        (call, Set_value key p secret by) \<Rightarrow>
          if sc_up call \<and> sc_random call \<noteq> None then m(key \<mapsto> (p, secret, sc_now call, by)) else m
      | (call, Delete_value key) \<Rightarrow> if sc_up call then m(key := None) else m)"

text \<open>\<open>io.ReadFull\<close> fills the nonce or fails.\<close>

definition random_fits :: "string option \<Rightarrow> bool" where
  "random_fits r = (case r of None \<Rightarrow> True | Some n \<Rightarrow> nonce_fits n)"

definition effects :: "store_call \<times> 'p store_op \<Rightarrow> (string \<times> string \<times> 'p stored option) list" where
  "effects step =
     (case step of
        (call, Set_value key p secret by) \<Rightarrow>
          (if sc_up call then (case sc_random call of None \<Rightarrow> [] | Some n \<Rightarrow> [(n, key, Some (p, secret, sc_now call, by))])
           else [])
      | (call, Delete_value key) \<Rightarrow> if sc_up call then [(replicate nonce_size CHR ''x'', key, None)] else [])"

lemma store_step_effects:
  assumes "sealed_table a k rows"
  shows "store_step a (Some k) step rows = fold (config_kv.change a k) (effects step) rows"
  using assms
  by (auto simp: store_step_def effects_def config_kv.change_def put_entry_def store_set_def store_encrypt_def
        store_delete_def sealed_table_def split: prod.split store_op.split option.split)

lemma stored_step_effects: "stored_step step m = fold config_kv.changed (effects step) m"
  by (auto simp: stored_step_def effects_def config_kv.changed_def split: prod.split store_op.split option.split)

lemma effects_fit: "random_fits (sc_random (fst step)) \<Longrightarrow> c \<in> set (effects step) \<Longrightarrow> nonce_fits (fst c)"
proof -
  assume fits: "random_fits (sc_random (fst step))" and c: "c \<in> set (effects step)"
  obtain call oper where step: "step = (call, oper)" by (cases step)
  show ?thesis
  proof (cases oper)
    case (Set_value key p secret who)
    then show ?thesis using fits c
      by (cases "sc_up call"; cases "sc_random call") (simp_all add: step effects_def random_fits_def)
  next
    case (Delete_value key)
    then show ?thesis using c by (cases "sc_up call") (simp_all add: step effects_def nonce_fits_def)
  qed
qed

lemma store_step_refines:
  assumes "sealed_table a k rows" "random_fits (sc_random (fst step))"
  shows "sealed_table a k (store_step a (Some k) step rows)
         \<and> (\<lambda>j. contents a k j (store_step a (Some k) step rows)) = stored_step step (\<lambda>j. contents a k j rows)"
  using config_kv.changes_refine [OF assms(1), of "effects step"] effects_fit [OF assms(2)]
  by (simp add: store_step_effects [OF assms(1)] stored_step_effects)

lemma store_run_refines:
  assumes "sealed_table a k rows" "\<forall>step\<in>set ops. random_fits (sc_random (fst step))"
  shows "sealed_table a k (fold (store_step a (Some k)) ops rows)
         \<and> (\<lambda>j. contents a k j (fold (store_step a (Some k)) ops rows)) = fold stored_step ops (\<lambda>j. contents a k j rows)"
  using assms
proof (induction ops arbitrary: rows)
  case (Cons step ops)
  then have "random_fits (sc_random (fst step))" by simp
  from store_step_refines [OF Cons.prems(1) this] have
    "sealed_table a k (store_step a (Some k) step rows)"
    "(\<lambda>j. contents a k j (store_step a (Some k) step rows)) = stored_step step (\<lambda>j. contents a k j rows)"
    by simp_all
  with Cons.IH [of "store_step a (Some k) step rows"] Cons.prems(2) show ?case by simp
qed simp

lemma contents_empty [simp]: "contents a k j [] = None"
  by (simp add: contents_def get_config_entry_def row_of_def)

lemma store_run_from_empty:
  assumes "aead_ok a" "aes_key k" "\<forall>step\<in>set ops. random_fits (sc_random (fst step))"
  shows "sealed_table a k (fold (store_step a (Some k)) ops [])"
    and "contents a k j (fold (store_step a (Some k)) ops []) = fold stored_step ops Map.empty j"
proof -
  have "sealed_table a k []" using assms by (simp add: sealed_table_def)
  from store_run_refines [OF this assms(3)] show
    "sealed_table a k (fold (store_step a (Some k)) ops [])"
    "contents a k j (fold (store_step a (Some k)) ops []) = fold stored_step ops Map.empty j"
    by (simp_all add: fun_eq_iff)
qed

section \<open>What reading a sealed table gives\<close>

lemma get_config_entry_Some: "get_config_entry key rows = Some e \<Longrightarrow> e \<in> set rows \<and> ce_key e = key"
  unfolding get_config_entry_def by (rule row_of_Some)

lemma sealed_contents:
  assumes "sealed_table a k rows" "get_config_entry key rows = Some e"
  obtains p where "open_sealed a k (ce_nonce e) (ce_value e) key = Some p" "length (ce_nonce e) = nonce_size"
    "contents a k key rows = Some (p, ce_secret e, ce_updated_at e, ce_updated_by e)"
proof -
  have e: "e \<in> set rows" "ce_key e = key" using get_config_entry_Some [OF assms(2)] by auto
  obtain p where "open_sealed a k (ce_nonce e) (ce_value e) key = Some p" "length (ce_nonce e) = nonce_size"
    using sealed_opens [OF assms(1) e(1)] e(2) by metis
  then show ?thesis using that assms(2) e(2) by (simp add: contents_def entry_contents_def)
qed

lemma contents_None: "sealed_table a k rows \<Longrightarrow> contents a k key rows = None \<longleftrightarrow> get_config_entry key rows = None"
  by (cases "get_config_entry key rows") (auto simp: contents_def elim: sealed_contents [where a = a and k = k])

lemma store_get_sealed:
  assumes "sealed_table a k rows"
  shows "store_get a (Some k) True key rows = (case contents a k key rows of None \<Rightarrow> Inl Entry_not_found | Some (p, _) \<Rightarrow> Inr p)"
proof (cases "get_config_entry key rows")
  case None
  then show ?thesis by (simp add: store_get_def contents_def)
next
  case (Some e)
  have "aes_key k" using assms by (simp add: sealed_table_def)
  moreover obtain p where "open_sealed a k (ce_nonce e) (ce_value e) key = Some p" "length (ce_nonce e) = nonce_size"
    "contents a k key rows = Some (p, ce_secret e, ce_updated_at e, ce_updated_by e)"
    by (rule sealed_contents [OF assms Some])
  ultimately show ?thesis using Some by (simp add: store_get_def store_decrypt_def)
qed

lemma store_get_secret_sealed:
  assumes "sealed_table a k rows"
  shows "store_get_secret a (Some k) True key rows =
           (case contents a k key rows of
              None \<Rightarrow> Inl Entry_not_found
            | Some (p, s, _) \<Rightarrow> if s then Inr p else Inl Entry_not_secret)"
proof (cases "get_config_entry key rows")
  case None
  then show ?thesis by (simp add: store_get_secret_def contents_def)
next
  case (Some e)
  have "aes_key k" using assms by (simp add: sealed_table_def)
  moreover obtain p where "open_sealed a k (ce_nonce e) (ce_value e) key = Some p" "length (ce_nonce e) = nonce_size"
    "contents a k key rows = Some (p, ce_secret e, ce_updated_at e, ce_updated_by e)"
    by (rule sealed_contents [OF assms Some])
  ultimately show ?thesis using Some by (simp add: store_get_secret_def store_decrypt_def)
qed

definition visible :: "'p stored option \<Rightarrow> 'p option" where
  "visible v = (case v of Some (p, False, _) \<Rightarrow> Some p | _ \<Rightarrow> None)"

lemma decrypt_visible_sealed:
  assumes "sealed_table a k es"
  shows "decrypt_visible a (Some k) es r
         = Inr (\<lambda>key. case visible (contents a k key es) of None \<Rightarrow> r key | Some p \<Rightarrow> Some p)"
  using assms
proof (induction es arbitrary: r)
  case Nil
  then show ?case by (simp add: visible_def contents_empty)
next
  case (Cons e es)
  have sealed: "sealed_table a k es" and new: "ce_key e \<notin> ce_key ` set es" and key: "aes_key k"
    using Cons.prems by (auto simp: sealed_table_def)
  have none: "contents a k (ce_key e) es = None"
    using new by (simp add: contents_def get_config_entry_def row_of_None [symmetric])
  obtain p where p: "open_sealed a k (ce_nonce e) (ce_value e) (ce_key e) = Some p" "length (ce_nonce e) = nonce_size"
    by (rule sealed_opens [OF Cons.prems, of e]) simp_all
  have contents: "contents a k j (e # es) = (if j = ce_key e then Some (p, ce_secret e, ce_updated_at e, ce_updated_by e)
                                             else contents a k j es)" for j
    using p by (simp add: contents_def get_config_entry_def row_of_def entry_contents_def)
  show ?case
    using p none key
    by (simp add: Cons.IH [OF sealed] store_decrypt_def contents)
       (auto simp: visible_def fun_eq_iff split: option.split bool.split)
qed

lemma sealed_table_perm: "set rows' = set rows \<Longrightarrow> distinct (map ce_key rows') \<Longrightarrow> sealed_table a k rows \<Longrightarrow> sealed_table a k rows'"
  by (simp add: sealed_table_def)

lemma distinct_sort_key_map: "distinct (map g (sort_key f xs)) \<longleftrightarrow> distinct (map g xs)"
  by (metis mset_map mset_sort mset_eq_imp_distinct_iff)

lemma sealed_list:
  assumes "sealed_table a k rows"
  shows "sealed_table a k (list_config_entries collation rows)"
    and "contents a k key (list_config_entries collation rows) = contents a k key rows"
proof -
  show sealed: "sealed_table a k (list_config_entries collation rows)"
    using assms by (intro sealed_table_perm [OF _ _ assms])
      (simp_all add: list_config_entries_def distinct_sort_key_map sealed_table_def)
  have "get_config_entry key (list_config_entries collation rows) = Some e \<longleftrightarrow> get_config_entry key rows = Some e" for e
    using assms sealed unfolding get_config_entry_def sealed_table_def
    by (simp add: row_of_iff list_config_entries_def)
  then have "get_config_entry key (list_config_entries collation rows) = get_config_entry key rows"
    by (metis not_None_eq)
  then show "contents a k key (list_config_entries collation rows) = contents a k key rows"
    by (simp add: contents_def)
qed

lemma store_get_all_sealed:
  assumes "sealed_table a k rows"
  shows "store_get_all collation a (Some k) True rows = Inr (\<lambda>key. visible (contents a k key rows))"
  by (auto simp: store_get_all_def decrypt_visible_sealed [OF sealed_list(1) [OF assms]] sealed_list(2) [OF assms]
      fun_eq_iff split: option.split)

lemma metadata_sealed:
  assumes "sealed_table a k rows"
  shows "e \<in> set (to_metadata (list_config_entries collation rows)) \<longleftrightarrow>
         (\<exists>p. contents a k (em_key e) rows = Some (p, em_secret e, em_updated_at e, em_updated_by e))"
proof
  assume "e \<in> set (to_metadata (list_config_entries collation rows))"
  then obtain r where r: "r \<in> set rows" "e = \<lparr>em_key = ce_key r, em_secret = ce_secret r, em_updated_at = ce_updated_at r,
      em_updated_by = ce_updated_by r\<rparr>"
    by (auto simp: to_metadata_def list_config_entries_def)
  then have "get_config_entry (ce_key r) rows = Some r"
    using assms by (simp add: get_config_entry_def row_of_iff sealed_table_def)
  then show "\<exists>p. contents a k (em_key e) rows = Some (p, em_secret e, em_updated_at e, em_updated_by e)"
    using sealed_contents [OF assms] r(2) by fastforce
next
  assume "\<exists>p. contents a k (em_key e) rows = Some (p, em_secret e, em_updated_at e, em_updated_by e)"
  then obtain p where p: "contents a k (em_key e) rows = Some (p, em_secret e, em_updated_at e, em_updated_by e)" by auto
  then obtain r where "get_config_entry (em_key e) rows = Some r" by (auto simp: contents_def bind_eq_Some_conv)
  then have "r \<in> set rows" "e = \<lparr>em_key = ce_key r, em_secret = ce_secret r, em_updated_at = ce_updated_at r,
      em_updated_by = ce_updated_by r\<rparr>"
    using p get_config_entry_Some [of "em_key e" rows r] by (auto simp: contents_def entry_contents_def)
  then show "e \<in> set (to_metadata (list_config_entries collation rows))"
    by (auto simp: to_metadata_def list_config_entries_def)
qed

text \<open>Whatever writes and removals succeeded or failed, the encrypted table is the map they describe: \<open>Get\<close>
  returns the last value written under a key, \<open>GetSecret\<close> the same for the secret ones, \<open>GetAll\<close> all the
  others, and \<open>List\<close> names each key once with its last time and user.\<close>

theorem store_refines_map:
  assumes lib: "aead_ok a" and key: "aes_key k"
    and random: "\<forall>step\<in>set ops. random_fits (sc_random (fst step))"
    and rows: "rows = fold (store_step a (Some k)) ops []"
    and m: "m = fold stored_step ops Map.empty"
  shows "store_get a (Some k) True key rows = (case m key of None \<Rightarrow> Inl Entry_not_found | Some (p, _) \<Rightarrow> Inr p)
    \<and> store_get_secret a (Some k) True key rows =
        (case m key of None \<Rightarrow> Inl Entry_not_found | Some (p, s, _) \<Rightarrow> if s then Inr p else Inl Entry_not_secret)
    \<and> store_get_all collation a (Some k) True rows = Inr (\<lambda>j. visible (m j))
    \<and> (\<exists>ms. store_list collation True rows = Inr ms \<and> distinct (map em_key ms)
          \<and> sorted (map (\<lambda>e. collation (em_key e)) ms)
          \<and> (\<forall>e. e \<in> set ms \<longleftrightarrow> (\<exists>p. m (em_key e) = Some (p, em_secret e, em_updated_at e, em_updated_by e))))"
proof -
  have sealed: "sealed_table a k rows" and eq: "\<And>j. contents a k j rows = m j"
    using store_run_from_empty [OF lib key random] by (simp_all add: rows m)
  have keys: "map em_key (to_metadata (list_config_entries collation rows)) = map ce_key (list_config_entries collation rows)"
    by (simp add: to_metadata_def)
  have "map (\<lambda>e. collation (em_key e)) (to_metadata (list_config_entries collation rows))
      = map (\<lambda>r. collation (ce_key r)) (list_config_entries collation rows)"
    by (simp add: to_metadata_def)
  then have "sorted (map (\<lambda>e. collation (em_key e)) (to_metadata (list_config_entries collation rows)))"
    by (simp add: list_config_entries_def)
  moreover have "distinct (map em_key (to_metadata (list_config_entries collation rows)))"
    using sealed_list(1) [OF sealed, of collation] by (simp add: keys sealed_table_def)
  ultimately show ?thesis
    using store_get_sealed [OF sealed] store_get_secret_sealed [OF sealed] store_get_all_sealed [OF sealed, of collation]
      metadata_sealed [OF sealed, of _ collation] by (simp add: eq store_list_def)
qed

text \<open>The instance that spells out what was sealed.\<close>

definition tuple_aead :: "('p, string \<times> string \<times> string \<times> 'p) aead" where
  "tuple_aead = \<lparr>seal = (\<lambda>k n p d. (k, n, d, p)),
     open_sealed = (\<lambda>k n c d. case c of (k', n', d', p) \<Rightarrow> if (k', n', d') = (k, n, d) then Some p else None)\<rparr>"

lemma tuple_aead_ok: "aead_ok tuple_aead"
  by (auto simp: aead_ok_def tuple_aead_def)

text \<open>A witness: a key is written twice, the second time as a secret.\<close>

definition toy_key :: string where "toy_key = ''0123456789abcdef''"
definition toy_nonce :: string where "toy_nonce = ''nnnnnnnnnnnn''"

definition two_writes :: "(store_call \<times> int store_op) list" where
  "two_writes = [(\<lparr>sc_up = True, sc_random = Some toy_nonce, sc_now = 1\<rparr>, Set_value ''a'' 5 False ''u''),
                 (\<lparr>sc_up = True, sc_random = Some toy_nonce, sc_now = 2\<rparr>, Set_value ''a'' 7 True ''v'')]"

lemma toy_key_ok: "aes_key toy_key" and toy_nonce_ok: "length toy_nonce = nonce_size"
  by (simp_all add: aes_key_def toy_key_def toy_nonce_def nonce_size_def)

lemma two_writes_fit: "\<forall>step\<in>set two_writes. random_fits (sc_random (fst step))"
  by (simp add: two_writes_def random_fits_def nonce_fits_def toy_nonce_ok)

lemma two_writes_stored: "fold stored_step two_writes Map.empty = [''a'' \<mapsto> (7, True, 2, ''v'')]"
  by (simp add: two_writes_def stored_step_def)

theorem store_refines_map_witness:
  "store_get tuple_aead (Some toy_key) True ''a'' (fold (store_step tuple_aead (Some toy_key)) two_writes []) = Inr 7"
  using store_refines_map [OF tuple_aead_ok toy_key_ok two_writes_fit refl refl, of "''a''" length]
  by (simp add: two_writes_stored)

text \<open>A value and its nonce copied to the row of another key, or read by a store with another encryption
  key, never decrypt; and with another encryption key \<open>GetAll\<close> fails as soon as a row is no secret.\<close>

theorem moved_values_do_not_open:
  assumes lib: "aead_ok a" and key: "aes_key k" and key': "aes_key k'"
    and random: "\<forall>step\<in>set ops. random_fits (sc_random (fst step))"
    and e: "e \<in> set (fold (store_step a (Some k)) ops [])"
    and copy: "get_config_entry j rows = Some e'" "ce_value e' = ce_value e" "ce_nonce e' = ce_nonce e"
    and other: "(k', j) \<noteq> (k, ce_key e)"
  shows "store_get a (Some k') True j rows = Inl Store_decryption_failed
    \<and> store_get_secret a (Some k') True j rows = Inl (if ce_secret e' then Store_decryption_failed else Entry_not_secret)
    \<and> (k' \<noteq> k \<and> \<not> ce_secret e \<longrightarrow>
        store_get_all collation a (Some k') True (fold (store_step a (Some k)) ops []) = Inl Store_decryption_failed)"
proof -
  let ?rows = "fold (store_step a (Some k)) ops []"
  have sealed: "sealed_table a k ?rows" by (rule store_run_from_empty(1) [OF lib key random])
  have closed: "store_decrypt a (Some k') (ce_value r) (ce_nonce r) j' = Inl Store_decryption_failed"
    if "r \<in> set ?rows" "(k', j') \<noteq> (k, ce_key r)" for r j'
  proof -
    have "sealed_entry a k r" using sealed that(1) by (simp only: sealed_table_def)
    then obtain p where p: "ce_value r = seal a k (ce_nonce r) p (ce_key r)" "length (ce_nonce r) = nonce_size"
      by (auto simp only: sealed_entry_def)
    have "open_sealed a k' (ce_nonce r) (ce_value r) j' = None"
      unfolding p(1) using that(2) by (intro open_other [OF lib key p(2) key' p(2)]) auto
    then show ?thesis by (simp add: store_decrypt_def key' p(2))
  qed
  have all: "decrypt_visible a (Some k') es r = Inl Store_decryption_failed"
    if "k' \<noteq> k" "set es \<subseteq> set ?rows" "\<exists>x\<in>set es. \<not> ce_secret x" for es r
    using that(2,3)
  proof (induction es arbitrary: r)
    case (Cons x es)
    then show ?case using closed [of x "ce_key x"] that(1) by (cases "ce_secret x") auto
  qed simp
  have "store_get_all collation a (Some k') True ?rows = Inl Store_decryption_failed" if "k' \<noteq> k" "\<not> ce_secret e"
    using all [OF that(1), of "list_config_entries collation ?rows"] e that(2)
    by (auto simp: store_get_all_def list_config_entries_def)
  moreover have "store_decrypt a (Some k') (ce_value e) (ce_nonce e) j = Inl Store_decryption_failed"
    by (rule closed [OF e other])
  ultimately show ?thesis by (simp add: store_get_def store_get_secret_def copy)
qed

theorem moved_values_do_not_open_witness:
  "store_get tuple_aead (Some toy_key) True ''b''
     [\<lparr>ce_key = ''b'', ce_value = (toy_key, toy_nonce, ''a'', 7 :: int), ce_nonce = toy_nonce, ce_secret = False,
       ce_updated_at = 3, ce_updated_by = ''w''\<rparr>] = Inl Store_decryption_failed"
proof -
  let ?e = "\<lparr>ce_key = ''a'', ce_value = (toy_key, toy_nonce, ''a'', 7 :: int), ce_nonce = toy_nonce, ce_secret = True,
       ce_updated_at = 2, ce_updated_by = ''v''\<rparr>"
  have "?e \<in> set (fold (store_step tuple_aead (Some toy_key)) two_writes [])"
    by (simp add: two_writes_def store_step_def store_set_def store_encrypt_def toy_key_ok set_config_entry_def
        get_config_entry_def row_of_def update_where_def tuple_aead_def)
  from moved_values_do_not_open [OF tuple_aead_ok toy_key_ok toy_key_ok two_writes_fit this, of "''b''" _ _ length]
  show ?thesis by (simp add: get_config_entry_def row_of_def)
qed

section \<open>What moving older settings does\<close>

text \<open>Once the move has reported success, repeating it changes nothing, whatever has been written to either record
  since, as long as the new record can be read.\<close>

lemma move_test_kitchen_settled:
  assumes "store_get a dk (up 0) key_test_kitchen rows = Inr v"
  shows "move_test_kitchen a dk up random now rows = (Inr False, rows)"
  using assms by (simp add: move_test_kitchen_def)

text \<open>A first read that fails for any other reason than a missing record counts as one: settings saved since are
  overwritten with a nested copy that is still there.\<close>

lemma move_test_kitchen_overwrites:
  assumes lib: "aead_ok a" and key: "aes_key k" and sealed: "sealed_table a k rows"
    and here: "contents a k key_test_kitchen rows = Some (saved, s, t, who)"
    and old: "contents a k key_analysis_tools rows = Some (JObj kvs, s', t', who')"
    and nested: "map_of (last_entries kvs) ''test_kitchen'' = Some nested" "nested \<noteq> JNull"
    and dec: "decode_map Some (JObj kvs) = Some (last_entries kvs)"
    and up: "\<not> up 0" "up 1" "up 2" "\<not> up 3" and random: "random 2 = Some n" "length n = nonce_size"
  shows "contents a k key_test_kitchen (snd (move_test_kitchen a (Some k) up random now rows))
         = Some (nested, False, now, ''config split'')"
proof -
  have first: "store_get a (Some k) (up 0) key_test_kitchen rows = Inl Db_failed"
    using up(1) by (simp add: store_get_def)
  have second: "store_get a (Some k) (up 1) key_analysis_tools rows = Inr (JObj kvs)"
    using store_get_sealed [OF sealed] old up(2) by simp
  have last: "store_set a (Some k) (up 3) r now key_analysis_tools v b w tbl
      = (Inl (case store_encrypt a (Some k) r v key_analysis_tools of Inl e \<Rightarrow> e | Inr _ \<Rightarrow> Db_failed), tbl)" for r v b w tbl
    using up(4) by (simp add: store_set_def split: sum.split prod.split)
  have "store_set a (Some k) (up 2) (random 2) now key_test_kitchen nested False ''config split'' rows
      = (Inr (), put_entry a k n key_test_kitchen (nested, False, now, ''config split'') rows)"
    using up(3) by (simp add: store_set_def put_entry_def store_encrypt_def key random(1))
  then have "snd (move_test_kitchen a (Some k) up random now rows)
      = put_entry a k n key_test_kitchen (nested, False, now, ''config split'') rows"
    using nested by (cases nested) (simp_all add: move_test_kitchen_def first second dec last del: One_nat_def)
  then show ?thesis
    using config_kv.lookup_update [OF sealed, of n] random(2) by (simp add: nonce_fits_def)
qed

text \<open>A migration that breaks off after a row has left the table in a state in which it is never taken up again.\<close>

lemma broken_migration_stays_broken:
  assumes "migrate_from_legacy a dk c up random now legacy tbl = (Migration_failed e, tbl')" "tbl' \<noteq> []"
  shows "migrate_from_legacy a dk True up' random' now' legacy tbl' = (Migration_skipped, tbl')"
  using assms by (simp add: migrate_from_legacy_def store_is_empty_def config_store_is_empty_def)

end
