(* ===== verification/Credential_Store.thy ===== *)
theory Credential_Store
  imports Config_Store
begin

text \<open>
  Credentials kept in the configuration store (\<open>internal/configstore/credential_adapter.go\<close>, whose contract
  is \<open>secrets/store.go\<close>) and the resolution of a credential from its three sources
  (\<open>secrets/resolver.go\<close>). An entry holds a JSON envelope; base64 and the text of a time are the parameter
  \<open>codec\<close>, with the law \<open>codec_ok\<close> that reading gives back what was written. Strings are valid UTF-8.
\<close>

section \<open>The envelope\<close>

record codec =
  b64 :: "string \<Rightarrow> string"
  unb64 :: "string \<Rightarrow> string option"
  rfc3339 :: "int \<Rightarrow> string"
  parse_rfc3339 :: "string \<Rightarrow> int option"

text \<open>\<open>time.Time\<close> is written in JSON for years of four digits only.\<close>

definition json_time :: "int \<Rightarrow> bool" where
  "json_time t = (0 \<le> year_of (day_of t) \<and> year_of (day_of t) \<le> 9999)"

definition codec_ok :: "codec \<Rightarrow> bool" where
  "codec_ok q =
     ((\<forall>s. unb64 q (b64 q s) = Some s) \<and> (\<forall>t. json_time t \<longrightarrow> parse_rfc3339 q (rfc3339 q t) = Some t))"

record envelope =
  en_type :: string
  en_value :: string
  en_metadata :: cred_fields
  en_rotated_at :: "int option"
  en_created_by :: string
  en_updated_by :: string
  en_created_at :: int

definition marshal_envelope :: "codec \<Rightarrow> envelope \<Rightarrow> json option" where
  "marshal_envelope q env =
     (if json_time (en_created_at env) \<and> (case en_rotated_at env of None \<Rightarrow> True | Some t \<Rightarrow> json_time t)
      then Some (JObj (
          [(''credential_type'', JStr (en_type env)), (''value'', JStr (b64 q (en_value env)))]
          @ (if en_metadata env = [] then [] else [(''metadata'', JObj (en_metadata env))])
          @ (case en_rotated_at env of None \<Rightarrow> [] | Some t \<Rightarrow> [(''last_rotated_at'', JStr (rfc3339 q t))])
          @ [(''created_by'', JStr (en_created_by env))]
          @ (if en_updated_by env = [] then [] else [(''updated_by'', JStr (en_updated_by env))])
          @ [(''created_at'', JStr (rfc3339 q (en_created_at env)))]))
      else None)"

text \<open>The zero value of \<open>time.Time\<close>.\<close>

definition zero_instant :: int where "zero_instant = - 62135596800 * second_ns"

definition decode_field :: "(json \<Rightarrow> 'a option) \<Rightarrow> 'a \<Rightarrow> string \<Rightarrow> (string \<times> json) list \<Rightarrow> 'a option" where
  "decode_field dec absent name kvs =
     (case field_value name kvs of None \<Rightarrow> Some absent | Some JNull \<Rightarrow> Some absent | Some j \<Rightarrow> dec j)"

text \<open>Bytes are a text in base64 or an array of small numbers.\<close>

definition byte_of :: "json \<Rightarrow> char option" where
  "byte_of j =
     (case j of
        JNum r \<Rightarrow> if r = of_int \<lfloor>r\<rfloor> \<and> 0 \<le> \<lfloor>r\<rfloor> \<and> \<lfloor>r\<rfloor> \<le> 255 then Some (char_of (nat \<lfloor>r\<rfloor>)) else None
      | JNull \<Rightarrow> Some (char_of (0 :: nat))
      | _ \<Rightarrow> None)"

definition decode_bytes :: "codec \<Rightarrow> json \<Rightarrow> string option" where
  "decode_bytes q j =
     (case j of
        JStr s \<Rightarrow> unb64 q s
      | JArr js \<Rightarrow> those (map byte_of js)
      | _ \<Rightarrow> None)"

definition decode_instant :: "codec \<Rightarrow> json \<Rightarrow> int option" where
  "decode_instant q j = (case j of JStr s \<Rightarrow> parse_rfc3339 q s | _ \<Rightarrow> None)"

definition unmarshal_envelope :: "codec \<Rightarrow> json \<Rightarrow> envelope option" where
  "unmarshal_envelope q j =
     (case (case j of JNull \<Rightarrow> Some [] | JObj kvs \<Rightarrow> Some kvs | _ \<Rightarrow> None) of
        None \<Rightarrow> None
      | Some kvs \<Rightarrow>
          Option.bind (decode_field decode_string [] ''credential_type'' kvs) (\<lambda>ty.
          Option.bind (decode_field (decode_bytes q) [] ''value'' kvs) (\<lambda>v.
          Option.bind (decode_field (decode_map Some) [] ''metadata'' kvs) (\<lambda>md.
          Option.bind (decode_field (\<lambda>x. map_option Some (decode_instant q x)) None ''last_rotated_at'' kvs) (\<lambda>rot.
          Option.bind (decode_field decode_string [] ''created_by'' kvs) (\<lambda>cb.
          Option.bind (decode_field decode_string [] ''updated_by'' kvs) (\<lambda>ub.
          Option.bind (decode_field (decode_instant q) zero_instant ''created_at'' kvs) (\<lambda>ca.
          Some \<lparr>en_type = ty, en_value = v, en_metadata = md, en_rotated_at = rot,
                en_created_by = cb, en_updated_by = ub, en_created_at = ca\<rparr>))))))))"

lemma decode_all_Some: "decode_all Some kvs = Some kvs"
  by (induction kvs) auto

lemma last_entries_distinct: "distinct (map fst kvs) \<Longrightarrow> last_entries kvs = kvs"
  by (induction kvs rule: last_entries.induct) auto

lemma lower_names:
  "to_lower ''credential_type'' = ''credential_type''" "to_lower ''value'' = ''value''"
  "to_lower ''metadata'' = ''metadata''" "to_lower ''last_rotated_at'' = ''last_rotated_at''"
  "to_lower ''created_by'' = ''created_by''" "to_lower ''updated_by'' = ''updated_by''"
  "to_lower ''created_at'' = ''created_at''"
  by code_simp+

lemma envelope_roundtrip:
  assumes codec: "codec_ok q" and md: "distinct (map fst (en_metadata env))" and j: "marshal_envelope q env = Some j"
  shows "unmarshal_envelope q j = Some env"
proof -
  have times: "json_time (en_created_at env)" "\<And>t. en_rotated_at env = Some t \<Longrightarrow> json_time t"
    using j by (auto simp: marshal_envelope_def split: if_splits)
  have meta: "decode_map Some (JObj (en_metadata env)) = Some (en_metadata env)"
    by (simp add: decode_map_def decode_all_Some last_entries_distinct md)
  have laws: "unb64 q (b64 q s) = Some s" "json_time t \<Longrightarrow> parse_rfc3339 q (rfc3339 q t) = Some t" for s t
    using codec by (simp_all add: codec_ok_def)
  show ?thesis
    using j times laws meta
    by (cases env; cases "en_rotated_at env"; cases "en_metadata env = []"; cases "en_updated_by env = []")
       (auto simp: marshal_envelope_def unmarshal_envelope_def decode_field_def field_value_def lower_names
          decode_string_def decode_bytes_def decode_instant_def)
qed

section \<open>The adapter\<close>

record cred_meta =
  cm_name :: string
  cm_type :: string
  cm_metadata :: cred_fields
  cm_rotated_at :: "int option"
  cm_created_by :: string
  cm_updated_by :: string
  cm_created_at :: int
  cm_updated_at :: int

record credential = cred_meta +
  cr_plaintext :: string

record cred_reference =
  rf_entity_type :: string
  rf_entity_name :: string

datatype cred_error =
  Cred_name_required | Created_by_required | Updated_by_required | Cred_already_exists | Cred_not_found
| Cred_key_not_configured | Cred_in_use | Cred_type_unknown | Cred_invalid validation_error
| Envelope_unreadable | Envelope_unwritable | References_failed | Cred_store store_error

definition credential_key_prefix :: string where "credential_key_prefix = ''credentials/''"

definition credential_key :: "string \<Rightarrow> string" where "credential_key name = credential_key_prefix @ name"

definition credential_name_from_key :: "string \<Rightarrow> string" where
  "credential_name_from_key key =
     (if take (length credential_key_prefix) key \<noteq> credential_key_prefix then []
      else drop (length credential_key_prefix) key)"

text \<open>How the calls of one operation go, numbered from 0; the clock of the program and that of the database.\<close>

record cred_call =
  cc_up :: "nat \<Rightarrow> bool"
  cc_random :: "string option"
  cc_now :: int
  cc_db_now :: int

text \<open>Writing an envelope: \<open>json.Marshal\<close> and \<open>Set\<close>, the call number \<open>i\<close>. The entry is always secret.\<close>

definition put_envelope ::
  "codec \<Rightarrow> (json, 'c) aead \<Rightarrow> string option \<Rightarrow> cred_call \<Rightarrow> nat \<Rightarrow> string \<Rightarrow> envelope \<Rightarrow> string
   \<Rightarrow> 'c config_table \<Rightarrow> (cred_error + unit) \<times> 'c config_table" where
  "put_envelope q a dk call i name env by rows =
     (case marshal_envelope q env of
        None \<Rightarrow> (Inl Envelope_unwritable, rows)
      | Some j \<Rightarrow>
          (case store_set a dk (cc_up call i) (cc_random call) (cc_db_now call) (credential_key name) j True by rows of
             (Inl e, rows') \<Rightarrow> (Inl (Cred_store e), rows')
           | (Inr _, rows') \<Rightarrow> (Inr (), rows')))"

definition cred_create ::
  "codec \<Rightarrow> (string \<Rightarrow> (string \<times> int) option) \<Rightarrow> (json, 'c) aead \<Rightarrow> string option \<Rightarrow> cred_call
   \<Rightarrow> string \<Rightarrow> string \<Rightarrow> string \<Rightarrow> string \<Rightarrow> 'c config_table \<Rightarrow> (cred_error + cred_meta) \<times> 'c config_table" where
  "cred_create q rsa_key a dk call name ty plain by rows =
     (if name = [] then (Inl Cred_name_required, rows)
      else if by = [] then (Inl Created_by_required, rows)
      else case store_get_entry (cc_up call 0) (credential_key name) rows of
             Inl e \<Rightarrow> (Inl (Cred_store e), rows)
           | Inr (Some _) \<Rightarrow> (Inl Cred_already_exists, rows)
           | Inr None \<Rightarrow>
               (case validate_credential_value rsa_key ty plain of
                  Inl e \<Rightarrow> (Inl (Cred_invalid e), rows)
                | Inr md \<Rightarrow>
                    (case put_envelope q a dk call 1 name
                            \<lparr>en_type = ty, en_value = plain, en_metadata = md, en_rotated_at = None,
                             en_created_by = by, en_updated_by = [], en_created_at = cc_now call\<rparr> by rows of
                       (Inl e, rows') \<Rightarrow> (Inl e, rows')
                     | (Inr _, rows') \<Rightarrow>
                         (Inr \<lparr>cm_name = name, cm_type = ty, cm_metadata = md, cm_rotated_at = None, cm_created_by = by,
                               cm_updated_by = [], cm_created_at = cc_now call, cm_updated_at = cc_now call\<rparr>, rows'))))"

text \<open>Reading an envelope for an operation on one credential, with the errors of the store mapped.\<close>

definition read_envelope ::
  "codec \<Rightarrow> (json, 'c) aead \<Rightarrow> string option \<Rightarrow> bool \<Rightarrow> string \<Rightarrow> 'c config_table \<Rightarrow> cred_error + envelope" where
  "read_envelope q a dk up name rows =
     (case store_get_secret a dk up (credential_key name) rows of
        Inl Entry_not_found \<Rightarrow> Inl Cred_not_found
      | Inl Store_key_required \<Rightarrow> Inl Cred_key_not_configured
      | Inl e \<Rightarrow> Inl (Cred_store e)
      | Inr j \<Rightarrow> (case unmarshal_envelope q j of None \<Rightarrow> Inl Envelope_unreadable | Some env \<Rightarrow> Inr env))"

definition meta_of :: "string \<Rightarrow> envelope \<Rightarrow> int \<Rightarrow> cred_meta" where
  "meta_of name env t =
     \<lparr>cm_name = name, cm_type = en_type env, cm_metadata = en_metadata env, cm_rotated_at = en_rotated_at env,
      cm_created_by = en_created_by env, cm_updated_by = en_updated_by env, cm_created_at = en_created_at env, cm_updated_at = t\<rparr>"

definition cred_get ::
  "codec \<Rightarrow> (json, 'c) aead \<Rightarrow> string option \<Rightarrow> (nat \<Rightarrow> bool) \<Rightarrow> string \<Rightarrow> 'c config_table \<Rightarrow> cred_error + credential" where
  "cred_get q a dk up name rows =
     (case read_envelope q a dk (up 0) name rows of
        Inl e \<Rightarrow> Inl e
      | Inr env \<Rightarrow>
          (case store_get_entry (up 1) (credential_key name) rows of
             Inl e \<Rightarrow> Inl (Cred_store e)
           | Inr entry \<Rightarrow>
               Inr (cred_meta.extend (meta_of name env (case entry of None \<Rightarrow> zero_instant | Some e \<Rightarrow> ce_updated_at e))
                      (credential.fields (en_value env)))))"

definition cred_get_metadata ::
  "codec \<Rightarrow> (json, 'c) aead \<Rightarrow> string option \<Rightarrow> (nat \<Rightarrow> bool) \<Rightarrow> string \<Rightarrow> 'c config_table \<Rightarrow> cred_error + cred_meta" where
  "cred_get_metadata q a dk up name rows =
     (case read_envelope q a dk (up 0) name rows of
        Inl e \<Rightarrow> Inl e
      | Inr env \<Rightarrow>
          (case store_get_entry (up 1) (credential_key name) rows of
             Inl e \<Rightarrow> Inl (Cred_store e)
           | Inr entry \<Rightarrow> Inr (meta_of name env (case entry of None \<Rightarrow> zero_instant | Some e \<Rightarrow> ce_updated_at e))))"

definition cred_update ::
  "codec \<Rightarrow> (string \<Rightarrow> (string \<times> int) option) \<Rightarrow> (json, 'c) aead \<Rightarrow> string option \<Rightarrow> cred_call
   \<Rightarrow> string \<Rightarrow> string \<Rightarrow> string \<Rightarrow> 'c config_table \<Rightarrow> (cred_error + cred_meta) \<times> 'c config_table" where
  "cred_update q rsa_key a dk call name plain by rows =
     (if name = [] then (Inl Cred_name_required, rows)
      else if by = [] then (Inl Updated_by_required, rows)
      else case read_envelope q a dk (cc_up call 0) name rows of
             Inl e \<Rightarrow> (Inl e, rows)
           | Inr env \<Rightarrow>
               (case validate_credential_value rsa_key (en_type env) plain of
                  Inl e \<Rightarrow> (Inl (Cred_invalid e), rows)
                | Inr md \<Rightarrow>
                    (let env' = env\<lparr>en_value := plain, en_metadata := md, en_rotated_at := Some (cc_now call), en_updated_by := by\<rparr>
                     in case put_envelope q a dk call 1 name env' by rows of
                          (Inl e, rows') \<Rightarrow> (Inl e, rows')
                        | (Inr _, rows') \<Rightarrow> (Inr (meta_of name env' (cc_now call)), rows'))))"

text \<open>The reference check: \<open>None\<close> without a checker, else what it answers, \<open>Inl\<close> when it fails.\<close>

type_synonym reference_check = "(unit + cred_reference list) option"

definition cred_delete :: "cred_call \<Rightarrow> reference_check \<Rightarrow> string \<Rightarrow> 'c config_table \<Rightarrow> (cred_error + unit) \<times> 'c config_table" where
  "cred_delete call refs name rows =
     (case store_get_entry (cc_up call 0) (credential_key name) rows of
        Inl e \<Rightarrow> (Inl (Cred_store e), rows)
      | Inr None \<Rightarrow> (Inl Cred_not_found, rows)
      | Inr (Some _) \<Rightarrow>
          (case refs of
             Some (Inl _) \<Rightarrow> (Inl References_failed, rows)
           | Some (Inr (_ # _)) \<Rightarrow> (Inl Cred_in_use, rows)
           | _ \<Rightarrow>
               (case store_delete (cc_up call 1) (credential_key name) rows of
                  (Inl e, rows') \<Rightarrow> (Inl (Cred_store e), rows')
                | (Inr _, rows') \<Rightarrow> (Inr (), rows'))))"

text \<open>The list, optionally of one type (the empty filter is none). An entry that cannot be read is listed by its
  name alone. Its reads are the calls numbered from \<open>i\<close>.\<close>

definition minimal_meta :: "string \<Rightarrow> entry_metadata \<Rightarrow> cred_meta" where
  "minimal_meta name e =
     \<lparr>cm_name = name, cm_type = [], cm_metadata = [], cm_rotated_at = None, cm_created_by = [],
      cm_updated_by = em_updated_by e, cm_created_at = zero_instant, cm_updated_at = em_updated_at e\<rparr>"

fun list_credentials ::
  "codec \<Rightarrow> (json, 'c) aead \<Rightarrow> string option \<Rightarrow> (nat \<Rightarrow> bool) \<Rightarrow> nat \<Rightarrow> string \<Rightarrow> entry_metadata list \<Rightarrow> 'c config_table
   \<Rightarrow> cred_meta list" where
  "list_credentials q a dk up i filter_type [] rows = []"
| "list_credentials q a dk up i filter_type (e # es) rows =
     (let name = credential_name_from_key (em_key e)
      in if name = [] then list_credentials q a dk up i filter_type es rows
         else case store_get_secret a dk (up i) (em_key e) rows of
                Inl _ \<Rightarrow> minimal_meta name e # list_credentials q a dk up (Suc i) filter_type es rows
              | Inr j \<Rightarrow>
                  (case unmarshal_envelope q j of
                     None \<Rightarrow> minimal_meta name e # list_credentials q a dk up (Suc i) filter_type es rows
                   | Some env \<Rightarrow>
                       if filter_type \<noteq> [] \<and> en_type env \<noteq> filter_type
                       then list_credentials q a dk up (Suc i) filter_type es rows
                       else meta_of name env (em_updated_at e) # list_credentials q a dk up (Suc i) filter_type es rows))"

definition list_with_filter ::
  "codec \<Rightarrow> (string \<Rightarrow> 'o::linorder) \<Rightarrow> (json, 'c) aead \<Rightarrow> string option \<Rightarrow> (nat \<Rightarrow> bool) \<Rightarrow> string \<Rightarrow> 'c config_table
   \<Rightarrow> cred_error + cred_meta list" where
  "list_with_filter q collation a dk up filter_type rows =
     (case store_list_by_prefix collation (up 0) credential_key_prefix rows of
        Inl e \<Rightarrow> Inl (Cred_store e)
      | Inr es \<Rightarrow> Inr (list_credentials q a dk up 1 filter_type es rows))"

definition cred_list ::
  "codec \<Rightarrow> (string \<Rightarrow> 'o::linorder) \<Rightarrow> (json, 'c) aead \<Rightarrow> string option \<Rightarrow> (nat \<Rightarrow> bool) \<Rightarrow> 'c config_table
   \<Rightarrow> cred_error + cred_meta list" where
  "cred_list q collation a dk up rows = list_with_filter q collation a dk up [] rows"

definition cred_list_by_type ::
  "codec \<Rightarrow> (string \<Rightarrow> 'o::linorder) \<Rightarrow> (json, 'c) aead \<Rightarrow> string option \<Rightarrow> (nat \<Rightarrow> bool) \<Rightarrow> string \<Rightarrow> 'c config_table
   \<Rightarrow> cred_error + cred_meta list" where
  "cred_list_by_type q collation a dk up ty rows =
     (if \<not> is_valid_credential_type ty then Inl Cred_type_unknown else list_with_filter q collation a dk up ty rows)"

definition cred_test ::
  "codec \<Rightarrow> (string \<Rightarrow> (string \<times> int) option) \<Rightarrow> (json, 'c) aead \<Rightarrow> string option \<Rightarrow> (nat \<Rightarrow> bool) \<Rightarrow> string
   \<Rightarrow> 'c config_table \<Rightarrow> cred_error + (validation_error + cred_fields)" where
  "cred_test q rsa_key a dk up name rows =
     (case cred_get q a dk up name rows of
        Inl e \<Rightarrow> Inl e
      | Inr c \<Rightarrow> Inr (validate_credential_value rsa_key (cm_type c) (cr_plaintext c)))"

definition referenced_by :: "bool \<Rightarrow> reference_check \<Rightarrow> string \<Rightarrow> 'c config_table \<Rightarrow> cred_error + cred_reference list" where
  "referenced_by up refs name rows =
     (case store_get_entry up (credential_key name) rows of
        Inl e \<Rightarrow> Inl (Cred_store e)
      | Inr None \<Rightarrow> Inl Cred_not_found
      | Inr (Some _) \<Rightarrow>
          (case refs of None \<Rightarrow> Inr [] | Some (Inl _) \<Rightarrow> Inl References_failed | Some (Inr rs) \<Rightarrow> Inr rs))"

section \<open>Resolving a credential\<close>

record credential_source =
  src_credential_name :: string
  src_env_var :: string
  src_file_path :: string

datatype credential_source_kind = Source_database | Source_env_var | Source_file

datatype resolve_error =
  No_credential_configured | Credential_store_unavailable | Credential_failed cred_error | Env_var_not_set | File_not_readable

record resolved_credential =
  rc_plaintext :: string
  rc_source :: credential_source_kind
  rc_source_detail :: string

text \<open>\<open>get\<close> is the \<open>Get\<close> of the store, \<open>None\<close> without one; \<open>env\<close> looks a variable up, \<open>read\<close> a file.\<close>

definition resolve_from_database ::
  "(string \<Rightarrow> cred_error + credential) option \<Rightarrow> string \<Rightarrow> resolve_error + resolved_credential" where
  "resolve_from_database get name =
     (case get of
        None \<Rightarrow> Inl Credential_store_unavailable
      | Some g \<Rightarrow>
          (case g name of
             Inl e \<Rightarrow> Inl (Credential_failed e)
           | Inr c \<Rightarrow> Inr \<lparr>rc_plaintext = cr_plaintext c, rc_source = Source_database, rc_source_detail = name\<rparr>))"

definition resolve_from_env_var :: "(string \<Rightarrow> string option) \<Rightarrow> string \<Rightarrow> resolve_error + resolved_credential" where
  "resolve_from_env_var env var =
     (case env var of
        None \<Rightarrow> Inl Env_var_not_set
      | Some v \<Rightarrow>
          if v = [] then Inl Env_var_not_set
          else Inr \<lparr>rc_plaintext = v, rc_source = Source_env_var, rc_source_detail = var\<rparr>)"

definition is_newline :: "char \<Rightarrow> bool" where "is_newline c = (c = CHR 0x0D \<or> c = CHR 0x0A)"

definition resolve_from_file :: "(string \<Rightarrow> string option) \<Rightarrow> string \<Rightarrow> resolve_error + resolved_credential" where
  "resolve_from_file read path =
     (case read path of
        None \<Rightarrow> Inl File_not_readable
      | Some d \<Rightarrow>
          if d = [] then Inl File_not_readable
          else let plain = trim_right_by is_newline d
               in if plain = [] then Inl File_not_readable
                  else Inr \<lparr>rc_plaintext = plain, rc_source = Source_file, rc_source_detail = path\<rparr>)"

definition resolve_credential ::
  "(string \<Rightarrow> cred_error + credential) option \<Rightarrow> (string \<Rightarrow> string option) \<Rightarrow> (string \<Rightarrow> string option)
   \<Rightarrow> credential_source \<Rightarrow> resolve_error + resolved_credential" where
  "resolve_credential get env read src =
     (if src_credential_name src \<noteq> [] then resolve_from_database get (src_credential_name src)
      else if src_env_var src \<noteq> [] then resolve_from_env_var env (src_env_var src)
      else if src_file_path src \<noteq> [] then resolve_from_file read (src_file_path src)
      else Inl No_credential_configured)"

definition source_is_configured :: "credential_source \<Rightarrow> bool" where
  "source_is_configured src = (src_credential_name src \<noteq> [] \<or> src_env_var src \<noteq> [] \<or> src_file_path src \<noteq> [])"

definition describe_source :: "credential_source \<Rightarrow> string" where
  "describe_source src =
     (if src_credential_name src \<noteq> [] then ''database credential '' @ quoted (src_credential_name src)
      else if src_env_var src \<noteq> [] then ''environment variable '' @ quoted (src_env_var src)
      else if src_file_path src \<noteq> [] then ''file '' @ quoted (src_file_path src)
      else ''none'')"

section \<open>Runs of the credential store, and what they mean\<close>

text \<open>Credentials share their table with the settings, which other callers write under other keys.\<close>

datatype cred_op =
  Create_cred string string string string
| Rotate_cred string string string
| Delete_cred reference_check string
| Other_entry store_call "json store_op"

definition cred_step ::
  "codec \<Rightarrow> (string \<Rightarrow> (string \<times> int) option) \<Rightarrow> (json, 'c) aead \<Rightarrow> string option \<Rightarrow> cred_call \<times> cred_op
   \<Rightarrow> 'c config_table \<Rightarrow> 'c config_table" where
  "cred_step q rsa_key a dk step rows =
     (case step of
        (call, Create_cred name ty plain by) \<Rightarrow> snd (cred_create q rsa_key a dk call name ty plain by rows)
      | (call, Rotate_cred name plain by) \<Rightarrow> snd (cred_update q rsa_key a dk call name plain by rows)
      | (call, Delete_cred refs name) \<Rightarrow> snd (cred_delete call refs name rows)
      | (call, Other_entry other oper) \<Rightarrow> store_step a dk (other, oper) rows)"

text \<open>The same on a map from names to credentials.\<close>

definition unreferenced :: "reference_check \<Rightarrow> bool" where
  "unreferenced refs = (refs = None \<or> refs = Some (Inr []))"

definition stores :: "cred_call \<Rightarrow> bool" where
  "stores call = (cc_up call 0 \<and> cc_up call 1 \<and> cc_random call \<noteq> None \<and> json_time (cc_now call))"

definition new_credential :: "cred_call \<Rightarrow> string \<Rightarrow> string \<Rightarrow> string \<Rightarrow> string \<Rightarrow> cred_fields \<Rightarrow> credential" where
  "new_credential call name ty plain by md =
     \<lparr>cm_name = name, cm_type = ty, cm_metadata = md, cm_rotated_at = None, cm_created_by = by, cm_updated_by = [],
      cm_created_at = cc_now call, cm_updated_at = cc_db_now call, cr_plaintext = plain\<rparr>"

definition rotated_credential :: "cred_call \<Rightarrow> string \<Rightarrow> string \<Rightarrow> cred_fields \<Rightarrow> credential \<Rightarrow> credential" where
  "rotated_credential call plain by md c =
     c\<lparr>cm_metadata := md, cm_rotated_at := Some (cc_now call), cm_updated_by := by, cm_updated_at := cc_db_now call,
       cr_plaintext := plain\<rparr>"

definition credential_step ::
  "(string \<Rightarrow> (string \<times> int) option) \<Rightarrow> cred_call \<times> cred_op \<Rightarrow> (string \<rightharpoonup> credential) \<Rightarrow> string \<rightharpoonup> credential" where
  "credential_step rsa_key step m =
     (case step of
        (call, Create_cred name ty plain by) \<Rightarrow>
          if name \<noteq> [] \<and> by \<noteq> [] \<and> m name = None \<and> stores call
          then (case validate_credential_value rsa_key ty plain of
                  Inl _ \<Rightarrow> m | Inr md \<Rightarrow> m(name \<mapsto> new_credential call name ty plain by md))
          else m
      | (call, Rotate_cred name plain by) \<Rightarrow>
          if name \<noteq> [] \<and> by \<noteq> [] \<and> stores call
          then (case m name of
                  None \<Rightarrow> m
                | Some c \<Rightarrow>
                    (case validate_credential_value rsa_key (cm_type c) plain of
                       Inl _ \<Rightarrow> m | Inr md \<Rightarrow> m(name \<mapsto> rotated_credential call plain by md c)))
          else m
      | (call, Delete_cred refs name) \<Rightarrow>
          if unreferenced refs \<and> cc_up call 0 \<and> cc_up call 1 then m(name := None) else m
      | (call, Other_entry other oper) \<Rightarrow> m)"

definition store_op_key :: "'p store_op \<Rightarrow> string" where
  "store_op_key oper = (case oper of Set_value key p s by \<Rightarrow> key | Delete_value key \<Rightarrow> key)"

definition step_fits :: "cred_call \<times> cred_op \<Rightarrow> bool" where
  "step_fits step =
     (random_fits (cc_random (fst step))
      \<and> (case snd step of
           Other_entry other oper \<Rightarrow>
             random_fits (sc_random other)
             \<and> take (length credential_key_prefix) (store_op_key oper) \<noteq> credential_key_prefix
         | _ \<Rightarrow> True))"

definition cred_envelope :: "credential \<Rightarrow> envelope" where
  "cred_envelope c =
     \<lparr>en_type = cm_type c, en_value = cr_plaintext c, en_metadata = cm_metadata c, en_rotated_at = cm_rotated_at c,
      en_created_by = cm_created_by c, en_updated_by = cm_updated_by c, en_created_at = cm_created_at c\<rparr>"

text \<open>How a table stands for a map of credentials.\<close>

definition cred_stored :: "codec \<Rightarrow> string \<Rightarrow> credential \<Rightarrow> json stored \<Rightarrow> bool" where
  "cred_stored q name c v =
     (cm_name c = name \<and> distinct (map fst (cm_metadata c))
      \<and> (case v of (j, secret, t, by) \<Rightarrow> marshal_envelope q (cred_envelope c) = Some j \<and> secret \<and> t = cm_updated_at c))"

definition holds_at :: "codec \<Rightarrow> string \<Rightarrow> credential option \<Rightarrow> json stored option \<Rightarrow> bool" where
  "holds_at q name c v =
     (case (c, v) of (None, None) \<Rightarrow> True | (Some x, Some y) \<Rightarrow> cred_stored q name x y | _ \<Rightarrow> False)"

definition holds_credentials :: "codec \<Rightarrow> (json, 'c) aead \<Rightarrow> string \<Rightarrow> (string \<rightharpoonup> credential) \<Rightarrow> 'c config_table \<Rightarrow> bool" where
  "holds_credentials q a k m rows =
     (sealed_table a k rows \<and> m [] = None \<and> (\<forall>name. holds_at q name (m name) (contents a k (credential_key name) rows)))"

lemma credential_key_inj [simp]: "credential_key x = credential_key y \<longleftrightarrow> x = y"
  by (simp add: credential_key_def)

lemma holds_put:
  assumes "holds_credentials q a k m rows" "nonce_fits n" "name \<noteq> []" "cred_stored q name c v"
  shows "holds_credentials q a k (m(name \<mapsto> c)) (put_entry a k n (credential_key name) v rows)"
proof -
  have sealed: "sealed_table a k rows" using assms(1) by (simp add: holds_credentials_def)
  show ?thesis
    using assms config_kv.invar_update [OF sealed assms(2)] config_kv.lookup_update [OF sealed assms(2)]
    by (auto simp: holds_credentials_def holds_at_def)
qed

lemma holds_removed:
  assumes "holds_credentials q a k m rows"
  shows "holds_credentials q a k (m(name := None)) (delete_config_entry (credential_key name) rows)"
proof -
  have sealed: "sealed_table a k rows" using assms by (simp add: holds_credentials_def)
  show ?thesis
    using assms config_kv.invar_remove [OF sealed] config_kv.lookup_remove [OF sealed]
    by (auto simp: holds_credentials_def holds_at_def)
qed

lemma holds_other:
  assumes "holds_credentials q a k m rows" "random_fits (sc_random other)"
    and apart: "take (length credential_key_prefix) (store_op_key oper) \<noteq> credential_key_prefix"
  shows "holds_credentials q a k m (store_step a (Some k) (other, oper) rows)"
proof -
  have sealed: "sealed_table a k rows" using assms(1) by (simp add: holds_credentials_def)
  have "store_op_key oper \<noteq> credential_key name" for name
    using apart by (auto simp: credential_key_def)
  then have "stored_step (other, oper) f (credential_key name) = f (credential_key name)" for f name
    by (cases oper) (auto simp: stored_step_def store_op_key_def fun_upd_def)
  moreover have "sealed_table a k (store_step a (Some k) (other, oper) rows)"
    "contents a k j (store_step a (Some k) (other, oper) rows) = stored_step (other, oper) (\<lambda>j. contents a k j rows) j" for j
    using store_step_refines [OF sealed, of "(other, oper)"] assms(2) by (simp_all add: fun_eq_iff)
  ultimately show ?thesis using assms(1) by (simp add: holds_credentials_def)
qed

lemma holds_entry:
  assumes "holds_credentials q a k m rows"
  shows "(case get_config_entry (credential_key name) rows of
            None \<Rightarrow> m name = None
          | Some e \<Rightarrow> \<exists>c. m name = Some c \<and> ce_updated_at e = cm_updated_at c)"
proof -
  have sealed: "sealed_table a k rows" and at: "holds_at q name (m name) (contents a k (credential_key name) rows)"
    using assms by (simp_all add: holds_credentials_def)
  show ?thesis
  proof (cases "get_config_entry (credential_key name) rows")
    case None
    then show ?thesis using at by (cases "m name") (simp_all add: contents_def holds_at_def)
  next
    case (Some e)
    obtain p where "contents a k (credential_key name) rows = Some (p, ce_secret e, ce_updated_at e, ce_updated_by e)"
      by (rule sealed_contents [OF sealed Some])
    then show ?thesis using at Some by (cases "m name") (simp_all add: holds_at_def cred_stored_def)
  qed
qed

lemma holds_read:
  assumes codec: "codec_ok q" and holds: "holds_credentials q a k m rows"
  shows "read_envelope q a (Some k) True name rows
         = (case m name of None \<Rightarrow> Inl Cred_not_found | Some c \<Rightarrow> Inr (cred_envelope c))"
proof -
  have sealed: "sealed_table a k rows" and at: "holds_at q name (m name) (contents a k (credential_key name) rows)"
    using holds by (simp_all add: holds_credentials_def)
  show ?thesis
  proof (cases "m name")
    case None
    then show ?thesis using at
      by (cases "contents a k (credential_key name) rows")
         (simp_all add: holds_at_def read_envelope_def store_get_secret_sealed [OF sealed])
  next
    case (Some c)
    then obtain j t who where v: "contents a k (credential_key name) rows = Some (j, True, t, who)"
      and j: "marshal_envelope q (cred_envelope c) = Some j" and md: "distinct (map fst (cm_metadata c))"
      using at by (cases "contents a k (credential_key name) rows") (auto simp: holds_at_def cred_stored_def)
    have "unmarshal_envelope q j = Some (cred_envelope c)"
      by (rule envelope_roundtrip [OF codec _ j]) (simp add: cred_envelope_def md)
    then show ?thesis by (simp add: read_envelope_def store_get_secret_sealed [OF sealed] v Some)
  qed
qed

lemma holds_get:
  assumes codec: "codec_ok q" and holds: "holds_credentials q a k m rows" and up: "up 0" "up 1"
  shows "cred_get q a (Some k) up name rows = (case m name of None \<Rightarrow> Inl Cred_not_found | Some c \<Rightarrow> Inr c)"
proof (cases "m name")
  case None
  then show ?thesis using up by (simp add: cred_get_def holds_read [OF codec holds])
next
  case (Some c)
  then obtain e where e: "get_config_entry (credential_key name) rows = Some e" "ce_updated_at e = cm_updated_at c"
    using holds_entry [OF holds, of name] by (cases "get_config_entry (credential_key name) rows") auto
  have "holds_at q name (m name) (contents a k (credential_key name) rows)"
    using holds by (simp add: holds_credentials_def)
  then have "cm_name c = name"
    using Some by (cases "contents a k (credential_key name) rows") (simp_all add: holds_at_def cred_stored_def)
  with Some e up show ?thesis
    by (simp add: cred_get_def holds_read [OF codec holds] store_get_entry_def meta_of_def cred_envelope_def
        cred_meta.defs credential.defs credential.equality del: One_nat_def)
qed

lemma put_envelope_store:
  assumes "holds_credentials q a k m rows" "random_fits (cc_random call)"
  shows "snd (put_envelope q a (Some k) call 1 name env by rows) =
           (case (marshal_envelope q env, cc_random call) of
              (Some j, Some n) \<Rightarrow>
                if cc_up call 1 then put_entry a k n (credential_key name) (j, True, cc_db_now call, by) rows else rows
            | _ \<Rightarrow> rows)"
  using assms
  by (auto simp: put_envelope_def put_entry_def store_set_def store_encrypt_def holds_credentials_def sealed_table_def
      split: option.split)

lemma marshals_iff:
  "(\<exists>j. marshal_envelope q env = Some j) \<longleftrightarrow>
     json_time (en_created_at env) \<and> (case en_rotated_at env of None \<Rightarrow> True | Some t \<Rightarrow> json_time t)"
  by (simp add: marshal_envelope_def)

lemma holds_written:
  assumes holds: "holds_credentials q a k m rows" and random: "random_fits (cc_random call)" and name: "name \<noteq> []"
    and c: "cm_name c = name" "distinct (map fst (cm_metadata c))" "cm_updated_at c = cc_db_now call"
    and times: "json_time (cc_now call) \<longleftrightarrow>
      json_time (cm_created_at c) \<and> (case cm_rotated_at c of None \<Rightarrow> True | Some t \<Rightarrow> json_time t)"
  shows "holds_credentials q a k
           (if cc_up call 1 \<and> cc_random call \<noteq> None \<and> json_time (cc_now call) then m(name \<mapsto> c) else m)
           (snd (put_envelope q a (Some k) call 1 name (cred_envelope c) by rows))"
proof (cases "marshal_envelope q (cred_envelope c)")
  case None
  then have "\<not> json_time (cc_now call)"
    using marshals_iff [of q "cred_envelope c"] times by (simp add: cred_envelope_def)
  then show ?thesis using holds by (simp add: put_envelope_store [OF holds random] None del: One_nat_def)
next
  case (Some j)
  then have now: "json_time (cc_now call)"
    using marshals_iff [of q "cred_envelope c"] times by (simp add: cred_envelope_def)
  show ?thesis
  proof (cases "cc_up call 1 \<and> cc_random call \<noteq> None")
    case False
    then show ?thesis using holds by (auto simp: put_envelope_store [OF holds random] Some simp del: One_nat_def split: option.split)
  next
    case True
    then obtain n where n: "cc_random call = Some n" "nonce_fits n" using random by (auto simp: random_fits_def)
    have "holds_credentials q a k (m(name \<mapsto> c))
            (put_entry a k n (credential_key name) (j, True, cc_db_now call, by) rows)"
      by (rule holds_put [OF holds n(2) name]) (simp add: cred_stored_def c Some)
    then show ?thesis using True n by (simp add: put_envelope_store [OF holds random] Some now del: One_nat_def)
  qed
qed

lemma holds_name: "holds_credentials q a k m rows \<Longrightarrow> m name = Some c \<Longrightarrow> cm_name c = name \<and> name \<noteq> []"
  by (cases "contents a k (credential_key name) rows")
     (force simp: holds_credentials_def holds_at_def cred_stored_def dest: spec [of _ name])+

lemma holds_created_time:
  assumes "holds_credentials q a k m rows" "m name = Some c"
  shows "json_time (cm_created_at c)"
proof -
  have "holds_at q name (m name) (contents a k (credential_key name) rows)"
    using assms(1) by (simp add: holds_credentials_def)
  then obtain j where "marshal_envelope q (cred_envelope c) = Some j"
    using assms(2) by (cases "contents a k (credential_key name) rows") (auto simp: holds_at_def cred_stored_def)
  then show ?thesis using marshals_iff [of q "cred_envelope c"] by (auto simp: cred_envelope_def)
qed

lemma create_refines:
  assumes holds: "holds_credentials q a k m rows" and random: "random_fits (cc_random call)"
  shows "holds_credentials q a k (credential_step rsa_key (call, Create_cred name ty plain by) m)
           (cred_step q rsa_key a (Some k) (call, Create_cred name ty plain by) rows)"
proof (cases "name \<noteq> [] \<and> by \<noteq> [] \<and> cc_up call 0 \<and> get_config_entry (credential_key name) rows = None")
  case False
  have "name \<noteq> [] \<Longrightarrow> by \<noteq> [] \<Longrightarrow> cc_up call 0 \<Longrightarrow> m name \<noteq> None"
    using False holds_entry [OF holds, of name] by (cases "get_config_entry (credential_key name) rows") auto
  then have "credential_step rsa_key (call, Create_cred name ty plain by) m = m"
    by (auto simp: credential_step_def stores_def)
  moreover have "cred_step q rsa_key a (Some k) (call, Create_cred name ty plain by) rows = rows"
    using False by (auto simp: cred_step_def cred_create_def store_get_entry_def)
  ultimately show ?thesis using holds by simp
next
  case True
  then have none: "m name = None" using holds_entry [OF holds, of name] by simp
  show ?thesis
  proof (cases "validate_credential_value rsa_key ty plain")
    case (Inl e)
    then show ?thesis
      using True holds by (simp add: cred_step_def cred_create_def store_get_entry_def credential_step_def)
  next
    case (Inr md)
    let ?c = "new_credential call name ty plain by md"
    have eq: "cred_envelope ?c = \<lparr>en_type = ty, en_value = plain, en_metadata = md, en_rotated_at = None,
                en_created_by = by, en_updated_by = [], en_created_at = cc_now call\<rparr>"
      by (simp add: cred_envelope_def new_credential_def)
    have "cred_step q rsa_key a (Some k) (call, Create_cred name ty plain by) rows
        = snd (put_envelope q a (Some k) call 1 name (cred_envelope ?c) by rows)"
      using True Inr by (auto simp: cred_step_def cred_create_def store_get_entry_def eq split: sum.split prod.split)
    moreover have "credential_step rsa_key (call, Create_cred name ty plain by) m
        = (if cc_up call 1 \<and> cc_random call \<noteq> None \<and> json_time (cc_now call) then m(name \<mapsto> ?c) else m)"
      using True Inr none by (auto simp: credential_step_def stores_def)
    ultimately show ?thesis
      using holds_written [OF holds random, of name ?c "by"] True validated_distinct [OF Inr]
      by (simp add: new_credential_def)
  qed
qed

lemma rotate_refines:
  assumes codec: "codec_ok q" and holds: "holds_credentials q a k m rows" and random: "random_fits (cc_random call)"
  shows "holds_credentials q a k (credential_step rsa_key (call, Rotate_cred name plain by) m)
           (cred_step q rsa_key a (Some k) (call, Rotate_cred name plain by) rows)"
proof (cases "name \<noteq> [] \<and> by \<noteq> [] \<and> cc_up call 0")
  case False
  then have "credential_step rsa_key (call, Rotate_cred name plain by) m = m"
    by (auto simp: credential_step_def stores_def)
  moreover have "cred_step q rsa_key a (Some k) (call, Rotate_cred name plain by) rows = rows"
    using False by (auto simp: cred_step_def cred_update_def read_envelope_def store_get_secret_def)
  ultimately show ?thesis using holds by simp
next
  case True
  have read: "read_envelope q a (Some k) True name rows
      = (case m name of None \<Rightarrow> Inl Cred_not_found | Some c \<Rightarrow> Inr (cred_envelope c))"
    by (rule holds_read [OF codec holds])
  show ?thesis
  proof (cases "m name")
    case None
    then show ?thesis using True holds by (simp add: cred_step_def cred_update_def read credential_step_def)
  next
    case (Some c)
    show ?thesis
    proof (cases "validate_credential_value rsa_key (cm_type c) plain")
      case (Inl e)
      then show ?thesis
        using True holds Some by (simp add: cred_step_def cred_update_def read credential_step_def cred_envelope_def)
    next
      case (Inr md)
      let ?c = "rotated_credential call plain by md c"
      have eq: "(cred_envelope c)\<lparr>en_value := plain, en_metadata := md, en_rotated_at := Some (cc_now call),
                  en_updated_by := by\<rparr> = cred_envelope ?c"
        by (simp add: cred_envelope_def rotated_credential_def)
      have ty: "en_type (cred_envelope c) = cm_type c" by (simp add: cred_envelope_def)
      have "cred_step q rsa_key a (Some k) (call, Rotate_cred name plain by) rows
          = snd (put_envelope q a (Some k) call 1 name (cred_envelope ?c) by rows)"
        using True Inr Some
        by (auto simp: cred_step_def cred_update_def read ty Let_def eq split: sum.split prod.split)
      moreover have "credential_step rsa_key (call, Rotate_cred name plain by) m
          = (if cc_up call 1 \<and> cc_random call \<noteq> None \<and> json_time (cc_now call) then m(name \<mapsto> ?c) else m)"
        using True Inr Some by (auto simp: credential_step_def stores_def)
      ultimately show ?thesis
        using holds_written [OF holds random, of name ?c "by"] True validated_distinct [OF Inr]
          holds_name [OF holds Some] holds_created_time [OF holds Some]
        by (simp add: rotated_credential_def)
    qed
  qed
qed

lemma delete_refines:
  assumes holds: "holds_credentials q a k m rows"
  shows "holds_credentials q a k (credential_step rsa_key (call, Delete_cred refs name) m)
           (cred_step q rsa_key a (Some k) (call, Delete_cred refs name) rows)"
proof (cases "get_config_entry (credential_key name) rows")
  case None
  then have "m name = None" using holds_entry [OF holds, of name] by simp
  then have "m(name := None) = m" by (simp add: fun_upd_idem)
  then have "credential_step rsa_key (call, Delete_cred refs name) m = m" by (simp add: credential_step_def)
  moreover have "cred_step q rsa_key a (Some k) (call, Delete_cred refs name) rows = rows"
    using None by (simp add: cred_step_def cred_delete_def store_get_entry_def)
  ultimately show ?thesis using holds by simp
next
  case (Some e)
  have "cred_step q rsa_key a (Some k) (call, Delete_cred refs name) rows
      = (if unreferenced refs \<and> cc_up call 0 \<and> cc_up call 1 then delete_config_entry (credential_key name) rows else rows)"
    using Some
    by (auto simp: cred_step_def cred_delete_def store_get_entry_def store_delete_def unreferenced_def
        split: option.split sum.split list.split)
  then show ?thesis using holds holds_removed [OF holds, of name] by (simp add: credential_step_def)
qed

lemma cred_step_refines:
  assumes "codec_ok q" "holds_credentials q a k m rows" "step_fits step"
  shows "holds_credentials q a k (credential_step rsa_key step m) (cred_step q rsa_key a (Some k) step rows)"
proof -
  obtain call oper where step: "step = (call, oper)" by (cases step)
  have random: "random_fits (cc_random call)" using assms(3) by (simp add: step step_fits_def)
  show ?thesis
  proof (cases oper)
    case (Other_entry other o')
    then show ?thesis
      using holds_other [OF assms(2), of other o'] assms(3)
      by (simp add: step step_fits_def credential_step_def cred_step_def)
  qed (simp_all add: step create_refines [OF assms(2) random] rotate_refines [OF assms(1,2) random] delete_refines [OF assms(2)])
qed

lemma cred_run_refines:
  assumes "codec_ok q"
  shows "holds_credentials q a k m rows \<Longrightarrow> \<forall>step\<in>set ops. step_fits step \<Longrightarrow>
     holds_credentials q a k (fold (credential_step rsa_key) ops m) (fold (cred_step q rsa_key a (Some k)) ops rows)"
proof (induction ops arbitrary: m rows)
  case (Cons step ops)
  then show ?case using cred_step_refines [OF assms Cons.prems(1), of step rsa_key] by simp
qed simp

lemma holds_nothing: "aead_ok a \<Longrightarrow> aes_key k \<Longrightarrow> holds_credentials q a k Map.empty []"
  by (simp add: holds_credentials_def sealed_table_def holds_at_def)

section \<open>The list of credentials\<close>

lemma sql_like_any: "sql_like ''%'' s"
  by (induction s) auto

lemma sql_like_prefix:
  "\<forall>c\<in>set p. c \<noteq> CHR ''%'' \<and> c \<noteq> CHR ''_'' \<and> c \<noteq> CHR 0x5C \<Longrightarrow> sql_like (p @ ''%'') s \<longleftrightarrow> take (length p) s = p"
proof (induction p arbitrary: s)
  case Nil
  show ?case by (simp only: append_Nil sql_like_any) simp
next
  case (Cons c p)
  then show ?case by (cases s) auto
qed

lemma credential_keys: "take (length credential_key_prefix) key = credential_key_prefix \<longleftrightarrow> (\<exists>name. key = credential_key name)"
  by (metis append_eq_conv_conj credential_key_def append_take_drop_id)

lemma credential_like: "sql_like (credential_key_prefix @ ''%'') key \<longleftrightarrow> (\<exists>name. key = credential_key name)"
proof -
  have "sql_like (credential_key_prefix @ ''%'') key \<longleftrightarrow> take (length credential_key_prefix) key = credential_key_prefix"
    by (rule sql_like_prefix) (simp add: credential_key_prefix_def)
  then show ?thesis by (simp only: credential_keys)
qed

lemma name_of_credential_key [simp]: "credential_name_from_key (credential_key name) = name"
  by (simp add: credential_name_from_key_def credential_key_def)

text \<open>What a table that holds \<open>m\<close> lists for an entry of one of its credentials.\<close>

definition listed_for :: "(string \<rightharpoonup> credential) \<Rightarrow> entry_metadata \<Rightarrow> bool" where
  "listed_for m e =
     (\<exists>name c. em_key e = credential_key name \<and> m name = Some c \<and> em_updated_at e = cm_updated_at c)"

definition meta_at :: "(string \<rightharpoonup> credential) \<Rightarrow> entry_metadata \<Rightarrow> cred_meta" where
  "meta_at m e = cred_meta.truncate (the (m (credential_name_from_key (em_key e))))"

lemma list_credentials_holds:
  assumes codec: "codec_ok q" and holds: "holds_credentials q a k m rows"
  shows "(\<And>e. e \<in> set es \<Longrightarrow> listed_for m e) \<Longrightarrow>
     list_credentials q a (Some k) (\<lambda>_. True) i ft es rows
     = filter (\<lambda>c. ft = [] \<or> cm_type c = ft) (map (meta_at m) es)"
proof (induction es arbitrary: i)
  case (Cons e es)
  obtain name c where e: "em_key e = credential_key name" "m name = Some c" "em_updated_at e = cm_updated_at c"
    using Cons.prems [of e] by (auto simp: listed_for_def)
  have name: "cm_name c = name" "name \<noteq> []" using holds_name [OF holds e(2)] by simp_all
  have read: "read_envelope q a (Some k) True name rows = Inr (cred_envelope c)"
    using holds_read [OF codec holds, of name] e(2) by simp
  then obtain j where j: "store_get_secret a (Some k) True (credential_key name) rows = Inr j"
      "unmarshal_envelope q j = Some (cred_envelope c)"
    by (auto simp: read_envelope_def split: sum.splits store_error.splits option.splits)
  have meta: "meta_of name (cred_envelope c) (em_updated_at e) = meta_at m e"
    by (simp add: meta_of_def cred_envelope_def meta_at_def e name cred_meta.defs)
  have ty: "cm_type (meta_at m e) = cm_type c" "en_type (cred_envelope c) = cm_type c"
    by (simp_all add: meta_at_def e cred_meta.defs cred_envelope_def)
  show ?case
    using Cons by (cases "ft = []") (simp_all add: e(1) name(2) j meta ty Let_def)
qed simp

lemma holds_listed:
  assumes holds: "holds_credentials q a k m rows"
  shows "e \<in> set (to_metadata (list_config_entries_by_prefix collation credential_key_prefix rows))
         \<Longrightarrow> listed_for m e"
    and "m name = Some c \<Longrightarrow>
         \<exists>e\<in>set (to_metadata (list_config_entries_by_prefix collation credential_key_prefix rows)). em_key e = credential_key name"
proof -
  have sealed: "sealed_table a k rows" using holds by (simp add: holds_credentials_def)
  show "listed_for m e"
    if entry: "e \<in> set (to_metadata (list_config_entries_by_prefix collation credential_key_prefix rows))"
  proof -
    obtain r name where r: "r \<in> set rows" "ce_key r = credential_key name"
        "em_key e = credential_key name" "em_updated_at e = ce_updated_at r"
      using entry by (auto simp: to_metadata_def list_config_entries_by_prefix_def credential_like)
    have "get_config_entry (credential_key name) rows = Some r"
      using r sealed by (simp add: get_config_entry_def sealed_table_def row_of_iff)
    then show ?thesis using holds_entry [OF holds, of name] r by (auto simp: listed_for_def)
  qed
  assume "m name = Some c"
  then obtain r where "get_config_entry (credential_key name) rows = Some r"
    using holds_entry [OF holds, of name] by (cases "get_config_entry (credential_key name) rows") auto
  then have "r \<in> set rows" "ce_key r = credential_key name" using get_config_entry_Some by auto
  then show "\<exists>e\<in>set (to_metadata (list_config_entries_by_prefix collation credential_key_prefix rows)).
      em_key e = credential_key name"
    by (force simp: to_metadata_def list_config_entries_by_prefix_def credential_like)
qed

lemma holds_list:
  assumes codec: "codec_ok q" and holds: "holds_credentials q a k m rows"
  shows "\<exists>cs. list_with_filter q collation a (Some k) (\<lambda>_. True) ft rows = Inr cs
      \<and> distinct (map cm_name cs) \<and> sorted (map (\<lambda>c. collation (credential_key (cm_name c))) cs)
      \<and> (\<forall>c. c \<in> set cs \<longleftrightarrow>
          (\<exists>x. m (cm_name c) = Some x \<and> c = cred_meta.truncate x \<and> (ft = [] \<or> cm_type x = ft)))"
proof -
  let ?es = "to_metadata (list_config_entries_by_prefix collation credential_key_prefix rows)"
  let ?cs = "filter (\<lambda>c. ft = [] \<or> cm_type c = ft) (map (meta_at m) ?es)"
  have sealed: "sealed_table a k rows" using holds by (simp add: holds_credentials_def)
  have run: "list_with_filter q collation a (Some k) (\<lambda>_. True) ft rows = Inr ?cs"
    using list_credentials_holds [OF codec holds, of ?es 1 ft] holds_listed(1) [OF holds, of _ collation]
    by (simp add: list_with_filter_def store_list_by_prefix_def)
  have listed: "credential_key (cm_name (meta_at m e)) = em_key e
      \<and> m (cm_name (meta_at m e)) = Some (the (m (credential_name_from_key (em_key e))))"
    if entry: "e \<in> set ?es" for e
  proof -
    obtain name c where e: "em_key e = credential_key name" "m name = Some c"
      using holds_listed(1) [OF holds entry] by (auto simp: listed_for_def)
    then show ?thesis using holds_name [OF holds e(2)] by (simp add: meta_at_def cred_meta.defs)
  qed
  have keys: "map (\<lambda>c. credential_key (cm_name c)) (map (meta_at m) ?es) = map em_key ?es"
    using listed by simp
  have order: "map em_key ?es = map ce_key (list_config_entries_by_prefix collation credential_key_prefix rows)"
    by (simp add: to_metadata_def)
  have distinct: "distinct (map em_key ?es)"
    using sealed unfolding order
    by (simp add: list_config_entries_by_prefix_def distinct_sort_key_map distinct_map_filter sealed_table_def)
  have sorted: "sorted (map collation (map em_key ?es))"
    unfolding order by (simp add: list_config_entries_by_prefix_def comp_def)
  have "distinct (map cm_name ?cs)"
  proof -
    have "distinct (map (\<lambda>c. credential_key (cm_name c)) (map (meta_at m) ?es))" using distinct by (simp only: keys)
    then have "distinct (map cm_name (map (meta_at m) ?es))"
      by (metis (no_types, lifting) distinct_map map_map comp_def list.map_comp map_eq_conv)
    then show ?thesis by (rule distinct_map_filter)
  qed
  moreover have "sorted (map (\<lambda>c. collation (credential_key (cm_name c))) ?cs)"
  proof -
    have eq: "map (\<lambda>c. collation (credential_key (cm_name c))) (map (meta_at m) ?es) = map collation (map em_key ?es)"
      using listed by simp
    have "sorted (map (\<lambda>c. collation (credential_key (cm_name c))) (map (meta_at m) ?es))"
      by (simp only: eq sorted)
    then show ?thesis by (rule sorted_filter)
  qed
  moreover have "c \<in> set ?cs \<longleftrightarrow>
      (\<exists>x. m (cm_name c) = Some x \<and> c = cred_meta.truncate x \<and> (ft = [] \<or> cm_type x = ft))" for c
  proof
    assume "c \<in> set ?cs"
    then obtain e where e: "e \<in> set ?es" "c = meta_at m e" "ft = [] \<or> cm_type c = ft" by auto
    from listed [OF e(1)] e(2,3) show
      "\<exists>x. m (cm_name c) = Some x \<and> c = cred_meta.truncate x \<and> (ft = [] \<or> cm_type x = ft)"
      by (auto simp: meta_at_def cred_meta.defs)
  next
    assume "\<exists>x. m (cm_name c) = Some x \<and> c = cred_meta.truncate x \<and> (ft = [] \<or> cm_type x = ft)"
    then obtain x where x: "m (cm_name c) = Some x" "c = cred_meta.truncate x" "ft = [] \<or> cm_type x = ft" by auto
    obtain e where e: "e \<in> set ?es" "em_key e = credential_key (cm_name c)"
      using holds_listed(2) [OF holds x(1)] by blast
    have "meta_at m e = c" using x by (simp add: meta_at_def e(2))
    moreover have "ft = [] \<or> cm_type c = ft" using x by (simp add: cred_meta.defs)
    ultimately show "c \<in> set ?cs" using e(1) by auto
  qed
  ultimately show ?thesis using run by blast
qed

section \<open>The credential store is a map of credentials\<close>

lemma metadata_of_get:
  assumes "cred_get q a dk up name rows = (case m name of None \<Rightarrow> Inl Cred_not_found | Some c \<Rightarrow> Inr c)"
  shows "cred_get_metadata q a dk up name rows =
           (case m name of None \<Rightarrow> Inl Cred_not_found | Some c \<Rightarrow> Inr (cred_meta.truncate c))"
proof -
  have "cred_get_metadata q a dk up name rows = map_sum id cred_meta.truncate (cred_get q a dk up name rows)"
    by (simp add: cred_get_def cred_get_metadata_def cred_meta.defs credential.defs split: sum.split)
  then show ?thesis using assms by (simp split: option.split)
qed

lemma list_with_filter_holds:
  assumes codec: "codec_ok q" and holds: "holds_credentials q a k m rows"
  shows "list_with_filter q collation a (Some k) (\<lambda>_. True) ft rows =
     Inr (filter (\<lambda>c. ft = [] \<or> cm_type c = ft)
            (map (meta_at m) (to_metadata (list_config_entries_by_prefix collation credential_key_prefix rows))))"
  using list_credentials_holds [OF codec holds, of "to_metadata (list_config_entries_by_prefix collation credential_key_prefix rows)" 1 ft]
    holds_listed(1) [OF holds, of _ collation]
  by (simp add: list_with_filter_def store_list_by_prefix_def)

text \<open>Whatever creations, rotations, deletions and writes of settings follow one another, and whichever of
  their calls fail, the encrypted store holds the credentials a plain map holds after the same operations:
  reading one gives its value and metadata as last written, one that is not there is reported as such, the
  metadata never carry the value, and the list names each credential once, in the order of the
  database, the list of a type those of the type. The keys of other settings do not begin with the prefix of
  credentials.\<close>

theorem credentials_refine_map:
  assumes lib: "aead_ok a" "codec_ok q" and key: "aes_key k" and fits: "\<forall>step\<in>set ops. step_fits step"
    and rows: "rows = fold (cred_step q rsa_key a (Some k)) ops []"
    and m: "m = fold (credential_step rsa_key) ops Map.empty"
  shows "cred_get q a (Some k) (\<lambda>_. True) name rows = (case m name of None \<Rightarrow> Inl Cred_not_found | Some c \<Rightarrow> Inr c)
    \<and> cred_get_metadata q a (Some k) (\<lambda>_. True) name rows =
        (case m name of None \<Rightarrow> Inl Cred_not_found | Some c \<Rightarrow> Inr (cred_meta.truncate c))
    \<and> (\<exists>cs. cred_list q collation a (Some k) (\<lambda>_. True) rows = Inr cs
        \<and> cred_list_by_type q collation a (Some k) (\<lambda>_. True) ty rows =
            (if is_valid_credential_type ty then Inr (filter (\<lambda>c. cm_type c = ty) cs) else Inl Cred_type_unknown)
        \<and> distinct (map cm_name cs) \<and> sorted (map (\<lambda>c. collation (credential_key (cm_name c))) cs)
        \<and> (\<forall>c. c \<in> set cs \<longleftrightarrow> (\<exists>x. m (cm_name c) = Some x \<and> c = cred_meta.truncate x)))"
proof -
  have holds: "holds_credentials q a k m rows"
    using cred_run_refines [OF lib(2) holds_nothing [OF lib(1) key] fits, of rsa_key] by (simp add: rows m)
  have get: "cred_get q a (Some k) (\<lambda>_. True) name rows = (case m name of None \<Rightarrow> Inl Cred_not_found | Some c \<Rightarrow> Inr c)"
    by (rule holds_get [OF lib(2) holds]) simp_all
  have "ty \<noteq> []" if "is_valid_credential_type ty"
    using that by (auto simp: is_valid_credential_type_def type_chef_client_key_def type_generic_def)
  then have by_type: "cred_list_by_type q collation a (Some k) (\<lambda>_. True) ty rows =
      (if is_valid_credential_type ty then Inr (filter (\<lambda>c. cm_type c = ty) cs) else Inl Cred_type_unknown)"
    if "cred_list q collation a (Some k) (\<lambda>_. True) rows = Inr cs" for cs
    using that by (auto simp: cred_list_def cred_list_by_type_def list_with_filter_holds [OF lib(2) holds])
  show ?thesis
    using get metadata_of_get [where m = m and name = name, OF get] by_type holds_list [OF lib(2) holds, of collation "[]"]
    by (auto simp: cred_list_def)
qed

text \<open>The instance in which a time is a number of strokes.\<close>

definition stroke_codec :: codec where
  "stroke_codec = \<lparr>b64 = id, unb64 = Some,
     rfc3339 = (\<lambda>t. (if t < 0 then CHR ''-'' else CHR ''+'') # replicate (nat \<bar>t\<bar>) CHR ''x''),
     parse_rfc3339 = (\<lambda>s. case s of [] \<Rightarrow> None
        | c # r \<Rightarrow> Some (if c = CHR ''-'' then - int (length r) else int (length r)))\<rparr>"

lemma stroke_codec_ok: "codec_ok stroke_codec"
  by (simp add: codec_ok_def stroke_codec_def)

text \<open>A witness: a password is stored at the first instant of 1970, and then replaced.\<close>

definition easy_call :: "int \<Rightarrow> cred_call" where
  "easy_call t = \<lparr>cc_up = (\<lambda>_. True), cc_random = Some toy_nonce, cc_now = t, cc_db_now = t + 1\<rparr>"

definition stored_and_rotated :: "(cred_call \<times> cred_op) list" where
  "stored_and_rotated = [(easy_call 0, Create_cred ''smtp'' ''generic'' ''secret'' ''ann''),
                         (easy_call 1, Rotate_cred ''smtp'' ''better'' ''bob'')]"

lemma stored_and_rotated_fits: "\<forall>step\<in>set stored_and_rotated. step_fits step"
  by (simp add: stored_and_rotated_def step_fits_def easy_call_def random_fits_def nonce_fits_def toy_nonce_ok)

lemma stored_and_rotated_map:
  "map_option cr_plaintext (fold (credential_step (\<lambda>_. None)) stored_and_rotated Map.empty ''smtp'') = Some ''better''"
proof -
  have "json_time 0" "json_time 1" by code_simp+
  then show ?thesis
    by (simp add: stored_and_rotated_def credential_step_def stores_def easy_call_def validate_credential_value_def
        is_valid_credential_type_def type_generic_def type_chef_client_key_def new_credential_def rotated_credential_def)
qed

theorem credentials_refine_map_witness:
  "\<exists>c. cred_get stroke_codec tuple_aead (Some toy_key) (\<lambda>_. True) ''smtp''
     (fold (cred_step stroke_codec (\<lambda>_. None) tuple_aead (Some toy_key)) stored_and_rotated []) = Inr c
     \<and> cr_plaintext c = ''better''"
proof -
  obtain c where "fold (credential_step (\<lambda>_. None)) stored_and_rotated Map.empty ''smtp'' = Some c" "cr_plaintext c = ''better''"
    using stored_and_rotated_map by auto
  then show ?thesis
    using credentials_refine_map [where rsa_key = "\<lambda>_. None" and name = "''smtp''" and collation = length
        and ty = "''generic''", OF tuple_aead_ok stroke_codec_ok toy_key_ok stored_and_rotated_fits refl refl] by simp
qed

section \<open>What the adapter reports without an encryption key\<close>

text \<open>Reading is refused with the error the contract names; creating is not, its error is the store's.\<close>

theorem create_without_key:
  assumes "name \<noteq> []" "by \<noteq> []" "cc_up call 0" "validate_credential_value rsa_key ty plain = Inr md" "json_time (cc_now call)"
  shows "cred_create q rsa_key a None call name ty plain by [] = (Inl (Cred_store Store_key_required), [])"
    and "get_config_entry (credential_key name) rows = Some e \<Longrightarrow> ce_secret e \<Longrightarrow> up 0 \<Longrightarrow>
           cred_get q a None up name rows = Inl Cred_key_not_configured"
  using assms
  by (simp_all add: cred_create_def store_get_entry_def get_config_entry_def row_of_def put_envelope_def
      marshal_envelope_def store_set_def store_encrypt_def cred_get_def read_envelope_def store_get_secret_def store_decrypt_def)

section \<open>Precedence of the sources\<close>

text \<open>The first source that is configured decides, and a failure of it is final.\<close>

theorem resolve_uses_first_source:
  "(src_credential_name src \<noteq> [] \<longrightarrow> resolve_credential get env read src = resolve_from_database get (src_credential_name src))
   \<and> (resolve_credential get env read src = Inl No_credential_configured \<longleftrightarrow> \<not> source_is_configured src)"
  by (auto simp: resolve_credential_def source_is_configured_def resolve_from_database_def resolve_from_env_var_def
      resolve_from_file_def Let_def split: option.split sum.split)

end
