(* ===== verification/Spec2Isabelle.thy ===== *)
theory Spec2Isabelle
  imports Fingerprint Readiness Queue_Manager Rate_Limiter Cron_Schedule Unified_Diff Access_Control VM_Lifecycle Ownership_Schedule Kitchen_Batches Event_Hub Run_Lists Coverage Usage Credential_Store
begin

text \<open>
  A verification development for Chef Migration Metrics, the Go program that decides which nodes
  of a Chef fleet can be upgraded. Paths below are under \<open>src/internal/\<close>.

  THE PROGRAM. Cookbooks reach the program from git repositories and from Chef servers. CookStyle
  scans them, and each offence is classified (blocker, review, informational) by rules on the cop
  and the file it is in (\<open>analysis/cop_classification.go\<close>, \<open>scan_scope.go\<close>); the scan gets a
  status and a complexity score (\<open>remediation/complexity.go\<close>), and its offences are kept as a
  fingerprint from which status and score can be derived again under later rules
  (\<open>analysis/cookstyle_fingerprint.go\<close>, \<open>cookstyle_recompute.go\<close>). Test Kitchen runs are queued
  in the database (\<open>datastore/kitchen_run_queue.go\<close>), executed by a pool of workers
  (\<open>kitchenqueue/manager.go\<close>) whose VM starts a limiter paces (\<open>kitchenqueue/ratelimiter.go\<close>).
  The readiness of a node (\<open>analysis/readiness.go\<close>) combines its cookbooks' verdicts, from
  CookStyle, Test Kitchen and human review, with the space on its disk (\<open>analysis/disk.go\<close>).
  Collections and saved imports run on cron schedules; owners are attached to nodes, cookbooks and
  repositories by hand, by rules and by imports; a request reaches its handler through the
  authentication of a session or a credential; machines that test runs leave behind are swept.
  Settings and the secrets of the program are kept encrypted in one table.

  THE THEORIES.

  \<open>Prelude\<close>: strings, case conversion and counters as Go has them; generic lemmas; the fact
  collection \<open>go_defs\<close>. \<open>Go_Path\<close>: \<open>path.Match\<close> and \<open>filepath.Clean\<close>. \<open>Go_Json\<close>: decoded
  JSON values and \<open>float64\<close> rounding. \<open>Go_Time\<close>: calendar dates and times in UTC. \<open>Go_Strconv\<close>:
  decimal text. \<open>Go_Fmt\<close>: what \<open>%q\<close> prints. These model the standard library the code calls.

  \<open>Scan_Scope\<close>: \<open>analysis/scan_scope.go\<close>. The curated exclusions, the operator's decisions
  merged over them, and which paths the merged scope excludes: for every path, the operator
  decides the patterns he names and the curated list the others.

  \<open>Cop_Table\<close>, \<open>Cop_Classification\<close>: the embedded table of cops
  (\<open>remediation/copmapping.go\<close>), the resolver (\<open>analysis/cop_classification.go\<close> and
  \<open>cop_classification_defaults.go\<close>) and the rollup (\<open>cookstyle_status.go\<close>). The loop of the
  rollup is shown equal to its specification, the worst classification of an offence in scope;
  an offence is a blocker exactly on the operator's word, or in his silence for a custom cop or when
  the entry of the curated data for what the message flags names a removal at or before the target.
  The interfaces \<open>CopClassifier\<close> and \<open>ScanScoper\<close> are the locales \<open>cop_classifier\<close> and
  \<open>scan_scoper\<close>, interpreted on the resolver and on the scope.

  \<open>Status\<close>: \<open>tkstatus/status.go\<close>, \<open>staleness/staleness.go\<close> (64-bit durations that wrap and
  saturate).

  \<open>Complexity\<close>: \<open>remediation/complexity.go\<close>, \<open>complexity_classification.go\<close> and the two
  complexity tables of \<open>datastore/\<close>. The score in closed form; what scoring one item or a batch
  writes and counts; the blast radius.

  \<open>Fingerprint\<close>: the fingerprint of a scan and the trend. A fingerprint keeps no messages, so
  re-deriving from it gives what the scan would have given for offences without them, and what it
  did give when no message changed the class of its cop (\<open>read_by_name\<close>); the fingerprint depends on the multiset of offences only; grouping loses
  nothing; the trend is a step function that changes at scan times only.

  \<open>Disk\<close>: \<open>analysis/disk.go\<close> and the file system functions of \<open>readiness.go\<close>. The verdict uses
  the deepest mount over the install path, whatever the order of the map, when mounts differ.

  \<open>Readiness\<close>: \<open>analysis/readiness.go\<close>. The verdict on a cookbook, the precedence of human
  review, the status of a node in closed form, the evaluation of an organisation and what it
  stores.

  \<open>Kitchen_Queue\<close>: the queue as a list of rows with the constraints and unique indexes of
  \<open>migrations/0024\<close>. Every operation keeps ids and active keys unique and moves a row only along
  its state machine (\<open>may_become\<close>); a claim takes the next row. What the manager relies on is
  the locale \<open>run_store\<close>, interpreted on the queue; its lemma that claims are distinct gives
  that no item is claimed twice.

  \<open>Queue_Manager\<close>: the worker pool as the step relation \<open>manager_step\<close>, one step for each
  section of a goroutine others can observe, interleaved freely with the cancel handler, resizes,
  \<open>Stop\<close> and the other operations on the queue. By rule induction over reachable states: an item
  runs once and in one worker, the running map is exact, the count of workers is exact, shutdown
  ends. An item cancelled while its worker waits for the limiter still runs.

  \<open>Rate_Limiter\<close>: the limiter's loop. No window holds more starts than configured, starts keep
  their distance, and a refused start is granted at the time the limiter computes.

  \<open>Cron_Schedule\<close>: \<open>collector/scheduler.go\<close>. The parser of cron expressions, the search for the
  next firing time, which is the first minute that matches when the search finds one, and what
  the scheduler's loop does with the answer.

  \<open>Unified_Diff\<close>: the diff of an autocorrect preview (\<open>remediation/autocorrect.go\<close>), from the
  table of longest common subsequences to the hunks; applying the hunks to the old lines gives the
  new ones, added lines exactly and unchanged ones up to their line ends.

  \<open>Auth_Store\<close>, \<open>Auth\<close>, \<open>Auth_Handlers\<close>, \<open>Account_Origin\<close>, \<open>Access_Control\<close>: the tables of users, sessions and
  credentials with their constraints, the checks of \<open>auth/\<close>, the requests of \<open>webapi/\<close> that
  change them, and what they promise together: a guarded handler runs only for the owner of a
  valid session or credential of a sufficient role, a locked account stays out whatever follows,
  wrong passwords lock an account at the threshold, and no login through the identity provider takes
  over a local account, after every sequence of requests, those whose database calls fail included.

  \<open>VM_Lifecycle\<close>: names of machines and what they carry (\<open>hypervisor/hypervisor.go\<close>), the
  inventory, the sweep of orphans (\<open>sweep.go\<close>, \<open>orphan.go\<close>) and its table. A name parses back to
  its parts; a sweep asks for exactly the machines old enough whose name begins with the prefix as
  configured, which one generated under a prefix that sanitising changes does not; the second pass of the clean-up finds
  nothing.

  \<open>Ownership_Store\<close>, \<open>Ownership_Rules\<close>, \<open>Ownership_Import\<close>, \<open>Ownership_Handlers\<close>, \<open>Ownership\<close>:
  owners, assignments and aliases. The store, with its constraints; look-up with inheritance and
  the rules run after a collection (\<open>collector/ownership.go\<close>); owner names, the mapping of rows,
  their classification and the commit of an import; the requests on them; and, over all of these,
  the invariant of the tables, the relation between owners and entities that the store refines,
  the fixed point the rules reach, and what an import's report says.

  \<open>Ownership_Schedule\<close>: saved imports (\<open>datastore/ownership_import_mappings.go\<close>), the requests
  that keep them and the scheduler that runs them (\<open>ownershipschedule/scheduler.go\<close>). Every
  enabled import can run; it runs at the ticks its schedule comes round in.

  \<open>Kitchen_Planner\<close>: the match of a platform, the plan of a repository, the filters and the
  estimate of a batch, and the requests that queue instances of one repository. A plan has one
  instance for each suite and platform, and its status is in closed form.

  \<open>Kitchen_Batches\<close>: the tables of batches and instances, the requests on a batch, and its
  background work as a job that takes a step at a time among requests, queue operations and
  restarts. A request is one step, except that the check and the start of a run request are two,
  as they are two critical sections of the code. At most one batch is worked on when run requests
  do not overlap, and two are when they do; a cancelled batch leaves its runs in the queue.

  \<open>Event_Hub\<close>: the hub that passes events to browsers (\<open>webapi/eventhub.go\<close>) and the loops
  of a connection (\<open>websocket.go\<close>), as steps interleaved in any order: the run loop takes one
  registration, unregistration or event, or offers an event to one client; a connection sends on
  the hub's channels and reads its own. Until the hub is stopped, what goes into the channel of a client are
  events since its registration, in order, and those that need no subscription without a gap; nothing
  panics unless the hub is stopped. A connection's first look can discard one event.

  \<open>Run_Lists\<close>: the run lists of roles and nodes (\<open>collector/runlist.go\<close>,
  \<open>nodekitchen/runlist.go\<close>) and the collapse of duplicate snapshots (\<open>collector/dedup.go\<close>).
  Expansion is characterised by the relation \<open>expansion\<close>, the cookbooks of a node by the closure
  of a relation. Depth is bounded by the code's 50, and resolving ends because every cookbook of
  the node is queued once at most.

  \<open>Coverage\<close>: \<open>analysis/coverage.go\<close>: which platforms of production the tests of a cookbook
  cover, and the line scanner that finds the platforms of a kitchen file.

  \<open>Usage\<close>: \<open>analysis/usage.go\<close>: which cookbook versions nodes run. The rows of a run are equal
  to their specification for every order in which the goroutines deliver.

  \<open>Secrets\<close>: \<open>secrets/encryption.go\<close>, \<open>validation.go\<close>. The at-rest format of an encrypted
  credential, which opens only for the type and name it was sealed for. \<open>Config_Store\<close>: the table of
  settings (\<open>datastore/config_store.go\<close>), the encrypted store over it
  (\<open>configstore/configstore.go\<close>), the split of the Test Kitchen section and the migration. The store
  refines a map whatever calls fail, which is the locale \<open>key_value\<close> interpreted on it; a value moved
  to another key does not open. \<open>Credential_Store\<close>: credentials as envelopes in that store
  (\<open>credential_adapter.go\<close>), which refine a map of credentials, and the precedence of their sources
  (\<open>secrets/resolver.go\<close>).

  STATE AND ERRORS. A struct is a record, an enumeration of strings that the code compares is a
  defined constant per string, a closed set of cases a datatype. A pointer that may be nil is an
  option; an error is the left case of a sum. A map that the code ranges over is an association
  list in the order of the iteration, so that a statement for all lists is one for all orders; a
  map that is only looked up is a partial function. A table is a map from its unique key to a row,
  or the list of its rows. Counts are integers; a 64-bit quantity is a word where wrap-around
  can occur in the code's own arithmetic.

  A handler takes the decoded request and returns the status code and the new tables; it is one
  atomic step unless the theory says otherwise. Where the code ignores or reports a failing call,
  whether the call fails is an argument, so that statements cover both.

  PARAMETERS. The digest of a fingerprint (sha256), password and token hashes, compiled regular
  expressions and their captures, \<open>strconv.ParseFloat\<close>, the rendering of values by \<open>fmt\<close>, the
  test for an IP address, the similarity score of names, the source of an import's rows, the clock,
  generated ids, authenticated encryption (law \<open>aead_ok\<close>: what was sealed opens, and only under the
  same key, nonce and associated data), base64 and the text of a time (\<open>codec_ok\<close>), and what the datastore's read queries return are arguments. A statement on a
  cancelled context fails and changes nothing, as \<open>database/sql\<close> documents. Ids are compared as
  the database prints them. Theorems with hypotheses have a witness that discharges them on
  concrete input.

  BOUNDS. Every function of the development is total: loops recurse on their input, except the
  glob matcher and the path cleaner, which have their own measure. A call of the limiter runs over
  the list of what its iterations observe and is \<open>Pending\<close> when the list ends; the theorem on
  refused starts says when it ends. Eight steps a worker, the bound on shutdown, is the longest
  way from the top of the loop through a claimed item back to it. The search for the next firing
  time is bounded by the code itself, by 1460 days; its measure is the time left. Ranges of a cron
  field run under a fuel of 200, more than the 60 values a field can hold.

  NOT MODELLED. HTTP plumbing and the frontend; TLS and ACME; external processes (git,
  cookstyle, kitchen) and hypervisor APIs; queries that only read for display; logging and events;
  the loading of configuration. These are I/O around services the repository does not hold, or
  rendering.
\<close>

end
